(* ===== verification/Prelude.thy ===== *)
theory Prelude
  imports Complex_Main "HOL-Library.Multiset" "HOL-Library.Word" "HOL-Library.Sublist"
begin

text \<open>
  Shared vocabulary of the development: the collections of rewrite rules that the component
  theories fill, the conversions between the numeric types of C++, and lemmas on lists.
\<close>

named_theorems model_defs \<open>definitions of straight-line operations, unfolded in proofs\<close>
named_theorems frame_simps \<open>fields that an operation leaves alone\<close>

subsection \<open>C conversions\<close>

text \<open>C division and conversion from double to int both truncate towards zero.\<close>

definition cdiv :: "int \<Rightarrow> int \<Rightarrow> int" where
  "cdiv a b = sgn a * sgn b * (\<bar>a\<bar> div \<bar>b\<bar>)"

definition to_int :: "real \<Rightarrow> int" where
  "to_int x = (if 0 \<le> x then \<lfloor>x\<rfloor> else \<lceil>x\<rceil>)"

text \<open>\<open>fmod\<close> of the C library: the quotient is truncated.\<close>

definition c_fmod :: "real \<Rightarrow> real \<Rightarrow> real" where
  "c_fmod x y = x - y * of_int (to_int (x / y))"

text \<open>The remainder that belongs to \<open>cdiv\<close>.\<close>

definition cmod :: "int \<Rightarrow> int \<Rightarrow> int" where
  "cmod a b = a - cdiv a b * b"

lemma cmod_nonneg: "0 \<le> a \<Longrightarrow> 0 < b \<Longrightarrow> cmod a b = a mod b"
  by (cases "a = 0") (simp_all add: cmod_def cdiv_def minus_div_mult_eq_mod)

lemma cdiv_nonneg: "0 \<le> a \<Longrightarrow> 0 < b \<Longrightarrow> cdiv a b = a div b"
  by (cases "a = 0") (simp_all add: cdiv_def)

lemma to_int_of_int [simp]: "to_int (of_int k) = k"
  by (simp add: to_int_def)

lemma to_int_nonneg: "0 \<le> x \<Longrightarrow> 0 \<le> to_int x"
  by (simp add: to_int_def)

subsection \<open>Lists\<close>

lemma subseq_remove1 [simp, intro]: "subseq (remove1 x xs) xs"
  by (induction xs) auto

lemma subseq_snoc [simp, intro]: "subseq xs (xs @ [x])"
  by (rule list_emb_prefix) simp

end
