(* ===== verification/PacketQueue.thy ===== *)
theory PacketQueue
  imports Prelude
begin

text \<open>
  The linked list of packets under every queue discipline: class PacketQueue of
  queue/queue.h and queue/queue.cc.  Packets are named by their address; \<open>pmem\<close> is the
  memory the code mutates (the \<open>next_\<close> pointer of every packet, which all queues share) and
  the header fields the disciplines read.  The lemmas show that the pointer code implements
  a list: \<open>pq_ok s xs\<close> says that the list \<open>xs\<close> of addresses is stored in \<open>s\<close>.
\<close>

type_synonym addr = nat

record pmem =
  pm_next :: "addr \<Rightarrow> addr option"
  pm_size :: "addr \<Rightarrow> int"
  pm_ect :: "addr \<Rightarrow> bool"
  pm_ce :: "addr \<Rightarrow> bool"

record pqueue =
  pq_head :: "addr option"
  pq_tail :: "addr option"
  pq_len :: int
  pq_bytes :: int
  pq_iter :: "addr option"

type_synonym pqs = "pmem \<times> pqueue"

subsection \<open>Operations\<close>

definition pq_init :: pqueue where
  "pq_init = \<lparr>pq_head = None, pq_tail = None, pq_len = 0, pq_bytes = 0, pq_iter = None\<rparr>"

definition set_next :: "addr \<Rightarrow> addr option \<Rightarrow> pmem \<Rightarrow> pmem" where
  "set_next p v m = m\<lparr>pm_next := (pm_next m)(p := v)\<rparr>"

definition pq_length :: "pqs \<Rightarrow> int" where
  "pq_length s = pq_len (snd s)"

definition pq_byteLength :: "pqs \<Rightarrow> int" where
  "pq_byteLength s = pq_bytes (snd s)"

definition pq_enque :: "addr \<Rightarrow> pqs \<Rightarrow> addr option \<times> pqs" where
  "pq_enque p = (\<lambda>(m, q).
     let pt = pq_tail q;
         (m, q) = (case pq_tail q of
             None \<Rightarrow> (m, q\<lparr>pq_head := Some p, pq_tail := Some p\<rparr>)
           | Some t \<Rightarrow> (set_next t (Some p) m, q\<lparr>pq_tail := Some p\<rparr>));
         m = set_next p None m
     in (pt, (m, q\<lparr>pq_len := pq_len q + 1, pq_bytes := pq_bytes q + pm_size m p\<rparr>)))"

definition pq_deque :: "pqs \<Rightarrow> addr option \<times> pqs" where
  "pq_deque = (\<lambda>(m, q). case pq_head q of
     None \<Rightarrow> (None, (m, q))
   | Some p \<Rightarrow>
       let q = q\<lparr>pq_head := pm_next m p\<rparr>;
           q = (if pq_tail q = Some p then q\<lparr>pq_head := None, pq_tail := None\<rparr> else q)
       in (Some p, (m, q\<lparr>pq_len := pq_len q - 1, pq_bytes := pq_bytes q - pm_size m p\<rparr>)))"

text \<open>The loop of \<open>lookup\<close> runs \<open>n + 1\<close> times at most, even on a cyclic list.\<close>

function lookup_from :: "(addr \<Rightarrow> addr option) \<Rightarrow> addr option \<Rightarrow> int \<Rightarrow> addr option" where
  "lookup_from nx p n = (case p of
     None \<Rightarrow> None
   | Some a \<Rightarrow> if n - 1 < 0 then Some a else lookup_from nx (nx a) (n - 1))"
  by pat_completeness auto
termination by (relation "measure (\<lambda>(nx, p, n). nat n)") auto

declare lookup_from.simps [simp del]

definition pq_lookup :: "int \<Rightarrow> pqs \<Rightarrow> addr option" where
  "pq_lookup n s = lookup_from (pm_next (fst s)) (pq_head (snd s)) n"

text \<open>
  \<open>remove\<close> searches from the head and calls \<open>abort()\<close> when the packet is not there.  The
  outer \<open>None\<close> is a search that never ends; the inner sum tells abort from success.
\<close>

datatype pq_error = Abort | NullDeref

partial_function (option) remove_from ::
  "addr \<Rightarrow> addr option \<Rightarrow> addr option \<Rightarrow> pqs \<Rightarrow> (pq_error + pqs) option" where
  "remove_from target pp p s = (case p of
     None \<Rightarrow> Some (Inl Abort)
   | Some a \<Rightarrow>
       if a = target then
         (case pp of
            None \<Rightarrow> Some (Inr (snd (pq_deque s)))
          | Some b \<Rightarrow> (case s of (m, q) \<Rightarrow>
              let q = (if pq_tail q = Some a then q\<lparr>pq_tail := Some b\<rparr> else q);
                  m = set_next b (pm_next m a) m
              in Some (Inr (m, q\<lparr>pq_len := pq_len q - 1,
                                 pq_bytes := pq_bytes q - pm_size m a\<rparr>))))
       else remove_from target (Some a) (pm_next (fst s) a) s)"

definition pq_remove :: "addr \<Rightarrow> pqs \<Rightarrow> (pq_error + pqs) option" where
  "pq_remove target s = remove_from target None (pq_head (snd s)) s"

definition pq_remove_after :: "addr option \<Rightarrow> addr option \<Rightarrow> pqs \<Rightarrow> pq_error + pqs" where
  "pq_remove_after pkt prev s = (case pkt of
     None \<Rightarrow> Inr s
   | Some p \<Rightarrow>
       if pq_head (snd s) = Some p then Inr (snd (pq_deque s))
       else (case prev of
          None \<Rightarrow> Inl NullDeref
        | Some b \<Rightarrow> (case s of (m, q) \<Rightarrow>
            let m = set_next b (pm_next m p) m;
                q = (if pq_tail q = Some p then q\<lparr>pq_tail := Some b\<rparr> else q)
            in Inr (m, q\<lparr>pq_len := pq_len q - 1, pq_bytes := pq_bytes q - pm_size m p\<rparr>))))"

definition pq_enqueHead :: "addr \<Rightarrow> pqs \<Rightarrow> pqs" where
  "pq_enqueHead p = (\<lambda>(m, q).
     let q = (if pq_head q = None then q\<lparr>pq_tail := Some p\<rparr> else q);
         m = set_next p (pq_head q) m
     in (m, q\<lparr>pq_head := Some p, pq_len := pq_len q + 1, pq_bytes := pq_bytes q + pm_size m p\<rparr>))"

definition pq_resetIterator :: "pqs \<Rightarrow> pqs" where
  "pq_resetIterator = (\<lambda>(m, q). (m, q\<lparr>pq_iter := pq_head q\<rparr>))"

definition pq_getNext :: "pqs \<Rightarrow> addr option \<times> pqs" where
  "pq_getNext = (\<lambda>(m, q). case pq_iter q of
     None \<Rightarrow> (None, (m, q))
   | Some t \<Rightarrow> (Some t, (m, q\<lparr>pq_iter := pm_next m t\<rparr>)))"

subsection \<open>The list in memory\<close>

fun chain :: "(addr \<Rightarrow> addr option) \<Rightarrow> addr option \<Rightarrow> addr list \<Rightarrow> bool" where
  "chain nx h [] \<longleftrightarrow> h = None"
| "chain nx h (x # xs) \<longleftrightarrow> h = Some x \<and> chain nx (nx x) xs"

fun walk :: "(addr \<Rightarrow> addr option) \<Rightarrow> addr option \<Rightarrow> nat \<Rightarrow> addr list" where
  "walk nx h 0 = []"
| "walk nx h (Suc n) = (case h of None \<Rightarrow> [] | Some a \<Rightarrow> a # walk nx (nx a) n)"

definition pq_ok :: "pqs \<Rightarrow> addr list \<Rightarrow> bool" where
  "pq_ok = (\<lambda>(m, q) xs.
     chain (pm_next m) (pq_head q) xs \<and> distinct xs \<and>
     pq_tail q = (if xs = [] then None else Some (last xs)) \<and>
     pq_len q = int (length xs) \<and> pq_bytes q = sum_list (map (pm_size m) xs))"

definition pq_elems :: "pqs \<Rightarrow> addr list" where
  "pq_elems = (\<lambda>(m, q). walk (pm_next m) (pq_head q) (nat (pq_len q)))"

definition pq_inv :: "pqs \<Rightarrow> bool" where
  "pq_inv s \<longleftrightarrow> pq_ok s (pq_elems s)"

lemma set_next_sel [simp]:
  "pm_next (set_next p v m) = (pm_next m)(p := v)"
  "pm_size (set_next p v m) = pm_size m"
  "pm_ect (set_next p v m) = pm_ect m"
  "pm_ce (set_next p v m) = pm_ce m"
  by (simp_all add: set_next_def)

lemma chain_upd [simp]: "a \<notin> set xs \<Longrightarrow> chain (nx(a := v)) h xs = chain nx h xs"
  by (induction xs arbitrary: h) auto

lemma chain_None [simp]: "chain nx None xs \<longleftrightarrow> xs = []"
  by (cases xs) auto

lemma chain_snoc:
  "chain nx h xs \<Longrightarrow> distinct (xs @ [p]) \<Longrightarrow> xs \<noteq> [] \<Longrightarrow>
   chain (nx(last xs := Some p, p := None)) h (xs @ [p])"
proof (induction xs arbitrary: h)
  case (Cons x xs)
  then show ?case by (cases "xs = []") auto
qed simp

lemma chain_walk: "chain nx h xs \<Longrightarrow> walk nx h (length xs) = xs"
  by (induction xs arbitrary: h) auto

lemma pq_ok_elems: "pq_ok s xs \<Longrightarrow> pq_elems s = xs"
  by (auto simp: pq_ok_def pq_elems_def chain_walk split: prod.splits)

lemma pq_inv_ok: "pq_ok s xs \<Longrightarrow> pq_inv s"
  by (simp add: pq_inv_def pq_ok_elems)

lemma pq_okD:
  assumes "pq_ok s xs"
  shows "pq_length s = int (length xs)"
    and "pq_byteLength s = sum_list (map (pm_size (fst s)) xs)"
    and "distinct xs"
  using assms by (auto simp: pq_ok_def pq_length_def pq_byteLength_def split: prod.splits)

subsection \<open>The contract of a packet queue\<close>

text \<open>
  What the queue disciplines rely on: \<open>ok s xs\<close> relates a state to the list of packets it
  holds, and the operations act on that list.
\<close>

locale packet_queue =
  fixes ok :: "'s \<Rightarrow> 'p list \<Rightarrow> bool"
    and enq :: "'p \<Rightarrow> 's \<Rightarrow> 's"
    and deq :: "'s \<Rightarrow> 'p option \<times> 's"
    and lookup :: "int \<Rightarrow> 's \<Rightarrow> 'p option"
    and rem :: "'p \<Rightarrow> 's \<Rightarrow> ('e + 's) option"
  assumes enq_ok: "ok s xs \<Longrightarrow> p \<notin> set xs \<Longrightarrow> ok (enq p s) (xs @ [p])"
    and deq_Nil: "ok s [] \<Longrightarrow> deq s = (None, s)"
    and deq_Cons: "ok s (x # xs) \<Longrightarrow> \<exists>s'. deq s = (Some x, s') \<and> ok s' xs"
    and lookup_nth: "ok s xs \<Longrightarrow> nat n < length xs \<Longrightarrow> lookup n s = Some (xs ! nat n)"
    and lookup_None: "ok s xs \<Longrightarrow> length xs \<le> nat n \<Longrightarrow> lookup n s = None"
    and rem_ok: "ok s xs \<Longrightarrow> p \<in> set xs \<Longrightarrow> \<exists>s'. rem p s = Some (Inr s') \<and> ok s' (remove1 p xs)"
begin

lemma enq_list: "ok s xs \<Longrightarrow> distinct (xs @ ps) \<Longrightarrow> ok (fold enq ps s) (xs @ ps)"
proof (induction ps arbitrary: s xs)
  case (Cons p ps)
  then have "ok (enq p s) (xs @ [p])" by (auto intro: enq_ok)
  with Cons.IH [of "enq p s" "xs @ [p]"] Cons.prems show ?case by simp
qed simp

lemma deq_hd: "ok s xs \<Longrightarrow> fst (deq s) = (case xs of [] \<Rightarrow> None | x # _ \<Rightarrow> Some x)"
  by (cases xs) (auto simp: deq_Nil dest: deq_Cons)

lemma deq_tl: "ok s xs \<Longrightarrow> ok (snd (deq s)) (tl xs)"
  by (cases xs) (auto simp: deq_Nil dest: deq_Cons)

lemma deq_unless: "ok s xs \<Longrightarrow> fst (deq s) = None \<longleftrightarrow> xs = []"
  by (cases xs) (auto simp: deq_Nil dest: deq_Cons)

end

text \<open>Taking \<open>n\<close> packets out of a queue.\<close>

fun take_out :: "('s \<Rightarrow> 'p option \<times> 's) \<Rightarrow> nat \<Rightarrow> 's \<Rightarrow> 'p list \<times> 's" where
  "take_out d 0 s = ([], s)"
| "take_out d (Suc n) s = (case d s of
     (None, s') \<Rightarrow> ([], s')
   | (Some p, s') \<Rightarrow> (let (ps, t) = take_out d n s' in (p # ps, t)))"

context packet_queue begin

lemma take_out_ok:
  "ok s xs \<Longrightarrow> \<exists>t. take_out deq n s = (take n xs, t) \<and> ok t (drop n xs)"
proof (induction n arbitrary: s xs)
  case (Suc n)
  show ?case
  proof (cases xs)
    case Nil
    with Suc.prems show ?thesis by (simp add: deq_Nil)
  next
    case (Cons x ys)
    with Suc.prems obtain s' where d: "deq s = (Some x, s')" and "ok s' ys"
      using deq_Cons by blast
    with Suc.IH obtain t where "take_out deq n s' = (take n ys, t)" "ok t (drop n ys)"
      by blast
    with d Cons show ?thesis by simp
  qed
qed simp

text \<open>First in, first out: what is put in comes out in the same order, after what was there.\<close>

lemma fifo_order:
  assumes "ok s xs" "distinct (xs @ ps)"
  shows "fst (take_out deq (length xs + length ps) (fold enq ps s)) = xs @ ps"
  using take_out_ok [OF enq_list [OF assms], of "length xs + length ps"] by auto

end

subsection \<open>The pointer code meets the contract\<close>

lemma pq_ok_pair:
  "pq_ok (m, q) xs \<longleftrightarrow> chain (pm_next m) (pq_head q) xs \<and> distinct xs \<and>
     pq_tail q = (if xs = [] then None else Some (last xs)) \<and>
     pq_len q = int (length xs) \<and> pq_bytes q = sum_list (map (pm_size m) xs)"
  by (simp add: pq_ok_def)

lemma pq_ok_init: "pq_ok (m, pq_init) []"
  by (simp add: pq_ok_def pq_init_def)

lemma pq_enque_ok:
  assumes "pq_ok s xs" "p \<notin> set xs"
  shows "pq_ok (snd (pq_enque p s)) (xs @ [p])"
proof -
  obtain m q where s: "s = (m, q)" by (cases s)
  show ?thesis
  proof (cases "xs = []")
    case True
    with assms s show ?thesis
      by (auto simp: pq_ok_pair pq_enque_def Let_def)
  next
    case False
    with assms s have "chain ((pm_next m)(last xs := Some p, p := None)) (pq_head q) (xs @ [p])"
      by (intro chain_snoc) (auto simp: pq_ok_pair)
    with assms s False show ?thesis
      by (auto simp: pq_ok_pair pq_enque_def Let_def)
  qed
qed

lemma pq_deque_Nil: "pq_ok s [] \<Longrightarrow> pq_deque s = (None, s)"
  by (auto simp: pq_ok_def pq_deque_def split: prod.splits)

lemma pq_deque_Cons: "pq_ok s (x # xs) \<Longrightarrow> \<exists>s'. pq_deque s = (Some x, s') \<and> pq_ok s' xs"
  by (cases s) (auto simp: pq_ok_pair pq_deque_def Let_def split: if_splits)

lemma lookup_from_chain:
  "chain nx h xs \<Longrightarrow>
   lookup_from nx h n = (if nat n < length xs then Some (xs ! nat n) else None)"
proof (induction xs arbitrary: h n)
  case Nil
  then show ?case by (simp add: lookup_from.simps [of nx None n])
next
  case (Cons x xs)
  show ?case
  proof (cases "n \<le> 0")
    case True
    with Cons.prems show ?thesis by (simp add: lookup_from.simps [of nx "Some x" n])
  next
    case False
    then have "nat n = Suc (nat (n - 1))" by simp
    with False Cons show ?thesis by (simp add: lookup_from.simps [of nx "Some x" n])
  qed
qed

text \<open>The search of \<open>remove\<close> past the packets \<open>ys @ [b]\<close> it has seen.\<close>

lemma chain_unlink:
  "chain nx h (ys @ b # a # zs) \<Longrightarrow> distinct (ys @ b # a # zs) \<Longrightarrow>
   chain (nx(b := nx a)) h (ys @ b # zs)"
proof (induction ys arbitrary: h)
  case Nil
  then show ?case by (cases zs) (auto simp: fun_upd_same fun_upd_other simp del: fun_upd_apply)
qed auto

lemma chain_at: "chain nx h (ys @ a # zs) \<Longrightarrow> chain nx (nx a) zs"
  by (induction ys arbitrary: h) auto

lemma remove_from_ok:
  assumes "pq_ok s (ys @ b # zs)" "p \<in> set zs"
  shows "\<exists>s'. remove_from p (Some b) (pm_next (fst s) b) s = Some (Inr s') \<and>
              pq_ok s' (ys @ b # remove1 p zs)"
  using assms
proof (induction zs arbitrary: ys b)
  case (Cons a zs)
  obtain m q where s: "s = (m, q)" by (cases s)
  from Cons.prems(1) s have nxt: "pm_next m b = Some a"
    by (auto simp: pq_ok_pair dest: chain_at)
  show ?case
  proof (cases "a = p")
    case True
    from Cons.prems(1) s have
      "chain ((pm_next m)(b := pm_next m a)) (pq_head q) (ys @ b # zs)"
      by (intro chain_unlink) (auto simp: pq_ok_pair)
    with True s nxt Cons.prems(1) show ?thesis
      by (subst remove_from.simps) (auto simp: pq_ok_pair Let_def)
  next
    case False
    with Cons.prems Cons.IH [of "ys @ [b]" a] s nxt show ?thesis
      by (subst remove_from.simps) auto
  qed
qed simp

lemma pq_remove_ok:
  assumes "pq_ok s xs" "p \<in> set xs"
  shows "\<exists>s'. pq_remove p s = Some (Inr s') \<and> pq_ok s' (remove1 p xs)"
proof -
  from assms obtain x ys where xs: "xs = x # ys" by (cases xs) auto
  obtain m q where s: "s = (m, q)" by (cases s)
  from assms(1) xs s have hd: "pq_head q = Some x" by (auto simp: pq_ok_pair)
  show ?thesis
  proof (cases "x = p")
    case True
    with assms xs s hd pq_deque_Cons [of s x ys] show ?thesis
      by (auto simp: pq_remove_def remove_from.simps [of p None])
  next
    case False
    with assms xs remove_from_ok [of s "[]" x ys p] s hd show ?thesis
      by (auto simp: pq_remove_def remove_from.simps [of p None])
  qed
qed

interpretation pq: packet_queue pq_ok "\<lambda>p s. snd (pq_enque p s)" pq_deque pq_lookup pq_remove
proof (unfold_locales, goal_cases)
  case (1 s xs p)
  then show ?case by (rule pq_enque_ok)
next
  case (2 s)
  then show ?case by (rule pq_deque_Nil)
next
  case (3 s x xs)
  then show ?case by (rule pq_deque_Cons)
next
  case (4 s xs n)
  then show ?case by (cases s) (auto simp: pq_ok_pair pq_lookup_def lookup_from_chain)
next
  case (5 s xs n)
  then show ?case by (cases s) (auto simp: pq_ok_pair pq_lookup_def lookup_from_chain)
next
  case (6 s xs p)
  then show ?case by (rule pq_remove_ok)
qed

subsection \<open>The other operations, and what no operation changes\<close>

lemma pq_enqueHead_ok: "pq_ok s xs \<Longrightarrow> p \<notin> set xs \<Longrightarrow> pq_ok (pq_enqueHead p s) (p # xs)"
  by (cases s; cases xs) (auto simp: pq_ok_pair pq_enqueHead_def Let_def)

lemma pq_remove_after_ok:
  assumes "pq_ok s (ys @ b # a # zs)"
  shows "\<exists>s'. pq_remove_after (Some a) (Some b) s = Inr s' \<and> pq_ok s' (ys @ b # zs)"
proof -
  obtain m q where s: "s = (m, q)" by (cases s)
  from assms s have "chain ((pm_next m)(b := pm_next m a)) (pq_head q) (ys @ b # zs)"
    by (intro chain_unlink) (auto simp: pq_ok_pair)
  moreover from assms s have "pq_head q \<noteq> Some a"
    by (cases ys) (auto simp: pq_ok_pair)
  ultimately show ?thesis
    using assms s by (auto simp: pq_ok_pair pq_remove_after_def Let_def)
qed

lemma pq_iter_walk:
  assumes "chain (pm_next m) (pq_iter q) xs"
  shows "fst (take_out pq_getNext (length xs) (m, q)) = xs"
  using assms
proof (induction xs arbitrary: q)
  case (Cons x xs)
  let ?q = "q\<lparr>pq_iter := pm_next m x\<rparr>"
  from Cons.prems have d: "pq_getNext (m, q) = (Some x, (m, ?q))"
    by (simp add: pq_getNext_def)
  from Cons have "fst (take_out pq_getNext (length xs) (m, ?q)) = xs" by simp
  with d show ?case by (simp add: case_prod_beta Let_def)
qed simp

lemma pq_enque_frame [frame_simps]:
  "pm_size (fst (snd (pq_enque p s))) = pm_size (fst s)"
  "pm_ect (fst (snd (pq_enque p s))) = pm_ect (fst s)"
  "pm_ce (fst (snd (pq_enque p s))) = pm_ce (fst s)"
  by (cases s; simp add: pq_enque_def Let_def split: option.splits)+

lemma pq_deque_frame [frame_simps]: "fst (snd (pq_deque s)) = fst s"
  by (cases s) (simp add: pq_deque_def Let_def split: option.splits)

text \<open>Searching for a packet that is not there ends in \<open>abort()\<close>.\<close>

lemma remove_from_absent:
  "chain (pm_next (fst s)) h xs \<Longrightarrow> p \<notin> set xs \<Longrightarrow> remove_from p pp h s = Some (Inl Abort)"
proof (induction xs arbitrary: h pp)
  case Nil
  then show ?case by (subst remove_from.simps) simp
next
  case (Cons x xs)
  then show ?case by (subst remove_from.simps) auto
qed

lemma pq_remove_absent: "pq_ok s xs \<Longrightarrow> p \<notin> set xs \<Longrightarrow> pq_remove p s = Some (Inl Abort)"
  by (cases s) (auto simp: pq_remove_def pq_ok_pair intro: remove_from_absent)

end
