(* ===== verification/QueueBase.thy ===== *)
theory QueueBase
  imports PacketQueue
begin

text \<open>
  Class Queue of queue/queue.h and queue/queue.cc: the part every queueing discipline
  inherits.  A discipline's own fields extend the record \<open>queue\<close>; its virtual \<open>enque\<close> and
  \<open>deque\<close> are arguments of the operations that call them.  Packets handed to another object
  are recorded in \<open>q_out\<close>, in order.
\<close>

datatype qevent = Dropped addr | EarlyDropped addr | Traced addr | Sent addr

record queue =
  q_pq :: pqs
  q_lim :: int
  q_blocked :: bool
  q_unblock_on_resume :: bool
  q_true_ave :: real
  q_total_time :: real
  q_last_change :: real
  q_old_util :: real
  q_util_weight :: real
  q_util_check_intv :: real
  q_period_begin :: real
  q_cur_util :: real
  q_buf_slot :: nat
  q_util_buf :: "real list"
  q_util_records :: int
  q_out :: "qevent list"

definition emit :: "qevent \<Rightarrow> 'a queue_scheme \<Rightarrow> 'a queue_scheme" where
  "emit e s = s\<lparr>q_out := q_out s @ [e]\<rparr>"

subsection \<open>Statistics\<close>

definition queue_updateStats :: "real \<Rightarrow> int \<Rightarrow> 'a queue_scheme \<Rightarrow> 'a queue_scheme" where
  "queue_updateStats now queuesize s =
     (let newtime = now - q_total_time s in
      if newtime > 0 then
        (let oldave = q_true_ave s; oldtime = q_total_time s;
             newtime = now - q_total_time s
         in s\<lparr>q_true_ave := (oldtime * oldave + newtime * of_int queuesize) / now,
              q_total_time := now\<rparr>)
      else s)"

text \<open>
  The loop of \<open>utilUpdate\<close>: \<open>guard++ < util_records_\<close> bounds it by the number of records,
  which is the first argument here.
\<close>

fun util_loop :: "nat \<Rightarrow> real \<Rightarrow> real \<Rightarrow> real \<Rightarrow> real \<Rightarrow> 'a queue_scheme \<Rightarrow> 'a queue_scheme" where
  "util_loop 0 int_end link_state tot_intv intv s = s"
| "util_loop (Suc n) int_end link_state tot_intv intv s =
     (if tot_intv + intv > q_util_check_intv s then
        util_loop n int_end link_state tot_intv (intv - q_util_check_intv s)
          (s\<lparr>q_period_begin := int_end,
             q_util_buf := (q_util_buf s)[q_buf_slot s := q_cur_util s],
             q_buf_slot := (q_buf_slot s + 1) mod nat (q_util_records s),
             q_cur_util := link_state\<rparr>)
      else s)"

definition queue_utilUpdate :: "real \<Rightarrow> real \<Rightarrow> bool \<Rightarrow> 'a queue_scheme \<Rightarrow> 'a queue_scheme" where
  "queue_utilUpdate int_begin int_end link_state s =
     (let ls = of_bool link_state :: real;
          decay = exp (- q_util_weight s * (int_end - int_begin));
          s = s\<lparr>q_old_util := ls + (q_old_util s - ls) * decay\<rparr>
      in if q_util_records s = 0 then s
         else
           (let intv = int_end - int_begin; tot_intv = int_begin - q_period_begin s
            in if intv \<noteq> 0 \<or> tot_intv \<noteq> 0 then
                 (let s = s\<lparr>q_cur_util := (ls * intv + q_cur_util s * tot_intv) / (intv + tot_intv)\<rparr>
                  in util_loop (nat (q_util_records s)) int_end ls tot_intv intv s)
               else s))"

definition queue_account :: "real \<Rightarrow> 'a queue_scheme \<Rightarrow> 'a queue_scheme" where
  "queue_account now s = (queue_utilUpdate (q_last_change s) now (q_blocked s) s)\<lparr>q_last_change := now\<rparr>"

definition queue_utilization :: "real \<Rightarrow> 'a queue_scheme \<Rightarrow> real \<times> 'a queue_scheme" where
  "queue_utilization now s = (let s = queue_account now s in (q_old_util s, s))"

fun peak_of :: "real \<Rightarrow> real list \<Rightarrow> real" where
  "peak_of peak [] = peak"
| "peak_of peak (u # us) = peak_of (if u > peak then u else peak) us"

definition queue_peak_utilization :: "real \<Rightarrow> 'a queue_scheme \<Rightarrow> real \<times> 'a queue_scheme" where
  "queue_peak_utilization now s =
     (if q_util_records s = 0 then queue_utilization now s
      else (let s = queue_account now s
            in (peak_of 0 (take (nat (q_util_records s)) (q_util_buf s)), s)))"

subsection \<open>Moving packets\<close>

definition queue_recv ::
  "(real \<Rightarrow> addr \<Rightarrow> 'a queue_scheme \<Rightarrow> 'a queue_scheme option) \<Rightarrow>
   (real \<Rightarrow> 'a queue_scheme \<Rightarrow> addr option \<times> 'a queue_scheme) \<Rightarrow>
   real \<Rightarrow> addr \<Rightarrow> 'a queue_scheme \<Rightarrow> 'a queue_scheme option" where
  "queue_recv enq deq now p s = (case enq now p s of
     None \<Rightarrow> None
   | Some s \<Rightarrow>
       if \<not> q_blocked s then
         (case deq now s of
            (None, s) \<Rightarrow> Some s
          | (Some p, s) \<Rightarrow>
              let s = queue_account now s;
                  s = s\<lparr>q_blocked := True\<rparr>
              in Some (emit (Sent p) s))
       else Some s)"

definition queue_resume ::
  "(real \<Rightarrow> 'a queue_scheme \<Rightarrow> addr option \<times> 'a queue_scheme) \<Rightarrow>
   real \<Rightarrow> 'a queue_scheme \<Rightarrow> 'a queue_scheme" where
  "queue_resume deq now s = (case deq now s of
     (Some p, s) \<Rightarrow> emit (Sent p) s
   | (None, s) \<Rightarrow>
       if q_unblock_on_resume s then (queue_account now s)\<lparr>q_blocked := False\<rparr>
       else (queue_account now s)\<lparr>q_blocked := True\<rparr>)"

text \<open>\<open>while ((p = deque()) != 0) drop(p);\<close> may not end for an arbitrary \<open>deque\<close>.\<close>

partial_function (option) drop_all ::
  "('a queue_scheme \<Rightarrow> addr option \<times> 'a queue_scheme) \<Rightarrow> 'a queue_scheme \<Rightarrow> 'a queue_scheme option" where
  "drop_all deq s = (case deq s of
     (None, s') \<Rightarrow> Some s'
   | (Some p, s') \<Rightarrow> drop_all deq (emit (Dropped p) s'))"

definition queue_reset ::
  "('a queue_scheme \<Rightarrow> addr option \<times> 'a queue_scheme) \<Rightarrow> 'a queue_scheme \<Rightarrow> 'a queue_scheme option" where
  "queue_reset deq s = drop_all deq (s\<lparr>q_total_time := 0, q_true_ave := 0\<rparr>)"

subsection \<open>Frames\<close>

lemma emit_sel [simp]: "q_out (emit e s) = q_out s @ [e]" "q_pq (emit e s) = q_pq s"
  "q_blocked (emit e s) = q_blocked s" "q_lim (emit e s) = q_lim s"
  "q_unblock_on_resume (emit e s) = q_unblock_on_resume s" "queue.more (emit e s) = queue.more s"
  by (simp_all add: emit_def)

lemma updateStats_frame [frame_simps]:
  "q_pq (queue_updateStats now n s) = q_pq s" "q_out (queue_updateStats now n s) = q_out s"
  "q_blocked (queue_updateStats now n s) = q_blocked s" "q_lim (queue_updateStats now n s) = q_lim s"
  "q_unblock_on_resume (queue_updateStats now n s) = q_unblock_on_resume s"
  "queue.more (queue_updateStats now n s) = queue.more s"
  by (simp_all add: queue_updateStats_def Let_def)

lemma util_loop_frame [frame_simps]:
  "q_pq (util_loop n e l t i s) = q_pq s" "q_out (util_loop n e l t i s) = q_out s"
  "q_blocked (util_loop n e l t i s) = q_blocked s" "q_lim (util_loop n e l t i s) = q_lim s"
  "q_unblock_on_resume (util_loop n e l t i s) = q_unblock_on_resume s"
  "queue.more (util_loop n e l t i s) = queue.more s"
  "q_old_util (util_loop n e l t i s) = q_old_util s"
  by (induction n e l t i s rule: util_loop.induct) simp_all

lemma account_frame [frame_simps]:
  "q_pq (queue_account now s) = q_pq s" "q_out (queue_account now s) = q_out s"
  "q_blocked (queue_account now s) = q_blocked s" "q_lim (queue_account now s) = q_lim s"
  "q_unblock_on_resume (queue_account now s) = q_unblock_on_resume s"
  "queue.more (queue_account now s) = queue.more s"
  by (simp_all add: queue_account_def queue_utilUpdate_def Let_def util_loop_frame)

subsection \<open>What the statistics mean\<close>

text \<open>\<open>true_ave\<close> times \<open>total_time\<close> is the integral of the queue size over time.\<close>

lemma updateStats_integral:
  assumes "0 \<le> q_total_time s" "q_total_time s \<le> now"
  shows "q_true_ave (queue_updateStats now n s) * q_total_time (queue_updateStats now n s) =
         q_true_ave s * q_total_time s + of_int n * (now - q_total_time s)"
    and "q_total_time (queue_updateStats now n s) = now"
  using assms by (auto simp: queue_updateStats_def Let_def field_simps)

definition util_ok :: "'a queue_scheme \<Rightarrow> bool" where
  "util_ok s \<longleftrightarrow> 0 \<le> q_old_util s \<and> q_old_util s \<le> 1 \<and> 0 \<le> q_cur_util s \<and> q_cur_util s \<le> 1 \<and>
     (\<forall>u \<in> set (q_util_buf s). 0 \<le> u \<and> u \<le> 1)"

lemma util_loop_ok:
  "util_ok s \<Longrightarrow> 0 \<le> ls \<Longrightarrow> ls \<le> 1 \<Longrightarrow> util_ok (util_loop n e ls t i s)"
proof (induction n e ls t i s rule: util_loop.induct)
  case (2 n e ls t i s)
  let ?s = "s\<lparr>q_period_begin := e, q_util_buf := (q_util_buf s)[q_buf_slot s := q_cur_util s],
      q_buf_slot := (q_buf_slot s + 1) mod nat (q_util_records s), q_cur_util := ls\<rparr>"
  have "set ((q_util_buf s)[q_buf_slot s := q_cur_util s]) \<subseteq> insert (q_cur_util s) (set (q_util_buf s))"
    by (rule set_update_subset_insert)
  with "2.prems" have "util_ok ?s" unfolding util_ok_def by auto
  with 2 show ?case by simp
qed simp

lemma mix_bounds:
  fixes a b w :: real
  assumes "0 \<le> a" "a \<le> 1" "0 \<le> b" "b \<le> 1" "0 \<le> w" "w \<le> 1"
  shows "0 \<le> b + (a - b) * w" "b + (a - b) * w \<le> 1"
proof -
  have eq: "b + (a - b) * w = (1 - w) * b + w * a" by (simp add: algebra_simps)
  show "0 \<le> b + (a - b) * w" unfolding eq using assms by simp
  have "(1 - w) * b + w * a \<le> (1 - w) * 1 + w * 1"
    using assms by (intro add_mono mult_left_mono) auto
  then show "b + (a - b) * w \<le> 1" unfolding eq by simp
qed

lemma weighted_bounds:
  fixes l c x y :: real
  assumes "0 \<le> x" "0 \<le> y" "0 \<le> l" "l \<le> 1" "0 \<le> c" "c \<le> 1"
  shows "0 \<le> (l * x + c * y) / (x + y)" "(l * x + c * y) / (x + y) \<le> 1"
proof -
  show "0 \<le> (l * x + c * y) / (x + y)" using assms by simp
  have "l * x + c * y \<le> 1 * x + 1 * y" using assms by (intro add_mono mult_right_mono) auto
  then show "(l * x + c * y) / (x + y) \<le> 1"
    using assms by (cases "x + y = 0") (auto simp: divide_le_eq_1)
qed

lemma utilUpdate_ok:
  assumes "util_ok s" "0 \<le> q_util_weight s" "q_period_begin s \<le> b" "b \<le> e"
  shows "util_ok (queue_utilUpdate b e ls s)"
proof -
  let ?l = "of_bool ls :: real"
  let ?d = "exp (- q_util_weight s * (e - b))"
  let ?s = "s\<lparr>q_old_util := ?l + (q_old_util s - ?l) * ?d\<rparr>"
  have "?d \<le> 1" using assms by simp
  then have old: "util_ok ?s"
    using assms mix_bounds [of "q_old_util s" ?l ?d] by (simp add: util_ok_def)
  have "util_ok (?s\<lparr>q_cur_util := (?l * (e - b) + q_cur_util s * (b - q_period_begin s)) /
      ((e - b) + (b - q_period_begin s))\<rparr>)"
    using old assms weighted_bounds [of "e - b" "b - q_period_begin s" ?l "q_cur_util s"]
    by (simp add: util_ok_def)
  with old assms(1) show ?thesis
    by (simp add: queue_utilUpdate_def Let_def util_loop_ok)
qed

subsection \<open>The contract of a queueing discipline\<close>

fun out_pkts :: "qevent list \<Rightarrow> addr list" where
  "out_pkts [] = []"
| "out_pkts (Dropped p # es) = p # out_pkts es"
| "out_pkts (EarlyDropped p # es) = p # out_pkts es"
| "out_pkts (Traced p # es) = out_pkts es"
| "out_pkts (Sent p # es) = p # out_pkts es"

fun sent_pkts :: "qevent list \<Rightarrow> addr list" where
  "sent_pkts [] = []"
| "sent_pkts (Sent p # es) = p # sent_pkts es"
| "sent_pkts (e # es) = sent_pkts es"

lemma out_pkts_append [simp]: "out_pkts (xs @ ys) = out_pkts xs @ out_pkts ys"
  by (induction xs rule: out_pkts.induct) auto

lemma sent_pkts_append [simp]: "sent_pkts (xs @ ys) = sent_pkts xs @ sent_pkts ys"
  by (induction xs rule: sent_pkts.induct) auto

text \<open>Every packet is in the queue or has left it.\<close>

definition accounted :: "'a queue_scheme \<Rightarrow> addr list \<Rightarrow> addr multiset" where
  "accounted s xs = mset xs + mset (out_pkts (q_out s))"

text \<open>What a run of the queue is made of: a packet arrives, or the link is free again.\<close>

datatype queue_op = Arrive real addr | Resume real

fun queue_run ::
  "(real \<Rightarrow> addr \<Rightarrow> 'a queue_scheme \<Rightarrow> 'a queue_scheme option) \<Rightarrow>
   (real \<Rightarrow> 'a queue_scheme \<Rightarrow> addr option \<times> 'a queue_scheme) \<Rightarrow>
   queue_op list \<Rightarrow> 'a queue_scheme \<Rightarrow> 'a queue_scheme option" where
  "queue_run enq deq [] s = Some s"
| "queue_run enq deq (Arrive now p # ops) s =
     (case queue_recv enq deq now p s of None \<Rightarrow> None | Some s \<Rightarrow> queue_run enq deq ops s)"
| "queue_run enq deq (Resume now # ops) s = queue_run enq deq ops (queue_resume deq now s)"

fun arrivals :: "queue_op list \<Rightarrow> addr list" where
  "arrivals [] = []"
| "arrivals (Arrive now p # ops) = p # arrivals ops"
| "arrivals (Resume now # ops) = arrivals ops"

locale discipline =
  fixes enq :: "real \<Rightarrow> addr \<Rightarrow> 'a queue_scheme \<Rightarrow> 'a queue_scheme option"
    and deq :: "real \<Rightarrow> 'a queue_scheme \<Rightarrow> addr option \<times> 'a queue_scheme"
    and holds :: "'a queue_scheme \<Rightarrow> addr list \<Rightarrow> bool"
  assumes enq_holds: "holds s xs \<Longrightarrow> p \<notin> set xs \<Longrightarrow>
      \<exists>s' ys. enq now p s = Some s' \<and> holds s' ys \<and> subseq ys (xs @ [p]) \<and>
        accounted s' ys = add_mset p (accounted s xs) \<and>
        sent_pkts (q_out s') = sent_pkts (q_out s) \<and> q_blocked s' = q_blocked s"
    and deq_holds: "holds s xs \<Longrightarrow>
      \<exists>s'. deq now s = (case xs of [] \<Rightarrow> None | x # _ \<Rightarrow> Some x, s') \<and> holds s' (tl xs) \<and>
        q_out s' = q_out s \<and> q_blocked s' = q_blocked s"
    and holds_emit: "holds s xs \<Longrightarrow> holds (emit e s) xs"
    and holds_account: "holds s xs \<Longrightarrow> holds (queue_account now s) xs"
    and holds_blocked: "holds s xs \<Longrightarrow> holds (s\<lparr>q_blocked := b\<rparr>) xs"
    and holds_stats: "holds s xs \<Longrightarrow> holds (s\<lparr>q_total_time := 0, q_true_ave := 0\<rparr>) xs"
    and holds_distinct: "holds s xs \<Longrightarrow> distinct xs"
begin

text \<open>
  The invariant of a run: the queue is empty while the link is free, every packet that arrived
  is accounted for, and what was sent, followed by what is held, is in order of arrival.
\<close>

definition run_inv :: "addr list \<Rightarrow> 'a queue_scheme \<Rightarrow> bool" where
  "run_inv arr s \<longleftrightarrow> (\<exists>xs. holds s xs \<and> (\<not> q_blocked s \<longrightarrow> xs = []) \<and>
     accounted s xs = mset arr \<and> subseq (sent_pkts (q_out s) @ xs) arr)"

lemma recv_inv:
  assumes "run_inv arr s" "p \<notin> set arr"
  shows "\<exists>s'. queue_recv enq deq now p s = Some s' \<and> run_inv (arr @ [p]) s'"
proof -
  from assms(1) obtain xs where xs: "holds s xs" "\<not> q_blocked s \<longrightarrow> xs = []"
    "accounted s xs = mset arr" "subseq (sent_pkts (q_out s) @ xs) arr"
    unfolding run_inv_def by blast
  have "set xs \<subseteq> set arr"
    using xs(3) set_mset_mset unfolding accounted_def
    by (metis set_mset_union Un_upper1)
  with assms(2) have "p \<notin> set xs" by blast
  from enq_holds [OF xs(1) this, of now] obtain s' ys where e: "enq now p s = Some s'"
    "holds s' ys" "subseq ys (xs @ [p])" "accounted s' ys = add_mset p (accounted s xs)"
    "sent_pkts (q_out s') = sent_pkts (q_out s)" "q_blocked s' = q_blocked s" by blast
  have ord: "subseq (sent_pkts (q_out s') @ ys) (arr @ [p])"
  proof -
    have "subseq (sent_pkts (q_out s) @ ys) (sent_pkts (q_out s) @ xs @ [p])"
      by (rule list_emb_append_mono [OF subseq_order.order_refl e(3)])
    also have "subseq \<dots> (arr @ [p])"
      using list_emb_append_mono [OF xs(4), of "[p]" "[p]"] by simp
    finally show ?thesis using e(5) by simp
  qed
  have acc: "accounted s' ys = mset (arr @ [p])" using e(4) xs(3) by simp
  show ?thesis
  proof (cases "q_blocked s")
    case True
    with e ord acc show ?thesis by (auto simp: queue_recv_def run_inv_def)
  next
    case False
    from deq_holds [OF e(2), of now] obtain s'' where d:
      "deq now s' = (case ys of [] \<Rightarrow> None | x # _ \<Rightarrow> Some x, s'')" "holds s'' (tl ys)"
      "q_out s'' = q_out s'" "q_blocked s'' = q_blocked s'" by blast
    show ?thesis
    proof (cases ys)
      case Nil
      with False d e ord acc show ?thesis
        by (auto simp: queue_recv_def run_inv_def accounted_def)
    next
      case (Cons y zs)
      let ?t = "emit (Sent y) ((queue_account now s'')\<lparr>q_blocked := True\<rparr>)"
      have "queue_recv enq deq now p s = Some ?t"
        using False Cons d e by (simp add: queue_recv_def Let_def)
      moreover have "holds ?t zs"
        using d(2) Cons by (auto intro!: holds_emit holds_blocked holds_account)
      moreover have "accounted ?t zs = mset (arr @ [p])"
        using acc Cons d(3) by (simp add: accounted_def frame_simps)
      moreover have "subseq (sent_pkts (q_out ?t) @ zs) (arr @ [p])"
        using ord Cons d(3) by (simp add: frame_simps)
      ultimately show ?thesis unfolding run_inv_def by auto
    qed
  qed
qed

lemma resume_inv:
  assumes "run_inv arr s"
  shows "run_inv arr (queue_resume deq now s)"
proof -
  from assms obtain xs where xs: "holds s xs" "\<not> q_blocked s \<longrightarrow> xs = []"
    "accounted s xs = mset arr" "subseq (sent_pkts (q_out s) @ xs) arr"
    unfolding run_inv_def by blast
  from deq_holds [OF xs(1), of now] obtain s' where d:
    "deq now s = (case xs of [] \<Rightarrow> None | x # _ \<Rightarrow> Some x, s')" "holds s' (tl xs)"
    "q_out s' = q_out s" "q_blocked s' = q_blocked s" by blast
  show ?thesis
  proof (cases xs)
    case Nil
    let ?t = "queue_account now s'"
    have "holds (?t\<lparr>q_blocked := b\<rparr>) []" for b
      using d(2) Nil by (auto intro!: holds_blocked holds_account)
    with Nil d xs show ?thesis
      by (auto simp: queue_resume_def run_inv_def accounted_def frame_simps)
  next
    case (Cons y zs)
    with d(2) have "holds (emit (Sent y) s') zs" by (simp add: holds_emit)
    moreover have "q_blocked s'" using xs(2) Cons d(4) by auto
    ultimately show ?thesis
      using Cons d xs by (auto simp: queue_resume_def run_inv_def accounted_def)
  qed
qed

lemma run_keeps_inv:
  "run_inv arr s \<Longrightarrow> distinct (arr @ arrivals ops) \<Longrightarrow>
   \<exists>s'. queue_run enq deq ops s = Some s' \<and> run_inv (arr @ arrivals ops) s'"
proof (induction ops arbitrary: arr s)
  case (Cons op ops)
  show ?case
  proof (cases op)
    case (Arrive now p)
    with Cons.prems have "p \<notin> set arr" by auto
    with Cons.prems(1) obtain s' where "queue_recv enq deq now p s = Some s'" "run_inv (arr @ [p]) s'"
      using recv_inv by blast
    with Cons.IH [of "arr @ [p]" s'] Cons.prems(2) Arrive show ?thesis by auto
  next
    case (Resume now)
    with Cons.IH [OF resume_inv [OF Cons.prems(1)]] Cons.prems(2) show ?thesis by auto
  qed
qed simp

text \<open>\<open>Queue::reset\<close> ends and drops everything that was held, in order.\<close>

lemma drop_all_ok:
  "holds s xs \<Longrightarrow> \<exists>s'. drop_all (deq now) s = Some s' \<and> holds s' [] \<and>
     q_out s' = q_out s @ map Dropped xs"
proof (induction xs arbitrary: s)
  case Nil
  from deq_holds [OF Nil, of now] show ?case by (subst drop_all.simps) auto
next
  case (Cons x xs)
  from deq_holds [OF Cons.prems, of now] obtain s' where d: "deq now s = (Some x, s')"
    "holds s' xs" "q_out s' = q_out s" by auto
  from Cons.IH [OF holds_emit [OF d(2), of "Dropped x"]] d show ?case
    by (subst drop_all.simps) auto
qed

lemma reset_ok:
  "holds s xs \<Longrightarrow> \<exists>s'. queue_reset (deq now) s = Some s' \<and> holds s' [] \<and>
     q_out s' = q_out s @ map Dropped xs"
  using drop_all_ok [OF holds_stats] by (simp add: queue_reset_def)

end

text \<open>A discipline that also keeps the number of packets it holds below a bound.\<close>

locale bounded_discipline = discipline +
  fixes bound :: "'a queue_scheme \<Rightarrow> int"
  assumes bound_nonneg: "holds s xs \<Longrightarrow> 0 \<le> bound s"
    and enq_bound: "holds s xs \<Longrightarrow> p \<notin> set xs \<Longrightarrow> int (length xs) \<le> bound s \<Longrightarrow>
      enq now p s = Some s' \<Longrightarrow> holds s' ys \<Longrightarrow> int (length ys) \<le> bound s' \<and> bound s' = bound s"
    and deq_bound: "holds s xs \<Longrightarrow> bound (snd (deq now s)) = bound s"
    and bound_emit: "bound (emit e s) = bound s"
    and bound_account: "bound (queue_account now s) = bound s"
    and bound_blocked: "bound (s\<lparr>q_blocked := b\<rparr>) = bound s"
    and holds_unique: "holds s xs \<Longrightarrow> holds s ys \<Longrightarrow> xs = ys"
begin

definition bound_inv :: "int \<Rightarrow> 'a queue_scheme \<Rightarrow> bool" where
  "bound_inv b s \<longleftrightarrow> bound s = b \<and> (\<exists>xs. holds s xs \<and> int (length xs) \<le> b)"

lemma deq_bound_inv:
  assumes "bound_inv b s" "deq now s = (r, s')"
  shows "bound_inv b s'"
proof -
  from assms(1) obtain xs where xs: "holds s xs" "int (length xs) \<le> bound s" "bound s = b"
    unfolding bound_inv_def by blast
  from deq_holds [OF xs(1), of now] assms(2) have "holds s' (tl xs)" by simp
  moreover from deq_bound [OF xs(1), of now] assms(2) have "bound s' = bound s" by simp
  ultimately show ?thesis using xs(2,3) unfolding bound_inv_def by (auto intro!: exI [of _ "tl xs"])
qed

lemma recv_bound_inv:
  assumes "run_inv arr s" "p \<notin> set arr" "bound_inv b s" "queue_recv enq deq now p s = Some t"
  shows "bound_inv b t"
proof -
  from assms(3) obtain xs where xs: "holds s xs" "int (length xs) \<le> bound s" "bound s = b"
    unfolding bound_inv_def by blast
  from assms(1) obtain xs' where "holds s xs'" "accounted s xs' = mset arr"
    unfolding run_inv_def by blast
  with xs holds_unique have "accounted s xs = mset arr" by blast
  then have "set xs \<subseteq> set arr"
    unfolding accounted_def by (metis set_mset_mset set_mset_union Un_upper1)
  with assms(2) have p: "p \<notin> set xs" by blast
  from enq_holds [OF xs(1) p, of now] obtain s' ys where e: "enq now p s = Some s'" "holds s' ys"
    by blast
  with enq_bound [OF xs(1) p xs(2)] have b: "bound_inv b s'" using xs(3) unfolding bound_inv_def by metis
  obtain r s'' where d: "deq now s' = (r, s'')" by (cases "deq now s'")
  from deq_bound_inv [OF b d] have b': "bound_inv b s''" .
  then have "bound_inv b (emit ev ((queue_account now s'')\<lparr>q_blocked := True\<rparr>))" for ev
    unfolding bound_inv_def
    by (auto simp: bound_emit bound_account bound_blocked intro: holds_emit holds_account holds_blocked)
  with assms(4) e d b b' show ?thesis
    by (auto simp: queue_recv_def Let_def split: if_splits option.splits)
qed

lemma resume_bound_inv:
  assumes "bound_inv b s"
  shows "bound_inv b (queue_resume deq now s)"
proof -
  obtain r s' where d: "deq now s = (r, s')" by (cases "deq now s")
  from deq_bound_inv [OF assms d] have "bound_inv b s'" .
  then have "bound_inv b (emit ev s')" "bound_inv b ((queue_account now s')\<lparr>q_blocked := c\<rparr>)" for ev c
    unfolding bound_inv_def
    by (auto simp: bound_emit bound_account bound_blocked intro: holds_emit holds_account holds_blocked)
  with d show ?thesis by (auto simp: queue_resume_def split: option.splits)
qed

lemma run_keeps_bound:
  "run_inv arr s \<Longrightarrow> bound_inv b s \<Longrightarrow> distinct (arr @ arrivals ops) \<Longrightarrow>
   queue_run enq deq ops s = Some t \<Longrightarrow> bound_inv b t"
proof (induction ops arbitrary: arr s)
  case (Cons op ops)
  show ?case
  proof (cases op)
    case (Arrive now p)
    with Cons.prems have p: "p \<notin> set arr" by auto
    from recv_inv [OF Cons.prems(1) p, of now] obtain s' where
      s': "queue_recv enq deq now p s = Some s'" "run_inv (arr @ [p]) s'" by blast
    with recv_bound_inv [OF Cons.prems(1) p Cons.prems(2)] have "bound_inv b s'" by blast
    with Cons.IH [OF s'(2)] Cons.prems s' Arrive show ?thesis by auto
  next
    case (Resume now)
    with Cons.IH [OF resume_inv resume_bound_inv] Cons.prems show ?thesis by auto
  qed
qed simp

end

text \<open>A memory for the witnesses: packets of 1000 bytes, none linked, none ECN-capable.\<close>

definition pmem_example :: pmem where
  "pmem_example = \<lparr>pm_next = \<lambda>_. None, pm_size = \<lambda>_. 1000, pm_ect = \<lambda>_. False, pm_ce = \<lambda>_. False\<rparr>"

definition queue_example :: "int \<Rightarrow> queue" where
  "queue_example b = \<lparr>q_pq = (pmem_example, pq_init), q_lim = b, q_blocked = False,
     q_unblock_on_resume = True, q_true_ave = 0, q_total_time = 0, q_last_change = 0,
     q_old_util = 0, q_util_weight = 1, q_util_check_intv = 1, q_period_begin = 0,
     q_cur_util = 0, q_buf_slot = 0, q_util_buf = [], q_util_records = 0, q_out = []\<rparr>"

lemma run_inv_start:
  "discipline enq deq holds \<Longrightarrow> holds s [] \<Longrightarrow> q_out s = [] \<Longrightarrow> discipline.run_inv holds [] s"
  by (auto simp: discipline.run_inv_def accounted_def)

text \<open>Updates at times \<open>ts\<close>, each with the queue size since the one before.\<close>

fun area :: "real \<Rightarrow> (real \<times> int) list \<Rightarrow> real" where
  "area t [] = 0"
| "area t ((t', n) # us) = of_int n * (t' - t) + area t' us"

lemma updateStats_fold:
  assumes "0 \<le> q_total_time s" "sorted (q_total_time s # map fst us)"
  shows "q_true_ave (fold (\<lambda>(t, n). queue_updateStats t n) us s) *
         q_total_time (fold (\<lambda>(t, n). queue_updateStats t n) us s) =
         q_true_ave s * q_total_time s + area (q_total_time s) us"
  using assms
proof (induction us arbitrary: s)
  case (Cons u us)
  obtain t n where u: "u = (t, n)" by (cases u)
  with Cons.prems have t: "q_total_time s \<le> t" "sorted (t # map fst us)" "0 \<le> t" by auto
  note st = updateStats_integral [OF Cons.prems(1) t(1), of n]
  with Cons.IH [of "queue_updateStats t n s"] t u show ?case by simp
qed simp

lemma peak_of_bounds:
  "0 \<le> k \<Longrightarrow> k \<le> 1 \<Longrightarrow> \<forall>u\<in>set us. u \<le> 1 \<Longrightarrow> 0 \<le> peak_of k us \<and> peak_of k us \<le> (1 :: real)"
  by (induction k us rule: peak_of.induct) auto

lemma account_util_ok:
  assumes "util_ok s" "0 \<le> q_util_weight s" "q_period_begin s \<le> q_last_change s" "q_last_change s \<le> now"
  shows "util_ok (queue_account now s)"
  using utilUpdate_ok [OF assms] by (simp add: queue_account_def util_ok_def)

lemma peak_utilization_bounds:
  assumes "util_ok s" "0 \<le> q_util_weight s" "q_period_begin s \<le> q_last_change s" "q_last_change s \<le> now"
  shows "0 \<le> fst (queue_peak_utilization now s) \<and> fst (queue_peak_utilization now s) \<le> 1"
proof -
  note ok = account_util_ok [OF assms]
  then have "0 \<le> peak_of 0 (take k (q_util_buf (queue_account now s))) \<and>
      peak_of 0 (take k (q_util_buf (queue_account now s))) \<le> 1" for k
    by (intro peak_of_bounds) (auto simp: util_ok_def dest: in_set_takeD)
  with ok show ?thesis
    by (simp add: queue_peak_utilization_def queue_utilization_def Let_def util_ok_def)
qed

end
