(* ===== verification/DropTail.thy ===== *)
theory DropTail
  imports QueueBase
begin

text \<open>
  Class DropTail of queue/drop-tail.h and queue/drop-tail.cc: a bounded FIFO queue that drops
  an arriving packet, or the oldest one, when the bound is reached.  An operation that would
  crash the program (a null pointer handed to \<open>drop\<close>, \<open>abort()\<close>) or never end is \<open>None\<close>.
\<close>

record droptail = queue +
  dt_drop_front :: bool
  dt_summarystats :: bool
  dt_qib :: bool
  dt_mean_pktsize :: int

definition dt_size :: "droptail \<Rightarrow> int" where
  "dt_size s = (if dt_qib s then pq_byteLength (q_pq s) else pq_length (q_pq s))"

definition dt_full :: "addr \<Rightarrow> droptail \<Rightarrow> bool" where
  "dt_full p s =
     (let qlimBytes = q_lim s * dt_mean_pktsize s in
      (\<not> dt_qib s \<and> pq_length (q_pq s) + 1 \<ge> q_lim s) \<or>
      (dt_qib s \<and> pq_byteLength (q_pq s) + pm_size (fst (q_pq s)) p \<ge> qlimBytes))"

definition dt_enque :: "real \<Rightarrow> addr \<Rightarrow> droptail \<Rightarrow> droptail option" where
  "dt_enque now p s =
     (let s = (if dt_summarystats s then queue_updateStats now (dt_size s) s else s) in
      if dt_full p s then
        (if dt_drop_front s then
           (let s = s\<lparr>q_pq := snd (pq_enque p (q_pq s))\<rparr>;
                (pp, q) = pq_deque (q_pq s);
                s = s\<lparr>q_pq := q\<rparr>
            in case pp of None \<Rightarrow> None | Some pp \<Rightarrow> Some (emit (Dropped pp) s))
         else Some (emit (Dropped p) s))
      else Some (s\<lparr>q_pq := snd (pq_enque p (q_pq s))\<rparr>))"

definition dt_over :: "droptail \<Rightarrow> bool" where
  "dt_over s =
     (let qlimBytes = q_lim s * dt_mean_pktsize s in
      (\<not> dt_qib s \<and> pq_length (q_pq s) > q_lim s) \<or>
      (dt_qib s \<and> pq_byteLength (q_pq s) > qlimBytes))"

text \<open>One pass of the loop of \<open>shrink_queue\<close>.\<close>

definition dt_shrink_step :: "droptail \<Rightarrow> droptail option" where
  "dt_shrink_step s =
     (if dt_drop_front s then
        (let (pp, q) = pq_deque (q_pq s); s = s\<lparr>q_pq := q\<rparr>
         in case pp of None \<Rightarrow> None | Some pp \<Rightarrow> Some (emit (Dropped pp) s))
      else
        (case pq_tail (snd (q_pq s)) of
           None \<Rightarrow> None
         | Some pp \<Rightarrow>
             (case pq_remove pp (q_pq s) of
                Some (Inr q) \<Rightarrow> Some (emit (Dropped pp) (s\<lparr>q_pq := q\<rparr>))
              | _ \<Rightarrow> None)))"

partial_function (option) dt_shrink_queue :: "droptail \<Rightarrow> droptail option" where
  "dt_shrink_queue s =
     (if dt_over s then Option.bind (dt_shrink_step s) dt_shrink_queue else Some s)"

text \<open>The clock is absent while the scheduler is not instantiated.\<close>

definition dt_deque :: "real option \<Rightarrow> droptail \<Rightarrow> addr option \<times> droptail" where
  "dt_deque clk s =
     (let s = (case clk of
                 Some now \<Rightarrow> if dt_summarystats s then queue_updateStats now (dt_size s) s else s
               | None \<Rightarrow> s);
          (p, q) = pq_deque (q_pq s)
      in (p, s\<lparr>q_pq := q\<rparr>))"

definition dt_reset :: "real option \<Rightarrow> droptail \<Rightarrow> droptail option" where
  "dt_reset clk s = queue_reset (dt_deque clk) s"

definition dt_recv :: "real \<Rightarrow> addr \<Rightarrow> droptail \<Rightarrow> droptail option" where
  "dt_recv = queue_recv dt_enque (\<lambda>now. dt_deque (Some now))"

subsection \<open>DropTail meets the contract of a discipline\<close>

definition dt_holds :: "droptail \<Rightarrow> addr list \<Rightarrow> bool" where
  "dt_holds s xs \<longleftrightarrow> pq_ok (q_pq s) xs"

text \<open>What an arrival does to the list of packets held, and which packet is lost.\<close>

lemma dt_enque_cases:
  assumes "dt_holds s xs" "p \<notin> set xs"
  shows "\<exists>s'. dt_enque now p s = Some s' \<and> q_blocked s' = q_blocked s \<and> q_lim s' = q_lim s \<and>
    droptail.more s' = droptail.more s \<and> dt_qib s' = dt_qib s \<and>
    dt_mean_pktsize s' = dt_mean_pktsize s \<and>
    (if dt_full p s then
       if dt_drop_front s then
         dt_holds s' (tl (xs @ [p])) \<and> q_out s' = q_out s @ [Dropped (hd (xs @ [p]))]
       else dt_holds s' xs \<and> q_out s' = q_out s @ [Dropped p]
     else dt_holds s' (xs @ [p]) \<and> q_out s' = q_out s)"
proof -
  define t where "t = (if dt_summarystats s then queue_updateStats now (dt_size s) s else s)"
  have [simp]: "q_pq t = q_pq s" "q_out t = q_out s" "q_lim t = q_lim s" "q_blocked t = q_blocked s"
    "queue.more t = queue.more s"
    by (simp_all add: t_def frame_simps)
  have [simp]: "dt_qib t = dt_qib s" "dt_mean_pktsize t = dt_mean_pktsize s"
    "dt_drop_front t = dt_drop_front s" "droptail.more t = droptail.more s"
    by (cases s; cases t; simp add: t_def queue_updateStats_def Let_def split: if_splits)+
  have full: "dt_full p t = dt_full p s" by (simp add: dt_full_def)
  from assms have e: "pq_ok (snd (pq_enque p (q_pq s))) (xs @ [p])"
    by (simp add: dt_holds_def pq.enq_ok)
  from pq.deq_hd [OF e] pq.deq_tl [OF e] have
    d: "fst (pq_deque (snd (pq_enque p (q_pq s)))) = Some (hd (xs @ [p]))"
       "pq_ok (snd (pq_deque (snd (pq_enque p (q_pq s))))) (tl (xs @ [p]))"
    by (simp_all split: list.splits)
  have eq: "dt_enque now p s = (if dt_full p s then
        (if dt_drop_front s then
           Some (emit (Dropped (hd (xs @ [p]))) (t\<lparr>q_pq := snd (pq_deque (snd (pq_enque p (q_pq s))))\<rparr>))
         else Some (emit (Dropped p) t))
      else Some (t\<lparr>q_pq := snd (pq_enque p (q_pq s))\<rparr>))"
    unfolding dt_enque_def t_def [symmetric]
    using d(1) by (simp add: Let_def full case_prod_beta)
  show ?thesis
    unfolding eq using assms d(2) e by (simp add: dt_holds_def emit_def)
qed

lemma dt_deque_eq:
  assumes "dt_holds s xs"
  shows "\<exists>s'. dt_deque clk s = (case xs of [] \<Rightarrow> None | x # _ \<Rightarrow> Some x, s') \<and> dt_holds s' (tl xs) \<and>
    q_out s' = q_out s \<and> q_blocked s' = q_blocked s \<and> q_lim s' = q_lim s \<and> dt_qib s' = dt_qib s"
proof -
  define t where "t = (case clk of
      Some now \<Rightarrow> if dt_summarystats s then queue_updateStats now (dt_size s) s else s | None \<Rightarrow> s)"
  have t: "q_pq t = q_pq s" "q_out t = q_out s" "q_lim t = q_lim s" "q_blocked t = q_blocked s"
    "queue.more t = queue.more s"
    by (simp_all add: t_def frame_simps split: option.splits)
  then have "dt_qib t = dt_qib s" by (cases s; cases t) simp
  moreover have "pq_ok (q_pq s) xs" using assms by (simp add: dt_holds_def)
  moreover have "dt_deque clk s = (fst (pq_deque (q_pq s)), t\<lparr>q_pq := snd (pq_deque (q_pq s))\<rparr>)"
    using t(1) by (simp add: dt_deque_def t_def [symmetric] case_prod_beta Let_def)
  ultimately show ?thesis
    using t by (simp add: dt_holds_def pq.deq_hd pq.deq_tl)
qed

lemma dt_holds_frames:
  "dt_holds s xs \<Longrightarrow> dt_holds (emit e s) xs"
  "dt_holds s xs \<Longrightarrow> dt_holds (queue_account now s) xs"
  "dt_holds s xs \<Longrightarrow> dt_holds (s\<lparr>q_blocked := b\<rparr>) xs"
  "dt_holds s xs \<Longrightarrow> dt_holds (s\<lparr>q_total_time := 0, q_true_ave := 0\<rparr>) xs"
  by (simp_all add: dt_holds_def frame_simps)

lemma dt_qib_frames [simp]:
  "dt_qib (emit e s) = dt_qib s" "dt_qib (queue_account now s) = dt_qib s"
proof -
  have "queue.more (queue_account now s) = queue.more s" by (simp add: frame_simps)
  then show "dt_qib (queue_account now s) = dt_qib s"
    by (cases s; cases "queue_account now s") simp
qed (simp add: emit_def)

lemma dt_enque_law:
  assumes "dt_holds s xs" "p \<notin> set xs"
  shows "\<exists>s' ys. dt_enque now p s = Some s' \<and> dt_holds s' ys \<and> subseq ys (xs @ [p]) \<and>
    accounted s' ys = add_mset p (accounted s xs) \<and>
    sent_pkts (q_out s') = sent_pkts (q_out s) \<and> q_blocked s' = q_blocked s \<and>
    q_lim s' = q_lim s \<and> dt_qib s' = dt_qib s \<and>
    (ys = xs \<or> ys = tl (xs @ [p]) \<or> ys = xs @ [p] \<and> \<not> dt_full p s)"
proof -
  have tl: "mset (tl (xs @ [p])) + {#hd (xs @ [p])#} = add_mset p (mset xs)"
    by (cases xs) auto
  have "subseq (tl (xs @ [p])) (xs @ [p])" by (metis sublist_imp_subseq sublist_tl)
  moreover have "subseq xs (xs @ [p])" by (rule subseq_snoc)
  moreover from dt_enque_cases [OF assms, of now] obtain s' where
    "dt_enque now p s = Some s'" "q_blocked s' = q_blocked s" "q_lim s' = q_lim s"
    "dt_qib s' = dt_qib s"
    "(if dt_full p s then
       if dt_drop_front s then
         dt_holds s' (tl (xs @ [p])) \<and> q_out s' = q_out s @ [Dropped (hd (xs @ [p]))]
       else dt_holds s' xs \<and> q_out s' = q_out s @ [Dropped p]
     else dt_holds s' (xs @ [p]) \<and> q_out s' = q_out s)" by blast
  ultimately show ?thesis
    using tl by (intro exI [of _ s']) (auto simp: accounted_def split: if_splits)
qed

interpretation dt: discipline dt_enque "\<lambda>now. dt_deque (Some now)" dt_holds
proof (unfold_locales, goal_cases)
  case (1 s xs p now)
  from dt_enque_law [OF this] show ?case by blast
next
  case (2 s xs now)
  from dt_deque_eq [OF this] show ?case by blast
next
  case (7 s xs)
  then show ?case by (simp add: dt_holds_def pq_okD)
qed (simp_all add: dt_holds_frames)

definition dt_counts :: "droptail \<Rightarrow> addr list \<Rightarrow> bool" where
  "dt_counts s xs \<longleftrightarrow> dt_holds s xs \<and> \<not> dt_qib s \<and> 1 \<le> q_lim s"

interpretation dtc: bounded_discipline dt_enque "\<lambda>now. dt_deque (Some now)" dt_counts
  "\<lambda>s. q_lim s - 1"
proof (unfold_locales, goal_cases)
  case (1 s xs p now)
  then have "dt_holds s xs" by (simp add: dt_counts_def)
  from dt_enque_law [OF this 1(2), of now] 1(1) show ?case unfolding dt_counts_def by metis
next
  case (2 s xs now)
  then have "dt_holds s xs" by (simp add: dt_counts_def)
  from dt_deque_eq [OF this, of "Some now"] 2 show ?case unfolding dt_counts_def by metis
next
  case (9 s xs p now s' ys)
  then have xs: "dt_holds s xs" and ys: "dt_holds s' ys" by (simp_all add: dt_counts_def)
  from dt_enque_law [OF xs 9(2), of now] 9(4) obtain zs where zs: "dt_holds s' zs"
    "q_lim s' = q_lim s" "zs = xs \<or> zs = tl (xs @ [p]) \<or> zs = xs @ [p] \<and> \<not> dt_full p s" by auto
  moreover from zs(1) ys have "ys = zs" by (metis dt_holds_def pq_ok_elems)
  moreover from 9(1) have "\<not> dt_full p s \<Longrightarrow> int (length xs) + 1 < q_lim s"
    by (auto simp: dt_full_def Let_def dt_counts_def dt_holds_def pq_okD(1) not_le)
  ultimately show ?case using 9(3) by auto
next
  case (10 s xs now)
  then have "dt_holds s xs" by (simp add: dt_counts_def)
  from dt_deque_eq [OF this, of "Some now"] show ?case by auto
next
  case (14 s xs ys)
  then show ?case by (metis dt_counts_def dt_holds_def pq_ok_elems)
qed (auto simp: dt_counts_def dt_holds_frames frame_simps dt_holds_def pq_okD)

subsection \<open>Shrinking the queue\<close>

text \<open>
  Bytes held after dropping one packet; sizes are not negative, so the loop ends at the latest
  when the queue is empty.
\<close>

definition dt_kept :: "droptail \<Rightarrow> addr list \<Rightarrow> addr list" where
  "dt_kept s xs = (if dt_drop_front s then tl xs else butlast xs)"

definition dt_lost :: "droptail \<Rightarrow> addr list \<Rightarrow> addr" where
  "dt_lost s xs = (if dt_drop_front s then hd xs else last xs)"

lemma dt_shrink_step_ok:
  assumes "dt_holds s xs" "xs \<noteq> []"
  shows "\<exists>s'. dt_shrink_step s = Some s' \<and> dt_holds s' (dt_kept s xs) \<and>
    q_out s' = q_out s @ [Dropped (dt_lost s xs)] \<and> q_lim s' = q_lim s \<and>
    dt_qib s' = dt_qib s \<and> dt_drop_front s' = dt_drop_front s \<and>
    dt_mean_pktsize s' = dt_mean_pktsize s"
proof (cases "dt_drop_front s")
  case True
  from assms obtain x ys where xs: "xs = x # ys" by (cases xs) auto
  with assms(1) obtain q where "pq_deque (q_pq s) = (Some x, q)" "pq_ok q ys"
    unfolding dt_holds_def using pq.deq_Cons by blast
  with True xs show ?thesis
    by (simp add: dt_shrink_step_def dt_holds_def dt_kept_def dt_lost_def emit_def)
next
  case False
  from assms have "last xs \<in> set xs" by simp
  with assms(1) obtain q where
    q: "pq_remove (last xs) (q_pq s) = Some (Inr q)" "pq_ok q (remove1 (last xs) xs)"
    unfolding dt_holds_def using pq.rem_ok by blast
  from assms have t: "pq_tail (snd (q_pq s)) = Some (last xs)" and "distinct xs"
    unfolding dt_holds_def pq_ok_def by (auto split: prod.splits)
  then have "remove1 (last xs) xs = butlast xs"
    using assms(2) by (induction xs rule: rev_induct) (auto simp: remove1_append)
  with q t False show ?thesis
    by (simp add: dt_shrink_step_def dt_holds_def dt_kept_def dt_lost_def emit_def)
qed

lemma dt_shrink_queue_ends:
  assumes "dt_holds s xs" "0 \<le> q_lim s" "0 \<le> q_lim s * dt_mean_pktsize s"
  shows "\<exists>s' n. dt_shrink_queue s = Some s' \<and> \<not> dt_over s' \<and>
    dt_holds s' (if dt_drop_front s then drop n xs else take n xs) \<and>
    q_lim s' = q_lim s \<and> dt_qib s' = dt_qib s"
  using assms
proof (induction xs arbitrary: s rule: length_induct)
  case (1 xs)
  show ?case
  proof (cases "dt_over s")
    case False
    with "1.prems" show ?thesis
      by (subst dt_shrink_queue.simps)
        (auto intro!: exI [of _ "if dt_drop_front s then 0 else length xs"])
  next
    case True
    have "xs \<noteq> []"
      using True "1.prems" by (auto simp: dt_over_def Let_def dt_holds_def pq_okD)
    from dt_shrink_step_ok [OF "1.prems"(1) this] obtain t where
      t: "dt_shrink_step s = Some t" "dt_holds t (dt_kept s xs)" "q_lim t = q_lim s"
      "dt_qib t = dt_qib s" "dt_drop_front t = dt_drop_front s"
      "dt_mean_pktsize t = dt_mean_pktsize s" by blast
    have len: "length (dt_kept s xs) < length xs" using \<open>xs \<noteq> []\<close> by (simp add: dt_kept_def)
    have "0 \<le> q_lim t" "0 \<le> q_lim t * dt_mean_pktsize t" using "1.prems" t by simp_all
    from "1.IH" [rule_format, OF len t(2) this] t obtain s' n where
      s': "dt_shrink_queue t = Some s'" "\<not> dt_over s'"
      "dt_holds s' (if dt_drop_front s then drop n (dt_kept s xs) else take n (dt_kept s xs))"
      "q_lim s' = q_lim s" "dt_qib s' = dt_qib s" by auto
    have "dt_shrink_queue s = Some s'"
      using True t(1) s'(1) by (subst dt_shrink_queue.simps) simp
    moreover have "drop n (tl xs) = drop (Suc n) xs" by (simp add: drop_Suc)
    moreover have "take n (butlast xs) = take (min n (length xs - 1)) xs"
      by (simp add: butlast_conv_take)
    ultimately show ?thesis
      using s' by (cases "dt_drop_front s") (auto simp: dt_kept_def intro!: exI)
  qed
qed

text \<open>An empty queue for the witnesses.\<close>

definition dt_example :: droptail where
  "dt_example = queue.extend (queue_example 3)
     (droptail.fields True False False 1000)"

lemma dt_example_sel:
  "q_pq dt_example = (pmem_example, pq_init)" "q_lim dt_example = 3" "\<not> q_blocked dt_example"
  "q_out dt_example = []" "\<not> dt_qib dt_example" "dt_mean_pktsize dt_example = 1000"
  by (simp_all add: dt_example_def queue_example_def queue.defs droptail.defs)

end
