(* ===== verification/Rng.thy ===== *)
theory Rng
  imports Prelude
begin

text \<open>
  The combined multiple recursive generator of tools/rng.cc and tools/rng.h.  The code keeps
  every integer in a \<open>double\<close>; all of them stay below \<open>2 ^ 53\<close>, where doubles are exact
  (\<open>split_mult_exact\<close>), so the model computes with integers.  Only the final
  scaling to the unit interval produces a fraction, which is a \<open>real\<close> here.
\<close>

type_synonym vec3 = "int \<times> int \<times> int"
type_synonym mat3 = "vec3 \<times> vec3 \<times> vec3"

subsection \<open>Constants\<close>

definition rng_m1 :: int where "rng_m1 = 4294967087"
definition rng_m2 :: int where "rng_m2 = 4294944443"
definition rng_norm :: real where "rng_norm = 1 / (of_int rng_m1 + 1)"
definition rng_a12 :: int where "rng_a12 = 1403580"
definition rng_a13n :: int where "rng_a13n = 810728"
definition rng_a21 :: int where "rng_a21 = 527612"
definition rng_a23n :: int where "rng_a23n = 1370589"
definition rng_two17 :: int where "rng_two17 = 131072"
definition rng_two53 :: int where "rng_two53 = 9007199254740992"
definition rng_fact :: real where "rng_fact = 1 / 16777216"

definition InvA1 :: mat3 where
  "InvA1 = ((184888585, 0, 1945170933), (1, 0, 0), (0, 1, 0))"

definition InvA2 :: mat3 where
  "InvA2 = ((0, 360363334, 4225571728), (1, 0, 0), (0, 1, 0))"

definition A1p0 :: mat3 where
  "A1p0 = ((0, 1, 0), (0, 0, 1), (- 810728, 1403580, 0))"

definition A2p0 :: mat3 where
  "A2p0 = ((0, 1, 0), (0, 0, 1), (- 1370589, 0, 527612))"

definition A1p76 :: mat3 where
  "A1p76 = ((82758667, 1871391091, 4127413238),
            (3672831523, 69195019, 1871391091),
            (3672091415, 3528743235, 69195019))"

definition A2p76 :: mat3 where
  "A2p76 = ((1511326704, 3759209742, 1610795712),
            (4292754251, 1511326704, 3889917532),
            (3859662829, 4292754251, 3708466080))"

definition A1p127 :: mat3 where
  "A1p127 = ((2427906178, 3580155704, 949770784),
             (226153695, 1230515664, 3580155704),
             (1988835001, 986791581, 1230515664))"

definition A2p127 :: mat3 where
  "A2p127 = ((1464411153, 277697599, 1610723613),
             (32183930, 1464411153, 1022607788),
             (2824425944, 32183930, 2093834863))"

subsection \<open>Modular arithmetic\<close>

definition MultModM_split :: "int \<Rightarrow> int \<Rightarrow> int \<Rightarrow> int \<Rightarrow> int" where
  "MultModM_split a s c m =
     (let a1 = cdiv a rng_two17; a = a - a1 * rng_two17;
          v = a1 * s;
          a1 = cdiv v m; v = v - a1 * m
      in v * rng_two17 + a * s + c)"

definition MultModM :: "int \<Rightarrow> int \<Rightarrow> int \<Rightarrow> int \<Rightarrow> int" where
  "MultModM a s c m =
     (let v = a * s + c;
          v = (if v \<ge> rng_two53 \<or> v \<le> - rng_two53 then MultModM_split a s c m else v);
          a1 = cdiv v m;
          v = v - a1 * m
      in if v < 0 then v + m else v)"

definition MatVecModM_row :: "vec3 \<Rightarrow> vec3 \<Rightarrow> int \<Rightarrow> int" where
  "MatVecModM_row = (\<lambda>(a0, a1, a2) (s0, s1, s2) m.
     let x = MultModM a0 s0 0 m;
         x = MultModM a1 s1 x m
     in MultModM a2 s2 x m)"

definition MatVecModM :: "mat3 \<Rightarrow> vec3 \<Rightarrow> int \<Rightarrow> vec3" where
  "MatVecModM = (\<lambda>(r0, r1, r2) s m.
     (MatVecModM_row r0 s m, MatVecModM_row r1 s m, MatVecModM_row r2 s m))"

definition mat_transpose :: "mat3 \<Rightarrow> mat3" where
  "mat_transpose = (\<lambda>((a, b, c), (d, e, f), (g, h, i)). ((a, d, g), (b, e, h), (c, f, i)))"

text \<open>The code multiplies by one column of \<open>B\<close> after the other.\<close>

definition MatMatModM :: "mat3 \<Rightarrow> mat3 \<Rightarrow> int \<Rightarrow> mat3" where
  "MatMatModM A B m = (case mat_transpose B of (c0, c1, c2) \<Rightarrow>
     mat_transpose (MatVecModM A c0 m, MatVecModM A c1 m, MatVecModM A c2 m))"

fun MatTwoPowModM_loop :: "nat \<Rightarrow> mat3 \<Rightarrow> int \<Rightarrow> mat3" where
  "MatTwoPowModM_loop 0 B m = B"
| "MatTwoPowModM_loop (Suc e) B m = MatTwoPowModM_loop e (MatMatModM B B m) m"

definition MatTwoPowModM :: "mat3 \<Rightarrow> int \<Rightarrow> int \<Rightarrow> mat3" where
  "MatTwoPowModM A m e = MatTwoPowModM_loop (nat e) A m"

definition mat_id :: mat3 where
  "mat_id = ((1, 0, 0), (0, 1, 0), (0, 0, 1))"

function MatPowModM_loop :: "mat3 \<Rightarrow> mat3 \<Rightarrow> int \<Rightarrow> int \<Rightarrow> mat3" where
  "MatPowModM_loop W B m n =
     (if n > 0 then
        MatPowModM_loop (MatMatModM W W m) (if n mod 2 \<noteq> 0 then MatMatModM W B m else B) m (n div 2)
      else B)"
  by pat_completeness auto
termination by (relation "measure (\<lambda>(W, B, m, n). nat n)") auto

declare MatPowModM_loop.simps [simp del]

definition MatPowModM :: "mat3 \<Rightarrow> int \<Rightarrow> int \<Rightarrow> mat3" where
  "MatPowModM A m n = MatPowModM_loop A mat_id m n"

subsection \<open>The generator\<close>

record rng =
  Cg :: "vec3 \<times> vec3"
  Bg :: "vec3 \<times> vec3"
  Ig :: "vec3 \<times> vec3"
  rng_anti :: bool
  rng_inc_prec :: bool

definition U01_first :: "vec3 \<Rightarrow> vec3" where
  "U01_first = (\<lambda>(c0, c1, c2).
     let p1 = rng_a12 * c1 - rng_a13n * c0;
         k = cdiv p1 rng_m1;
         p1 = p1 - k * rng_m1;
         p1 = (if p1 < 0 then p1 + rng_m1 else p1)
     in (c1, c2, p1))"

definition U01_second :: "vec3 \<Rightarrow> vec3" where
  "U01_second = (\<lambda>(c3, c4, c5).
     let p2 = rng_a21 * c5 - rng_a23n * c3;
         k = cdiv p2 rng_m2;
         p2 = p2 - k * rng_m2;
         p2 = (if p2 < 0 then p2 + rng_m2 else p2)
     in (c4, c5, p2))"

definition U01 :: "rng \<Rightarrow> real \<times> rng" where
  "U01 g = (let x = U01_first (fst (Cg g)); y = U01_second (snd (Cg g));
                p1 = snd (snd x); p2 = snd (snd y);
                u = (if p1 > p2 then of_int (p1 - p2) * rng_norm
                     else of_int (p1 - p2 + rng_m1) * rng_norm)
            in (if rng_anti g then 1 - u else u, g\<lparr>Cg := (x, y)\<rparr>))"

definition U01d :: "rng \<Rightarrow> real \<times> rng" where
  "U01d g = (let (u, g) = U01 g; (v, g) = U01 g in
     if rng_anti g then
       (let u = u + (v - 1) * rng_fact in (if u < 0 then u + 1 else u, g))
     else
       (let u = u + v * rng_fact in (if u < 1 then u else u - 1, g)))"

definition rand_u01 :: "rng \<Rightarrow> real \<times> rng" where
  "rand_u01 g = (if rng_inc_prec g then U01d g else U01 g)"

definition rand_int :: "int \<Rightarrow> int \<Rightarrow> rng \<Rightarrow> int \<times> rng" where
  "rand_int low high g = (let (u, g) = rand_u01 g in (low + to_int (of_int (high - low + 1) * u), g))"

definition MAXINT :: int where "MAXINT = 2147483647"

definition uniform_positive_int :: "rng \<Rightarrow> int \<times> rng" where
  "uniform_positive_int g = rand_int 0 MAXINT g"

text \<open>\<open>uniform(int k)\<close>: the remainder by zero is a trap.\<close>

definition uniform_int :: "int \<Rightarrow> rng \<Rightarrow> (int \<times> rng) option" where
  "uniform_int k g = (let k = k mod 2 ^ 32 in
     if k = 0 then None
     else (let (n, g) = uniform_positive_int g in Some (n mod k, g)))"

subsection \<open>Streams, substreams and jumps\<close>

definition rng_apply :: "mat3 \<Rightarrow> mat3 \<Rightarrow> vec3 \<times> vec3 \<Rightarrow> vec3 \<times> vec3" where
  "rng_apply A B s = (MatVecModM A (fst s) rng_m1, MatVecModM B (snd s) rng_m2)"

text \<open>\<open>init\<close> takes the package's next seed and moves it on.\<close>

definition rng_init :: "vec3 \<times> vec3 \<Rightarrow> rng \<Rightarrow> (vec3 \<times> vec3) \<times> rng" where
  "rng_init next_seed g =
     (rng_apply A1p127 A2p127 next_seed,
      g\<lparr>rng_anti := False, rng_inc_prec := False, Bg := next_seed, Cg := next_seed, Ig := next_seed\<rparr>)"

definition default_seed :: "vec3 \<times> vec3" where
  "default_seed = ((12345, 12345, 12345), (12345, 12345, 12345))"

definition CheckSeed :: "vec3 \<times> vec3 \<Rightarrow> int" where
  "CheckSeed = (\<lambda>((s0, s1, s2), (s3, s4, s5)).
     if s0 \<ge> rng_m1 \<or> s1 \<ge> rng_m1 \<or> s2 \<ge> rng_m1 then -1
     else if s3 \<ge> rng_m2 \<or> s4 \<ge> rng_m2 \<or> s5 \<ge> rng_m2 then -1
     else if s0 = 0 \<and> s1 = 0 \<and> s2 = 0 then -1
     else if s3 = 0 \<and> s4 = 0 \<and> s5 = 0 then -1
     else 0)"

text \<open>The seeds are unsigned; an illegal seed calls \<open>abort()\<close>.\<close>

definition set_package_seed :: "vec3 \<times> vec3 \<Rightarrow> (vec3 \<times> vec3) option" where
  "set_package_seed seed = (if CheckSeed seed \<noteq> 0 then None else Some seed)"

definition set_seed_vector :: "vec3 \<times> vec3 \<Rightarrow> rng \<Rightarrow> rng option" where
  "set_seed_vector seed g =
     (if CheckSeed seed \<noteq> 0 then None else Some (g\<lparr>Ig := seed, Bg := seed, Cg := seed\<rparr>))"

text \<open>\<open>set_seed (long)\<close> for a seed other than 0, which asks for a seed from the clock.\<close>

definition set_seed_long :: "int \<Rightarrow> rng \<Rightarrow> ((vec3 \<times> vec3) \<times> rng) option" where
  "set_seed_long seed g =
     (let x = seed mod 2 ^ 64; v = ((x, x, x), (x, x, x)) in
      map_option (\<lambda>next_seed. rng_init next_seed g) (set_package_seed v))"

definition reset_start_stream :: "rng \<Rightarrow> rng" where
  "reset_start_stream g = g\<lparr>Bg := Ig g, Cg := Ig g\<rparr>"

definition reset_start_substream :: "rng \<Rightarrow> rng" where
  "reset_start_substream g = g\<lparr>Cg := Bg g\<rparr>"

definition reset_next_substream :: "rng \<Rightarrow> rng" where
  "reset_next_substream g = (let b = rng_apply A1p76 A2p76 (Bg g) in g\<lparr>Bg := b, Cg := b\<rparr>)"

definition advance_state :: "int \<Rightarrow> int \<Rightarrow> rng \<Rightarrow> rng" where
  "advance_state e c g =
     (let B1 = (if e > 0 then MatTwoPowModM A1p0 rng_m1 e else MatTwoPowModM InvA1 rng_m1 (- e));
          B2 = (if e > 0 then MatTwoPowModM A2p0 rng_m2 e else MatTwoPowModM InvA2 rng_m2 (- e));
          C1 = (if c \<ge> 0 then MatPowModM A1p0 rng_m1 c else MatPowModM InvA1 rng_m1 (- c));
          C2 = (if c \<ge> 0 then MatPowModM A2p0 rng_m2 c else MatPowModM InvA2 rng_m2 (- c));
          C1 = (if e \<noteq> 0 then MatMatModM B1 C1 rng_m1 else C1);
          C2 = (if e \<noteq> 0 then MatMatModM B2 C2 rng_m2 else C2)
      in g\<lparr>Cg := (MatVecModM C1 (fst (Cg g)) rng_m1, MatVecModM C2 (snd (Cg g)) rng_m2)\<rparr>)"

definition get_state :: "rng \<Rightarrow> vec3 \<times> vec3" where
  "get_state g = Cg g"

definition rng_seed :: "rng \<Rightarrow> int" where
  "rng_seed g = fst (fst (get_state g))"

definition set_antithetic :: "bool \<Rightarrow> rng \<Rightarrow> rng" where
  "set_antithetic a g = g\<lparr>rng_anti := a\<rparr>"

definition increased_precis :: "bool \<Rightarrow> rng \<Rightarrow> rng" where
  "increased_precis incp g = g\<lparr>rng_inc_prec := incp\<rparr>"

subsection \<open>The modular product is exact\<close>

lemmas rng_consts = rng_m1_def rng_m2_def rng_a12_def rng_a13n_def rng_a21_def rng_a23n_def
  rng_two17_def rng_two53_def

lemma rng_m_pos [simp]: "0 < rng_m1" "0 < rng_m2"
  by (simp_all add: rng_consts)

lemma cdiv_rem_mod:
  assumes "0 < (m::int)"
  shows "(if v - cdiv v m * m < 0 then v - cdiv v m * m + m else v - cdiv v m * m) = v mod m"
proof (cases "0 \<le> v")
  case True
  then have "v - cdiv v m * m = v mod m"
    using assms by (simp add: cdiv_nonneg minus_div_mult_eq_mod)
  with assms show ?thesis by (simp add: not_less)
next
  case False
  then have "v - cdiv v m * m = - ((- v) mod m)"
    using assms by (simp add: cdiv_def minus_div_mult_eq_mod [symmetric])
  moreover have "v mod m = (if (- v) mod m = 0 then 0 else m - (- v) mod m)"
    using zmod_zminus1_eq_if [of "- v" m] by simp
  moreover have "0 \<le> (- v) mod m" using assms by simp
  moreover have "(- v) mod m < m" using assms by simp
  ultimately show ?thesis by (cases "(- v) mod m = 0") simp_all
qed

lemma cdiv_rem_abs:
  assumes "0 < (m::int)"
  shows "\<bar>v - cdiv v m * m\<bar> < m"
proof (cases "0 \<le> v")
  case True
  then have "v - cdiv v m * m = v mod m"
    using assms by (simp add: cdiv_nonneg minus_div_mult_eq_mod)
  with assms show ?thesis by simp
next
  case False
  then have "v - cdiv v m * m = - ((- v) mod m)"
    using assms by (simp add: cdiv_def minus_div_mult_eq_mod [symmetric])
  with assms show ?thesis by simp
qed

lemma MultModM_split_cong: "MultModM_split a s c m mod m = (a * s + c) mod m"
proof -
  define a1 where "a1 = cdiv a rng_two17"
  define k where "k = cdiv (a1 * s) m"
  have "MultModM_split a s c m = a * s + c + (- k * rng_two17) * m"
    by (simp add: MultModM_split_def Let_def a1_def [symmetric] k_def [symmetric] algebra_simps)
  then show ?thesis by (simp only: mod_mult_self1)
qed

lemma MultModM_eq: "0 < m \<Longrightarrow> MultModM a s c m = (a * s + c) mod m"
  unfolding MultModM_def Let_def cdiv_rem_mod by (simp add: MultModM_split_cong)

text \<open>
  For the operands of the generator every intermediate value is below \<open>2 ^ 53\<close>, so the
  double arithmetic of the code is exact.
\<close>

lemma cdiv_two17_bound:
  assumes "\<bar>a\<bar> \<le> 2 ^ 32"
  shows "\<bar>cdiv a rng_two17\<bar> \<le> 2 ^ 15" "\<bar>a - cdiv a rng_two17 * rng_two17\<bar> < 2 ^ 17"
proof -
  have "\<bar>a\<bar> div 131072 \<le> 2 ^ 32 div 131072" using assms by (intro zdiv_mono1) auto
  then show "\<bar>cdiv a rng_two17\<bar> \<le> 2 ^ 15"
    by (cases "a = 0") (simp_all add: cdiv_def rng_two17_def abs_mult)
  show "\<bar>a - cdiv a rng_two17 * rng_two17\<bar> < 2 ^ 17"
    using cdiv_rem_abs [of rng_two17 a] by (simp add: rng_two17_def)
qed

lemma split_mult_exact:
  assumes "\<bar>a\<bar> \<le> 2 ^ 32" "0 \<le> s" "s < 2 ^ 32" "0 \<le> c" "c < 2 ^ 32" "0 < m" "m < 2 ^ 32"
  shows "\<bar>cdiv a rng_two17 * s\<bar> < rng_two53" "\<bar>MultModM_split a s c m\<bar> < rng_two53"
proof -
  define a1 where "a1 = cdiv a rng_two17"
  define w where "w = a1 * s - cdiv (a1 * s) m * m"
  have a1: "\<bar>a1\<bar> \<le> 2 ^ 15" and r: "\<bar>a - a1 * rng_two17\<bar> < 2 ^ 17"
    using cdiv_two17_bound [OF assms(1)] by (simp_all add: a1_def)
  have "\<bar>a1 * s\<bar> \<le> 2 ^ 15 * 2 ^ 32"
    unfolding abs_mult using a1 assms(2,3) by (intro mult_mono) auto
  then show "\<bar>cdiv a rng_two17 * s\<bar> < rng_two53" by (simp add: a1_def rng_two53_def)
  have "\<bar>w\<bar> < 2 ^ 32" using cdiv_rem_abs [OF assms(6), of "a1 * s"] assms(7) by (simp add: w_def)
  then have "\<bar>w * rng_two17\<bar> \<le> 2 ^ 32 * 2 ^ 17" by (simp add: abs_mult rng_two17_def)
  moreover have "\<bar>(a - a1 * rng_two17) * s\<bar> \<le> 2 ^ 17 * 2 ^ 32"
    unfolding abs_mult using r assms(2,3) by (intro mult_mono) auto
  moreover have "MultModM_split a s c m = w * rng_two17 + (a - a1 * rng_two17) * s + c"
    by (simp add: MultModM_split_def Let_def w_def a1_def)
  ultimately show "\<bar>MultModM_split a s c m\<bar> < rng_two53"
    using assms(4,5) by (simp add: rng_two53_def)
qed

subsection \<open>Matrices modulo \<open>m\<close>\<close>

definition mv :: "mat3 \<Rightarrow> vec3 \<Rightarrow> vec3" where
  "mv = (\<lambda>((a, b, c), (d, e, f), (g, h, i)) (x, y, z).
     (a * x + b * y + c * z, d * x + e * y + f * z, g * x + h * y + i * z))"

definition mm :: "mat3 \<Rightarrow> mat3 \<Rightarrow> mat3" where
  "mm = (\<lambda>((a, b, c), (d, e, f), (g, h, i)) ((j, k, l), (n, p, q), (r, s, t)).
     ((a * j + b * n + c * r, a * k + b * p + c * s, a * l + b * q + c * t),
      (d * j + e * n + f * r, d * k + e * p + f * s, d * l + e * q + f * t),
      (g * j + h * n + i * r, g * k + h * p + i * s, g * l + h * q + i * t)))"

definition vmod :: "vec3 \<Rightarrow> int \<Rightarrow> vec3" where
  "vmod = (\<lambda>(x, y, z) m. (x mod m, y mod m, z mod m))"

definition mmod :: "mat3 \<Rightarrow> int \<Rightarrow> mat3" where
  "mmod = (\<lambda>(r0, r1, r2) m. (vmod r0 m, vmod r1 m, vmod r2 m))"

lemmas mat_defs = mv_def mm_def vmod_def mmod_def mat_id_def

lemma MatVecModM_row_eq:
  "0 < m \<Longrightarrow> MatVecModM_row (a, b, c) (x, y, z) m = (a * x + b * y + c * z) mod m"
  by (simp add: MatVecModM_row_def MultModM_eq Let_def mod_simps algebra_simps)

lemma MatVecModM_eq: "0 < m \<Longrightarrow> MatVecModM A s m = vmod (mv A s) m"
  by (cases A; cases s) (auto simp: MatVecModM_def MatVecModM_row_eq mat_defs)

lemma MatMatModM_eq: "0 < m \<Longrightarrow> MatMatModM A B m = mmod (mm A B) m"
  by (cases A; cases B) (auto simp: MatMatModM_def mat_transpose_def MatVecModM_eq mat_defs)

lemma mm_assoc: "mm (mm A B) C = mm A (mm B C)"
  by (cases A; cases B; cases C) (auto simp: mm_def algebra_simps)

lemma mm_mv: "mv (mm A B) s = mv A (mv B s)"
  by (cases A; cases B; cases s) (auto simp: mat_defs algebra_simps)

lemma mm_id [simp]: "mm mat_id A = A" "mm A mat_id = A" "mv mat_id s = s"
  by (cases A; cases s; auto simp: mat_defs)+

lemma lin3_mod:
  "((a mod m) * x + (b mod m) * y + (c mod m) * z) mod m = (a * x + b * y + c * z) mod (m::int)"
  "(x * (a mod m) + y * (b mod m) + z * (c mod m)) mod m = (x * a + y * b + z * c) mod (m::int)"
  by (intro mod_add_cong mod_mult_left_eq mod_mult_right_eq)+

lemma mmod_mm_cong: "mmod (mm (mmod A m) B) m = mmod (mm A B) m" "mmod (mm A (mmod B m)) m = mmod (mm A B) m"
  by (cases A; cases B; simp add: mat_defs lin3_mod split_beta)+

lemma vmod_mv_cong: "vmod (mv (mmod A m) s) m = vmod (mv A s) m" "vmod (mv A (vmod s m)) m = vmod (mv A s) m"
  by (cases A; cases s; simp add: mat_defs lin3_mod split_beta)+

lemma mmod_idem [simp]: "mmod (mmod A m) m = mmod A m"
  by (cases A) (auto simp: mat_defs)

fun mpow :: "mat3 \<Rightarrow> nat \<Rightarrow> mat3" where
  "mpow A 0 = mat_id"
| "mpow A (Suc n) = mm A (mpow A n)"

lemma mpow_add: "mpow A (k + n) = mm (mpow A k) (mpow A n)"
  by (induction k) (simp_all add: mm_assoc)

lemma mpow_double: "mpow (mm A A) n = mpow A (2 * n)"
proof (induction n)
  case (Suc n)
  then show ?case by (simp add: mm_assoc)
qed simp

lemma mmod_mm_eq: "mmod A m = mmod A' m \<Longrightarrow> mmod B m = mmod B' m \<Longrightarrow> mmod (mm A B) m = mmod (mm A' B') m"
  by (metis mmod_mm_cong)

lemma mmod_mpow: "mmod (mpow (mmod A m) n) m = mmod (mpow A n) m"
  by (induction n) (auto intro: mmod_mm_eq)

lemma MatTwoPowModM_loop_eq:
  "0 < m \<Longrightarrow> mmod (MatTwoPowModM_loop e B m) m = mmod (mpow B (2 ^ e)) m"
proof (induction e arbitrary: B)
  case (Suc e)
  then have "mmod (MatTwoPowModM_loop (Suc e) B m) m = mmod (mpow (mmod (mm B B) m) (2 ^ e)) m"
    by (simp add: MatMatModM_eq)
  also have "\<dots> = mmod (mpow B (2 ^ Suc e)) m" by (simp add: mmod_mpow mpow_double)
  finally show ?case .
qed simp

lemma MatTwoPowModM_eq:
  "0 < m \<Longrightarrow> mmod (MatTwoPowModM A m e) m = mmod (mpow A (2 ^ nat e)) m"
  by (simp add: MatTwoPowModM_def MatTwoPowModM_loop_eq)

lemma mpow_commute: "mm (mpow A n) A = mm A (mpow A n)"
  using mpow_add [of A n 1] mpow_add [of A 1 n] by (simp add: add.commute)

lemma MatPowModM_loop_eq:
  "0 < m \<Longrightarrow> mmod (MatPowModM_loop W B m n) m = mmod (mm (mpow W (nat n)) B) m"
proof (induction W B m n rule: MatPowModM_loop.induct)
  case (1 W B m n)
  show ?case
  proof (cases "n > 0")
    case False
    then show ?thesis by (simp add: MatPowModM_loop.simps [of W B m n])
  next
    case True
    let ?B = "if n mod 2 \<noteq> 0 then MatMatModM W B m else B"
    have "mmod (MatPowModM_loop W B m n) m =
      mmod (mm (mpow (mmod (mm W W) m) (nat (n div 2))) ?B) m"
      using True 1 by (simp add: MatPowModM_loop.simps [of W B m n] MatMatModM_eq)
    also have "\<dots> = mmod (mm (mpow W (2 * nat (n div 2))) ?B) m"
      by (rule mmod_mm_eq) (simp_all add: mmod_mpow mpow_double)
    also have "\<dots> = mmod (mm (mpow W (nat n)) B) m"
    proof (cases "n mod 2 = 0")
      case even: True
      then have "n = 2 * (n div 2)" by presburger
      with True have "nat n = 2 * nat (n div 2)" by linarith
      with even show ?thesis by simp
    next
      case odd: False
      then have "n = 2 * (n div 2) + 1" by presburger
      with True have n: "nat n = Suc (2 * nat (n div 2))" by linarith
      have "mm (mpow W (2 * nat (n div 2))) (mm W B) = mm (mpow W (nat n)) B"
        unfolding n mpow.simps mpow_commute [symmetric] mm_assoc by (rule refl)
      with odd "1.prems" show ?thesis by (simp add: MatMatModM_eq mmod_mm_cong)
    qed
    finally show ?thesis .
  qed
qed

lemma MatPowModM_eq: "0 < m \<Longrightarrow> mmod (MatPowModM A m n) m = mmod (mpow A (nat n)) m"
  by (simp add: MatPowModM_def MatPowModM_loop_eq)

end
