(* ===== verification/RngPowers.thy ===== *)
theory RngPowers
  imports Rng
begin

text \<open>
  The matrices \<open>A1p76\<close>, \<open>A2p76\<close>, \<open>A1p127\<close> and \<open>A2p127\<close> of tools/rng.cc are the powers
  \<open>2 ^ 76\<close> and \<open>2 ^ 127\<close> of the transition matrices, modulo \<open>m1\<close> and \<open>m2\<close>.  A power of a
  companion matrix is fixed by its first row, so repeated squaring works on rows; each
  squaring below comes with its quotients, so that the kernel only multiplies and adds.
\<close>

subsection \<open>Powers of a companion matrix\<close>

text \<open>The companion matrix of \<open>x ^ 3 = r * x ^ 2 + p * x + q\<close>, and the matrix with first row \<open>c\<close>.\<close>

definition comp :: "vec3 \<Rightarrow> mat3" where
  "comp = (\<lambda>(r, p, q). ((0, 1, 0), (0, 0, 1), (q, p, r)))"

definition row_next :: "vec3 \<Rightarrow> vec3 \<Rightarrow> vec3" where
  "row_next = (\<lambda>(r, p, q) (a, b, c). (q * c, a + p * c, b + r * c))"

definition poly_mat :: "vec3 \<Rightarrow> vec3 \<Rightarrow> mat3" where
  "poly_mat k c = (c, row_next k c, row_next k (row_next k c))"

definition row_square :: "vec3 \<Rightarrow> vec3 \<Rightarrow> vec3" where
  "row_square = (\<lambda>(r, p, q) (a, b, c). let e = b + r * c; f = p * c; g = q * c in
     (a * a + b * g + c * (q * e), a * b + b * (a + f) + c * (g + p * e),
      a * c + b * e + c * (a + f + r * e)))"

lemma comp_poly: "comp k = poly_mat k (0, 1, 0)"
  by (cases k) (simp add: comp_def poly_mat_def row_next_def)

lemma poly_mat_square: "mm (poly_mat k c) (poly_mat k c) = poly_mat k (row_square k c)"
  by (cases k; cases c) (simp add: mm_def poly_mat_def row_next_def row_square_def Let_def algebra_simps)

lemma poly_mat_cong: "vmod c m = vmod d m \<Longrightarrow> mmod (poly_mat k c) m = mmod (poly_mat k d) m"
  by (cases k; cases c; cases d)
    (auto simp: poly_mat_def row_next_def mmod_def vmod_def intro!: mod_add_cong mod_mult_cong)

fun cert_run :: "vec3 \<Rightarrow> int \<Rightarrow> vec3 \<Rightarrow> (vec3 \<times> vec3) list \<Rightarrow> vec3 option" where
  "cert_run k m c [] = Some c"
| "cert_run k m c (((x, y, z), (a, b, d)) # cs) =
     (if row_square k c = (m * x + a, m * y + b, m * z + d) then cert_run k m (a, b, d) cs else None)"

lemma cert_run_sound:
  "cert_run k m c cs = Some d \<Longrightarrow>
   mmod (mpow (poly_mat k c) (2 ^ length cs)) m = mmod (poly_mat k d) m"
proof (induction k m c cs rule: cert_run.induct)
  case (2 k m c x y z a b e cs)
  then have sq: "row_square k c = (m * x + a, m * y + b, m * z + e)"
    and "cert_run k m (a, b, e) cs = Some d" by (auto split: if_splits)
  with "2.IH" have IH: "mmod (mpow (poly_mat k (a, b, e)) (2 ^ length cs)) m = mmod (poly_mat k d) m"
    by blast
  have "mmod (poly_mat k (row_square k c)) m = mmod (poly_mat k (a, b, e)) m"
    by (rule poly_mat_cong) (simp add: sq vmod_def)
  then have "mmod (mpow (poly_mat k (row_square k c)) (2 ^ length cs)) m = mmod (poly_mat k d) m"
    by (metis IH mmod_mpow)
  then show ?case by (simp add: mpow_double [symmetric] poly_mat_square)
qed simp

lemma cert_run_compose:
  assumes "cert_run k m c cs = Some d" "cert_run k m d ds = Some e"
  shows "mmod (mpow (poly_mat k c) (2 ^ (length cs + length ds))) m = mmod (poly_mat k e) m"
proof -
  have "cert_run k m c (cs @ ds) = Some e"
    using assms by (induction k m c cs rule: cert_run.induct) (auto split: if_splits)
  from cert_run_sound [OF this] show ?thesis by simp
qed

subsection \<open>The certificates\<close>

definition cert1_76 :: "(vec3 \<times> vec3) list" where
  "cert1_76 =
    [((0, 0, 0), (0, 0, 1)),
     ((0, - 1, 0), (0, 4294156359, 1403580)),
     ((- 2275413619010, 3938958026573, 4937146823), (1527363550, 2758233149, 1831234280)),
     ((- 1906865614697527, 2668281628741400, 1095888496920390), (736416029, 2961816100, 342112271)),
     ((- 382535659778779, 640176573543603, 38250679770619), (1243502014, 2218748291, 1709215645)),
     ((- 1431693700540689, 1927180558459978, 954711208966623), (3241775219, 3453352062, 3721871040)),
     ((- 4852296002671275, 5785792718582004, 4526898725075950), (1955221006, 1414472808, 1746037714)),
     ((- 932380402216477, 1038724776243548, 996289302989115), (1170096663, 49135452, 3441537107)),
     ((- 63839660893007, - 2125211032077370, 3870637096385338), (2299034194, 2297111910, 862649200)),
     ((- 748102301808516, 1154693233526293, 243192189157591), (4146310528, 458782589, 1007330283)),
     ((- 174467357062763, 110516129626526, 331607025362236), (3630027893, 2130448350, 292773857)),
     ((- 235474006613322, 391495311158591, 28013409879392), (892409263, 1999175811, 2979225418)),
     ((- 2248534964526505, 2217383442719629, 2900576907002390), (1586003016, 2114210471, 3240775579)),
     ((- 2586678221875383, 2495711824744792, 3432224449735538), (2188531273, 1783231160, 3576659343)),
     ((- 2407855104447901, 1753883509987768, 4180545385155334), (4022841636, 3951951872, 2143424240)),
     ((- 3197897953729953, 4669178323300242, 1501397955289043), (2256493727, 3715182130, 642697923)),
     ((- 901429491173105, 1482643427099005, 134990633609542), (1286664224, 627406673, 963516608)),
     ((- 228219596347110, 219868031308953, 303386812091144), (2956342842, 3471097641, 2353092905)),
     ((- 3083549653800906, 4293245081520039, 1809493096697499), (420492906, 153526651, 3499730988)),
     ((- 202844706736897, - 1960806327385267, 4002641850588722), (3310184147, 2228376089, 823220763)),
     ((- 692545853574699, 1071061166439278, 221469904142444), (2529428830, 1497104068, 4253248635)),
     ((- 2403907877451779, 747057086130665, 5911793831920039), (2571072593, 3039669025, 1591031831)),
     ((- 1825787074828156, 2683086657336736, 827250803016484), (1847312821, 4042890210, 4241772463)),
     ((- 6474177330592329, 7812149985238525, 5879936263204579), (2409846784, 1096138313, 1416249993)),
     ((- 586070153077410, 636029995511690, 655478439158630), (599453422, 73950522, 2965395603)),
     ((- 82788263311639, - 1516566901060199, 2873708647906291), (4271076381, 813410089, 3461955319)),
     ((- 1063101194553950, - 421829663501646, 3916706498202463), (3058183515, 941408572, 1783998098)),
     ((- 634039583385975, 496927445879741, 1040081213818354), (4216782514, 3352801941, 2315095646)),
     ((- 2930363875526034, 4061528655918568, 1751527593690594), (2264905138, 1926285644, 1108147171)),
     ((- 805865965480179, 1163368375279920, 401304856065021), (270679073, 1065683096, 2992662885)),
     ((- 1204013056191303, 393897068479439, 2926799831803899), (35689930, 1378151623, 951629713)),
     ((- 495119831969468, 686237599782062, 295947033173508), (1891490872, 1130489594, 3734864133)),
     ((- 1593993249252673, 126531892339830, 4558555935638671), (2254459023, 2384691454, 1730098031)),
     ((- 1557571188846109, 2131552600696903, 978183086031752), (3047429268, 4245359555, 2449575498)),
     ((- 3926000912927806, 5664280182288130, 1960923670632927), (3313321106, 4263819658, 1047529624)),
     ((- 1686202818183059, 2712132140825457, 358605579168625), (2005252417, 3263186729, 1535805957)),
     ((- 1892009823427989, 2830329661847344, 770818681270293), (2367065164, 83908466, 4294308508)),
     ((- 136031718950567, - 3245473837379641, 6026486044129718), (3214147257, 1434230503, 2944821434)),
     ((- 1594492912352197, 1123544335002313, 2833974974518008), (300628476, 2054743463, 1499597869)),
     ((- 1163262537985380, 1589421297757408, 734899014954756), (4171745404, 4064983592, 1934508265)),
     ((- 2968753381913876, 4433285918514571, 1222985226687975), (1625369148, 3577024659, 2778677259)),
     ((- 3752366911110131, 5038879190207198, 2523215938856835), (1373068765, 3958611830, 569117280)),
     ((- 850530308525871, 1411352311869350, 105851578430741), (2108618602, 2543645250, 913717833)),
     ((- 877431979451462, 1361472194904857, 272838315366481), (1157293598, 584852249, 2272893205)),
     ((- 501845752461750, - 106328678549734, 1688245991566380), (3580234334, 3137526662, 2403875621)),
     ((- 2847372530224791, 3838763796909916, 1888438152570979), (2792496861, 3634185196, 3887031679)),
     ((- 5332984423253649, 6380771238666218, 4937580694899106), (1362557480, 3230022138, 4278720212)),
     ((- 5217526692658833, 5577135589591561, 5982813731785869), (1198519135, 2007945401, 3868481)),
     ((- 2932163355654, 5075208473596, 5831452416), (3473925387, 3193380570, 565138859)),
     ((- 681317251685338, 1119259253418098, 104376169675104), (3811588895, 3303532086, 2766583698)),
     ((- 3450382520967353, 4528732769239033, 2501302700278532), (4288926968, 3033075037, 1505732852)),
     ((- 1724151124780269, 2556997424256274, 740928330708492), (3976196483, 3651411522, 1652430357)),
     ((- 2277868100097709, 3428171901763850, 892332396957017), (3171589548, 2291131070, 2093793287)),
     ((- 1811041925214231, 2307861284056207, 1432670257974634), (4113016361, 2999667479, 3995043314)),
     ((- 4524176680410726, 4819816489078102, 5215802368001147), (925786347, 2109676036, 1879981040)),
     ((- 1497319598626408, 1925100888442221, 1155007925093869), (2255405265, 3460246357, 218033453)),
     ((- 284822093936506, 484132952205161, 15538458125212), (773148471, 4117539411, 3073622315)),
     ((- 4777861767367450, 6488450206919477, 3087301494853150), (615242951, 1475251263, 3586439101)),
     ((- 1997444700766213, 1030130269051169, 4203435726422728), (1632636204, 15370275, 2061555515)),
     ((- 11961880748001, - 781531813247852, 1388890123911810), (3446066703, 344820524, 74213775)),
     ((- 9658254548509, 15686635198560, 1800038488218), (3600859892, 1269921024, 4069458760)),
     ((- 1951003375677221, 251701589134444, 5411918056345222), (599407451, 2806239788, 1742216102)),
     ((- 1845746737857279, 2622512743260308, 991933124617818), (967330218, 3464884028, 3444447102)),
     ((- 4505609299786498, 5560860734044258, 3877187973390698), (3426136514, 4123590610, 2477690850)),
     ((- 3857160221487303, 5518951079950492, 2006195619824868), (2678132557, 89090276, 2719996384)),
     ((- 91482080179558, - 1238153358059765, 2417767826563754), (1827237091, 2290099491, 614471834)),
     ((- 531252544686438, 848466890604086, 123392121256247), (3894793123, 921712152, 596236860)),
     ((- 207468453240438, 292084670231840, 116176892312282), (7276915, 3205297712, 1204204130)),
     ((- 1457182053499097, 2249033603596803, 473892408668952), (935922304, 2428000499, 510672020)),
     ((- 468097124956691, 761172130395100, 85225505586120), (690398653, 3787391292, 1705516721)),
     ((- 2438605034977976, 3672788414030083, 950585248953505), (476867729, 1917800003, 1740083735)),
     ((- 1259849802667577, 1609574758951600, 989505407006581), (4092801160, 3749431174, 542781592)),
     ((- 768304929764154, 1274536962704747, 96282416735255), (381829350, 1732869179, 3638540651)),
     ((- 2380336359871628, 1621958318931792, 4326452390226911), (3712059912, 1698887908, 3706277064)),
     ((- 2377099436546261, 1522451040366562, 4489043149747323), (993804379, 905755330, 1717718779)),
     ((- 587365075455758, 459927614735023, 964232803841252), (82758667, 1871391091, 4127413238))]"

definition cert1_127 :: "(vec3 \<times> vec3) list" where
  "cert1_127 =
    [((- 2916002138551893, 1832686242562074, 5567154994755142), (3361372532, 2329303404, 99651939)),
     ((- 87628243213255, 149840863270659, 3246674317530), (1831590873, 1588259595, 1314332382)),
     ((- 788082335742234, 1038296010097037, 564532645727205), (2326052247, 4183591379, 4049009082)),
     ((- 6395039815408127, 7976816557168115, 5357664553924241), (3956367490, 604461629, 1257432102)),
     ((- 286941320672995, 198318293805098, 516711868287086), (1686241617, 1257046062, 1427609439)),
     ((- 677494082404777, 788209137331948, 666035109755732), (2362447880, 3445363024, 3160262066)),
     ((- 4110581632883291, 5231268957181174, 3263806160151742), (4251175413, 3559576374, 3107663662)),
     ((- 4176160829463167, 5407043521901901, 3156069823566801), (1099512970, 712404985, 1571467521)),
     ((- 422646617863108, 265561039993574, 807028081192549), (1945425936, 1653045514, 381988982)),
     ((- 238385244673668, 385166214800023, 47685676694465), (2526336124, 3019211015, 4215964965)),
     ((- 4805467607874746, 4964384560422569, 5808605035527488), (1444052678, 2253324417, 39719589)),
     ((- 33788394499930, 58201011659352, 516777931605), (166599066, 2335494420, 1232261118)),
     ((- 1086492930043372, 1594371201309216, 496231143004111), (2511338360, 1188954576, 1251401239)),
     ((- 561702085062344, 676852855102285, 511766688300621), (3624650744, 51993077, 3540268009)),
     ((- 69487689428002, - 2245545662380102, 4095908498928677), (655966702, 754002362, 1646581402)),
     ((- 468706684506281, 299674830422949, 886021078844165), (2760311307, 4166372813, 741596417)),
     ((- 1166461526521882, 1915642509803454, 179731685172313), (4265279407, 3532111852, 1754687396)),
     ((- 2339800052168582, 3469628224038506, 1006189085789013), (2873769531, 2081104178, 596284397)),
     ((- 468479737677164, 743950385179620, 116195945206393), (278611533, 2229285304, 3443204327)),
     ((- 2897835802323339, 2779002837803487, 3874387917846253), (544639534, 568528663, 2177189807)),
     ((- 467297998860349, - 85748748827945, 1549066606225688), (1547862823, 2404658587, 4191448009)),
     ((- 3805071061782690, 3271344271334882, 5741241672365253), (3208213311, 4212638780, 3235157352)),
     ((- 5145111086222942, 6931896940702581, 3420340059948132), (4080517315, 2133433101, 4043998180)),
     ((- 3257127742005570, 2551937588317149, 5344412173538144), (4102885735, 1319434267, 2678775073)),
     ((- 1334344777839537, 955577959256094, 2345043223664603), (1165218048, 1317690360, 1189150958)),
     ((- 591555442981594, 757211802439960, 462117374830703), (1028861702, 4082006648, 338232527)),
     ((- 521235756734554, 880801737935505, 37389961601793), (614134826, 2261996505, 2888080641)),
     ((- 2466303717439621, 2695342407874122, 2725814411695137), (4056173823, 1285620078, 357420018)),
     ((- 173471149582726, 276218305609606, 41749002342557), (4264130267, 815015434, 3142242173)),
     ((- 966827316877582, - 189942696943033, 3226691893117612), (4174387531, 1030729435, 2812778314)),
     ((- 1094520504073222, 401472243695784, 2585528332606112), (1348429235, 2928743274, 3776082629)),
     ((- 4175111490838992, 4536676828863928, 4659729606589803), (4064845753, 668285756, 3816217625)),
     ((- 962806315247707, - 1082168563186887, 4759312980482551), (1515684518, 1706771705, 728123349)),
     ((- 469164588718999, 712172543316885, 173256778652343), (3082272717, 531091457, 1390161328)),
     ((- 278725305357939, 117757871343721, 631552057450767), (1241147206, 3193892819, 1244284192)),
     ((- 1500324308335672, 2305202170951395, 505963460659044), (1438760812, 3491341751, 3414470157)),
     ((- 4500502058606942, 5590831320220780, 3809996334912979), (135412706, 3627115412, 2345042216)),
     ((- 3211126151775941, 4521244553453066, 1797129767419744), (1889419951, 3256876154, 1240505488)),
     ((- 1525264020003078, 2350153447622638, 502895542634620), (3206226875, 285700890, 496017472)),
     ((- 53497620550408, 46180972249990, 80403579396633), (4163770641, 255160418, 772100749)),
     ((- 74371927237174, 16235843687732, 194817806692323), (2133915627, 2713747584, 627765421)),
     ((- 643148782449730, 1039072295447734, 128789363429335), (2587549655, 998684270, 4292130625)),
     ((- 1618251617369302, - 675836110369386, 6020375534449803), (978482299, 3200877282, 497605289)),
     ((- 601311041892432, 994287254694212, 80921015908363), (2665561897, 300934584, 3179822945)),
     ((- 361258753119386, - 1283192004984334, 3304332410950927), (1417581911, 3071835354, 2575196237)),
     ((- 2986438140551903, 3918497199682113, 2167198892813686), (2747488994, 3296604805, 898095468)),
     ((- 1117722612647208, 1782823325099813, 263589680052507), (2640209692, 3040506537, 3626115220)),
     ((- 4162293490696487, 4724032409494704, 4296958889310018), (3734246393, 4151553160, 4177051283)),
     ((- 6546746478154234, 8040646051732890, 5701876474559872), (1694175127, 1087914338, 2384195794)),
     ((- 979223099160419, 622292011994699, 1857640497103398), (2402749950, 2353776151, 75909174)),
     ((- 67452196634306, 115694484172484, 1884442265031), (2427906178, 3580155704, 949770784))]"

definition cert2_76 :: "(vec3 \<times> vec3) list" where
  "cert2_76 =
    [((0, 0, 0), (0, 0, 1)),
     ((- 169, - 1, 64), (2706407399, 4293573854, 3497978192)),
     ((- 2060158203389962890744, - 3904660551534073, 793063558820193268107), (3405842137, 2680076935, 893509979)),
     ((- 134421305345006504473, - 254765877858682, 51745850697290684982), (818368950, 3790774567, 3542344109)),
     ((- 2112747574382577377163, - 4004340769058158, 813307981620791200906), (498682467, 2928649385, 811441367)),
     ((- 110862479091105335640, - 210117668957012, 42676815822425352198), (3893311647, 3140922085, 64039185)),
     ((- 690616075034234151, - 1303009149834, 265854558697297015), (28639152, 3496041927, 2231910770)),
     ((- 838726935581838376995, - 1589656662355757, 322870237496540648457), (1463826069, 300842059, 3313769518)),
     ((- 1848881611264324104589, - 3504243396282067, 711732054383758088099), (2092194020, 184076987, 2202401252)),
     ((- 816690275248830666545, - 1547898686689164, 314387164575285129242), (812917091, 2574011276, 4168802395)),
     ((- 2926092102126706415119, - 5545902556115142, 1126407191500613406772), (477309738, 3314523413, 3442242150)),
     ((- 1995027000234717098113, - 3781224327123596, 767991123270668311781), (2155469603, 3326516116, 3843369786)),
     ((- 2487082114601318395732, - 4713827951447757, 957409091024676322728), (2082469029, 749754403, 3963963316)),
     ((- 2645598410113242263439, - 5014283469062844, 1018430374359234323427), (3760163766, 1041986082, 1799196192)),
     ((- 545032445058775654865, - 1033013437752740, 209811736712283496171), (1021313167, 1312544548, 1716381787)),
     ((- 496013400785692066027, - 940106808798468, 190941720980642092933), (2569413030, 1631336015, 2594942403)),
     ((- 1133759232232503798117, - 2148843279950628, 436443730427262631438), (2334639309, 3114094203, 601680947)),
     ((- 60954446917225461935, - 115523272462640, 23464581761236902627), (563657176, 191330473, 1641595774)),
     ((- 453729481452885453997, - 859967655200258, 174664410095923042555), (3414769923, 1968799026, 2238126504)),
     ((- 843402850845401309723, - 1598520099524736, 324670243922715780184), (1646861218, 2317984620, 2301581548)),
     ((- 891905307576024312700, - 1690448596098488, 343341397855424417241), (841254072, 3765813448, 1635365181)),
     ((- 450295535037481192024, - 853450691306772, 173342502995198434690), (1930213004, 2072952279, 3077694794)),
     ((- 1594837962480884028874, - 3022738124876035, 613937254031722603858), (1097613522, 1784540933, 1194440107)),
     ((- 240212482309656265477, - 455278956233075, 92470454832457695487), (143812745, 3254530816, 3514348856)),
     ((- 2079484180150115401618, - 3941299222389532, 800503146647950532560), (2692035063, 2596905012, 1643240704)),
     ((- 454641761814874315551, - 861688742199374, 175015594930745217802), (2375319030, 1391532370, 3742334018)),
     ((- 2358034001164926827921, - 4469249875718460, 907731665312952181612), (4269164791, 2795313144, 2507855960)),
     ((- 1058940037749198941988, - 2007029088808026, 407641876017169274418), (513890845, 1208902926, 2870530442)),
     ((- 1387360621017607849397, - 2629504737554603, 534068281576594011475), (1848364568, 1552116673, 3496528455)),
     ((- 2058444778329179257362, - 3901428719910282, 792403971131483039540), (364070020, 3520039729, 837362349)),
     ((- 118058737713969344840, - 223756361924550, 45447035345320677402), (1192700714, 3968150021, 298357363)),
     ((- 14988555173865236333, - 28404654837064, 5769885485597895661), (2709640529, 676525399, 875361870)),
     ((- 129015199662299743241, - 244525089109450, 49664755464101295182), (2742149264, 1410604392, 3032350755)),
     ((- 1548189052659735656229, - 2934325550406504, 595979628071416128931), (3878579563, 845297523, 1721916511)),
     ((- 499216975802844184736, - 946178709600712, 192174945985724930757), (1570315355, 4252790045, 3522351060)),
     ((- 2088967197724255023948, - 3959265513918058, 804153660313408600846), (2305761589, 381933244, 3663579047)),
     ((- 2259829432855739472842, - 4283125333478562, 869927547013709763503), (1667857811, 1564715297, 2263851601)),
     ((- 862901856804445383129, - 1635480153632951, 332176439819551957009), (4093947334, 3454015638, 2815567716)),
     ((- 1334745082028271608459, - 2529766951869557, 513813785337780536434), (250120061, 570149551, 1513430926)),
     ((- 385647202054236683639, - 730928440401586, 148455949646898481146), (4158106802, 3062358456, 1815738463)),
     ((- 555103185288582415526, - 1052092272186080, 213688495826549674250), (931848746, 256263523, 2633569246)),
     ((- 1167761089823737570942, - 2213294239739528, 449532838893188065145), (1648005210, 1032291296, 3987397422)),
     ((- 2676972006976905431875, - 5073745407488495, 1030507726641587462472), (4161327077, 489964129, 3870847744)),
     ((- 2522764684041954447014, - 4781473834275734, 971145194138598894274), (1270934555, 3136631324, 505612043)),
     ((- 43043679422934292061, - 81578295804306, 16569782620057056890), (280996820, 143706137, 3013099060)),
     ((- 1528590846347674433209, - 2897186872305427, 588435244718690918348), (919218027, 4154920441, 1125672685)),
     ((- 213351002672445553771, - 404363583931063, 82130054471681574476), (2920112852, 1965329198, 1177141043)),
     ((- 233305033890845124634, - 442185066581387, 89811413593491946032), (1481142942, 4120754772, 1088557292)),
     ((- 199513905849413204751, - 378136856989436, 76803426045107560452), (2111859033, 2813610100, 1001476468)),
     ((- 168869212927537141221, - 320057077285369, 65006667334662480545), (1781286360, 3661231931, 3509383709)),
     ((- 2073613372982901970298, - 3930167566727151, 798243163307827536532), (1185024844, 587779104, 1004942725)),
     ((- 170038764282738206938, - 322278902218767, 65456889338661619781), (1310227170, 218138208, 3172947233)),
     ((- 1695079879052840980854, - 3212738465169125, 652525655137832657908), (2230902378, 4243560874, 2491962392)),
     ((- 1045562809598687574927, - 1981671634596424, 402492275297619404070), (999448569, 1464488480, 3344426626)),
     ((- 1883251932043504657605, - 3569381375791658, 724963003768655706176), (1226155368, 3477563770, 550006884)),
     ((- 50934378987141086792, - 96533268043050, 19607329090367585880), (1277901832, 310796286, 2818511068)),
     ((- 1337531524678644834510, - 2535065290435860, 514886434081463787109), (481918378, 339570348, 1728801469)),
     ((- 503216560837637456810, - 953761752873068, 193714597225911370570), (3138921230, 2381863183, 1992357430)),
     ((- 668345197499005854573, - 1266726935426039, 257281319454524808168), (2465372719, 1391015357, 3328905025)),
     ((- 1865811877899980331871, - 3536326088038197, 718249407028048909353), (118634664, 3358712512, 2492792220)),
     ((- 1046257864141888093398, - 1982995880660566, 402759838448594200217), (2303067090, 3371139074, 1967771133)),
     ((- 651953088273923379095, - 1235656025533358, 250971131985994262752), (3035321857, 3971176093, 226779704)),
     ((- 8659674165297951228, - 16406256663283, 3333565359349047023), (1774298149, 4179629947, 3145006948)),
     ((- 1665366262805945922630, - 3156402908263004, 641087316957230563181), (185429251, 88142322, 3372328450)),
     ((- 1914803144134531505653, - 3629187642448007, 737108729519581906376), (127447080, 487724245, 2942566616)),
     ((- 1457864752696959263952, - 2763136208913087, 561209040711887610184), (1614979968, 1486547157, 1122661217)),
     ((- 212209086505529171113, - 402203572941644, 81690470703863823071), (613698149, 3416334823, 3832821180)),
     ((- 2473448879875079610922, - 4687990431611121, 952160939868861155566), (2575546527, 1033712257, 125034191)),
     ((- 2632300964921547814, - 4987688598921, 1013311487298963413), (1051614737, 227719572, 3725579556)),
     ((- 2336964634653003229611, - 4429323128260473, 899620954802054635444), (2999155498, 2971093563, 2685380188)),
     ((- 1214165080896301459516, - 2301232343949082, 467396182714819402930), (1253368368, 2860152458, 2836784419)),
     ((- 1354935687488688694465, - 2568041720694187, 521586214359195053555), (2962469315, 4021086500, 2670244515)),
     ((- 1200518614903494120486, - 2275363022956271, 462142938151224806255), (804213223, 438999528, 3143925885)),
     ((- 1664214052456850108975, - 3154236607275517, 640643770413025533243), (1547173514, 490999994, 918013965)),
     ((- 141893928315717522271, - 268935228907810, 54622457430921922046), (3846994569, 2894966137, 1130633118)),
     ((- 215234544852494015361, - 407931812767104, 82855129207940954567), (1511326704, 3759209742, 1610795712))]"

definition cert2_127 :: "(vec3 \<times> vec3) list" where
  "cert2_127 =
    [((- 436866886806445907258, - 827997896632851, 168173107976254383582), (972103006, 964807713, 878035866)),
     ((- 129804777690298106988, - 246021710251790, 49968705693458404543), (3497384788, 3174249442, 3182508868)),
     ((- 1705317477421674790898, - 3232125695390517, 656466646754954614888), (1776335558, 1189944887, 4095757548)),
     ((- 2824446253690312586110, - 5353256983902307, 1087278342966079630630), (4022832294, 4130146837, 1942923647)),
     ((- 635593319289031187314, - 1204643024875038, 244673393985464894525), (165639584, 1205513289, 2037453462)),
     ((- 698941335634003675594, - 1324722938370584, 269059386860109391742), (3458099202, 3062421748, 4052486999)),
     ((- 2765087383749258762381, - 5240739143742145, 1064427982953401717133), (296275263, 3452455838, 2081462173)),
     ((- 729464450878296131406, - 1382568275780708, 280809343910543312869), (2828288883, 3866690251, 410553827)),
     ((- 28380501817291552933, - 53783465389072, 10925152128989651573), (3288027530, 412403981, 2458742268)),
     ((- 1017866091127401904302, - 1929192495261398, 391830347448033570471), (3844599430, 2430152838, 3283485436)),
     ((- 1815247148203142753437, - 3440482324193585, 698784375454285543746), (67933059, 1294996291, 2657888382)),
     ((- 1189429308923696807477, - 2254359435603790, 457874079348732909149), (2732588524, 1866530072, 818237694)),
     ((- 112726773398765171586, - 213650458135577, 43394481036930393108), (4199239222, 3155848463, 2121388468)),
     ((- 757717316452350504952, - 1436111740637595, 291685362117372518836), (550710036, 500329021, 1075236085)),
     ((- 194658236228650420960, - 368941239358806, 74934222683507435489), (708689546, 419139045, 2012018174)),
     ((- 681598298463290760499, - 1291854027678689, 262383137067232831327), (1293182265, 3168473803, 366230236)),
     ((- 22583278604883437465, - 42799502877016, 8693495128730167221), (3186089068, 4188864734, 1211781402)),
     ((- 247239930295053094437, - 468589440026656, 95175690241308009391), (1347291439, 2050427676, 736113023)),
     ((- 91234257939881008882, - 172916112409754, 35120878178924614200), (4196897331, 3436564969, 1900167098)),
     ((- 607926284682743024483, - 1152207632557562, 234022893022674009880), (958383622, 3694638688, 1150087061)),
     ((- 222705570250150903005, - 422094244137040, 85731120953104822695), (4119603367, 3479396923, 3534176399)),
     ((- 2103015248109783003052, - 3985890916484801, 809561495897704739813), (980937351, 2094378936, 448446028)),
     ((- 33860425246471927367, - 64174660638894, 13034663700744928872), (2942968846, 4293637338, 3549906544)),
     ((- 2121779196440980758841, - 4021452059340007, 816784729343540276831), (1975983015, 2092556693, 611187071)),
     ((- 62895316912863528362, - 119204045315366, 24211724995368808081), (2970221269, 880904779, 2447465272)),
     ((- 1008551373009100003718, - 1911536041914897, 388244621124238057953), (419134859, 2976059897, 747864206)),
     ((- 94170830950808469234, - 178481732741668, 36251320025672169391), (4043135299, 1612983166, 1149778656)),
     ((- 222584618869422566603, - 421866509771854, 85684560387351082003), (3949395794, 1774568686, 2123036003)),
     ((- 758892831294624048986, - 1438346180260502, 292137879782554520238), (3046911698, 2576744453, 2492729814)),
     ((- 1046204235614675684726, - 1982893124535506, 402739194002897292110), (1391529818, 423458502, 2587125255)),
     ((- 1126936736628832127112, - 2135917857525454, 433817392003586889520), (48329260, 2599277669, 821961664)),
     ((- 113755574314158597566, - 215601957233632, 43790520774078529610), (1318489562, 1530977112, 3713577419)),
     ((- 2321934687136428504067, - 4400829705499855, 893835135225448210916), (770600793, 3249576224, 3578552768)),
     ((- 2156158595759089554176, - 4086621529916906, 830019173531122396652), (2803285489, 1922250286, 3164022812)),
     ((- 1685561365491574672756, - 3194688823985237, 648861477202535645590), (208329741, 3633562083, 3548346666)),
     ((- 2119913437333389536708, - 4017924199065067, 816066500244080959267), (1816075033, 3570111203, 959489356)),
     ((- 155006819090998428957, - 293782248851491, 59670300753781412032), (4240216888, 2891584407, 2102314945)),
     ((- 744152895126647033747, - 1410403862888032, 286463700871761544626), (2918371295, 65155283, 3469357011)),
     ((- 2026573561895844902190, - 3841029716742260, 780135058829817082751), (2959420453, 1365016881, 4082486022)),
     ((- 2806172210043546995347, - 5318619858688031, 1080243699675743363815), (4185325422, 2762854843, 3200044912)),
     ((- 1724161426420178423188, - 3267842548339025, 663720676679543605800), (2618500928, 4237264351, 1470046497)),
     ((- 363857427210936855443, - 689617987600009, 140067915979659421011), (1868464655, 3407681142, 1652841784)),
     ((- 459970857531044953424, - 871787788057162, 177067044963716533798), (792188465, 4251338402, 2219407026)),
     ((- 829356824510703737793, - 1571893692789362, 319263187506034505585), (478845700, 2378167062, 882114621)),
     ((- 131014340635476880084, - 248312627372829, 50434330272217130839), (2636090868, 1972761498, 71690719)),
     ((- 865437134976079647, - 1637698142056, 333152403729488483), (1156725261, 1100755307, 221922891)),
     ((- 8292332815286794019, - 15715836782141, 3192156293428564566), (1387244644, 3135090808, 1243609165)),
     ((- 260397214520746526412, - 493532477690918, 100240622938163178623), (2822471992, 2034317853, 2071407475)),
     ((- 722432127153957487378, - 1369241084356354, 278102231579258638467), (3653936868, 3893194049, 2484299328)),
     ((- 1039141715987777236622, - 1969500405654997, 400020457677694513939), (4129760842, 1671665759, 1677834656)),
     ((- 473984693912665745143, - 898351833683529, 182461709770075950764), (1464411153, 277697599, 1610723613))]"

lemmas cert_eval = cert_run.simps row_square_def Let_def prod.case prod.inject
  arith_simps rel_simps simp_thms if_True mult_zero_left mult_zero_right mult_1 mult_1_right
  add_0 add_0_right mult_minus1_right

lemma cert1_76_run: "cert_run (0, 1403580, - 810728) 4294967087 (0, 1, 0) cert1_76 = Some (82758667, 1871391091, 4127413238)"
  unfolding cert1_76_def by (simp only: cert_eval)

lemma cert1_127_run: "cert_run (0, 1403580, - 810728) 4294967087 (82758667, 1871391091, 4127413238) cert1_127 = Some (2427906178, 3580155704, 949770784)"
  unfolding cert1_127_def by (simp only: cert_eval)

lemma cert2_76_run: "cert_run (527612, 0, - 1370589) 4294944443 (0, 1, 0) cert2_76 = Some (1511326704, 3759209742, 1610795712)"
  unfolding cert2_76_def by (simp only: cert_eval)

lemma cert2_127_run: "cert_run (527612, 0, - 1370589) 4294944443 (1511326704, 3759209742, 1610795712) cert2_127 = Some (1464411153, 277697599, 1610723613)"
  unfolding cert2_127_def by (simp only: cert_eval)

lemma A1p0_comp: "A1p0 = comp (0, 1403580, - 810728)" and A2p0_comp: "A2p0 = comp (527612, 0, - 1370589)"
  by (simp_all add: A1p0_def A2p0_def comp_def)

lemma cert_lengths: "length cert1_76 = 76" "length cert1_127 = 51" "length cert2_76 = 76"
  "length cert2_127 = 51"
  by (simp_all add: cert1_76_def cert1_127_def cert2_76_def cert2_127_def)

subsection \<open>The four matrices\<close>

lemma A1p76_power: "mmod (mpow A1p0 (2 ^ 76)) rng_m1 = A1p76"
  using cert_run_sound [OF cert1_76_run]
  by (simp add: A1p0_comp comp_poly cert_lengths rng_m1_def)
    (simp add: poly_mat_def row_next_def mmod_def vmod_def A1p76_def)

lemma A2p76_power: "mmod (mpow A2p0 (2 ^ 76)) rng_m2 = A2p76"
  using cert_run_sound [OF cert2_76_run]
  by (simp add: A2p0_comp comp_poly cert_lengths rng_m2_def)
    (simp add: poly_mat_def row_next_def mmod_def vmod_def A2p76_def)

lemma A1p127_power: "mmod (mpow A1p0 (2 ^ 127)) rng_m1 = A1p127"
  using cert_run_compose [OF cert1_76_run cert1_127_run]
  by (simp add: A1p0_comp comp_poly cert_lengths rng_m1_def)
    (simp add: poly_mat_def row_next_def mmod_def vmod_def A1p127_def)

lemma A2p127_power: "mmod (mpow A2p0 (2 ^ 127)) rng_m2 = A2p127"
  using cert_run_compose [OF cert2_76_run cert2_127_run]
  by (simp add: A2p0_comp comp_poly cert_lengths rng_m2_def)
    (simp add: poly_mat_def row_next_def mmod_def vmod_def A2p127_def)

end
