(* ===== verification/RngStreams.thy ===== *)
theory RngStreams
  imports RngPowers
begin

text \<open>
  What the generator of tools/rng.cc promises: legal seeds stay legal, draws fall in the
  documented ranges, and the operations that jump (to the next substream, to the next
  stream, by \<open>advance_state\<close>) agree with drawing that many numbers one by one.
\<close>

definition vec_ok :: "int \<Rightarrow> vec3 \<Rightarrow> bool" where
  "vec_ok m = (\<lambda>(x, y, z). 0 \<le> x \<and> x < m \<and> 0 \<le> y \<and> y < m \<and> 0 \<le> z \<and> z < m \<and> (x, y, z) \<noteq> (0, 0, 0))"

definition seed_ok :: "vec3 \<times> vec3 \<Rightarrow> bool" where
  "seed_ok s \<longleftrightarrow> vec_ok rng_m1 (fst s) \<and> vec_ok rng_m2 (snd s)"

definition draw :: "rng \<Rightarrow> rng" where
  "draw g = snd (U01 g)"

lemma vec_ok_vmod: "vec_ok m v \<Longrightarrow> vmod v m = v"
  by (cases v) (auto simp: vec_ok_def vmod_def)

subsection \<open>One draw is one matrix product\<close>

lemma U01_first_lin: "vec_ok rng_m1 c \<Longrightarrow> U01_first c = vmod (mv A1p0 c) rng_m1"
  unfolding U01_first_def Let_def cdiv_rem_mod [OF rng_m_pos(1)]
  by (cases c) (simp add: vec_ok_def mat_defs A1p0_def rng_a12_def rng_a13n_def)

lemma U01_second_lin: "vec_ok rng_m2 c \<Longrightarrow> U01_second c = vmod (mv A2p0 c) rng_m2"
  unfolding U01_second_def Let_def cdiv_rem_mod [OF rng_m_pos(2)]
  by (cases c) (simp add: vec_ok_def mat_defs A2p0_def rng_a21_def rng_a23n_def)

lemma inverse_1: "mmod (mm InvA1 A1p0) rng_m1 = mat_id" "mmod (mm A1p0 InvA1) rng_m1 = mat_id"
  by (simp_all add: InvA1_def A1p0_def mat_defs rng_m1_def)

lemma inverse_2: "mmod (mm InvA2 A2p0) rng_m2 = mat_id" "mmod (mm A2p0 InvA2) rng_m2 = mat_id"
  by (simp_all add: InvA2_def A2p0_def mat_defs rng_m2_def)

text \<open>A matrix with an inverse keeps a vector from becoming zero.\<close>

lemma vec_ok_step:
  assumes inv: "mmod (mm I A) m = mat_id" and m: "0 < m" and v: "vec_ok m v"
  shows "vec_ok m (vmod (mv A v) m)"
proof -
  have "vmod (mv A v) m \<noteq> (0, 0, 0)"
  proof
    assume z: "vmod (mv A v) m = (0, 0, 0)"
    have "v = vmod (mv (mmod (mm I A) m) v) m" using inv v by (simp add: vec_ok_vmod)
    also have "\<dots> = vmod (mv I (vmod (mv A v) m)) m" by (simp add: vmod_mv_cong mm_mv)
    also have "\<dots> = (0, 0, 0)" unfolding z by (cases I) (auto simp: mat_defs)
    finally show False using v by (simp add: vec_ok_def)
  qed
  with m show ?thesis by (cases "mv A v") (auto simp: vec_ok_def vmod_def)
qed

lemma draw_Cg:
  "seed_ok (Cg g) \<Longrightarrow>
   Cg (draw g) = (vmod (mv A1p0 (fst (Cg g))) rng_m1, vmod (mv A2p0 (snd (Cg g))) rng_m2)"
  by (simp add: draw_def U01_def Let_def seed_ok_def U01_first_lin U01_second_lin)

lemma draw_ok: "seed_ok (Cg g) \<Longrightarrow> seed_ok (Cg (draw g))"
  using vec_ok_step [OF inverse_1(1)] vec_ok_step [OF inverse_2(1)]
  by (simp add: draw_Cg seed_ok_def)

lemma draws_Cg:
  assumes "seed_ok (Cg g)"
  shows "seed_ok (Cg ((draw ^^ n) g)) \<and> Cg ((draw ^^ n) g) =
    (vmod (mv (mpow A1p0 n) (fst (Cg g))) rng_m1, vmod (mv (mpow A2p0 n) (snd (Cg g))) rng_m2)"
proof (induction n)
  case 0
  with assms show ?case by (cases "Cg g") (simp add: seed_ok_def vec_ok_vmod)
next
  case (Suc n)
  then have ok: "seed_ok (Cg ((draw ^^ n) g))" by (rule conjunct1)
  from Suc have "Cg ((draw ^^ Suc n) g) =
    (vmod (mv (mpow A1p0 (Suc n)) (fst (Cg g))) rng_m1, vmod (mv (mpow A2p0 (Suc n)) (snd (Cg g))) rng_m2)"
    by (simp add: draw_Cg [OF ok] vmod_mv_cong mm_mv)
  moreover have "seed_ok (Cg ((draw ^^ Suc n) g))" using draw_ok [OF ok] by simp
  ultimately show ?case by (intro conjI)
qed

subsection \<open>Ranges\<close>

lemma U01_range:
  assumes "seed_ok (Cg g)"
  shows "0 < fst (U01 g)" "fst (U01 g) < 1"
proof -
  obtain a b p1 where x: "U01_first (fst (Cg g)) = (a, b, p1)" by (metis prod_cases3)
  obtain c d p2 where y: "U01_second (snd (Cg g)) = (c, d, p2)" by (metis prod_cases3)
  from draw_ok [OF assms] x y have p: "0 \<le> p1" "p1 < rng_m1" "0 \<le> p2" "p2 < rng_m2"
    by (auto simp: draw_def U01_def Let_def seed_ok_def vec_ok_def)
  define k where "k = (if p1 > p2 then p1 - p2 else p1 - p2 + rng_m1)"
  have k: "0 < k" "k < rng_m1 + 1" using p by (auto simp: k_def rng_consts)
  have u: "fst (U01 g) = (if rng_anti g then 1 - of_int k * rng_norm else of_int k * rng_norm)"
    by (simp add: U01_def Let_def x y k_def)
  have "(0::real) < of_int k * rng_norm" using k by (simp add: rng_norm_def rng_consts)
  moreover have "of_int k * rng_norm < (1::real)" using k by (simp add: rng_norm_def rng_consts)
  ultimately show "0 < fst (U01 g)" "fst (U01 g) < 1" by (simp_all add: u)
qed

lemma U01_keeps:
  assumes "seed_ok (Cg g)"
  shows "seed_ok (Cg (snd (U01 g)))" "rng_anti (snd (U01 g)) = rng_anti g"
    "rng_inc_prec (snd (U01 g)) = rng_inc_prec g"
  using draw_ok [OF assms] by (simp_all add: draw_def U01_def Let_def)

lemma rand_u01_range:
  assumes "seed_ok (Cg g)"
  shows "0 \<le> fst (rand_u01 g)" "fst (rand_u01 g) < 1" "seed_ok (Cg (snd (rand_u01 g)))"
proof -
  obtain u g1 where 1: "U01 g = (u, g1)" by (cases "U01 g")
  obtain v g2 where 2: "U01 g1 = (v, g2)" by (cases "U01 g1")
  from U01_range [OF assms] U01_keeps [OF assms] 1
  have u: "0 < u" "u < 1" "seed_ok (Cg g1)" by auto
  from U01_range [OF u(3)] U01_keeps [OF u(3)] 2
  have v: "0 < v" "v < 1" "seed_ok (Cg g2)" by auto
  have "- 1 < (v - 1) * rng_fact" "(v - 1) * rng_fact < 0" "0 < v * rng_fact" "v * rng_fact < 1"
    using v by (simp_all add: rng_fact_def)
  then show "0 \<le> fst (rand_u01 g)" "fst (rand_u01 g) < 1"
    using u v by (auto simp: rand_u01_def U01d_def 1 2 Let_def)
  show "seed_ok (Cg (snd (rand_u01 g)))"
    using u v by (auto simp: rand_u01_def U01d_def 1 2 Let_def)
qed

lemma rand_int_range:
  assumes "seed_ok (Cg g)" "low \<le> high"
  shows "low \<le> fst (rand_int low high g)" "fst (rand_int low high g) \<le> high"
    "seed_ok (Cg (snd (rand_int low high g)))"
proof -
  obtain u g' where u: "rand_u01 g = (u, g')" by (cases "rand_u01 g")
  from rand_u01_range [OF assms(1)] u have r: "0 \<le> u" "u < 1" "seed_ok (Cg g')" by auto
  let ?n = "high - low + 1"
  have n: "0 < ?n" using assms(2) by simp
  have "0 \<le> real_of_int ?n * u" using n r(1) by simp
  moreover have "real_of_int ?n * u < real_of_int ?n"
    using n r(2) by (metis mult.right_neutral mult_strict_left_mono of_int_0_less_iff)
  ultimately have "0 \<le> to_int (of_int ?n * u)" "to_int (of_int ?n * u) < ?n"
    using floor_less_iff [of "real_of_int ?n * u" ?n] by (simp_all only: to_int_def zero_le_floor if_True)
  then show "low \<le> fst (rand_int low high g)" "fst (rand_int low high g) \<le> high"
    "seed_ok (Cg (snd (rand_int low high g)))"
    using r(3) by (simp_all add: rand_int_def u)
qed

lemma uniform_int_range:
  assumes "seed_ok (Cg g)" "0 < k" "k < 2 ^ 32"
  shows "\<exists>n g'. uniform_int k g = Some (n, g') \<and> 0 \<le> n \<and> n < k \<and> seed_ok (Cg g')"
proof -
  have "seed_ok (Cg (snd (uniform_positive_int g)))"
    using rand_int_range [OF assms(1), of 0 MAXINT] by (simp add: uniform_positive_int_def MAXINT_def)
  with assms(2,3) show ?thesis by (simp add: uniform_int_def Let_def case_prod_beta)
qed

subsection \<open>Jumps\<close>

lemma vmod_mv_power:
  assumes "mmod M m = mmod (mpow A n) m"
  shows "vmod (mv M s) m = vmod (mv (mpow A n) s) m"
  by (metis assms vmod_mv_cong(1))

lemma rng_apply_power:
  assumes "seed_ok (Cg g)" "mmod A rng_m1 = mmod (mpow A1p0 n) rng_m1"
    "mmod B rng_m2 = mmod (mpow A2p0 n) rng_m2"
  shows "rng_apply A B (Cg g) = Cg ((draw ^^ n) g)"
  using draws_Cg [OF assms(1), of n] vmod_mv_power [OF assms(2)] vmod_mv_power [OF assms(3)]
  by (simp add: rng_apply_def MatVecModM_eq)

text \<open>Powers with an integer exponent, given the matrix and its inverse.\<close>

definition zpow :: "mat3 \<Rightarrow> mat3 \<Rightarrow> int \<Rightarrow> mat3" where
  "zpow A I n = (if 0 \<le> n then mpow A (nat n) else mpow I (nat (- n)))"

lemma mpow_inverse:
  assumes "mmod (mm A I) m = mmod mat_id m"
  shows "mmod (mm (mpow A n) (mpow I n)) m = mmod mat_id m"
proof (induction n)
  case (Suc n)
  have "mm (mpow A (Suc n)) (mpow I (Suc n)) = mm (mpow A n) (mm (mm A I) (mpow I n))"
    by (simp add: mpow_commute [symmetric] mm_assoc)
  also have "mmod \<dots> m = mmod (mm (mpow A n) (mm mat_id (mpow I n))) m"
    by (intro mmod_mm_eq refl assms)
  finally show ?case using Suc by simp
qed simp

lemma zpow_add_aux:
  assumes "mmod (mm A I) m = mmod mat_id m" "n \<le> k"
  shows "mmod (mm (mpow A k) (mpow I n)) m = mmod (mpow A (k - n)) m"
proof -
  have "mm (mpow A k) (mpow I n) = mm (mpow A (k - n)) (mm (mpow A n) (mpow I n))"
    using assms(2) mpow_add [of A "k - n" n] by (simp add: mm_assoc)
  also have "mmod \<dots> m = mmod (mm (mpow A (k - n)) mat_id) m"
    by (intro mmod_mm_eq refl mpow_inverse assms(1))
  finally show ?thesis by simp
qed

lemma zpow_add_aux':
  assumes "mmod (mm A I) m = mmod mat_id m" "k \<le> n"
  shows "mmod (mm (mpow A k) (mpow I n)) m = mmod (mpow I (n - k)) m"
proof -
  have "mm (mpow A k) (mpow I n) = mm (mm (mpow A k) (mpow I k)) (mpow I (n - k))"
    using assms(2) mpow_add [of I k "n - k"] by (simp add: mm_assoc)
  also have "mmod \<dots> m = mmod (mm mat_id (mpow I (n - k))) m"
    by (intro mmod_mm_eq refl mpow_inverse assms(1))
  finally show ?thesis by simp
qed

lemma zpow_add:
  assumes "mmod (mm A I) m = mmod mat_id m" "mmod (mm I A) m = mmod mat_id m"
  shows "mmod (mm (zpow A I x) (zpow A I y)) m = mmod (zpow A I (x + y)) m"
proof -
  consider "0 \<le> x" "0 \<le> y" | "x < 0" "y < 0" | "0 \<le> x" "y < 0" "0 \<le> x + y"
    | "0 \<le> x" "y < 0" "x + y < 0" | "x < 0" "0 \<le> y" "0 \<le> x + y" | "x < 0" "0 \<le> y" "x + y < 0"
    by linarith
  then show ?thesis
  proof cases
    case 1
    then show ?thesis by (simp add: zpow_def mpow_add [symmetric] nat_add_distrib)
  next
    case 2
    then show ?thesis by (simp add: zpow_def mpow_add [symmetric] nat_add_distrib [symmetric] add.commute)
  next
    case 3
    then have "nat x - nat (- y) = nat (x + y)" "nat (- y) \<le> nat x" by linarith+
    with 3 show ?thesis using zpow_add_aux [OF assms(1), of "nat (- y)" "nat x"] by (simp add: zpow_def)
  next
    case 4
    then have "nat (- y) - nat x = nat (- (x + y))" "nat x \<le> nat (- y)" by linarith+
    with 4 show ?thesis using zpow_add_aux' [OF assms(1), of "nat x" "nat (- y)"] by (simp add: zpow_def)
  next
    case 5
    then have "nat y - nat (- x) = nat (x + y)" "nat (- x) \<le> nat y" by linarith+
    with 5 show ?thesis using zpow_add_aux' [OF assms(2), of "nat (- x)" "nat y"] by (simp add: zpow_def)
  next
    case 6
    then have "nat (- x) - nat y = nat (- (x + y))" "nat y \<le> nat (- x)" by linarith+
    with 6 show ?thesis using zpow_add_aux [OF assms(2), of "nat y" "nat (- x)"] by (simp add: zpow_def)
  qed
qed

text \<open>The number of steps \<open>advance_state\<close> is asked to jump.\<close>

definition jump :: "int \<Rightarrow> int \<Rightarrow> int" where
  "jump e c = (if e > 0 then 2 ^ nat e else if e < 0 then - (2 ^ nat (- e)) else 0) + c"

lemma advance_matrix:
  fixes A I :: mat3 and m e c :: int
  assumes m: "0 < m" and inv: "mmod (mm A I) m = mmod mat_id m" "mmod (mm I A) m = mmod mat_id m"
  defines "B \<equiv> (if e > 0 then MatTwoPowModM A m e else MatTwoPowModM I m (- e))"
    and "C \<equiv> (if c \<ge> 0 then MatPowModM A m c else MatPowModM I m (- c))"
  shows "mmod (if e \<noteq> 0 then MatMatModM B C m else C) m = mmod (zpow A I (jump e c)) m"
proof -
  have C: "mmod C m = mmod (zpow A I c) m"
    using m by (simp add: C_def zpow_def MatPowModM_eq)
  show ?thesis
  proof (cases "e = 0")
    case True
    with C show ?thesis by (simp add: jump_def)
  next
    case False
    have pow: "nat (2 ^ k) = 2 ^ k" for k by (simp add: nat_power_eq)
    have "mmod B m = mmod (zpow A I (jump e 0)) m"
      using m False by (simp add: B_def zpow_def jump_def MatTwoPowModM_eq pow not_le)
    with C have "mmod (mm B C) m = mmod (mm (zpow A I (jump e 0)) (zpow A I c)) m"
      by (rule mmod_mm_eq [rotated])
    also have "\<dots> = mmod (zpow A I (jump e c)) m" by (simp add: zpow_add [OF inv] jump_def)
    finally show ?thesis using False m by (simp add: MatMatModM_eq)
  qed
qed

lemma advance_Cg:
  "Cg (advance_state e c g) =
   (vmod (mv (zpow A1p0 InvA1 (jump e c)) (fst (Cg g))) rng_m1,
    vmod (mv (zpow A2p0 InvA2 (jump e c)) (snd (Cg g))) rng_m2)"
proof -
  have "mmod mat_id rng_m1 = mat_id" "mmod mat_id rng_m2 = mat_id"
    by (simp_all add: mat_defs rng_m1_def rng_m2_def)
  then have inv: "mmod (mm A1p0 InvA1) rng_m1 = mmod mat_id rng_m1"
    "mmod (mm InvA1 A1p0) rng_m1 = mmod mat_id rng_m1"
    "mmod (mm A2p0 InvA2) rng_m2 = mmod mat_id rng_m2"
    "mmod (mm InvA2 A2p0) rng_m2 = mmod mat_id rng_m2"
    by (simp_all only: inverse_1 inverse_2)
  have cong: "vmod (mv M s) m = vmod (mv N s) m" if "mmod M m = mmod N m" for M N s m
    by (metis that vmod_mv_cong(1))
  show ?thesis
    unfolding advance_state_def Let_def
    using cong [OF advance_matrix [OF rng_m_pos(1) inv(1,2)]] cong [OF advance_matrix [OF rng_m_pos(2) inv(3,4)]]
    by (simp only: MatVecModM_eq rng_m_pos) simp
qed

subsection \<open>The documented behaviour\<close>

text \<open>A state for the witnesses: the package's default seed.\<close>

definition rng_example :: rng where
  "rng_example = \<lparr>Cg = default_seed, Bg = default_seed, Ig = default_seed,
     rng_anti = False, rng_inc_prec = False\<rparr>"

lemma default_seed_ok: "seed_ok default_seed"
  by (simp add: seed_ok_def vec_ok_def default_seed_def rng_consts)

lemma example_ok: "seed_ok (Cg rng_example)" "seed_ok (Bg rng_example)"
  by (simp_all add: rng_example_def default_seed_ok)

lemma seed_ok_iff_CheckSeed:
  "0 \<le> a \<Longrightarrow> 0 \<le> b \<Longrightarrow> 0 \<le> c \<Longrightarrow> 0 \<le> d \<Longrightarrow> 0 \<le> e \<Longrightarrow> 0 \<le> f \<Longrightarrow>
   CheckSeed ((a, b, c), (d, e, f)) = 0 \<longleftrightarrow> seed_ok ((a, b, c), (d, e, f))"
  by (auto simp: CheckSeed_def seed_ok_def vec_ok_def not_le)

lemma next_substream_jump:
  assumes "seed_ok (Bg g)"
  shows "Cg (reset_next_substream g) = Cg ((draw ^^ 2 ^ 76) (reset_start_substream g))"
proof -
  have "Bg g = Cg (reset_start_substream g)" by (simp add: reset_start_substream_def)
  with assms rng_apply_power [of "reset_start_substream g" A1p76 "2 ^ 76" A2p76]
  show ?thesis by (simp only: reset_next_substream_def Let_def A1p76_power [symmetric]
    A2p76_power [symmetric] mmod_idem) simp
qed

lemma next_stream_jump:
  assumes "seed_ok seed"
  shows "fst (rng_init seed g) = Cg ((draw ^^ 2 ^ 127) (snd (rng_init seed g)))"
proof -
  have s: "Cg (snd (rng_init seed g)) = seed" by (simp add: rng_init_def)
  with assms rng_apply_power [of "snd (rng_init seed g)" A1p127 "2 ^ 127" A2p127]
  have "rng_apply A1p127 A2p127 seed = Cg ((draw ^^ 2 ^ 127) (snd (rng_init seed g)))"
    by (simp only: A1p127_power [symmetric] A2p127_power [symmetric] mmod_idem s)
  then show ?thesis by (simp only: rng_init_def fst_conv)
qed

lemma advance_forward:
  assumes "seed_ok (Cg g)" "0 \<le> jump e c"
  shows "Cg (advance_state e c g) = Cg ((draw ^^ nat (jump e c)) g)"
  using draws_Cg [OF assms(1)] assms(2) by (simp add: advance_Cg zpow_def)

lemma advance_back:
  assumes "seed_ok (Cg g)" "jump e c = - int n"
  shows "Cg (advance_state e c ((draw ^^ n) g)) = Cg g"
proof -
  have id: "mmod mat_id rng_m1 = mat_id" "mmod mat_id rng_m2 = mat_id"
    by (simp_all add: mat_defs rng_m1_def rng_m2_def)
  have z: "zpow A I (- int n) = mpow I n" for A I by (cases "n = 0") (simp_all add: zpow_def)
  have "vmod (mv (mpow I n) (vmod (mv (mpow A n) v) m)) m = v"
    if "mmod (mm I A) m = mmod mat_id m" "vec_ok m v" for A I v m
  proof -
    have "vmod (mv (mpow I n) (vmod (mv (mpow A n) v) m)) m = vmod (mv (mm (mpow I n) (mpow A n)) v) m"
      by (simp add: vmod_mv_cong mm_mv)
    also have "\<dots> = vmod (mv mat_id v) m"
      by (metis mpow_inverse [OF that(1)] vmod_mv_cong(1))
    finally show ?thesis using that(2) by (simp add: vec_ok_vmod)
  qed
  moreover have "mmod (mm InvA1 A1p0) rng_m1 = mmod mat_id rng_m1"
    "mmod (mm InvA2 A2p0) rng_m2 = mmod mat_id rng_m2"
    by (simp_all only: inverse_1 inverse_2 id)
  ultimately show ?thesis
    using draws_Cg [OF assms(1), of n] assms(1)
    by (simp add: advance_Cg assms(2) z seed_ok_def)
qed

end
