(* ===== verification/RedQueue.thy ===== *)
theory RedQueue
  imports QueueBase RngStreams
begin

text \<open>
  Class REDQueue of queue/red.h and queue/red.cc, with the modified estimator and drop
  function (NARED) that \<open>is_modifiedRed\<close> selects.  A \<open>double\<close> is a \<open>real\<close>; the random draws
  come from the default generator, a field of the state.  An operation that traps (an integer
  division by zero), calls \<open>abort()\<close> or does not end is \<open>None\<close>.
\<close>

record edp =
  e_mean_pktsize :: int
  e_idle_pktsize :: int
  e_bytes :: bool
  e_wait :: bool
  e_setbit :: bool
  e_gentle :: bool
  e_th_min :: real
  e_th_min_pkts :: real
  e_th_max :: real
  e_th_max_pkts :: real
  e_max_p_inv :: real
  e_mark_p :: real
  e_use_mark_p :: bool
  e_q_w :: real
  e_adaptive :: int
  e_cautious :: int
  e_alpha :: real
  e_beta :: real
  e_interval :: real
  e_targetdelay :: real
  e_top :: real
  e_bottom :: real
  e_feng_adaptive :: int
  e_is_modifiedRed :: int
  e_buffer_size :: int
  e_ptc :: real
  e_delay :: real

datatype red_status = Above | Below | Between

record edv =
  v_ave :: real
  v_prob1 :: real
  v_slope :: real
  v_prob :: real
  v_a :: real
  v_b :: real
  v_c :: real
  v_d :: real
  v_count :: int
  v_count_bytes :: int
  v_old :: int
  v_cur_max_p :: real
  v_lastset :: real
  v_status :: red_status

text \<open>
  \<open>red_link\<close> is the bandwidth of the outgoing link once it is attached; \<open>red_de_drop\<close> and
  \<open>red_EDTrace\<close> say whether these targets are set.
\<close>

record red = queue +
  red_summarystats :: bool
  red_link :: "real option"
  red_qib :: bool
  red_de_drop :: bool
  red_EDTrace :: bool
  red_curq :: int
  red_drop_front :: bool
  red_drop_rand :: bool
  red_ns1_compat :: bool
  red_edp :: edp
  red_edv :: edv
  red_idle :: bool
  red_idletime :: real
  red_rng :: rng

subsection \<open>Parameters\<close>

definition red_initParams :: "edp \<Rightarrow> edv \<Rightarrow> edp \<times> edv" where
  "red_initParams e v =
     (e\<lparr>e_mean_pktsize := 0, e_idle_pktsize := 0, e_bytes := False, e_wait := False,
        e_setbit := False, e_gentle := False, e_th_min := 0, e_th_min_pkts := 0, e_th_max := 0,
        e_th_max_pkts := 0, e_max_p_inv := 0, e_q_w := 0, e_adaptive := 0, e_cautious := 0,
        e_alpha := 0, e_beta := 0, e_interval := 0, e_targetdelay := 0, e_top := 0,
        e_bottom := 0, e_feng_adaptive := 0, e_ptc := 0, e_delay := 0,
        e_is_modifiedRed := 0, e_buffer_size := 0\<rparr>,
      v\<lparr>v_ave := 0, v_prob1 := 0, v_slope := 0, v_prob := 0, v_a := 0, v_b := 0, v_c := 0,
        v_d := 0, v_count := 0, v_count_bytes := 0, v_old := 0, v_cur_max_p := 1,
        v_lastset := 0\<rparr>)"

definition red_initialize_params :: "real \<Rightarrow> edp \<Rightarrow> edp" where
  "red_initialize_params bandwidth e =
     (let e = (if e_q_w e = 0 then e\<lparr>e_q_w := 1 - exp (- 1 / e_ptc e)\<rparr>
               else if e_q_w e = - 1 then
                 (let rtt = 3 * (e_delay e + 1 / e_ptc e);
                      rtt = (if rtt < 1 / 10 then 1 / 10 else rtt)
                  in e\<lparr>e_q_w := 1 - exp (- 1 / (10 * rtt * e_ptc e))\<rparr>)
               else if e_q_w e = - 2 then e\<lparr>e_q_w := 1 - exp (- 10 / e_ptc e)\<rparr>
               else e);
          e = (if e_th_min_pkts e = 0 then
                 (let e = e\<lparr>e_th_min_pkts := 5\<rparr>;
                      targetqueue = e_targetdelay e * e_ptc e
                  in if e_th_min_pkts e < targetqueue / 2 then e\<lparr>e_th_min_pkts := targetqueue / 2\<rparr>
                     else e)
               else e);
          e = (if e_th_max_pkts e = 0 then e\<lparr>e_th_max_pkts := 3 * e_th_min_pkts e\<rparr> else e)
      in if e_bottom e = 0 then
           (let e = e\<lparr>e_bottom := 1 / 100\<rparr>;
                bottom1 = 80000 / bandwidth
            in if bottom1 < e_bottom e then e\<lparr>e_bottom := bottom1\<rparr> else e)
         else e)"

definition red_qsize :: "red \<Rightarrow> int" where
  "red_qsize s = (if red_qib s then pq_byteLength (q_pq s) else pq_length (q_pq s))"

definition red_deque :: "real option \<Rightarrow> red \<Rightarrow> addr option \<times> red" where
  "red_deque clk s =
     (let s = (case clk of
                 Some now \<Rightarrow> if red_summarystats s then queue_updateStats now (red_qsize s) s else s
               | None \<Rightarrow> s);
          (p, q) = pq_deque (q_pq s);
          s = s\<lparr>q_pq := q\<rparr>
      in (p, case p of
               Some _ \<Rightarrow> s\<lparr>red_idle := False\<rparr>
             | None \<Rightarrow> s\<lparr>red_idle := True,
                         red_idletime := (case clk of Some now \<Rightarrow> now | None \<Rightarrow> 0)\<rparr>))"

text \<open>The thresholds and coefficients \<open>reset\<close> computes from the parameters.\<close>

definition red_reset_edp :: "bool \<Rightarrow> real option \<Rightarrow> edp \<Rightarrow> edp" where
  "red_reset_edp qib link e =
     (let e = (case link of
                 None \<Rightarrow> e
               | Some bandwidth \<Rightarrow>
                   red_initialize_params bandwidth
                     (e\<lparr>e_ptc := bandwidth / (8 * of_int (e_mean_pktsize e))\<rparr>));
          e = (if e_th_max_pkts e = 0 then e\<lparr>e_th_max_pkts := 3 * e_th_min_pkts e\<rparr> else e)
      in if qib then
           e\<lparr>e_th_min := e_th_min_pkts e * of_int (e_mean_pktsize e),
             e_th_max := e_th_max_pkts e * of_int (e_mean_pktsize e)\<rparr>
         else e\<lparr>e_th_min := e_th_min_pkts e, e_th_max := e_th_max_pkts e\<rparr>)"

definition red_reset_edv :: "edp \<Rightarrow> edv \<Rightarrow> edv" where
  "red_reset_edv e v =
     (let v = v\<lparr>v_ave := 0, v_slope := 0, v_count := 0, v_count_bytes := 0, v_old := 0\<rparr>;
          th_diff = e_th_max e - e_th_min e;
          th_diff = (if th_diff = 0 then 1 else th_diff);
          v = v\<lparr>v_a := 1 / th_diff, v_cur_max_p := 1 / e_max_p_inv e, v_b := - e_th_min e / th_diff,
                v_lastset := 0\<rparr>
      in if e_gentle e then
           v\<lparr>v_c := (1 - v_cur_max_p v) / e_th_max e, v_d := 2 * v_cur_max_p v - 1\<rparr>
         else v)"

definition red_reset :: "real option \<Rightarrow> red \<Rightarrow> red option" where
  "red_reset clk s =
     (let e = red_reset_edp (red_qib s) (red_link s) (red_edp s);
          v = red_reset_edv e (red_edv s);
          s = s\<lparr>red_edp := e, red_edv := v, red_idle := True,
                red_idletime := (case clk of Some now \<Rightarrow> now | None \<Rightarrow> 0)\<rparr>
      in queue_reset (red_deque clk) s)"

subsection \<open>The average queue size\<close>

definition red_updateMaxPFeng :: "real \<Rightarrow> edp \<Rightarrow> edv \<Rightarrow> edv" where
  "red_updateMaxPFeng new_ave e v =
     (let v = (if e_th_min e < new_ave \<and> new_ave < e_th_max e then v\<lparr>v_status := Between\<rparr> else v);
          v = (if new_ave < e_th_min e \<and> v_status v \<noteq> Below then
                 v\<lparr>v_status := Below, v_cur_max_p := v_cur_max_p v / e_alpha e\<rparr> else v)
      in if new_ave > e_th_max e \<and> v_status v \<noteq> Above then
           v\<lparr>v_status := Above, v_cur_max_p := v_cur_max_p v * e_beta e\<rparr>
         else v)"

definition red_updateMaxP :: "real \<Rightarrow> real \<Rightarrow> edp \<Rightarrow> edv \<Rightarrow> edv" where
  "red_updateMaxP new_ave now e v =
     (let part = 2 / 5 * (e_th_max e - e_th_min e) in
      if new_ave < e_th_min e + part \<and> v_cur_max_p v > e_bottom e then
        v\<lparr>v_cur_max_p := v_cur_max_p v * e_beta e, v_lastset := now\<rparr>
      else if new_ave > e_th_max e - part \<and> e_top e > v_cur_max_p v then
        (let alpha = e_alpha e;
             alpha = (if alpha > 1 / 4 * v_cur_max_p v then 1 / 4 * v_cur_max_p v else alpha)
         in v\<lparr>v_cur_max_p := v_cur_max_p v + alpha, v_lastset := now\<rparr>)
      else v)"

text \<open>\<open>while (--m >= 1) new_ave *= 1.0 - q_w;\<close>\<close>

function ewma_idle :: "int \<Rightarrow> real \<Rightarrow> real \<Rightarrow> real" where
  "ewma_idle m q_w new_ave =
     (if m - 1 \<ge> 1 then ewma_idle (m - 1) q_w (new_ave * (1 - q_w)) else new_ave)"
  by pat_completeness auto
termination by (relation "measure (\<lambda>(m, q_w, a). nat m)") auto

declare ewma_idle.simps [simp del]

definition red_ewma :: "edp \<Rightarrow> int \<Rightarrow> int \<Rightarrow> real \<Rightarrow> real \<Rightarrow> real" where
  "red_ewma e nqueued m ave q_w =
     (let new_ave = ave in
      if e_is_modifiedRed e \<noteq> 0 then (1 - q_w) * new_ave + q_w * of_int nqueued
      else (let new_ave = ewma_idle m q_w new_ave;
                new_ave = new_ave * (1 - q_w)
            in new_ave + q_w * of_int nqueued))"

definition red_estimator :: "int \<Rightarrow> int \<Rightarrow> real \<Rightarrow> real \<Rightarrow> real \<Rightarrow> edp \<Rightarrow> edv \<Rightarrow> real \<times> edv" where
  "red_estimator nqueued m ave q_w now e v =
     (let new_ave = red_ewma e nqueued m ave q_w;
          v = (if e_adaptive e = 1 then
                 (if e_feng_adaptive e = 1 then red_updateMaxPFeng new_ave e v
                  else if now > v_lastset v + e_interval e then red_updateMaxP new_ave now e v
                  else v)
               else v)
      in (new_ave, v))"

text \<open>The obsolete \<open>run_estimator\<close>, as compiled (\<open>RED_EWMA\<close> without \<open>RED_HOLT_WINTERS\<close>).\<close>

definition red_run_estimator :: "int \<Rightarrow> int \<Rightarrow> edp \<Rightarrow> edv \<Rightarrow> edv" where
  "red_run_estimator nqueued m e v =
     (let f = v_ave v; f_sl = v_slope v;
          f = ewma_idle m (e_q_w e) f;
          f = f * (1 - e_q_w e);
          f = f + e_q_w e * of_int nqueued
      in v\<lparr>v_ave := f, v_slope := f_sl\<rparr>)"

subsection \<open>The drop probability\<close>

definition red_calculate_p_new ::
  "real \<Rightarrow> real \<Rightarrow> bool \<Rightarrow> real \<Rightarrow> real \<Rightarrow> real \<Rightarrow> real \<Rightarrow> real \<Rightarrow> real" where
  "red_calculate_p_new ave th_max gentle va vb vc vd max_p =
     (let p = (if gentle \<and> ave \<ge> th_max then vc * ave + vd
               else if \<not> gentle \<and> ave \<ge> th_max then 1
               else (let p = va * ave + vb in p * max_p))
      in if p > 1 then 1 else p)"

text \<open>
  NARED also stores the \<open>max_p\<close> it adjusts.  When the last division is by zero the quotient
  of the doubles is infinite, and the cap at the end makes it 1.
\<close>

definition nared_max_p :: "real \<Rightarrow> real \<Rightarrow> real \<Rightarrow> real \<Rightarrow> real" where
  "nared_max_p ave th_min max_p buffer_size =
     (let k1 = th_min + 2 / 5 * (buffer_size - th_min);
          k2 = th_min + 3 / 5 * (buffer_size - th_min);
          b = 9 / 10;
          a = 1 / 100;
          a = (if a > max_p / 4 then max_p / 4 else a)
      in if ave < k1 then max_p * b
         else if ave > k2 then max_p + a
         else max_p)"

definition red_calculate_p_modifiedRed ::
  "real \<Rightarrow> real \<Rightarrow> real \<Rightarrow> real \<Rightarrow> real \<Rightarrow> real \<Rightarrow> edv \<Rightarrow> real \<times> edv" where
  "red_calculate_p_modifiedRed ave th_max th_min cnt max_p buffer_size v =
     (let (p, v) =
        (if ave < th_min then (0, v)
         else if ave \<ge> buffer_size then (1, v)
         else
           (let max_p = nared_max_p ave th_min max_p buffer_size;
                v = v\<lparr>v_cur_max_p := max_p\<rparr>;
                temp_p = (max_p * (ave - th_min) ^ 3) /
                         ((1 - max_p) * (buffer_size - th_min) ^ 3 + max_p * (ave - max_p) ^ 3);
                p = (if cnt * temp_p = 1 then 1 else temp_p / (1 - cnt * temp_p))
            in (p, v)))
      in (if p > 1 then 1 else p, v))"

definition red_calculate_p :: "edp \<Rightarrow> edv \<Rightarrow> real \<times> edv" where
  "red_calculate_p e v =
     (if e_is_modifiedRed e \<noteq> 0 then
        red_calculate_p_modifiedRed (v_ave v) (e_th_max e) (e_th_min e) (of_int (v_count v))
          (v_cur_max_p v) (of_int (e_buffer_size e)) v
      else
        (red_calculate_p_new (v_ave v) (e_th_max e) (e_gentle e) (v_a v) (v_b v) (v_c v) (v_d v)
           (v_cur_max_p v), v))"

definition red_modify_p :: "real \<Rightarrow> int \<Rightarrow> int \<Rightarrow> bool \<Rightarrow> int \<Rightarrow> bool \<Rightarrow> int \<Rightarrow> real option" where
  "red_modify_p p cnt count_bytes bytes mean_pktsize wait sz =
     (if bytes \<and> mean_pktsize = 0 then None
      else
        (let count1 = (if bytes then of_int (cdiv count_bytes mean_pktsize) else of_int cnt);
             p = (if wait then
                    (if count1 * p < 1 then 0
                     else if count1 * p < 2 then p / (2 - count1 * p)
                     else 1)
                  else
                    (if count1 * p < 1 then p / (1 - count1 * p) else 1));
             p = (if bytes \<and> p < 1 then p * of_int sz / of_int mean_pktsize else p)
         in Some (if p > 1 then 1 else p)))"

subsection \<open>Early drops\<close>

text \<open>\<open>pow\<close> of the C library for a base that is not negative.\<close>

definition c_pow :: "real \<Rightarrow> real \<Rightarrow> real" where
  "c_pow x y = (if y = 0 then 1 else x powr y)"

definition red_fraction :: "edp \<Rightarrow> real" where
  "red_fraction e = (let pkts = e_ptc e * (5 / 100) in c_pow (1 - e_q_w e) pkts)"

definition red_pickPacketForECN :: "addr \<Rightarrow> addr" where
  "red_pickPacketForECN pkt = pkt"

definition set_ce :: "addr \<Rightarrow> red \<Rightarrow> red" where
  "set_ce p s = s\<lparr>q_pq := (case q_pq s of (m, q) \<Rightarrow> (m\<lparr>pm_ce := (pm_ce m)(p := True)\<rparr>, q))\<rparr>"

text \<open>The second half of \<open>drop_early\<close>: the draw is compared with the probability.\<close>

definition red_drop_or_mark :: "addr \<Rightarrow> real \<Rightarrow> red \<Rightarrow> bool \<times> red" where
  "red_drop_or_mark pkt u s =
     (if u \<le> v_prob (red_edv s) then
        (let s = s\<lparr>red_edv := (red_edv s)\<lparr>v_count := 0, v_count_bytes := 0\<rparr>\<rparr>;
             hf = red_pickPacketForECN pkt
         in if e_setbit (red_edp s) \<and> pm_ect (fst (q_pq s)) hf \<and>
               (\<not> e_use_mark_p (red_edp s) \<or> v_prob1 (red_edv s) < e_mark_p (red_edp s))
            then (False, set_ce hf s)
            else (True, s))
      else (False, s))"

definition red_drop_early :: "addr \<Rightarrow> red \<Rightarrow> (bool \<times> red) option" where
  "red_drop_early pkt s =
     (let e = red_edp s;
          (p1, v) = red_calculate_p e (red_edv s);
          v = v\<lparr>v_prob1 := p1\<rparr>
      in case red_modify_p p1 (v_count v) (v_count_bytes v) (e_bytes e) (e_mean_pktsize e)
                (e_wait e) (pm_size (fst (q_pq s)) pkt) of
           None \<Rightarrow> None
         | Some p \<Rightarrow>
             (let v = v\<lparr>v_prob := p\<rparr>; s = s\<lparr>red_edv := v\<rparr>; qsize = of_int (red_qsize s) in
              if e_cautious e = 1 \<and> qsize < red_fraction e * v_ave v then Some (False, s)
              else
                (let (u, g) = rand_u01 (red_rng s);
                     s = s\<lparr>red_rng := g\<rparr>;
                     ratio = qsize / (red_fraction e * v_ave v);
                     u = (if e_cautious e = 2 \<and> red_fraction e * v_ave v \<noteq> 0 \<and> ratio < 1 then u * (1 / ratio) else u)
                 in Some (red_drop_or_mark pkt u s))))"

definition red_pickPacketToDrop :: "red \<Rightarrow> (addr option \<times> red) option" where
  "red_pickPacketToDrop s =
     (let len = pq_length (q_pq s) in
      if red_drop_front s then Some (pq_lookup (min 1 (len - 1)) (q_pq s), s)
      else if red_drop_rand s then
        (case uniform_int len (red_rng s) of
           None \<Rightarrow> None
         | Some (victim, g) \<Rightarrow> Some (pq_lookup victim (q_pq s), s\<lparr>red_rng := g\<rparr>))
      else Some (pq_lookup (len - 1) (q_pq s), s))"

subsection \<open>Arrival of a packet\<close>

datatype droptype = DTYPE_NONE | DTYPE_FORCED | DTYPE_UNFORCED

text \<open>The average is brought up to date, the idle period included.\<close>

definition red_average :: "real \<Rightarrow> red \<Rightarrow> red" where
  "red_average now s =
     (let e = red_edp s;
          m = (if red_idle s then
                 (if e_cautious e = 3 then
                    (let ptc = e_ptc e * of_int (e_mean_pktsize e) / of_int (e_idle_pktsize e)
                     in to_int (ptc * (now - red_idletime s)))
                  else to_int (e_ptc e * (now - red_idletime s)))
               else 0);
          s = (if red_idle s then s\<lparr>red_idle := False\<rparr> else s);
          (ave, v) = red_estimator (red_qsize s) (m + 1) (v_ave (red_edv s)) (e_q_w e) now e (red_edv s);
          s = s\<lparr>red_edv := v\<lparr>v_ave := ave\<rparr>\<rparr>
      in if red_summarystats s then queue_updateStats now (red_qsize s) s else s)"

text \<open>The drop logic: \<open>None\<close> is a trap in \<open>drop_early\<close>.\<close>

definition red_droptype :: "addr \<Rightarrow> red \<Rightarrow> (droptype \<times> red) option" where
  "red_droptype pkt s =
     (let e = red_edp s;
          v = red_edv s;
          v = v\<lparr>v_count := v_count v + 1, v_count_bytes := v_count_bytes v + pm_size (fst (q_pq s)) pkt\<rparr>;
          qavg = v_ave v;
          qlen = red_qsize s;
          qlim = (if red_qib s then q_lim s * e_mean_pktsize e else q_lim s);
          s = s\<lparr>red_edv := v, red_curq := qlen\<rparr>;
          r = (if qavg \<ge> e_th_min e \<and> qlen > 1 then
                 (if \<not> e_use_mark_p e \<and>
                     ((\<not> e_gentle e \<and> qavg \<ge> e_th_max e) \<or> (e_gentle e \<and> qavg \<ge> 2 * e_th_max e))
                  then Some (DTYPE_FORCED, s)
                  else if v_old v = 0 then
                    Some (DTYPE_NONE,
                          s\<lparr>red_edv := v\<lparr>v_count := 1, v_count_bytes := pm_size (fst (q_pq s)) pkt,
                                        v_old := 1\<rparr>\<rparr>)
                  else (case red_drop_early pkt s of
                          None \<Rightarrow> None
                        | Some (True, s) \<Rightarrow> Some (DTYPE_UNFORCED, s)
                        | Some (False, s) \<Rightarrow> Some (DTYPE_NONE, s)))
               else Some (DTYPE_NONE, s\<lparr>red_edv := v\<lparr>v_prob := 0, v_old := 0\<rparr>\<rparr>))
      in map_option (\<lambda>(d, s). (if qlen \<ge> qlim then DTYPE_FORCED else d, s)) r)"

text \<open>The early-drop target takes the packet if there is one; \<open>drop\<close> takes it otherwise.\<close>

definition red_edrop :: "addr \<Rightarrow> red \<Rightarrow> red" where
  "red_edrop pkt s =
     (if red_de_drop s then
        (let s = (if red_EDTrace s then emit (Traced pkt) s else s) in emit (EarlyDropped pkt) s)
      else emit (Dropped pkt) s)"

definition red_unforced :: "addr \<Rightarrow> red \<Rightarrow> red option" where
  "red_unforced pkt s =
     (let pkt_to_drop = red_pickPacketForECN pkt in
      if pkt_to_drop \<noteq> pkt then
        (let s = s\<lparr>q_pq := snd (pq_enque pkt (q_pq s))\<rparr> in
         case pq_remove pkt_to_drop (q_pq s) of
           Some (Inr q) \<Rightarrow> Some (red_edrop pkt_to_drop (s\<lparr>q_pq := q\<rparr>))
         | _ \<Rightarrow> None)
      else Some (red_edrop pkt s))"

definition red_forced :: "red \<Rightarrow> red option" where
  "red_forced s =
     (case red_pickPacketToDrop s of
        Some (Some pkt, s) \<Rightarrow>
          (case pq_remove pkt (q_pq s) of
             Some (Inr q) \<Rightarrow>
               (let s = emit (Dropped pkt) (s\<lparr>q_pq := q\<rparr>) in
                Some (if \<not> red_ns1_compat s then
                        s\<lparr>red_edv := (red_edv s)\<lparr>v_count := 0, v_count_bytes := 0\<rparr>\<rparr>
                      else s))
           | _ \<Rightarrow> None)
      | _ \<Rightarrow> None)"

definition red_enque :: "real \<Rightarrow> addr \<Rightarrow> red \<Rightarrow> red option" where
  "red_enque now pkt s =
     (case red_droptype pkt (red_average now s) of
        None \<Rightarrow> None
      | Some (DTYPE_UNFORCED, s) \<Rightarrow> red_unforced pkt s
      | Some (DTYPE_FORCED, s) \<Rightarrow> red_forced (s\<lparr>q_pq := snd (pq_enque pkt (q_pq s))\<rparr>)
      | Some (DTYPE_NONE, s) \<Rightarrow> Some (s\<lparr>q_pq := snd (pq_enque pkt (q_pq s))\<rparr>))"

end
