(* ===== verification/RedLaws.thy ===== *)
theory RedLaws
  imports RedQueue
begin

text \<open>
  RED as a queueing discipline: an arrival loses at most one packet, every packet is accounted
  for, the order of arrival is kept and, when the queue is counted in packets, it never holds
  more than \<open>limit\<close> of them.
\<close>

subsection \<open>What the drop logic leaves alone\<close>

definition red_frame :: "red \<Rightarrow> red \<Rightarrow> bool" where
  "red_frame s t \<longleftrightarrow>
     pq_ok (q_pq t) = pq_ok (q_pq s) \<and> snd (q_pq t) = snd (q_pq s) \<and>
     pm_size (fst (q_pq t)) = pm_size (fst (q_pq s)) \<and>
     q_out t = q_out s \<and> q_blocked t = q_blocked s \<and> q_lim t = q_lim s \<and>
     red_qib t = red_qib s \<and> red_edp t = red_edp s \<and> red_drop_rand t = red_drop_rand s \<and>
     (seed_ok (Cg (red_rng s)) \<longrightarrow> seed_ok (Cg (red_rng t)))"

lemma red_frame_refl [simp]: "red_frame s s"
  by (simp add: red_frame_def)

lemma red_frame_trans: "red_frame s t \<Longrightarrow> red_frame t u \<Longrightarrow> red_frame s u"
  by (auto simp: red_frame_def)

lemma red_frame_sel [simp]:
  "red_frame s (s\<lparr>red_edv := v\<rparr>)" "red_frame s (s\<lparr>red_edv := v, red_curq := n\<rparr>)"
  "red_frame s (s\<lparr>red_idle := b\<rparr>)" "red_frame s (s\<lparr>red_idle := b, red_idletime := x\<rparr>)"
  by (simp_all add: red_frame_def)

lemma red_frame_rng: "seed_ok (Cg (red_rng s)) \<longrightarrow> seed_ok (Cg g) \<Longrightarrow> red_frame s (s\<lparr>red_rng := g\<rparr>)"
  by (simp add: red_frame_def)

lemma red_more_eq:
  "queue.more (s::red) = queue.more t \<Longrightarrow> red_qib s = red_qib t \<and> red_edp s = red_edp t \<and>
   red_drop_rand s = red_drop_rand t \<and> red_rng s = red_rng t"
  by (cases s; cases t) simp

lemma red_frame_updateStats: "red_frame s (queue_updateStats now n s)"
  using red_more_eq [of "queue_updateStats now n s" s] by (simp add: red_frame_def frame_simps)

lemma pq_ok_ce [simp]: "pq_ok (m\<lparr>pm_ce := f\<rparr>, q) = pq_ok (m, q)"
  by (simp add: pq_ok_def)

lemma red_frame_set_ce: "red_frame s (set_ce p s)"
  by (cases "q_pq s") (simp add: red_frame_def set_ce_def)

lemma red_average_frame: "red_frame s (red_average now s)"
proof -
  have "red_frame s (s\<lparr>red_idle := b, red_edv := v\<rparr>)" for b v by (simp add: red_frame_def)
  then show ?thesis
    by (auto simp: red_average_def Let_def case_prod_beta intro: red_frame_trans [OF _ red_frame_updateStats])
qed

lemma red_drop_or_mark_frame: "red_frame s (snd (red_drop_or_mark p u s))"
  by (auto simp: red_drop_or_mark_def Let_def red_pickPacketForECN_def
      intro: red_frame_trans [OF _ red_frame_set_ce])

lemma red_drop_early_frame:
  assumes "red_drop_early p s = Some (b, t)"
  shows "red_frame s t"
proof -
  have rng: "seed_ok (Cg (red_rng x)) \<longrightarrow> seed_ok (Cg (snd (rand_u01 (red_rng x))))" for x
    by (simp add: rand_u01_range)
  have step: "red_frame x (snd (red_drop_or_mark p u (x\<lparr>red_rng := snd (rand_u01 (red_rng x))\<rparr>)))" for u x
    by (rule red_frame_trans [OF red_frame_rng [OF rng] red_drop_or_mark_frame])
  have "red_frame s t" if "red_drop_or_mark p u
      (s\<lparr>red_edv := v, red_rng := snd (rand_u01 (red_rng s))\<rparr>) = (b, t)" for u v
    using red_frame_trans [OF red_frame_sel(1) step [of "s\<lparr>red_edv := v\<rparr>" u]] that by simp
  with assms show ?thesis
    by (auto simp: red_drop_early_def Let_def case_prod_beta split: option.splits if_splits)
qed

lemma red_droptype_frame:
  assumes "red_droptype p s = Some (d, t)"
  shows "red_frame s t"
proof -
  have step: "red_frame s u" if "red_drop_early p (s\<lparr>red_edv := v, red_curq := n\<rparr>) = Some (b, u)" for u v n b
    by (rule red_frame_trans [OF red_frame_sel(2) red_drop_early_frame [OF that]])
  have upd: "red_frame s (s\<lparr>red_curq := n, red_edv := v\<rparr>)" for n v
    by (simp add: red_frame_def)
  from assms show ?thesis
    by (auto simp: red_droptype_def Let_def upd split: if_splits option.splits bool.splits prod.splits dest: step)
qed

text \<open>No trap: with bytes counted, the mean packet size is not zero.\<close>

lemma red_droptype_total:
  assumes "e_bytes (red_edp s) \<longrightarrow> e_mean_pktsize (red_edp s) \<noteq> 0"
  shows "\<exists>d t. red_droptype p s = Some (d, t)"
proof -
  have "red_drop_early p u \<noteq> None" if "red_edp u = red_edp s" for u
    using assms that
    by (auto simp: red_drop_early_def red_modify_p_def Let_def case_prod_beta split: option.splits)
  then have "red_drop_early p (s\<lparr>red_edv := v, red_curq := n\<rparr>) = None \<Longrightarrow> False" for v n by simp
  then show ?thesis
    by (auto simp: red_droptype_def Let_def split: option.splits bool.splits)
qed

text \<open>When the queue is full the drop is forced.\<close>

lemma red_droptype_full:
  assumes "red_droptype p s = Some (d, t)" "\<not> red_qib s" "q_lim s \<le> pq_length (q_pq s)"
  shows "d = DTYPE_FORCED"
  using assms by (auto simp: red_droptype_def Let_def red_qsize_def)

subsection \<open>The three outcomes of an arrival\<close>

definition red_sane :: "red \<Rightarrow> bool" where
  "red_sane s \<longleftrightarrow> (e_bytes (red_edp s) \<longrightarrow> e_mean_pktsize (red_edp s) \<noteq> 0) \<and> seed_ok (Cg (red_rng s)) \<and>
     (red_drop_rand s \<longrightarrow> \<not> red_qib s \<and> q_lim s < 2 ^ 31)"

definition red_room :: "red \<Rightarrow> addr list \<Rightarrow> bool" where
  "red_room s xs \<longleftrightarrow> red_drop_rand s \<longrightarrow> int (length xs) \<le> q_lim s"

definition red_holds :: "red \<Rightarrow> addr list \<Rightarrow> bool" where
  "red_holds s xs \<longleftrightarrow> pq_ok (q_pq s) xs \<and> red_sane s \<and> red_room s xs"

lemma red_sane_frame: "red_frame s t \<Longrightarrow> red_sane s \<Longrightarrow> red_sane t"
  by (auto simp: red_frame_def red_sane_def)

lemma red_pick_ok:
  assumes "pq_ok (q_pq s) xs" "xs \<noteq> []" "seed_ok (Cg (red_rng s))"
    "red_drop_rand s \<longrightarrow> length xs < 2 ^ 32"
  shows "\<exists>p t. red_pickPacketToDrop s = Some (Some p, t) \<and> p \<in> set xs \<and> red_frame s t"
proof -
  have len: "pq_length (q_pq s) = int (length xs)" using assms(1) by (simp add: pq_okD)
  have nth: "\<exists>p. pq_lookup n (q_pq s) = Some p \<and> p \<in> set xs" if "n < int (length xs)" for n
  proof -
    have "nat n < length xs" using that assms(2) by (cases "0 \<le> n") auto
    with pq.lookup_nth [OF assms(1), of n] show ?thesis by auto
  qed
  show ?thesis
  proof (cases "\<not> red_drop_front s \<and> red_drop_rand s")
    case False
    with nth [of "min 1 (int (length xs) - 1)"] nth [of "int (length xs) - 1"] show ?thesis
      by (cases "red_drop_front s") (auto simp: red_pickPacketToDrop_def Let_def len)
  next
    case True
    with uniform_int_range [OF assms(3), of "int (length xs)"] assms(2,4)
    obtain n g where n: "uniform_int (int (length xs)) (red_rng s) = Some (n, g)"
      "n < int (length xs)" "seed_ok (Cg g)" by auto
    from nth [OF n(2)] n True red_frame_rng [of s g] show ?thesis
      by (auto simp: red_pickPacketToDrop_def Let_def len)
  qed
qed

lemma red_edrop_sel [simp]:
  "q_pq (red_edrop p s) = q_pq s" "red_frame (s\<lparr>q_out := q_out (red_edrop p s)\<rparr>) (red_edrop p s)"
  "out_pkts (q_out (red_edrop p s)) = out_pkts (q_out s) @ [p]"
  "sent_pkts (q_out (red_edrop p s)) = sent_pkts (q_out s)"
  by (simp_all add: red_edrop_def Let_def red_frame_def emit_def)

lemma red_forced_ok:
  assumes "pq_ok (q_pq s) xs" "xs \<noteq> []" "red_sane s"
    "red_drop_rand s \<longrightarrow> length xs < 2 ^ 32"
  shows "\<exists>t v. red_forced s = Some t \<and> v \<in> set xs \<and> pq_ok (q_pq t) (remove1 v xs) \<and>
    q_out t = q_out s @ [Dropped v] \<and> q_blocked t = q_blocked s \<and> q_lim t = q_lim s \<and>
    red_qib t = red_qib s \<and> red_drop_rand t = red_drop_rand s \<and> red_sane t"
proof -
  from assms(3) have "seed_ok (Cg (red_rng s))" by (simp add: red_sane_def)
  from red_pick_ok [OF assms(1,2) this assms(4)] obtain v u where
    u: "red_pickPacketToDrop s = Some (Some v, u)" "v \<in> set xs" "red_frame s u" by blast
  then have "pq_ok (q_pq u) xs" using assms(1) by (simp add: red_frame_def)
  from pq.rem_ok [OF this u(2)] obtain q where
    q: "pq_remove v (q_pq u) = Some (Inr q)" "pq_ok q (remove1 v xs)" by blast
  with u assms(3) show ?thesis
    by (simp add: red_forced_def Let_def red_frame_def red_sane_def emit_def)
qed

lemma red_enque_law:
  assumes "red_holds s xs" "p \<notin> set xs"
  shows "\<exists>t ys. red_enque now p s = Some t \<and> red_holds t ys \<and> subseq ys (xs @ [p]) \<and>
    accounted t ys = add_mset p (accounted s xs) \<and>
    sent_pkts (q_out t) = sent_pkts (q_out s) \<and> q_blocked t = q_blocked s \<and>
    q_lim t = q_lim s \<and> red_qib t = red_qib s \<and>
    (\<not> red_qib s \<longrightarrow> length ys \<le> length xs \<or> int (length ys) \<le> q_lim s)"
proof -
  have ok: "pq_ok (q_pq s) xs" and sane: "red_sane s" and room: "red_room s xs"
    using assms(1) by (simp_all add: red_holds_def)
  note fa = red_average_frame [of s now]
  from red_sane_frame [OF fa sane] obtain d u where
    d: "red_droptype p (red_average now s) = Some (d, u)"
    using red_droptype_total unfolding red_sane_def by blast
  have fr: "red_frame s u" by (rule red_frame_trans [OF fa red_droptype_frame [OF d]])
  have full: "d = DTYPE_FORCED" if "\<not> red_qib s" "q_lim s \<le> int (length xs)"
    by (rule red_droptype_full [OF d])
      (use that fa ok in \<open>simp_all add: red_frame_def pq_length_def pq_okD(1) [OF ok, symmetric]\<close>)
  have su: "red_sane u" by (rule red_sane_frame [OF fr sane])
  have u: "pq_ok (q_pq u) xs" "q_out u = q_out s" "q_blocked u = q_blocked s" "q_lim u = q_lim s"
    "red_qib u = red_qib s" "red_drop_rand u = red_drop_rand s"
    using fr ok by (simp_all add: red_frame_def)
  let ?q = "u\<lparr>q_pq := snd (pq_enque p (q_pq u))\<rparr>"
  have enq: "pq_ok (q_pq ?q) (xs @ [p])" using u(1) assms(2) by (simp add: pq.enq_ok)
  have rand: "red_drop_rand s \<Longrightarrow> \<not> red_qib s \<and> int (length xs) \<le> q_lim s \<and> q_lim s < 2 ^ 31"
    using sane room by (auto simp: red_sane_def red_room_def)
  show ?thesis
  proof (cases d)
    case DTYPE_NONE
    with full rand have "red_room ?q (xs @ [p])"
      by (force simp: red_room_def u not_le)
    moreover have "red_sane ?q" using su by (simp add: red_sane_def)
    moreover have "red_enque now p s = Some ?q" by (simp add: red_enque_def d DTYPE_NONE)
    moreover have "\<not> red_qib s \<longrightarrow> int (length (xs @ [p])) \<le> q_lim s"
      using full DTYPE_NONE by force
    ultimately show ?thesis
      using enq u by (intro exI [of _ ?q] exI [of _ "xs @ [p]"]) (simp add: red_holds_def accounted_def)
  next
    case DTYPE_UNFORCED
    let ?t = "red_edrop p u"
    have t: "red_enque now p s = Some ?t"
      by (simp add: red_enque_def d DTYPE_UNFORCED red_unforced_def red_pickPacketForECN_def)
    have "red_frame (u\<lparr>q_out := q_out ?t\<rparr>) ?t" by simp
    then have "red_sane ?t" "red_room ?t xs" "q_blocked ?t = q_blocked s" "q_lim ?t = q_lim s"
      "red_qib ?t = red_qib s"
      using su room u by (auto simp: red_frame_def red_sane_def red_room_def)
    moreover have "subseq xs (xs @ [p])" by (rule subseq_snoc)
    ultimately show ?thesis
      using t u by (intro exI [of _ ?t] exI [of _ xs]) (simp add: red_holds_def accounted_def)
  next
    case DTYPE_FORCED
    have "red_sane ?q" using su by (simp add: red_sane_def)
    moreover have "red_drop_rand ?q \<longrightarrow> length (xs @ [p]) < 2 ^ 32" using rand u by auto
    ultimately obtain t v where t: "red_forced ?q = Some t" "v \<in> set (xs @ [p])"
      "pq_ok (q_pq t) (remove1 v (xs @ [p]))" "q_out t = q_out ?q @ [Dropped v]"
      "q_blocked t = q_blocked ?q" "q_lim t = q_lim ?q" "red_qib t = red_qib ?q"
      "red_drop_rand t = red_drop_rand ?q" "red_sane t"
      using red_forced_ok [OF enq] by blast
    have len: "length (remove1 v (xs @ [p])) = length xs" using t(2) by (simp add: length_remove1)
    have "red_room t (remove1 v (xs @ [p]))" using rand t u len by (simp add: red_room_def)
    moreover have "accounted t (remove1 v (xs @ [p])) = add_mset p (accounted s xs)"
    proof -
      have m: "add_mset v (mset (remove1 v (xs @ [p]))) = add_mset p (mset xs)"
        using t(2) insert_DiffM [of v "mset (xs @ [p])"] by simp
      have "accounted t (remove1 v (xs @ [p])) =
          add_mset v (mset (remove1 v (xs @ [p]))) + mset (out_pkts (q_out s))"
        using t(4) u(2) by (simp add: accounted_def del: mset_remove1)
      then show ?thesis unfolding m by (simp add: accounted_def)
    qed
    moreover have "red_enque now p s = Some t" by (simp add: red_enque_def d DTYPE_FORCED t(1))
    moreover have "subseq (remove1 v (xs @ [p])) (xs @ [p])"
      by (rule subseq_remove1)
    ultimately show ?thesis
      using t u len by (intro exI [of _ t] exI [of _ "remove1 v (xs @ [p])"]) (simp add: red_holds_def)
  qed
qed

lemma red_deque_law:
  assumes "red_holds s xs"
  shows "\<exists>t. red_deque clk s = (case xs of [] \<Rightarrow> None | x # _ \<Rightarrow> Some x, t) \<and> red_holds t (tl xs) \<and>
    q_out t = q_out s \<and> q_blocked t = q_blocked s \<and> q_lim t = q_lim s \<and> red_qib t = red_qib s"
proof -
  define u where "u = (case clk of
      Some now \<Rightarrow> if red_summarystats s then queue_updateStats now (red_qsize s) s else s | None \<Rightarrow> s)"
  have fr: "red_frame s u"
    by (simp add: u_def red_frame_updateStats split: option.splits)
  have qp: "q_pq u = q_pq s" by (simp add: u_def frame_simps split: option.splits)
  have ok: "pq_ok (q_pq s) xs" and sane: "red_sane u" and room: "red_room s xs"
    using assms red_sane_frame [OF fr] by (simp_all add: red_holds_def)
  let ?w = "u\<lparr>q_pq := snd (pq_deque (q_pq s))\<rparr>"
  let ?t = "case fst (pq_deque (q_pq s)) of Some _ \<Rightarrow> ?w\<lparr>red_idle := False\<rparr>
    | None \<Rightarrow> ?w\<lparr>red_idle := True, red_idletime := (case clk of Some now \<Rightarrow> now | None \<Rightarrow> 0)\<rparr>"
  have "red_deque clk s = (fst (pq_deque (q_pq s)), ?t)"
    by (simp add: red_deque_def u_def [symmetric] qp case_prod_beta Let_def split: option.split)
  moreover have "fst (pq_deque (q_pq s)) = (case xs of [] \<Rightarrow> None | x # _ \<Rightarrow> Some x)"
    by (rule pq.deq_hd [OF ok])
  moreover have "red_holds ?t (tl xs)" "q_out ?t = q_out s" "q_blocked ?t = q_blocked s"
    "q_lim ?t = q_lim s" "red_qib ?t = red_qib s"
    using fr sane room pq.deq_tl [OF ok]
    by (auto simp: red_holds_def red_sane_def red_room_def red_frame_def split: option.splits)
  ultimately show ?thesis by simp
qed

lemma red_frame_account: "red_frame s (queue_account now s)"
  using red_more_eq [of "queue_account now s" s] by (simp add: red_frame_def frame_simps)

lemma red_holds_frame: "red_frame s t \<Longrightarrow> red_holds s xs \<Longrightarrow> red_holds t xs"
  using red_sane_frame by (auto simp: red_holds_def red_frame_def red_room_def)

lemma red_holds_frames:
  "red_holds s xs \<Longrightarrow> red_holds (emit e s) xs"
  "red_holds s xs \<Longrightarrow> red_holds (s\<lparr>q_blocked := b\<rparr>) xs"
  "red_holds s xs \<Longrightarrow> red_holds (s\<lparr>q_total_time := 0, q_true_ave := 0\<rparr>) xs"
  by (simp_all add: red_holds_def red_sane_def red_room_def emit_def)

lemmas red_holds_account = red_holds_frame [OF red_frame_account]

lemma red_holds_distinct: "red_holds s xs \<Longrightarrow> distinct xs"
  by (auto simp: red_holds_def intro: pq_okD(3))

interpretation red: discipline red_enque "\<lambda>now. red_deque (Some now)" red_holds
proof (unfold_locales, goal_cases)
  case (1 s xs p now)
  from red_enque_law [OF this] show ?case by blast
next
  case (2 s xs now)
  from red_deque_law [OF this] show ?case by blast
qed (simp_all add: red_holds_frames red_holds_account red_holds_distinct)

definition red_counts :: "red \<Rightarrow> addr list \<Rightarrow> bool" where
  "red_counts s xs \<longleftrightarrow> red_holds s xs \<and> \<not> red_qib s \<and> 0 \<le> q_lim s"

lemma red_qib_frames [simp]: "red_qib (emit e (s::red)) = red_qib s" "red_qib (queue_account now s) = red_qib s"
  using red_frame_account [of s now] by (simp_all add: emit_def red_frame_def)

interpretation redc: bounded_discipline red_enque "\<lambda>now. red_deque (Some now)" red_counts q_lim
proof (unfold_locales, goal_cases)
  case (1 s xs p now)
  then have "red_holds s xs" by (simp add: red_counts_def)
  from red_enque_law [OF this 1(2), of now] 1(1) show ?case unfolding red_counts_def by metis
next
  case (2 s xs now)
  then have "red_holds s xs" by (simp add: red_counts_def)
  from red_deque_law [OF this, of "Some now"] 2 show ?case unfolding red_counts_def by metis
next
  case (9 s xs p now s' ys)
  then have xs: "red_holds s xs" and ys: "red_holds s' ys" and qib: "\<not> red_qib s"
    by (simp_all add: red_counts_def)
  from red_enque_law [OF xs 9(2), of now] 9(4) qib obtain zs where zs: "red_holds s' zs"
    "q_lim s' = q_lim s" "length zs \<le> length xs \<or> int (length zs) \<le> q_lim s" by auto
  moreover from zs(1) ys have "ys = zs" by (metis red_holds_def pq_ok_elems)
  ultimately show ?case using 9(3) by auto
next
  case (10 s xs now)
  then have "red_holds s xs" by (simp add: red_counts_def)
  from red_deque_law [OF this, of "Some now"] show ?case by auto
next
  case (14 s xs ys)
  then show ?case by (metis red_counts_def red_holds_def pq_ok_elems)
qed (auto simp: red_counts_def red_holds_frames red_holds_account frame_simps red_holds_distinct)

text \<open>Parameters and an empty queue for the witnesses.\<close>

definition edp_example :: "int \<Rightarrow> edp" where
  "edp_example nared = \<lparr>e_mean_pktsize = 1000, e_idle_pktsize = 100, e_bytes = False, e_wait = False,
     e_setbit = False, e_gentle = True, e_th_min = 5, e_th_min_pkts = 5, e_th_max = 15,
     e_th_max_pkts = 15, e_max_p_inv = 10, e_mark_p = 1 / 10, e_use_mark_p = True, e_q_w = 1 / 500,
     e_adaptive = 0, e_cautious = 0, e_alpha = 1 / 100, e_beta = 9 / 10, e_interval = 1 / 2,
     e_targetdelay = 1 / 200, e_top = 1 / 2, e_bottom = 1 / 100, e_feng_adaptive = 0,
     e_is_modifiedRed = nared, e_buffer_size = 50, e_ptc = 100, e_delay = 0\<rparr>"

definition edv_example :: "real \<Rightarrow> int \<Rightarrow> edv" where
  "edv_example ave cnt = \<lparr>v_ave = ave, v_prob1 = 0, v_slope = 0, v_prob = 0, v_a = 0, v_b = 0, v_c = 0,
     v_d = 0, v_count = cnt, v_count_bytes = 0, v_old = 1, v_cur_max_p = 1 / 10, v_lastset = 0,
     v_status = Between\<rparr>"

definition red_example :: "int \<Rightarrow> real \<Rightarrow> int \<Rightarrow> red" where
  "red_example nared ave cnt = queue.extend (queue_example 50)
     (red.fields False None False False False 0 False False False (edp_example nared)
        (red_reset_edv (edp_example nared) (edv_example ave cnt)\<lparr>v_ave := ave, v_count := cnt\<rparr>)
        True 0 rng_example)"

lemma red_example_sel:
  "q_pq (red_example n a c) = (pmem_example, pq_init)" "q_lim (red_example n a c) = 50"
  "\<not> q_blocked (red_example n a c)" "q_out (red_example n a c) = []"
  "\<not> red_qib (red_example n a c)" "red_edp (red_example n a c) = edp_example n"
  "red_edv (red_example n a c) = red_reset_edv (edp_example n) (edv_example a c)\<lparr>v_ave := a, v_count := c\<rparr>"
  "red_rng (red_example n a c) = rng_example" "\<not> red_drop_rand (red_example n a c)"
  "red_idle (red_example n a c)" "red_idletime (red_example n a c) = 0"
  by (simp_all add: red_example_def queue_example_def queue.defs red.defs)

lemma red_example_holds: "red_holds (red_example n a c) []"
  by (simp add: red_holds_def red_example_sel pq_ok_init red_sane_def red_room_def example_ok edp_example_def)

end
