(* ===== verification/RedProb.thy ===== *)
theory RedProb
  imports RedQueue
begin

text \<open>
  The numbers of RED: the averaged queue size, the adaptation of \<open>max_p\<close> and the drop
  probability, for the default code and for NARED.
\<close>

subsection \<open>The average\<close>

lemma ewma_idle_eq: "ewma_idle m w a = a * (1 - w) ^ nat (m - 1)"
proof (induction m w a rule: ewma_idle.induct)
  case (1 m w a)
  show ?case
  proof (cases "m - 1 \<ge> 1")
    case True
    then have "nat (m - 1) = Suc (nat (m - 1 - 1))" by simp
    with 1 True show ?thesis by (subst ewma_idle.simps) simp
  next
    case False
    then show ?thesis by (subst ewma_idle.simps) simp
  qed
qed

lemma red_ewma_closed:
  assumes "e_is_modifiedRed e = 0" "1 \<le> m"
  shows "red_ewma e n m ave w = ave * (1 - w) ^ nat m + w * of_int n"
proof -
  from assms(2) have "nat m = Suc (nat (m - 1))" by simp
  with assms(1) show ?thesis by (simp add: red_ewma_def Let_def ewma_idle_eq)
qed

lemma ewma_between:
  fixes a w x B :: real
  assumes "0 \<le> w" "w \<le> 1" "0 \<le> a" "a \<le> B" "0 \<le> x" "x \<le> B"
  shows "0 \<le> a * (1 - w) ^ Suc k + w * x" "a * (1 - w) ^ Suc k + w * x \<le> B"
proof -
  have p: "0 \<le> (1 - w) ^ k" "(1 - w) ^ k \<le> 1" using assms by (simp_all add: power_le_one)
  show "0 \<le> a * (1 - w) ^ Suc k + w * x" using assms p by simp
  have "a * (1 - w) ^ Suc k = (a * (1 - w)) * (1 - w) ^ k" by simp
  also have "\<dots> \<le> a * (1 - w)" using assms p by (simp add: mult_left_le)
  also have "\<dots> \<le> B * (1 - w)" using assms by (intro mult_right_mono) auto
  finally have "a * (1 - w) ^ Suc k + w * x \<le> B * (1 - w) + w * B"
    using assms by (intro add_mono mult_left_mono) auto
  then show "a * (1 - w) ^ Suc k + w * x \<le> B" by (simp add: algebra_simps)
qed

lemma red_ewma_between:
  assumes "0 \<le> w" "w \<le> 1" "0 \<le> ave" "ave \<le> B" "0 \<le> n" "of_int n \<le> B"
  shows "0 \<le> red_ewma e n m ave w \<and> red_ewma e n m ave w \<le> B"
proof (cases "e_is_modifiedRed e = 0")
  case True
  then show ?thesis
    using ewma_between [OF assms(1-4), of "of_int n" "nat (m - 1)"] assms(5,6)
    by (simp add: red_ewma_def Let_def ewma_idle_eq mult.commute mult.left_commute)
next
  case False
  then show ?thesis
    using ewma_between [OF assms(1-4), of "of_int n" 0] assms(5,6)
    by (simp add: red_ewma_def mult.commute)
qed

lemma red_estimator_fst: "fst (red_estimator n m ave w now e v) = red_ewma e n m ave w"
  by (simp add: red_estimator_def Let_def)

subsection \<open>Adapting \<open>max_p\<close>\<close>

lemma updateMaxP_range:
  assumes "0 \<le> e_beta e" "e_beta e \<le> 1" "0 \<le> e_alpha e" "5 / 4 * e_top e \<le> B"
    "0 \<le> v_cur_max_p v" "v_cur_max_p v \<le> B"
  shows "0 \<le> v_cur_max_p (red_updateMaxP ave now e v)"
    "v_cur_max_p (red_updateMaxP ave now e v) \<le> B"
proof -
  have "v_cur_max_p v * e_beta e \<le> v_cur_max_p v" using assms by (simp add: mult_left_le)
  then show "0 \<le> v_cur_max_p (red_updateMaxP ave now e v)"
    "v_cur_max_p (red_updateMaxP ave now e v) \<le> B"
    using assms by (auto simp: red_updateMaxP_def Let_def)
qed

lemma updateMaxP_direction:
  assumes "0 \<le> e_beta e" "e_beta e \<le> 1" "0 \<le> e_alpha e" "0 \<le> v_cur_max_p v"
    "e_th_min e \<le> e_th_max e"
  shows "ave < e_th_min e + 2 / 5 * (e_th_max e - e_th_min e) \<Longrightarrow>
      v_cur_max_p (red_updateMaxP ave now e v) \<le> v_cur_max_p v"
    "e_th_min e + 2 / 5 * (e_th_max e - e_th_min e) \<le> ave \<Longrightarrow>
      v_cur_max_p v \<le> v_cur_max_p (red_updateMaxP ave now e v)"
proof -
  have b: "v_cur_max_p v * e_beta e \<le> v_cur_max_p v" using assms by (simp add: mult_left_le)
  have sep: "e_th_min e + 2 / 5 * (e_th_max e - e_th_min e) \<le> e_th_max e - 2 / 5 * (e_th_max e - e_th_min e)"
    using assms(5) by (simp add: field_simps)
  {
    assume lt: "ave < e_th_min e + 2 / 5 * (e_th_max e - e_th_min e)"
    with sep have "\<not> ave > e_th_max e - 2 / 5 * (e_th_max e - e_th_min e)" by linarith
    with b lt show "v_cur_max_p (red_updateMaxP ave now e v) \<le> v_cur_max_p v"
      unfolding red_updateMaxP_def Let_def by simp
  next
    assume ge: "e_th_min e + 2 / 5 * (e_th_max e - e_th_min e) \<le> ave"
    then have "\<not> ave < e_th_min e + 2 / 5 * (e_th_max e - e_th_min e)" by linarith
    with assms show "v_cur_max_p v \<le> v_cur_max_p (red_updateMaxP ave now e v)"
      unfolding red_updateMaxP_def Let_def by simp
  }
qed

subsection \<open>The drop probability of the default code\<close>

text \<open>The coefficients that \<open>reset\<close> stores, read as a function of the average.\<close>

definition red_line :: "edp \<Rightarrow> edv \<Rightarrow> real \<Rightarrow> real" where
  "red_line e v ave = red_calculate_p_new ave (e_th_max e) (e_gentle e) (v_a v) (v_b v) (v_c v) (v_d v) (v_cur_max_p v)"

lemma calculate_p_new_min:
  "red_calculate_p_new ave th_max gentle va vb vc vd max_p =
     (if ave < th_max then min 1 ((va * ave + vb) * max_p)
      else if gentle then min 1 (vc * ave + vd) else 1)"
  by (auto simp: red_calculate_p_new_def Let_def min_def not_less)

lemma red_line_eq:
  assumes "v = red_reset_edv e v0" "e_th_min e < e_th_max e" "0 < e_th_max e"
  defines "q \<equiv> 1 / e_max_p_inv e"
  shows "red_line e v ave =
    (if ave < e_th_max e then min 1 (q * (ave - e_th_min e) / (e_th_max e - e_th_min e))
     else if e_gentle e then min 1 (q + (1 - q) * (ave - e_th_max e) / e_th_max e)
     else 1)"
proof -
  have d: "e_th_max e - e_th_min e \<noteq> 0" using assms(2) by simp
  have lin': "(1 / d * x + - m / d) * q = q * (x - m) / d" if "d \<noteq> 0" for d m x :: real
    using that by (simp add: field_simps)
  note lin = lin' [OF d, of ave "e_th_min e"]
  have gen': "(1 - q) / t * x + (2 * q - 1) = q + (1 - q) * (x - t) / t" if "0 < t" for t x :: real
    using that by (simp add: field_simps)
  note gen = gen' [OF assms(3), of ave]
  have v: "v_cur_max_p v = q" "v_a v = 1 / (e_th_max e - e_th_min e)"
    "v_b v = - e_th_min e / (e_th_max e - e_th_min e)"
    "e_gentle e \<Longrightarrow> v_c v = (1 - q) / e_th_max e" "e_gentle e \<Longrightarrow> v_d v = 2 * q - 1"
    using d by (auto simp: assms(1) red_reset_edv_def Let_def q_def)
  show ?thesis
  proof (cases "ave < e_th_max e")
    case True
    then have "red_line e v ave = min 1 ((1 / (e_th_max e - e_th_min e) * ave +
        - e_th_min e / (e_th_max e - e_th_min e)) * q)"
      by (simp add: red_line_def calculate_p_new_min v(1-3))
    with True show ?thesis unfolding lin by (simp only: if_True)
  next
    case False
    then have "red_line e v ave = (if e_gentle e then min 1 ((1 - q) / e_th_max e * ave + (2 * q - 1)) else 1)"
      using v(4,5) by (simp add: red_line_def calculate_p_new_min)
    with False show ?thesis unfolding gen by (simp only: if_False)
  qed
qed

lemma red_line_range:
  assumes "v = red_reset_edv e v0" "e_th_min e < e_th_max e" "0 < e_th_max e" "1 \<le> e_max_p_inv e"
    "e_th_min e \<le> ave"
  shows "0 \<le> red_line e v ave" "red_line e v ave \<le> 1"
proof -
  have q: "0 \<le> 1 / e_max_p_inv e" "1 / e_max_p_inv e \<le> 1" using assms(4) by simp_all
  have "0 \<le> (1 / e_max_p_inv e) * (ave - e_th_min e) / (e_th_max e - e_th_min e)"
    using q assms by (intro divide_nonneg_pos mult_nonneg_nonneg) auto
  moreover have "0 \<le> 1 / e_max_p_inv e + (1 - 1 / e_max_p_inv e) * (ave - e_th_max e) / e_th_max e"
    if "e_th_max e \<le> ave"
    using q assms that by (intro add_nonneg_nonneg divide_nonneg_pos mult_nonneg_nonneg) auto
  ultimately show "0 \<le> red_line e v ave" "red_line e v ave \<le> 1"
    unfolding red_line_eq [OF assms(1-3)] by auto
qed

lemma red_line_mono:
  assumes "v = red_reset_edv e v0" "e_th_min e < e_th_max e" "0 < e_th_max e" "1 \<le> e_max_p_inv e"
    "e_th_min e \<le> x" "x \<le> y"
  shows "red_line e v x \<le> red_line e v y"
proof -
  define q where "q = 1 / e_max_p_inv e"
  have q: "0 \<le> q" "q \<le> 1" using assms(4) by (simp_all add: q_def)
  define d where "d = e_th_max e - e_th_min e"
  have d: "0 < d" using assms(2) by (simp add: d_def)
  let ?f = "\<lambda>z. q * (z - e_th_min e) / d" and ?g = "\<lambda>z. q + (1 - q) * (z - e_th_max e) / e_th_max e"
  have f: "?f x \<le> ?f y" using q d assms(6) by (intro divide_right_mono mult_left_mono) auto
  have g: "?g x \<le> ?g y"
    using q assms(3,6) by (intro add_left_mono divide_right_mono mult_left_mono) auto
  have fq: "?f x \<le> q" if "x < e_th_max e"
  proof -
    have "?f x \<le> q * d / d" using that q d by (intro divide_right_mono mult_left_mono) (auto simp: d_def)
    then show ?thesis using d by simp
  qed
  have qg: "q \<le> ?g y" if "e_th_max e \<le> y" using that q assms(3) by simp
  have cross: "min 1 (?f x) \<le> min 1 (?g y)" if "x < e_th_max e" "e_th_max e \<le> y"
    using fq [OF that(1)] qg [OF that(2)] by linarith
  show ?thesis
    using f g cross assms(6)
    unfolding red_line_eq [OF assms(1-3)] q_def [symmetric] d_def [symmetric]
    by (simp add: min_le_iff_disj min.coboundedI1 min.mono)
qed

subsection \<open>Uniform spacing of the drops\<close>

lemma modify_p_some:
  "bytes \<longrightarrow> mps \<noteq> 0 \<Longrightarrow> \<exists>r. red_modify_p p c cb bytes mps wait sz = Some r"
  by (auto simp: red_modify_p_def Let_def)

lemma modify_p_range:
  assumes "red_modify_p p c cb bytes mps wait sz = Some r" "0 \<le> p" "p \<le> 1" "0 \<le> mps" "0 \<le> sz"
  shows "0 \<le> r" "r \<le> 1"
  using assms by (auto simp: red_modify_p_def Let_def split: if_splits)

text \<open>
  \<open>modify_p\<close> with \<open>i\<close> packets, or \<open>i\<close> mean packet sizes, counted since the last drop.  \<open>span b\<close> is
  the mass it spreads the drops over: 1, or 2 with \<open>wait\<close>, where the first half holds none.
\<close>

definition counts :: "int \<Rightarrow> nat \<Rightarrow> int \<Rightarrow> bool" where
  "counts mps i c \<longleftrightarrow> int i * mps \<le> c \<and> c < (int i + 1) * mps"

lemma counts_cdiv:
  assumes "0 < mps" "counts mps i c"
  shows "cdiv c mps = int i"
proof -
  have "0 \<le> c" using assms by (simp add: counts_def) (meson mult_nonneg_nonneg of_nat_0_le_iff order_less_imp_le order_trans)
  moreover have "c div mps = int i"
    by (rule int_div_pos_eq [of c mps "int i" "c - int i * mps"]) (use assms in \<open>simp_all add: counts_def algebra_simps\<close>)
  ultimately show ?thesis using assms(1) by (simp add: cdiv_nonneg)
qed

lemma modify_p_waits:
  assumes "0 < mps" "counts mps i c" "real i * p < 1"
  shows "red_modify_p p (int i) c bytes mps True sz = Some 0"
  using assms by (simp add: red_modify_p_def counts_cdiv Let_def)

lemma modify_p_eq:
  fixes b r :: real
  assumes "0 < mps" "counts mps i c" "b = (if wait then 2 else 1)" "wait \<longrightarrow> 1 \<le> real i * p" "real i * p < b"
    "r = (if bytes then of_int sz / of_int mps else 1)" "bytes \<longrightarrow> real (i + 1) * p < b" "r * p \<le> b - real i * p"
  shows "red_modify_p p (int i) c bytes mps wait sz = Some (r * p / (b - real i * p))"
proof -
  define x where "x = real i * p"
  have q: "r * p / (b - x) \<le> 1" "bytes \<longrightarrow> p / (b - x) < 1"
    using assms(5,7,8) by (auto simp: x_def algebra_simps)
  have "red_modify_p p (int i) c bytes mps wait sz =
      (let p = p / (b - x); p = (if bytes \<and> p < 1 then p * of_int sz / of_int mps else p) in Some (if p > 1 then 1 else p))"
    using assms(1,3-5) counts_cdiv [OF assms(1,2)]
    unfolding red_modify_p_def Let_def x_def by (cases wait) (simp_all del: divide_less_eq_1 divide_less_eq)
  also have "\<dots> = Some (r * p / (b - x))"
  proof (cases bytes)
    case True
    then have "p / (b - x) * of_int sz / of_int mps = r * p / (b - x)" using assms(6) by (simp add: mult.commute)
    with True q show ?thesis by (simp add: Let_def)
  next
    case False
    with q assms(6) show ?thesis by (simp add: Let_def)
  qed
  finally show ?thesis by (simp add: x_def)
qed

text \<open>The chance to survive \<open>n\<close> packets telescopes.\<close>

lemma survive_eq:
  fixes b p :: real
  assumes "0 < p" "real (m + n) * p < b"
  shows "(\<Prod>i\<in>{m..<m + n}. 1 - p / (b - real i * p)) = (b - real (m + n) * p) / (b - real m * p)"
  using assms(2)
proof (induction n)
  case 0
  then show ?case by simp
next
  case (Suc n)
  then have lt: "real (m + n) * p < b" "b - real m * p \<noteq> 0"
    using assms(1) by (auto simp: algebra_simps) (smt (verit) mult_nonneg_nonneg of_nat_0_le_iff)
  then have "1 - p / (b - real (m + n) * p) = (b - real (m + Suc n) * p) / (b - real (m + n) * p)"
    by (simp add: field_simps)
  with Suc.IH [OF lt(1)] lt show ?case by simp
qed

text \<open>
  The comment of \<open>modify_p\<close> promises uniform instead of geometric gaps: the chance that the
  next drop is the packet after \<open>k\<close> more is the same for every \<open>k\<close>.
\<close>

lemma modify_p_uniform:
  fixes b r :: real
  assumes "0 < p" "0 < mps" "\<And>i. counts mps i (cb i)" "b = (if wait then 2 else 1)"
    "if wait then 0 < m \<and> (real m - 1) * p < 1 \<and> 1 \<le> real m * p else m = 1"
    "r = (if bytes then of_int sz / of_int mps else 1)" "bytes \<longrightarrow> real (m + k + 1) * p < b" "r * p \<le> b - real (m + k) * p"
  shows "(\<Prod>i\<in>{1..<m + k}. 1 - the (red_modify_p p (int i) (cb i) bytes mps wait mps)) *
    the (red_modify_p p (int (m + k)) (cb (m + k)) bytes mps wait sz) = r * p / (b - real m * p)"
proof -
  let ?P = "\<lambda>i. the (red_modify_p p (int i) (cb i) bytes mps wait mps)"
  have m: "1 \<le> m" using assms(5) by (auto split: if_splits)
  have lt: "real (m + k) * p < b"
    using assms(1,6-8) by (cases bytes) (auto simp: algebra_simps)
  have before: "(\<Prod>i\<in>{1..<m}. 1 - ?P i) = 1"
  proof (rule prod.neutral, rule ballI)
    fix i assume i: "i \<in> {1..<m}"
    then have w: "wait" using assms(5) by (auto split: if_splits)
    have "real i * p \<le> (real m - 1) * p" using i assms(1) by (intro mult_right_mono) auto
    then have "real i * p < 1" using assms(5) w by simp
    with modify_p_waits [OF assms(2,3)] w show "1 - ?P i = 1" by simp
  qed
  have after: "?P i = p / (b - real i * p)" if i: "i \<in> {m..<m + k}" for i
  proof -
    have le: "real (i + 1) * p \<le> real (m + k) * p" "real m * p \<le> real i * p"
      using i assms(1) by (auto intro!: mult_right_mono)
    have "red_modify_p p (int i) (cb i) bytes mps wait mps = Some (1 * p / (b - real i * p))"
    proof (rule modify_p_eq [OF assms(2,3,4)])
      show "wait \<longrightarrow> 1 \<le> real i * p" using assms(5) le(2) by auto
    qed (use assms(1,2) le(1) lt in \<open>auto simp: algebra_simps\<close>)
    then show ?thesis by simp
  qed
  have "real m * p \<le> real (m + k) * p" using assms(1) by (intro mult_right_mono) auto
  then have "wait \<longrightarrow> 1 \<le> real (m + k) * p" using assms(5) by auto
  from modify_p_eq [OF assms(2,3,4) this lt assms(6-8)]
  have final: "the (red_modify_p p (int (m + k)) (cb (m + k)) bytes mps wait sz) = r * p / (b - real (m + k) * p)" by simp
  have "(\<Prod>i\<in>{1..<m + k}. 1 - ?P i) = (\<Prod>i\<in>{1..<m}. 1 - ?P i) * (\<Prod>i\<in>{m..<m + k}. 1 - ?P i)"
    using m by (intro prod.atLeastLessThan_concat [symmetric]) auto
  also have "\<dots> = (b - real (m + k) * p) / (b - real m * p)"
    using before after survive_eq [OF assms(1) lt] by simp
  finally show ?thesis using lt unfolding final by simp
qed

subsection \<open>The average at an arrival\<close>

lemma red_average_ave:
  "v_ave (red_edv (red_average now s)) =
     red_ewma (red_edp s) (red_qsize s)
       ((if red_idle s then to_int ((if e_cautious (red_edp s) = 3
            then e_ptc (red_edp s) * of_int (e_mean_pktsize (red_edp s)) / of_int (e_idle_pktsize (red_edp s))
            else e_ptc (red_edp s)) * (now - red_idletime s)) else 0) + 1)
       (v_ave (red_edv s)) (e_q_w (red_edp s))"
  by (auto simp: red_average_def Let_def queue_updateStats_def red_qsize_def red_estimator_def
      split: prod.split)

text \<open>The default estimator lets the average decay over an idle period.\<close>

lemma red_average_idle:
  assumes "e_is_modifiedRed (red_edp s) = 0" "e_cautious (red_edp s) \<noteq> 3" "red_idle s"
    "0 \<le> e_ptc (red_edp s)" "red_idletime s \<le> now"
  shows "v_ave (red_edv (red_average now s)) =
    v_ave (red_edv s) * (1 - e_q_w (red_edp s)) ^ nat (\<lfloor>e_ptc (red_edp s) * (now - red_idletime s)\<rfloor> + 1)
    + e_q_w (red_edp s) * of_int (red_qsize s)"
proof -
  have nn: "0 \<le> e_ptc (red_edp s) * (now - red_idletime s)" using assms(4,5) by simp
  then have "1 \<le> to_int (e_ptc (red_edp s) * (now - red_idletime s)) + 1"
    by (simp add: to_int_def)
  from red_ewma_closed [OF assms(1) this] show ?thesis
    using assms(2,3) nn by (simp add: red_average_ave to_int_def)
qed

text \<open>NARED's does not: the clock and the idle period have no influence.\<close>

lemma nared_average:
  assumes "e_is_modifiedRed (red_edp s) \<noteq> 0"
  shows "v_ave (red_edv (red_average now s)) =
    (1 - e_q_w (red_edp s)) * v_ave (red_edv s) + e_q_w (red_edp s) * of_int (red_qsize s)"
  using assms by (simp add: red_average_ave red_ewma_def)

subsection \<open>The probability of NARED\<close>

definition nared_temp :: "real \<Rightarrow> real \<Rightarrow> real \<Rightarrow> real \<Rightarrow> real" where
  "nared_temp ave th_min mp buffer_size =
     mp * (ave - th_min) ^ 3 / ((1 - mp) * (buffer_size - th_min) ^ 3 + mp * (ave - mp) ^ 3)"

lemma nared_between:
  fixes max_p :: real
  assumes "th_min \<le> ave" "ave < B"
  defines "t \<equiv> nared_temp ave th_min (nared_max_p ave th_min max_p B) B"
  shows "fst (red_calculate_p_modifiedRed ave th_max th_min cnt max_p B v) =
    (if cnt * t = 1 then 1 else min 1 (t / (1 - cnt * t)))"
  using assms(1,2)
  unfolding red_calculate_p_modifiedRed_def Let_def nared_temp_def [symmetric] t_def [symmetric]
  by (simp add: min_def not_less)

lemma nared_negative:
  assumes "th_min \<le> ave" "ave < B" "0 < cnt"
    "1 < cnt * nared_temp ave th_min (nared_max_p ave th_min max_p B) B"
  shows "fst (red_calculate_p_modifiedRed ave th_max th_min cnt max_p B v) < 0"
proof -
  let ?t = "nared_temp ave th_min (nared_max_p ave th_min max_p B) B"
  from assms(3,4) have "0 < ?t" by (meson less_trans zero_less_mult_pos zero_less_one)
  with assms(4) have "?t / (1 - cnt * ?t) < 0" by (intro divide_pos_neg) auto
  with assms(4) show ?thesis unfolding nared_between [OF assms(1,2)] by simp
qed

lemma modify_p_negative:
  assumes "p < 0" "0 \<le> c"
  shows "\<exists>r<0. red_modify_p p c cb False mps False sz = Some r"
proof -
  have "of_int c * p \<le> 0" using assms by (simp add: mult_nonneg_nonpos)
  then show ?thesis using assms
    by (auto simp: red_modify_p_def Let_def divide_neg_pos)
qed

text \<open>A probability below zero never drops and never marks: only the counters are reset by a drop.\<close>

lemma nared_never_drops:
  fixes s :: red
  defines "e \<equiv> red_edp s" and "v \<equiv> red_edv s"
  assumes sel: "e_is_modifiedRed e \<noteq> 0" "\<not> e_bytes e" "\<not> e_wait e" "e_cautious e = 0"
    and ave: "e_th_min e \<le> v_ave v" "v_ave v < of_int (e_buffer_size e)"
    and cnt: "0 < v_count v"
      "1 < of_int (v_count v) * nared_temp (v_ave v) (e_th_min e)
         (nared_max_p (v_ave v) (e_th_min e) (v_cur_max_p v) (of_int (e_buffer_size e))) (of_int (e_buffer_size e))"
    and rng: "seed_ok (Cg (red_rng s))"
  shows "\<exists>t. red_drop_early pkt s = Some (False, t) \<and> v_count (red_edv t) = v_count v"
proof -
  obtain p1 w where p: "red_calculate_p e v = (p1, w)" by fastforce
  have c: "v_count w = v_count v" and neg: "p1 < 0"
    using p sel(1) nared_negative [OF ave _ cnt(2), of "e_th_max e" v] cnt(1) ave
    by (auto simp: red_calculate_p_def red_calculate_p_modifiedRed_def Let_def)
  obtain r where r: "r < 0"
      "red_modify_p p1 (v_count w) (v_count_bytes w) False (e_mean_pktsize e) False
         (pm_size (fst (q_pq s)) pkt) = Some r"
    using modify_p_negative [OF neg, of "v_count w"] cnt(1) c by fastforce
  have u: "\<not> fst (rand_u01 (red_rng s)) \<le> r" using rand_u01_range(1) [OF rng] r(1) by simp
  show ?thesis
    using sel p r(2) u c unfolding e_def v_def
    by (simp add: red_drop_early_def Let_def red_drop_or_mark_def red_qsize_def case_prod_beta)
qed

subsection \<open>Gentle RED after an adaptation\<close>

text \<open>\<open>updateMaxP\<close> changes \<open>cur_max_p\<close> but not the coefficients of the gentle part.\<close>

lemma red_line_gentle_stale:
  assumes "v = red_reset_edv e v0" "e_gentle e" "0 < e_th_max e" "e_th_max e \<le> ave"
  shows "red_line e (red_updateMaxP a now e v) ave = red_line e v ave"
  using assms by (auto simp: red_line_def calculate_p_new_min red_updateMaxP_def Let_def)

end
