(* ===== verification/Scheduler.thy ===== *)
theory Scheduler
  imports Prelude
begin

text \<open>
  The event scheduler of common/scheduler.h and common/scheduler.cc: class Scheduler, which
  every simulation runs on, and ListScheduler, its simplest queue.  The queue is a parameter
  of the operations of the base class, as its methods are virtual there.  An event is the
  object the queues hold; the field \<open>uid_\<close> of an event object outside the queue is in
  \<open>sc_mem\<close>, by address.  A handler is code of another class: it sees the event and the clock
  and answers with the calls it makes to the scheduler.
\<close>

record event =
  ev_addr :: nat
  ev_time :: real
  ev_uid :: int
  ev_handler :: nat

datatype sched_error = NullHandler | UidNotValid | UidExhausted | TimeBackwards | NotInQueue

record 'q sched =
  sc_clock :: real
  sc_halted :: bool
  sc_uid :: int
  sc_mem :: "nat \<Rightarrow> event"
  sc_q :: 'q
  sc_log :: "event list"

subsection \<open>Class Scheduler\<close>

text \<open>\<open>uid_\<close> is a 64-bit integer.\<close>

definition uid_succ :: "int \<Rightarrow> int" where
  "uid_succ u = (if u = 2 ^ 63 - 1 then - (2 ^ 63) else u + 1)"

definition negate_uid :: "nat \<Rightarrow> (nat \<Rightarrow> event) \<Rightarrow> nat \<Rightarrow> event" where
  "negate_uid a mem = mem(a := (mem a)\<lparr>ev_uid := - ev_uid (mem a)\<rparr>)"

definition sched_schedule ::
  "(event \<Rightarrow> 'q \<Rightarrow> 'q) \<Rightarrow> nat option \<Rightarrow> nat \<Rightarrow> real \<Rightarrow> 'q sched \<Rightarrow> sched_error + 'q sched" where
  "sched_schedule ins h a delay s =
     (case h of
        None \<Rightarrow> Inl NullHandler
      | Some h \<Rightarrow>
          if ev_uid (sc_mem s a) > 0 then Inl UidNotValid
          else if sc_uid s < 0 then Inl UidExhausted
          else
            (let u = sc_uid s;
                 t = sc_clock s + delay;
                 e = \<lparr>ev_addr = a, ev_time = t, ev_uid = u, ev_handler = h\<rparr>
             in Inr (s\<lparr>sc_mem := (sc_mem s)(a := e), sc_uid := uid_succ u, sc_q := ins e (sc_q s)\<rparr>)))"

text \<open>
  \<open>cancel\<close> of the subclasses: an event that is not waiting is left alone, and \<open>None\<close> of the
  queue is its \<open>abort()\<close>.
\<close>

definition sched_cancel ::
  "(event \<Rightarrow> 'q \<Rightarrow> 'q option) \<Rightarrow> nat \<Rightarrow> 'q sched \<Rightarrow> sched_error + 'q sched" where
  "sched_cancel del a s =
     (if ev_uid (sc_mem s a) \<le> 0 then Inr s
      else case del (sc_mem s a) (sc_q s) of
             None \<Rightarrow> Inl NotInQueue
           | Some q \<Rightarrow> Inr (s\<lparr>sc_mem := negate_uid a (sc_mem s), sc_q := q\<rparr>))"

definition sched_reset :: "'q sched \<Rightarrow> 'q sched" where
  "sched_reset s = s\<lparr>sc_clock := 0\<rparr>"

text \<open>The calls a handler makes, and what they do.\<close>

datatype sched_call = Schedule "nat option" nat real | Cancel nat | Halt | ResumeSched

fun sched_calls ::
  "(event \<Rightarrow> 'q \<Rightarrow> 'q) \<Rightarrow> (event \<Rightarrow> 'q \<Rightarrow> 'q option) \<Rightarrow> sched_call list \<Rightarrow> 'q sched \<Rightarrow>
   sched_error + 'q sched" where
  "sched_calls ins del [] s = Inr s"
| "sched_calls ins del (Schedule h a d # cs) s =
     (case sched_schedule ins h a d s of Inl e \<Rightarrow> Inl e | Inr s \<Rightarrow> sched_calls ins del cs s)"
| "sched_calls ins del (Cancel a # cs) s =
     (case sched_cancel del a s of Inl e \<Rightarrow> Inl e | Inr s \<Rightarrow> sched_calls ins del cs s)"
| "sched_calls ins del (Halt # cs) s = sched_calls ins del cs (s\<lparr>sc_halted := True\<rparr>)"
| "sched_calls ins del (ResumeSched # cs) s = sched_calls ins del cs (s\<lparr>sc_halted := False\<rparr>)"

type_synonym 'w handlers = "'w \<Rightarrow> event \<Rightarrow> real \<Rightarrow> sched_call list \<times> 'w"

definition sched_dispatch ::
  "(event \<Rightarrow> 'q \<Rightarrow> 'q) \<Rightarrow> (event \<Rightarrow> 'q \<Rightarrow> 'q option) \<Rightarrow> 'w handlers \<Rightarrow> event \<Rightarrow> real \<Rightarrow>
   'w \<times> 'q sched \<Rightarrow> sched_error + 'w \<times> 'q sched" where
  "sched_dispatch ins del handle p t = (\<lambda>(w, s).
     if t < sc_clock s then Inl TimeBackwards
     else
       (let s = s\<lparr>sc_clock := t\<rparr>;
            s = s\<lparr>sc_mem := negate_uid (ev_addr p) (sc_mem s), sc_log := sc_log s @ [p]\<rparr>;
            (cs, w) = handle w p t
        in case sched_calls ins del cs s of Inl e \<Rightarrow> Inl e | Inr s \<Rightarrow> Inr (w, s)))"

text \<open>
  \<open>run\<close> need not end: the first argument bounds the number of events it dispatches here, and
  every run of the code that has dispatched \<open>n\<close> events is a run of the model with bound \<open>n\<close>.
\<close>

fun sched_run ::
  "(event \<Rightarrow> 'q \<Rightarrow> 'q) \<Rightarrow> (event \<Rightarrow> 'q \<Rightarrow> 'q option) \<Rightarrow> ('q \<Rightarrow> event option \<times> 'q) \<Rightarrow>
   'w handlers \<Rightarrow> nat \<Rightarrow> 'w \<times> 'q sched \<Rightarrow> sched_error + 'w \<times> 'q sched" where
  "sched_run ins del deq handle 0 (w, s) = Inr (w, s)"
| "sched_run ins del deq handle (Suc n) (w, s) =
     (if sc_halted s then Inr (w, s)
      else case deq (sc_q s) of
             (None, q) \<Rightarrow> Inr (w, s\<lparr>sc_q := q\<rparr>)
           | (Some p, q) \<Rightarrow>
               (case sched_dispatch ins del handle p (ev_time p) (w, s\<lparr>sc_q := q\<rparr>) of
                  Inl e \<Rightarrow> Inl e
                | Inr r \<Rightarrow> sched_run ins del deq handle n r))"

subsection \<open>ListScheduler\<close>

fun ls_insert :: "event \<Rightarrow> event list \<Rightarrow> event list" where
  "ls_insert e [] = [e]"
| "ls_insert e (p # ps) = (if ev_time e < ev_time p then e # p # ps else p # ls_insert e ps)"

text \<open>The list is searched for the object, that is, for its address.\<close>

fun ls_cancel :: "event \<Rightarrow> event list \<Rightarrow> event list option" where
  "ls_cancel e [] = None"
| "ls_cancel e (p # ps) =
     (if ev_addr p = ev_addr e then Some ps else map_option ((#) p) (ls_cancel e ps))"

fun ls_lookup :: "int \<Rightarrow> event list \<Rightarrow> event option" where
  "ls_lookup u [] = None"
| "ls_lookup u (p # ps) = (if ev_uid p = u then Some p else ls_lookup u ps)"

definition ls_deque :: "event list \<Rightarrow> event option \<times> event list" where
  "ls_deque q = (case q of [] \<Rightarrow> (None, []) | e # es \<Rightarrow> (Some e, es))"

lemma ls_deque_simps [simp]: "ls_deque [] = (None, [])" "ls_deque (e # es) = (Some e, es)"
  by (simp_all add: ls_deque_def)

definition ls_head :: "event list \<Rightarrow> event option" where
  "ls_head q = (case q of [] \<Rightarrow> None | e # es \<Rightarrow> Some e)"

subsection \<open>Order of the events\<close>

definition ev_before :: "event \<Rightarrow> event \<Rightarrow> bool" where
  "ev_before x y \<longleftrightarrow> ev_time x < ev_time y \<or> ev_time x = ev_time y \<and> ev_uid x < ev_uid y"

definition ls_ok :: "event list \<Rightarrow> bool" where
  "ls_ok xs \<longleftrightarrow> sorted_wrt ev_before xs \<and> distinct (map ev_addr xs) \<and> distinct (map ev_uid xs) \<and>
     (\<forall>x\<in>set xs. 0 \<le> ev_time x)"

definition newest :: "event \<Rightarrow> event list \<Rightarrow> bool" where
  "newest e xs \<longleftrightarrow> 0 \<le> ev_time e \<and> (\<forall>x\<in>set xs. ev_uid x < ev_uid e \<and> ev_addr x \<noteq> ev_addr e)"

lemma ls_insert_mset [simp]: "mset (ls_insert e xs) = add_mset e (mset xs)"
  by (induction xs) auto

lemma ls_insert_set [simp]: "set (ls_insert e xs) = insert e (set xs)"
  by (induction xs) auto

lemma ls_insert_distinct:
  assumes "f e \<notin> f ` set xs"
  shows "distinct (map f (ls_insert e xs)) = distinct (map f xs)"
  using assms by (induction xs) auto

lemma ls_insert_ok:
  assumes "ls_ok xs" "newest e xs"
  shows "ls_ok (ls_insert e xs)"
proof -
  have "sorted_wrt ev_before (ls_insert e xs)"
    using assms unfolding ls_ok_def newest_def
  proof (induction xs)
    case (Cons x xs)
    then show ?case by (auto simp: ev_before_def not_less order_le_less)
  qed simp
  moreover have "ev_addr e \<notin> ev_addr ` set xs" "ev_uid e \<notin> ev_uid ` set xs"
    using assms(2) by (auto simp: newest_def)
  ultimately show ?thesis
    using assms by (simp add: ls_ok_def ls_insert_distinct newest_def)
qed

lemma ls_ok_tl: "ls_ok xs \<Longrightarrow> ls_ok (tl xs)"
  by (cases xs) (auto simp: ls_ok_def)

lemma sorted_wrt_remove1: "sorted_wrt P xs \<Longrightarrow> sorted_wrt P (remove1 e xs)"
  by (induction xs) (auto dest: notin_set_remove1)

lemma distinct_map_remove1: "distinct (map f xs) \<Longrightarrow> distinct (map f (remove1 e xs))"
  by (induction xs) (auto dest: set_remove1_subset [THEN subsetD])

lemma ls_ok_remove1: "ls_ok xs \<Longrightarrow> ls_ok (remove1 e xs)"
  using set_remove1_subset [of e xs]
  by (auto simp: ls_ok_def distinct_map_remove1 sorted_wrt_remove1)

lemma ls_cancel_ok:
  assumes "distinct (map ev_addr xs)" "e \<in> set xs"
  shows "ls_cancel e xs = Some (remove1 e xs)"
  using assms by (induction xs) (auto simp: image_iff)

subsection \<open>The contract of an event queue\<close>

text \<open>
  Every scheduler queue behaves like the sorted list.  The number in \<open>inv n q\<close> bounds the
  insertions that may still follow: the heap breaks ties with a 32-bit counter.
\<close>

locale event_queue =
  fixes inv :: "nat \<Rightarrow> 'q \<Rightarrow> bool"
    and abs :: "'q \<Rightarrow> event list"
    and ins :: "event \<Rightarrow> 'q \<Rightarrow> 'q"
    and del :: "event \<Rightarrow> 'q \<Rightarrow> 'q option"
    and deq :: "'q \<Rightarrow> event option \<times> 'q"
    and find :: "int \<Rightarrow> 'q \<Rightarrow> event option"
  assumes abs_ok: "inv n q \<Longrightarrow> ls_ok (abs q)"
    and inv_weaken: "inv (Suc n) q \<Longrightarrow> inv n q"
    and ins_ok: "inv (Suc n) q \<Longrightarrow> newest e (abs q) \<Longrightarrow>
      inv n (ins e q) \<and> abs (ins e q) = ls_insert e (abs q)"
    and del_ok: "inv n q \<Longrightarrow> e \<in> set (abs q) \<Longrightarrow>
      \<exists>q'. del e q = Some q' \<and> inv n q' \<and> abs q' = remove1 e (abs q)"
    and deq_ok: "inv n q \<Longrightarrow>
      \<exists>q'. deq q = (case abs q of [] \<Rightarrow> None | e # _ \<Rightarrow> Some e, q') \<and> inv n q' \<and> abs q' = tl (abs q)"
    and find_ok: "inv n q \<Longrightarrow> find u q = ls_lookup u (abs q)"

text \<open>A call is proper if it does not ask for the past or for a null handler.\<close>

fun proper_call :: "sched_call \<Rightarrow> bool" where
  "proper_call (Schedule h a d) \<longleftrightarrow> h \<noteq> None \<and> 0 \<le> d"
| "proper_call c \<longleftrightarrow> True"

definition inserts :: "sched_call list \<Rightarrow> nat" where
  "inserts cs = length (filter (\<lambda>c. case c of Schedule h a d \<Rightarrow> True | _ \<Rightarrow> False) cs)"

text \<open>
  The invariant of the simulator, on the reference queue: what was dispatched and what
  waits is in order of time, then of scheduling; the clock is between them; exactly the
  events that wait have a positive uid.
\<close>

definition sim_ok :: "event list sched \<Rightarrow> bool" where
  "sim_ok s \<longleftrightarrow> ls_ok (sc_q s) \<and> sorted_wrt ev_before (sc_log s @ sc_q s) \<and>
     0 \<le> sc_clock s \<and> (\<forall>x\<in>set (sc_log s). ev_time x \<le> sc_clock s) \<and>
     (\<forall>x\<in>set (sc_q s). sc_clock s \<le> ev_time x \<and> sc_mem s (ev_addr x) = x \<and> 0 < ev_uid x) \<and>
     (\<forall>x\<in>set (sc_log s @ sc_q s). sc_uid s < 0 \<or> ev_uid x < sc_uid s) \<and> sc_uid s \<noteq> 0 \<and>
     (\<forall>a. 0 < ev_uid (sc_mem s a) \<longrightarrow> sc_mem s a \<in> set (sc_q s) \<and> ev_addr (sc_mem s a) = a)"

definition sched_abs :: "('q \<Rightarrow> event list) \<Rightarrow> 'q sched \<Rightarrow> event list sched" where
  "sched_abs f s = \<lparr>sc_clock = sc_clock s, sc_halted = sc_halted s, sc_uid = sc_uid s,
     sc_mem = sc_mem s, sc_q = f (sc_q s), sc_log = sc_log s\<rparr>"

lemma sched_abs_sel [simp]:
  "sc_clock (sched_abs f s) = sc_clock s" "sc_halted (sched_abs f s) = sc_halted s"
  "sc_uid (sched_abs f s) = sc_uid s" "sc_mem (sched_abs f s) = sc_mem s"
  "sc_q (sched_abs f s) = f (sc_q s)" "sc_log (sched_abs f s) = sc_log s"
  by (simp_all add: sched_abs_def)

lemma sched_abs_id [simp]: "sched_abs (\<lambda>q. q) s = s"
  by (simp add: sched_abs_def)

lemma sim_ok_schedule:
  assumes "sim_ok s" "0 \<le> d" "sched_schedule ls_insert h a d s = Inr t"
  shows "sim_ok t \<and> sc_clock t = sc_clock s \<and> newest (sc_mem t a) (sc_q s) \<and> sc_log t = sc_log s"
proof -
  from assms(3) obtain hd where h: "h = Some hd" and a: "\<not> 0 < ev_uid (sc_mem s a)" and u: "0 < sc_uid s"
    using assms(1) by (auto simp: sched_schedule_def sim_ok_def split: option.splits if_splits)
  define e where "e = \<lparr>ev_addr = a, ev_time = sc_clock s + d, ev_uid = sc_uid s, ev_handler = hd\<rparr>"
  have t: "t = s\<lparr>sc_mem := (sc_mem s)(a := e), sc_uid := uid_succ (sc_uid s), sc_q := ls_insert e (sc_q s)\<rparr>"
    using assms(3) h a u by (simp add: sched_schedule_def Let_def e_def)
  have new: "newest e (sc_q s)"
    using assms(1,2) a u by (auto simp: newest_def e_def sim_ok_def)
  have "\<forall>x\<in>set (sc_log s). ev_before x e"
    using assms(1,2) u by (auto simp: sim_ok_def e_def ev_before_def)
  then have "sorted_wrt ev_before (sc_log s @ ls_insert e (sc_q s))"
    using assms(1) ls_insert_ok [OF _ new] by (auto simp: sim_ok_def sorted_wrt_append ls_ok_def)
  moreover have "ls_ok (ls_insert e (sc_q s))"
    using assms(1) ls_insert_ok [OF _ new] by (simp add: sim_ok_def)
  moreover have succ: "uid_succ (sc_uid s) < 0 \<or> sc_uid s < uid_succ (sc_uid s)" "uid_succ (sc_uid s) \<noteq> 0"
    using u by (auto simp: uid_succ_def)
  moreover have "\<forall>x\<in>set (sc_log s @ sc_q s). ev_uid x < sc_uid s"
    using assms(1) u unfolding sim_ok_def by (meson not_less_iff_gr_or_eq)
  with succ(1) have "uid_succ (sc_uid s) < 0 \<or> (\<forall>x\<in>set (sc_log s @ sc_q s). ev_uid x < uid_succ (sc_uid s))"
    by (meson less_trans)
  ultimately have "sim_ok t"
    using assms(1,2) a u t by (auto simp: sim_ok_def e_def)
  with t new show ?thesis by simp
qed

lemma sim_ok_cancel:
  assumes "sim_ok s"
  shows "\<exists>t. sched_cancel ls_cancel a s = Inr t \<and> sim_ok t \<and> sc_clock t = sc_clock s \<and> sc_log t = sc_log s"
proof (cases "0 < ev_uid (sc_mem s a)")
  case True
  let ?e = "sc_mem s a"
  let ?t = "s\<lparr>sc_mem := negate_uid a (sc_mem s), sc_q := remove1 ?e (sc_q s)\<rparr>"
  have e: "?e \<in> set (sc_q s)" "ev_addr ?e = a" "distinct (map ev_addr (sc_q s))" "ls_ok (sc_q s)"
    using assms True by (auto simp: sim_ok_def ls_ok_def)
  have sub: "set (remove1 ?e (sc_q s)) \<subseteq> set (sc_q s)" by (rule set_remove1_subset)
  have d: "distinct (sc_q s)" using e(3) by (simp add: distinct_map)
  then have other: "ev_addr x \<noteq> a" if "x \<in> set (remove1 ?e (sc_q s))" for x
    using that e by (auto simp: set_remove1_eq dest: inj_onD [OF distinct_map [THEN iffD1, THEN conjunct2, OF e(3)]])
  have same: "b = a" if "sc_mem s b = ?e" for b
    using assms True that unfolding sim_ok_def by metis
  have "sorted_wrt ev_before (sc_log s @ remove1 ?e (sc_q s))"
    using assms sub by (auto simp: sim_ok_def sorted_wrt_append sorted_wrt_remove1)
  then have "sim_ok ?t"
    using assms sub other d True ls_ok_remove1 [OF e(4)]
    by (auto simp: sim_ok_def negate_uid_def set_remove1_eq dest: same)
  moreover have "sched_cancel ls_cancel a s = Inr ?t"
    using True ls_cancel_ok [OF e(3,1)] by (simp add: sched_cancel_def)
  ultimately show ?thesis by simp
next
  case False
  with assms show ?thesis by (simp add: sched_cancel_def)
qed

lemma sim_ok_calls:
  assumes "sim_ok s" "list_all proper_call cs" "sched_calls ls_insert ls_cancel cs s = Inr t"
  shows "sim_ok t \<and> sc_clock t = sc_clock s \<and> sc_log t = sc_log s"
  using assms
proof (induction cs arbitrary: s)
  case (Cons c cs)
  show ?case
  proof (cases c)
    case (Schedule h a d)
    then obtain u where u: "sched_schedule ls_insert h a d s = Inr u"
      "sched_calls ls_insert ls_cancel cs u = Inr t" "0 \<le> d"
      using Cons.prems by (auto split: sum.splits)
    from sim_ok_schedule [OF Cons.prems(1) u(3,1)] Cons.IH [OF _ _ u(2)] Cons.prems(2) show ?thesis by auto
  next
    case (Cancel a)
    with sim_ok_cancel [OF Cons.prems(1), of a] Cons.IH Cons.prems show ?thesis by auto
  next
    case Halt
    have "sim_ok (s\<lparr>sc_halted := True\<rparr>)" using Cons.prems(1) by (simp add: sim_ok_def)
    from Cons.IH [OF this] Cons.prems Halt show ?thesis by simp
  next
    case ResumeSched
    have "sim_ok (s\<lparr>sc_halted := False\<rparr>)" using Cons.prems(1) by (simp add: sim_ok_def)
    from Cons.IH [OF this] Cons.prems ResumeSched show ?thesis by simp
  qed
qed simp

text \<open>With proper calls only, nothing is dispatched in the past and no cancellation fails.\<close>

definition caller_error :: "sched_error \<Rightarrow> bool" where
  "caller_error e \<longleftrightarrow> e = UidNotValid \<or> e = UidExhausted"

lemma calls_error:
  assumes "sim_ok s" "list_all proper_call cs" "sched_calls ls_insert ls_cancel cs s = Inl e"
  shows "caller_error e"
  using assms
proof (induction cs arbitrary: s)
  case (Cons c cs)
  show ?case
  proof (cases c)
    case (Schedule h a d)
    with Cons.prems(2) obtain hd where h: "h = Some hd" "0 \<le> d" by auto
    show ?thesis
    proof (cases "sched_schedule ls_insert h a d s")
      case (Inl e')
      with Cons.prems(3) Schedule h show ?thesis
        by (auto simp: sched_schedule_def caller_error_def Let_def split: if_splits)
    next
      case (Inr u)
      with sim_ok_schedule [OF Cons.prems(1) h(2) Inr] Cons.IH [of u] Cons.prems Schedule show ?thesis by simp
    qed
  next
    case (Cancel a)
    with sim_ok_cancel [OF Cons.prems(1), of a] Cons.IH Cons.prems show ?thesis by auto
  next
    case Halt
    have "sim_ok (s\<lparr>sc_halted := True\<rparr>)" using Cons.prems(1) by (simp add: sim_ok_def)
    from Cons.IH [OF this] Cons.prems Halt show ?thesis by simp
  next
    case ResumeSched
    have "sim_ok (s\<lparr>sc_halted := False\<rparr>)" using Cons.prems(1) by (simp add: sim_ok_def)
    from Cons.IH [OF this] Cons.prems ResumeSched show ?thesis by simp
  qed
qed simp

subsection \<open>Runs of the reference scheduler\<close>

definition proper :: "'w handlers \<Rightarrow> bool" where
  "proper handle \<longleftrightarrow> (\<forall>w e t. list_all proper_call (fst (handle w e t)))"

definition dispatched :: "event \<Rightarrow> 'q \<Rightarrow> 'q sched \<Rightarrow> 'q sched" where
  "dispatched p q s = s\<lparr>sc_clock := ev_time p, sc_q := q, sc_mem := negate_uid (ev_addr p) (sc_mem s),
     sc_log := sc_log s @ [p]\<rparr>"

lemma sim_ok_dispatched:
  assumes "sim_ok s" "sc_q s = p # q"
  shows "sim_ok (dispatched p q s)" "sc_clock s \<le> ev_time p"
proof -
  have q: "sorted_wrt ev_before ((sc_log s @ [p]) @ q)" "ls_ok (p # q)"
    using assms by (simp_all add: sim_ok_def)
  have times: "\<forall>x\<in>set q. ev_time p \<le> ev_time x"
    using q(2) by (auto simp: ls_ok_def ev_before_def)
  have "ev_addr p \<notin> ev_addr ` set q" using q(2) by (simp add: ls_ok_def)
  then have other: "\<forall>x\<in>set q. ev_addr x \<noteq> ev_addr p" by (metis imageI)
  have p: "sc_clock s \<le> ev_time p" "sc_mem s (ev_addr p) = p" "0 < ev_uid p" "0 \<le> ev_time p"
    using assms by (auto simp: sim_ok_def ls_ok_def)
  then show "sc_clock s \<le> ev_time p" by simp
  have logs: "\<forall>x\<in>set (sc_log s). ev_time x \<le> ev_time p"
    using assms p by (auto simp: sim_ok_def intro: order_trans)
  have mem: "\<forall>a. 0 < ev_uid (negate_uid (ev_addr p) (sc_mem s) a) \<longrightarrow>
      negate_uid (ev_addr p) (sc_mem s) a \<in> set q \<and> ev_addr (negate_uid (ev_addr p) (sc_mem s) a) = a"
  proof (intro allI impI)
    fix a assume a: "0 < ev_uid (negate_uid (ev_addr p) (sc_mem s) a)"
    then have ne: "a \<noteq> ev_addr p" using p by (auto simp: negate_uid_def)
    with a have "sc_mem s a \<in> set (sc_q s)" "ev_addr (sc_mem s a) = a"
      using assms(1) by (auto simp: sim_ok_def negate_uid_def)
    with ne assms(2) show "negate_uid (ev_addr p) (sc_mem s) a \<in> set q \<and>
        ev_addr (negate_uid (ev_addr p) (sc_mem s) a) = a"
      by (auto simp: negate_uid_def)
  qed
  have ok: "ls_ok q" using q(2) ls_ok_tl by fastforce
  have waits: "\<forall>x\<in>set q. ev_time p \<le> ev_time x \<and> negate_uid (ev_addr p) (sc_mem s) (ev_addr x) = x \<and> 0 < ev_uid x"
    using assms times other by (auto simp: sim_ok_def negate_uid_def)
  have uids: "\<forall>x\<in>set ((sc_log s @ [p]) @ q). sc_uid s < 0 \<or> ev_uid x < sc_uid s" "sc_uid s \<noteq> 0"
    using assms by (auto simp: sim_ok_def)
  show "sim_ok (dispatched p q s)"
    unfolding sim_ok_def dispatched_def using ok q(1) p(4) logs waits uids mem by simp
qed

lemma dispatch_eq:
  "sc_clock s \<le> ev_time p \<Longrightarrow> sched_dispatch ins del handle p (ev_time p) (w, s\<lparr>sc_q := q\<rparr>) =
     (case sched_calls ins del (fst (handle w p (ev_time p))) (dispatched p q s) of
        Inl e \<Rightarrow> Inl e | Inr s \<Rightarrow> Inr (snd (handle w p (ev_time p)), s))"
  by (cases s) (simp add: sched_dispatch_def dispatched_def Let_def case_prod_beta not_less negate_uid_def)

lemma sim_ok_run:
  assumes "proper handle" "sim_ok s" "sched_run ls_insert ls_cancel ls_deque handle n (w, s) = Inr (w', t)"
  shows "sim_ok t \<and> prefix (sc_log s) (sc_log t)"
  using assms(2,3)
proof (induction n arbitrary: w s)
  case (Suc n)
  show ?case
  proof (cases "sc_halted s \<or> sc_q s = []")
    case True
    then show ?thesis
    proof
      assume e: "sc_q s = []"
      with Suc.prems(1) have "sim_ok (s\<lparr>sc_q := []\<rparr>)" by (simp add: sim_ok_def)
      with Suc.prems e show ?thesis by (auto simp: split: if_splits)
    qed (use Suc.prems in simp)
  next
    case False
    then obtain p q where q: "sc_q s = p # q" by (cases "sc_q s") auto
    note d = sim_ok_dispatched [OF Suc.prems(1) q]
    from Suc.prems(2) False q obtain u where
      u: "sched_calls ls_insert ls_cancel (fst (handle w p (ev_time p))) (dispatched p q s) = Inr u"
      and r: "sched_run ls_insert ls_cancel ls_deque handle n (snd (handle w p (ev_time p)), u) = Inr (w', t)"
      by (auto simp: dispatch_eq [OF d(2)] split: sum.splits)
    from assms(1) have "list_all proper_call (fst (handle w p (ev_time p)))" by (simp add: proper_def)
    from sim_ok_calls [OF d(1) this u] Suc.IH [OF _ r] show ?thesis
      by (auto simp: dispatched_def dest: append_prefixD)
  qed
qed auto

lemma run_error:
  assumes "proper handle" "sim_ok s" "sched_run ls_insert ls_cancel ls_deque handle n (w, s) = Inl e"
  shows "caller_error e"
  using assms(2,3)
proof (induction n arbitrary: w s)
  case (Suc n)
  then obtain p q where q: "sc_q s = p # q" and halt: "\<not> sc_halted s"
    by (cases "sc_q s") (auto simp: split: if_splits)
  note d = sim_ok_dispatched [OF Suc.prems(1) q]
  from assms(1) have pr: "list_all proper_call (fst (handle w p (ev_time p)))" by (simp add: proper_def)
  show ?case
  proof (cases "sched_calls ls_insert ls_cancel (fst (handle w p (ev_time p))) (dispatched p q s)")
    case (Inl e')
    with Suc.prems(2) halt q have "e' = e" by (simp add: dispatch_eq [OF d(2)])
    with calls_error [OF d(1) pr Inl] show ?thesis by simp
  next
    case (Inr u)
    with Suc.prems(2) halt q sim_ok_calls [OF d(1) pr Inr] show ?thesis
      by (intro Suc.IH [of u]) (auto simp: dispatch_eq [OF d(2)])
  qed
qed simp

end
