(* ===== verification/SchedRefine.thy ===== *)
theory SchedRefine
  imports Scheduler
begin

text \<open>
  A scheduler on any queue that meets the contract runs like ListScheduler: the same calls
  succeed, the same events are dispatched in the same order.  ListScheduler itself is the
  first queue that meets it.
\<close>

definition only_inserts :: "nat \<Rightarrow> 'w handlers \<Rightarrow> bool" where
  "only_inserts k handle \<longleftrightarrow> (\<forall>w e t. inserts (fst (handle w e t)) \<le> k)"

lemma inserts_simps [simp]:
  "inserts [] = 0" "inserts (Schedule h a d # cs) = Suc (inserts cs)" "inserts (Cancel a # cs) = inserts cs"
  "inserts (Halt # cs) = inserts cs" "inserts (ResumeSched # cs) = inserts cs"
  by (simp_all add: inserts_def)

text \<open>Two outcomes agree when the reference run mirrors the other one.\<close>

definition mirrors :: "('q \<Rightarrow> event list) \<Rightarrow> sched_error + 'q sched \<Rightarrow> sched_error + event list sched \<Rightarrow> bool" where
  "mirrors f r r' \<longleftrightarrow> r' = map_sum (\<lambda>e. e) (sched_abs f) r"

lemma mirrors_simps [simp]:
  "mirrors f (Inl e) r' \<longleftrightarrow> r' = Inl e" "mirrors f (Inr s) r' \<longleftrightarrow> r' = Inr (sched_abs f s)"
  by (simp_all add: mirrors_def)

context event_queue begin

definition rel :: "nat \<Rightarrow> 'q sched \<Rightarrow> bool" where
  "rel n s \<longleftrightarrow> inv n (sc_q s) \<and> sim_ok (sched_abs abs s)"

lemma inv_le: "n \<le> m \<Longrightarrow> inv m q \<Longrightarrow> inv n q"
  by (induction m rule: dec_induct) (auto intro: inv_weaken)

lemma schedule_mirrors:
  assumes "rel (Suc n) s" "0 \<le> d"
  shows "mirrors abs (sched_schedule ins h a d s) (sched_schedule ls_insert h a d (sched_abs abs s)) \<and>
    (\<forall>t. sched_schedule ins h a d s = Inr t \<longrightarrow> rel n t)"
proof (cases "sched_schedule ls_insert h a d (sched_abs abs s)")
  case (Inl e)
  then show ?thesis by (auto simp: sched_schedule_def Let_def split: option.splits if_splits)
next
  case (Inr t)
  note ok = sim_ok_schedule [OF _ assms(2) Inr] assms(1)
  let ?e = "sc_mem t a"
  have new: "newest ?e (abs (sc_q s))" using ok by (simp add: rel_def)
  from ins_ok [OF _ new] assms(1) have i: "inv n (ins ?e (sc_q s))"
    "abs (ins ?e (sc_q s)) = ls_insert ?e (abs (sc_q s))" by (auto simp: rel_def)
  from Inr i have "\<exists>u. sched_schedule ins h a d s = Inr u \<and> sched_abs abs u = t \<and> inv n (sc_q u)"
    by (auto simp: sched_schedule_def Let_def sched_abs_def split: option.splits if_splits)
  with Inr ok show ?thesis by (auto simp: rel_def)
qed

lemma cancel_mirrors:
  assumes "rel n s"
  shows "mirrors abs (sched_cancel del a s) (sched_cancel ls_cancel a (sched_abs abs s)) \<and>
    (\<forall>t. sched_cancel del a s = Inr t \<longrightarrow> rel n t)"
proof (cases "0 < ev_uid (sc_mem s a)")
  case True
  let ?e = "sc_mem s a"
  from assms True have e: "?e \<in> set (abs (sc_q s))" "distinct (map ev_addr (abs (sc_q s)))"
    unfolding rel_def sim_ok_def ls_ok_def by auto
  from del_ok [OF _ e(1)] assms obtain q where q: "del ?e (sc_q s) = Some q" "inv n q"
    "abs q = remove1 ?e (abs (sc_q s))" unfolding rel_def by blast
  have "sched_cancel ls_cancel a (sched_abs abs s) =
      Inr (sched_abs abs (s\<lparr>sc_mem := negate_uid a (sc_mem s), sc_q := q\<rparr>))"
    using True ls_cancel_ok [OF e(2,1)] q(3) by (simp add: sched_cancel_def sched_abs_def)
  with sim_ok_cancel [of "sched_abs abs s" a] assms True q show ?thesis
    by (auto simp: sched_cancel_def rel_def)
next
  case False
  with assms show ?thesis by (simp add: sched_cancel_def)
qed

lemma rel_halted: "rel n s \<Longrightarrow> rel n (s\<lparr>sc_halted := b\<rparr>)"
  by (simp add: rel_def sim_ok_def)

lemma abs_halted: "sched_abs abs (s\<lparr>sc_halted := b\<rparr>) = (sched_abs abs s)\<lparr>sc_halted := b\<rparr>"
  by (simp add: sched_abs_def)

lemma calls_mirror:
  assumes "rel (n + inserts cs) s" "list_all proper_call cs"
  shows "mirrors abs (sched_calls ins del cs s) (sched_calls ls_insert ls_cancel cs (sched_abs abs s)) \<and>
    (\<forall>t. sched_calls ins del cs s = Inr t \<longrightarrow> rel n t)"
  using assms
proof (induction cs arbitrary: s)
  case (Cons c cs)
  show ?case
  proof (cases c)
    case (Schedule h a d)
    with Cons.prems have r: "rel (Suc (n + inserts cs)) s" "0 \<le> d" by simp_all
    with schedule_mirrors [OF r, of h a] Cons.IH Cons.prems Schedule show ?thesis
      by (cases "sched_schedule ins h a d s") auto
  next
    case (Cancel a)
    with cancel_mirrors [of "n + inserts cs" s a] Cons show ?thesis
      by (cases "sched_cancel del a s") auto
  next
    case Halt
    with Cons rel_halted [of _ s True] show ?thesis by (auto simp: abs_halted [symmetric])
  next
    case ResumeSched
    with Cons rel_halted [of _ s False] show ?thesis by (auto simp: abs_halted [symmetric])
  qed
qed simp

text \<open>The theorem: the run on this queue is the run on the sorted list.\<close>

lemma run_mirrors:
  assumes "proper handle" "only_inserts k handle" "rel (n * k) s"
  shows "sched_run ls_insert ls_cancel ls_deque handle n (w, sched_abs abs s) =
    map_sum (\<lambda>e. e) (map_prod (\<lambda>w. w) (sched_abs abs)) (sched_run ins del deq handle n (w, s))"
  using assms(3)
proof (induction n arbitrary: w s)
  case (Suc n)
  then have inv: "inv (Suc n * k) (sc_q s)" and sim: "sim_ok (sched_abs abs s)" by (simp_all add: rel_def)
  from deq_ok [OF inv] obtain q where d: "deq (sc_q s) = (case abs (sc_q s) of [] \<Rightarrow> None | e # _ \<Rightarrow> Some e, q)"
    "inv (Suc n * k) q" "abs q = tl (abs (sc_q s))" by blast
  show ?case
  proof (cases "sc_halted s \<or> abs (sc_q s) = []")
    case True
    with d show ?thesis by (auto simp: sched_abs_def)
  next
    case False
    then obtain p ps where p: "abs (sc_q s) = p # ps" by (cases "abs (sc_q s)") auto
    with d have d': "deq (sc_q s) = (Some p, q)" "abs q = ps" by simp_all
    note disp = sim_ok_dispatched [OF sim, of p ps]
    let ?cs = "fst (handle w p (ev_time p))"
    have time: "sc_clock s \<le> ev_time p" using disp(2) p by simp
    have abs_disp: "sched_abs abs (dispatched p q s) = dispatched p ps (sched_abs abs s)"
      using d' by (simp add: sched_abs_def dispatched_def)
    have "inserts ?cs \<le> k" "list_all proper_call ?cs"
      using assms(1,2) by (simp_all add: only_inserts_def proper_def)
    moreover have "rel (n * k + inserts ?cs) (dispatched p q s)"
      using disp(1) p d(2) inv_le [of "n * k + inserts ?cs" "Suc n * k" q] calculation(1) abs_disp
      by (simp add: rel_def) (simp add: dispatched_def)
    ultimately have c: "mirrors abs (sched_calls ins del ?cs (dispatched p q s))
        (sched_calls ls_insert ls_cancel ?cs (dispatched p ps (sched_abs abs s)))"
      "\<And>t. sched_calls ins del ?cs (dispatched p q s) = Inr t \<Longrightarrow> rel (n * k) t"
      using calls_mirror [of "n * k" ?cs "dispatched p q s"] abs_disp by auto
    show ?thesis
      using False p d' c Suc.IH time
      by (cases "sched_calls ins del ?cs (dispatched p q s)") (auto simp: dispatch_eq)
  qed
qed simp

end

interpretation ls: event_queue "\<lambda>n. ls_ok" "\<lambda>q. q" ls_insert ls_cancel ls_deque ls_lookup
proof (unfold_locales, goal_cases)
  case (2 n q e)
  then show ?case by (simp add: ls_insert_ok)
next
  case (3 n q e)
  then have "distinct (map ev_addr q)" by (simp add: ls_ok_def)
  with 3 show ?case by (simp add: ls_ok_remove1 ls_cancel_ok)
next
  case (4 n q)
  then show ?case by (cases q) (auto dest: ls_ok_tl)
qed simp_all

end
