(* ===== verification/SchedLive.thy ===== *)
theory SchedLive
  imports SchedRefine
begin

text \<open>
  Progress of the event loop.  Handlers may schedule, cancel and resume, but do not halt the
  simulator, and what they schedule is at least \<open>d\<close> seconds ahead; the events they cancel are
  those at the addresses \<open>C\<close>.  A waiting event then has a weight that pays for itself and for
  everything that can be scheduled because of it before the time \<open>T\<close>: every dispatch lowers the
  weight of the queue until no event up to \<open>T\<close> waits.
\<close>

fun patient_call :: "real \<Rightarrow> nat set \<Rightarrow> sched_call \<Rightarrow> bool" where
  "patient_call d C (Schedule h a delay) \<longleftrightarrow> d \<le> delay"
| "patient_call d C (Cancel a) \<longleftrightarrow> a \<in> C"
| "patient_call d C Halt \<longleftrightarrow> False"
| "patient_call d C ResumeSched \<longleftrightarrow> True"

definition patient :: "real \<Rightarrow> nat set \<Rightarrow> 'w handlers \<Rightarrow> bool" where
  "patient d C handle \<longleftrightarrow> (\<forall>w e t. list_all (patient_call d C) (fst (handle w e t)))"

definition ev_weight :: "real \<Rightarrow> nat \<Rightarrow> real \<Rightarrow> real \<Rightarrow> nat" where
  "ev_weight d k T t = (if t \<le> T then Suc k ^ nat \<lceil>(T - t) / d\<rceil> else 0)"

definition dispatch_bound :: "real \<Rightarrow> nat \<Rightarrow> real \<Rightarrow> event list \<Rightarrow> nat" where
  "dispatch_bound d k T es = (\<Sum>e\<leftarrow>es. ev_weight d k T (ev_time e))"

lemma dispatch_bound_simps [simp]:
  "dispatch_bound d k T [] = 0"
  "dispatch_bound d k T (e # es) = ev_weight d k T (ev_time e) + dispatch_bound d k T es"
  by (simp_all add: dispatch_bound_def)

lemma ev_weight_pos: "t \<le> T \<Longrightarrow> 0 < ev_weight d k T t"
  by (simp add: ev_weight_def)

lemma ev_weight_mono: "0 < d \<Longrightarrow> t \<le> t' \<Longrightarrow> ev_weight d k T t' \<le> ev_weight d k T t"
  by (auto simp: ev_weight_def intro!: power_increasing nat_mono ceiling_mono divide_right_mono)

lemma ev_weight_pays:
  assumes "0 < d" "t \<le> T"
  shows "k * ev_weight d k T (t + d) < ev_weight d k T t"
proof (cases "t + d \<le> T")
  case True
  then have "0 < (T - t) / d" using assms(1) by simp
  then have "0 < \<lceil>(T - t) / d\<rceil>" by linarith
  moreover have "(T - (t + d)) / d = (T - t) / d - 1"
    using assms(1) by (simp add: diff_divide_distrib add_divide_distrib)
  ultimately have "nat \<lceil>(T - t) / d\<rceil> = Suc (nat \<lceil>(T - (t + d)) / d\<rceil>)"
    by (simp add: nat_diff_distrib')
  with True assms(2) show ?thesis by (simp add: ev_weight_def)
qed (simp add: ev_weight_def assms(2))

lemma dispatch_bound_0: "dispatch_bound d k T es = 0 \<longleftrightarrow> (\<forall>e\<in>set es. T < ev_time e)"
  by (induction es) (auto simp: ev_weight_def)

lemma dispatch_bound_insert:
  "dispatch_bound d k T (ls_insert e es) = ev_weight d k T (ev_time e) + dispatch_bound d k T es"
  by (induction es) auto

lemma ls_cancel_bound: "ls_cancel e es = Some fs \<Longrightarrow> dispatch_bound d k T fs \<le> dispatch_bound d k T es"
  by (induction es arbitrary: fs) (auto split: if_splits)

lemma ls_cancel_others: "ls_cancel e es = Some fs \<Longrightarrow> x \<in> set es \<Longrightarrow> ev_addr x \<noteq> ev_addr e \<Longrightarrow> x \<in> set fs"
  by (induction es arbitrary: fs) (auto split: if_splits)

text \<open>What the calls of one handler can add to the weight of the queue.\<close>

lemma calls_bound:
  assumes "sim_ok s" "list_all proper_call cs" "list_all (patient_call d C) cs" "0 < d"
    "sched_calls ls_insert ls_cancel cs s = Inr t"
  shows "dispatch_bound d k T (sc_q t) \<le> dispatch_bound d k T (sc_q s) + inserts cs * ev_weight d k T (sc_clock s + d) \<and>
    (\<forall>x\<in>set (sc_q s). ev_addr x \<notin> C \<longrightarrow> x \<in> set (sc_q t)) \<and> (sc_halted t \<longrightarrow> sc_halted s)"
  using assms(1-3,5)
proof (induction cs arbitrary: s)
  case (Cons c cs)
  show ?case
  proof (cases c)
    case (Schedule h a delay)
    then obtain u where u: "sched_schedule ls_insert h a delay s = Inr u" "sched_calls ls_insert ls_cancel cs u = Inr t"
      "d \<le> delay" using Cons.prems by (auto split: sum.splits)
    have ok: "sim_ok u" "sc_clock u = sc_clock s"
      using sim_ok_schedule [OF Cons.prems(1) _ u(1)] u(3) assms(4) by auto
    obtain e where e: "sc_q u = ls_insert e (sc_q s)" "ev_time e = sc_clock s + delay" "sc_halted u = sc_halted s"
      using u(1) by (auto simp: sched_schedule_def Let_def split: option.splits if_splits)
    have "ev_weight d k T (ev_time e) \<le> ev_weight d k T (sc_clock s + d)"
      using ev_weight_mono [OF assms(4)] e(2) u(3) by simp
    with Cons.IH [OF ok(1) _ _ u(2)] Cons.prems(2,3) Schedule ok(2) e show ?thesis
      by (auto simp: dispatch_bound_insert)
  next
    case (Cancel a)
    then obtain u where u: "sched_cancel ls_cancel a s = Inr u" "sched_calls ls_insert ls_cancel cs u = Inr t"
      "a \<in> C" using Cons.prems by (auto split: sum.splits)
    have ok: "sim_ok u" "sc_clock u = sc_clock s"
      using sim_ok_cancel [OF Cons.prems(1), of a] u(1) by auto
    have a: "ev_addr (sc_mem s a) = a" if "0 < ev_uid (sc_mem s a)"
      using Cons.prems(1) that by (simp add: sim_ok_def)
    have "dispatch_bound d k T (sc_q u) \<le> dispatch_bound d k T (sc_q s)"
      "\<forall>x\<in>set (sc_q s). ev_addr x \<notin> C \<longrightarrow> x \<in> set (sc_q u)" "sc_halted u = sc_halted s"
      using u(1,3) a by (auto simp: sched_cancel_def ls_cancel_bound not_le split: if_splits option.splits
          intro: ls_cancel_others)
    with Cons.IH [OF ok(1) _ _ u(2)] Cons.prems(2,3) Cancel ok(2) show ?thesis by fastforce
  next
    case ResumeSched
    have "sim_ok (s\<lparr>sc_halted := False\<rparr>)" using Cons.prems(1) by (simp add: sim_ok_def)
    from Cons.IH [OF this] Cons.prems(2-) ResumeSched show ?thesis by simp
  qed (use Cons.prems in simp)
qed simp

text \<open>One turn of the loop.\<close>

lemma dispatch_lowers_bound:
  assumes "sim_ok s" "sc_q s = p # q" "list_all proper_call cs" "list_all (patient_call d C) cs" "0 < d"
    "inserts cs \<le> k" "sched_calls ls_insert ls_cancel cs (dispatched p q s) = Inr t"
  shows "dispatch_bound d k T (sc_q t) \<le> dispatch_bound d k T (sc_q s) - 1"
proof -
  note ok = sim_ok_dispatched [OF assms(1,2)]
  let ?w = "ev_weight d k T"
  have "inserts cs * ?w (ev_time p + d) \<le> k * ?w (ev_time p + d)" using assms(6) by (rule mult_le_mono1)
  moreover have "dispatch_bound d k T (sc_q t) \<le> dispatch_bound d k T q + inserts cs * ?w (ev_time p + d)"
    using calls_bound [OF ok(1) assms(3-5,7), of k T] by (simp add: dispatched_def)
  ultimately have b: "dispatch_bound d k T (sc_q t) \<le> dispatch_bound d k T q + k * ?w (ev_time p + d)"
    by linarith
  show ?thesis
  proof (cases "ev_time p \<le> T")
    case True
    from b ev_weight_pays [OF assms(5) True, of k] assms(2) show ?thesis by simp
  next
    case False
    have "\<forall>x\<in>set q. ev_time p \<le> ev_time x"
      using assms(1,2) by (auto simp: sim_ok_def ls_ok_def ev_before_def)
    with False have "dispatch_bound d k T q = 0" unfolding dispatch_bound_0 by auto
    moreover have "?w (ev_time p + d) = 0" using False assms(5) by (simp add: ev_weight_def)
    ultimately show ?thesis using b by simp
  qed
qed

lemma run_dispatches:
  assumes "proper handle" "only_inserts k handle" "patient d C handle" "0 < d" "sim_ok s" "\<not> sc_halted s"
    "dispatch_bound d k T (sc_q s) \<le> n" "sched_run ls_insert ls_cancel ls_deque handle n (w, s) = Inr (w', t)"
  shows "(\<forall>y\<in>set (sc_q t). T < ev_time y) \<and>
    (\<forall>x\<in>set (sc_q s). ev_addr x \<notin> C \<longrightarrow> x \<in> set (sc_log t) \<or> x \<in> set (sc_q t))"
  using assms(5-8)
proof (induction n arbitrary: w s)
  case 0
  then show ?case by (auto simp: dispatch_bound_0)
next
  case (Suc n)
  show ?case
  proof (cases "sc_q s")
    case Nil
    with Suc.prems show ?thesis by auto
  next
    case (Cons p q)
    note ok = sim_ok_dispatched [OF Suc.prems(1) Cons]
    let ?cs = "fst (handle w p (ev_time p))"
    have pr: "list_all proper_call ?cs" "list_all (patient_call d C) ?cs" "inserts ?cs \<le> k"
      using assms(1-3) by (simp_all add: proper_def patient_def only_inserts_def)
    from Suc.prems(2,4) Cons obtain u where u: "sched_calls ls_insert ls_cancel ?cs (dispatched p q s) = Inr u"
      and r: "sched_run ls_insert ls_cancel ls_deque handle n (snd (handle w p (ev_time p)), u) = Inr (w', t)"
      by (auto simp: dispatch_eq [OF ok(2)] split: sum.splits)
    have u': "sim_ok u" "sc_log u = sc_log s @ [p]"
      using sim_ok_calls [OF ok(1) pr(1) u] by (simp_all add: dispatched_def)
    have b: "dispatch_bound d k T (sc_q u) \<le> n"
      using dispatch_lowers_bound [OF Suc.prems(1) Cons pr(1,2) assms(4) pr(3) u, of T] Suc.prems(3) by simp
    have keep: "\<forall>x\<in>set q. ev_addr x \<notin> C \<longrightarrow> x \<in> set (sc_q u)" "\<not> sc_halted u"
      using calls_bound [OF ok(1) pr(1,2) assms(4) u, of k T] Suc.prems(2) by (auto simp: dispatched_def)
    have "p \<in> set (sc_log t)"
      using sim_ok_run [OF assms(1) u'(1) r] u'(2) by (auto dest: set_mono_prefix)
    with Suc.IH [OF u'(1) keep(2) b r] keep(1) Cons show ?thesis by auto
  qed
qed

subsection \<open>Scheduling and cancelling\<close>

lemma remove1_ls_insert: "e \<notin> set es \<Longrightarrow> remove1 e (ls_insert e es) = es"
  by (induction es) auto

lemma ls_schedule_cancel:
  assumes "sim_ok s" "0 \<le> d" "sched_schedule ls_insert h a d s = Inr t"
  shows "\<exists>u. sched_cancel ls_cancel a t = Inr u \<and> sc_q u = sc_q s \<and> ev_uid (sc_mem u a) = - sc_uid s \<and>
    (\<forall>b. b \<noteq> a \<longrightarrow> sc_mem u b = sc_mem s b) \<and> sc_clock u = sc_clock s \<and> sc_halted u = sc_halted s \<and> sc_log u = sc_log s"
proof -
  have ok: "sim_ok t" "newest (sc_mem t a) (sc_q s)" using sim_ok_schedule [OF assms] by auto
  have t: "sc_q t = ls_insert (sc_mem t a) (sc_q s)" "ev_uid (sc_mem t a) = sc_uid s" "0 < sc_uid s"
    "\<forall>b. b \<noteq> a \<longrightarrow> sc_mem t b = sc_mem s b" "sc_clock t = sc_clock s" "sc_halted t = sc_halted s" "sc_log t = sc_log s"
    using assms(1,3) by (auto simp: sched_schedule_def Let_def sim_ok_def split: option.splits if_splits)
  have e: "distinct (map ev_addr (sc_q t))" "sc_mem t a \<in> set (sc_q t)" "sc_mem t a \<notin> set (sc_q s)"
    using ok t(1) by (auto simp: sim_ok_def ls_ok_def newest_def)
  have "ls_cancel (sc_mem t a) (sc_q t) = Some (sc_q s)"
    using ls_cancel_ok [OF e(1,2)] remove1_ls_insert [OF e(3)] t(1) by simp
  with t show ?thesis by (simp add: sched_cancel_def negate_uid_def)
qed

end
