(* ===== verification/EventSort.thy ===== *)
theory EventSort
  imports SchedRefine
begin

text \<open>
  The order in which events leave a queue, as a sort of the events it holds in any order:
  the abstraction of the queues that are not lists.  \<open>hkey\<close> is the pair of keys that
  \<open>KEY_LESS_THAN\<close> of common/heap.h compares.
\<close>

datatype hkey = HKey (hk_key: real) (hk_s: int)

instantiation hkey :: linorder
begin

definition less_hkey :: "hkey \<Rightarrow> hkey \<Rightarrow> bool" where
  "less_hkey x y \<longleftrightarrow> hk_key x < hk_key y \<or> hk_key x = hk_key y \<and> hk_s x < hk_s y"

definition less_eq_hkey :: "hkey \<Rightarrow> hkey \<Rightarrow> bool" where
  "less_eq_hkey x y \<longleftrightarrow> x < y \<or> x = y"

instance
proof
  fix x y z :: hkey
  show "(x < y) = (x \<le> y \<and> \<not> y \<le> x)" by (auto simp: less_hkey_def less_eq_hkey_def)
  show "x \<le> x" by (simp add: less_eq_hkey_def)
  show "x \<le> y \<Longrightarrow> y \<le> z \<Longrightarrow> x \<le> z" by (auto simp: less_hkey_def less_eq_hkey_def)
  show "x \<le> y \<Longrightarrow> y \<le> x \<Longrightarrow> x = y" by (auto simp: less_hkey_def less_eq_hkey_def)
  show "x \<le> y \<or> y \<le> x" by (cases x; cases y) (auto simp: less_hkey_def less_eq_hkey_def)
qed

end

definition ev_key :: "event \<Rightarrow> hkey" where
  "ev_key e = HKey (ev_time e) (ev_uid e)"

lemma ev_before_key: "ev_before x y \<longleftrightarrow> ev_key x < ev_key y"
  by (simp add: ev_before_def ev_key_def less_hkey_def)

definition ev_sort :: "event list \<Rightarrow> event list" where
  "ev_sort = sort_key ev_key"

text \<open>Events that may wait together.\<close>

definition evs_ok :: "event list \<Rightarrow> bool" where
  "evs_ok es \<longleftrightarrow> distinct (map ev_addr es) \<and> distinct (map ev_uid es) \<and> (\<forall>x\<in>set es. 0 \<le> ev_time x)"

lemma evs_ok_mset: "mset xs = mset ys \<Longrightarrow> evs_ok xs = evs_ok ys"
  unfolding evs_ok_def by (metis mset_eq_imp_distinct_iff mset_map set_mset_mset)

lemma ev_sort_mset [simp]: "mset (ev_sort es) = mset es"
  by (simp add: ev_sort_def)

lemma ev_sort_set [simp]: "set (ev_sort es) = set es"
  by (simp add: ev_sort_def)

lemma ev_sort_ok: "ls_ok (ev_sort es) \<longleftrightarrow> evs_ok es"
proof
  assume "ls_ok (ev_sort es)"
  then have "evs_ok (ev_sort es)" by (simp add: ls_ok_def evs_ok_def)
  then show "evs_ok es" using evs_ok_mset ev_sort_mset by blast
next
  assume "evs_ok es"
  then have ok: "evs_ok (ev_sort es)" using evs_ok_mset ev_sort_mset by blast
  have inj: "distinct (map ev_key (ev_sort es))"
  proof -
    have "map ev_uid xs = map (hk_s \<circ> ev_key) xs" for xs by (simp add: ev_key_def)
    then show ?thesis using ok unfolding evs_ok_def by (metis distinct_map map_map)
  qed
  have "sorted (map ev_key (ev_sort es))" by (simp add: ev_sort_def)
  with inj have "sorted_wrt (<) (map ev_key (ev_sort es))" by (simp add: strict_sorted_iff)
  then have "sorted_wrt ev_before (ev_sort es)"
    by (simp add: sorted_wrt_map ev_before_key [abs_def])
  with ok show "ls_ok (ev_sort es)" by (simp add: ls_ok_def evs_ok_def)
qed

lemma ls_ok_sorted: "ls_ok xs \<Longrightarrow> sorted (map ev_key xs) \<and> inj_on ev_key (set xs)"
  unfolding ls_ok_def ev_before_key [abs_def]
  by (metis sorted_wrt_map strict_sorted_iff distinct_map)

lemma ev_sort_unique:
  assumes "ls_ok xs" "mset xs = mset es"
  shows "ev_sort es = xs"
proof (rule map_inj_on)
  have "map ev_key (ev_sort es) = sort (map ev_key es)"
    by (rule properties_for_sort [symmetric]) (simp_all add: ev_sort_def)
  also have "\<dots> = map ev_key xs"
    using ls_ok_sorted [OF assms(1)] assms(2) by (intro properties_for_sort) (simp_all add: mset_map)
  finally show "map ev_key (ev_sort es) = map ev_key xs" .
  have "set (ev_sort es) = set xs" using assms(2) by (metis ev_sort_mset mset_eq_setD)
  then show "inj_on ev_key (set (ev_sort es) \<union> set xs)" using ls_ok_sorted [OF assms(1)] by simp
qed

lemma newest_set: "newest e xs = newest e ys" if "set xs = set ys"
  using that by (simp add: newest_def)

lemma ev_sort_insert:
  assumes "evs_ok es" "newest e es" "mset es' = add_mset e (mset es)"
  shows "ev_sort es' = ls_insert e (ev_sort es)" "evs_ok es'"
proof -
  have "ls_ok (ls_insert e (ev_sort es))"
    using assms(1,2) newest_set [of "ev_sort es" es] by (intro ls_insert_ok) (simp_all add: ev_sort_ok)
  then show 1: "ev_sort es' = ls_insert e (ev_sort es)"
    by (rule ev_sort_unique) (simp add: assms(3))
  with \<open>ls_ok (ls_insert e (ev_sort es))\<close> show "evs_ok es'" by (simp add: ev_sort_ok [symmetric])
qed

lemma ev_sort_remove:
  assumes "evs_ok es" "mset es = add_mset e (mset es')"
  shows "ev_sort es' = remove1 e (ev_sort es)" "evs_ok es'"
proof -
  have "ls_ok (remove1 e (ev_sort es))" using assms(1) by (intro ls_ok_remove1) (simp add: ev_sort_ok)
  then show 1: "ev_sort es' = remove1 e (ev_sort es)"
    by (rule ev_sort_unique) (simp add: assms(2))
  with \<open>ls_ok (remove1 e (ev_sort es))\<close> show "evs_ok es'" by (simp add: ev_sort_ok [symmetric])
qed

lemma ev_sort_min:
  assumes "evs_ok es" "mset es = add_mset e (mset es')" "\<forall>x\<in>set es'. ev_key e \<le> ev_key x"
  shows "ev_sort es = e # ev_sort es'"
proof -
  have ok: "ls_ok (ev_sort es')" using ev_sort_remove(2) [OF assms(1,2)] by (simp add: ev_sort_ok)
  have "ls_ok (e # ev_sort es')"
  proof -
    have "evs_ok (e # ev_sort es')"
      using assms(1) evs_ok_mset [of es "e # ev_sort es'"] assms(2) by simp
    moreover from this have "\<forall>x\<in>set es'. ev_key e < ev_key x"
      using assms(3) by (auto simp: evs_ok_def ev_key_def order_le_less)
    ultimately show ?thesis using ok by (simp add: ls_ok_def evs_ok_def ev_before_key)
  qed
  then show ?thesis by (rule ev_sort_unique) (simp add: assms(2))
qed

lemma ls_lookup_iff:
  assumes "distinct (map ev_uid xs)"
  shows "ls_lookup u xs = Some e \<longleftrightarrow> e \<in> set xs \<and> ev_uid e = u"
  using assms by (induction xs) (auto simp: rev_image_eqI)

lemma ls_lookup_None: "ls_lookup u xs = None \<longleftrightarrow> (\<forall>e\<in>set xs. ev_uid e \<noteq> u)"
  by (induction xs) auto

lemma ls_lookup_set:
  assumes "distinct (map ev_uid xs)" "distinct (map ev_uid ys)" "set xs = set ys"
  shows "ls_lookup u xs = ls_lookup u ys"
proof (cases "ls_lookup u xs")
  case None
  with assms(3) show ?thesis by (metis ls_lookup_None)
next
  case (Some e)
  with assms show ?thesis by (metis ls_lookup_iff)
qed

end
