(* ===== verification/HeapSched.thy ===== *)
theory HeapSched
  imports EventSort "HOL-Library.Word"
begin

text \<open>
  Class Heap of common/heap.h and common/scheduler.cc, and HeapScheduler, which keeps its
  events in one.  The array is a list as long as the allocation; equal times are ordered by
  a counter of the insertions, an \<open>unsigned int\<close>.
\<close>

record heap_elem =
  he_key :: real
  he_s_key :: int
  he_elem :: "event option"

record heap =
  h_elems :: "heap_elem list"
  h_s_key :: "32 word"
  h_size :: nat
  h_maxsize :: nat
  h_iter :: nat

definition HEAP_DEFAULT_SIZE :: nat where "HEAP_DEFAULT_SIZE = 32"

definition heap_zero :: heap_elem where
  "heap_zero = \<lparr>he_key = 0, he_s_key = 0, he_elem = None\<rparr>"

definition heap_new :: "nat \<Rightarrow> heap" where
  "heap_new n = \<lparr>h_elems = replicate n heap_zero, h_s_key = 0, h_size = 0, h_maxsize = n, h_iter = 0\<rparr>"

definition heap_parent :: "nat \<Rightarrow> nat" where "heap_parent i = (i - 1) div 2"
definition heap_left :: "nat \<Rightarrow> nat" where "heap_left i = i * 2 + 1"
definition heap_right :: "nat \<Rightarrow> nat" where "heap_right i = (i + 1) * 2"

definition heap_swap :: "nat \<Rightarrow> nat \<Rightarrow> heap_elem list \<Rightarrow> heap_elem list" where
  "heap_swap i j es = (let he = es ! i in es[i := es ! j, j := he])"

definition KEY_LESS_THAN :: "real \<Rightarrow> int \<Rightarrow> real \<Rightarrow> int \<Rightarrow> bool" where
  "KEY_LESS_THAN k1 ks1 k2 ks2 \<longleftrightarrow> k1 < k2 \<or> k1 = k2 \<and> ks1 < ks2"

subsection \<open>Operations\<close>

text \<open>The element is searched for by its pointer; the result is its index plus one, or 0.\<close>

definition is_elem :: "nat \<Rightarrow> heap_elem \<Rightarrow> bool" where
  "is_elem a x \<longleftrightarrow> map_option ev_addr (he_elem x) = Some a"

fun heap_member_from :: "nat \<Rightarrow> heap_elem list \<Rightarrow> nat \<Rightarrow> nat" where
  "heap_member_from a [] i = 0"
| "heap_member_from a (x # xs) i = (if is_elem a x then Suc i else heap_member_from a xs (Suc i))"

definition heap_member :: "nat \<Rightarrow> heap \<Rightarrow> nat" where
  "heap_member a h = heap_member_from a (take (h_size h) (h_elems h)) 0"

text \<open>The loops of \<open>heap_insert\<close>, \<open>heap_delete\<close> and \<open>heap_extract_min\<close>.\<close>

function heap_up :: "real \<Rightarrow> int \<Rightarrow> heap_elem list \<Rightarrow> nat \<Rightarrow> heap_elem list \<times> nat" where
  "heap_up key ks es i =
     (if i > 0 \<and> KEY_LESS_THAN key ks (he_key (es ! heap_parent i)) (he_s_key (es ! heap_parent i))
      then heap_up key ks (es[i := es ! heap_parent i]) (heap_parent i)
      else (es, i))"
  by pat_completeness auto
termination by (relation "measure (\<lambda>(key, ks, es, i). i)") (auto simp: heap_parent_def)

function heap_to_root :: "heap_elem list \<Rightarrow> nat \<Rightarrow> heap_elem list" where
  "heap_to_root es i =
     (if i > 0 then heap_to_root (heap_swap i (heap_parent i) es) (heap_parent i) else es)"
  by pat_completeness auto
termination by (relation "measure (\<lambda>(es, i). i)") (auto simp: heap_parent_def)

definition heap_try :: "nat \<Rightarrow> heap_elem list \<Rightarrow> nat \<Rightarrow> nat" where
  "heap_try n es i =
     (let l = heap_left i; r = heap_right i in
      if r < n then
        (if KEY_LESS_THAN (he_key (es ! l)) (he_s_key (es ! l)) (he_key (es ! r)) (he_s_key (es ! r))
         then l else r)
      else if l < n then l else i)"

function heap_down :: "nat \<Rightarrow> heap_elem list \<Rightarrow> nat \<Rightarrow> heap_elem list" where
  "heap_down n es i =
     (if i < n then
        (let x = heap_try n es i in
         if x \<noteq> i \<and> KEY_LESS_THAN (he_key (es ! x)) (he_s_key (es ! x)) (he_key (es ! i)) (he_s_key (es ! i))
         then heap_down n (heap_swap i x es) x
         else es)
      else es)"
  by pat_completeness auto
termination by (relation "measure (\<lambda>(n, es, i). n - i)")
  (auto simp: heap_try_def heap_left_def heap_right_def Let_def split: if_splits)

declare heap_up.simps [simp del] heap_to_root.simps [simp del] heap_down.simps [simp del]

definition heap_insert :: "real \<Rightarrow> event \<Rightarrow> heap \<Rightarrow> heap" where
  "heap_insert key elem h =
     (let h = (if h_maxsize h = h_size h then
                 h\<lparr>h_maxsize := h_maxsize h * 2,
                   h_elems := h_elems h @ replicate (h_maxsize h * 2 - h_maxsize h) heap_zero\<rparr>
               else h);
          ks = uint (h_s_key h);
          (es, i) = heap_up key ks (h_elems h) (h_size h);
          es = es[i := \<lparr>he_key = key, he_s_key = ks, he_elem = Some elem\<rparr>]
      in h\<lparr>h_size := h_size h + 1, h_s_key := h_s_key h + 1, h_elems := es\<rparr>)"

definition heap_min :: "heap \<Rightarrow> event option" where
  "heap_min h = (if h_size h > 0 then he_elem (h_elems h ! 0) else None)"

definition heap_extract_min :: "heap \<Rightarrow> event option \<times> heap" where
  "heap_extract_min h =
     (if h_size h = 0 then (None, h)
      else
        (let m = he_elem (h_elems h ! 0);
             n = h_size h - 1;
             es = (h_elems h)[0 := h_elems h ! n]
         in (m, h\<lparr>h_size := n, h_elems := heap_down n es 0\<rparr>)))"

definition heap_delete :: "nat \<Rightarrow> heap \<Rightarrow> bool \<times> heap" where
  "heap_delete a h =
     (let i = heap_member a h in
      if i = 0 then (False, h)
      else (True, snd (heap_extract_min (h\<lparr>h_elems := heap_to_root (h_elems h) (i - 1)\<rparr>))))"

definition heap_iter_init :: "heap \<Rightarrow> event option \<times> heap" where
  "heap_iter_init h = (heap_min h, h\<lparr>h_iter := 1\<rparr>)"

definition heap_iter :: "heap \<Rightarrow> event option \<times> heap" where
  "heap_iter h = (if h_iter h \<ge> h_size h then (None, h\<lparr>h_iter := 0\<rparr>)
                  else (he_elem (h_elems h ! h_iter h), h\<lparr>h_iter := h_iter h + 1\<rparr>))"

subsection \<open>HeapScheduler\<close>

text \<open>The loop of \<open>lookup\<close>: \<open>heap_iter\<close> moves on until the heap is exhausted.\<close>

function hs_lookup_from :: "int \<Rightarrow> event option \<Rightarrow> heap \<Rightarrow> event option" where
  "hs_lookup_from u e h = (case e of
     None \<Rightarrow> None
   | Some p \<Rightarrow> if ev_uid p = u then Some p
               else (case heap_iter h of (e, h) \<Rightarrow> hs_lookup_from u e h))"
  by pat_completeness auto
termination by (relation "measure (\<lambda>(u, e, h). case e of None \<Rightarrow> 0 | Some p \<Rightarrow> Suc (h_size h - h_iter h))")
  (auto simp: heap_iter_def split: if_splits option.splits)

declare hs_lookup_from.simps [simp del]

definition hs_lookup :: "int \<Rightarrow> heap \<Rightarrow> event option" where
  "hs_lookup u h = (case heap_iter_init h of (e, h) \<Rightarrow> hs_lookup_from u e h)"

definition hs_insert :: "event \<Rightarrow> heap \<Rightarrow> heap" where
  "hs_insert e h = heap_insert (ev_time e) e h"

definition hs_cancel :: "event \<Rightarrow> heap \<Rightarrow> heap option" where
  "hs_cancel e h = Some (snd (heap_delete (ev_addr e) h))"

definition hs_deque :: "heap \<Rightarrow> event option \<times> heap" where
  "hs_deque h = heap_extract_min h"

definition hs_head :: "heap \<Rightarrow> event option" where
  "hs_head h = heap_min h"

end
