(* ===== verification/HeapLaws.thy ===== *)
theory HeapLaws
  imports HeapSched
begin

text \<open>
  The heap keeps its order, never loses an element and yields a smallest one; HeapScheduler
  therefore meets the contract of an event queue as long as its 32-bit counter does not wrap.
\<close>

subsection \<open>Heaps as functions\<close>

abbreviation swapf :: "nat \<Rightarrow> nat \<Rightarrow> (nat \<Rightarrow> 'a) \<Rightarrow> nat \<Rightarrow> 'a" where
  "swapf i j f \<equiv> f(i := f j, j := f i)"

definition hp :: "nat \<Rightarrow> (nat \<Rightarrow> hkey) \<Rightarrow> bool" where
  "hp n f \<longleftrightarrow> (\<forall>j<n. 0 < j \<longrightarrow> f (heap_parent j) \<le> f j)"

text \<open>The order holds except between \<open>i\<close> and its parent, its children, or both.\<close>

definition grand :: "nat \<Rightarrow> (nat \<Rightarrow> hkey) \<Rightarrow> nat \<Rightarrow> bool" where
  "grand n f i \<longleftrightarrow> (0 < i \<longrightarrow> (\<forall>j<n. 0 < j \<longrightarrow> heap_parent j = i \<longrightarrow> f (heap_parent i) \<le> f j))"

definition hp_up :: "nat \<Rightarrow> (nat \<Rightarrow> hkey) \<Rightarrow> nat \<Rightarrow> bool" where
  "hp_up n f i \<longleftrightarrow> (\<forall>j<n. 0 < j \<longrightarrow> j \<noteq> i \<longrightarrow> f (heap_parent j) \<le> f j) \<and> grand n f i"

definition hp_down :: "nat \<Rightarrow> (nat \<Rightarrow> hkey) \<Rightarrow> nat \<Rightarrow> bool" where
  "hp_down n f i \<longleftrightarrow> (\<forall>j<n. 0 < j \<longrightarrow> heap_parent j \<noteq> i \<longrightarrow> f (heap_parent j) \<le> f j) \<and> grand n f i"

definition hp_hole :: "nat \<Rightarrow> (nat \<Rightarrow> hkey) \<Rightarrow> nat \<Rightarrow> bool" where
  "hp_hole n f i \<longleftrightarrow>
     (\<forall>j<n. 0 < j \<longrightarrow> j \<noteq> i \<longrightarrow> heap_parent j \<noteq> i \<longrightarrow> f (heap_parent j) \<le> f j) \<and> grand n f i"

lemma parent_less [simp]: "0 < i \<Longrightarrow> heap_parent i < i"
  by (simp add: heap_parent_def)

lemma parent_ne [simp]: "0 < i \<Longrightarrow> heap_parent i \<noteq> i" "0 < i \<Longrightarrow> i \<noteq> heap_parent i"
  by (auto simp: heap_parent_def)

lemma hp_root_min: "hp n f \<Longrightarrow> i < n \<Longrightarrow> f 0 \<le> f i"
proof (induction i rule: less_induct)
  case (less i)
  show ?case
  proof (cases "i = 0")
    case False
    then have "f 0 \<le> f (heap_parent i)" using less parent_less [of i] by (meson less_trans not_gr_zero)
    also have "\<dots> \<le> f i" using less.prems False by (simp add: hp_def)
    finally show ?thesis .
  qed simp
qed

lemma up_step:
  assumes up: "hp_up n f i" and i: "0 < i" "i < n" and lt: "f i < f (heap_parent i)"
  shows "hp_up n (swapf i (heap_parent i) f) (heap_parent i)"
proof -
  let ?p = "heap_parent i"
  have first: "f (heap_parent j) \<le> f j" if "j < n" "0 < j" "j \<noteq> i" for j
    using up that by (simp add: hp_up_def)
  have kids: "f ?p \<le> f j" if "j < n" "0 < j" "heap_parent j = i" for j
    using up that i by (simp add: hp_up_def grand_def)
  have sib: "f ?p \<le> f j" if "j < n" "0 < j" "j \<noteq> i" "heap_parent j = ?p" for j
    using first [of j] that by auto
  have "swapf i ?p f (heap_parent j) \<le> swapf i ?p f j" if "j < n" "0 < j" "j \<noteq> ?p" for j
    using that first [of j] kids [of j] lt i sib [of j] by (auto intro: order_trans less_imp_le)
  moreover have "swapf i ?p f (heap_parent ?p) \<le> swapf i ?p f j"
    if "0 < ?p" "j < n" "0 < j" "heap_parent j = ?p" for j
  proof -
    have pp: "heap_parent ?p \<noteq> i" "heap_parent ?p \<noteq> ?p"
      using parent_less [OF that(1)] parent_less [OF i(1)] by simp_all
    have "f (heap_parent ?p) \<le> f ?p" using first [of ?p] that(1) i parent_less [OF i(1)] by simp
    then show ?thesis using pp that sib [of j] by (auto intro: order_trans)
  qed
  ultimately show ?thesis unfolding hp_up_def grand_def by blast
qed

lemma up_done: "hp_up n f i \<Longrightarrow> i = 0 \<or> f (heap_parent i) \<le> f i \<Longrightarrow> hp n f"
  by (auto simp: hp_up_def hp_def)

lemma down_step:
  assumes down: "hp_down n f i" and x: "x < n" "0 < x" "heap_parent x = i"
    and least: "\<And>j. j < n \<Longrightarrow> 0 < j \<Longrightarrow> heap_parent j = i \<Longrightarrow> f x \<le> f j" and lt: "f x < f i"
  shows "hp_down n (swapf i x f) x"
proof -
  have ix: "i < x" using parent_less [OF x(2)] x(3) by simp
  have first: "f (heap_parent j) \<le> f j" if "j < n" "0 < j" "heap_parent j \<noteq> i" for j
    using down that by (simp add: hp_down_def)
  have gp: "f (heap_parent i) \<le> f x" if "0 < i" using down that x by (simp add: hp_down_def grand_def)
  have "swapf i x f (heap_parent j) \<le> swapf i x f j" if "j < n" "0 < j" "heap_parent j \<noteq> x" for j
  proof (cases "j = i")
    case True
    then show ?thesis using gp that parent_less [of i] ix by auto
  next
    case False
    then show ?thesis using that first [of j] least [of j] lt x by (auto simp: less_imp_le)
  qed
  moreover have "swapf i x f (heap_parent x) \<le> swapf i x f j" if "j < n" "0 < j" "heap_parent j = x" for j
    using that first [of j] x ix parent_less [of j] by auto
  ultimately show ?thesis unfolding hp_down_def grand_def by blast
qed

lemma down_done:
  "hp_down n f i \<Longrightarrow> (\<And>j. j < n \<Longrightarrow> 0 < j \<Longrightarrow> heap_parent j = i \<Longrightarrow> f i \<le> f j) \<Longrightarrow> hp n f"
  by (auto simp: hp_down_def hp_def)

lemma hole_step:
  assumes hole: "hp_hole n f i" and i: "0 < i" "i < n"
  shows "hp_hole n (swapf i (heap_parent i) f) (heap_parent i)"
proof -
  let ?p = "heap_parent i"
  have first: "f (heap_parent j) \<le> f j" if "j < n" "0 < j" "j \<noteq> i" "heap_parent j \<noteq> i" for j
    using hole that by (simp add: hp_hole_def)
  have kids: "f ?p \<le> f j" if "j < n" "0 < j" "heap_parent j = i" for j
    using hole that i by (simp add: hp_hole_def grand_def)
  have sib: "f ?p \<le> f j" if "j < n" "0 < j" "j \<noteq> i" "heap_parent j = ?p" for j
    using first [of j] that i by auto
  have "swapf i ?p f (heap_parent j) \<le> swapf i ?p f j"
    if "j < n" "0 < j" "j \<noteq> ?p" "heap_parent j \<noteq> ?p" for j
    using that first [of j] kids [of j] i by auto
  moreover have "swapf i ?p f (heap_parent ?p) \<le> swapf i ?p f j"
    if "0 < ?p" "j < n" "0 < j" "heap_parent j = ?p" for j
  proof -
    have pp: "heap_parent ?p \<noteq> i" "heap_parent ?p \<noteq> ?p"
      using parent_less [OF that(1)] parent_less [OF i(1)] by simp_all
    have "f (heap_parent ?p) \<le> f ?p" using first [of ?p] that(1) i parent_less [OF i(1)] pp by simp
    then show ?thesis using pp that sib [of j] by (auto intro: order_trans)
  qed
  ultimately show ?thesis unfolding hp_hole_def grand_def by blast
qed

subsection \<open>Heaps as arrays\<close>

definition hk :: "heap_elem \<Rightarrow> hkey" where
  "hk x = HKey (he_key x) (he_s_key x)"

definition hkf :: "heap_elem list \<Rightarrow> nat \<Rightarrow> hkey" where
  "hkf es i = hk (es ! i)"

lemma key_less: "KEY_LESS_THAN (he_key x) (he_s_key x) (he_key y) (he_s_key y) \<longleftrightarrow> hk x < hk y"
  by (simp add: KEY_LESS_THAN_def hk_def less_hkey_def)

lemma length_heap_swap [simp]: "length (heap_swap i j es) = length es"
  by (simp add: heap_swap_def Let_def)

lemma hkf_swap:
  "i < length es \<Longrightarrow> j < length es \<Longrightarrow> hkf (heap_swap i j es) = swapf i j (hkf es)"
  by (auto simp: fun_eq_iff hkf_def heap_swap_def Let_def nth_list_update)

lemma take_swap:
  "i < n \<Longrightarrow> j < n \<Longrightarrow> n \<le> length es \<Longrightarrow> mset (take n (heap_swap i j es)) = mset (take n es)"
  using mset_swap [of j "take n es" i] by (simp add: heap_swap_def Let_def take_update_swap)

lemma heap_try_cases:
  assumes "i < n"
  shows "heap_try n es i = i \<and> (\<forall>j<n. 0 < j \<longrightarrow> heap_parent j \<noteq> i) \<or>
    heap_try n es i < n \<and> 0 < heap_try n es i \<and> heap_parent (heap_try n es i) = i \<and>
    (\<forall>j<n. 0 < j \<longrightarrow> heap_parent j = i \<longrightarrow> hkf es (heap_try n es i) \<le> hkf es j)"
proof -
  have kids: "0 < j \<and> heap_parent j = i \<longleftrightarrow> j = heap_left i \<or> j = heap_right i" for j
    by (auto simp: heap_parent_def heap_left_def heap_right_def)
  have lr: "heap_left i < heap_right i" by (simp add: heap_left_def heap_right_def)
  have l: "0 < heap_left i" "heap_parent (heap_left i) = i"
    and r: "0 < heap_right i" "heap_parent (heap_right i) = i" using kids by blast+
  consider "heap_right i < n" | "\<not> heap_right i < n" "heap_left i < n" | "\<not> heap_left i < n"
    by blast
  then show ?thesis
  proof cases
    case 1
    with lr have ln: "heap_left i < n" by simp
    show ?thesis
    proof (cases "hkf es (heap_left i) < hkf es (heap_right i)")
      case True
      with 1 have "heap_try n es i = heap_left i" by (simp add: heap_try_def Let_def key_less hkf_def)
      with True ln l kids show ?thesis by (metis less_imp_le order_refl)
    next
      case False
      with 1 have "heap_try n es i = heap_right i" by (simp add: heap_try_def Let_def key_less hkf_def)
      with False 1 r kids show ?thesis by (metis not_less order_refl)
    qed
  next
    case 2
    then have "heap_try n es i = heap_left i" by (simp add: heap_try_def Let_def)
    with 2 l kids show ?thesis by (metis order_refl)
  next
    case 3
    then have "heap_try n es i = i" using lr by (simp add: heap_try_def Let_def)
    with 3 lr kids show ?thesis by (metis less_trans)
  qed
qed

lemma heap_down_ok:
  assumes "n \<le> length es" "hp_down n (hkf es) i"
  shows "hp n (hkf (heap_down n es i)) \<and> mset (take n (heap_down n es i)) = mset (take n es) \<and>
    length (heap_down n es i) = length es"
  using assms
proof (induction n es i rule: heap_down.induct)
  case (1 n es i)
  define x where "x = heap_try n es i"
  show ?case
  proof (cases "i < n \<and> x \<noteq> i \<and> hk (es ! x) < hk (es ! i)")
    case True
    then have x: "x < n" "0 < x" "heap_parent x = i"
      "\<And>j. j < n \<Longrightarrow> 0 < j \<Longrightarrow> heap_parent j = i \<Longrightarrow> hkf es x \<le> hkf es j"
      using heap_try_cases [of i n es] unfolding x_def by blast+
    have lt: "hkf es x < hkf es i" using True by (simp add: hkf_def)
    have eq: "heap_down n es i = heap_down n (heap_swap i x es) x"
      using True by (subst heap_down.simps) (simp add: x_def Let_def key_less)
    have len: "i < length es" "x < length es" using True x(1) "1.prems"(1) by linarith+
    have "hp_down n (hkf (heap_swap i x es)) x"
      unfolding hkf_swap [OF len] by (rule down_step [OF "1.prems"(2) x lt])
    then have "hp n (hkf (heap_down n (heap_swap i x es) x)) \<and>
      mset (take n (heap_down n (heap_swap i x es) x)) = mset (take n (heap_swap i x es)) \<and>
      length (heap_down n (heap_swap i x es) x) = length (heap_swap i x es)"
      using "1.IH" True "1.prems"(1) by (simp add: x_def key_less)
    then show ?thesis using True x(1) "1.prems"(1) by (simp add: eq take_swap)
  next
    case False
    then have eq: "heap_down n es i = es"
      by (subst heap_down.simps) (auto simp: x_def Let_def key_less)
    have "hkf es i \<le> hkf es j" if "j < n" "0 < j" "heap_parent j = i" for j
    proof -
      have i: "i < n" using parent_less [OF that(2)] that by simp
      from heap_try_cases [OF i, of es] that have x: "x \<noteq> i" "hkf es x \<le> hkf es j"
        unfolding x_def by (metis parent_ne(1))+
      from False i x(1) have "hkf es i \<le> hkf es x" by (simp add: hkf_def not_less)
      with x(2) show ?thesis by simp
    qed
    with down_done [OF "1.prems"(2)] show ?thesis by (simp add: eq)
  qed
qed

lemma heap_to_root_ok:
  assumes "i < n" "n \<le> length es" "hp_hole n (hkf es) i"
  shows "hp_hole n (hkf (heap_to_root es i)) 0 \<and> heap_to_root es i ! 0 = es ! i \<and>
    mset (take n (heap_to_root es i)) = mset (take n es) \<and> length (heap_to_root es i) = length es"
  using assms
proof (induction es i rule: heap_to_root.induct)
  case (1 es i)
  show ?case
  proof (cases "i = 0")
    case True
    with "1.prems" show ?thesis by (subst (1 2 3 4) heap_to_root.simps) simp
  next
    case False
    let ?p = "heap_parent i"
    have "?p < i" using False by simp
    with "1.prems"(1,2) have p: "?p < n" "?p < length es" "i < length es" by linarith+
    have eq: "heap_to_root es i = heap_to_root (heap_swap i ?p es) ?p"
      using False by (subst heap_to_root.simps) simp
    have "hp_hole n (hkf (heap_swap i ?p es)) ?p"
      using hole_step [OF "1.prems"(3)] False "1.prems"(1) p by (simp add: hkf_swap)
    moreover have "heap_swap i ?p es ! ?p = es ! i"
      using False p by (simp add: heap_swap_def Let_def)
    ultimately show ?thesis
      using "1.IH" False p "1.prems"(1,2) by (simp add: eq take_swap)
  qed
qed

text \<open>Sifting up moves a hole; \<open>x\<close> is what will be stored in it.\<close>

lemma heap_up_ok:
  assumes "i < n" "n \<le> length es" "hp_up n (hkf (es[i := x])) i" "heap_up (he_key x) (he_s_key x) es i = (es', k)"
  shows "hp n (hkf (es'[k := x])) \<and> mset (take n (es'[k := x])) = mset (take n (es[i := x])) \<and>
    length es' = length es \<and> k < n"
  using assms
proof (induction "he_key x" "he_s_key x" es i rule: heap_up.induct)
  case (1 es i)
  let ?p = "heap_parent i"
  show ?case
  proof (cases "0 < i \<and> hk x < hk (es ! ?p)")
    case True
    then have "?p < i" by simp
    with "1.prems"(1,2) have p: "?p < n" "?p < length es" "i < length es" "?p \<noteq> i" by linarith+
    have sw: "es[i := es ! ?p, ?p := x] = heap_swap i ?p (es[i := x])"
      using p by (simp add: heap_swap_def Let_def)
    have "hkf (es[i := x]) i < hkf (es[i := x]) ?p" using True p by (simp add: hkf_def)
    then have "hp_up n (hkf (es[i := es ! ?p, ?p := x])) ?p"
      unfolding sw using up_step [OF "1.prems"(3)] True p "1.prems"(1) by (simp add: hkf_swap)
    moreover have "heap_up (he_key x) (he_s_key x) (es[i := es ! ?p]) ?p = (es', k)"
      using "1.prems"(4) True by (subst (asm) heap_up.simps) (simp add: key_less)
    moreover have "mset (take n (es[i := es ! ?p, ?p := x])) = mset (take n (es[i := x]))"
      unfolding sw using p "1.prems"(1,2) by (simp add: take_swap)
    ultimately show ?thesis
      using "1.hyps" True p "1.prems"(2) by (simp add: key_less)
  next
    case False
    then have "es' = es" "k = i"
      using "1.prems"(4) by (subst (asm) heap_up.simps; simp add: key_less split: if_splits)+
    moreover have "hp n (hkf (es[i := x]))"
    proof (rule up_done [OF "1.prems"(3)])
      show "i = 0 \<or> hkf (es[i := x]) ?p \<le> hkf (es[i := x]) i"
        using False "1.prems"(1,2) parent_ne [of i] by (cases "i = 0") (auto simp: hkf_def not_less)
    qed
    ultimately show ?thesis using "1.prems"(1) by simp
  qed
qed

subsection \<open>HeapScheduler meets the contract\<close>

definition he_ev :: "heap_elem \<Rightarrow> event" where
  "he_ev x = the (he_elem x)"

text \<open>What the stored elements look like, in any order, when the counter stands at \<open>k\<close>.\<close>

definition he_good :: "int \<Rightarrow> heap_elem list \<Rightarrow> bool" where
  "he_good k L \<longleftrightarrow>
     (\<forall>x\<in>set L. he_elem x = Some (he_ev x) \<and> he_key x = ev_time (he_ev x) \<and> he_s_key x < k) \<and>
     (\<forall>x\<in>set L. \<forall>y\<in>set L. he_s_key x < he_s_key y \<longleftrightarrow> ev_uid (he_ev x) < ev_uid (he_ev y)) \<and>
     evs_ok (map he_ev L)"

definition hs_elems :: "heap \<Rightarrow> heap_elem list" where
  "hs_elems h = take (h_size h) (h_elems h)"

definition hs_inv :: "nat \<Rightarrow> heap \<Rightarrow> bool" where
  "hs_inv n h \<longleftrightarrow> h_maxsize h = length (h_elems h) \<and> 0 < h_maxsize h \<and> h_size h \<le> h_maxsize h \<and>
     uint (h_s_key h) + int n < 2 ^ 32 \<and> hp (h_size h) (hkf (h_elems h)) \<and>
     he_good (uint (h_s_key h)) (hs_elems h)"

definition hs_abs :: "heap \<Rightarrow> event list" where
  "hs_abs h = ev_sort (map he_ev (hs_elems h))"

lemma he_good_mset: "mset L = mset L' \<Longrightarrow> he_good k L = he_good k L'"
  using mset_eq_setD [of L L'] evs_ok_mset [of "map he_ev L" "map he_ev L'"] by (simp add: he_good_def)

lemma he_good_sub:
  assumes "he_good k L" "mset L = add_mset x (mset L')"
  shows "he_good k L'" "ev_sort (map he_ev L') = remove1 (he_ev x) (ev_sort (map he_ev L))"
proof -
  have sub: "set L' \<subseteq> set L" using assms(2) by (metis set_mset_mset set_mset_add_mset_insert subset_insertI)
  have m: "mset (map he_ev L) = add_mset (he_ev x) (mset (map he_ev L'))" using assms(2) by simp
  have "evs_ok (map he_ev L)" using assms(1) by (simp add: he_good_def)
  from ev_sort_remove [OF this m] show "ev_sort (map he_ev L') = remove1 (he_ev x) (ev_sort (map he_ev L))"
    by simp
  from ev_sort_remove(2) [OF \<open>evs_ok (map he_ev L)\<close> m] sub assms(1) show "he_good k L'"
    unfolding he_good_def by blast
qed

lemma he_good_key:
  assumes "he_good k L" "x \<in> set L" "y \<in> set L" "hk x \<le> hk y"
  shows "ev_key (he_ev x) \<le> ev_key (he_ev y)"
proof -
  have "he_s_key x < he_s_key y \<longleftrightarrow> ev_uid (he_ev x) < ev_uid (he_ev y)"
    "he_s_key y < he_s_key x \<longleftrightarrow> ev_uid (he_ev y) < ev_uid (he_ev x)"
    "he_key x = ev_time (he_ev x)" "he_key y = ev_time (he_ev y)"
    using assms(1-3) unfolding he_good_def by blast+
  with assms(4) show ?thesis
    by (auto simp: hk_def ev_key_def less_eq_hkey_def less_hkey_def)
qed

lemma he_good_insert:
  assumes "he_good k L" "newest e (map he_ev L)"
    "mset L' = add_mset \<lparr>he_key = ev_time e, he_s_key = k, he_elem = Some e\<rparr> (mset L)"
  shows "he_good (k + 1) L'" "ev_sort (map he_ev L') = ls_insert e (ev_sort (map he_ev L))"
proof -
  let ?x = "\<lparr>he_key = ev_time e, he_s_key = k, he_elem = Some e\<rparr>"
  have x: "he_ev ?x = e" by (simp add: he_ev_def)
  have L': "set L' = insert ?x (set L)" using assms(3) by (metis set_mset_mset set_mset_add_mset_insert)
  have m: "mset (map he_ev L') = add_mset e (mset (map he_ev L))" using assms(3) x by simp
  have ok: "evs_ok (map he_ev L)" using assms(1) by (simp add: he_good_def)
  from ev_sort_insert [OF ok assms(2) m] show
    "ev_sort (map he_ev L') = ls_insert e (ev_sort (map he_ev L))" by simp
  have old: "he_elem y = Some (he_ev y) \<and> he_key y = ev_time (he_ev y) \<and> he_s_key y < k \<and>
      ev_uid (he_ev y) < ev_uid e" if "y \<in> set L" for y
    using assms(1,2) that by (simp add: he_good_def newest_def)
  show "he_good (k + 1) L'"
    using ev_sort_insert(2) [OF ok assms(2) m] assms(1) old
    unfolding he_good_def L' by (auto simp: x dest!: old)
qed

lemma take_last: "n \<le> length xs \<Longrightarrow> 0 < n \<Longrightarrow> take n xs = take (n - 1) xs @ [xs ! (n - 1)]"
  by (cases n) (simp_all add: take_Suc_conv_app_nth)

lemma extract_mset:
  assumes "0 < n" "n \<le> length es"
  shows "mset (take n es) = add_mset (es ! 0) (mset (take (n - 1) (es[0 := es ! (n - 1)])))"
proof (cases "n = 1")
  case True
  with assms show ?thesis by (cases es) auto
next
  case False
  from assms obtain x xs where es: "es = x # xs" by (cases es) auto
  from assms False have "take n es = x # take (n - 2) xs @ [xs ! (n - 2)]"
    using take_last [of "n - 1" xs] es by (simp add: take_Cons' numeral_2_eq_2)
  moreover from assms False es have "take (n - 1) (es[0 := es ! (n - 1)]) = xs ! (n - 2) # take (n - 2) xs"
    by (simp add: take_Cons' nth_Cons' numeral_2_eq_2)
  ultimately show ?thesis by (simp add: es)
qed

lemma extract_ok:
  assumes "0 < h_size h" "h_size h \<le> length (h_elems h)" "hp_hole (h_size h) (hkf (h_elems h)) 0"
  shows "\<exists>h'. heap_extract_min h = (he_elem (h_elems h ! 0), h') \<and> h_size h' = h_size h - 1 \<and>
    h_s_key h' = h_s_key h \<and> h_maxsize h' = h_maxsize h \<and> length (h_elems h') = length (h_elems h) \<and>
    hp (h_size h') (hkf (h_elems h')) \<and> mset (hs_elems h) = add_mset (h_elems h ! 0) (mset (hs_elems h'))"
proof -
  let ?n = "h_size h - 1"
  let ?es = "(h_elems h)[0 := h_elems h ! ?n]"
  have "hp_down ?n (hkf ?es) 0"
    using assms(3) by (auto simp: hp_down_def hp_hole_def grand_def hkf_def)
  from heap_down_ok [OF _ this] assms(2) have d: "hp ?n (hkf (heap_down ?n ?es 0))"
    "mset (take ?n (heap_down ?n ?es 0)) = mset (take ?n ?es)" "length (heap_down ?n ?es 0) = length (h_elems h)"
    by simp_all
  then show ?thesis
    using assms(1) extract_mset [OF assms(1,2)]
    by (simp add: heap_extract_min_def Let_def hs_elems_def)
qed

lemma insert_ok:
  assumes "hs_inv (Suc n) h" "newest e (hs_abs h)"
  shows "hs_inv n (hs_insert e h) \<and> hs_abs (hs_insert e h) = ls_insert e (hs_abs h)"
proof -
  let ?x = "\<lparr>he_key = ev_time e, he_s_key = uint (h_s_key h), he_elem = Some e\<rparr>"
  define g where "g = (if h_maxsize h = h_size h then
      h\<lparr>h_maxsize := h_maxsize h * 2, h_elems := h_elems h @ replicate (h_maxsize h * 2 - h_maxsize h) heap_zero\<rparr> else h)"
  let ?i = "h_size h" and ?n = "h_size h + 1"
  have inv: "h_maxsize h = length (h_elems h)" "0 < h_maxsize h" "h_size h \<le> h_maxsize h"
    "uint (h_s_key h) + int (Suc n) < 2 ^ 32" "hp ?i (hkf (h_elems h))"
    "he_good (uint (h_s_key h)) (hs_elems h)"
    using assms(1) unfolding hs_inv_def by blast+
  have g: "h_size g = ?i" "h_s_key g = h_s_key h" "h_maxsize g = length (h_elems g)"
    "?n \<le> length (h_elems g)" "take ?i (h_elems g) = hs_elems h" "0 < h_maxsize g"
    using inv(1-3) by (auto simp: g_def hs_elems_def simp del: length_greater_0_conv)
  have same: "hkf (h_elems g) j = hkf (h_elems h) j" if "j < ?i" for j
    using that inv(1,3) by (auto simp: g_def hkf_def nth_append)
  have "hp_up ?n (hkf ((h_elems g)[?i := ?x])) ?i"
    unfolding hp_up_def grand_def
  proof (intro conjI allI impI)
    fix j assume j: "j < ?n" "0 < j" "j \<noteq> ?i"
    then have "heap_parent j < j" "j < ?i" by simp_all
    with inv(5) j(2) same [of j] same [of "heap_parent j"]
    show "hkf ((h_elems g)[?i := ?x]) (heap_parent j) \<le> hkf ((h_elems g)[?i := ?x]) j"
      by (simp add: hp_def hkf_def)
  next
    fix j assume "j < ?n" "0 < j" "heap_parent j = ?i"
    then show "hkf ((h_elems g)[?i := ?x]) (heap_parent ?i) \<le> hkf ((h_elems g)[?i := ?x]) j"
      using parent_less [of j] by simp
  qed
  moreover obtain es k where up: "heap_up (ev_time e) (uint (h_s_key h)) (h_elems g) ?i = (es, k)"
    by (cases "heap_up (ev_time e) (uint (h_s_key h)) (h_elems g) ?i")
  ultimately have r: "hp ?n (hkf (es[k := ?x]))"
    "mset (take ?n (es[k := ?x])) = mset (take ?n ((h_elems g)[?i := ?x]))" "length es = length (h_elems g)"
    using heap_up_ok [of ?i ?n "h_elems g" ?x es k] g(4) by simp_all
  let ?h = "g\<lparr>h_size := ?n, h_s_key := h_s_key h + 1, h_elems := es[k := ?x]\<rparr>"
  have ins: "hs_insert e h = ?h"
    using g(1,2) up by (simp add: hs_insert_def heap_insert_def g_def [symmetric] Let_def)
  have m: "mset (hs_elems ?h) = add_mset ?x (mset (hs_elems h))"
    using r(2) g(4,5) by (simp add: hs_elems_def take_Suc_conv_app_nth take_update_cancel)
  have new: "newest e (map he_ev (hs_elems h))"
    using assms(2) newest_set [of "hs_abs h" "map he_ev (hs_elems h)"] by (simp add: hs_abs_def)
  have word: "uint (h_s_key h + 1) = uint (h_s_key h) + 1"
    using inv(4) by (simp add: uint_word_ariths)
  from he_good_insert [OF inv(6) new m] have "he_good (uint (h_s_key h + 1)) (hs_elems ?h)"
    "hs_abs ?h = ls_insert e (hs_abs h)" by (simp_all add: word hs_abs_def)
  then show ?thesis
    using r g inv(4) word unfolding ins by (simp add: hs_inv_def)
qed

lemma member_ok:
  "heap_member_from a L i = 0 \<and> (\<forall>x\<in>set L. \<not> is_elem a x) \<or>
   (\<exists>j<length L. heap_member_from a L i = Suc (i + j) \<and> is_elem a (L ! j))"
proof (induction L arbitrary: i)
  case (Cons x L)
  then show ?case
  proof (cases "is_elem a x")
    case False
    with Cons [of "Suc i"] show ?thesis by fastforce
  qed auto
qed simp

lemma hp_hole_any: "hp n f \<Longrightarrow> i < n \<Longrightarrow> hp_hole n f i"
proof -
  assume h: "hp n f" "i < n"
  then have "f (heap_parent i) \<le> f j" if "0 < i" "j < n" "0 < j" "heap_parent j = i" for j
    using that order_trans [of "f (heap_parent i)" "f i" "f j"] by (auto simp: hp_def)
  with h show ?thesis by (simp add: hp_hole_def grand_def hp_def)
qed

lemma inv_extract:
  assumes "hs_inv n h" "mset (hs_elems g) = mset (hs_elems h)" "h_size g = h_size h" "h_s_key g = h_s_key h"
    "h_maxsize g = h_maxsize h" "length (h_elems g) = length (h_elems h)"
    "0 < h_size g" "hp_hole (h_size g) (hkf (h_elems g)) 0"
  shows "\<exists>h'. heap_extract_min g = (Some (he_ev (h_elems g ! 0)), h') \<and> hs_inv n h' \<and>
    hs_abs h' = remove1 (he_ev (h_elems g ! 0)) (hs_abs h)"
proof -
  have len: "h_size g \<le> length (h_elems g)" using assms by (simp add: hs_inv_def)
  from extract_ok [OF assms(7) len assms(8)] obtain h' where h':
    "heap_extract_min g = (he_elem (h_elems g ! 0), h')" "h_size h' = h_size g - 1" "h_s_key h' = h_s_key g"
    "h_maxsize h' = h_maxsize g" "length (h_elems h') = length (h_elems g)" "hp (h_size h') (hkf (h_elems h'))"
    "mset (hs_elems g) = add_mset (h_elems g ! 0) (mset (hs_elems h'))" by blast
  have good: "he_good (uint (h_s_key g)) (hs_elems g)"
    using assms(1,4) he_good_mset [OF assms(2)] by (simp add: hs_inv_def)
  note sub = he_good_sub [OF good h'(7)]
  have "h_elems g ! 0 \<in> set (hs_elems g)"
    using h'(7) by (metis set_mset_mset union_single_eq_member)
  with good have "he_elem (h_elems g ! 0) = Some (he_ev (h_elems g ! 0))" unfolding he_good_def by blast
  moreover have "hs_inv n h'"
    using assms(1,3-6) h' sub(1) by (auto simp: hs_inv_def)
  moreover have "hs_abs g = hs_abs h"
  proof -
    have "evs_ok (map he_ev (hs_elems g))" using good by (simp add: he_good_def)
    then have "ls_ok (hs_abs g)" by (simp add: hs_abs_def ev_sort_ok)
    moreover have "mset (hs_abs g) = mset (map he_ev (hs_elems h))" using assms(2) by (simp add: hs_abs_def)
    ultimately show ?thesis unfolding hs_abs_def [of h] by (rule ev_sort_unique [symmetric])
  qed
  ultimately show ?thesis using h'(1) sub(2) by (simp add: hs_abs_def)
qed

lemma hs_deque_ok:
  assumes "hs_inv n h"
  shows "\<exists>h'. hs_deque h = (case hs_abs h of [] \<Rightarrow> None | e # _ \<Rightarrow> Some e, h') \<and> hs_inv n h' \<and> hs_abs h' = tl (hs_abs h)"
proof (cases "h_size h = 0")
  case True
  then have "hs_abs h = []" by (simp add: hs_abs_def hs_elems_def ev_sort_def)
  with True assms show ?thesis by (simp add: hs_deque_def heap_extract_min_def)
next
  case False
  have h: "hp (h_size h) (hkf (h_elems h))" "h_size h \<le> length (h_elems h)"
    "he_good (uint (h_s_key h)) (hs_elems h)" using assms by (simp_all add: hs_inv_def)
  let ?r = "h_elems h ! 0"
  from extract_mset [of "h_size h" "h_elems h"] False h(2) obtain L where
    L: "mset (hs_elems h) = add_mset ?r (mset L)" by (auto simp: hs_elems_def)
  have root: "?r \<in> set (hs_elems h)" using L by (metis set_mset_mset union_single_eq_member)
  have small: "ev_key (he_ev ?r) \<le> ev_key (he_ev x)" if "x \<in> set (hs_elems h)" for x
  proof (rule he_good_key [OF h(3) root that])
    from that obtain i where "i < h_size h" "x = h_elems h ! i"
      by (auto simp: hs_elems_def in_set_conv_nth)
    with hp_root_min [OF h(1)] show "hk ?r \<le> hk x" by (simp add: hkf_def)
  qed
  have "set L \<subseteq> set (hs_elems h)" using L by (metis set_mset_mset set_mset_add_mset_insert subset_insertI)
  with small have "\<forall>x\<in>set (map he_ev L). ev_key (he_ev ?r) \<le> ev_key x" by auto
  moreover have "evs_ok (map he_ev (hs_elems h))" using h(3) by (simp add: he_good_def)
  ultimately have "hs_abs h = he_ev ?r # ev_sort (map he_ev L)"
    unfolding hs_abs_def using L by (intro ev_sort_min) simp_all
  with inv_extract [OF assms refl refl refl refl refl _ hp_hole_any [OF h(1)]] False show ?thesis
    by (simp add: hs_deque_def)
qed

lemma hs_cancel_ok:
  assumes "hs_inv n h" "e \<in> set (hs_abs h)"
  shows "\<exists>h'. hs_cancel e h = Some h' \<and> hs_inv n h' \<and> hs_abs h' = remove1 e (hs_abs h)"
proof -
  have h: "hp (h_size h) (hkf (h_elems h))" "h_size h \<le> length (h_elems h)"
    "he_good (uint (h_s_key h)) (hs_elems h)" using assms by (simp_all add: hs_inv_def)
  have len: "length (hs_elems h) = h_size h" using h(2) by (simp add: hs_elems_def)
  from assms(2) obtain x where x: "x \<in> set (hs_elems h)" "he_ev x = e" by (auto simp: hs_abs_def)
  have elem: "is_elem a y \<longleftrightarrow> ev_addr (he_ev y) = a" if "y \<in> set (hs_elems h)" for a y
  proof -
    have "he_elem y = Some (he_ev y)" using h(3) that unfolding he_good_def by blast
    then show ?thesis by (simp add: is_elem_def)
  qed
  from member_ok [of "ev_addr e" "hs_elems h" 0] x elem obtain j where
    j: "j < h_size h" "heap_member (ev_addr e) h = Suc j" "is_elem (ev_addr e) (hs_elems h ! j)"
    by (auto simp: heap_member_def hs_elems_def [symmetric] len)
  have nth: "hs_elems h ! j = h_elems h ! j" using j(1) by (simp add: hs_elems_def)
  have "he_ev (h_elems h ! j) = e"
  proof -
    have "h_elems h ! j \<in> set (hs_elems h)" using j(1) len nth by (metis nth_mem)
    moreover from this have "ev_addr (he_ev (h_elems h ! j)) = ev_addr e" using elem j(3) nth by simp
    moreover have "inj_on ev_addr (set (map he_ev (hs_elems h)))"
      using h(3) distinct_map [of ev_addr "map he_ev (hs_elems h)"] unfolding he_good_def evs_ok_def by blast
    ultimately show ?thesis using x by (auto dest: inj_onD)
  qed
  moreover from heap_to_root_ok [OF j(1) h(2) hp_hole_any [OF h(1) j(1)]] have
    "hp_hole (h_size h) (hkf (heap_to_root (h_elems h) j)) 0" "heap_to_root (h_elems h) j ! 0 = h_elems h ! j"
    "mset (take (h_size h) (heap_to_root (h_elems h) j)) = mset (hs_elems h)"
    "length (heap_to_root (h_elems h) j) = length (h_elems h)" by (simp_all add: hs_elems_def)
  ultimately show ?thesis
    using inv_extract [OF assms(1), of "h\<lparr>h_elems := heap_to_root (h_elems h) j\<rparr>"] j(1,2)
    by (auto simp: hs_cancel_def heap_delete_def hs_elems_def)
qed

lemma lookup_from_ok:
  assumes "\<forall>x\<in>set (hs_elems h). he_elem x = Some (he_ev x)" "h_size h \<le> length (h_elems h)"
    "i < h_size h" "h_iter h = Suc i" "d = h_size h - i"
  shows "hs_lookup_from u (he_elem (h_elems h ! i)) h = ls_lookup u (drop i (map he_ev (hs_elems h)))"
  using assms
proof (induction d arbitrary: i h)
  case (Suc d)
  have len: "length (hs_elems h) = h_size h" using Suc.prems(2) by (simp add: hs_elems_def)
  have nth: "hs_elems h ! i = h_elems h ! i" using Suc.prems(3) by (simp add: hs_elems_def)
  have e: "he_elem (h_elems h ! i) = Some (he_ev (h_elems h ! i))"
    using Suc.prems(1,3) len nth by (metis nth_mem)
  have drop: "drop i (map he_ev (hs_elems h)) = he_ev (h_elems h ! i) # drop (Suc i) (map he_ev (hs_elems h))"
    using Suc.prems(3) len nth by (simp add: Cons_nth_drop_Suc [symmetric])
  show ?case
  proof (cases "ev_uid (he_ev (h_elems h ! i)) = u")
    case True
    with e drop show ?thesis by (subst hs_lookup_from.simps) simp
  next
    case False
    show ?thesis
    proof (cases "Suc i < h_size h")
      case True
      let ?h = "h\<lparr>h_iter := Suc (Suc i)\<rparr>"
      have "hs_lookup_from u (he_elem (h_elems ?h ! Suc i)) ?h = ls_lookup u (drop (Suc i) (map he_ev (hs_elems ?h)))"
        using Suc.prems True by (intro Suc.IH) (simp_all add: hs_elems_def)
      with True False e drop Suc.prems(4) show ?thesis
        by (subst hs_lookup_from.simps) (simp add: heap_iter_def hs_elems_def)
    next
      case last: False
      then have "drop (Suc i) (map he_ev (hs_elems h)) = []" using len by simp
      with last False e drop Suc.prems(4) show ?thesis
        by (subst hs_lookup_from.simps) (simp add: heap_iter_def hs_lookup_from.simps [of u None])
    qed
  qed
qed simp

lemma hs_lookup_ok:
  assumes "hs_inv n h"
  shows "hs_lookup u h = ls_lookup u (hs_abs h)"
proof -
  have h: "h_size h \<le> length (h_elems h)" "he_good (uint (h_s_key h)) (hs_elems h)"
    using assms by (simp_all add: hs_inv_def)
  have es: "\<forall>x\<in>set (hs_elems h). he_elem x = Some (he_ev x)" "distinct (map ev_uid (map he_ev (hs_elems h)))"
    using h(2) unfolding he_good_def evs_ok_def by blast+
  have "hs_lookup u h = ls_lookup u (map he_ev (hs_elems h))"
  proof (cases "h_size h = 0")
    case True
    then show ?thesis
      by (simp add: hs_lookup_def heap_iter_init_def heap_min_def hs_elems_def hs_lookup_from.simps [of u None])
  next
    case False
    let ?h = "h\<lparr>h_iter := 1\<rparr>"
    have e: "hs_elems ?h = hs_elems h" "h_elems ?h = h_elems h" by (simp_all add: hs_elems_def)
    have "hs_lookup_from u (he_elem (h_elems ?h ! 0)) ?h = ls_lookup u (drop 0 (map he_ev (hs_elems ?h)))"
      by (rule lookup_from_ok) (use es(1) h(1) False e in simp_all)
    with False show ?thesis unfolding e by (simp add: hs_lookup_def heap_iter_init_def heap_min_def)
  qed
  also have "\<dots> = ls_lookup u (hs_abs h)"
  proof (rule ls_lookup_set [OF es(2)])
    have "evs_ok (map he_ev (hs_elems h))" using h(2) by (simp add: he_good_def)
    then have "ls_ok (hs_abs h)" by (simp add: hs_abs_def ev_sort_ok)
    then show "distinct (map ev_uid (hs_abs h))" by (simp add: ls_ok_def)
  qed (simp add: hs_abs_def)
  finally show ?thesis .
qed

interpretation hs: event_queue hs_inv hs_abs hs_insert hs_cancel hs_deque hs_lookup
proof (unfold_locales, goal_cases)
  case (1 n q)
  then show ?case by (simp add: hs_inv_def he_good_def hs_abs_def ev_sort_ok)
next
  case (2 n q)
  then show ?case by (auto simp: hs_inv_def)
next
  case (3 n q e)
  then show ?case by (rule insert_ok)
next
  case (4 n q e)
  then show ?case by (rule hs_cancel_ok)
next
  case (5 n q)
  then show ?case by (rule hs_deque_ok)
next
  case (6 n q u)
  then show ?case by (rule hs_lookup_ok)
qed

lemma hs_inv_new:
  assumes "0 < k" "n < 2 ^ 32"
  shows "hs_inv n (heap_new k)" "hs_abs (heap_new k) = []"
  using assms
  by (simp_all add: hs_inv_def heap_new_def hs_abs_def hs_elems_def hp_def he_good_def evs_ok_def ev_sort_def)

end
