(* ===== verification/SplaySched.thy ===== *)
theory SplaySched
  imports SchedRefine "HOL-Library.Tree"
begin

text \<open>
  SplayScheduler of common/splay-scheduler.cc.  \<open>prev_\<close> and \<open>next_\<close> of an event are the
  children of its node, so the queue is a binary tree; the bottom of the left and of the right
  tree, where top-down splaying appends, is the hole of a context that is kept as the list of
  the nodes above it, innermost first.
\<close>

type_synonym left_ctx = "(event tree \<times> event) list"
type_synonym right_ctx = "(event \<times> event tree) list"

record splay =
  sp_root :: "event tree"
  sp_qsize :: int

definition splay_new :: splay where
  "splay_new = \<lparr>sp_root = Leaf, sp_qsize = 0\<rparr>"

subsection \<open>Operations\<close>

fun fill_left :: "left_ctx \<Rightarrow> event tree \<Rightarrow> event tree" where
  "fill_left [] t = t"
| "fill_left ((l, e) # lc) t = fill_left lc (Node l e t)"

fun fill_right :: "right_ctx \<Rightarrow> event tree \<Rightarrow> event tree" where
  "fill_right [] t = t"
| "fill_right ((e, r) # rc) t = fill_right rc (Node t e r)"

definition rotate_right :: "event tree \<Rightarrow> event tree" where
  "rotate_right t = (case t of Node (Node xl x xr) e r \<Rightarrow> Node xl x (Node xr e r) | _ \<Rightarrow> t)"

definition rotate_left :: "event tree \<Rightarrow> event tree" where
  "rotate_left t = (case t of Node l e (Node xl x xr) \<Rightarrow> Node (Node l e xl) x xr | _ \<Rightarrow> t)"

text \<open>The loop of \<open>insert\<close>; the result is the pair of the left and the right tree.\<close>

function splay_loop :: "real \<Rightarrow> event tree \<Rightarrow> left_ctx \<Rightarrow> right_ctx \<Rightarrow> event tree \<times> event tree" where
  "splay_loop time Leaf lc rc = (fill_left lc Leaf, fill_right rc Leaf)"
| "splay_loop time (Node l e r) lc rc =
     (if time < ev_time e then
        (case l of
           Leaf \<Rightarrow> (fill_left lc Leaf, fill_right rc (Node l e r))
         | Node xl x xr \<Rightarrow>
             (case (if time < ev_time x then rotate_right (Node l e r) else Node l e r) of
                Leaf \<Rightarrow> (fill_left lc Leaf, fill_right rc Leaf)
              | Node ta te tb \<Rightarrow>
                  let rc = (te, tb) # rc in
                  if ta = Leaf then (fill_left lc Leaf, fill_right rc Leaf)
                  else splay_loop time ta lc rc))
      else
        (case r of
           Leaf \<Rightarrow> (fill_left lc (Node l e r), fill_right rc Leaf)
         | Node xl x xr \<Rightarrow>
             (case (if time \<ge> ev_time x then rotate_left (Node l e r) else Node l e r) of
                Leaf \<Rightarrow> (fill_left lc Leaf, fill_right rc Leaf)
              | Node ta te tb \<Rightarrow>
                  let lc = (ta, te) # lc in
                  if tb = Leaf then (fill_left lc Leaf, fill_right rc Leaf)
                  else splay_loop time tb lc rc)))"
  by pat_completeness auto
termination
  by (relation "measure (\<lambda>(time, t, lc, rc). size t)")
    (auto simp: rotate_right_def rotate_left_def split: if_splits)

definition sp_insert :: "event \<Rightarrow> splay \<Rightarrow> splay" where
  "sp_insert n s =
     (let s = s\<lparr>sp_qsize := sp_qsize s + 1\<rparr> in
      case sp_root s of
        Leaf \<Rightarrow> s\<lparr>sp_root := Node Leaf n Leaf\<rparr>
      | t \<Rightarrow> (case splay_loop (ev_time n) t [] [] of
                (l, r) \<Rightarrow> s\<lparr>sp_root := Node l n r\<rparr>))"

fun leftmost :: "event tree \<Rightarrow> event option" where
  "leftmost Leaf = None"
| "leftmost (Node l e r) = (if l = Leaf then Some e else leftmost l)"

definition sp_head :: "splay \<Rightarrow> event option" where
  "sp_head s = leftmost (sp_root s)"

text \<open>The loop of \<open>deque\<close> on a left child: the event, and what replaces the child.\<close>

fun deque_left :: "event tree \<Rightarrow> (event \<times> event tree) option" where
  "deque_left Leaf = None"
| "deque_left (Node Leaf l r) = Some (l, r)"
| "deque_left (Node (Node Leaf ll llr) l r) = Some (ll, Node llr l r)"
| "deque_left (Node (Node (Node a lll b) ll llr) l r) =
     map_option (\<lambda>(e, t). (e, Node t ll (Node llr l r))) (deque_left (Node a lll b))"

definition sp_deque :: "splay \<Rightarrow> event option \<times> splay" where
  "sp_deque s = (case sp_root s of
     Leaf \<Rightarrow> (None, s)
   | Node l e r \<Rightarrow>
       let s = s\<lparr>sp_qsize := sp_qsize s - 1\<rparr> in
       (case deque_left l of
          None \<Rightarrow> (Some e, s\<lparr>sp_root := r\<rparr>)
        | Some (x, l) \<Rightarrow> (Some x, s\<lparr>sp_root := Node l e r\<rparr>)))"

text \<open>\<open>cancel\<close>: the successor of the event takes its place.\<close>

fun take_min :: "event tree \<Rightarrow> (event \<times> event tree) option" where
  "take_min Leaf = None"
| "take_min (Node Leaf e r) = Some (e, r)"
| "take_min (Node l e r) = map_option (\<lambda>(q, t). (q, Node t e r)) (take_min l)"

definition sp_unlink :: "event tree \<Rightarrow> event tree \<Rightarrow> event tree" where
  "sp_unlink l r =
     (if r = Leaf then l
      else if l = Leaf then r
      else (case r of
              Node Leaf p pr \<Rightarrow> Node l p pr
            | _ \<Rightarrow> (case take_min r of Some (q, t) \<Rightarrow> Node l q t | None \<Rightarrow> l)))"

fun cancel_in :: "event \<Rightarrow> event tree \<Rightarrow> event tree option" where
  "cancel_in e Leaf = None"
| "cancel_in e (Node l x r) =
     (if ev_addr x = ev_addr e then Some (sp_unlink l r)
      else if ev_time e > ev_time x \<or> ev_time e = ev_time x \<and> ev_uid e > ev_uid x
      then map_option (Node l x) (cancel_in e r)
      else map_option (\<lambda>l. Node l x r) (cancel_in e l))"

definition sp_cancel :: "event \<Rightarrow> splay \<Rightarrow> splay option" where
  "sp_cancel e s =
     map_option (\<lambda>t. s\<lparr>sp_root := t, sp_qsize := sp_qsize s - 1\<rparr>) (cancel_in e (sp_root s))"

fun uid_lookup :: "int \<Rightarrow> event tree \<Rightarrow> event option" where
  "uid_lookup u Leaf = None"
| "uid_lookup u (Node l e r) =
     (if ev_uid e = u then Some e
      else case uid_lookup u l of Some res \<Rightarrow> Some res | None \<Rightarrow> uid_lookup u r)"

definition sp_lookup :: "int \<Rightarrow> splay \<Rightarrow> event option" where
  "sp_lookup u s = uid_lookup u (sp_root s)"

text \<open>\<open>validate\<close>: the size of the tree, unless an assertion fails.\<close>

fun sp_validate :: "event tree \<Rightarrow> int option" where
  "sp_validate Leaf = Some 0"
| "sp_validate (Node l e r) =
     (if (l \<noteq> Leaf \<longrightarrow> ev_time e \<ge> ev_time (value l)) \<and> (r \<noteq> Leaf \<longrightarrow> ev_time e \<le> ev_time (value r)) then
        (case (sp_validate l, sp_validate r) of
           (Some m, Some n) \<Rightarrow> Some (1 + m + n)
         | _ \<Rightarrow> None)
      else None)"

subsection \<open>SplayScheduler meets the contract\<close>

definition below :: "real \<Rightarrow> event list \<Rightarrow> event list" where
  "below t = takeWhile (\<lambda>x. \<not> t < ev_time x)"

definition above :: "real \<Rightarrow> event list \<Rightarrow> event list" where
  "above t = dropWhile (\<lambda>x. \<not> t < ev_time x)"

lemma ls_insert_split: "ls_insert e xs = below (ev_time e) xs @ e # above (ev_time e) xs"
  by (induction xs) (auto simp: below_def above_def)

lemma split_nil [simp]: "below t [] = []" "above t [] = []"
  by (simp_all add: below_def above_def)

lemma split_high:
  "t < ev_time y \<Longrightarrow> below t (xs @ y # ys) = below t xs \<and> above t (xs @ y # ys) = above t xs @ y # ys"
  by (simp add: below_def above_def takeWhile_append dropWhile_append)
    (metis takeWhile_eq_all_conv)

lemma split_low:
  "sorted (map ev_time (xs @ [y])) \<Longrightarrow> \<not> t < ev_time y \<Longrightarrow>
   below t (xs @ y # ys) = xs @ y # below t ys \<and> above t (xs @ y # ys) = above t ys"
  by (auto simp: below_def above_def sorted_append takeWhile_append dropWhile_append)

fun ctx_left :: "left_ctx \<Rightarrow> event list" where
  "ctx_left [] = []"
| "ctx_left ((l, e) # lc) = ctx_left lc @ inorder l @ [e]"

fun ctx_right :: "right_ctx \<Rightarrow> event list" where
  "ctx_right [] = []"
| "ctx_right ((e, r) # rc) = e # inorder r @ ctx_right rc"

lemma inorder_fill [simp]:
  fixes lc :: left_ctx and rc :: right_ctx
  shows "inorder (fill_left lc t) = ctx_left lc @ inorder t"
  "inorder (fill_right rc t) = inorder t @ ctx_right rc"
proof -
  show "inorder (fill_left lc t) = ctx_left lc @ inorder t"
    by (induction lc t rule: fill_left.induct) simp_all
  show "inorder (fill_right rc t) = inorder t @ ctx_right rc"
    by (induction rc t rule: fill_right.induct) simp_all
qed

text \<open>The passes of the loop.\<close>

lemma splay_steps:
  "time < ev_time e \<Longrightarrow> splay_loop time (Node Leaf e r) lc rc = (fill_left lc Leaf, fill_right rc (Node Leaf e r))"
  "time < ev_time e \<Longrightarrow> time < ev_time x \<Longrightarrow> splay_loop time (Node (Node xl x xr) e r) lc rc =
     (if xl = Leaf then (fill_left lc Leaf, fill_right ((x, Node xr e r) # rc) Leaf)
      else splay_loop time xl lc ((x, Node xr e r) # rc))"
  "time < ev_time e \<Longrightarrow> \<not> time < ev_time x \<Longrightarrow> splay_loop time (Node (Node xl x xr) e r) lc rc =
     splay_loop time (Node xl x xr) lc ((e, r) # rc)"
  "\<not> time < ev_time e \<Longrightarrow> splay_loop time (Node l e Leaf) lc rc = (fill_left lc (Node l e Leaf), fill_right rc Leaf)"
  "\<not> time < ev_time e \<Longrightarrow> ev_time x \<le> time \<Longrightarrow> splay_loop time (Node l e (Node xl x xr)) lc rc =
     (if xr = Leaf then (fill_left ((Node l e xl, x) # lc) Leaf, fill_right rc Leaf)
      else splay_loop time xr ((Node l e xl, x) # lc) rc)"
  "\<not> time < ev_time e \<Longrightarrow> \<not> ev_time x \<le> time \<Longrightarrow> splay_loop time (Node l e (Node xl x xr)) lc rc =
     splay_loop time (Node xl x xr) ((l, e) # lc) rc"
  by (subst splay_loop.simps, simp add: rotate_right_def rotate_left_def Let_def del: splay_loop.simps)+

declare splay_loop.simps(2) [simp del]

lemma sorted_part: "sorted (map ev_time (xs @ ys)) \<Longrightarrow> sorted (map ev_time xs) \<and> sorted (map ev_time ys)"
  by (simp add: sorted_append)

text \<open>Splaying splits the events at the new time and keeps their order.\<close>

lemma splay_loop_inorder:
  assumes "sorted (map ev_time (inorder t))"
  shows "inorder (fst (splay_loop time t lc rc)) = ctx_left lc @ below time (inorder t) \<and>
    inorder (snd (splay_loop time t lc rc)) = above time (inorder t) @ ctx_right rc"
  using assms
proof (induction time t lc rc rule: splay_loop.induct)
  case (1 time lc rc)
  then show ?case by simp
next
  case (2 time l e r lc rc)
  show ?case
  proof (cases "time < ev_time e")
    case True
    note hi = split_high [OF True]
    show ?thesis
    proof (cases l)
      case Leaf
      with True hi [of "[]" "inorder r"] show ?thesis by (simp add: splay_steps)
    next
      case (Node xl x xr)
      show ?thesis
      proof (cases "time < ev_time x")
        case rot: True
        note hx = split_high [OF rot, of "inorder xl" "inorder xr @ e # inorder r"]
        have so: "sorted (map ev_time (inorder xl))" using "2.prems" Node by (simp add: sorted_append)
        show ?thesis
        proof (cases "xl = Leaf")
          case leaf: True
          with True rot Node hx show ?thesis by (simp add: splay_steps)
        next
          case False
          with "2.IH"(1) [OF True Node] rot so hx True Node show ?thesis by (simp add: splay_steps rotate_right_def)
        qed
      next
        case rot: False
        have so: "sorted (map ev_time (inorder l))" using "2.prems" by (simp add: sorted_append)
        with "2.IH"(1) [OF True Node] rot hi [of "inorder l" "inorder r"] True Node show ?thesis by (simp add: splay_steps)
      qed
    qed
  next
    case False
    have lo: "below time (inorder l @ e # ys) = inorder l @ e # below time ys \<and>
        above time (inorder l @ e # ys) = above time ys" for ys
      using "2.prems" False by (intro split_low) (simp_all add: sorted_append)
    show ?thesis
    proof (cases r)
      case Leaf
      with False lo [of "[]"] show ?thesis by (simp add: splay_steps)
    next
      case (Node xl x xr)
      show ?thesis
      proof (cases "time \<ge> ev_time x")
        case rot: True
        have lx: "below time (inorder l @ e # inorder xl @ x # inorder xr) = inorder l @ e # inorder xl @ x # below time (inorder xr) \<and>
            above time (inorder l @ e # inorder xl @ x # inorder xr) = above time (inorder xr)"
          using split_low [of "inorder l @ e # inorder xl" x time "inorder xr"] "2.prems" Node rot
          by (simp add: sorted_append)
        have so: "sorted (map ev_time (inorder xr))" using "2.prems" Node by (simp add: sorted_append)
        show ?thesis
        proof (cases "xr = Leaf")
          case leaf: True
          with False rot Node lx show ?thesis by (simp add: splay_steps)
        next
          case no: False
          with "2.IH"(2) [OF False Node] rot so lx False Node show ?thesis by (simp add: splay_steps rotate_left_def)
        qed
      next
        case rot: False
        have so: "sorted (map ev_time (inorder r))" using "2.prems" by (simp add: sorted_append)
        with "2.IH"(2) [OF False Node] rot lo [of "inorder r"] False Node show ?thesis by (simp add: splay_steps)
      qed
    qed
  qed
qed

definition sp_abs :: "splay \<Rightarrow> event list" where
  "sp_abs s = inorder (sp_root s)"

definition sp_inv :: "nat \<Rightarrow> splay \<Rightarrow> bool" where
  "sp_inv n s \<longleftrightarrow> ls_ok (sp_abs s) \<and> sp_qsize s = int (length (sp_abs s))"

lemma ls_ok_times: "ls_ok xs \<Longrightarrow> sorted (map ev_time xs)"
  unfolding ls_ok_def sorted_map by (auto elim!: sorted_wrt_mono_rel [rotated] simp: ev_before_def)

lemma ls_ok_append: "ls_ok (xs @ ys) \<Longrightarrow> ls_ok xs \<and> ls_ok ys"
  by (auto simp: ls_ok_def sorted_wrt_append)

lemma length_ls_insert [simp]: "length (ls_insert e xs) = Suc (length xs)"
  by (induction xs) auto

lemma sp_insert_ok:
  assumes "sp_inv m s" "newest n (sp_abs s)"
  shows "sp_inv k (sp_insert n s) \<and> sp_abs (sp_insert n s) = ls_insert n (sp_abs s)"
proof -
  have "inorder (sp_root (sp_insert n s)) = ls_insert n (sp_abs s)"
  proof (cases "sp_root s")
    case Leaf
    then show ?thesis by (simp add: sp_insert_def sp_abs_def)
  next
    case (Node l e r)
    have "sorted (map ev_time (inorder (sp_root s)))"
      using assms(1) ls_ok_times by (simp add: sp_inv_def sp_abs_def)
    from splay_loop_inorder [OF this, of "ev_time n" "[]" "[]"] Node show ?thesis
      by (simp add: sp_insert_def sp_abs_def ls_insert_split case_prod_beta Let_def)
  qed
  moreover have "sp_qsize (sp_insert n s) = sp_qsize s + 1"
    by (simp add: sp_insert_def Let_def split: tree.split prod.split)
  ultimately show ?thesis
    using assms ls_insert_ok by (simp add: sp_inv_def sp_abs_def)
qed

lemma deque_left_inorder: "deque_left l = Some (x, l') \<Longrightarrow> inorder l = x # inorder l'"
  by (induction l arbitrary: x l' rule: deque_left.induct) auto

lemma deque_left_None: "deque_left l = None \<longleftrightarrow> l = Leaf"
  by (induction l rule: deque_left.induct) auto

lemma sp_deque_ok:
  assumes "sp_inv n s"
  shows "\<exists>s'. sp_deque s = (case sp_abs s of [] \<Rightarrow> None | e # _ \<Rightarrow> Some e, s') \<and> sp_inv n s' \<and> sp_abs s' = tl (sp_abs s)"
proof (cases "sp_root s")
  case Leaf
  with assms show ?thesis by (simp add: sp_deque_def sp_abs_def)
next
  case (Node l e r)
  show ?thesis
  proof (cases "deque_left l")
    case None
    with Node assms show ?thesis
      using ls_ok_tl [of "sp_abs s"] by (simp add: sp_deque_def sp_abs_def sp_inv_def deque_left_None)
  next
    case (Some p)
    obtain x l' where p: "p = (x, l')" by (cases p)
    with Some deque_left_inorder have "inorder l = x # inorder l'" by simp
    with Node Some p assms show ?thesis
      using ls_ok_tl [of "sp_abs s"] by (simp add: sp_deque_def sp_abs_def sp_inv_def)
  qed
qed

lemma take_min_inorder: "t \<noteq> Leaf \<Longrightarrow> \<exists>q t'. take_min t = Some (q, t') \<and> inorder t = q # inorder t'"
  by (induction t rule: take_min.induct) auto

lemma sp_unlink_inorder: "inorder (sp_unlink l r) = inorder l @ inorder r"
proof (cases r)
  case (Node rl p pr)
  with take_min_inorder [of r] show ?thesis
    by (auto simp: sp_unlink_def split: tree.split)
qed (simp add: sp_unlink_def)

lemma cancel_in_ok:
  assumes "ls_ok (inorder t)" "e \<in> set (inorder t)"
  shows "\<exists>t'. cancel_in e t = Some t' \<and> inorder t' = remove1 e (inorder t)"
  using assms
proof (induction t)
  case (Node l x r)
  have ok: "ls_ok (inorder l)" "ls_ok (inorder r)"
    using Node.prems(1) ls_ok_append [of "inorder l" "x # inorder r"] ls_ok_tl [of "x # inorder r"] by auto
  have addr: "ev_addr ` set (inorder l) \<inter> ev_addr ` set (inorder r) = {}" "ev_addr x \<notin> ev_addr ` set (inorder l)"
    "ev_addr x \<notin> ev_addr ` set (inorder r)" using Node.prems(1) by (simp_all add: ls_ok_def)
  have ord: "\<forall>y\<in>set (inorder l). ev_before y x" "\<forall>y\<in>set (inorder r). ev_before x y"
    using Node.prems(1) by (simp_all add: ls_ok_def sorted_wrt_append)
  consider "e = x" | "e \<in> set (inorder l)" | "e \<in> set (inorder r)" using Node.prems(2) by auto
  then show ?case
  proof cases
    case 1
    with addr(2) have "e \<notin> set (inorder l)" by (metis imageI)
    with 1 show ?thesis by (simp add: sp_unlink_inorder remove1_append)
  next
    case 2
    then have "ev_before e x" "ev_addr x \<noteq> ev_addr e" using ord addr by (auto simp: image_iff)
    with Node.IH(1) [OF ok(1) 2] 2 show ?thesis by (auto simp: ev_before_def remove1_append)
  next
    case 3
    then have "ev_before x e" "ev_addr x \<noteq> ev_addr e" "e \<noteq> x" using ord addr by (auto simp: image_iff)
    moreover from this 3 addr(1) have "e \<notin> set (inorder l)" by (metis disjoint_iff imageI)
    ultimately show ?thesis using Node.IH(2) [OF ok(2) 3] by (auto simp: ev_before_def remove1_append)
  qed
qed simp

lemma uid_lookup_iff:
  assumes "distinct (map ev_uid (inorder t))"
  shows "uid_lookup u t = ls_lookup u (inorder t)"
  using assms
proof (induction t)
  case (Node l e r)
  have app: "ls_lookup u (xs @ ys) = (case ls_lookup u xs of None \<Rightarrow> ls_lookup u ys | Some x \<Rightarrow> Some x)" for xs ys
    by (induction xs) auto
  have in_l: "ls_lookup u xs = Some x \<Longrightarrow> ev_uid x = u \<and> x \<in> set xs" for xs x
    by (induction xs) (auto split: if_splits)
  from Node show ?case by (auto simp: app split: option.splits dest!: in_l)
qed simp

interpretation sp: event_queue sp_inv sp_abs sp_insert sp_cancel sp_deque sp_lookup
proof (unfold_locales, goal_cases)
  case (3 n q e)
  then show ?case by (rule sp_insert_ok)
next
  case (4 n q e)
  then obtain t where t: "cancel_in e (sp_root q) = Some t" "inorder t = remove1 e (inorder (sp_root q))"
    using cancel_in_ok by (auto simp: sp_inv_def sp_abs_def)
  have in_q: "e \<in> set (inorder (sp_root q))" using 4 by (simp add: sp_abs_def)
  from length_pos_if_in_set [OF in_q] have "int (length (inorder t)) = int (length (inorder (sp_root q))) - 1"
    unfolding t(2) length_remove1 using in_q by (simp add: of_nat_diff)
  then have "int (size t) = int (size (sp_root q)) - 1" by simp
  with 4 t ls_ok_remove1 show ?case
    by (auto simp: sp_cancel_def sp_abs_def sp_inv_def)
next
  case (5 n q)
  then show ?case by (rule sp_deque_ok)
next
  case (6 n q u)
  then show ?case by (simp add: sp_lookup_def sp_abs_def uid_lookup_iff sp_inv_def ls_ok_def)
qed (simp_all add: sp_inv_def)

lemma sp_inv_new: "sp_inv n splay_new" "sp_abs splay_new = []"
  by (simp_all add: sp_inv_def splay_new_def sp_abs_def ls_ok_def)

text \<open>The debugging check passes on every tree the scheduler builds, and counts its nodes.\<close>

lemma validate_ok: "sorted (map ev_time (inorder t)) \<Longrightarrow> sp_validate t = Some (int (size t))"
proof (induction t)
  case (Node l e r)
  then have "sp_validate l = Some (int (size l))" "sp_validate r = Some (int (size r))"
    by (simp_all add: sorted_append)
  moreover have "l \<noteq> Leaf \<Longrightarrow> ev_time (value l) \<le> ev_time e"
    using Node.prems by (cases l) (auto simp: sorted_append)
  moreover have "r \<noteq> Leaf \<Longrightarrow> ev_time e \<le> ev_time (value r)"
    using Node.prems by (cases r) (auto simp: sorted_append)
  ultimately show ?case by simp
qed simp

end
