(* ===== verification/CalendarSched.thy ===== *)
theory CalendarSched
  imports EventSort
begin

text \<open>
  CalendarScheduler of common/scheduler.h and common/scheduler.cc: a hash table of event lists
  by time.  A bucket is a circular doubly linked list in the code, a list from \<open>list_\<close> on
  here.  \<open>cal_abort\<close> tells that an assertion has failed (the program is gone; what the other
  fields hold is then of no account).
\<close>

record bucket =
  b_list :: "event list"
  b_count :: int

record cal =
  cal_min_bin_width :: real
  cal_adjust :: nat
  cal_time_to_newwidth :: nat
  cal_head_search :: nat
  cal_insert_search :: nat
  cal_round_num :: int
  cal_gap_num :: int
  cal_last_time :: real
  cal_avg_gap :: real
  cal_width :: real
  cal_diff0 :: real
  cal_diff1 :: real
  cal_diff2 :: real
  cal_stat_qsize :: int
  cal_nbuckets :: nat
  cal_lastbucket :: nat
  cal_top_threshold :: int
  cal_bot_threshold :: int
  cal_buckets :: "bucket list"
  cal_qsize :: int
  cal_clock :: real
  cal_abort :: bool

definition CALENDAR_HASH :: "real \<Rightarrow> nat \<Rightarrow> real \<Rightarrow> nat" where
  "CALENDAR_HASH width nbuckets t = nat (to_int (c_fmod (t / width) (real nbuckets)))"

definition cal_hash :: "cal \<Rightarrow> real \<Rightarrow> nat" where
  "cal_hash c t = CALENDAR_HASH (cal_width c) (cal_nbuckets c) t"

definition cal_assert :: "bool \<Rightarrow> cal \<Rightarrow> cal" where
  "cal_assert b c = (if b then c else c\<lparr>cal_abort := True\<rparr>)"

definition cal_reinit :: "nat \<Rightarrow> real \<Rightarrow> real \<Rightarrow> cal \<Rightarrow> cal" where
  "cal_reinit nbuck bwidth start c =
     c\<lparr>cal_buckets := replicate nbuck \<lparr>b_list = [], b_count = 0\<rparr>,
       cal_width := bwidth, cal_nbuckets := nbuck, cal_qsize := 0, cal_stat_qsize := 0,
       cal_lastbucket := CALENDAR_HASH bwidth nbuck start,
       cal_diff0 := bwidth * real nbuck / 2,
       cal_diff1 := bwidth * real nbuck / 2 + bwidth,
       cal_diff2 := bwidth * real nbuck,
       cal_bot_threshold := int (nbuck div 2) - 2,
       cal_top_threshold := 2 * int nbuck\<rparr>"

text \<open>A bucket gains an event, whose time is new in it or not.\<close>

definition cal_put :: "nat \<Rightarrow> event list \<Rightarrow> bool \<Rightarrow> cal \<Rightarrow> cal" where
  "cal_put i es unique c =
     (let b = cal_buckets c ! i in
      c\<lparr>cal_buckets := (cal_buckets c)[i := b\<lparr>b_list := es, b_count := b_count b + of_bool unique\<rparr>],
        cal_stat_qsize := cal_stat_qsize c + of_bool unique,
        cal_qsize := cal_qsize c + 1\<rparr>)"

definition cal_insert2 :: "event \<Rightarrow> cal \<Rightarrow> cal" where
  "cal_insert2 e c =
     (let i = cal_hash c (ev_time e); es = b_list (cal_buckets c ! i) in
      if es = [] then cal_put i [e] True c
      else if ev_time e > ev_time (last es) then
        cal_put i (es @ [e]) (ev_time (hd es) \<noteq> ev_time e) c
      else
        (let pre = takeWhile (\<lambda>x. ev_time e > ev_time x) es;
             post = dropWhile (\<lambda>x. ev_time e > ev_time x) es
         in cal_put i (pre @ e # post) (ev_time (hd post) \<noteq> ev_time e) c))"

text \<open>The index of the fullest bucket.\<close>

fun max_bucket :: "bucket list \<Rightarrow> nat \<Rightarrow> nat \<Rightarrow> nat \<Rightarrow> nat" where
  "max_bucket bs 0 i m = m"
| "max_bucket bs (Suc k) i m =
     max_bucket bs k (Suc i) (if b_count (bs ! i) > b_count (bs ! m) then i else m)"

definition cal_newwidth :: "nat \<Rightarrow> cal \<Rightarrow> real \<times> cal" where
  "cal_newwidth newsize c =
     (let c = (if cal_adjust c \<noteq> 0 then c\<lparr>cal_time_to_newwidth := cal_adjust c\<rparr> else c) in
      if cal_adjust c \<noteq> 0 \<and> cal_avg_gap c > 0 then (cal_avg_gap c * 4, c)
      else
        (let mb = max_bucket (cal_buckets c) (cal_nbuckets c - 1) 1 0;
             nsamples = b_count (cal_buckets c ! mb)
         in if nsamples \<le> 4 then (cal_width c, c)
            else
              (let es = b_list (cal_buckets c ! mb);
                   nw = ev_time (last es) - ev_time (hd es);
                   c = cal_assert (nw > 0) c;
                   nw = nw / of_int (if int newsize < nsamples then int newsize else nsamples);
                   nw = nw * 4
               in (nw, c))))"

text \<open>The copy into the new buckets: each old bucket from its tail to its head.\<close>

definition cal_copy :: "bucket list \<Rightarrow> cal \<Rightarrow> cal" where
  "cal_copy oldb c = fold (\<lambda>b c. fold cal_insert2 (rev (b_list b)) c) oldb c"

definition cal_rebuild :: "nat \<Rightarrow> real \<Rightarrow> real \<Rightarrow> cal \<Rightarrow> cal" where
  "cal_rebuild newsize bwidth start c =
     (let oldb = cal_buckets c; c = cal_copy oldb (cal_reinit newsize bwidth start c)
      in c\<lparr>cal_head_search := 0, cal_insert_search := 0, cal_round_num := 0\<rparr>)"

definition cal_resize :: "nat \<Rightarrow> real \<Rightarrow> cal \<Rightarrow> cal" where
  "cal_resize newsize start c =
     (if newsize = cal_nbuckets c then
        (let bwidth = (if cal_head_search c \<noteq> 0 then real (cal_head_search c) else 1);
             bwidth = (if cal_insert_search c \<noteq> 0 then bwidth / real (cal_insert_search c) else bwidth);
             bwidth = sqrt bwidth * cal_width c
         in if bwidth < cal_min_bin_width c then
              (if cal_time_to_newwidth c > 0 then
                 c\<lparr>cal_time_to_newwidth := cal_time_to_newwidth c - 1, cal_head_search := 0,
                   cal_insert_search := 0, cal_round_num := 0\<rparr>
               else (case cal_newwidth newsize c of (bwidth, c) \<Rightarrow> cal_rebuild newsize bwidth start c))
            else cal_rebuild newsize bwidth start c)
      else
        (case cal_newwidth newsize c of
           (bwidth, c) \<Rightarrow> cal_rebuild (if newsize < 4 then 4 else newsize) bwidth start c))"

subsection \<open>Insertion\<close>

text \<open>
  The scan from the tail to the event \<open>after\<close> which the new one goes: what is before (in
  reverse), what is behind, the number of steps.
\<close>

fun scan_back :: "real \<Rightarrow> event list \<Rightarrow> event list \<Rightarrow> nat \<Rightarrow> event list \<times> event list \<times> nat" where
  "scan_back t [] post k = ([], post, k)"
| "scan_back t (x # pre) post k =
     (if t < ev_time x then scan_back t pre (x # post) (Suc k) else (x # pre, post, k))"

definition cal_insert :: "event \<Rightarrow> cal \<Rightarrow> cal" where
  "cal_insert e c =
     (let newtime = ev_time e;
          c = (if cal_clock c > newtime
               then c\<lparr>cal_clock := newtime, cal_lastbucket := cal_hash c newtime\<rparr> else c);
          i = cal_hash c newtime;
          es = b_list (cal_buckets c ! i);
          c = (case es of
                 [] \<Rightarrow> cal_put i [e] True c
               | head # _ \<Rightarrow>
                   (let c = c\<lparr>cal_insert_search := cal_insert_search c + 1\<rparr> in
                    if newtime < ev_time head then cal_put i (e # es) True c
                    else
                      (case scan_back newtime (rev es) [] 0 of
                         (pre, post, k) \<Rightarrow>
                           let c = c\<lparr>cal_insert_search := cal_insert_search c + k\<rparr>
                           in cal_put i (rev pre @ e # post) (ev_time (hd pre) < newtime) c)))
      in if cal_stat_qsize c > cal_top_threshold c
         then cal_resize (2 * cal_nbuckets c) (cal_clock c) c else c)"

subsection \<open>The next event\<close>

text \<open>
  The state of the search: the bucket looked at, the bucket and event of the least time seen,
  the number of probes.  \<open>CAL_DEQUEUE\<close> finds an event (\<open>Inl\<close>) or moves on.
\<close>

type_synonym probe = "nat \<times> nat option \<times> event option \<times> nat"

definition CAL_DEQUEUE :: "real \<Rightarrow> cal \<Rightarrow> probe \<Rightarrow> (nat \<times> event \<times> nat) + probe" where
  "CAL_DEQUEUE diffx c = (\<lambda>(i, l, min_e, hs).
     let hs = hs + 1;
         next_i = (if i + 1 = cal_nbuckets c then 0 else i + 1)
     in case b_list (cal_buckets c ! i) of
          [] \<Rightarrow> Inr (next_i, l, min_e, hs)
        | e # _ \<Rightarrow>
            if ev_time e - cal_clock c < diffx then Inl (i, e, hs)
            else (case min_e of
                    None \<Rightarrow> Inr (next_i, Some i, Some e, hs)
                  | Some m \<Rightarrow> if ev_time m > ev_time e then Inr (next_i, Some i, Some e, hs)
                              else Inr (next_i, l, min_e, hs)))"

text \<open>The loop ends when it meets the last bucket, after \<open>nbuckets_\<close> passes at most.\<close>

fun cal_search :: "nat \<Rightarrow> nat \<Rightarrow> cal \<Rightarrow> probe \<Rightarrow> (nat \<times> event \<times> nat) + probe" where
  "cal_search 0 dec c p = Inr p"
| "cal_search (Suc k) dec c p =
     (if fst p = dec then Inr p
      else case CAL_DEQUEUE (cal_diff2 c) c p of
             Inl f \<Rightarrow> Inl f
           | Inr p \<Rightarrow> cal_search k dec c p)"

definition cal_probes :: "cal \<Rightarrow> (nat \<times> event \<times> nat) + probe" where
  "cal_probes c =
     (let dec = (if cal_lastbucket c \<noteq> 0 then cal_lastbucket c - 1 else cal_nbuckets c - 1) in
      case CAL_DEQUEUE (cal_diff0 c) c (cal_lastbucket c, None, None, cal_head_search c) of
        Inl f \<Rightarrow> Inl f
      | Inr p \<Rightarrow>
          (case CAL_DEQUEUE (cal_diff1 c) c p of
             Inl f \<Rightarrow> Inl f
           | Inr p \<Rightarrow> cal_search (cal_nbuckets c) dec c p))"

definition cal_head :: "cal \<Rightarrow> event option \<times> cal" where
  "cal_head c =
     (if cal_qsize c = 0 then (None, c)
      else
        (let found = (\<lambda>l e hs. (Some e, c\<lparr>cal_head_search := hs, cal_lastbucket := l, cal_clock := ev_time e\<rparr>))
         in case cal_probes c of
              Inl (l, e, hs) \<Rightarrow> found l e hs
            | Inr (i, l, min_e, hs) \<Rightarrow>
                (case (min_e, b_list (cal_buckets c ! i)) of
                   (Some m, []) \<Rightarrow> found (the l) m hs
                 | (Some m, e # _) \<Rightarrow> if ev_time m < ev_time e then found (the l) m hs else found i e hs
                 | (None, e # _) \<Rightarrow> found i e hs
                 | (None, []) \<Rightarrow> (None, c\<lparr>cal_abort := True\<rparr>))))"

text \<open>The statistics kept by \<open>deque\<close>, which may rebuild the table.\<close>

definition cal_gap :: "event \<Rightarrow> cal \<Rightarrow> cal" where
  "cal_gap e c =
     (if cal_adjust c = 0 then c
      else if cal_last_time c < 0 then c\<lparr>cal_last_time := ev_time e\<rparr>
      else
        (let c = c\<lparr>cal_gap_num := cal_gap_num c + 1\<rparr> in
         if cal_gap_num c \<ge> cal_qsize c then
           (let tt_gap = ev_time e - cal_last_time c;
                c = c\<lparr>cal_avg_gap := tt_gap / of_int (cal_gap_num c), cal_gap_num := 0,
                      cal_last_time := ev_time e, cal_round_num := cal_round_num c + 1\<rparr>
            in if cal_round_num c > 20 \<and>
                  (cal_head_search c > 2 * cal_insert_search c \<or> cal_insert_search c > 2 * cal_head_search c)
               then (cal_resize (cal_nbuckets c) (cal_clock c) c)\<lparr>cal_round_num := 0\<rparr>
               else if cal_round_num c > 100 then
                 c\<lparr>cal_round_num := 0, cal_head_search := 0, cal_insert_search := 0\<rparr>
               else c)
         else c))"

definition cal_unlink :: "nat \<Rightarrow> event list \<Rightarrow> bool \<Rightarrow> cal \<Rightarrow> cal" where
  "cal_unlink i es unique c =
     (let b = cal_buckets c ! i in
      c\<lparr>cal_buckets := (cal_buckets c)[i := b\<lparr>b_list := es, b_count := b_count b - of_bool unique\<rparr>],
        cal_stat_qsize := cal_stat_qsize c - of_bool unique,
        cal_qsize := cal_qsize c - 1\<rparr>)"

definition cal_deque :: "cal \<Rightarrow> event option \<times> cal" where
  "cal_deque c = (case cal_head c of
     (None, c) \<Rightarrow> (None, c)
   | (Some e, c) \<Rightarrow>
       let c = cal_gap e c;
           l = cal_lastbucket c;
           rest = tl (b_list (cal_buckets c ! l));
           c = cal_unlink l rest (rest = [] \<or> ev_time (hd rest) \<noteq> ev_time e) c;
           c = (if cal_stat_qsize c < cal_bot_threshold c
                then cal_resize (cal_nbuckets c div 2) (cal_clock c) c else c)
       in (Some e, c))"

subsection \<open>Cancelling and looking up\<close>

text \<open>
  \<open>others\<close> is the rest of the circular list, from the successor of \<open>e\<close> to its predecessor.
  An event outside the bucket of its time is beyond this model, \<open>None\<close>.
\<close>

definition cal_cancel :: "event \<Rightarrow> cal \<Rightarrow> cal option" where
  "cal_cancel e c =
     (let i = cal_hash c (ev_time e);
          es = b_list (cal_buckets c ! i);
          pre = takeWhile (\<lambda>x. ev_addr x \<noteq> ev_addr e) es;
          post = dropWhile (\<lambda>x. ev_addr x \<noteq> ev_addr e) es
      in case post of
           [] \<Rightarrow> None
         | _ # post \<Rightarrow>
             (let others = post @ pre;
                  unique = (others = [] \<or>
                    (ev_time (hd others) \<noteq> ev_time e \<and> ev_time (last others) \<noteq> ev_time e));
                  c = cal_unlink i (pre @ post) unique c;
                  c = cal_assert (unique \<longrightarrow> cal_stat_qsize c \<ge> 0 \<and> b_count (cal_buckets c ! i) \<ge> 0) c;
                  c = cal_assert (b_count (cal_buckets c ! i) = 0 \<longrightarrow> pre @ post = []) c
              in Some c))"

fun cal_lookup_in :: "int \<Rightarrow> bucket list \<Rightarrow> event option" where
  "cal_lookup_in u [] = None"
| "cal_lookup_in u (b # bs) = (case ls_lookup u (b_list b) of Some e \<Rightarrow> Some e | None \<Rightarrow> cal_lookup_in u bs)"

definition cal_lookup :: "int \<Rightarrow> cal \<Rightarrow> event option" where
  "cal_lookup u c = cal_lookup_in u (cal_buckets c)"

definition cal_new :: "nat \<Rightarrow> real \<Rightarrow> cal" where
  "cal_new adjust min_width =
     cal_reinit 4 1 0
       \<lparr>cal_min_bin_width = min_width, cal_adjust = adjust, cal_time_to_newwidth = adjust,
        cal_head_search = 0, cal_insert_search = 0, cal_round_num = 0, cal_gap_num = 0,
        cal_last_time = - 2, cal_avg_gap = - 2, cal_width = 1, cal_diff0 = 0, cal_diff1 = 0,
        cal_diff2 = 0, cal_stat_qsize = 0, cal_nbuckets = 0, cal_lastbucket = 0,
        cal_top_threshold = 0, cal_bot_threshold = 0, cal_buckets = [], cal_qsize = 0,
        cal_clock = 0, cal_abort = False\<rparr>"

end
