(* ===== verification/CalendarTable.thy ===== *)
theory CalendarTable
  imports CalendarSched
begin

text \<open>
  The table of the calendar queue: every bucket is sorted and holds the events that hash to
  it, the counters are right, and rebuilding the table with other widths keeps the events
  and the order of those of equal time.
\<close>

subsection \<open>Hashing\<close>

lemma CALENDAR_HASH_eq:
  assumes "0 < w" "0 < n" "0 \<le> t"
  shows "CALENDAR_HASH w n t = nat (\<lfloor>t / w\<rfloor> mod int n)"
proof -
  let ?x = "t / w"
  have x: "0 \<le> ?x" using assms by simp
  have q: "\<lfloor>?x / real n\<rfloor> = \<lfloor>?x\<rfloor> div int n"
    using floor_divide_real_eq_div [of "int n" ?x] by simp
  have "c_fmod ?x (real n) = ?x - of_int (int n * (\<lfloor>?x\<rfloor> div int n))"
    using divide_nonneg_nonneg [OF x, of "real n"] q by (simp add: c_fmod_def to_int_def)
  then have f: "\<lfloor>c_fmod ?x (real n)\<rfloor> = \<lfloor>?x\<rfloor> - int n * (\<lfloor>?x\<rfloor> div int n)"
    by (metis floor_diff_of_int)
  also have "\<dots> = \<lfloor>?x\<rfloor> mod int n" by (simp add: minus_mult_div_eq_mod)
  finally have f: "\<lfloor>c_fmod ?x (real n)\<rfloor> = \<lfloor>?x\<rfloor> mod int n" .
  moreover have "0 \<le> \<lfloor>?x\<rfloor> mod int n" using assms(2) by simp
  ultimately have "0 \<le> c_fmod ?x (real n)" by (metis zero_le_floor)
  with f show ?thesis by (simp add: CALENDAR_HASH_def to_int_def)
qed

lemma CALENDAR_HASH_less: "0 < w \<Longrightarrow> 0 < n \<Longrightarrow> 0 \<le> t \<Longrightarrow> CALENDAR_HASH w n t < n"
  by (simp add: CALENDAR_HASH_eq nat_less_iff)

subsection \<open>The table\<close>

definition ev_times :: "event list \<Rightarrow> real set" where
  "ev_times es = ev_time ` set es"

definition bucket_ok :: "real \<Rightarrow> nat \<Rightarrow> nat \<Rightarrow> bucket \<Rightarrow> bool" where
  "bucket_ok w n i b \<longleftrightarrow> sorted_wrt ev_before (b_list b) \<and>
     (\<forall>e\<in>set (b_list b). 0 \<le> ev_time e \<and> CALENDAR_HASH w n (ev_time e) = i) \<and>
     b_count b = int (card (ev_times (b_list b)))"

definition cal_events :: "cal \<Rightarrow> event list" where
  "cal_events c = concat (map b_list (cal_buckets c))"

definition tbl_ok :: "cal \<Rightarrow> bool" where
  "tbl_ok c \<longleftrightarrow> 4 \<le> cal_nbuckets c \<and> length (cal_buckets c) = cal_nbuckets c \<and> 0 < cal_width c \<and>
     cal_diff0 c = cal_width c * real (cal_nbuckets c) / 2 \<and>
     cal_diff1 c = cal_width c * real (cal_nbuckets c) / 2 + cal_width c \<and>
     cal_diff2 c = cal_width c * real (cal_nbuckets c) \<and>
     (\<forall>i<cal_nbuckets c. bucket_ok (cal_width c) (cal_nbuckets c) i (cal_buckets c ! i)) \<and>
     cal_stat_qsize c = sum_list (map b_count (cal_buckets c)) \<and>
     cal_qsize c = int (length (cal_events c))"

text \<open>What the table operations leave alone.\<close>

definition cal_frame :: "cal \<Rightarrow> cal \<Rightarrow> bool" where
  "cal_frame c c' \<longleftrightarrow> cal_clock c' = cal_clock c \<and> cal_lastbucket c' = cal_lastbucket c \<and>
     cal_abort c' = cal_abort c \<and> cal_width c' = cal_width c \<and> cal_nbuckets c' = cal_nbuckets c"

lemma cal_frame_refl [simp]: "cal_frame c c"
  by (simp add: cal_frame_def)

lemma cal_frame_trans: "cal_frame c d \<Longrightarrow> cal_frame d e \<Longrightarrow> cal_frame c e"
  by (simp add: cal_frame_def)

lemma mset_concat_update:
  "i < length bs \<Longrightarrow> mset (concat (map f (bs[i := b]))) + mset (f (bs ! i)) =
     mset (concat (map f bs)) + mset (f b)"
proof (induction bs arbitrary: i)
  case (Cons x bs)
  then show ?case by (cases i) (simp_all add: ac_simps)
qed simp

lemma sum_list_update_int:
  fixes g :: "'b \<Rightarrow> int"
  shows "i < length bs \<Longrightarrow> sum_list (map g (bs[i := b])) + g (bs ! i) = sum_list (map g bs) + g b"
proof (induction bs arbitrary: i)
  case (Cons x bs)
  then show ?case by (cases i) simp_all
qed simp

lemma tbl_events_bucket:
  assumes "tbl_ok c" "e \<in> set (cal_events c)"
  shows "0 \<le> ev_time e" "cal_hash c (ev_time e) < cal_nbuckets c"
    "e \<in> set (b_list (cal_buckets c ! cal_hash c (ev_time e)))"
proof -
  from assms(2) obtain i where i: "i < length (cal_buckets c)" "e \<in> set (b_list (cal_buckets c ! i))"
    by (auto simp: cal_events_def in_set_conv_nth [of _ "cal_buckets c"])
  with assms(1) have "bucket_ok (cal_width c) (cal_nbuckets c) i (cal_buckets c ! i)" "i < cal_nbuckets c"
    by (simp_all add: tbl_ok_def)
  with i show "0 \<le> ev_time e" "cal_hash c (ev_time e) < cal_nbuckets c"
    "e \<in> set (b_list (cal_buckets c ! cal_hash c (ev_time e)))"
    by (auto simp: bucket_ok_def cal_hash_def)
qed

lemma bucket_events:
  "i < length (cal_buckets c) \<Longrightarrow> set (b_list (cal_buckets c ! i)) \<subseteq> set (cal_events c)"
  by (force simp: cal_events_def)

lemma bucket_replace:
  assumes "tbl_ok c" "i < cal_nbuckets c" "bucket_ok (cal_width c) (cal_nbuckets c) i b"
    "c' = c\<lparr>cal_buckets := (cal_buckets c)[i := b],
            cal_stat_qsize := cal_stat_qsize c + (b_count b - b_count (cal_buckets c ! i)),
            cal_qsize := cal_qsize c + (int (length (b_list b)) - int (length (b_list (cal_buckets c ! i))))\<rparr>"
  shows "tbl_ok c' \<and> mset (cal_events c') + mset (b_list (cal_buckets c ! i)) =
    mset (cal_events c) + mset (b_list b)"
proof -
  have i: "i < length (cal_buckets c)" using assms(1,2) by (simp add: tbl_ok_def)
  have m: "mset (cal_events c') + mset (b_list (cal_buckets c ! i)) = mset (cal_events c) + mset (b_list b)"
    using mset_concat_update [OF i, of b_list b] by (simp add: assms(4) cal_events_def)
  then have "length (cal_events c') + length (b_list (cal_buckets c ! i)) = length (cal_events c) + length (b_list b)"
    by (metis size_mset size_union)
  moreover have "sum_list (map b_count (cal_buckets c')) + b_count (cal_buckets c ! i) =
      sum_list (map b_count (cal_buckets c)) + b_count b"
    using sum_list_update_int [OF i, of b_count b] by (simp add: assms(4))
  ultimately have "tbl_ok c'"
    using assms by (auto simp: tbl_ok_def nth_list_update)
  with m show ?thesis by blast
qed

lemma put_ok:
  assumes "tbl_ok c" "0 \<le> ev_time e" "i = cal_hash c (ev_time e)" "sorted_wrt ev_before es"
    "mset es = add_mset e (mset (b_list (cal_buckets c ! i)))"
    "u \<longleftrightarrow> ev_time e \<notin> ev_times (b_list (cal_buckets c ! i))"
  shows "tbl_ok (cal_put i es u c) \<and> mset (cal_events (cal_put i es u c)) = add_mset e (mset (cal_events c)) \<and>
    cal_frame c (cal_put i es u c)"
proof -
  let ?b = "cal_buckets c ! i"
  let ?b' = "?b\<lparr>b_list := es, b_count := b_count ?b + of_bool u\<rparr>"
  have i: "i < cal_nbuckets c"
    using assms(1-3) CALENDAR_HASH_less by (simp add: cal_hash_def tbl_ok_def)
  have old: "bucket_ok (cal_width c) (cal_nbuckets c) i ?b" using assms(1) i by (simp add: tbl_ok_def)
  have set: "set es = insert e (set (b_list ?b))" using assms(5) by (metis set_mset_mset set_mset_add_mset_insert)
  have len: "length es = Suc (length (b_list ?b))" using assms(5) by (metis size_mset size_add_mset)
  have "card (ev_times es) = card (ev_times (b_list ?b)) + of_bool u"
    using assms(6) by (simp add: ev_times_def set card_insert_if)
  then have "bucket_ok (cal_width c) (cal_nbuckets c) i ?b'"
    using old assms(2-4) set by (auto simp: bucket_ok_def cal_hash_def)
  moreover have "cal_put i es u c = c\<lparr>cal_buckets := (cal_buckets c)[i := ?b'],
      cal_stat_qsize := cal_stat_qsize c + (b_count ?b' - b_count ?b),
      cal_qsize := cal_qsize c + (int (length (b_list ?b')) - int (length (b_list ?b)))\<rparr>"
    using len by (simp add: cal_put_def Let_def)
  ultimately have "tbl_ok (cal_put i es u c) \<and>
      mset (cal_events (cal_put i es u c)) + mset (b_list ?b) = mset (cal_events c) + mset es"
    using bucket_replace [OF assms(1) i, of ?b' "cal_put i es u c"] by simp
  moreover have "cal_frame c (cal_put i es u c)" by (simp add: cal_frame_def cal_put_def Let_def)
  ultimately show ?thesis using assms(5) by simp
qed

subsection \<open>Inserting before the events of the same time\<close>

lemma sorted_times: "sorted_wrt ev_before es \<Longrightarrow> sorted (map ev_time es)"
  unfolding sorted_map by (erule sorted_wrt_mono_rel [rotated]) (auto simp: ev_before_def)

lemma hd_times: "sorted (map ev_time es) \<Longrightarrow> es \<noteq> [] \<Longrightarrow> x \<in> set es \<Longrightarrow> ev_time (hd es) \<le> ev_time x"
  by (cases es) auto

lemma last_times: "sorted (map ev_time es) \<Longrightarrow> es \<noteq> [] \<Longrightarrow> x \<in> set es \<Longrightarrow> ev_time x \<le> ev_time (last es)"
  by (induction es rule: rev_induct) (auto simp: sorted_append)

lemma sorted_insert_at:
  assumes "sorted_wrt ev_before (pre @ post)" "\<forall>x\<in>set pre. ev_before x e" "\<forall>x\<in>set post. ev_before e x"
  shows "sorted_wrt ev_before (pre @ e # post)"
  using assms by (auto simp: sorted_wrt_append)

lemma insert2_list:
  assumes "sorted_wrt ev_before es" "\<forall>x\<in>set es. ev_time x = ev_time e \<longrightarrow> ev_uid e < ev_uid x"
  shows "sorted_wrt ev_before (takeWhile (\<lambda>x. ev_time e > ev_time x) es @ e # dropWhile (\<lambda>x. ev_time e > ev_time x) es)"
proof (rule sorted_insert_at)
  show "\<forall>x\<in>set (takeWhile (\<lambda>x. ev_time e > ev_time x) es). ev_before x e"
    by (auto simp: ev_before_def dest: set_takeWhileD)
  show "\<forall>x\<in>set (dropWhile (\<lambda>x. ev_time e > ev_time x) es). ev_before e x"
  proof
    fix x assume x: "x \<in> set (dropWhile (\<lambda>x. ev_time e > ev_time x) es)"
    let ?d = "dropWhile (\<lambda>x. ev_time e > ev_time x) es"
    from x have "?d \<noteq> []" by (metis list.set(1) empty_iff)
    then have "ev_time e \<le> ev_time (hd ?d)" using hd_dropWhile [of _ es] by (metis not_less)
    moreover have "sorted (map ev_time ?d)"
      using sorted_times [OF assms(1)] by (metis sorted_dropWhile dropWhile_map comp_def sorted_map sorted_wrt_append takeWhile_dropWhile_id)
    ultimately have "ev_time e \<le> ev_time x" using hd_times [OF _ \<open>?d \<noteq> []\<close> x] by simp
    moreover have "x \<in> set es" using x by (rule set_dropWhileD)
    ultimately show "ev_before e x" using assms(2) by (auto simp: ev_before_def)
  qed
qed (use assms(1) in simp)

lemma insert2_ok:
  assumes "tbl_ok c" "0 \<le> ev_time e" "\<forall>x\<in>set (cal_events c). ev_time x = ev_time e \<longrightarrow> ev_uid e < ev_uid x"
  shows "tbl_ok (cal_insert2 e c) \<and> mset (cal_events (cal_insert2 e c)) = add_mset e (mset (cal_events c)) \<and>
    cal_frame c (cal_insert2 e c)"
proof -
  let ?i = "cal_hash c (ev_time e)"
  let ?es = "b_list (cal_buckets c ! ?i)"
  let ?P = "\<lambda>x. ev_time e > ev_time x"
  have i: "?i < cal_nbuckets c"
    using assms(1,2) CALENDAR_HASH_less by (simp add: cal_hash_def tbl_ok_def)
  then have b: "sorted_wrt ev_before ?es" using assms(1) by (simp add: tbl_ok_def bucket_ok_def)
  have sub: "set ?es \<subseteq> set (cal_events c)" using bucket_events i assms(1) by (simp add: tbl_ok_def)
  have sorted: "sorted_wrt ev_before (takeWhile ?P ?es @ e # dropWhile ?P ?es)"
    using insert2_list [OF b] assms(3) sub by blast
  have m: "mset (takeWhile ?P ?es @ e # dropWhile ?P ?es) = add_mset e (mset ?es)"
    by (metis mset_append mset.simps(2) takeWhile_dropWhile_id union_mset_add_mset_right)
  consider "?es = []" | "?es \<noteq> []" "ev_time e > ev_time (last ?es)" | "?es \<noteq> []" "\<not> ev_time e > ev_time (last ?es)"
    by blast
  then show ?thesis
  proof cases
    case 1
    then have "cal_insert2 e c = cal_put ?i [e] True c" by (simp add: cal_insert2_def)
    with put_ok [OF assms(1,2) refl, of "[e]" True] 1 show ?thesis by (simp add: ev_times_def)
  next
    case 2
    then have all: "\<forall>x\<in>set ?es. ?P x" using last_times [OF sorted_times [OF b]] by fastforce
    then have tw: "takeWhile ?P ?es = ?es" "dropWhile ?P ?es = []"
      by (auto simp: takeWhile_eq_all_conv dropWhile_eq_Nil_conv)
    have new: "ev_time e \<notin> ev_times ?es" using all by (auto simp: ev_times_def)
    moreover have "ev_time (hd ?es) \<noteq> ev_time e" using all hd_in_set [OF 2(1)] by auto
    ultimately have "cal_insert2 e c = cal_put ?i (?es @ [e]) True c"
      using 2 by (simp add: cal_insert2_def Let_def)
    with put_ok [OF assms(1,2) refl sorted m, of True] new tw show ?thesis by simp
  next
    case 3
    let ?d = "dropWhile ?P ?es"
    have d: "?d \<noteq> []" using 3 last_in_set by (force simp: dropWhile_eq_Nil_conv)
    have "ev_time (hd ?d) \<noteq> ev_time e \<longleftrightarrow> ev_time e \<notin> ev_times ?es"
    proof
      assume ne: "ev_time (hd ?d) \<noteq> ev_time e"
      have ge: "ev_time e \<le> ev_time (hd ?d)" using hd_dropWhile [of ?P ?es] d by (simp add: not_less)
      have "sorted_wrt ev_before (e # ?d)" using sorted by (simp add: sorted_wrt_append)
      then have "sorted (map ev_time (e # ?d))" by (rule sorted_times)
      with ne ge d have "\<forall>x\<in>set ?d. ev_time e < ev_time x" by (cases ?d) force+
      moreover have "\<forall>x\<in>set (takeWhile ?P ?es). ev_time x < ev_time e" by (auto dest: set_takeWhileD)
      moreover have "set ?es = set (takeWhile ?P ?es) \<union> set ?d" by (metis set_append takeWhile_dropWhile_id)
      ultimately show "ev_time e \<notin> ev_times ?es" by (force simp: ev_times_def)
    next
      assume new: "ev_time e \<notin> ev_times ?es"
      have "hd ?d \<in> set ?es" using hd_in_set [OF d] by (rule set_dropWhileD)
      with new show "ev_time (hd ?d) \<noteq> ev_time e" by (metis ev_times_def imageI)
    qed
    with put_ok [OF assms(1,2) refl sorted m] 3 show ?thesis by (simp add: cal_insert2_def Let_def)
  qed
qed

text \<open>The copy: of events of the same time, the later ones come first.\<close>

lemma copy_ok:
  assumes "tbl_ok c" "\<forall>s\<in>set S. 0 \<le> ev_time s"
    "sorted_wrt (\<lambda>x y. ev_time x = ev_time y \<longrightarrow> ev_uid y < ev_uid x) S"
    "\<forall>x\<in>set (cal_events c). \<forall>s\<in>set S. ev_time x = ev_time s \<longrightarrow> ev_uid s < ev_uid x"
  shows "tbl_ok (fold cal_insert2 S c) \<and> mset (cal_events (fold cal_insert2 S c)) = mset S + mset (cal_events c) \<and>
    cal_frame c (fold cal_insert2 S c)"
  using assms
proof (induction S arbitrary: c)
  case (Cons e S)
  let ?c = "cal_insert2 e c"
  from Cons.prems have "tbl_ok ?c \<and> mset (cal_events ?c) = add_mset e (mset (cal_events c)) \<and> cal_frame c ?c"
    by (intro insert2_ok) auto
  moreover from this have "set (cal_events ?c) = insert e (set (cal_events c))"
    by (metis set_mset_mset set_mset_add_mset_insert)
  ultimately show ?case
    using Cons.IH [of ?c] Cons.prems cal_frame_trans by auto
qed simp

end
