(* ===== verification/CalendarLaws.thy ===== *)
theory CalendarLaws
  imports CalendarTable
begin

text \<open>
  The calendar queue finds the earliest event: resizing keeps its contents, the search of
  \<open>head\<close> stops at the event that comes first, and no assertion fails.  It meets the contract of
  an event queue.
\<close>

definition cal_inv :: "nat \<Rightarrow> cal \<Rightarrow> bool" where
  "cal_inv n c \<longleftrightarrow> tbl_ok c \<and> evs_ok (cal_events c) \<and> 0 \<le> cal_clock c \<and>
     (\<forall>e\<in>set (cal_events c). cal_clock c \<le> ev_time e) \<and> cal_lastbucket c = cal_hash c (cal_clock c) \<and>
     \<not> cal_abort c"

definition cal_abs :: "cal \<Rightarrow> event list" where
  "cal_abs c = ev_sort (cal_events c)"

lemma tbl_ok_upd [simp]:
  "tbl_ok (c\<lparr>cal_time_to_newwidth := k\<rparr>) = tbl_ok c" "tbl_ok (c\<lparr>cal_head_search := k\<rparr>) = tbl_ok c"
  "tbl_ok (c\<lparr>cal_insert_search := k\<rparr>) = tbl_ok c" "tbl_ok (c\<lparr>cal_round_num := z\<rparr>) = tbl_ok c"
  "tbl_ok (c\<lparr>cal_gap_num := z\<rparr>) = tbl_ok c" "tbl_ok (c\<lparr>cal_last_time := r\<rparr>) = tbl_ok c"
  "tbl_ok (c\<lparr>cal_avg_gap := r\<rparr>) = tbl_ok c" "tbl_ok (c\<lparr>cal_clock := r\<rparr>) = tbl_ok c"
  "tbl_ok (c\<lparr>cal_lastbucket := k\<rparr>) = tbl_ok c"
  by (simp_all add: tbl_ok_def cal_events_def)

lemma cal_events_upd [simp]:
  "cal_events (c\<lparr>cal_time_to_newwidth := k\<rparr>) = cal_events c" "cal_events (c\<lparr>cal_head_search := k\<rparr>) = cal_events c"
  "cal_events (c\<lparr>cal_insert_search := k\<rparr>) = cal_events c" "cal_events (c\<lparr>cal_round_num := z\<rparr>) = cal_events c"
  "cal_events (c\<lparr>cal_gap_num := z\<rparr>) = cal_events c" "cal_events (c\<lparr>cal_last_time := r\<rparr>) = cal_events c"
  "cal_events (c\<lparr>cal_avg_gap := r\<rparr>) = cal_events c" "cal_events (c\<lparr>cal_clock := r\<rparr>) = cal_events c"
  "cal_events (c\<lparr>cal_lastbucket := k\<rparr>) = cal_events c"
  by (simp_all add: cal_events_def)

subsection \<open>Rebuilding the table\<close>

lemma reinit_ok:
  assumes "4 \<le> n" "0 < w"
  shows "tbl_ok (cal_reinit n w start c)" "cal_events (cal_reinit n w start c) = []"
proof -
  show e: "cal_events (cal_reinit n w start c) = []" by (simp add: cal_events_def cal_reinit_def)
  have "sum_list (map b_count (replicate n \<lparr>b_list = [], b_count = 0\<rparr>)) = 0" by (induction n) simp_all
  with assms e show "tbl_ok (cal_reinit n w start c)"
    by (simp add: tbl_ok_def cal_reinit_def bucket_ok_def ev_times_def)
qed

lemma sorted_wrt_concat:
  assumes "\<forall>xs\<in>set xss. sorted_wrt P xs" "sorted_wrt (\<lambda>xs ys. \<forall>x\<in>set xs. \<forall>y\<in>set ys. P x y) xss"
  shows "sorted_wrt P (concat xss)"
  using assms by (induction xss) (auto simp: sorted_wrt_append)

lemma copy_order:
  assumes "tbl_ok c"
  shows "sorted_wrt (\<lambda>x y. ev_time x = ev_time y \<longrightarrow> ev_uid y < ev_uid x)
    (concat (map (\<lambda>b. rev (b_list b)) (cal_buckets c)))"
proof (rule sorted_wrt_concat)
  have b: "bucket_ok (cal_width c) (cal_nbuckets c) i (cal_buckets c ! i)" if "i < length (cal_buckets c)" for i
    using assms that by (simp add: tbl_ok_def)
  show "\<forall>xs\<in>set (map (\<lambda>b. rev (b_list b)) (cal_buckets c)).
      sorted_wrt (\<lambda>x y. ev_time x = ev_time y \<longrightarrow> ev_uid y < ev_uid x) xs"
  proof
    fix xs assume "xs \<in> set (map (\<lambda>b. rev (b_list b)) (cal_buckets c))"
    then obtain i where i: "i < length (cal_buckets c)" "xs = rev (b_list (cal_buckets c ! i))"
      by (auto simp: in_set_conv_nth [of _ "cal_buckets c"])
    have "sorted_wrt (\<lambda>y x. ev_time x = ev_time y \<longrightarrow> ev_uid y < ev_uid x) (b_list (cal_buckets c ! i))"
      using b [OF i(1)] unfolding bucket_ok_def by (auto elim!: sorted_wrt_mono_rel [rotated] simp: ev_before_def)
    then show "sorted_wrt (\<lambda>x y. ev_time x = ev_time y \<longrightarrow> ev_uid y < ev_uid x) xs"
      by (simp add: i(2) sorted_wrt_rev)
  qed
  show "sorted_wrt (\<lambda>xs ys. \<forall>x\<in>set xs. \<forall>y\<in>set ys. ev_time x = ev_time y \<longrightarrow> ev_uid y < ev_uid x)
      (map (\<lambda>b. rev (b_list b)) (cal_buckets c))"
    unfolding sorted_wrt_iff_nth_less
  proof (intro allI impI ballI)
    fix i j x y
    assume ij: "i < j" "j < length (map (\<lambda>b. rev (b_list b)) (cal_buckets c))"
      and x: "x \<in> set (map (\<lambda>b. rev (b_list b)) (cal_buckets c) ! i)"
      and y: "y \<in> set (map (\<lambda>b. rev (b_list b)) (cal_buckets c) ! j)" and "ev_time x = ev_time y"
    moreover have "CALENDAR_HASH (cal_width c) (cal_nbuckets c) (ev_time x) = i"
      using b [of i] ij x by (simp add: bucket_ok_def)
    moreover have "CALENDAR_HASH (cal_width c) (cal_nbuckets c) (ev_time y) = j"
      using b [of j] ij y by (simp add: bucket_ok_def)
    ultimately show "ev_uid y < ev_uid x" by simp
  qed
qed

lemma fold_copy: "cal_copy bs c = fold cal_insert2 (concat (map (\<lambda>b. rev (b_list b)) bs)) c"
  by (induction bs arbitrary: c) (simp_all add: cal_copy_def)

lemma mset_concat_rev: "mset (concat (map (\<lambda>b. rev (f b)) bs)) = mset (concat (map f bs))"
  by (induction bs) simp_all

lemma rebuild_ok:
  assumes "cal_inv n c" "4 \<le> m" "0 < w"
  shows "cal_inv n (cal_rebuild m w (cal_clock c) c) \<and>
    mset (cal_events (cal_rebuild m w (cal_clock c) c)) = mset (cal_events c) \<and>
    cal_clock (cal_rebuild m w (cal_clock c) c) = cal_clock c"
proof -
  let ?r = "cal_reinit m w (cal_clock c) c"
  let ?S = "concat (map (\<lambda>b. rev (b_list b)) (cal_buckets c))"
  let ?d = "fold cal_insert2 ?S ?r"
  have c: "tbl_ok c" "evs_ok (cal_events c)" using assms(1) by (simp_all add: cal_inv_def)
  have S: "mset ?S = mset (cal_events c)" by (simp add: mset_concat_rev cal_events_def)
  then have "set ?S = set (cal_events c)" by (rule mset_eq_setD)
  then have "\<forall>s\<in>set ?S. 0 \<le> ev_time s" using tbl_events_bucket(1) [OF c(1)] by blast
  from copy_ok [OF reinit_ok(1) [OF assms(2,3)] this copy_order [OF c(1)]] reinit_ok(2) [OF assms(2,3)]
  have d: "tbl_ok ?d" "mset (cal_events ?d) = mset (cal_events c)" "cal_frame ?r ?d" by (simp_all add: S)
  have set: "set (cal_events ?d) = set (cal_events c)" using d(2) by (rule mset_eq_setD)
  have ev: "evs_ok (cal_events ?d)" using c(2) evs_ok_mset [OF d(2)] by simp
  have r: "cal_clock ?r = cal_clock c" "cal_abort ?r = cal_abort c"
    "cal_lastbucket ?r = CALENDAR_HASH w m (cal_clock c)" "cal_width ?r = w" "cal_nbuckets ?r = m"
    by (simp_all add: cal_reinit_def)
  show ?thesis
    using assms(1) d set ev r
    by (simp add: cal_inv_def cal_rebuild_def Let_def fold_copy cal_frame_def cal_hash_def)
qed

subsection \<open>A new width\<close>

lemma max_bucket_less: "m < n \<Longrightarrow> i + k \<le> n \<Longrightarrow> max_bucket bs k i m < n"
  by (induction k arbitrary: i m) auto

lemma card_times_gap:
  assumes "sorted_wrt ev_before es" "2 \<le> card (ev_times es)"
  shows "ev_time (hd es) < ev_time (last es)"
proof (rule ccontr)
  assume le: "\<not> ev_time (hd es) < ev_time (last es)"
  have ne: "es \<noteq> []" using assms(2) by (auto simp: ev_times_def)
  have "ev_time x = ev_time (hd es)" if "x \<in> set es" for x
    using hd_times [OF sorted_times [OF assms(1)] ne that] last_times [OF sorted_times [OF assms(1)] ne that] le
    by simp
  then have "ev_times es \<subseteq> {ev_time (hd es)}" by (auto simp: ev_times_def)
  then have "card (ev_times es) \<le> 1" using card_mono [of "{ev_time (hd es)}"] by fastforce
  with assms(2) show False by simp
qed

lemma newwidth_ok:
  assumes "tbl_ok c" "0 < m"
  shows "\<exists>w k. cal_newwidth m c = (w, c\<lparr>cal_time_to_newwidth := k\<rparr>) \<and> 0 < w"
proof -
  define d where "d = (if cal_adjust c \<noteq> 0 then c\<lparr>cal_time_to_newwidth := cal_adjust c\<rparr> else c)"
  have d: "\<exists>k. d = c\<lparr>cal_time_to_newwidth := k\<rparr>" by (auto simp: d_def intro: exI [of _ "cal_time_to_newwidth c"])
  have same: "cal_adjust d = cal_adjust c" "cal_avg_gap d = cal_avg_gap c" "cal_width d = cal_width c"
    "cal_buckets d = cal_buckets c" "cal_nbuckets d = cal_nbuckets c"
    by (simp_all add: d_def)
  let ?mb = "max_bucket (cal_buckets c) (cal_nbuckets c - 1) 1 0"
  let ?b = "cal_buckets c ! ?mb"
  have "?mb < cal_nbuckets c"
    using assms(1) by (intro max_bucket_less) (auto simp: tbl_ok_def)
  then have b: "bucket_ok (cal_width c) (cal_nbuckets c) ?mb ?b" "0 < cal_width c"
    using assms(1) by (auto simp: tbl_ok_def)
  show ?thesis
  proof (cases "cal_adjust c \<noteq> 0 \<and> cal_avg_gap c > 0 \<or> b_count ?b \<le> 4")
    case True
    with b(2) have "\<exists>w>0. cal_newwidth m c = (w, d)"
      unfolding cal_newwidth_def d_def [symmetric] Let_def same by auto
    with d show ?thesis by blast
  next
    case False
    then have "2 \<le> card (ev_times (b_list ?b))" using b(1) by (simp add: bucket_ok_def)
    then have gap: "ev_time (hd (b_list ?b)) < ev_time (last (b_list ?b))"
      using b(1) by (intro card_times_gap) (simp_all add: bucket_ok_def)
    have "0 < (if int m < b_count ?b then int m else b_count ?b)" using assms(2) False by auto
    with gap have "0 < (ev_time (last (b_list ?b)) - ev_time (hd (b_list ?b))) /
        of_int (if int m < b_count ?b then int m else b_count ?b) * 4" by simp
    moreover have "cal_newwidth m c = ((ev_time (last (b_list ?b)) - ev_time (hd (b_list ?b))) /
        of_int (if int m < b_count ?b then int m else b_count ?b) * 4, d)"
      unfolding cal_newwidth_def d_def [symmetric] using False gap
      by (auto simp: Let_def same cal_assert_def)
    ultimately show ?thesis using d by auto
  qed
qed

lemma cal_inv_upd [simp]:
  "cal_inv n (c\<lparr>cal_time_to_newwidth := k\<rparr>) = cal_inv n c" "cal_inv n (c\<lparr>cal_head_search := k\<rparr>) = cal_inv n c"
  "cal_inv n (c\<lparr>cal_insert_search := k\<rparr>) = cal_inv n c" "cal_inv n (c\<lparr>cal_round_num := z\<rparr>) = cal_inv n c"
  "cal_inv n (c\<lparr>cal_gap_num := z\<rparr>) = cal_inv n c" "cal_inv n (c\<lparr>cal_last_time := r\<rparr>) = cal_inv n c"
  "cal_inv n (c\<lparr>cal_avg_gap := r\<rparr>) = cal_inv n c"
  by (simp_all add: cal_inv_def cal_hash_def)

definition cal_keeps :: "nat \<Rightarrow> cal \<Rightarrow> cal \<Rightarrow> bool" where
  "cal_keeps n c d \<longleftrightarrow> cal_inv n d \<and> mset (cal_events d) = mset (cal_events c) \<and> cal_clock d = cal_clock c"

lemma rebuild_keeps:
  assumes "cal_inv n c" "4 \<le> m" "0 < w"
  shows "cal_keeps n c (cal_rebuild m w (cal_clock c) (c\<lparr>cal_time_to_newwidth := k\<rparr>))"
  using rebuild_ok [of n "c\<lparr>cal_time_to_newwidth := k\<rparr>" m w] assms by (simp add: cal_keeps_def)

lemma resize_keeps:
  assumes "cal_inv n c" "0 < m"
  shows "cal_keeps n c (cal_resize m (cal_clock c) c)"
proof -
  have c: "tbl_ok c" "4 \<le> cal_nbuckets c" "0 < cal_width c"
    using assms(1) by (simp_all add: cal_inv_def tbl_ok_def)
  from newwidth_ok [OF c(1) assms(2)] obtain w k where
    nw: "cal_newwidth m c = (w, c\<lparr>cal_time_to_newwidth := k\<rparr>)" "0 < w" by blast
  note nk = rebuild_keeps [OF assms(1) _ nw(2), of _ k]
  show ?thesis
  proof (cases "m = cal_nbuckets c")
    case False
    then show ?thesis using nk [of "if m < 4 then 4 else m"] by (simp add: cal_resize_def nw)
  next
    case True
    define b1 where "b1 = (if cal_head_search c \<noteq> 0 then real (cal_head_search c) else 1)"
    define b2 where "b2 = (if cal_insert_search c \<noteq> 0 then b1 / real (cal_insert_search c) else b1)"
    have "0 < b2" by (auto simp: b1_def b2_def)
    then have w: "0 < sqrt b2 * cal_width c" using c(3) by simp
    have old: "cal_keeps n c (cal_rebuild m (sqrt b2 * cal_width c) (cal_clock c) c)"
      using rebuild_ok [OF assms(1) _ w] c(2) True by (simp add: cal_keeps_def)
    have stay: "cal_keeps n c (c\<lparr>cal_time_to_newwidth := t, cal_head_search := 0, cal_insert_search := 0, cal_round_num := 0\<rparr>)" for t
      using assms(1) by (simp add: cal_keeps_def)
    show ?thesis
      unfolding cal_resize_def Let_def b1_def [symmetric] b2_def [symmetric]
      using True old stay nk [of m] c(2) nw(1) [unfolded True] by simp
  qed
qed

subsection \<open>Insertion\<close>

lemma scan_back_ok:
  assumes "scan_back t xs post k = (pre', post', k')" "\<forall>x\<in>set post. t < ev_time x"
  shows "rev pre' @ post' = rev xs @ post \<and> (\<forall>x\<in>set post'. t < ev_time x) \<and>
    (pre' \<noteq> [] \<longrightarrow> ev_time (hd pre') \<le> t)"
  using assms by (induction t xs post k rule: scan_back.induct) (auto split: if_splits)

text \<open>Where \<open>insert\<close> puts an event in a sorted bucket.\<close>

lemma scan_insert:
  assumes so: "sorted_wrt ev_before es" and ne: "es \<noteq> []" and head: "\<not> ev_time e < ev_time (hd es)"
    and new: "\<forall>x\<in>set es. ev_uid x < ev_uid e" and sc: "scan_back (ev_time e) (rev es) [] 0 = (pre, post, k)"
  shows "sorted_wrt ev_before (rev pre @ e # post)" "mset (rev pre @ e # post) = add_mset e (mset es)"
    "ev_time (hd pre) < ev_time e \<longleftrightarrow> ev_time e \<notin> ev_times es"
proof -
  from scan_back_ok [OF sc] have split: "rev pre @ post = es" and post: "\<forall>x\<in>set post. ev_time e < ev_time x"
    and pre: "pre \<noteq> [] \<Longrightarrow> ev_time (hd pre) \<le> ev_time e" by simp_all
  have pne: "pre \<noteq> []"
  proof
    assume "pre = []"
    with split ne have "hd es \<in> set post" by (cases es) auto
    with post head show False by blast
  qed
  have "sorted (map ev_time (rev pre))" using sorted_times [OF so] split by (metis map_append sorted_append)
  then have le: "\<forall>x\<in>set pre. ev_time x \<le> ev_time (hd pre)"
    using last_times [of "rev pre"] pne by (simp add: last_rev)
  with pre [OF pne] new split have "\<forall>x\<in>set (rev pre). ev_before x e"
    by (fastforce simp: ev_before_def)
  moreover have "\<forall>x\<in>set post. ev_before e x" using post by (simp add: ev_before_def)
  ultimately show "sorted_wrt ev_before (rev pre @ e # post)"
    using so split by (intro sorted_insert_at) simp_all
  show "mset (rev pre @ e # post) = add_mset e (mset es)" using split by auto
  show "ev_time (hd pre) < ev_time e \<longleftrightarrow> ev_time e \<notin> ev_times es"
  proof
    assume "ev_time (hd pre) < ev_time e"
    then have "\<forall>x\<in>set (rev pre @ post). ev_time x \<noteq> ev_time e" using le post by fastforce
    then show "ev_time e \<notin> ev_times es" unfolding split by (force simp: ev_times_def)
  next
    assume n: "ev_time e \<notin> ev_times es"
    have "hd pre \<in> set es" using pne split by (metis Un_iff hd_in_set set_append set_rev)
    then have "ev_time (hd pre) \<in> ev_times es" by (simp add: ev_times_def)
    with n pre [OF pne] show "ev_time (hd pre) < ev_time e" by (metis order_le_less)
  qed
qed

lemma cal_insert_ok:
  assumes inv: "cal_inv m c" and new: "newest e (cal_abs c)"
  shows "cal_inv n (cal_insert e c) \<and> cal_abs (cal_insert e c) = ls_insert e (cal_abs c)"
proof -
  define c1 where "c1 = (if cal_clock c > ev_time e
      then c\<lparr>cal_clock := ev_time e, cal_lastbucket := cal_hash c (ev_time e)\<rparr> else c)"
  let ?i = "cal_hash c (ev_time e)"
  let ?es = "b_list (cal_buckets c ! ?i)"
  have tbl: "tbl_ok c" and ev: "evs_ok (cal_events c)" using inv by (simp_all add: cal_inv_def)
  have time: "0 \<le> ev_time e" and uid: "\<forall>x\<in>set (cal_events c). ev_uid x < ev_uid e"
    using new by (simp_all add: newest_def cal_abs_def)
  have c1: "tbl_ok c1" "cal_events c1 = cal_events c" "cal_hash c1 = cal_hash c" "cal_buckets c1 = cal_buckets c"
    "cal_insert_search c1 = cal_insert_search c"
    using tbl by (auto simp: c1_def cal_hash_def [abs_def])
  have i: "?i < cal_nbuckets c"
    using tbl time CALENDAR_HASH_less by (simp add: cal_hash_def tbl_ok_def)
  then have so: "sorted_wrt ev_before ?es" and sub: "set ?es \<subseteq> set (cal_events c)"
    using tbl bucket_events [of ?i c] by (simp_all add: tbl_ok_def bucket_ok_def)
  define c2 where "c2 = (case ?es of
      [] \<Rightarrow> cal_put ?i [e] True c1
    | head # _ \<Rightarrow>
        (let c = c1\<lparr>cal_insert_search := cal_insert_search c1 + 1\<rparr> in
         if ev_time e < ev_time head then cal_put ?i (e # ?es) True c
         else (case scan_back (ev_time e) (rev ?es) [] 0 of
                (pre, post, k) \<Rightarrow>
                  let c = c\<lparr>cal_insert_search := cal_insert_search c + k\<rparr>
                  in cal_put ?i (rev pre @ e # post) (ev_time (hd pre) < ev_time e) c)))"
  have ins: "cal_insert e c = (if cal_stat_qsize c2 > cal_top_threshold c2
      then cal_resize (2 * cal_nbuckets c2) (cal_clock c2) c2 else c2)"
    unfolding cal_insert_def Let_def c1_def [symmetric]
    by (simp only: c1 c2_def Let_def)
  have put: "tbl_ok (cal_put ?i es' u d) \<and> mset (cal_events (cal_put ?i es' u d)) = add_mset e (mset (cal_events c)) \<and>
      cal_frame c1 (cal_put ?i es' u d)"
    if "sorted_wrt ev_before es'" "mset es' = add_mset e (mset ?es)" "u \<longleftrightarrow> ev_time e \<notin> ev_times ?es"
      "d = c1\<lparr>cal_insert_search := j\<rparr>" for es' u d j
    using put_ok [of d e ?i es' u] that c1 time
    by (simp add: cal_hash_def cal_frame_def) (simp add: cal_hash_def [abs_def] fun_eq_iff)
  have "tbl_ok c2 \<and> mset (cal_events c2) = add_mset e (mset (cal_events c)) \<and> cal_frame c1 c2"
  proof (cases ?es)
    case Nil
    with put [of "[e]" True c1 "cal_insert_search c1"] show ?thesis by (simp add: c2_def ev_times_def)
  next
    case (Cons head t)
    show ?thesis
    proof (cases "ev_time e < ev_time head")
      case True
      have "\<forall>x\<in>set ?es. ev_time e < ev_time x"
        using hd_times [OF sorted_times [OF so]] True Cons by fastforce
      then have "sorted_wrt ev_before (e # ?es)" "ev_time e \<notin> ev_times ?es"
        using so by (auto simp: ev_before_def ev_times_def)
      with put [of "e # ?es" True "c1\<lparr>cal_insert_search := cal_insert_search c1 + 1\<rparr>" "cal_insert_search c1 + 1"] True Cons
      show ?thesis by (simp add: c2_def Let_def)
    next
      case False
      obtain pre post k where sc: "scan_back (ev_time e) (rev ?es) [] 0 = (pre, post, k)" by (metis prod_cases3)
      have "?es \<noteq> []" "\<not> ev_time e < ev_time (hd ?es)" "\<forall>x\<in>set ?es. ev_uid x < ev_uid e"
        using Cons False sub uid by auto
      note r = scan_insert [OF so this sc]
      have "c2 = cal_put ?i (rev pre @ e # post) (ev_time (hd pre) < ev_time e)
          (c1\<lparr>cal_insert_search := cal_insert_search c1 + 1 + k\<rparr>)"
        using False Cons sc by (simp add: c2_def Let_def)
      with put [OF r refl] show ?thesis by simp
    qed
  qed
  then have c2: "tbl_ok c2" "mset (cal_events c2) = add_mset e (mset (cal_events c))" "cal_frame c1 c2" by auto
  have "newest e (cal_events c)" using new newest_set [of "cal_abs c" "cal_events c"] by (simp add: cal_abs_def)
  note srt = ev_sort_insert [OF ev this c2(2)]
  have "set (cal_events c2) = insert e (set (cal_events c))"
    using c2(2) by (metis set_mset_mset set_mset_add_mset_insert)
  moreover have "\<forall>x\<in>insert e (set (cal_events c)). cal_clock c1 \<le> ev_time x"
    "0 \<le> cal_clock c1" "\<not> cal_abort c1" "cal_lastbucket c1 = cal_hash c1 (cal_clock c1)"
    using inv time by (auto simp: c1_def cal_inv_def cal_hash_def)
  ultimately have inv2: "cal_inv n c2"
    using c2(1,3) srt(2) by (simp add: cal_inv_def cal_frame_def cal_hash_def)
  have abs2: "cal_abs c2 = ls_insert e (cal_abs c)" using srt(1) by (simp add: cal_abs_def)
  show ?thesis
  proof (cases "cal_stat_qsize c2 > cal_top_threshold c2")
    case True
    have "0 < 2 * cal_nbuckets c2" using c2(1) by (simp add: tbl_ok_def)
    from resize_keeps [OF inv2 this] have k: "cal_keeps n c2 (cal_insert e c)" using True ins by simp
    have "ls_ok (cal_abs c2)" using inv2 by (simp add: cal_abs_def ev_sort_ok cal_inv_def)
    then have "cal_abs (cal_insert e c) = cal_abs c2"
      unfolding cal_abs_def [of "cal_insert e c"] using k
      by (intro ev_sort_unique) (simp_all add: cal_keeps_def cal_abs_def)
    with k abs2 show ?thesis by (simp add: cal_keeps_def)
  next
    case False
    with ins inv2 abs2 show ?thesis by simp
  qed
qed

end
