(* ===== verification/CalendarHead.thy ===== *)
theory CalendarHead
  imports CalendarLaws
begin

text \<open>
  The search for the next event.  An event of time \<open>t\<close> lies in the cell \<open>\<lfloor>t / width\<rfloor>\<close>; the
  probes look at one cell after the other, in the bucket it shares with the cells a whole
  number of years away, and a bucket whose head is too far ahead has nothing in that cell.
\<close>

definition cell :: "cal \<Rightarrow> real \<Rightarrow> int" where
  "cell c t = \<lfloor>t / cal_width c\<rfloor>"

definition cell0 :: "cal \<Rightarrow> int" where
  "cell0 c = cell c (cal_clock c)"

definition nth_bucket :: "cal \<Rightarrow> nat \<Rightarrow> nat" where
  "nth_bucket c k = nat ((cell0 c + int k) mod int (cal_nbuckets c))"

definition bucket_at :: "cal \<Rightarrow> nat \<Rightarrow> event list" where
  "bucket_at c k = b_list (cal_buckets c ! nth_bucket c k)"

definition nth_diff :: "cal \<Rightarrow> nat \<Rightarrow> real" where
  "nth_diff c k = (if k = 0 then cal_diff0 c else if k = 1 then cal_diff1 c else cal_diff2 c)"

definition first_event :: "cal \<Rightarrow> nat \<Rightarrow> event \<Rightarrow> bool" where
  "first_event c l e \<longleftrightarrow> l < cal_nbuckets c \<and> (\<exists>t. b_list (cal_buckets c ! l) = e # t) \<and>
     (\<forall>x\<in>set (cal_events c). ev_time e \<le> ev_time x)"

lemma cell_bounds:
  assumes "0 < cal_width c"
  shows "of_int (cell c t) * cal_width c \<le> t" "t < (of_int (cell c t) + 1) * cal_width c"
proof -
  have "of_int (cell c t) \<le> t / cal_width c" "t / cal_width c < of_int (cell c t) + 1"
    by (simp_all add: cell_def)
  with assms show "of_int (cell c t) * cal_width c \<le> t" "t < (of_int (cell c t) + 1) * cal_width c"
    by (simp_all add: field_simps)
qed

lemma nth_bucket_less: "4 \<le> cal_nbuckets c \<Longrightarrow> nth_bucket c k < cal_nbuckets c"
  by (simp add: nth_bucket_def nat_less_iff)

lemma nth_bucket_inj:
  assumes "4 \<le> cal_nbuckets c" "j < cal_nbuckets c" "k < cal_nbuckets c" "nth_bucket c j = nth_bucket c k"
  shows "j = k"
proof -
  let ?n = "int (cal_nbuckets c)"
  have "(cell0 c + int j) mod ?n = (cell0 c + int k) mod ?n"
    using assms(1,4) by (simp add: nth_bucket_def eq_nat_nat_iff)
  then have "(int j) mod ?n = (int k) mod ?n" by (metis add_diff_cancel_left' mod_diff_left_eq)
  with assms(2,3) show ?thesis by simp
qed

lemma nth_bucket_surj:
  assumes "4 \<le> cal_nbuckets c" "i < cal_nbuckets c"
  shows "\<exists>k<cal_nbuckets c. nth_bucket c k = i"
proof -
  let ?n = "int (cal_nbuckets c)"
  let ?k = "nat ((int i - cell0 c) mod ?n)"
  have "(cell0 c + int ?k) mod ?n = int i"
    using assms by (simp add: mod_add_right_eq)
  moreover have "?k < cal_nbuckets c" using assms by (simp add: nat_less_iff)
  ultimately show ?thesis by (auto simp: nth_bucket_def)
qed

lemma nth_bucket_Suc:
  assumes "4 \<le> cal_nbuckets c"
  shows "(if nth_bucket c k + 1 = cal_nbuckets c then 0 else nth_bucket c k + 1) = nth_bucket c (Suc k)"
proof -
  let ?n = "int (cal_nbuckets c)" and ?x = "cell0 c + int k"
  have n: "0 < ?n" using assms by simp
  have "(?x + 1) mod ?n = (?x mod ?n + 1) mod ?n" by (simp add: mod_add_left_eq)
  also have "\<dots> = (if ?x mod ?n + 1 = ?n then 0 else ?x mod ?n + 1)"
    using n pos_mod_bound [OF n, of ?x] pos_mod_sign [OF n, of ?x] by simp
  finally have "(?x + 1) mod ?n = (if ?x mod ?n + 1 = ?n then 0 else ?x mod ?n + 1)" .
  moreover have "nth_bucket c k + 1 = cal_nbuckets c \<longleftrightarrow> ?x mod ?n + 1 = ?n"
  proof -
    have "int (nat (?x mod ?n)) = ?x mod ?n" using pos_mod_sign [OF n, of ?x] by simp
    then show ?thesis unfolding nth_bucket_def by linarith
  qed
  moreover have "nth_bucket c (Suc k) = nat ((?x + 1) mod ?n)" by (simp add: nth_bucket_def add_ac)
  ultimately show ?thesis
    using pos_mod_sign [OF n, of ?x] by (auto simp: nth_bucket_def nat_add_distrib)
qed

text \<open>Facts about the events of a calendar queue that meets its invariant.\<close>

lemma cal_basic:
  assumes "cal_inv n c"
  shows "4 \<le> cal_nbuckets c" "0 < cal_width c" "length (cal_buckets c) = cal_nbuckets c" "0 \<le> cal_clock c"
    "cal_lastbucket c = nth_bucket c 0"
  using assms
  by (simp_all add: cal_inv_def tbl_ok_def cal_hash_def CALENDAR_HASH_eq nth_bucket_def cell0_def cell_def)

lemma at_bucket:
  assumes "cal_inv n c" "x \<in> set (bucket_at c k)" "k < cal_nbuckets c"
  shows "x \<in> set (cal_events c)" "\<exists>j\<ge>0. cell c (ev_time x) = cell0 c + int k + j * int (cal_nbuckets c)"
    "ev_time (hd (bucket_at c k)) \<le> ev_time x"
proof -
  note b = cal_basic [OF assms(1)]
  let ?n = "int (cal_nbuckets c)"
  have i: "nth_bucket c k < length (cal_buckets c)" using nth_bucket_less [OF b(1)] b(3) by simp
  then have ok: "bucket_ok (cal_width c) (cal_nbuckets c) (nth_bucket c k) (cal_buckets c ! nth_bucket c k)"
    using assms(1) b(3) by (simp add: cal_inv_def tbl_ok_def)
  show ev: "x \<in> set (cal_events c)" using bucket_events [OF i] assms(2) by (auto simp: bucket_at_def)
  show "ev_time (hd (bucket_at c k)) \<le> ev_time x"
    using ok assms(2) by (intro hd_times sorted_times) (auto simp: bucket_ok_def bucket_at_def)
  have "CALENDAR_HASH (cal_width c) (cal_nbuckets c) (ev_time x) = nth_bucket c k" "0 \<le> ev_time x"
    using ok assms(2) by (simp_all add: bucket_ok_def bucket_at_def)
  then have "cell c (ev_time x) mod ?n = (cell0 c + int k) mod ?n"
    using b(1,2) by (simp add: CALENDAR_HASH_eq nth_bucket_def cell_def eq_nat_nat_iff)
  then have "?n dvd cell c (ev_time x) - (cell0 c + int k)" by (simp add: mod_eq_dvd_iff)
  then obtain j where j: "cell c (ev_time x) - (cell0 c + int k) = ?n * j" by (elim dvdE)
  have "cal_clock c \<le> ev_time x" using assms(1) ev by (simp add: cal_inv_def)
  then have "cell0 c \<le> cell c (ev_time x)"
    using b(2) by (simp add: cell0_def cell_def floor_mono divide_right_mono)
  with j assms(3) have "?n * j > ?n * (- 1)" by simp
  then have "j > - 1" unfolding mult_less_cancel_left using b(1) by simp
  with j show "\<exists>j\<ge>0. cell c (ev_time x) = cell0 c + int k + j * ?n"
    by (intro exI [of _ j]) (simp add: algebra_simps)
qed

lemma cell_far:
  assumes "x + int k + int n \<le> y" "0 < w"
  shows "(of_int x + real k + real n) * w \<le> of_int y * w"
proof (rule mult_right_mono)
  have "of_int (x + int k + int n) \<le> (of_int y :: real)" using assms(1) by (simp only: of_int_le_iff)
  then show "of_int x + real k + real n \<le> of_int y" by simp
qed (use assms(2) in simp)

lemma hit:
  assumes "cal_inv n c" "x \<in> set (bucket_at c k)" "k < cal_nbuckets c" "ev_time x - cal_clock c < nth_diff c k"
  shows "cell c (ev_time x) = cell0 c + int k"
proof (rule ccontr)
  assume ne: "cell c (ev_time x) \<noteq> cell0 c + int k"
  note b = cal_basic [OF assms(1)]
  let ?w = "cal_width c" and ?n = "real (cal_nbuckets c)" and ?q = "of_int (cell0 c) :: real"
  from at_bucket(2) [OF assms(1-3)] obtain j where j: "0 \<le> j" "cell c (ev_time x) = cell0 c + int k + j * int (cal_nbuckets c)"
    by blast
  with ne have "1 \<le> j" by (cases "j = 0") auto
  then have "1 * int (cal_nbuckets c) \<le> j * int (cal_nbuckets c)" by (intro mult_right_mono) auto
  with j(2) have "cell0 c + int k + int (cal_nbuckets c) \<le> cell c (ev_time x)" by simp
  then have "(?q + real k + ?n) * ?w \<le> of_int (cell c (ev_time x)) * ?w"
    using b(2) by (rule cell_far)
  also have "\<dots> \<le> ev_time x" by (rule cell_bounds [OF b(2)])
  finally have "(?q + real k + ?n) * ?w - (?q + 1) * ?w < ev_time x - cal_clock c"
    using cell_bounds(2) [OF b(2), of "cal_clock c"] by (simp add: cell0_def)
  then have far: "(real k + ?n - 1) * ?w < ev_time x - cal_clock c" by (simp add: algebra_simps)
  have n4: "4 \<le> ?n" using b(1) by simp
  have "nth_diff c k \<le> (real k + ?n - 1) * ?w"
  proof -
    have d: "cal_diff0 c = ?n / 2 * ?w" "cal_diff1 c = (?n / 2 + 1) * ?w" "cal_diff2 c = ?n * ?w"
      using assms(1) by (simp_all add: cal_inv_def tbl_ok_def algebra_simps)
    have m: "a * ?w \<le> (real k + ?n - 1) * ?w" if "a \<le> real k + ?n - 1" for a
      using that b(2) by (intro mult_right_mono) auto
    show ?thesis
      unfolding nth_diff_def d using n4 m [of "?n / 2"] m [of "?n / 2 + 1"] m [of ?n]
      by (cases "k = 0"; cases "k = 1") (simp_all del: mult_le_cancel_right)
  qed
  with far assms(4) show False by simp
qed

lemma miss:
  assumes "cal_inv n c" "x \<in> set (bucket_at c k)" "k < cal_nbuckets c" "cell c (ev_time x) = cell0 c + int k"
  shows "ev_time x - cal_clock c < nth_diff c k"
proof -
  note b = cal_basic [OF assms(1)]
  let ?w = "cal_width c" and ?n = "real (cal_nbuckets c)" and ?q = "of_int (cell0 c) :: real"
  have "ev_time x < (?q + real k + 1) * ?w"
    using cell_bounds(2) [OF b(2), of "ev_time x"] by (simp add: assms(4))
  moreover have "?q * ?w \<le> cal_clock c" using cell_bounds(1) [OF b(2), of "cal_clock c"] by (simp add: cell0_def)
  ultimately have near: "ev_time x - cal_clock c < (real k + 1) * ?w" by (simp add: algebra_simps)
  have n4: "4 \<le> ?n" "real k + 1 \<le> ?n" using b(1) assms(3) by simp_all
  have d: "cal_diff0 c = ?n / 2 * ?w" "cal_diff1 c = (?n / 2 + 1) * ?w" "cal_diff2 c = ?n * ?w"
    using assms(1) by (simp_all add: cal_inv_def tbl_ok_def algebra_simps)
  have m: "(real k + 1) * ?w \<le> a * ?w" if "real k + 1 \<le> a" for a
    using that b(2) by (intro mult_right_mono) auto
  have "(real k + 1) * ?w \<le> nth_diff c k"
    unfolding nth_diff_def d using n4 m [of "?n / 2"] m [of "?n / 2 + 1"] m [of ?n]
    by (cases "k = 0"; cases "k = 1") (simp_all del: mult_le_cancel_right)
  with near show ?thesis by simp
qed

lemma cell_less: "cell c s < cell c t \<Longrightarrow> 0 < cal_width c \<Longrightarrow> s < t"
  unfolding cell_def by (metis divide_right_mono floor_mono leD leI less_imp_le)

lemma every_bucket:
  assumes "cal_inv n c" "x \<in> set (cal_events c)"
  shows "\<exists>j<cal_nbuckets c. x \<in> set (bucket_at c j)"
proof -
  have t: "tbl_ok c" using assms(1) by (simp add: cal_inv_def)
  from nth_bucket_surj [OF cal_basic(1) [OF assms(1)] tbl_events_bucket(2) [OF t assms(2)]]
  obtain j where "j < cal_nbuckets c" "nth_bucket c j = cal_hash c (ev_time x)" by blast
  with tbl_events_bucket(3) [OF t assms(2)] show ?thesis by (auto simp: bucket_at_def)
qed

text \<open>What the probes of the first \<open>k\<close> buckets have established.\<close>

definition probed :: "cal \<Rightarrow> nat \<Rightarrow> probe \<Rightarrow> bool" where
  "probed c k = (\<lambda>(i, l, m, hs). i = nth_bucket c k \<and>
     (\<forall>j<k. \<forall>x\<in>set (bucket_at c j). cell c (ev_time x) \<noteq> cell0 c + int j) \<and>
     (case m of
        None \<Rightarrow> \<forall>j<k. bucket_at c j = []
      | Some e \<Rightarrow> (\<exists>j<k. l = Some (nth_bucket c j) \<and> (\<exists>t. bucket_at c j = e # t)) \<and>
                  (\<forall>j<k. \<forall>x\<in>set (bucket_at c j). ev_time e \<le> ev_time x)))"

lemma hit_first:
  assumes inv: "cal_inv n c" and k: "k < cal_nbuckets c" and bk: "bucket_at c k = e # t"
    and before: "\<forall>j<k. \<forall>x\<in>set (bucket_at c j). cell c (ev_time x) \<noteq> cell0 c + int j"
    and near: "ev_time e - cal_clock c < nth_diff c k"
  shows "first_event c (nth_bucket c k) e"
  unfolding first_event_def
proof (intro conjI ballI)
  note b = cal_basic [OF inv]
  show "nth_bucket c k < cal_nbuckets c" by (rule nth_bucket_less [OF b(1)])
  show "\<exists>t. b_list (cal_buckets c ! nth_bucket c k) = e # t" using bk by (simp add: bucket_at_def)
  have e: "cell c (ev_time e) = cell0 c + int k" using bk by (intro hit [OF inv _ k near]) simp
  fix x assume "x \<in> set (cal_events c)"
  from every_bucket [OF inv this] obtain j where j: "j < cal_nbuckets c" "x \<in> set (bucket_at c j)" by blast
  from at_bucket(2) [OF inv j(2,1)] obtain a where a: "0 \<le> a" "cell c (ev_time x) = cell0 c + int j + a * int (cal_nbuckets c)"
    by blast
  consider "j < k" | "j = k" | "k < j" by linarith
  then show "ev_time e \<le> ev_time x"
  proof cases
    case 1
    with before j(2) a(2) have "a \<noteq> 0" by auto
    with a(1) have "1 * int (cal_nbuckets c) \<le> a * int (cal_nbuckets c)" by (intro mult_right_mono) auto
    then have "int k < int j + a * int (cal_nbuckets c)" using k by linarith
    with a(2) have "cell c (ev_time e) < cell c (ev_time x)" by (simp add: e)
    then show ?thesis using cell_less [OF _ b(2)] by (simp add: less_imp_le)
  next
    case 2
    with at_bucket(3) [OF inv j(2,1)] bk show ?thesis by simp
  next
    case 3
    moreover have "0 \<le> a * int (cal_nbuckets c)" using a(1) by simp
    ultimately have "cell c (ev_time e) < cell c (ev_time x)" using a(2) by (simp add: e)
    then show ?thesis using cell_less [OF _ b(2)] by (simp add: less_imp_le)
  qed
qed

lemma probe_step:
  assumes inv: "cal_inv n c" and k: "k < cal_nbuckets c" and p: "probed c k p"
  shows "case CAL_DEQUEUE (nth_diff c k) c p of
           Inl (l, e, hs) \<Rightarrow> first_event c l e
         | Inr p' \<Rightarrow> probed c (Suc k) p'"
proof -
  obtain i l m hs where pp: "p = (i, l, m, hs)" by (metis prod_cases4)
  have i: "i = nth_bucket c k"
    and before: "\<forall>j<k. \<forall>x\<in>set (bucket_at c j). cell c (ev_time x) \<noteq> cell0 c + int j"
    and min: "case m of
        None \<Rightarrow> \<forall>j<k. bucket_at c j = []
      | Some e \<Rightarrow> (\<exists>j<k. l = Some (nth_bucket c j) \<and> (\<exists>t. bucket_at c j = e # t)) \<and>
                  (\<forall>j<k. \<forall>x\<in>set (bucket_at c j). ev_time e \<le> ev_time x)"
    using p by (simp_all add: pp probed_def)
  note b = cal_basic [OF inv]
  have suc: "(if i + 1 = cal_nbuckets c then 0 else i + 1) = nth_bucket c (Suc k)"
    unfolding i by (rule nth_bucket_Suc [OF b(1)])
  have buck: "b_list (cal_buckets c ! i) = bucket_at c k" by (simp add: i bucket_at_def)
  note deq = CAL_DEQUEUE_def [of "nth_diff c k" c, THEN fun_cong, of p, unfolded pp prod.case Let_def suc buck, folded pp]
  show ?thesis
  proof (cases "bucket_at c k")
    case Nil
    with before min have "probed c (Suc k) (nth_bucket c (Suc k), l, m, hs + 1)"
      by (cases m) (auto simp: probed_def less_Suc_eq)
    with Nil show ?thesis by (simp add: deq)
  next
    case (Cons e t)
    have hd_le: "\<forall>x\<in>set (bucket_at c k). ev_time e \<le> ev_time x"
      using at_bucket(3) [OF inv _ k] Cons by simp
    show ?thesis
    proof (cases "ev_time e - cal_clock c < nth_diff c k")
      case True
      with hit_first [OF inv k Cons before True] Cons show ?thesis
        by (simp add: deq i)
    next
      case False
      have "cell c (ev_time x) \<noteq> cell0 c + int k" if "x \<in> set (bucket_at c k)" for x
        using miss [OF inv that k] hd_le that False by fastforce
      with before have before': "\<forall>j<Suc k. \<forall>x\<in>set (bucket_at c j). cell c (ev_time x) \<noteq> cell0 c + int j"
        by (auto simp: less_Suc_eq)
      have here: "probed c (Suc k) (nth_bucket c (Suc k), Some i, Some e, h)"
        if "\<forall>j<k. \<forall>x\<in>set (bucket_at c j). ev_time e \<le> ev_time x" for h
        using before' that hd_le Cons by (auto simp: probed_def less_Suc_eq i)
      show ?thesis
      proof (cases m)
        case None
        with False Cons here min show ?thesis by (simp add: deq)
      next
        case (Some m')
        show ?thesis
        proof (cases "ev_time m' > ev_time e")
          case True
          with Some min have "\<forall>j<k. \<forall>x\<in>set (bucket_at c j). ev_time e \<le> ev_time x" by fastforce
          with False True Cons Some here show ?thesis by (simp add: deq)
        next
          case le: False
          have "\<forall>x\<in>set (bucket_at c k). ev_time m' \<le> ev_time x" using le hd_le by fastforce
          with min Some before' have "probed c (Suc k) (nth_bucket c (Suc k), l, m, hs + 1)"
            by (auto simp: probed_def less_Suc_eq)
          with False le Cons Some show ?thesis by (simp add: deq)
        qed
      qed
    qed
  qed
qed

text \<open>The whole search: two probes, then the loop.\<close>

lemma nth_diff_more: "2 \<le> k \<Longrightarrow> nth_diff c k = cal_diff2 c"
  by (simp add: nth_diff_def)

lemma search_ok:
  assumes inv: "cal_inv n c"
  shows "2 \<le> k \<Longrightarrow> k \<le> cal_nbuckets c - 1 \<Longrightarrow> cal_nbuckets c - 1 \<le> k + f \<Longrightarrow> probed c k p \<Longrightarrow>
    case cal_search f (nth_bucket c (cal_nbuckets c - 1)) c p of
      Inl (l, e, hs) \<Rightarrow> first_event c l e
    | Inr p' \<Rightarrow> probed c (cal_nbuckets c - 1) p'"
proof (induction f arbitrary: k p)
  case 0
  then have "k = cal_nbuckets c - 1" by simp
  with 0(4) show ?case by simp
next
  case (Suc f)
  let ?d = "nth_bucket c (cal_nbuckets c - 1)"
  have fst: "fst p = nth_bucket c k" using Suc.prems(4) by (auto simp: probed_def)
  have b: "4 \<le> cal_nbuckets c" by (rule cal_basic [OF inv])
  show ?case
  proof (cases "k = cal_nbuckets c - 1")
    case True
    with Suc.prems(4) fst show ?thesis by simp
  next
    case False
    then have k: "k < cal_nbuckets c" "k \<le> cal_nbuckets c - 1 - 1" using Suc.prems(2) by auto
    have "fst p \<noteq> ?d" unfolding fst using nth_bucket_inj [OF b k(1), of "cal_nbuckets c - 1"] b False by auto
    moreover note probe_step [OF inv k(1) Suc.prems(4), unfolded nth_diff_more [OF Suc.prems(1)]]
    moreover have "2 \<le> Suc k" "Suc k \<le> cal_nbuckets c - 1" "cal_nbuckets c - 1 \<le> Suc k + f"
      using Suc.prems(1,3) k b by auto
    note Suc.IH [OF this]
    ultimately show ?thesis by (cases "CAL_DEQUEUE (cal_diff2 c) c p") simp_all
  qed
qed

lemma last_probe:
  assumes "cal_inv n c"
  shows "(if cal_lastbucket c \<noteq> 0 then cal_lastbucket c - 1 else cal_nbuckets c - 1) = nth_bucket c (cal_nbuckets c - 1)"
proof -
  note b = cal_basic [OF assms]
  let ?m = "nth_bucket c (cal_nbuckets c - 1)"
  have "nth_bucket c (Suc (cal_nbuckets c - 1)) = nth_bucket c 0"
    using b(1) by (simp add: nth_bucket_def)
  then have "(if ?m + 1 = cal_nbuckets c then 0 else ?m + 1) = cal_lastbucket c"
    using nth_bucket_Suc [OF b(1), of "cal_nbuckets c - 1"] b(5) by simp
  then show ?thesis by (auto split: if_splits)
qed

lemma probes_ok:
  assumes inv: "cal_inv n c"
  shows "case cal_probes c of
      Inl (l, e, hs) \<Rightarrow> first_event c l e
    | Inr p' \<Rightarrow> probed c (cal_nbuckets c - 1) p'"
proof -
  note b = cal_basic [OF inv]
  let ?N = "cal_nbuckets c"
  have p0: "probed c 0 (cal_lastbucket c, None, None, cal_head_search c)" by (simp add: probed_def b(5))
  have d: "cal_diff0 c = nth_diff c 0" "cal_diff1 c = nth_diff c 1" by (simp_all add: nth_diff_def)
  have one: "case CAL_DEQUEUE (nth_diff c 1) c p of Inl (l, e, hs) \<Rightarrow> first_event c l e | Inr p' \<Rightarrow> probed c 2 p'"
    if "probed c 1 p" for p
    using probe_step [OF inv _ that] b(1) unfolding numeral_2_eq_2 One_nat_def by simp
  have two: "case cal_search ?N (nth_bucket c (?N - 1)) c p of
      Inl (l, e, hs) \<Rightarrow> first_event c l e | Inr p' \<Rightarrow> probed c (?N - 1) p'" if "probed c 2 p" for p
    using b(1) by (intro search_ok [OF inv _ _ _ that]) simp_all
  have zero: "case CAL_DEQUEUE (nth_diff c 0) c (cal_lastbucket c, None, None, cal_head_search c) of
      Inl (l, e, hs) \<Rightarrow> first_event c l e | Inr p' \<Rightarrow> probed c 1 p'"
    using probe_step [OF inv _ p0] b(1) unfolding One_nat_def by simp
  show ?thesis
    unfolding cal_probes_def Let_def last_probe [OF inv] d
  proof (cases "CAL_DEQUEUE (nth_diff c 0) c (cal_lastbucket c, None, None, cal_head_search c)")
    case (Inl f)
    with zero show "case (case CAL_DEQUEUE (nth_diff c 0) c (cal_lastbucket c, None, None, cal_head_search c) of
        Inl f \<Rightarrow> Inl f
      | Inr p \<Rightarrow> case CAL_DEQUEUE (nth_diff c 1) c p of
            Inl f \<Rightarrow> Inl f
          | Inr p \<Rightarrow> cal_search ?N (nth_bucket c (?N - 1)) c p) of
        Inl (l, e, hs) \<Rightarrow> first_event c l e
      | Inr p' \<Rightarrow> probed c (?N - 1) p'" by simp
  next
    case (Inr p)
    with zero have p: "probed c 1 p" by simp
    show "case (case CAL_DEQUEUE (nth_diff c 0) c (cal_lastbucket c, None, None, cal_head_search c) of
        Inl f \<Rightarrow> Inl f
      | Inr p \<Rightarrow> case CAL_DEQUEUE (nth_diff c 1) c p of
            Inl f \<Rightarrow> Inl f
          | Inr p \<Rightarrow> cal_search ?N (nth_bucket c (?N - 1)) c p) of
        Inl (l, e, hs) \<Rightarrow> first_event c l e
      | Inr p' \<Rightarrow> probed c (?N - 1) p'"
      using one [OF p] two Inr by (cases "CAL_DEQUEUE (nth_diff c 1) c p") simp_all
  qed
qed

subsection \<open>\<open>head\<close>\<close>

lemma first_event_mem: "first_event c l e \<Longrightarrow> length (cal_buckets c) = cal_nbuckets c \<Longrightarrow> e \<in> set (cal_events c)"
  using bucket_events [of l c] by (auto simp: first_event_def)

text \<open>The comparison after the loop takes the last bucket into account.\<close>

lemma probed_last:
  assumes inv: "cal_inv n c" and p: "probed c (cal_nbuckets c - 1) (i, l, m, hs)" and ne: "cal_events c \<noteq> []"
  shows "\<exists>j e. first_event c j e \<and>
    (case (m, b_list (cal_buckets c ! i)) of
       (Some m, []) \<Rightarrow> (the l, Some m)
     | (Some m, x # _) \<Rightarrow> if ev_time m < ev_time x then (the l, Some m) else (i, Some x)
     | (None, x # _) \<Rightarrow> (i, Some x)
     | (None, []) \<Rightarrow> (i, None)) = (j, Some e)"
proof -
  note b = cal_basic [OF inv]
  let ?N = "cal_nbuckets c"
  have i: "i = nth_bucket c (?N - 1)" "i < ?N" using p nth_bucket_less [OF b(1)] by (auto simp: probed_def)
  have buck: "b_list (cal_buckets c ! i) = bucket_at c (?N - 1)" by (simp add: i(1) bucket_at_def)
  have split: "(\<forall>x\<in>set (cal_events c). P x)"
    if "\<forall>j<?N - 1. \<forall>x\<in>set (bucket_at c j). P x" "\<forall>x\<in>set (bucket_at c (?N - 1)). P x" for P
  proof
    fix x assume "x \<in> set (cal_events c)"
    from every_bucket [OF inv this] obtain j where j: "j < ?N" "x \<in> set (bucket_at c j)" by blast
    then have "j < ?N - 1 \<or> j = ?N - 1" by linarith
    with that j(2) show "P x" by blast
  qed
  have hd_le: "ev_time y \<le> ev_time x" if "bucket_at c (?N - 1) = y # t" "x \<in> set (bucket_at c (?N - 1))" for x y t
    using at_bucket(3) [OF inv that(2)] that(1) b(1) by simp
  show ?thesis
  proof (cases m)
    case None
    then have emp: "\<forall>j<?N - 1. bucket_at c j = []" using p by (simp add: probed_def)
    show ?thesis
    proof (cases "bucket_at c (?N - 1)")
      case Nil
      then have "\<forall>x\<in>set (cal_events c). False" using emp by (intro split) auto
      with ne show ?thesis by simp
    next
      case (Cons y t)
      then have "\<forall>x\<in>set (cal_events c). ev_time y \<le> ev_time x" using emp hd_le [OF Cons] by (intro split) auto
      with None Cons i(2) show ?thesis by (auto simp: buck first_event_def)
    qed
  next
    case (Some m')
    then obtain j t where j: "j < ?N - 1" "l = Some (nth_bucket c j)" "bucket_at c j = m' # t"
      and le: "\<forall>j<?N - 1. \<forall>x\<in>set (bucket_at c j). ev_time m' \<le> ev_time x"
      using p by (auto simp: probed_def)
    have jl: "nth_bucket c j < ?N" "b_list (cal_buckets c ! nth_bucket c j) = m' # t"
      using nth_bucket_less [OF b(1)] j(3) by (simp_all add: bucket_at_def)
    have old: "first_event c (nth_bucket c j) m'" if "\<forall>x\<in>set (bucket_at c (?N - 1)). ev_time m' \<le> ev_time x"
      using split [OF le that] jl by (simp add: first_event_def)
    show ?thesis
    proof (cases "bucket_at c (?N - 1)")
      case Nil
      with old Some j(2) show ?thesis by (simp add: buck)
    next
      case (Cons y u)
      show ?thesis
      proof (cases "ev_time m' < ev_time y")
        case True
        then have "\<forall>x\<in>set (bucket_at c (?N - 1)). ev_time m' \<le> ev_time x" using hd_le [OF Cons] by fastforce
        with old Some j(2) Cons True show ?thesis by (simp add: buck)
      next
        case False
        have "\<forall>x\<in>set (cal_events c). ev_time y \<le> ev_time x"
          using le False hd_le [OF Cons] by (intro split) fastforce+
        with Cons i(2) Some False show ?thesis by (simp add: buck first_event_def)
      qed
    qed
  qed
qed

lemma cal_qsize_empty: "tbl_ok c \<Longrightarrow> cal_qsize c = 0 \<longleftrightarrow> cal_events c = []"
  by (simp add: tbl_ok_def)

lemma cal_head_ok:
  assumes inv: "cal_inv n c" and ne: "cal_events c \<noteq> []"
  shows "\<exists>l e hs. cal_head c = (Some e, c\<lparr>cal_head_search := hs, cal_lastbucket := l, cal_clock := ev_time e\<rparr>) \<and>
    first_event c l e"
proof -
  have q: "cal_qsize c \<noteq> 0" using inv ne cal_qsize_empty by (auto simp: cal_inv_def)
  show ?thesis
  proof (cases "cal_probes c")
    case (Inl f)
    then show ?thesis using probes_ok [OF inv] q by (cases f) (auto simp: cal_head_def Let_def)
  next
    case (Inr p)
    obtain i l m hs where p: "p = (i, l, m, hs)" by (metis prod_cases4)
    have "probed c (cal_nbuckets c - 1) (i, l, m, hs)" using probes_ok [OF inv] Inr p by simp
    from probed_last [OF inv this ne] show ?thesis
      using q Inr p by (auto simp: cal_head_def Let_def split: option.splits list.splits if_splits)
  qed
qed

text \<open>Events of one time share a bucket, so the event found is first among them too.\<close>

lemma first_event_key:
  assumes inv: "cal_inv n c" and f: "first_event c l e" and x: "x \<in> set (cal_events c)"
  shows "ev_key e \<le> ev_key x"
proof -
  have t: "tbl_ok c" using inv by (simp add: cal_inv_def)
  from f obtain r where r: "l < cal_nbuckets c" "b_list (cal_buckets c ! l) = e # r"
    and le: "ev_time e \<le> ev_time x" using x by (auto simp: first_event_def)
  have ok: "bucket_ok (cal_width c) (cal_nbuckets c) l (cal_buckets c ! l)"
    using t r(1) by (simp add: tbl_ok_def)
  show ?thesis
  proof (cases "ev_time x = ev_time e")
    case True
    have "CALENDAR_HASH (cal_width c) (cal_nbuckets c) (ev_time e) = l" using ok r(2) by (simp add: bucket_ok_def)
    then have "x \<in> set (e # r)" using tbl_events_bucket(3) [OF t x] True r(2) by (simp add: cal_hash_def)
    then have "x = e \<or> ev_before e x" using ok r(2) by (auto simp: bucket_ok_def)
    then show ?thesis by (auto simp: ev_before_key)
  next
    case False
    with le have "ev_before e x" by (simp add: ev_before_def)
    then show ?thesis by (simp add: ev_before_key)
  qed
qed

lemma cal_head_inv:
  assumes inv: "cal_inv n c" and f: "first_event c l e"
  shows "cal_inv n (c\<lparr>cal_head_search := hs, cal_lastbucket := l, cal_clock := ev_time e\<rparr>)"
proof -
  have t: "tbl_ok c" using inv by (simp add: cal_inv_def)
  from f obtain r where r: "l < cal_nbuckets c" "b_list (cal_buckets c ! l) = e # r"
    by (auto simp: first_event_def)
  then have "CALENDAR_HASH (cal_width c) (cal_nbuckets c) (ev_time e) = l" "0 \<le> ev_time e"
    using t by (auto simp: tbl_ok_def bucket_ok_def)
  with inv f show ?thesis by (simp add: cal_inv_def cal_hash_def first_event_def)
qed

end
