(* ===== verification/CalendarQueue.thy ===== *)
theory CalendarQueue
  imports CalendarHead
begin

text \<open>
  \<open>deque\<close>, \<open>cancel\<close> and \<open>lookup\<close> of the calendar queue, and its contract: whatever the sequence
  of operations, the calendar is the sorted list of its events.
\<close>

lemma head_bucket:
  assumes t: "tbl_ok c" and ev: "evs_ok (cal_events c)" and e: "e \<in> set (cal_events c)"
    and min: "\<forall>x\<in>set (cal_events c). ev_key e \<le> ev_key x"
  shows "\<exists>r. b_list (cal_buckets c ! cal_hash c (ev_time e)) = e # r"
proof -
  let ?i = "cal_hash c (ev_time e)"
  note b = tbl_events_bucket [OF t e]
  then obtain h r where hr: "b_list (cal_buckets c ! ?i) = h # r" by (cases "b_list (cal_buckets c ! ?i)") auto
  have "bucket_ok (cal_width c) (cal_nbuckets c) ?i (cal_buckets c ! ?i)"
    using t b(2) by (simp add: tbl_ok_def)
  then have "h = e \<or> ev_before h e" using b(3) hr by (auto simp: bucket_ok_def)
  moreover have "h \<in> set (cal_events c)"
    using bucket_events [of ?i c] b(2) t hr by (auto simp: tbl_ok_def)
  then have "\<not> ev_before h e" using min by (simp add: ev_before_key not_less)
  ultimately show ?thesis using hr by blast
qed

lemma unlink_ok:
  assumes t: "tbl_ok c" and i: "i < cal_nbuckets c" and so: "sorted_wrt ev_before es"
    and m: "mset (b_list (cal_buckets c ! i)) = add_mset e (mset es)"
    and u: "u \<longleftrightarrow> ev_time e \<notin> ev_times es"
  shows "tbl_ok (cal_unlink i es u c) \<and> mset (cal_events c) = add_mset e (mset (cal_events (cal_unlink i es u c))) \<and>
    cal_frame c (cal_unlink i es u c)"
proof -
  let ?b = "cal_buckets c ! i"
  let ?b' = "?b\<lparr>b_list := es, b_count := b_count ?b - of_bool u\<rparr>"
  have old: "bucket_ok (cal_width c) (cal_nbuckets c) i ?b" using t i by (simp add: tbl_ok_def)
  have set: "set (b_list ?b) = insert e (set es)" using m by (metis set_mset_mset set_mset_add_mset_insert)
  have len: "length (b_list ?b) = Suc (length es)" using m by (metis size_mset size_add_mset)
  have "card (ev_times (b_list ?b)) = card (ev_times es) + of_bool u"
    using u by (simp add: ev_times_def set card_insert_if)
  then have "bucket_ok (cal_width c) (cal_nbuckets c) i ?b'"
    using old so set by (auto simp: bucket_ok_def)
  moreover have "cal_unlink i es u c = c\<lparr>cal_buckets := (cal_buckets c)[i := ?b'],
      cal_stat_qsize := cal_stat_qsize c + (b_count ?b' - b_count ?b),
      cal_qsize := cal_qsize c + (int (length (b_list ?b')) - int (length (b_list ?b)))\<rparr>"
    using len by (simp add: cal_unlink_def Let_def)
  ultimately have "tbl_ok (cal_unlink i es u c) \<and>
      mset (cal_events (cal_unlink i es u c)) + mset (b_list ?b) = mset (cal_events c) + mset es"
    using bucket_replace [OF t i, of ?b' "cal_unlink i es u c"] by simp
  moreover have "cal_frame c (cal_unlink i es u c)" by (simp add: cal_frame_def cal_unlink_def Let_def)
  ultimately show ?thesis using m by simp
qed

text \<open>An invariant calendar that loses one event stays invariant.\<close>

lemma unlink_inv:
  assumes inv: "cal_inv n c" and t: "tbl_ok d" "mset (cal_events c) = add_mset e (mset (cal_events d))" "cal_frame c d"
  shows "cal_inv n d" "cal_abs d = remove1 e (cal_abs c)"
proof -
  have ev: "evs_ok (cal_events c)" using inv by (simp add: cal_inv_def)
  have "set (cal_events c) = insert e (set (cal_events d))"
    using t(2) by (metis set_mset_mset set_mset_add_mset_insert)
  with inv t ev_sort_remove [OF ev t(2)] show "cal_inv n d" "cal_abs d = remove1 e (cal_abs c)"
    by (simp_all add: cal_inv_def cal_abs_def cal_frame_def cal_hash_def)
qed

lemma cal_gap_keeps:
  assumes "cal_inv n c"
  shows "cal_keeps n c (cal_gap e c)"
proof -
  have b: "0 < cal_nbuckets c" using cal_basic(1) [OF assms] by simp
  define d where "d = c\<lparr>cal_avg_gap := (ev_time e - cal_last_time c) / of_int (cal_gap_num c + 1), cal_gap_num := 0,
      cal_last_time := ev_time e, cal_round_num := cal_round_num c + 1\<rparr>"
  have "cal_inv n d" "cal_nbuckets d = cal_nbuckets c" "cal_clock d = cal_clock c" "cal_events d = cal_events c"
    using assms by (simp_all add: d_def)
  with resize_keeps [of n d "cal_nbuckets d"] b
  have r: "cal_keeps n c (cal_resize (cal_nbuckets d) (cal_clock d) d)" by (simp add: cal_keeps_def)
  show ?thesis
    using assms r unfolding cal_gap_def Let_def d_def by (auto simp: cal_keeps_def)
qed

lemma cal_deque_ok:
  assumes inv: "cal_inv n c"
  shows "\<exists>c'. cal_deque c = (case cal_abs c of [] \<Rightarrow> None | e # _ \<Rightarrow> Some e, c') \<and> cal_inv n c' \<and> cal_abs c' = tl (cal_abs c)"
proof (cases "cal_events c = []")
  case True
  then have "cal_qsize c = 0" using inv cal_qsize_empty by (simp add: cal_inv_def)
  with True inv show ?thesis by (simp add: cal_deque_def cal_head_def cal_abs_def ev_sort_def)
next
  case False
  from cal_head_ok [OF inv False] obtain l e hs where
    h: "cal_head c = (Some e, c\<lparr>cal_head_search := hs, cal_lastbucket := l, cal_clock := ev_time e\<rparr>)"
    and f: "first_event c l e" by blast
  define c1 where "c1 = c\<lparr>cal_head_search := hs, cal_lastbucket := l, cal_clock := ev_time e\<rparr>"
  define d where "d = cal_gap e c1"
  have i1: "cal_inv n c1" "cal_events c1 = cal_events c" using cal_head_inv [OF inv f] by (simp_all add: c1_def)
  from cal_gap_keeps [OF i1(1), of e] have d: "cal_inv n d" "mset (cal_events d) = mset (cal_events c)" "cal_clock d = ev_time e"
    using i1(2) by (simp_all add: cal_keeps_def d_def c1_def)
  have set: "set (cal_events d) = set (cal_events c)" using d(2) by (rule mset_eq_setD)
  have td: "tbl_ok d" "evs_ok (cal_events d)" "cal_lastbucket d = cal_hash d (ev_time e)"
    using d(1,3) by (simp_all add: cal_inv_def)
  have e: "e \<in> set (cal_events d)" unfolding set by (rule first_event_mem [OF f cal_basic(3) [OF inv]])
  have min: "\<forall>x\<in>set (cal_events d). ev_key e \<le> ev_key x" unfolding set using first_event_key [OF inv f] by blast
  let ?l = "cal_lastbucket d"
  from head_bucket [OF td(1,2) e min] td(3) obtain r where r: "b_list (cal_buckets d ! ?l) = e # r" by auto
  have l: "?l < cal_nbuckets d" unfolding td(3) by (rule tbl_events_bucket(2) [OF td(1) e])
  have so: "sorted_wrt ev_before (e # r)" using td(1) l r by (auto simp: tbl_ok_def bucket_ok_def)
  let ?u = "r = [] \<or> ev_time (hd r) \<noteq> ev_time e"
  have u: "?u \<longleftrightarrow> ev_time e \<notin> ev_times r"
  proof (cases r)
    case (Cons x xs)
    have le: "sorted (map ev_time (e # r))" by (rule sorted_times [OF so])
    show ?thesis
    proof
      assume "?u"
      then have "ev_time e < ev_time x" using le Cons by simp
      then show "ev_time e \<notin> ev_times r" using le Cons by (auto simp: ev_times_def)
    qed (use Cons in \<open>auto simp: ev_times_def\<close>)
  qed (simp add: ev_times_def)
  define g where "g = cal_unlink ?l r ?u d"
  have g: "tbl_ok g" "mset (cal_events d) = add_mset e (mset (cal_events g))" "cal_frame d g"
    using unlink_ok [OF td(1) l _ _ u] so r by (auto simp: g_def)
  note gi = unlink_inv [OF d(1) g]
  have abs: "cal_abs c = e # cal_abs g"
  proof -
    have "set (cal_events g) \<subseteq> set (cal_events d)" using g(2) by (metis set_mset_mset set_mset_add_mset_insert subset_insertI)
    then have "ev_sort (cal_events d) = e # ev_sort (cal_events g)" using min by (intro ev_sort_min td(2) g(2)) auto
    moreover have "ls_ok (ev_sort (cal_events d))" using td(2) by (simp add: ev_sort_ok)
    then have "ev_sort (cal_events c) = ev_sort (cal_events d)" using d(2) by (intro ev_sort_unique) auto
    ultimately show ?thesis by (simp add: cal_abs_def)
  qed
  define k where "k = (if cal_stat_qsize g < cal_bot_threshold g then cal_resize (cal_nbuckets g div 2) (cal_clock g) g else g)"
  have deq: "cal_deque c = (Some e, k)"
    by (simp add: cal_deque_def h Let_def k_def g_def d_def [symmetric] c1_def [symmetric] r)
  have "cal_keeps n g k"
    using gi(1) resize_keeps [OF gi(1), of "cal_nbuckets g div 2"] cal_basic(1) [OF gi(1)]
    by (auto simp: k_def cal_keeps_def)
  then have "cal_inv n k" "cal_abs k = cal_abs g"
    using ev_sort_unique [of "cal_abs g" "cal_events k"] gi(1)
    by (auto simp: cal_keeps_def cal_abs_def cal_inv_def ev_sort_ok)
  with deq abs show ?thesis by simp
qed

text \<open>In a sorted bucket an equal time is next to the event, or first in the circle.\<close>

lemma unique_adjacent:
  assumes so: "sorted_wrt ev_before (pre @ e # post)"
  shows "(post @ pre = [] \<or> (ev_time (hd (post @ pre)) \<noteq> ev_time e \<and> ev_time (last (post @ pre)) \<noteq> ev_time e)) \<longleftrightarrow>
    ev_time e \<notin> ev_times (pre @ post)"
proof -
  have st: "sorted (map ev_time (pre @ e # post))" by (rule sorted_times [OF so])
  have "ev_time (hd post) = ev_time e" if "x \<in> set post" "ev_time x = ev_time e" for x
    using st that by (cases post) (auto simp: sorted_append)
  then have hd: "post \<noteq> [] \<and> ev_time (hd (post @ pre)) = ev_time e" if "ev_time e \<in> ev_times post"
    using that by (auto simp: ev_times_def hd_append)
  have "ev_time (last pre) = ev_time e" if "x \<in> set pre" "ev_time x = ev_time e" for x
  proof -
    have ne: "pre \<noteq> []" using that by auto
    have p: "sorted (map ev_time pre)" "\<forall>y\<in>set pre. ev_time y \<le> ev_time e" using st by (auto simp: sorted_append)
    have "ev_time x \<le> ev_time (last pre)" by (rule last_times [OF p(1) ne that(1)])
    moreover have "ev_time (last pre) \<le> ev_time e" using p(2) ne by simp
    ultimately show ?thesis using that(2) by simp
  qed
  then have last: "pre \<noteq> [] \<and> ev_time (last (post @ pre)) = ev_time e" if "ev_time e \<in> ev_times pre"
    using that by (auto simp: ev_times_def last_append)
  have "ev_times (pre @ post) = ev_times pre \<union> ev_times post" by (auto simp: ev_times_def)
  moreover have "ev_time x \<in> ev_times (pre @ post)" if "x \<in> set (post @ pre)" for x
    using that by (auto simp: ev_times_def)
  note this [OF hd_in_set] this [OF last_in_set]
  ultimately show ?thesis using hd last by (metis Un_iff append_is_Nil_conv)
qed

lemma bucket_counts:
  assumes "tbl_ok c" "i < cal_nbuckets c"
  shows "0 \<le> cal_stat_qsize c" "0 \<le> b_count (cal_buckets c ! i)"
    "b_count (cal_buckets c ! i) = 0 \<longleftrightarrow> b_list (cal_buckets c ! i) = []"
proof -
  have n: "0 \<le> b_count (cal_buckets c ! j)" if "j < cal_nbuckets c" for j
    using assms(1) that by (simp add: tbl_ok_def bucket_ok_def)
  then have "\<forall>b\<in>set (cal_buckets c). 0 \<le> b_count b" using assms(1) by (auto simp: tbl_ok_def in_set_conv_nth)
  then have "0 \<le> sum_list (map b_count (cal_buckets c))" by (intro sum_list_nonneg) auto
  with assms(1) show "0 \<le> cal_stat_qsize c" by (simp add: tbl_ok_def)
  show "0 \<le> b_count (cal_buckets c ! i)" by (rule n [OF assms(2)])
  have "b_count (cal_buckets c ! i) = int (card (ev_times (b_list (cal_buckets c ! i))))"
    using assms by (simp add: tbl_ok_def bucket_ok_def)
  then show "b_count (cal_buckets c ! i) = 0 \<longleftrightarrow> b_list (cal_buckets c ! i) = []"
    by (simp add: ev_times_def)
qed

lemma cal_cancel_ok:
  assumes inv: "cal_inv n c" and mem: "e \<in> set (cal_abs c)"
  shows "\<exists>c'. cal_cancel e c = Some c' \<and> cal_inv n c' \<and> cal_abs c' = remove1 e (cal_abs c)"
proof -
  have t: "tbl_ok c" "evs_ok (cal_events c)" using inv by (simp_all add: cal_inv_def)
  have e: "e \<in> set (cal_events c)" using mem by (simp add: cal_abs_def)
  let ?i = "cal_hash c (ev_time e)"
  let ?es = "b_list (cal_buckets c ! ?i)"
  note b = tbl_events_bucket [OF t(1) e]
  have sub: "set ?es \<subseteq> set (cal_events c)" using b(2) t(1) by (intro bucket_events) (simp add: tbl_ok_def)
  have inj: "x = e" if "x \<in> set ?es" "ev_addr x = ev_addr e" for x
    using t(2) e that sub unfolding evs_ok_def distinct_map by (meson inj_on_def subsetD)
  let ?pre = "takeWhile (\<lambda>x. ev_addr x \<noteq> ev_addr e) ?es" and ?d = "dropWhile (\<lambda>x. ev_addr x \<noteq> ev_addr e) ?es"
  have "?d \<noteq> []" using b(3) by (auto simp: dropWhile_eq_Nil_conv)
  then obtain x post where x: "?d = x # post" by (cases ?d) auto
  have "ev_addr x = ev_addr e" using hd_dropWhile [OF \<open>?d \<noteq> []\<close>] x by simp
  moreover have "x \<in> set ?es" using x by (metis list.set_intros(1) set_dropWhileD)
  ultimately have "x = e" by (rule inj [rotated])
  with x have d: "?d = e # post" by simp
  then have split: "?es = ?pre @ e # post" by (metis takeWhile_dropWhile_id)
  have so: "sorted_wrt ev_before (?pre @ e # post)"
    using t(1) b(2) unfolding split [symmetric] by (simp add: tbl_ok_def bucket_ok_def)
  then have so': "sorted_wrt ev_before (?pre @ post)" by (simp add: sorted_wrt_append)
  let ?u = "post @ ?pre = [] \<or> (ev_time (hd (post @ ?pre)) \<noteq> ev_time e \<and> ev_time (last (post @ ?pre)) \<noteq> ev_time e)"
  define g where "g = cal_unlink ?i (?pre @ post) ?u c"
  have m: "mset ?es = add_mset e (mset (?pre @ post))" by (subst split) simp
  have g: "tbl_ok g" "mset (cal_events c) = add_mset e (mset (cal_events g))" "cal_frame c g"
    using unlink_ok [OF t(1) b(2) so' m unique_adjacent [OF so]] by (simp_all add: g_def)
  have gl: "b_list (cal_buckets g ! ?i) = ?pre @ post" "?i < cal_nbuckets g"
    using b(2) t(1) by (simp_all add: g_def cal_unlink_def Let_def tbl_ok_def)
  have "cal_cancel e c = Some g"
    unfolding cal_cancel_def Let_def d list.case g_def [symmetric] cal_assert_def
    using bucket_counts [OF g(1) gl(2)] gl(1) by (simp only: if_True simp_thms)
  with unlink_inv [OF inv g] show ?thesis by blast
qed

lemma cal_lookup_concat: "cal_lookup_in u bs = ls_lookup u (concat (map b_list bs))"
proof (induction bs)
  case (Cons b bs)
  have "ls_lookup u (xs @ ys) = (case ls_lookup u xs of Some e \<Rightarrow> Some e | None \<Rightarrow> ls_lookup u ys)" for xs ys
    by (induction xs) auto
  with Cons show ?case by (simp split: option.splits)
qed simp

lemma cal_lookup_ok: "cal_inv n c \<Longrightarrow> cal_lookup u c = ls_lookup u (cal_abs c)"
  unfolding cal_lookup_def cal_lookup_concat cal_events_def [symmetric] cal_abs_def
  using evs_ok_mset [OF ev_sort_mset, of "cal_events c"]
  by (intro ls_lookup_set) (auto simp: cal_inv_def evs_ok_def)

interpretation cal: event_queue cal_inv cal_abs cal_insert cal_cancel cal_deque cal_lookup
proof (unfold_locales, goal_cases)
  case (1 n q)
  then show ?case by (simp add: cal_abs_def ev_sort_ok cal_inv_def)
next
  case (2 n q)
  then show ?case by (simp add: cal_inv_def)
next
  case (3 n q e)
  then show ?case by (rule cal_insert_ok)
next
  case (4 n q e)
  then show ?case by (rule cal_cancel_ok)
next
  case (5 n q)
  then show ?case by (rule cal_deque_ok)
next
  case (6 n q u)
  then show ?case by (rule cal_lookup_ok)
qed

lemma cal_inv_new: "cal_inv n (cal_new a w)" "cal_abs (cal_new a w) = []"
proof -
  have e: "cal_events (cal_new a w) = []" "tbl_ok (cal_new a w)"
    unfolding cal_new_def by (rule reinit_ok; simp)+
  show "cal_abs (cal_new a w) = []" using e(1) by (simp add: cal_abs_def ev_sort_def)
  have "CALENDAR_HASH 1 4 0 = 0" by (simp add: CALENDAR_HASH_eq)
  with e show "cal_inv n (cal_new a w)"
    by (simp add: cal_inv_def evs_ok_def) (simp add: cal_new_def cal_reinit_def cal_hash_def)
qed

end
