(* ===== verification/SchedulerRuns.thy ===== *)
theory SchedulerRuns
  imports SchedLive HeapLaws SplaySched CalendarQueue
begin

text \<open>
  Whole simulations: the scheduler at the start, and what a run on each of the four queues
  does.  An example with two handlers runs through the properties: handler 0 schedules an event
  for handler 1 one second ahead, handler 1 makes no calls.
\<close>

definition sched_init :: "'q \<Rightarrow> 'q sched" where
  "sched_init q = \<lparr>sc_clock = 0, sc_halted = False, sc_uid = 1,
     sc_mem = (\<lambda>a. \<lparr>ev_addr = a, ev_time = 0, ev_uid = 0, ev_handler = 0\<rparr>), sc_q = q, sc_log = []\<rparr>"

lemma sim_ok_init: "sim_ok (sched_init [])"
  by (simp add: sim_ok_def sched_init_def ls_ok_def)

lemma sched_abs_init: "sched_abs f (sched_init q) = sched_init (f q)"
  by (simp add: sched_init_def sched_abs_def)

lemma sched_init_q [simp]: "sc_q (sched_init q) = q"
  by (simp add: sched_init_def)

definition ping :: "nat handlers" where
  "ping w e t = (if ev_handler e = 0 then ([Schedule (Some 1) (ev_addr e + 1) 1], w + 1) else ([], w))"

lemma ping_ok: "proper ping" "only_inserts 1 ping"
  by (simp_all add: proper_def only_inserts_def ping_def inserts_def)

lemma ping_patient: "patient 1 {} ping"
  by (simp add: patient_def ping_def)

text \<open>The simulator with one event waiting, at time 2, for handler 0.\<close>

definition ping_start :: "event list sched" where
  "ping_start = (sched_init [])\<lparr>sc_mem := (sc_mem (sched_init ([] :: event list)))(3 := \<lparr>ev_addr = 3, ev_time = 2, ev_uid = 1, ev_handler = 0\<rparr>),
     sc_uid := 2, sc_q := [\<lparr>ev_addr = 3, ev_time = 2, ev_uid = 1, ev_handler = 0\<rparr>]\<rparr>"

lemma ping_scheduled: "sched_schedule ls_insert (Some 0) 3 2 (sched_init []) = Inr ping_start"
  by (simp add: sched_schedule_def sched_init_def Let_def uid_succ_def ping_start_def)

lemma ping_start_ok: "sim_ok ping_start"
  using sim_ok_schedule [OF sim_ok_init _ ping_scheduled] by simp

lemma ping_run:
  "\<exists>t. sched_run ls_insert ls_cancel ls_deque ping 7 (0, ping_start) = Inr (1, t) \<and>
     map (\<lambda>e. (ev_addr e, ev_time e)) (sc_log t) = [(3, 2), (4, 3)] \<and> sc_q t = []"
  by (simp add: numeral_eq_Suc ping_start_def sched_init_def sched_dispatch_def negate_uid_def ping_def sched_schedule_def
      Let_def uid_succ_def)

lemma hs_ping: "n < 4294967295 \<Longrightarrow> \<exists>s. sched_schedule hs_insert (Some 0) 3 2 (sched_init (heap_new 32)) = Inr s \<and> hs_inv n (sc_q s) \<and>
    sched_abs hs_abs s = ping_start"
  using hs.schedule_mirrors [of n "sched_init (heap_new 32)" 2 "Some 0" 3] hs_inv_new [of 32 "Suc n"] sim_ok_init ping_scheduled
  by (cases "sched_schedule hs_insert (Some 0) 3 2 (sched_init (heap_new 32))") (auto simp: hs.rel_def sched_abs_init)

lemma sp_ping: "\<exists>s. sched_schedule sp_insert (Some 0) 3 2 (sched_init splay_new) = Inr s \<and> sp_inv n (sc_q s) \<and>
    sched_abs sp_abs s = ping_start"
  using sp.schedule_mirrors [of n "sched_init splay_new" 2 "Some 0" 3] sp_inv_new sim_ok_init ping_scheduled
  by (cases "sched_schedule sp_insert (Some 0) 3 2 (sched_init splay_new)") (auto simp: sp.rel_def sched_abs_init)

lemma cal_ping: "\<exists>s. sched_schedule cal_insert (Some 0) 3 2 (sched_init (cal_new 0 1)) = Inr s \<and> cal_inv n (sc_q s) \<and>
    sched_abs cal_abs s = ping_start"
  using cal.schedule_mirrors [of n "sched_init (cal_new 0 1)" 2 "Some 0" 3] cal_inv_new sim_ok_init ping_scheduled
  by (cases "sched_schedule cal_insert (Some 0) 3 2 (sched_init (cal_new 0 1))") (auto simp: cal.rel_def sched_abs_init)

section \<open>Properties\<close>

text \<open>
  C20. A simulation on the binary heap is the simulation on the sorted list: the same events are
  dispatched in the same order with the same clock and uids, and one ends in an error if and
  only if the other does, with the same error.
\<close>

theorem heap_runs_like_list:
  assumes "proper handle" "only_inserts k handle" "hs_inv (n * k) (sc_q s)" "sim_ok (sched_abs hs_abs s)"
  shows "sched_run ls_insert ls_cancel ls_deque handle n (w, sched_abs hs_abs s) =
    map_sum (\<lambda>e. e) (map_prod (\<lambda>w. w) (sched_abs hs_abs)) (sched_run hs_insert hs_cancel hs_deque handle n (w, s))"
  using assms by (intro hs.run_mirrors) (simp_all add: hs.rel_def)

theorem heap_runs_like_list_witness:
  "\<exists>s t. sched_schedule hs_insert (Some 0) 3 2 (sched_init (heap_new 32)) = Inr s \<and>
     sched_run hs_insert hs_cancel hs_deque ping 7 (0, s) = Inr (1, t) \<and>
     map (\<lambda>e. (ev_addr e, ev_time e)) (sc_log t) = [(3, 2), (4, 3)]"
proof -
  obtain s where s: "sched_schedule hs_insert (Some 0) 3 2 (sched_init (heap_new 32)) = Inr s"
    "hs_inv (7 * 1) (sc_q s)" "sched_abs hs_abs s = ping_start" using hs_ping [of 7] by auto
  from heap_runs_like_list [OF ping_ok s(2), of 0] s(1,3) ping_run ping_start_ok show ?thesis
    by (cases "sched_run hs_insert hs_cancel hs_deque ping 7 (0, s)") auto
qed

text \<open>C28. The same for the splay tree.\<close>

theorem splay_runs_like_list:
  assumes "proper handle" "only_inserts k handle" "sp_inv (n * k) (sc_q s)" "sim_ok (sched_abs sp_abs s)"
  shows "sched_run ls_insert ls_cancel ls_deque handle n (w, sched_abs sp_abs s) =
    map_sum (\<lambda>e. e) (map_prod (\<lambda>w. w) (sched_abs sp_abs)) (sched_run sp_insert sp_cancel sp_deque handle n (w, s))"
  using assms by (intro sp.run_mirrors) (simp_all add: sp.rel_def)

theorem splay_runs_like_list_witness:
  "\<exists>s t. sched_schedule sp_insert (Some 0) 3 2 (sched_init splay_new) = Inr s \<and>
     sched_run sp_insert sp_cancel sp_deque ping 7 (0, s) = Inr (1, t) \<and>
     map (\<lambda>e. (ev_addr e, ev_time e)) (sc_log t) = [(3, 2), (4, 3)]"
proof -
  obtain s where s: "sched_schedule sp_insert (Some 0) 3 2 (sched_init splay_new) = Inr s"
    "sp_inv (7 * 1) (sc_q s)" "sched_abs sp_abs s = ping_start" using sp_ping [of 7] by auto
  from splay_runs_like_list [OF ping_ok s(2), of 0] s(1,3) ping_run ping_start_ok show ?thesis
    by (cases "sched_run sp_insert sp_cancel sp_deque ping 7 (0, s)") auto
qed

text \<open>
  C1. The same for the calendar queue, through every rebuild of its table; no assertion of
  its code fails.
\<close>

theorem calendar_runs_like_list:
  assumes "proper handle" "only_inserts k handle" "cal_inv (n * k) (sc_q s)" "sim_ok (sched_abs cal_abs s)"
  shows "sched_run ls_insert ls_cancel ls_deque handle n (w, sched_abs cal_abs s) =
    map_sum (\<lambda>e. e) (map_prod (\<lambda>w. w) (sched_abs cal_abs)) (sched_run cal_insert cal_cancel cal_deque handle n (w, s))"
  using assms by (intro cal.run_mirrors) (simp_all add: cal.rel_def)

theorem calendar_runs_like_list_witness:
  "\<exists>s t. sched_schedule cal_insert (Some 0) 3 2 (sched_init (cal_new 0 1)) = Inr s \<and>
     sched_run cal_insert cal_cancel cal_deque ping 7 (0, s) = Inr (1, t) \<and>
     map (\<lambda>e. (ev_addr e, ev_time e)) (sc_log t) = [(3, 2), (4, 3)]"
proof -
  obtain s where s: "sched_schedule cal_insert (Some 0) 3 2 (sched_init (cal_new 0 1)) = Inr s"
    "cal_inv (7 * 1) (sc_q s)" "sched_abs cal_abs s = ping_start" using cal_ping [of 7] by auto
  from calendar_runs_like_list [OF ping_ok s(2), of 0] s(1,3) ping_run ping_start_ok show ?thesis
    by (cases "sched_run cal_insert cal_cancel cal_deque ping 7 (0, s)") auto
qed

text \<open>
  C16. Causality: along a run the events dispatched so far, followed by those that wait, are in
  order of time and, for equal times, of scheduling; what was dispatched is never in the future
  of the clock, and nothing that waits is in its past.
\<close>

theorem dispatch_order:
  assumes "proper handle" "sim_ok s" "sched_run ls_insert ls_cancel ls_deque handle n (w, s) = Inr (w', t)"
  shows "sorted_wrt ev_before (sc_log t @ sc_q t) \<and> prefix (sc_log s) (sc_log t) \<and>
    (\<forall>x\<in>set (sc_log t). ev_time x \<le> sc_clock t) \<and> (\<forall>x\<in>set (sc_q t). sc_clock t \<le> ev_time x)"
  using sim_ok_run [OF assms] by (simp add: sim_ok_def)

theorem dispatch_order_witness:
  "\<exists>t. sched_run ls_insert ls_cancel ls_deque ping 7 (0, ping_start) = Inr (1, t) \<and>
     map (\<lambda>e. (ev_addr e, ev_time e)) (sc_log t) = [(3, 2), (4, 3)] \<and> sorted_wrt ev_before (sc_log t @ sc_q t)"
proof -
  from ping_run obtain t where t: "sched_run ls_insert ls_cancel ls_deque ping 7 (0, ping_start) = Inr (1, t)"
    "map (\<lambda>e. (ev_addr e, ev_time e)) (sc_log t) = [(3, 2), (4, 3)]" by auto
  from dispatch_order [OF ping_ok(1) ping_start_ok t(1)] have "sorted_wrt ev_before (sc_log t @ sc_q t)" by (rule conjunct1)
  with t show ?thesis by (intro exI conjI)
qed

text \<open>
  With handlers that ask for no negative delay, no event is dispatched before the clock and
  no cancellation misses its event: a run can only abort because a handler schedules an event
  that waits already, or because the 63-bit uids are used up.
\<close>

theorem no_time_travel:
  assumes "proper handle" "sim_ok s" "sched_run ls_insert ls_cancel ls_deque handle n (w, s) = Inl e"
  shows "e = UidNotValid \<or> e = UidExhausted"
  using run_error [OF assms] by (simp add: caller_error_def)

theorem no_time_travel_witness:
  "\<exists>s e. sim_ok s \<and> sched_run ls_insert ls_cancel ls_deque (\<lambda>w x t. ([Schedule (Some 1) 5 1, Schedule (Some 1) 5 1], w)) 1
      (0 :: nat, s) = Inl e \<and> (e = UidNotValid \<or> e = UidExhausted)"
proof -
  let ?h = "\<lambda>w x t. ([Schedule (Some 1) 5 1, Schedule (Some 1) 5 1], w :: nat)"
  let ?s = "(sched_init [])\<lparr>sc_mem := (sc_mem (sched_init ([] :: event list)))(3 := \<lparr>ev_addr = 3, ev_time = 1, ev_uid = 1, ev_handler = 0\<rparr>),
      sc_uid := 2, sc_q := [\<lparr>ev_addr = 3, ev_time = 1, ev_uid = 1, ev_handler = 0\<rparr>]\<rparr>"
  have "sched_schedule ls_insert (Some 0) 3 1 (sched_init []) = Inr ?s"
    by (simp add: sched_schedule_def sched_init_def Let_def uid_succ_def)
  note ok = sim_ok_schedule [OF sim_ok_init zero_le_one this, THEN conjunct1]
  have r: "sched_run ls_insert ls_cancel ls_deque ?h 1 (0, ?s) = Inl UidNotValid"
    unfolding One_nat_def
    by (simp add: sched_init_def sched_dispatch_def negate_uid_def sched_schedule_def Let_def uid_succ_def)
  have "proper ?h" by (simp add: proper_def)
  from no_time_travel [OF this ok r] ok r show ?thesis by blast
qed

text \<open>
  C29. No event is lost on the calendar queue, and time passes: handlers that schedule at most
  \<open>k\<close> events each time, at least \<open>d > 0\<close> seconds ahead, cancel only events at the addresses
  \<open>C\<close> and do not halt the simulator cannot keep it from reaching the time \<open>T\<close>.  After
  \<open>dispatch_bound\<close> dispatches every event that waited for a time up to \<open>T\<close> at an address
  outside \<open>C\<close> has been dispatched, and only events later than \<open>T\<close> wait; the run ends earlier
  only where a handler schedules an event that waits already, or where the uids are used up.
\<close>

theorem all_dispatched:
  assumes "proper handle" "only_inserts k handle" "patient d C handle" "0 < d" "\<not> sc_halted s"
    "dispatch_bound d k T (cal_abs (sc_q s)) \<le> n" "cal_inv (n * k) (sc_q s)" "sim_ok (sched_abs cal_abs s)"
  shows "case sched_run cal_insert cal_cancel cal_deque handle n (w, s) of
      Inl e \<Rightarrow> e = UidNotValid \<or> e = UidExhausted
    | Inr (w', t) \<Rightarrow> (\<forall>y\<in>set (cal_abs (sc_q t)). T < ev_time y) \<and>
        (\<forall>x\<in>set (cal_abs (sc_q s)). ev_time x \<le> T \<and> ev_addr x \<notin> C \<longrightarrow> x \<in> set (sc_log t))"
proof -
  have m: "sched_run ls_insert ls_cancel ls_deque handle n (w, sched_abs cal_abs s) =
      map_sum (\<lambda>e. e) (map_prod (\<lambda>w. w) (sched_abs cal_abs)) (sched_run cal_insert cal_cancel cal_deque handle n (w, s))"
    using assms by (intro cal.run_mirrors [where k = k]) (simp_all add: cal.rel_def)
  show ?thesis
  proof (cases "sched_run cal_insert cal_cancel cal_deque handle n (w, s)")
    case (Inl e)
    with m run_error [OF assms(1,8)] show ?thesis by (simp add: caller_error_def)
  next
    case (Inr r)
    with m have "sched_run ls_insert ls_cancel ls_deque handle n (w, sched_abs cal_abs s) = Inr (fst r, sched_abs cal_abs (snd r))"
      by (cases r) simp
    from run_dispatches [OF assms(1-4,8) _ _ this, of T] assms(5,6) Inr show ?thesis
      by (cases r) fastforce
  qed
qed

theorem all_dispatched_witness:
  "\<exists>s t. sched_schedule cal_insert (Some 0) 3 2 (sched_init (cal_new 0 1)) = Inr s \<and>
     sched_run cal_insert cal_cancel cal_deque ping 7 (0, s) = Inr (1, t) \<and> sc_mem s 3 \<in> set (sc_log t)"
proof -
  obtain s where s: "sched_schedule cal_insert (Some 0) 3 2 (sched_init (cal_new 0 1)) = Inr s"
    "cal_inv (7 * 1) (sc_q s)" "cal.rel 7 s" "sched_abs cal_abs s = ping_start"
    using cal_ping [of 7] ping_start_ok by (auto simp: cal.rel_def)
  have q: "cal_abs (sc_q s) = sc_q ping_start" "sc_halted s = sc_halted ping_start" "sc_mem s = sc_mem ping_start"
    using s(4) by (metis sched_abs_sel)+
  obtain t where t: "sched_run cal_insert cal_cancel cal_deque ping 7 (0, s) = Inr (1, t)"
    using cal.run_mirrors [OF ping_ok, of 7 s 0] s(3,4) ping_run
    by (cases "sched_run cal_insert cal_cancel cal_deque ping 7 (0, s)") auto
  have "dispatch_bound 1 1 3 (cal_abs (sc_q s)) \<le> 7" "\<not> sc_halted s"
    unfolding q by (simp_all add: ping_start_def sched_init_def ev_weight_def)
  from all_dispatched [OF ping_ok ping_patient zero_less_one this(2,1) s(2), of 0] s(4) t ping_start_ok
  have "\<forall>x\<in>set (sc_q ping_start). ev_time x \<le> 3 \<longrightarrow> x \<in> set (sc_log t)" by (simp add: q)
  with s(1) t show ?thesis by (auto simp: q ping_start_def sched_init_def)
qed

text \<open>
  C30. Scheduling an event on the calendar queue and cancelling it again leaves what waits, the
  clock and all other events as they were, whatever the insertion and the removal do to the
  table of the calendar; the event is marked as not waiting.
\<close>

theorem schedule_cancel_roundtrip:
  assumes "cal_inv (Suc n) (sc_q s)" "sim_ok (sched_abs cal_abs s)" "0 \<le> d" "sched_schedule cal_insert h a d s = Inr t"
  shows "\<exists>u. sched_cancel cal_cancel a t = Inr u \<and> cal_abs (sc_q u) = cal_abs (sc_q s) \<and> cal_inv n (sc_q u) \<and>
    ev_uid (sc_mem u a) = - sc_uid s \<and> (\<forall>b. b \<noteq> a \<longrightarrow> sc_mem u b = sc_mem s b) \<and>
    sc_clock u = sc_clock s \<and> sc_halted u = sc_halted s \<and> sc_log u = sc_log s"
proof -
  have r: "cal.rel (Suc n) s" using assms(1,2) by (simp add: cal.rel_def)
  from cal.schedule_mirrors [OF this assms(3), of h a] assms(4)
  have t: "sched_schedule ls_insert h a d (sched_abs cal_abs s) = Inr (sched_abs cal_abs t)" "cal.rel n t" by auto
  from ls_schedule_cancel [OF assms(2,3) t(1)] cal.cancel_mirrors [OF t(2), of a] show ?thesis
    by (cases "sched_cancel cal_cancel a t") (auto simp: cal.rel_def)
qed

theorem schedule_cancel_roundtrip_witness:
  "\<exists>s t u. sched_schedule cal_insert (Some 0) 3 2 (sched_init (cal_new 0 1)) = Inr s \<and>
     sched_schedule cal_insert (Some 1) 5 (1 / 2) s = Inr t \<and> sched_cancel cal_cancel 5 t = Inr u \<and>
     map ev_addr (cal_abs (sc_q t)) = [5, 3] \<and> map ev_addr (cal_abs (sc_q u)) = [3]"
proof -
  obtain s where s: "sched_schedule cal_insert (Some 0) 3 2 (sched_init (cal_new 0 1)) = Inr s"
    "cal_inv (Suc 7) (sc_q s)" "cal.rel (Suc 7) s" "sched_abs cal_abs s = ping_start"
    using cal_ping [of "Suc 7"] ping_start_ok by (auto simp: cal.rel_def)
  have q: "cal_abs (sc_q s) = sc_q ping_start" using s(4) by (metis sched_abs_sel)
  obtain u where u: "sched_schedule ls_insert (Some 1) 5 (1 / 2) ping_start = Inr u" "map ev_addr (sc_q u) = [5, 3]"
    by (simp add: ping_start_def sched_init_def sched_schedule_def Let_def)
  obtain t where t: "sched_schedule cal_insert (Some 1) 5 (1 / 2) s = Inr t" "sched_abs cal_abs t = u"
    using cal.schedule_mirrors [OF s(3), of "1 / 2" "Some 1" 5] s(4) u(1)
    by (cases "sched_schedule cal_insert (Some 1) 5 (1 / 2) s") auto
  have "map ev_addr (cal_abs (sc_q t)) = [5, 3]" using t(2) u(2) by auto
  moreover have "map ev_addr (sc_q ping_start) = [3]" by (simp add: ping_start_def)
  moreover from schedule_cancel_roundtrip [OF s(2) _ _ t(1)] s(4) ping_start_ok
  obtain u where "sched_cancel cal_cancel 5 t = Inr u" "cal_abs (sc_q u) = sc_q ping_start" by (auto simp: q)
  ultimately show ?thesis using s(1) t(1) by metis
qed

end
