(* ===== verification/HeapWrap.thy ===== *)
theory HeapWrap
  imports HeapLaws
begin

text \<open>
  The tie-break counter of the heap has 32 bits, the uids of the scheduler 64: what happens to
  events of equal times when the counter wraps.
\<close>

definition pass :: "event \<Rightarrow> heap \<Rightarrow> heap" where
  "pass e h = snd (hs_deque (hs_insert e h))"

lemma pass_empty:
  assumes "h_size h = 0" "0 < h_maxsize h" "length (h_elems h) = h_maxsize h"
  shows "h_size (pass e h) = 0" "h_maxsize (pass e h) = h_maxsize h"
    "length (h_elems (pass e h)) = h_maxsize h" "h_s_key (pass e h) = h_s_key h + 1"
  using assms heap_down.simps [of 0]
  by (simp_all add: pass_def hs_deque_def hs_insert_def heap_extract_min_def heap_insert_def Let_def heap_up.simps [of _ _ _ 0])

lemma passes:
  assumes "0 < n"
  shows "h_size ((pass e ^^ k) (heap_new n)) = 0 \<and> h_maxsize ((pass e ^^ k) (heap_new n)) = n \<and>
    length (h_elems ((pass e ^^ k) (heap_new n))) = n \<and> h_s_key ((pass e ^^ k) (heap_new n)) = of_nat k"
proof (induction k)
  case 0
  then show ?case by (simp add: heap_new_def)
next
  case (Suc k)
  with assms pass_empty [of "(pass e ^^ k) (heap_new n)" e] show ?case by (simp add: add.commute)
qed

lemma two_in_heap:
  assumes "h_size h = 0" "2 \<le> h_maxsize h" "length (h_elems h) = h_maxsize h" "ev_time e = ev_time f"
  shows "fst (hs_deque (hs_insert f (hs_insert e h))) =
    Some (if uint (h_s_key h + 1) < uint (h_s_key h) then f else e)"
proof -
  obtain x y xs where es: "h_elems h = x # y # xs"
    using assms(2,3) by (cases "h_elems h"; cases "tl (h_elems h)") auto
  show ?thesis
    using assms
    by (simp add: hs_deque_def hs_insert_def heap_extract_min_def heap_insert_def Let_def heap_up.simps [of _ _ _ 0]
        heap_up.simps [of _ _ _ "Suc 0"] heap_parent_def es KEY_LESS_THAN_def)
qed

lemma wrap_key: "uint ((of_nat k :: 32 word) + 1) < uint (of_nat k :: 32 word) \<longleftrightarrow> k mod 2 ^ 32 = 2 ^ 32 - 1"
proof -
  define m where "m = k mod 4294967296"
  have m: "int k mod 4294967296 = int m" "m < 2 ^ 32" by (simp_all add: m_def of_nat_mod)
  have "(int m + 1) mod 4294967296 = (if m = 2 ^ 32 - 1 then 0 else int m + 1)" using m(2) by auto
  then have "(int m + 1) mod 4294967296 < int m \<longleftrightarrow> m = 2 ^ 32 - 1" by simp
  with m(1) show ?thesis
    by (simp add: uint_word_ariths(1) unsigned_of_nat take_bit_eq_mod m_def [symmetric])
qed

text \<open>
  C31. Events of one time leave the heap in the order they came, except across the wrap of the
  32-bit counter: when \<open>2 ^ 32 - 1\<close> events (modulo \<open>2 ^ 32\<close>) have passed through the heap, the
  later one of the next two comes out first.
\<close>

theorem heap_counter_wraps:
  assumes "ev_time e = ev_time f"
  shows "fst (hs_deque (hs_insert f (hs_insert e ((pass g ^^ k) (heap_new HEAP_DEFAULT_SIZE))))) =
    Some (if k mod 2 ^ 32 = 2 ^ 32 - 1 then f else e)"
  using two_in_heap [OF _ _ _ assms, of "(pass g ^^ k) (heap_new HEAP_DEFAULT_SIZE)"]
    passes [of HEAP_DEFAULT_SIZE k g] wrap_key [of k]
  by (simp add: HEAP_DEFAULT_SIZE_def)

definition ev_example :: "nat \<Rightarrow> event" where
  "ev_example a = \<lparr>ev_addr = a, ev_time = 1, ev_uid = int a, ev_handler = 0\<rparr>"

theorem heap_counter_wraps_witness:
  "fst (hs_deque (hs_insert (ev_example 2) (hs_insert (ev_example 1)
     ((pass (ev_example 3) ^^ (2 ^ 32 - 1)) (heap_new HEAP_DEFAULT_SIZE))))) = Some (ev_example 2)"
proof -
  have t: "ev_time (ev_example 1) = ev_time (ev_example 2)" by (simp add: ev_example_def)
  have m: "((2 :: nat) ^ 32 - 1) mod 2 ^ 32 = 2 ^ 32 - 1" by simp
  show ?thesis by (rule heap_counter_wraps [OF t, where g = "ev_example 3" and k = "2 ^ 32 - 1", unfolded m if_P [OF refl]])
qed

end
