(* ===== verification/AodvTables.thy ===== *)
theory AodvTables
  imports Prelude "HOL-Library.Word"
begin

text \<open>
  The data of the AODV agent: packets with the headers it reads (common/packet.h, common/ip.h,
  aodv/aodv_packet.h), route table entries and the route table (aodv/aodv_rtable.h,
  aodv/aodv_rtable.cc), the broadcast-id cache and the neighbour cache (aodv/aodv.h,
  aodv/aodv.cc).  The lists of the code are BSD lists: insertion at the head, removal of the
  element found.  A pointer to a route entry is its destination, as an entry stays in the table
  and no two entries have the same destination.
\<close>

section \<open>Packets\<close>

text \<open>The body of an AODV packet, by its type.\<close>

record rreq =
  rq_hop_count :: "8 word"
  rq_bcast_id :: "32 word"
  rq_dst :: int
  rq_dst_seqno :: "32 word"
  rq_src :: int
  rq_src_seqno :: "32 word"
  rq_timestamp :: real

record rrep =
  rp_hop_count :: "8 word"
  rp_dst :: int
  rp_dst_seqno :: "32 word"
  rp_src :: int
  rp_lifetime :: real
  rp_timestamp :: real

type_synonym rerr = "(int \<times> 32 word) list"

datatype aodv_body = NoBody | RREQ rreq | RREP rrep | HELLO rrep | RERR rerr | OtherType nat

datatype direction = DirDown | DirNone | DirUp
datatype addr_type = NS_AF_NONE | NS_AF_ILINK | NS_AF_INET

text \<open>\<open>p_tag\<close> stands for what the agent does not look at.\<close>

record packet =
  p_tag :: nat
  p_ptype :: nat
  p_size :: int
  p_ts :: real
  p_iface :: int
  p_error :: int
  p_direction :: direction
  p_prev_hop :: int
  p_next_hop :: int
  p_addr_type :: addr_type
  p_xmit_failure :: bool
  p_num_forwards :: int
  p_saddr :: int
  p_daddr :: int
  p_sport :: int
  p_dport :: int
  p_ttl :: int
  p_body :: aodv_body

definition PT_TCP :: nat where "PT_TCP = 0"
definition PT_ACK :: nat where "PT_ACK = 5"
definition PT_AODV :: nat where "PT_AODV = 38"

definition DATA_PACKET :: "nat \<Rightarrow> bool" where
  "DATA_PACKET t \<longleftrightarrow> t = PT_TCP \<or> t = 26 \<or> t = 2 \<or> t = 3 \<or> t = 4 \<or> t = PT_ACK \<or> t = 55 \<or> t = 56"

definition RT_PORT :: int where "RT_PORT = 255"
definition IP_HDR_LEN :: int where "IP_HDR_LEN = 20"

text \<open>All ones, as an \<open>nsaddr_t\<close>.\<close>

definition IP_BROADCAST :: int where "IP_BROADCAST = - 1"

text \<open>A packet from \<open>Packet::alloc\<close>: zeros, but for two fields.\<close>

definition packet_alloc :: packet where
  "packet_alloc = \<lparr>p_tag = 0, p_ptype = 0, p_size = 0, p_ts = 0, p_iface = 0, p_error = 0,
     p_direction = DirDown, p_prev_hop = 0, p_next_hop = - 2, p_addr_type = NS_AF_NONE,
     p_xmit_failure = False, p_num_forwards = 0, p_saddr = 0, p_daddr = 0, p_sport = 0, p_dport = 0,
     p_ttl = 0, p_body = NoBody\<rparr>"

definition rreq_size :: int where "rreq_size = 7 * 4"
definition rrep_size :: int where "rrep_size = 6 * 4"
definition rerr_size :: "rerr \<Rightarrow> int" where "rerr_size es = (int (length es) * 2 + 1) * 4"

definition AODV_MAX_ERRORS :: nat where "AODV_MAX_ERRORS = 100"

datatype aodv_error =
    AssertFailed
  | ErrorListFull \<comment> \<open>a write behind the arrays of \<open>hdr_aodv_error\<close>\<close>
  | CastUndefined \<comment> \<open>a double outside the range of the integer it is converted to\<close>
  | DivByZero
  | UseAfterFree
  | ExitCalled
  | NullPointer
  | OutOfFuel

text \<open>The next slot of the arrays, and the count.\<close>

definition rerr_add :: "int \<Rightarrow> 32 word \<Rightarrow> rerr \<Rightarrow> aodv_error + rerr" where
  "rerr_add d n es = (if length es < AODV_MAX_ERRORS then Inr (es @ [(d, n)]) else Inl ErrorListFull)"

text \<open>Sequencing of operations that may fail.\<close>

fun bind_err :: "'e + 'a \<Rightarrow> ('a \<Rightarrow> 'e + 'b) \<Rightarrow> 'e + 'b" where
  "bind_err (Inl e) f = Inl e"
| "bind_err (Inr x) f = f x"

definition assert_that :: "bool \<Rightarrow> 'a \<Rightarrow> aodv_error + 'a" where
  "assert_that b x = (if b then Inr x else Inl AssertFailed)"

lemma bind_err_Inr [simp]: "bind_err r f = Inr y \<longleftrightarrow> (\<exists>x. r = Inr x \<and> f x = Inr y)"
  by (cases r) auto

lemma bind_err_Inr_id [simp]: "bind_err r Inr = r"
  by (cases r) auto

lemma assert_that_Inr [simp]: "assert_that b x = Inr y \<longleftrightarrow> b \<and> y = x"
  by (auto simp: assert_that_def)

lemma assert_that_True [simp]: "assert_that True x = Inr x" "assert_that False x = Inl AssertFailed"
  by (simp_all add: assert_that_def)

section \<open>Route table entries\<close>

datatype rt_flags = RTF_DOWN | RTF_UP | RTF_IN_REPAIR

definition INFINITY2 :: nat where "INFINITY2 = 255"
definition MAX_HISTORY :: nat where "MAX_HISTORY = 3"

record neighbor =
  nb_addr :: int
  nb_expire :: real

record rt_entry =
  rt_req_timeout :: real
  rt_req_cnt :: "8 word"
  rt_dst :: int
  rt_seqno :: "32 word"
  rt_hops :: "16 word"
  rt_last_hop_count :: int
  rt_nexthop :: int
  rt_pclist :: "int list"
  rt_expire :: real
  rt_flags :: rt_flags
  rt_disc_latency :: "real list"
  rt_hist_indx :: nat
  rt_req_last_ttl :: int
  rt_nblist :: "neighbor list"

definition aodv_rt_entry :: rt_entry where
  "aodv_rt_entry = \<lparr>rt_req_timeout = 0, rt_req_cnt = 0, rt_dst = 0, rt_seqno = 0,
     rt_hops = of_nat INFINITY2, rt_last_hop_count = int INFINITY2, rt_nexthop = 0, rt_pclist = [],
     rt_expire = 0, rt_flags = RTF_DOWN, rt_disc_latency = replicate MAX_HISTORY 0, rt_hist_indx = 0,
     rt_req_last_ttl = 0, rt_nblist = []\<rparr>"

definition rte_nb_insert :: "int \<Rightarrow> rt_entry \<Rightarrow> rt_entry" where
  "rte_nb_insert a rt = rt\<lparr>rt_nblist := \<lparr>nb_addr = a, nb_expire = 0\<rparr> # rt_nblist rt\<rparr>"

definition rte_nb_lookup :: "int \<Rightarrow> rt_entry \<Rightarrow> neighbor option" where
  "rte_nb_lookup a rt = find (\<lambda>nb. nb_addr nb = a) (rt_nblist rt)"

definition pc_lookup :: "int \<Rightarrow> rt_entry \<Rightarrow> bool" where
  "pc_lookup a rt = list_ex (\<lambda>pc. pc = a) (rt_pclist rt)"

definition pc_insert :: "int \<Rightarrow> rt_entry \<Rightarrow> rt_entry" where
  "pc_insert a rt = (if pc_lookup a rt then rt else rt\<lparr>rt_pclist := a # rt_pclist rt\<rparr>)"

definition pc_delete :: "int \<Rightarrow> rt_entry \<Rightarrow> rt_entry" where
  "pc_delete a rt = rt\<lparr>rt_pclist := remove1 a (rt_pclist rt)\<rparr>"

definition pc_delete_all :: "rt_entry \<Rightarrow> rt_entry" where
  "pc_delete_all rt = rt\<lparr>rt_pclist := []\<rparr>"

definition pc_empty :: "rt_entry \<Rightarrow> bool" where
  "pc_empty rt \<longleftrightarrow> rt_pclist rt = []"

section \<open>The route table\<close>

fun rt_lookup :: "int \<Rightarrow> rt_entry list \<Rightarrow> rt_entry option" where
  "rt_lookup a [] = None"
| "rt_lookup a (rt # rts) = (if rt_dst rt = a then Some rt else rt_lookup a rts)"

fun rt_delete :: "int \<Rightarrow> rt_entry list \<Rightarrow> rt_entry list" where
  "rt_delete a [] = []"
| "rt_delete a (rt # rts) = (if rt_dst rt = a then rts else rt # rt_delete a rts)"

definition rt_add :: "int \<Rightarrow> rt_entry list \<Rightarrow> aodv_error + rt_entry list" where
  "rt_add a rts = assert_that (rt_lookup a rts = None) (aodv_rt_entry\<lparr>rt_dst := a\<rparr> # rts)"

text \<open>An assignment through a pointer to the entry of destination \<open>a\<close>.\<close>

fun rt_write :: "int \<Rightarrow> (rt_entry \<Rightarrow> rt_entry) \<Rightarrow> rt_entry list \<Rightarrow> rt_entry list" where
  "rt_write a f [] = []"
| "rt_write a f (rt # rts) = (if rt_dst rt = a then f rt # rts else rt # rt_write a f rts)"

text \<open>The table as a map from destinations to entries.\<close>

definition rt_ok :: "rt_entry list \<Rightarrow> bool" where
  "rt_ok rts \<longleftrightarrow> distinct (map rt_dst rts)"

lemma rt_lookup_dst: "rt_lookup a rts = Some rt \<Longrightarrow> rt_dst rt = a \<and> rt \<in> set rts"
  by (induction rts) (auto split: if_splits)

lemma rt_lookup_None: "rt_lookup a rts = None \<longleftrightarrow> a \<notin> rt_dst ` set rts"
  by (induction rts) auto

lemma rt_lookup_mem: "rt_ok rts \<Longrightarrow> rt \<in> set rts \<Longrightarrow> rt_lookup (rt_dst rt) rts = Some rt"
  by (induction rts) (auto simp: rt_ok_def image_iff)

lemma rt_lookup_write [simp]:
  assumes "\<And>rt. rt_dst (f rt) = rt_dst rt"
  shows "rt_lookup b (rt_write a f rts) = (if a = b then map_option f (rt_lookup b rts) else rt_lookup b rts)"
  by (induction rts) (auto simp: assms)

lemma rt_write_dsts [simp]:
  assumes "\<And>rt. rt_dst (f rt) = rt_dst rt"
  shows "map rt_dst (rt_write a f rts) = map rt_dst rts"
  by (induction rts) (auto simp: assms)

lemma rt_ok_write [simp]: "(\<And>rt. rt_dst (f rt) = rt_dst rt) \<Longrightarrow> rt_ok (rt_write a f rts) = rt_ok rts"
  by (simp add: rt_ok_def)

lemma rt_write_set: "rt \<in> set (rt_write a f rts) \<Longrightarrow> rt \<in> set rts \<or> (\<exists>r. rt_lookup a rts = Some r \<and> rt = f r)"
  by (induction rts) (auto split: if_splits)

lemma rt_add_Inr: "rt_add a rts = Inr rts' \<longleftrightarrow> a \<notin> rt_dst ` set rts \<and> rts' = aodv_rt_entry\<lparr>rt_dst := a\<rparr> # rts"
  by (auto simp: rt_add_def rt_lookup_None)

lemma rt_ok_add: "rt_ok rts \<Longrightarrow> rt_add a rts = Inr rts' \<Longrightarrow> rt_ok rts'"
  by (auto simp: rt_add_Inr rt_ok_def)

lemma rt_ok_delete: "rt_ok rts \<Longrightarrow> rt_ok (rt_delete a rts)"
proof -
  have sub: "set (rt_delete a rts) \<subseteq> set rts" for rts by (induction rts) auto
  show "rt_ok rts \<Longrightarrow> rt_ok (rt_delete a rts)"
    by (induction rts) (use sub in \<open>auto simp: rt_ok_def\<close>)
qed

text \<open>The laws of a table, for add, delete and lookup.\<close>

locale route_table =
  fixes ok :: "'t \<Rightarrow> bool" and look :: "'k \<Rightarrow> 't \<Rightarrow> 'v option"
    and put :: "'k \<Rightarrow> 't \<Rightarrow> 'e + 't" and drop_key :: "'k \<Rightarrow> 't \<Rightarrow> 't" and fresh :: "'k \<Rightarrow> 'v"
  assumes add_ok: "ok t \<Longrightarrow> put k t = Inr t' \<Longrightarrow> ok t'"
    and del_ok: "ok t \<Longrightarrow> ok (drop_key k t)"
    and add_iff: "(\<exists>t'. put k t = Inr t') \<longleftrightarrow> look k t = None"
    and find_add: "put k t = Inr t' \<Longrightarrow> look j t' = (if j = k then Some (fresh k) else look j t)"
    and find_del: "ok t \<Longrightarrow> look j (drop_key k t) = (if j = k then None else look j t)"
begin

lemma add_del: "ok t \<Longrightarrow> put k t = Inr t' \<Longrightarrow> look j (drop_key k t') = look j t"
  using add_ok [of t k t'] add_iff [of k t] find_add [of k t t' j] find_del [of t' j k] by auto

lemma del_add: "ok t \<Longrightarrow> \<exists>t'. put k (drop_key k t) = Inr t' \<and> ok t' \<and> look k t' = Some (fresh k)"
  using add_iff [of k "drop_key k t"] find_del [of t k k] add_ok [OF del_ok] find_add by fastforce

lemma add_twice: "put k t = Inr t' \<Longrightarrow> \<not> (\<exists>u. put k t' = Inr u)"
  using find_add [of k t t' k] add_iff [of k t'] by auto

end

interpretation rt: route_table rt_ok rt_lookup rt_add rt_delete "\<lambda>a. aodv_rt_entry\<lparr>rt_dst := a\<rparr>"
proof (unfold_locales, goal_cases)
  case (1 t k t')
  then show ?case by (rule rt_ok_add)
next
  case (2 t k)
  then show ?case by (rule rt_ok_delete)
next
  case (3 k t)
  then show ?case by (simp add: rt_add_def)
next
  case (4 k t t' j)
  then show ?case by (auto simp: rt_add_def)
next
  case (5 t j k)
  then show ?case by (induction t) (auto simp: rt_ok_def rt_lookup_None)
qed

section \<open>The broadcast-id cache and the neighbour cache\<close>

record bcast_id =
  b_src :: int
  b_id :: "32 word"
  b_expire :: real

definition BCAST_ID_SAVE :: real where "BCAST_ID_SAVE = 6"

definition id_insert :: "real \<Rightarrow> int \<Rightarrow> 32 word \<Rightarrow> bcast_id list \<Rightarrow> bcast_id list" where
  "id_insert now a b bs = \<lparr>b_src = a, b_id = b, b_expire = now + BCAST_ID_SAVE\<rparr> # bs"

definition id_lookup :: "int \<Rightarrow> 32 word \<Rightarrow> bcast_id list \<Rightarrow> bool" where
  "id_lookup a b bs = list_ex (\<lambda>x. b_src x = a \<and> b_id x = b) bs"

fun id_purge :: "real \<Rightarrow> bcast_id list \<Rightarrow> bcast_id list" where
  "id_purge now [] = []"
| "id_purge now (b # bs) = (if b_expire b \<le> now then id_purge now bs else b # id_purge now bs)"

definition nb_lookup :: "int \<Rightarrow> neighbor list \<Rightarrow> neighbor option" where
  "nb_lookup a nbs = find (\<lambda>nb. nb_addr nb = a) nbs"

fun nb_remove :: "int \<Rightarrow> neighbor list \<Rightarrow> neighbor list" where
  "nb_remove a [] = []"
| "nb_remove a (nb # nbs) = (if nb_addr nb = a then nbs else nb # nb_remove a nbs)"

fun nb_write :: "int \<Rightarrow> (neighbor \<Rightarrow> neighbor) \<Rightarrow> neighbor list \<Rightarrow> neighbor list" where
  "nb_write a f [] = []"
| "nb_write a f (nb # nbs) = (if nb_addr nb = a then f nb # nbs else nb # nb_write a f nbs)"

lemma id_purge_filter: "id_purge now bs = filter (\<lambda>b. now < b_expire b) bs"
  by (induction bs) auto

lemma id_lookup_insert [simp]: "id_lookup a b (id_insert now c d bs) \<longleftrightarrow> a = c \<and> b = d \<or> id_lookup a b bs"
  by (auto simp: id_lookup_def id_insert_def)

text \<open>A broadcast id is remembered for \<open>BCAST_ID_SAVE\<close> seconds.\<close>

lemma id_kept: "t < now + BCAST_ID_SAVE \<Longrightarrow> id_lookup a b (id_purge t (id_insert now a b bs))"
  by (simp add: id_insert_def id_lookup_def)

end
