(* ===== verification/AodvQueue.thy ===== *)
theory AodvQueue
  imports AodvTables
begin

text \<open>
  The buffer for packets without a route, aodv/aodv_rqueue.cc: a linked list with a counter,
  a limit and a time out.  \<open>head_\<close> and the \<open>next_\<close> pointers are the list, \<open>tail_\<close> is its
  last element.  Dropped packets are returned with their reason.
\<close>

datatype drop_reason =
    DROP_RTR_QFULL | DROP_RTR_QTIMEOUT | DROP_RTR_MAC_CALLBACK | DROP_RTR_NO_ROUTE
  | DROP_RTR_ROUTE_LOOP | DROP_RTR_TTL

record rqueue =
  rq_pkts :: "packet list"
  rq_len :: int
  rq_limit :: int
  rq_timeout :: real

definition aodv_rqueue :: rqueue where
  "aodv_rqueue = \<lparr>rq_pkts = [], rq_len = 0, rq_limit = 64, rq_timeout = 30\<rparr>"

definition rq_remove_head :: "rqueue \<Rightarrow> packet option \<times> rqueue" where
  "rq_remove_head q = (case rq_pkts q of
     [] \<Rightarrow> (None, q)
   | p # ps \<Rightarrow> (Some p, q\<lparr>rq_pkts := ps, rq_len := rq_len q - 1\<rparr>))"

definition rq_verifyQueue :: "rqueue \<Rightarrow> aodv_error + rqueue" where
  "rq_verifyQueue q = assert_that (int (length (rq_pkts q)) = rq_len q) q"

text \<open>The packets before the first one that satisfies the condition, and those from it on.\<close>

definition rq_split :: "(packet \<Rightarrow> bool) \<Rightarrow> rqueue \<Rightarrow> packet list \<times> packet list" where
  "rq_split P q = (takeWhile (\<lambda>p. \<not> P p) (rq_pkts q), dropWhile (\<lambda>p. \<not> P p) (rq_pkts q))"

definition findAgedPacket :: "real \<Rightarrow> rqueue \<Rightarrow> packet list \<times> packet list" where
  "findAgedPacket now = rq_split (\<lambda>p. p_ts p < now)"

definition findPacketWithDst :: "int \<Rightarrow> rqueue \<Rightarrow> packet list \<times> packet list" where
  "findPacketWithDst d = rq_split (\<lambda>p. p_daddr p = d)"

text \<open>The unlinking of the packet \<open>p\<close> that follows \<open>pre\<close>: at the head, or behind \<open>prev\<close>.\<close>

definition rq_unlink :: "packet list \<Rightarrow> packet \<Rightarrow> packet list \<Rightarrow> rqueue \<Rightarrow> rqueue" where
  "rq_unlink pre p post q =
     (if pre = [] then snd (rq_remove_head q)
      else q\<lparr>rq_pkts := pre @ post, rq_len := rq_len q - 1\<rparr>)"

lemma rq_split_append: "rq_split P q = (pre, post) \<Longrightarrow> rq_pkts q = pre @ post"
  by (auto simp: rq_split_def)

lemma rq_unlink_pkts:
  assumes "rq_pkts q = pre @ p # post"
  shows "rq_unlink pre p post q = q\<lparr>rq_pkts := pre @ post, rq_len := rq_len q - 1\<rparr>"
  using assms by (auto simp: rq_unlink_def rq_remove_head_def)

function rq_purge :: "real \<Rightarrow> rqueue \<Rightarrow> aodv_error + rqueue" where
  "rq_purge now q =
     (case findAgedPacket now q of
        (pre, []) \<Rightarrow> Inr q
      | (pre, p # post) \<Rightarrow>
          (case rq_verifyQueue (rq_unlink pre p post q) of
             Inl e \<Rightarrow> Inl e
           | Inr q \<Rightarrow> rq_purge now q))"
  by pat_completeness auto

termination
  by (relation "measure (\<lambda>(now, q). length (rq_pkts q))")
    (auto simp: findAgedPacket_def rq_verifyQueue_def dest!: rq_split_append [OF sym] simp: rq_unlink_pkts)

declare rq_purge.simps [simp del]

definition rq_enque :: "real \<Rightarrow> packet \<Rightarrow> rqueue \<Rightarrow> aodv_error + (packet \<times> drop_reason) list \<times> rqueue" where
  "rq_enque now p q =
     bind_err (rq_purge now q) (\<lambda>q.
       let p = p\<lparr>p_ts := now + rq_timeout q\<rparr> in
       bind_err
         (if rq_len q = rq_limit q then
            (case rq_remove_head q of
               (None, q) \<Rightarrow> Inl AssertFailed
             | (Some p0, q) \<Rightarrow> Inr ([(p0, if p_ts p0 > now then DROP_RTR_QFULL else DROP_RTR_QTIMEOUT)], q))
          else Inr ([], q))
         (\<lambda>(drops, q).
            bind_err (rq_verifyQueue (q\<lparr>rq_pkts := rq_pkts q @ [p], rq_len := rq_len q + 1\<rparr>))
              (\<lambda>q. Inr (drops, q))))"

definition rq_deque :: "real \<Rightarrow> rqueue \<Rightarrow> aodv_error + packet option \<times> rqueue" where
  "rq_deque now q =
     bind_err (rq_purge now q) (\<lambda>q.
       case rq_remove_head q of (p, q) \<Rightarrow> bind_err (rq_verifyQueue q) (\<lambda>q. Inr (p, q)))"

definition rq_deque_dst :: "real \<Rightarrow> int \<Rightarrow> rqueue \<Rightarrow> aodv_error + packet option \<times> rqueue" where
  "rq_deque_dst now d q =
     bind_err (rq_purge now q) (\<lambda>q.
       case findPacketWithDst d q of
         (pre, []) \<Rightarrow> Inr (None, q)
       | (pre, p # post) \<Rightarrow>
           bind_err (rq_verifyQueue (rq_unlink pre p post q)) (\<lambda>q. Inr (Some p, q)))"

definition rq_find :: "int \<Rightarrow> rqueue \<Rightarrow> bool" where
  "rq_find d q \<longleftrightarrow> snd (findPacketWithDst d q) \<noteq> []"

subsection \<open>The buffer as a list\<close>

definition rq_ok :: "rqueue \<Rightarrow> bool" where
  "rq_ok q \<longleftrightarrow> rq_len q = int (length (rq_pkts q)) \<and> rq_len q \<le> rq_limit q \<and> 0 < rq_limit q"

definition fresh :: "real \<Rightarrow> packet list \<Rightarrow> packet list" where
  "fresh now = filter (\<lambda>p. now \<le> p_ts p)"

text \<open>The first packet for a destination, and the rest.\<close>

fun take_dst :: "int \<Rightarrow> packet list \<Rightarrow> packet option \<times> packet list" where
  "take_dst d [] = (None, [])"
| "take_dst d (p # ps) = (if p_daddr p = d then (Some p, ps) else case take_dst d ps of (r, ps) \<Rightarrow> (r, p # ps))"

lemma rq_ok_new: "rq_ok aodv_rqueue"
  by (simp add: rq_ok_def aodv_rqueue_def)

lemma rq_verify_ok [simp]: "rq_ok q \<Longrightarrow> rq_verifyQueue q = Inr q"
  by (simp add: rq_verifyQueue_def rq_ok_def)

lemma rq_ok_unlink: "rq_ok q \<Longrightarrow> rq_pkts q = pre @ p # post \<Longrightarrow> rq_ok (rq_unlink pre p post q)"
  by (auto simp: rq_unlink_pkts rq_ok_def)

lemma rq_purge_ok:
  "rq_ok q \<Longrightarrow> \<exists>q'. rq_purge now q = Inr q' \<and> rq_ok q' \<and> rq_pkts q' = fresh now (rq_pkts q) \<and>
     rq_limit q' = rq_limit q \<and> rq_timeout q' = rq_timeout q"
proof (induction now q rule: rq_purge.induct)
  case (1 now q)
  obtain pre post where s: "findAgedPacket now q = (pre, post)" by (metis surj_pair)
  then have sp: "rq_pkts q = pre @ post" by (auto simp: findAgedPacket_def dest: rq_split_append)
  have pre: "fresh now pre = pre"
    using s by (auto simp: findAgedPacket_def rq_split_def fresh_def filter_id_conv dest: set_takeWhileD)
  show ?case
  proof (cases post)
    case Nil
    with s sp pre 1(2) show ?thesis by (simp add: rq_purge.simps [of now q])
  next
    case (Cons p ps)
    have aged: "p_ts p < now"
      using s Cons by (auto simp: findAgedPacket_def rq_split_def dropWhile_eq_Cons_conv)
    have u: "rq_ok (rq_unlink pre p ps q)" using 1(2) sp Cons by (intro rq_ok_unlink) auto
    then have "rq_purge now q = rq_purge now (rq_unlink pre p ps q)"
      using s Cons by (subst rq_purge.simps) simp
    moreover have "fresh now (rq_pkts (rq_unlink pre p ps q)) = fresh now (rq_pkts q)"
      using sp Cons aged by (simp add: rq_unlink_pkts fresh_def)
    moreover have "rq_limit (rq_unlink pre p ps q) = rq_limit q" "rq_timeout (rq_unlink pre p ps q) = rq_timeout q"
      using sp Cons by (simp_all add: rq_unlink_pkts)
    ultimately show ?thesis using 1(1) [OF s [symmetric] Cons _ u] u by auto
  qed
qed

lemma take_dst_split:
  "dropWhile (\<lambda>p. p_daddr p \<noteq> d) ps = [] \<Longrightarrow> take_dst d ps = (None, ps)"
  "dropWhile (\<lambda>p. p_daddr p \<noteq> d) ps = p # post \<Longrightarrow> take_dst d ps = (Some p, takeWhile (\<lambda>p. p_daddr p \<noteq> d) ps @ post)"
  by (induction ps) (auto split: if_splits)

lemma rq_deque_dst_ok:
  assumes "rq_ok q"
  shows "\<exists>q'. rq_deque_dst now d q = Inr (fst (take_dst d (fresh now (rq_pkts q))), q') \<and> rq_ok q' \<and>
    rq_pkts q' = snd (take_dst d (fresh now (rq_pkts q))) \<and> rq_limit q' = rq_limit q \<and> rq_timeout q' = rq_timeout q"
proof -
  from rq_purge_ok [OF assms] obtain u where u: "rq_purge now q = Inr u" "rq_ok u"
    "rq_pkts u = fresh now (rq_pkts q)" "rq_limit u = rq_limit q" "rq_timeout u = rq_timeout q" by blast
  let ?pre = "takeWhile (\<lambda>p. p_daddr p \<noteq> d) (rq_pkts u)"
  show ?thesis
  proof (cases "dropWhile (\<lambda>p. p_daddr p \<noteq> d) (rq_pkts u)")
    case Nil
    then have "rq_deque_dst now d q = Inr (None, u)"
      by (simp add: rq_deque_dst_def findPacketWithDst_def rq_split_def u(1) del: dropWhile_eq_Nil_conv)
    with u take_dst_split(1) [OF Nil] show ?thesis by simp
  next
    case (Cons p post)
    have sp: "rq_pkts u = ?pre @ p # post" by (metis Cons takeWhile_dropWhile_id)
    note w = rq_ok_unlink [OF u(2) sp]
    with u take_dst_split(2) [OF Cons] Cons rq_unlink_pkts [OF sp] show ?thesis
      by (auto simp: rq_deque_dst_def findPacketWithDst_def rq_split_def)
  qed
qed

lemma rq_deque_ok:
  assumes "rq_ok q"
  shows "\<exists>q'. rq_deque now q = Inr (case fresh now (rq_pkts q) of [] \<Rightarrow> None | p # _ \<Rightarrow> Some p, q') \<and> rq_ok q' \<and>
    rq_pkts q' = tl (fresh now (rq_pkts q)) \<and> rq_limit q' = rq_limit q"
proof -
  from rq_purge_ok [OF assms] obtain u where u: "rq_purge now q = Inr u" "rq_ok u"
    "rq_pkts u = fresh now (rq_pkts q)" "rq_limit u = rq_limit q" by blast
  then have "rq_ok (snd (rq_remove_head u))" by (auto simp: rq_remove_head_def rq_ok_def split: list.splits)
  with u show ?thesis by (auto simp: rq_deque_def rq_remove_head_def split: list.splits)
qed

lemma rq_enque_ok:
  assumes "rq_ok q"
  shows "\<exists>q' ds. rq_enque now p q = Inr (ds, q') \<and> rq_ok q' \<and> rq_limit q' = rq_limit q \<and> rq_timeout q' = rq_timeout q \<and>
    map fst ds @ rq_pkts q' = fresh now (rq_pkts q) @ [p\<lparr>p_ts := now + rq_timeout q\<rparr>] \<and>
    p\<lparr>p_ts := now + rq_timeout q\<rparr> \<in> set (rq_pkts q') \<and> length ds \<le> 1 \<and>
    (ds = [] \<longleftrightarrow> int (length (fresh now (rq_pkts q))) < rq_limit q)"
proof -
  from rq_purge_ok [OF assms] obtain u where u: "rq_purge now q = Inr u" "rq_ok u"
    "rq_pkts u = fresh now (rq_pkts q)" "rq_limit u = rq_limit q" "rq_timeout u = rq_timeout q" by blast
  have len: "rq_len u = int (length (fresh now (rq_pkts q)))" "rq_len u \<le> rq_limit q"
    using u(2-4) by (simp_all add: rq_ok_def)
  show ?thesis
  proof (cases "rq_len u = rq_limit u")
    case True
    with u(2) obtain x xs where x: "rq_pkts u = x # xs" by (cases "rq_pkts u") (auto simp: rq_ok_def)
    with True u(2) have "rq_ok (u\<lparr>rq_pkts := xs @ [p\<lparr>p_ts := now + rq_timeout q\<rparr>], rq_len := rq_len u\<rparr>)"
      by (auto simp: rq_ok_def)
    with True x u len show ?thesis by (simp add: rq_enque_def rq_remove_head_def Let_def)
  next
    case False
    with u have "rq_ok (u\<lparr>rq_pkts := rq_pkts u @ [p\<lparr>p_ts := now + rq_timeout q\<rparr>], rq_len := rq_len u + 1\<rparr>)"
      by (auto simp: rq_ok_def)
    with False u len show ?thesis by (simp add: rq_enque_def Let_def)
  qed
qed

end
