(* ===== verification/Aodv.thy ===== *)
theory Aodv
  imports AodvQueue
begin

text \<open>
  The AODV routing agent, aodv/aodv.h and aodv/aodv.cc, as it is compiled (with link layer
  detection and local repair, without debugging output).  An operation takes the clock and the
  state, and ends in a new state or in an error: a failed assertion, or what has no defined
  behaviour in C++.  What the agent hands to others is collected in \<open>a_out\<close>: packets for the
  link layer with the delay they are scheduled with, packets dropped, freed and passed up, and
  timers.
\<close>

datatype aodv_timer = BroadcastTimer | HelloTimer | NeighborTimer | RouteCacheTimer

datatype aodv_out =
    Sent packet real
  | Dropped packet drop_reason
  | Freed packet
  | PassedUp packet
  | TimerSet aodv_timer real
  | RepairTimer packet real

text \<open>\<open>a_unif\<close> is the sequence of the values of \<open>Random::uniform()\<close>, \<open>a_drawn\<close> counts those used.\<close>

record aodv =
  a_index :: int
  a_here :: int
  a_seqno :: "32 word"
  a_bid :: int
  a_nb :: "neighbor list"
  a_bcast :: "bcast_id list"
  a_rtable :: "rt_entry list"
  a_rqueue :: rqueue
  a_ifq :: "packet list"
  a_unif :: "nat \<Rightarrow> real"
  a_drawn :: nat
  a_out :: "aodv_out list"

definition aodv_new :: "int \<Rightarrow> (nat \<Rightarrow> real) \<Rightarrow> aodv" where
  "aodv_new i u = \<lparr>a_index = i, a_here = i, a_seqno = 2, a_bid = 1, a_nb = [], a_bcast = [],
     a_rtable = [], a_rqueue = aodv_rqueue, a_ifq = [], a_unif = u, a_drawn = 0, a_out = []\<rparr>"

definition MY_ROUTE_TIMEOUT :: "32 word" where "MY_ROUTE_TIMEOUT = 10"
definition ACTIVE_ROUTE_TIMEOUT :: real where "ACTIVE_ROUTE_TIMEOUT = 10"
definition REV_ROUTE_LIFE :: real where "REV_ROUTE_LIFE = 6"
definition RREQ_RETRIES :: "8 word" where "RREQ_RETRIES = 3"
definition MAX_RREQ_TIMEOUT :: real where "MAX_RREQ_TIMEOUT = 10"
definition TTL_START :: int where "TTL_START = 5"
definition TTL_THRESHOLD :: int where "TTL_THRESHOLD = 7"
definition TTL_INCREMENT :: int where "TTL_INCREMENT = 2"
definition NODE_TRAVERSAL_TIME :: real where "NODE_TRAVERSAL_TIME = 3 / 100"
definition NETWORK_DIAMETER :: int where "NETWORK_DIAMETER = 30"
definition DELAY :: real where "DELAY = 1"
definition NO_DELAY :: real where "NO_DELAY = - 1"
definition ARP_DELAY :: real where "ARP_DELAY = 1 / 100"
definition HELLO_INTERVAL :: real where "HELLO_INTERVAL = 1"
definition ALLOWED_HELLO_LOSS :: real where "ALLOWED_HELLO_LOSS = 3"
definition MaxHelloInterval :: real where "MaxHelloInterval = 5 / 4 * HELLO_INTERVAL"
definition MinHelloInterval :: real where "MinHelloInterval = 3 / 4 * HELLO_INTERVAL"
definition FREQUENCY :: real where "FREQUENCY = 1 / 2"

definition emit :: "aodv_out \<Rightarrow> aodv \<Rightarrow> aodv" where
  "emit x s = s\<lparr>a_out := a_out s @ [x]\<rparr>"

definition unif :: "aodv \<Rightarrow> real \<times> aodv" where
  "unif s = (a_unif s (a_drawn s), s\<lparr>a_drawn := Suc (a_drawn s)\<rparr>)"

text \<open>Reading and writing through a pointer to a route entry.\<close>

definition with_rt :: "int \<Rightarrow> aodv \<Rightarrow> (rt_entry \<Rightarrow> aodv_error + 'a) \<Rightarrow> aodv_error + 'a" where
  "with_rt d s f = (case rt_lookup d (a_rtable s) of None \<Rightarrow> Inl NullPointer | Some rt \<Rightarrow> f rt)"

definition set_rt :: "int \<Rightarrow> (rt_entry \<Rightarrow> rt_entry) \<Rightarrow> aodv \<Rightarrow> aodv" where
  "set_rt d f s = s\<lparr>a_rtable := rt_write d f (a_rtable s)\<rparr>"

text \<open>The entry of \<open>d\<close>, added if there is none.\<close>

definition ensure_rt :: "int \<Rightarrow> aodv \<Rightarrow> aodv_error + aodv" where
  "ensure_rt d s = (case rt_lookup d (a_rtable s) of
     None \<Rightarrow> bind_err (rt_add d (a_rtable s)) (\<lambda>t. Inr (s\<lparr>a_rtable := t\<rparr>))
   | Some rt \<Rightarrow> Inr s)"

text \<open>Conversion of a double to \<open>u_int32_t\<close>: undefined unless the truncated value fits.\<close>

definition u32_of_real :: "real \<Rightarrow> aodv_error + 32 word" where
  "u32_of_real x =
     (let z = to_int x in if 0 \<le> z \<and> z < 2 ^ 32 then Inr (word_of_int z) else Inl CastUndefined)"

section \<open>Helper functions\<close>

definition PerHopTime :: "rt_entry option \<Rightarrow> real" where
  "PerHopTime r = (case r of
     None \<Rightarrow> NODE_TRAVERSAL_TIME
   | Some rt \<Rightarrow>
       (let ls = filter (\<lambda>l. l > 0) (rt_disc_latency rt) in
        if length ls > 0 then sum_list ls / real (length ls) else NODE_TRAVERSAL_TIME))"

definition rt_update :: "32 word \<Rightarrow> 16 word \<Rightarrow> int \<Rightarrow> real \<Rightarrow> rt_entry \<Rightarrow> rt_entry" where
  "rt_update seqnum metric nexthop expire_time rt =
     rt\<lparr>rt_seqno := seqnum, rt_hops := metric, rt_flags := RTF_UP, rt_nexthop := nexthop,
        rt_expire := expire_time\<rparr>"

definition rt_down :: "rt_entry \<Rightarrow> rt_entry" where
  "rt_down rt =
     (if rt_flags rt = RTF_DOWN then rt
      else rt\<lparr>rt_last_hop_count := int (unat (rt_hops rt)), rt_hops := of_nat INFINITY2,
              rt_flags := RTF_DOWN, rt_nexthop := 0, rt_expire := 0\<rparr>)"

definition no_route :: "rt_entry \<Rightarrow> bool" where
  "no_route rt \<longleftrightarrow> rt_hops rt = of_nat INFINITY2"

section \<open>Packet transmission\<close>

definition forward :: "int option \<Rightarrow> packet \<Rightarrow> real \<Rightarrow> real \<Rightarrow> aodv \<Rightarrow> aodv_error + aodv" where
  "forward r p delay now s =
     (if p_ttl p = 0 then Inr (emit (Dropped p DROP_RTR_TTL) s)
      else if (p_ptype p \<noteq> PT_AODV \<and> p_direction p = DirUp \<and> p_daddr p = IP_BROADCAST) \<or> p_daddr p = a_here s
      then Inr (emit (PassedUp p) s)
      else
        bind_err
          (case r of
             Some d \<Rightarrow> with_rt d s (\<lambda>rt.
               assert_that (rt_flags rt = RTF_UP)
                 (p\<lparr>p_next_hop := rt_nexthop rt, p_addr_type := NS_AF_INET, p_direction := DirDown\<rparr>,
                  set_rt d (\<lambda>rt. rt\<lparr>rt_expire := now + ACTIVE_ROUTE_TIMEOUT\<rparr>) s))
           | None \<Rightarrow>
               assert_that (p_daddr p = IP_BROADCAST)
                 (p\<lparr>p_addr_type := NS_AF_NONE, p_direction := DirDown\<rparr>, s))
          (\<lambda>(p, s).
             if p_daddr p = IP_BROADCAST then
               bind_err (assert_that (r = None) s) (\<lambda>s.
                 if p_ptype p = PT_AODV then (case unif s of (u, s) \<Rightarrow> Inr (emit (Sent p (1 / 100 * u)) s))
                 else Inr (emit (Sent p 0) s))
             else if delay > 0 then Inr (emit (Sent p delay) s)
             else Inr (emit (Sent p 0) s)))"

text \<open>
  The loops over the packets buffered for a destination.  The bound is one more than the number
  of packets in the buffer, and each pass takes one out.
\<close>

fun drain_loop :: "nat \<Rightarrow> real \<Rightarrow> int \<Rightarrow> (packet \<Rightarrow> 'x \<Rightarrow> aodv \<Rightarrow> aodv_error + 'x \<times> aodv) \<Rightarrow> 'x \<Rightarrow> aodv \<Rightarrow>
    aodv_error + 'x \<times> aodv" where
  "drain_loop 0 now d body x s = Inl OutOfFuel"
| "drain_loop (Suc n) now d body x s =
     bind_err (rq_deque_dst now d (a_rqueue s)) (\<lambda>(r, q).
       let s = s\<lparr>a_rqueue := q\<rparr> in
       case r of
         None \<Rightarrow> Inr (x, s)
       | Some p \<Rightarrow> bind_err (body p x s) (\<lambda>(x, s). drain_loop n now d body x s))"

definition drain :: "real \<Rightarrow> int \<Rightarrow> (packet \<Rightarrow> 'x \<Rightarrow> aodv \<Rightarrow> aodv_error + 'x \<times> aodv) \<Rightarrow> 'x \<Rightarrow> aodv \<Rightarrow>
    aodv_error + 'x \<times> aodv" where
  "drain now d body x s = drain_loop (Suc (length (rq_pkts (a_rqueue s)))) now d body x s"

definition drop_no_route :: "packet \<Rightarrow> unit \<Rightarrow> aodv \<Rightarrow> aodv_error + unit \<times> aodv" where
  "drop_no_route p x s = Inr (x, emit (Dropped p DROP_RTR_NO_ROUTE) s)"

text \<open>\<open>rqueue.enque(p)\<close>, whose drops are the agent's.\<close>

definition enque_buffer :: "real \<Rightarrow> packet \<Rightarrow> aodv \<Rightarrow> aodv_error + aodv" where
  "enque_buffer now p s =
     bind_err (rq_enque now p (a_rqueue s)) (\<lambda>(drops, q).
       Inr (fold (\<lambda>(p, why). emit (Dropped p why)) drops (s\<lparr>a_rqueue := q\<rparr>)))"

text \<open>The choice of the TTL of a request, and its time out.\<close>

definition request_ttl :: "rt_entry \<Rightarrow> int \<times> rt_entry" where
  "request_ttl rt =
     (let rt = rt\<lparr>rt_req_last_ttl := max (rt_req_last_ttl rt) (rt_last_hop_count rt)\<rparr> in
      if rt_req_last_ttl rt = 0 then (TTL_START, rt)
      else if rt_req_last_ttl rt < TTL_THRESHOLD then (rt_req_last_ttl rt + TTL_INCREMENT, rt)
      else (NETWORK_DIAMETER, rt\<lparr>rt_req_cnt := rt_req_cnt rt + 1\<rparr>))"

definition request_timeout :: "real \<Rightarrow> int \<Rightarrow> rt_entry \<Rightarrow> rt_entry" where
  "request_timeout now ttl rt =
     (let rt = rt\<lparr>rt_req_last_ttl := ttl\<rparr>;
          t = 2 * of_int ttl * PerHopTime (Some rt);
          t = (if rt_req_cnt rt > 0 then t * real (unat (rt_req_cnt rt)) else t);
          t = t + now;
          t = (if t > now + MAX_RREQ_TIMEOUT then now + MAX_RREQ_TIMEOUT else t)
      in rt\<lparr>rt_req_timeout := t, rt_expire := 0\<rparr>)"

definition sendRequest :: "int \<Rightarrow> real \<Rightarrow> aodv \<Rightarrow> aodv_error + aodv" where
  "sendRequest dst now s =
     (case rt_lookup dst (a_rtable s) of
        None \<Rightarrow> Inl AssertFailed
      | Some rt \<Rightarrow>
          if rt_flags rt = RTF_UP then assert_that (\<not> no_route rt) s
          else if rt_req_timeout rt > now then Inr s
          else if rt_req_cnt rt > RREQ_RETRIES then
            bind_err
              (drain now (rt_dst rt) drop_no_route ()
                 (set_rt dst (\<lambda>rt. rt\<lparr>rt_req_timeout := now + MAX_RREQ_TIMEOUT, rt_req_cnt := 0\<rparr>) s))
              (\<lambda>(_, s). Inr s)
          else
            (case request_ttl rt of (ttl, rt') \<Rightarrow>
               let rt' = request_timeout now ttl rt';
                   seq = a_seqno s + 2
               in bind_err (assert_that (even seq) ())
                    (\<lambda>_. Inr (emit
                       (Sent (packet_alloc\<lparr>p_ptype := PT_AODV, p_size := IP_HDR_LEN + rreq_size, p_iface := - 2,
                                p_error := 0, p_addr_type := NS_AF_NONE, p_prev_hop := a_index s,
                                p_saddr := a_index s, p_daddr := IP_BROADCAST, p_sport := RT_PORT,
                                p_dport := RT_PORT, p_ttl := ttl,
                                p_body := RREQ \<lparr>rq_hop_count = 1, rq_bcast_id = word_of_int (a_bid s),
                                  rq_dst = dst, rq_dst_seqno = rt_seqno rt', rq_src = a_index s,
                                  rq_src_seqno = seq, rq_timestamp = now\<rparr>\<rparr>) 0)
                       ((set_rt dst (\<lambda>_. rt') s)\<lparr>a_bid := a_bid s + 1, a_seqno := seq\<rparr>)))))"

definition sendReply ::
  "int \<Rightarrow> nat \<Rightarrow> int \<Rightarrow> 32 word \<Rightarrow> 32 word \<Rightarrow> real \<Rightarrow> aodv \<Rightarrow> aodv_error + aodv" where
  "sendReply ipdst hop_count rpdst rpseq lifetime timestamp s =
     (case rt_lookup ipdst (a_rtable s) of
        None \<Rightarrow> Inl AssertFailed
      | Some rt \<Rightarrow>
          Inr (emit
            (Sent (packet_alloc\<lparr>p_ptype := PT_AODV, p_size := IP_HDR_LEN + rrep_size, p_iface := - 2,
                     p_error := 0, p_addr_type := NS_AF_INET, p_next_hop := rt_nexthop rt,
                     p_prev_hop := a_index s, p_direction := DirDown, p_saddr := a_index s,
                     p_daddr := ipdst, p_sport := RT_PORT, p_dport := RT_PORT, p_ttl := NETWORK_DIAMETER,
                     p_body := RREP \<lparr>rp_hop_count = of_nat hop_count, rp_dst = rpdst,
                       rp_dst_seqno = rpseq, rp_src = a_index s, rp_lifetime = real (unat lifetime),
                       rp_timestamp = timestamp\<rparr>\<rparr>) 0) s))"

definition sendError :: "rerr \<Rightarrow> bool \<Rightarrow> aodv \<Rightarrow> aodv" where
  "sendError es jitter s =
     (let p = packet_alloc\<lparr>p_ptype := PT_AODV, p_size := IP_HDR_LEN + rerr_size es, p_iface := - 2,
            p_error := 0, p_addr_type := NS_AF_NONE, p_next_hop := 0, p_prev_hop := a_index s,
            p_direction := DirDown, p_saddr := a_index s, p_daddr := IP_BROADCAST, p_sport := RT_PORT,
            p_dport := RT_PORT, p_ttl := 1, p_body := RERR es\<rparr>
      in if jitter then (case unif s of (u, s) \<Rightarrow> emit (Sent p (1 / 100 * u)) s)
         else emit (Sent p 0) s)"

definition sendHello :: "aodv \<Rightarrow> aodv" where
  "sendHello s = emit
     (Sent (packet_alloc\<lparr>p_ptype := PT_AODV, p_size := IP_HDR_LEN + rrep_size, p_iface := - 2,
              p_error := 0, p_addr_type := NS_AF_NONE, p_prev_hop := a_index s, p_saddr := a_index s,
              p_daddr := IP_BROADCAST, p_sport := RT_PORT, p_dport := RT_PORT, p_ttl := 1,
              p_body := HELLO \<lparr>rp_hop_count = 1, rp_dst = a_index s, rp_dst_seqno = a_seqno s,
                rp_src = 0, rp_lifetime = (1 + ALLOWED_HELLO_LOSS) * HELLO_INTERVAL,
                rp_timestamp = 0\<rparr>\<rparr>) 0) s"

end
