(* ===== verification/AodvAgent.thy ===== *)
theory AodvAgent
  imports Aodv
begin

text \<open>
  The handlers of the AODV agent of aodv/aodv.cc: link failures, route resolution, the packets
  received and the timers.
\<close>

section \<open>Link failures\<close>

text \<open>The loop over the route table; entries are changed in place.\<close>

fun link_failure_loop :: "int \<Rightarrow> rt_entry list \<Rightarrow> rerr \<Rightarrow> aodv_error + rt_entry list \<times> rerr" where
  "link_failure_loop a [] es = Inr ([], es)"
| "link_failure_loop a (rt # rts) es =
     bind_err
       (if \<not> no_route rt \<and> rt_nexthop rt = a then
          bind_err (assert_that (rt_flags rt = RTF_UP \<and> even (rt_seqno rt)) (rt\<lparr>rt_seqno := rt_seqno rt + 1\<rparr>)) (\<lambda>rt.
            bind_err (rerr_add (rt_dst rt) (rt_seqno rt) es) (\<lambda>es. Inr (rt_down rt, es)))
        else Inr (rt, es))
       (\<lambda>(rt, es).
          bind_err (link_failure_loop a rts es) (\<lambda>(rts, es). Inr (pc_delete a rt # rts, es)))"

definition handle_link_failure :: "int \<Rightarrow> aodv \<Rightarrow> aodv_error + aodv" where
  "handle_link_failure a s =
     bind_err (link_failure_loop a (a_rtable s) []) (\<lambda>(t, es).
       let s = s\<lparr>a_rtable := t\<rparr> in
       Inr (if length es > 0 then sendError es False s else s))"

definition nb_delete :: "int \<Rightarrow> aodv \<Rightarrow> aodv_error + aodv" where
  "nb_delete a s =
     bind_err (assert_that (even (a_seqno s + 2)) (s\<lparr>a_seqno := a_seqno s + 2\<rparr>)) (\<lambda>s.
       handle_link_failure a (s\<lparr>a_nb := nb_remove a (a_nb s)\<rparr>))"

definition nb_insert :: "int \<Rightarrow> real \<Rightarrow> aodv \<Rightarrow> aodv_error + aodv" where
  "nb_insert a now s =
     assert_that (even (a_seqno s + 2))
       (s\<lparr>a_nb := \<lparr>nb_addr = a, nb_expire = now + 3 / 2 * ALLOWED_HELLO_LOSS * HELLO_INTERVAL\<rparr> # a_nb s,
          a_seqno := a_seqno s + 2\<rparr>)"

text \<open>The loop keeps the successor of the entry it looks at.\<close>

fun nb_purge_loop :: "real \<Rightarrow> neighbor list \<Rightarrow> aodv \<Rightarrow> aodv_error + aodv" where
  "nb_purge_loop now [] s = Inr s"
| "nb_purge_loop now (nb # nbs) s =
     bind_err (if nb_expire nb \<le> now then nb_delete (nb_addr nb) s else Inr s)
       (\<lambda>s. nb_purge_loop now nbs s)"

definition nb_purge :: "real \<Rightarrow> aodv \<Rightarrow> aodv_error + aodv" where
  "nb_purge now s = nb_purge_loop now (a_nb s) s"

text \<open>\<open>ifqueue->filter\<close>: the first packet for the next hop leaves the interface queue.\<close>

fun ifq_filter :: "int \<Rightarrow> packet list \<Rightarrow> packet option \<times> packet list" where
  "ifq_filter a [] = (None, [])"
| "ifq_filter a (p # ps) =
     (if p_next_hop p = a then (Some p, ps) else case ifq_filter a ps of (r, ps) \<Rightarrow> (r, p # ps))"

lemma ifq_filter_less: "ifq_filter a ps = (Some p, ps') \<Longrightarrow> length ps' < length ps"
  by (induction ps arbitrary: ps') (auto split: if_splits prod.splits)

function ifq_drop_all :: "int \<Rightarrow> aodv \<Rightarrow> aodv" where
  "ifq_drop_all a s =
     (case ifq_filter a (a_ifq s) of
        (None, ps) \<Rightarrow> s
      | (Some p, ps) \<Rightarrow> ifq_drop_all a (emit (Dropped p DROP_RTR_MAC_CALLBACK) (s\<lparr>a_ifq := ps\<rparr>)))"
  by pat_completeness auto
termination
  by (relation "measure (\<lambda>(a, s). length (a_ifq s))") (auto simp: emit_def dest!: ifq_filter_less [OF sym])

declare ifq_drop_all.simps [simp del]

text \<open>
  The packet is copied after \<open>sendRequest\<close>, which may have dropped, that is, freed it.
\<close>

definition local_rt_repair :: "int \<Rightarrow> packet \<Rightarrow> real \<Rightarrow> aodv \<Rightarrow> aodv_error + aodv" where
  "local_rt_repair d p now s =
     bind_err (enque_buffer now p s) (\<lambda>s.
       let p = p\<lparr>p_ts := now + rq_timeout (a_rqueue s)\<rparr>;
           s = set_rt d (\<lambda>rt. rt\<lparr>rt_flags := RTF_IN_REPAIR\<rparr>) s
       in bind_err (sendRequest d now s) (\<lambda>s.
            if p \<notin> set (rq_pkts (a_rqueue s)) then Inl UseAfterFree
            else with_rt d s (\<lambda>rt. Inr (emit (RepairTimer p (rt_req_timeout rt)) s))))"

definition rt_ll_failed :: "packet \<Rightarrow> real \<Rightarrow> aodv \<Rightarrow> aodv_error + aodv" where
  "rt_ll_failed p now s =
     (if \<not> DATA_PACKET (p_ptype p) \<or> p_daddr p = IP_BROADCAST then Inr (emit (Dropped p DROP_RTR_MAC_CALLBACK) s)
      else case rt_lookup (p_daddr p) (a_rtable s) of
             None \<Rightarrow> Inr (emit (Dropped p DROP_RTR_MAC_CALLBACK) s)
           | Some rt \<Rightarrow>
               if p_num_forwards p > int (unat (rt_hops rt)) then local_rt_repair (p_daddr p) p now s
               else nb_delete (p_next_hop p)
                      (ifq_drop_all (p_next_hop p) (emit (Dropped p DROP_RTR_MAC_CALLBACK) s)))"

section \<open>Routing a data packet\<close>

definition rt_resolve :: "packet \<Rightarrow> real \<Rightarrow> aodv \<Rightarrow> aodv_error + aodv" where
  "rt_resolve p now s =
     (let p = p\<lparr>p_xmit_failure := True\<rparr>; d = p_daddr p in
      bind_err (ensure_rt d s) (\<lambda>s. with_rt d s (\<lambda>rt.
        if rt_flags rt = RTF_UP then
          bind_err (assert_that (\<not> no_route rt) s) (forward (Some d) p NO_DELAY now)
        else if p_saddr p = a_index s then
          bind_err (enque_buffer now p s) (sendRequest d now)
        else if rt_flags rt = RTF_IN_REPAIR then enque_buffer now p s
        else
          bind_err (assert_that (rt_flags rt = RTF_DOWN) s) (\<lambda>s.
            Inr (emit (Dropped p DROP_RTR_NO_ROUTE) (sendError [(d, rt_seqno rt)] False s))))))"

text \<open>The loop of \<open>rt_purge\<close>; \<open>delay\<close> goes on from one entry to the next.\<close>

definition forward_delayed :: "int \<Rightarrow> real \<Rightarrow> packet \<Rightarrow> real \<Rightarrow> aodv \<Rightarrow> aodv_error + real \<times> aodv" where
  "forward_delayed d now p delay s =
     bind_err (forward (Some d) p delay now s) (\<lambda>s. Inr (delay + ARP_DELAY, s))"

fun rt_purge_loop :: "real \<Rightarrow> int list \<Rightarrow> real \<Rightarrow> aodv \<Rightarrow> aodv_error + aodv" where
  "rt_purge_loop now [] delay s = Inr s"
| "rt_purge_loop now (d # ds) delay s =
     with_rt d s (\<lambda>rt.
       if rt_flags rt = RTF_UP \<and> rt_expire rt < now then
         bind_err (assert_that (\<not> no_route rt) s) (\<lambda>s.
         bind_err (drain now d drop_no_route () s) (\<lambda>(_, s).
         bind_err (assert_that (odd (rt_seqno rt + 1)) (set_rt d (\<lambda>rt. rt_down (rt\<lparr>rt_seqno := rt_seqno rt + 1\<rparr>)) s))
           (rt_purge_loop now ds delay)))
       else if rt_flags rt = RTF_UP then
         bind_err (assert_that (\<not> no_route rt) s) (\<lambda>s.
         bind_err (drain now d (forward_delayed d now) delay s) (\<lambda>(delay, s). rt_purge_loop now ds delay s))
       else if rq_find d (a_rqueue s) then
         bind_err (sendRequest d now s) (rt_purge_loop now ds delay)
       else rt_purge_loop now ds delay s)"

definition rt_purge :: "real \<Rightarrow> aodv \<Rightarrow> aodv_error + aodv" where
  "rt_purge now s = rt_purge_loop now (map rt_dst (a_rtable s)) 0 s"

section \<open>Packets received\<close>

definition reverse_fresher :: "rreq \<Rightarrow> rt_entry \<Rightarrow> bool" where
  "reverse_fresher rq rt \<longleftrightarrow> rq_src_seqno rq > rt_seqno rt \<or>
     rq_src_seqno rq = rt_seqno rt \<and> unat (rq_hop_count rq) < unat (rt_hops rt)"

definition forward_reverse :: "int \<Rightarrow> real \<Rightarrow> packet \<Rightarrow> unit \<Rightarrow> aodv \<Rightarrow> aodv_error + unit \<times> aodv" where
  "forward_reverse d now p x s = with_rt d s (\<lambda>rt.
     if rt_flags rt = RTF_UP then
       bind_err (bind_err (assert_that (\<not> no_route rt) s) (forward (Some d) p NO_DELAY now)) (\<lambda>s. Inr (x, s))
     else Inr (x, s))"

definition reverse_entry :: "rreq \<Rightarrow> int \<Rightarrow> real \<Rightarrow> rt_entry \<Rightarrow> rt_entry" where
  "reverse_entry rq from now rt =
     (let rt = rt_update (rq_src_seqno rq) (ucast (rq_hop_count rq)) from
                 (max (rt_expire rt) (now + REV_ROUTE_LIFE)) rt
      in if rt_req_timeout rt > 0 then
           rt\<lparr>rt_req_cnt := 0, rt_req_timeout := 0, rt_req_last_ttl := int (unat (rq_hop_count rq)),
              rt_expire := now + ACTIVE_ROUTE_TIMEOUT\<rparr>
         else rt)"

text \<open>The assertion after \<open>rt_update\<close> holds, as \<open>rt_update\<close> has set the flag.\<close>

definition reverse_route :: "rreq \<Rightarrow> int \<Rightarrow> real \<Rightarrow> aodv \<Rightarrow> aodv_error + aodv" where
  "reverse_route rq from now s =
     bind_err (ensure_rt (rq_src rq) s) (\<lambda>s.
       let s = set_rt (rq_src rq) (\<lambda>rt. rt\<lparr>rt_expire := max (rt_expire rt) (now + REV_ROUTE_LIFE)\<rparr>) s in
       with_rt (rq_src rq) s (\<lambda>rt0.
         if reverse_fresher rq rt0 then
           bind_err (drain now (rq_src rq) (forward_reverse (rq_src rq) now) ()
                       (set_rt (rq_src rq) (reverse_entry rq from now) s))
             (\<lambda>(_, s). Inr s)
         else Inr s))"

definition answer_request :: "rreq \<Rightarrow> packet \<Rightarrow> real \<Rightarrow> aodv \<Rightarrow> aodv_error + aodv" where
  "answer_request rq p now s =
     (if rq_dst rq = a_index s then
        (let n = max (a_seqno s) (rq_dst_seqno rq) + 1;
             n = (if odd n then n + 1 else n);
             s = s\<lparr>a_seqno := n\<rparr>
         in bind_err (sendReply (rq_src rq) 1 (a_index s) n MY_ROUTE_TIMEOUT (rq_timestamp rq) s)
              (\<lambda>s. Inr (emit (Freed p) s)))
      else
        (case rt_lookup (rq_dst rq) (a_rtable s) of
           Some rt \<Rightarrow>
             if \<not> no_route rt \<and> rt_seqno rt \<ge> rq_dst_seqno rq then
               bind_err (u32_of_real (rt_expire rt - now)) (\<lambda>life.
               bind_err (sendReply (rq_src rq) (unat (rt_hops rt) + 1) (rq_dst rq) (rt_seqno rt) life
                          (rq_timestamp rq) s) (\<lambda>s.
               with_rt (rq_src rq) s (\<lambda>rt0.
                 let s = set_rt (rq_dst rq) (pc_insert (rt_nexthop rt0)) s;
                     s = set_rt (rq_src rq) (pc_insert (rt_nexthop rt)) s
                 in Inr (emit (Freed p) s))))
             else
               forward None
                 (p\<lparr>p_saddr := a_index s, p_daddr := IP_BROADCAST,
                    p_body := RREQ (rq\<lparr>rq_hop_count := rq_hop_count rq + 1,
                                       rq_dst_seqno := max (rt_seqno rt) (rq_dst_seqno rq)\<rparr>)\<rparr>)
                 DELAY now s
         | None \<Rightarrow>
             forward None
               (p\<lparr>p_saddr := a_index s, p_daddr := IP_BROADCAST,
                  p_body := RREQ (rq\<lparr>rq_hop_count := rq_hop_count rq + 1\<rparr>)\<rparr>)
               DELAY now s))"

definition recvRequest :: "rreq \<Rightarrow> packet \<Rightarrow> real \<Rightarrow> aodv \<Rightarrow> aodv_error + aodv" where
  "recvRequest rq p now s =
     (if rq_src rq = a_index s \<or> id_lookup (rq_src rq) (rq_bcast_id rq) (a_bcast s) then Inr (emit (Freed p) s)
      else
        bind_err
          (reverse_route rq (p_saddr p) now
             (s\<lparr>a_bcast := id_insert now (rq_src rq) (rq_bcast_id rq) (a_bcast s)\<rparr>))
          (answer_request rq p now))"

definition reply_fresher :: "rrep \<Rightarrow> rt_entry \<Rightarrow> bool" where
  "reply_fresher rp rt \<longleftrightarrow> rt_seqno rt < rp_dst_seqno rp \<or>
     rt_seqno rt = rp_dst_seqno rp \<and> unat (rt_hops rt) > unat (rp_hop_count rp)"

definition reply_entry :: "rrep \<Rightarrow> real \<Rightarrow> rt_entry \<Rightarrow> rt_entry" where
  "reply_entry rp now rt =
     (rt_update (rp_dst_seqno rp) (ucast (rp_hop_count rp)) (rp_src rp) (now + rp_lifetime rp) rt)
       \<lparr>rt_req_cnt := 0, rt_req_timeout := 0, rt_req_last_ttl := int (unat (rp_hop_count rp))\<rparr>"

definition record_latency :: "rrep \<Rightarrow> real \<Rightarrow> rt_entry \<Rightarrow> rt_entry" where
  "record_latency rp now rt =
     rt\<lparr>rt_disc_latency := (rt_disc_latency rt)
          [rt_hist_indx rt := (now - rp_timestamp rp) / real (unat (rp_hop_count rp))],
        rt_hist_indx := (rt_hist_indx rt + 1) mod MAX_HISTORY\<rparr>"

definition forward_reply :: "int \<Rightarrow> real \<Rightarrow> packet \<Rightarrow> real \<Rightarrow> aodv \<Rightarrow> aodv_error + real \<times> aodv" where
  "forward_reply d now p delay s = with_rt d s (\<lambda>rt.
     if \<not> no_route rt then
       bind_err (assert_that (rt_flags rt = RTF_UP) s) (forward_delayed d now p delay)
     else Inr (delay, s))"

text \<open>
  The latency of a route discovery is divided by the hop count of the reply: a count of 0, which
  no agent sends, gives an infinite \<open>double\<close> in C and counts as an error here.
\<close>

definition recvReply :: "rrep \<Rightarrow> packet \<Rightarrow> real \<Rightarrow> aodv \<Rightarrow> aodv_error + aodv" where
  "recvReply rp p now s =
     (let d = rp_dst rp in
      bind_err (ensure_rt d s) (\<lambda>s. with_rt d s (\<lambda>rt.
        if reply_fresher rp rt then
          (let s = set_rt d (reply_entry rp now) s in
           bind_err
             (if p_daddr p = a_index s then
                (if rp_hop_count rp = 0 then Inl DivByZero else Inr (set_rt d (record_latency rp now) s))
              else Inr s) (\<lambda>s.
           bind_err (drain now d (forward_reply d now) 0 s) (\<lambda>(_, s).
             if p_daddr p = a_index s then Inr (emit (Freed p) s)
             else
               (case rt_lookup (p_daddr p) (a_rtable s) of
                  Some rt0 \<Rightarrow>
                    if \<not> no_route rt0 then
                      bind_err (assert_that (rt_flags rt0 = RTF_UP) s) (\<lambda>s.
                      bind_err
                        (forward (Some (p_daddr p))
                           (p\<lparr>p_body := RREP (rp\<lparr>rp_hop_count := rp_hop_count rp + 1, rp_src := a_index s\<rparr>)\<rparr>)
                           NO_DELAY now s) (\<lambda>s.
                      Inr (set_rt d (pc_insert (rt_nexthop rt0)) s)))
                    else Inr (emit (Dropped p DROP_RTR_NO_ROUTE) s)
                | None \<Rightarrow> Inr (emit (Dropped p DROP_RTR_NO_ROUTE) s)))))
        else Inr (emit (Freed p) s))))"

text \<open>The loop over the unreachable destinations of a route error.\<close>

fun recv_error_loop :: "int \<Rightarrow> rerr \<Rightarrow> rerr \<Rightarrow> aodv \<Rightarrow> aodv_error + rerr \<times> aodv" where
  "recv_error_loop from [] nre s = Inr (nre, s)"
| "recv_error_loop from ((d, n) # es) nre s =
     (case rt_lookup d (a_rtable s) of
        Some rt \<Rightarrow>
          if \<not> no_route rt \<and> rt_nexthop rt = from \<and> rt_seqno rt \<le> n then
            bind_err (assert_that (rt_flags rt = RTF_UP \<and> even (rt_seqno rt)) s) (\<lambda>s.
              let s = ifq_drop_all from (set_rt d (\<lambda>rt. rt_down (rt\<lparr>rt_seqno := n\<rparr>)) s) in
              if pc_empty rt then recv_error_loop from es nre s
              else
                bind_err (rerr_add d n nre) (\<lambda>nre.
                  recv_error_loop from es nre (set_rt d pc_delete_all s)))
          else recv_error_loop from es nre s
      | None \<Rightarrow> recv_error_loop from es nre s)"

definition recvError :: "rerr \<Rightarrow> packet \<Rightarrow> aodv \<Rightarrow> aodv_error + aodv" where
  "recvError es p s =
     bind_err (recv_error_loop (p_saddr p) es [] s) (\<lambda>(nre, s).
       Inr (emit (Freed p) (if length nre > 0 then sendError nre True s else s)))"

definition recvHello :: "rrep \<Rightarrow> packet \<Rightarrow> real \<Rightarrow> aodv \<Rightarrow> aodv_error + aodv" where
  "recvHello rp p now s =
     bind_err
       (case nb_lookup (rp_dst rp) (a_nb s) of
          None \<Rightarrow> nb_insert (rp_dst rp) now s
        | Some nb \<Rightarrow>
            Inr (s\<lparr>a_nb := nb_write (rp_dst rp)
                     (\<lambda>nb. nb\<lparr>nb_expire := now + 3 / 2 * ALLOWED_HELLO_LOSS * HELLO_INTERVAL\<rparr>) (a_nb s)\<rparr>))
       (\<lambda>s. Inr (emit (Freed p) s))"

definition recvAODV :: "packet \<Rightarrow> real \<Rightarrow> aodv \<Rightarrow> aodv_error + aodv" where
  "recvAODV p now s =
     bind_err (assert_that (p_sport p = RT_PORT \<and> p_dport p = RT_PORT) s) (\<lambda>s.
       case p_body p of
         RREQ rq \<Rightarrow> recvRequest rq p now s
       | RREP rp \<Rightarrow> recvReply rp p now s
       | RERR es \<Rightarrow> recvError es p s
       | HELLO rp \<Rightarrow> recvHello rp p now s
       | OtherType t \<Rightarrow> Inl ExitCalled
       | NoBody \<Rightarrow> Inl ExitCalled)"

definition aodv_recv :: "packet \<Rightarrow> real \<Rightarrow> aodv \<Rightarrow> aodv_error + aodv" where
  "aodv_recv p now s =
     (let route = (\<lambda>p. if p_daddr p \<noteq> IP_BROADCAST then rt_resolve p now s else forward None p NO_DELAY now s) in
      if p_ptype p = PT_AODV then recvAODV (p\<lparr>p_ttl := p_ttl p - 1\<rparr>) now s
      else if p_saddr p = a_index s \<and> p_num_forwards p = 0 then
        (let p = (if p_ptype p \<noteq> PT_TCP \<and> p_ptype p \<noteq> PT_ACK then p\<lparr>p_size := p_size p + IP_HDR_LEN\<rparr> else p);
             p = (if p_daddr p \<noteq> IP_BROADCAST then p\<lparr>p_ttl := NETWORK_DIAMETER\<rparr> else p)
         in route p)
      else if p_saddr p = a_index s then Inr (emit (Dropped p DROP_RTR_ROUTE_LOOP) s)
      else
        (let p = p\<lparr>p_ttl := p_ttl p - 1\<rparr> in
         if p_ttl p = 0 then Inr (emit (Dropped p DROP_RTR_TTL) s) else route p))"

section \<open>Timers\<close>

definition btimer_handle :: "real \<Rightarrow> aodv \<Rightarrow> aodv_error + aodv" where
  "btimer_handle now s = Inr (emit (TimerSet BroadcastTimer BCAST_ID_SAVE) (s\<lparr>a_bcast := id_purge now (a_bcast s)\<rparr>))"

definition htimer_handle :: "aodv \<Rightarrow> aodv_error + aodv" where
  "htimer_handle s = (case unif (sendHello s) of (u, s) \<Rightarrow>
     let interval = MinHelloInterval + (MaxHelloInterval - MinHelloInterval) * u in
     assert_that (interval \<ge> 0) (emit (TimerSet HelloTimer interval) s))"

definition ntimer_handle :: "real \<Rightarrow> aodv \<Rightarrow> aodv_error + aodv" where
  "ntimer_handle now s = bind_err (nb_purge now s) (\<lambda>s. Inr (emit (TimerSet NeighborTimer HELLO_INTERVAL) s))"

definition rtimer_handle :: "real \<Rightarrow> aodv \<Rightarrow> aodv_error + aodv" where
  "rtimer_handle now s = bind_err (rt_purge now s) (\<lambda>s. Inr (emit (TimerSet RouteCacheTimer FREQUENCY) s))"

definition lrtimer_handle :: "packet \<Rightarrow> aodv \<Rightarrow> aodv_error + aodv" where
  "lrtimer_handle p s =
     (let s = (case rt_lookup (p_daddr p) (a_rtable s) of
                 Some rt \<Rightarrow> if rt_flags rt \<noteq> RTF_UP then set_rt (p_daddr p) rt_down s else s
               | None \<Rightarrow> s)
      in Inr (emit (Freed p) s))"

text \<open>The command \<open>start\<close>, as compiled with link layer detection.\<close>

definition aodv_start :: "real \<Rightarrow> aodv \<Rightarrow> aodv_error + aodv" where
  "aodv_start now s = bind_err (btimer_handle now s) (rtimer_handle now)"

text \<open>The calls the rest of the simulator makes.\<close>

datatype aodv_call =
    Recv packet | LinkFailed packet | BroadcastTick | HelloTick | NeighborTick | RouteTick | RepairTick packet

fun aodv_step :: "aodv_call \<Rightarrow> real \<Rightarrow> aodv \<Rightarrow> aodv_error + aodv" where
  "aodv_step (Recv p) now s = aodv_recv p now s"
| "aodv_step (LinkFailed p) now s = rt_ll_failed p now s"
| "aodv_step BroadcastTick now s = btimer_handle now s"
| "aodv_step HelloTick now s = htimer_handle s"
| "aodv_step NeighborTick now s = ntimer_handle now s"
| "aodv_step RouteTick now s = rtimer_handle now s"
| "aodv_step (RepairTick p) now s = lrtimer_handle p s"

end
