(* ===== verification/AodvRoutes.thy ===== *)
theory AodvRoutes
  imports AodvAgent
begin

text \<open>
  What the handlers do to routes.  Routes to a destination are ordered by freshness, and for
  equal sequence numbers by length; learning a route only ever improves it, and no handler at
  all lowers a sequence number.
\<close>

definition fresher :: "rt_entry \<Rightarrow> rt_entry \<Rightarrow> bool" where
  "fresher r r' \<longleftrightarrow> rt_seqno r \<le> rt_seqno r'"

definition better :: "rt_entry \<Rightarrow> rt_entry \<Rightarrow> bool" where
  "better r r' \<longleftrightarrow> rt_seqno r < rt_seqno r' \<or> rt_seqno r = rt_seqno r' \<and> rt_hops r' \<le> rt_hops r"

definition routes :: "(rt_entry \<Rightarrow> rt_entry \<Rightarrow> bool) \<Rightarrow> aodv \<Rightarrow> aodv \<Rightarrow> bool" where
  "routes R s s' \<longleftrightarrow> (\<forall>d r. rt_lookup d (a_rtable s) = Some r \<longrightarrow>
     (\<exists>r'. rt_lookup d (a_rtable s') = Some r' \<and> R r r'))"

lemma better_refl [simp]: "better r r"
  by (simp add: better_def)

lemma better_trans: "better r s \<Longrightarrow> better s t \<Longrightarrow> better r t"
  unfolding better_def by (elim disjE conjE) auto

lemma better_fresher: "better r r' \<Longrightarrow> fresher r r'"
  by (auto simp: better_def fresher_def)

lemma better_same: "rt_seqno r' = rt_seqno r \<Longrightarrow> rt_hops r' = rt_hops r \<Longrightarrow> better r r'"
  by (simp add: better_def)

lemma routes_same: "a_rtable s' = a_rtable s \<Longrightarrow> routes better s s'"
  by (simp add: routes_def)

lemma routes_better_trans: "routes better s t \<Longrightarrow> routes better t u \<Longrightarrow> routes better s u"
  unfolding routes_def by (meson better_trans)

lemma routes_fresher_trans: "routes fresher s t \<Longrightarrow> routes fresher t u \<Longrightarrow> routes fresher s u"
  unfolding routes_def fresher_def by (meson order_trans)

lemma routes_fresher: "routes better s t \<Longrightarrow> routes fresher s t"
  unfolding routes_def by (meson better_fresher)

lemma routes_set:
  assumes "\<And>r. rt_dst (f r) = rt_dst r" "\<And>r. rt_lookup d (a_rtable s) = Some r \<Longrightarrow> R r (f r)" "\<And>r. R r r"
  shows "routes R s (set_rt d f s)"
  using assms by (auto simp: routes_def set_rt_def)

lemma out_fields [simp]:
  "a_rtable (emit x s) = a_rtable s" "a_rtable (snd (unif s)) = a_rtable s" "a_rtable (ifq_drop_all a s) = a_rtable s"
  "a_rqueue (emit x s) = a_rqueue s" "a_rqueue (snd (unif s)) = a_rqueue s" "a_rqueue (ifq_drop_all a s) = a_rqueue s"
  "a_seqno (emit x s) = a_seqno s" "a_seqno (snd (unif s)) = a_seqno s" "a_seqno (ifq_drop_all a s) = a_seqno s"
  "a_rtable (sendError es j s) = a_rtable s" "a_rqueue (sendError es j s) = a_rqueue s" "a_seqno (sendError es j s) = a_seqno s"
proof -
  have d: "a_rtable (ifq_drop_all a s) = a_rtable s \<and> a_rqueue (ifq_drop_all a s) = a_rqueue s \<and>
      a_seqno (ifq_drop_all a s) = a_seqno s"
    by (induction a s rule: ifq_drop_all.induct)
      (subst (1 2 3) ifq_drop_all.simps, auto simp: emit_def split: prod.splits option.splits)
  then show "a_rtable (ifq_drop_all a s) = a_rtable s" "a_rqueue (ifq_drop_all a s) = a_rqueue s"
    "a_seqno (ifq_drop_all a s) = a_seqno s" by simp_all
  show "a_rtable (emit x s) = a_rtable s" "a_rtable (snd (unif s)) = a_rtable s"
    "a_rqueue (emit x s) = a_rqueue s" "a_rqueue (snd (unif s)) = a_rqueue s"
    "a_seqno (emit x s) = a_seqno s" "a_seqno (snd (unif s)) = a_seqno s"
    "a_rtable (sendError es j s) = a_rtable s" "a_rqueue (sendError es j s) = a_rqueue s"
    "a_seqno (sendError es j s) = a_seqno s"
    by (simp_all add: emit_def unif_def sendError_def Let_def)
qed

lemma routes_out [simp]:
  "routes R s (emit x t) = routes R s t" "routes R (emit x s) t = routes R s t"
  "routes R s (ifq_drop_all a t) = routes R s t" "routes R (ifq_drop_all a s) t = routes R s t"
  "routes R s (sendError es j t) = routes R s t" "routes better s s" "routes fresher s s"
  by (simp_all add: routes_def fresher_def)

lemma set_rt_fields [simp]: "a_rqueue (set_rt d f s) = a_rqueue s" "a_seqno (set_rt d f s) = a_seqno s"
  "a_index (set_rt d f s) = a_index s" "a_rtable (set_rt d f s) = rt_write d f (a_rtable s)"
  by (simp_all add: set_rt_def)

text \<open>Only the bits of the definitions that matter for routes, one operation after the other.\<close>

lemma with_rt_Inr: "with_rt d s f = Inr y \<longleftrightarrow> (\<exists>rt. rt_lookup d (a_rtable s) = Some rt \<and> f rt = Inr y)"
  by (auto simp: with_rt_def split: option.splits)

lemma forward_routes: "forward r p delay now s = Inr s' \<Longrightarrow> routes better s s'"
proof -
  assume a: "forward r p delay now s = Inr s'"
  have e: "routes better s (set_rt d (\<lambda>rt. rt\<lparr>rt_expire := t\<rparr>) s)" for d t
    by (rule routes_set) (simp_all add: better_same)
  have "a_rtable s' = a_rtable s \<or> (\<exists>d t. a_rtable s' = a_rtable (set_rt d (\<lambda>rt. rt\<lparr>rt_expire := t\<rparr>) s))"
    using a by (auto simp: forward_def with_rt_Inr unif_def split: if_splits option.splits) (auto simp: emit_def)
  then show ?thesis using e by (auto simp: routes_def)
qed

lemma drain_loop_routes:
  assumes "\<And>p x s x' s'. body p x s = Inr (x', s') \<Longrightarrow> routes better s s'"
  shows "drain_loop n now d body x s = Inr (x', s') \<Longrightarrow> routes better s s'"
proof (induction n arbitrary: x s)
  case (Suc n)
  then obtain r q where q: "rq_deque_dst now d (a_rqueue s) = Inr (r, q)" by auto
  let ?s = "s\<lparr>a_rqueue := q\<rparr>"
  have s: "routes better s ?s" by (rule routes_same) simp
  show ?case
  proof (cases r)
    case None
    with Suc.prems q s show ?thesis by (auto simp: Let_def)
  next
    case (Some p)
    with Suc.prems q obtain y t where b: "body p x ?s = Inr (y, t)" "drain_loop n now d body y t = Inr (x', s')"
      by (auto simp: Let_def)
    from routes_better_trans [OF s assms [OF b(1)]] Suc.IH [OF b(2)] show ?thesis by (rule routes_better_trans)
  qed
qed simp

lemma drain_routes:
  assumes "\<And>p x s x' s'. body p x s = Inr (x', s') \<Longrightarrow> routes better s s'"
  shows "drain now d body x s = Inr (x', s') \<Longrightarrow> routes better s s'"
  unfolding drain_def by (rule drain_loop_routes [OF assms])

lemma drop_no_route_routes: "drop_no_route p x s = Inr (x', s') \<Longrightarrow> routes better s s'"
  by (auto simp: drop_no_route_def intro: routes_same)

lemma enque_table: "enque_buffer now p s = Inr s' \<Longrightarrow> a_rtable s' = a_rtable s \<and> a_seqno s' = a_seqno s"
proof -
  have "a_rtable (fold (\<lambda>(p, why). emit (Dropped p why)) ds s) = a_rtable s \<and>
      a_seqno (fold (\<lambda>(p, why). emit (Dropped p why)) ds s) = a_seqno s" for ds s
    by (induction ds arbitrary: s) auto
  then show "enque_buffer now p s = Inr s' \<Longrightarrow> a_rtable s' = a_rtable s \<and> a_seqno s' = a_seqno s"
    by (auto simp: enque_buffer_def)
qed

lemma request_ttl_route: "request_ttl rt = (ttl, rt') \<Longrightarrow>
    rt_seqno rt' = rt_seqno rt \<and> rt_hops rt' = rt_hops rt \<and> rt_dst rt' = rt_dst rt \<and> rt_flags rt' = rt_flags rt \<and>
    rt_req_timeout rt' = rt_req_timeout rt"
  by (auto simp: request_ttl_def Let_def split: if_splits)

lemma request_timeout_route [simp]:
  "rt_seqno (request_timeout now ttl rt) = rt_seqno rt" "rt_hops (request_timeout now ttl rt) = rt_hops rt"
  "rt_dst (request_timeout now ttl rt) = rt_dst rt" "rt_flags (request_timeout now ttl rt) = rt_flags rt"
  by (simp_all add: request_timeout_def Let_def)

lemma rt_write_const:
  "rt_lookup d ts = Some rt \<Longrightarrow> rt_dst r' = d \<Longrightarrow>
   rt_lookup b (rt_write d (\<lambda>_. r') ts) = (if b = d then Some r' else rt_lookup b ts)"
  by (induction ts) (auto split: if_splits)

lemma sendRequest_routes:
  assumes "sendRequest d now s = Inr s'"
  shows "routes better s s'"
proof -
  from assms obtain rt where rt: "rt_lookup d (a_rtable s) = Some rt"
    by (auto simp: sendRequest_def split: option.splits)
  consider "s' = s"
    | x where "drain now (rt_dst rt) drop_no_route x
        (set_rt d (\<lambda>rt. rt\<lparr>rt_req_timeout := now + MAX_RREQ_TIMEOUT, rt_req_cnt := 0\<rparr>) s) = Inr ((), s')"
    | r' where "rt_seqno r' = rt_seqno rt" "rt_hops r' = rt_hops rt" "rt_dst r' = d"
        "a_rtable s' = rt_write d (\<lambda>_. r') (a_rtable s)"
    using assms rt rt_lookup_dst [OF rt]
    by (auto simp: sendRequest_def Let_def split: if_splits prod.splits dest!: request_ttl_route)
       (metis request_timeout_route(1,2,3))
  then show ?thesis
  proof cases
    case 1
    then show ?thesis by (simp add: routes_same)
  next
    case (2 x)
    have "routes better s (set_rt d (\<lambda>rt. rt\<lparr>rt_req_timeout := now + MAX_RREQ_TIMEOUT, rt_req_cnt := 0\<rparr>) s)"
      by (rule routes_set) (simp_all add: better_same)
    also have "routes better (set_rt d (\<lambda>rt. rt\<lparr>rt_req_timeout := now + MAX_RREQ_TIMEOUT, rt_req_cnt := 0\<rparr>) s) s'"
      by (rule drain_routes [OF _ 2]) (rule drop_no_route_routes)
    finally (routes_better_trans) show ?thesis .
  next
    case (3 r')
    then show ?thesis using rt rt_write_const [OF rt 3(3)] by (auto simp: routes_def better_same)
  qed
qed

lemma ensure_routes:
  assumes "ensure_rt d s = Inr s'"
  shows "routes better s s'" "\<exists>rt. rt_lookup d (a_rtable s') = Some rt"
proof -
  consider rt where "s' = s" "rt_lookup d (a_rtable s) = Some rt"
    | "rt_lookup d (a_rtable s) = None" "a_rtable s' = aodv_rt_entry\<lparr>rt_dst := d\<rparr> # a_rtable s"
    using assms by (auto simp: ensure_rt_def rt_add_Inr split: option.splits)
  then have "routes better s s' \<and> (\<exists>rt. rt_lookup d (a_rtable s') = Some rt)"
    by cases (auto simp: routes_def)
  then show "routes better s s'" "\<exists>rt. rt_lookup d (a_rtable s') = Some rt" by auto
qed

section \<open>Learning routes\<close>

lemma sendReply_table: "sendReply a h d n l t s = Inr s' \<Longrightarrow> a_rtable s' = a_rtable s"
  by (auto simp: sendReply_def split: option.splits)

lemma pc_insert_route [simp]: "rt_dst (pc_insert a rt) = rt_dst rt" "rt_seqno (pc_insert a rt) = rt_seqno rt"
  "rt_hops (pc_insert a rt) = rt_hops rt" "rt_flags (pc_insert a rt) = rt_flags rt" "rt_expire (pc_insert a rt) = rt_expire rt"
  by (simp_all add: pc_insert_def)

lemma pc_routes: "routes better s (set_rt d (pc_insert a) s)"
  by (rule routes_set) (simp_all add: better_same)

lemma forward_reverse_routes: "forward_reverse d now p x s = Inr (x', s') \<Longrightarrow> routes better s s'"
  by (auto simp: forward_reverse_def with_rt_Inr intro: routes_same forward_routes split: if_splits)

lemma hops_le: "unat (h :: 8 word) < unat (k :: 16 word) \<Longrightarrow> ucast h \<le> k"
proof -
  have "take_bit 16 (unat h) = unat h" using unsigned_less [of h, where ?'a = nat] by (simp add: take_bit_nat_eq_self_iff)
  then show "unat h < unat k \<Longrightarrow> ucast h \<le> k" by (simp add: word_le_nat_alt unsigned_ucast_eq)
qed

lemma reverse_entry_better:
  assumes "reverse_fresher rq rt"
  shows "better rt (reverse_entry rq from now rt)" "rt_dst (reverse_entry rq from now rt) = rt_dst rt"
proof -
  show "better rt (reverse_entry rq from now rt)"
    using assms by (auto simp: reverse_entry_def rt_update_def Let_def reverse_fresher_def better_def hops_le)
  show "rt_dst (reverse_entry rq from now rt) = rt_dst rt"
    by (simp add: reverse_entry_def rt_update_def Let_def)
qed

lemma reverse_route_routes:
  assumes "reverse_route rq from now s = Inr s'"
  shows "routes better s s'"
proof -
  from assms obtain s1 rt0 where e: "ensure_rt (rq_src rq) s = Inr s1"
    and rt0: "rt_lookup (rq_src rq) (a_rtable (set_rt (rq_src rq)
        (\<lambda>rt. rt\<lparr>rt_expire := max (rt_expire rt) (now + REV_ROUTE_LIFE)\<rparr>) s1)) = Some rt0"
    and r: "(if reverse_fresher rq rt0 then
          bind_err (drain now (rq_src rq) (forward_reverse (rq_src rq) now) ()
             (set_rt (rq_src rq) (reverse_entry rq from now)
               (set_rt (rq_src rq) (\<lambda>rt. rt\<lparr>rt_expire := max (rt_expire rt) (now + REV_ROUTE_LIFE)\<rparr>) s1)))
            (\<lambda>(_, s). Inr s)
        else Inr (set_rt (rq_src rq) (\<lambda>rt. rt\<lparr>rt_expire := max (rt_expire rt) (now + REV_ROUTE_LIFE)\<rparr>) s1)) = Inr s'"
    unfolding reverse_route_def Let_def bind_err_Inr with_rt_Inr by blast
  let ?s2 = "set_rt (rq_src rq) (\<lambda>rt. rt\<lparr>rt_expire := max (rt_expire rt) (now + REV_ROUTE_LIFE)\<rparr>) s1"
  have "routes better s1 ?s2" by (rule routes_set) (simp_all add: better_same)
  with ensure_routes(1) [OF e] have s2: "routes better s ?s2" by (rule routes_better_trans)
  show ?thesis
  proof (cases "reverse_fresher rq rt0")
    case False
    with r s2 show ?thesis by simp
  next
    case True
    let ?s3 = "set_rt (rq_src rq) (reverse_entry rq from now) ?s2"
    have "routes better ?s2 ?s3"
    proof (rule routes_set)
      show "rt_dst (reverse_entry rq from now r) = rt_dst r" for r
        by (simp add: reverse_entry_def rt_update_def Let_def)
      show "better r (reverse_entry rq from now r)" if "rt_lookup (rq_src rq) (a_rtable ?s2) = Some r" for r
        using reverse_entry_better(1) [OF True, of "from" now] that rt0 by (metis option.inject)
    qed simp
    note s3 = routes_better_trans [OF s2 this]
    from r True obtain x where "drain now (rq_src rq) (forward_reverse (rq_src rq) now) () ?s3 = Inr (x, s')" by auto
    then have "routes better ?s3 s'" by (rule drain_routes [rotated]) (rule forward_reverse_routes)
    with s3 show ?thesis by (rule routes_better_trans)
  qed
qed

lemma answer_request_routes:
  assumes "answer_request rq p now s = Inr s'"
  shows "routes better s s'"
proof -
  consider (sent) "a_rtable s' = a_rtable s"
    | (pcs) a b where "a_rtable s' = a_rtable (set_rt (rq_src rq) (pc_insert a) (set_rt (rq_dst rq) (pc_insert b) s))"
    | (fwd) p' where "forward None p' DELAY now s = Inr s'"
    using assms
    by (auto simp: answer_request_def Let_def with_rt_Inr split: if_splits option.splits dest!: sendReply_table)
  then show ?thesis
  proof cases
    case sent
    then show ?thesis by (simp add: routes_same)
  next
    case (pcs a b)
    from routes_better_trans [OF pc_routes [of s "rq_dst rq" b] pc_routes [of _ "rq_src rq" a]] pcs
    show ?thesis by (simp add: routes_def)
  next
    case (fwd p')
    then show ?thesis by (rule forward_routes)
  qed
qed

lemma recvRequest_routes:
  assumes "recvRequest rq p now s = Inr s'"
  shows "routes better s s'"
proof (cases "rq_src rq = a_index s \<or> id_lookup (rq_src rq) (rq_bcast_id rq) (a_bcast s)")
  case True
  with assms show ?thesis by (auto simp: recvRequest_def intro: routes_same)
next
  case False
  let ?s = "s\<lparr>a_bcast := id_insert now (rq_src rq) (rq_bcast_id rq) (a_bcast s)\<rparr>"
  from False assms obtain t where t: "reverse_route rq (p_saddr p) now ?s = Inr t" "answer_request rq p now t = Inr s'"
    by (auto simp: recvRequest_def)
  have "routes better s ?s" by (simp add: routes_same)
  also note reverse_route_routes [OF t(1)]
  finally (routes_better_trans) show ?thesis
    using answer_request_routes [OF t(2)] by (rule routes_better_trans)
qed

lemma reply_entry_better:
  assumes "reply_fresher rp rt"
  shows "better rt (reply_entry rp now rt)"
  using assms by (auto simp: reply_entry_def rt_update_def reply_fresher_def better_def hops_le)

lemma forward_delayed_routes: "forward_delayed d now p x s = Inr (x', s') \<Longrightarrow> routes better s s'"
  by (auto simp: forward_delayed_def dest: forward_routes)

lemma forward_reply_routes: "forward_reply d now p x s = Inr (x', s') \<Longrightarrow> routes better s s'"
  by (auto simp: forward_reply_def with_rt_Inr dest: forward_delayed_routes intro: routes_same split: if_splits)

lemma recvReply_routes:
  assumes "recvReply rp p now s = Inr s'"
  shows "routes better s s'"
proof -
  let ?d = "rp_dst rp"
  from assms obtain s1 rt where e: "ensure_rt ?d s = Inr s1" and rt: "rt_lookup ?d (a_rtable s1) = Some rt"
    unfolding recvReply_def Let_def bind_err_Inr with_rt_Inr by blast
  note s1 = ensure_routes(1) [OF e]
  show ?thesis
  proof (cases "reply_fresher rp rt")
    case False
    with assms e rt s1 show ?thesis
      by (auto simp: recvReply_def Let_def with_rt_def routes_def)
  next
    case True
    let ?s2 = "set_rt ?d (reply_entry rp now) s1"
    have "routes better s1 ?s2"
      using rt reply_entry_better [OF True] by (intro routes_set) (simp_all add: reply_entry_def rt_update_def)
    note s2 = routes_better_trans [OF s1 this]
    from assms e rt True obtain s3 x t where
      s3: "s3 = ?s2 \<or> s3 = set_rt ?d (record_latency rp now) ?s2"
      and d: "drain now ?d (forward_reply ?d now) 0 s3 = Inr (x, t)"
      and f: "a_rtable s' = a_rtable t \<or> (\<exists>r q u a. forward r q NO_DELAY now t = Inr u \<and> s' = set_rt ?d (pc_insert a) u)"
      by (auto simp: recvReply_def Let_def with_rt_def split: if_splits option.splits) blast+
    have "routes better ?s2 (set_rt ?d (record_latency rp now) ?s2)"
      by (rule routes_set) (simp_all add: record_latency_def better_same)
    with s2 s3 have "routes better s s3" by (auto intro: routes_better_trans)
    also have "routes better s3 t" by (rule drain_routes [OF _ d]) (rule forward_reply_routes)
    finally (routes_better_trans) have st: "routes better s t" .
    from f show ?thesis
    proof
      assume "a_rtable s' = a_rtable t"
      with st show ?thesis by (simp add: routes_def)
    next
      assume "\<exists>r q u a. forward r q NO_DELAY now t = Inr u \<and> s' = set_rt ?d (pc_insert a) u"
      then obtain r q u a where u: "forward r q NO_DELAY now t = Inr u" "s' = set_rt ?d (pc_insert a) u" by blast
      from routes_better_trans [OF routes_better_trans [OF st forward_routes [OF u(1)]] pc_routes] u(2)
      show ?thesis by simp
    qed
  qed
qed

section \<open>Sequence numbers never go back\<close>

lemma even_inc: "even w \<Longrightarrow> w \<le> w + 1" for w :: "32 word"
  by (metis add_minus_cancel even_plus_one_iff inc_less_eq_self_imp_top max_word_max nle_le odd_add)

lemma rt_down_route [simp]: "rt_dst (rt_down rt) = rt_dst rt" "rt_seqno (rt_down rt) = rt_seqno rt"
  by (simp_all add: rt_down_def)

lemma pc_delete_route [simp]:
  "rt_dst (pc_delete a rt) = rt_dst rt" "rt_seqno (pc_delete a rt) = rt_seqno rt"
  "rt_dst (pc_delete_all rt) = rt_dst rt" "rt_seqno (pc_delete_all rt) = rt_seqno rt"
  by (simp_all add: pc_delete_def pc_delete_all_def)

lemma link_failure_fresher:
  assumes "link_failure_loop a rts es = Inr (rts', es')" "rt_lookup d rts = Some r"
  shows "\<exists>r'. rt_lookup d rts' = Some r' \<and> fresher r r'"
  using assms
proof (induction rts arbitrary: es rts' es')
  case (Cons rt rts)
  then obtain rt1 es1 rts1 es2 where
    h: "(if \<not> no_route rt \<and> rt_nexthop rt = a then
          bind_err (assert_that (rt_flags rt = RTF_UP \<and> even (rt_seqno rt)) (rt\<lparr>rt_seqno := rt_seqno rt + 1\<rparr>)) (\<lambda>rt.
            bind_err (rerr_add (rt_dst rt) (rt_seqno rt) es) (\<lambda>es. Inr (rt_down rt, es)))
        else Inr (rt, es)) = Inr (rt1, es1)"
    and t: "link_failure_loop a rts es1 = Inr (rts1, es2)" and rts': "rts' = pc_delete a rt1 # rts1"
    by (auto split: prod.splits)
  have rt1: "rt_dst rt1 = rt_dst rt" "fresher rt rt1"
    using h by (auto simp: fresher_def even_inc split: if_splits)
  show ?case
  proof (cases "rt_dst rt = d")
    case True
    with Cons.prems(2) rt1 rts' show ?thesis by (auto simp: fresher_def)
  next
    case False
    with Cons.prems(2) Cons.IH [OF t] rt1 rts' show ?thesis by auto
  qed
qed simp

lemma handle_link_failure_routes: "handle_link_failure a s = Inr s' \<Longrightarrow> routes fresher s s'"
  by (auto simp: handle_link_failure_def routes_def Let_def split: if_splits dest: link_failure_fresher)

lemma routes_table: "a_rtable t = a_rtable s \<Longrightarrow> routes R t u = routes R s u" "a_rtable t = a_rtable s \<Longrightarrow> routes R u t = routes R u s"
  by (simp_all add: routes_def)

lemma nb_delete_routes: "nb_delete a s = Inr s' \<Longrightarrow> routes fresher s s'"
  by (auto simp: nb_delete_def dest!: handle_link_failure_routes simp: routes_def)

lemma nb_purge_loop_routes: "nb_purge_loop now nbs s = Inr s' \<Longrightarrow> routes fresher s s'"
proof (induction nbs arbitrary: s)
  case Nil
  then show ?case by (simp add: routes_fresher routes_same)
next
  case (Cons nb nbs)
  then obtain t where t: "(if nb_expire nb \<le> now then nb_delete (nb_addr nb) s else Inr s) = Inr t"
    "nb_purge_loop now nbs t = Inr s'" by auto
  then have "routes fresher s t" by (auto intro: nb_delete_routes routes_fresher routes_same split: if_splits)
  from routes_fresher_trans [OF this Cons.IH [OF t(2)]] show ?case .
qed

lemma local_rt_repair_routes:
  assumes "local_rt_repair d p now s = Inr s'"
  shows "routes better s s'"
proof -
  from assms obtain t u where t: "enque_buffer now p s = Inr t"
    and u: "sendRequest d now (set_rt d (\<lambda>rt. rt\<lparr>rt_flags := RTF_IN_REPAIR\<rparr>) t) = Inr u" and s': "a_rtable s' = a_rtable u"
    by (auto simp: local_rt_repair_def Let_def with_rt_Inr split: if_splits)
  have "routes better s t" using enque_table [OF t] by (simp add: routes_same)
  also have "routes better t (set_rt d (\<lambda>rt. rt\<lparr>rt_flags := RTF_IN_REPAIR\<rparr>) t)"
    by (rule routes_set) (simp_all add: better_same)
  finally (routes_better_trans) have "routes better s (set_rt d (\<lambda>rt. rt\<lparr>rt_flags := RTF_IN_REPAIR\<rparr>) t)" .
  from routes_better_trans [OF this sendRequest_routes [OF u]] s' show ?thesis by (simp add: routes_def)
qed

lemma rt_ll_failed_routes: "rt_ll_failed p now s = Inr s' \<Longrightarrow> routes fresher s s'"
  by (auto simp: rt_ll_failed_def intro: routes_fresher routes_same local_rt_repair_routes split: if_splits option.splits
      dest!: nb_delete_routes)

lemma rt_resolve_routes:
  assumes "rt_resolve p now s = Inr s'"
  shows "routes better s s'"
proof -
  let ?p = "p\<lparr>p_xmit_failure := True\<rparr>"
  from assms obtain t where t: "ensure_rt (p_daddr p) s = Inr t"
    and c: "a_rtable s' = a_rtable t \<or> (\<exists>r x. forward r ?p x now t = Inr s') \<or>
      (\<exists>u. enque_buffer now ?p t = Inr u \<and> (s' = u \<or> sendRequest (p_daddr p) now u = Inr s'))"
    by (auto simp: rt_resolve_def Let_def with_rt_Inr split: if_splits)
  note st = ensure_routes(1) [OF t]
  from c have "routes better t s'"
  proof (elim disjE exE conjE)
    fix u assume "enque_buffer now ?p t = Inr u" "sendRequest (p_daddr p) now u = Inr s'"
    then show ?thesis using enque_table sendRequest_routes by (metis routes_table(1))
  qed (auto simp: routes_same forward_routes dest: enque_table)
  with st show ?thesis by (rule routes_better_trans)
qed

lemma rt_purge_loop_routes: "rt_purge_loop now ds delay s = Inr s' \<Longrightarrow> routes fresher s s'"
proof (induction now ds delay s rule: rt_purge_loop.induct)
  case (1 now delay s)
  then show ?case by (simp add: routes_fresher routes_same)
next
  case (2 now d ds delay s)
  from "2.prems" obtain rt where rt: "rt_lookup d (a_rtable s) = Some rt" by (auto simp: with_rt_Inr)
  consider (expired) x t where "rt_flags rt = RTF_UP" "rt_expire rt < now" "\<not> no_route rt"
      "drain now d drop_no_route () s = Inr (x, t)" "odd (rt_seqno rt + 1)"
      "rt_purge_loop now ds delay (set_rt d (\<lambda>rt. rt_down (rt\<lparr>rt_seqno := rt_seqno rt + 1\<rparr>)) t) = Inr s'"
    | (valid) delay' t where "rt_flags rt = RTF_UP" "\<not> rt_expire rt < now" "\<not> no_route rt"
      "drain now d (forward_delayed d now) delay s = Inr (delay', t)" "rt_purge_loop now ds delay' t = Inr s'"
    | (ask) t where "rt_flags rt \<noteq> RTF_UP" "rq_find d (a_rqueue s)" "sendRequest d now s = Inr t"
      "rt_purge_loop now ds delay t = Inr s'"
    | (none) "rt_flags rt \<noteq> RTF_UP" "\<not> rq_find d (a_rqueue s)" "rt_purge_loop now ds delay s = Inr s'"
    using "2.prems" rt by (auto simp: with_rt_Inr split: if_splits)
  then show ?case
  proof cases
    case expired
    have "drop_no_route p x s = Inr (x', s') \<Longrightarrow> a_rtable s' = a_rtable s" for p x s x' s'
      by (auto simp: drop_no_route_def)
    then have tab: "drain_loop n now d drop_no_route x s = Inr (x', s') \<Longrightarrow> a_rtable s' = a_rtable s" for n x s x' s'
    proof (induction n arbitrary: x s)
      case (Suc n)
      then show ?case by (auto simp: Let_def split: option.splits)
    qed simp
    have t: "a_rtable t = a_rtable s" using expired(4) unfolding drain_def by (rule tab)
    have "fresher r (rt_down (r\<lparr>rt_seqno := rt_seqno r + 1\<rparr>))" if "rt_lookup d (a_rtable t) = Some r" for r
      using that rt t expired(5) by (simp add: fresher_def even_inc)
    then have "routes fresher t (set_rt d (\<lambda>rt. rt_down (rt\<lparr>rt_seqno := rt_seqno rt + 1\<rparr>)) t)"
      by (intro routes_set) (simp_all add: fresher_def)
    then have "routes fresher s (set_rt d (\<lambda>rt. rt_down (rt\<lparr>rt_seqno := rt_seqno rt + 1\<rparr>)) t)"
      using t by (simp add: routes_def)
    from routes_fresher_trans [OF this "2.IH"(1) [OF _ expired(6)]] rt expired show ?thesis by simp
  next
    case valid
    have "routes better s t" by (rule drain_routes [OF _ valid(4)]) (rule forward_delayed_routes)
    from routes_fresher_trans [OF routes_fresher [OF this] "2.IH"(2) [OF _ _ valid(5)]] valid rt show ?thesis by simp
  next
    case ask
    from routes_fresher_trans [OF routes_fresher [OF sendRequest_routes [OF ask(3)]] "2.IH"(3) [OF _ _ _ ask(4)]] ask rt
    show ?thesis by simp
  next
    case none
    with "2.IH"(4) "2.prems" rt show ?thesis by auto
  qed
qed

lemma recv_error_loop_routes: "recv_error_loop from es nre s = Inr (nre', s') \<Longrightarrow> routes fresher s s'"
proof (induction "from" es nre s rule: recv_error_loop.induct)
  case (1 "from" nre s)
  then show ?case by (simp add: routes_fresher routes_same)
next
  case (2 "from" d n es nre s)
  show ?case
  proof (cases "\<exists>rt. rt_lookup d (a_rtable s) = Some rt \<and> \<not> no_route rt \<and> rt_nexthop rt = from \<and> rt_seqno rt \<le> n")
    case False
    with 2 show ?thesis by (auto split: option.splits if_splits)
  next
    case True
    then obtain rt where rt: "rt_lookup d (a_rtable s) = Some rt" "\<not> no_route rt" "rt_nexthop rt = from" "rt_seqno rt \<le> n"
      by blast
    let ?t = "ifq_drop_all from (set_rt d (\<lambda>rt. rt_down (rt\<lparr>rt_seqno := n\<rparr>)) s)"
    have a: "rt_flags rt = RTF_UP \<and> even (rt_seqno rt)" using "2.prems" rt by simp
    have "routes fresher s (set_rt d (\<lambda>rt. rt_down (rt\<lparr>rt_seqno := n\<rparr>)) s)"
      using rt by (intro routes_set) (simp_all add: fresher_def)
    then have t: "routes fresher s ?t" by (simp add: routes_def)
    have u: "routes fresher ?t (set_rt d pc_delete_all ?t)"
      by (rule routes_set) (simp_all add: fresher_def)
    show ?thesis
    proof (cases "pc_empty rt")
      case True
      with "2.prems" rt a have "recv_error_loop from es nre ?t = Inr (nre', s')" by (simp add: Let_def)
      with "2.IH"(2) [OF rt(1) _ refl True] rt a t show ?thesis by (auto intro: routes_fresher_trans)
    next
      case False
      with "2.prems" rt a obtain nre1 where n: "rerr_add d n nre = Inr nre1"
        "recv_error_loop from es nre1 (set_rt d pc_delete_all ?t) = Inr (nre', s')" by (auto simp: Let_def)
      have "routes fresher (set_rt d pc_delete_all ?t) s'"
        using "2.IH"(3) [OF rt(1) _ refl False n(2)] rt by simp
      with routes_fresher_trans [OF t u] show ?thesis by (rule routes_fresher_trans)
    qed
  qed
qed

lemma aodv_step_routes:
  assumes "aodv_step c now s = Inr s'"
  shows "routes fresher s s'"
proof -
  have same: "a_rtable s' = a_rtable s \<Longrightarrow> routes fresher s s'" by (simp add: routes_fresher routes_same)
  show ?thesis
  proof (cases c)
    case (Recv p)
    have res: "\<And>q. rt_resolve q now s = Inr s' \<Longrightarrow> ?thesis" "\<And>q. forward None q NO_DELAY now s = Inr s' \<Longrightarrow> ?thesis"
      by (auto intro: routes_fresher rt_resolve_routes forward_routes)
    show ?thesis
    proof (cases "p_ptype p = PT_AODV")
      case True
      let ?p = "p\<lparr>p_ttl := p_ttl p - 1\<rparr>"
      from True Recv assms have r: "recvAODV ?p now s = Inr s'" by (simp add: aodv_recv_def Let_def)
      have err: "recvError es ?p s = Inr s' \<Longrightarrow> ?thesis" for es
        by (auto simp: recvError_def dest!: recv_error_loop_routes split: if_splits)
      have hello: "recvHello rp ?p now s = Inr s' \<Longrightarrow> ?thesis" for rp
        by (rule same) (auto simp: recvHello_def nb_insert_def split: option.splits)
      from r err hello show ?thesis
        by (auto simp: recvAODV_def intro: routes_fresher recvRequest_routes recvReply_routes split: aodv_body.splits)
    next
      case False
      with Recv assms show ?thesis
        by (auto simp: aodv_recv_def Let_def intro: res same split: if_splits)
    qed
  next
    case (LinkFailed p)
    with assms show ?thesis by (simp add: rt_ll_failed_routes)
  next
    case NeighborTick
    with assms show ?thesis
      by (auto simp: ntimer_handle_def nb_purge_def dest!: nb_purge_loop_routes)
  next
    case RouteTick
    with assms show ?thesis
      by (auto simp: rtimer_handle_def rt_purge_def dest!: rt_purge_loop_routes)
  next
    case (RepairTick p)
    have "routes fresher s (set_rt (p_daddr p) rt_down s)" by (rule routes_set) (simp_all add: fresher_def)
    with RepairTick assms show ?thesis
      by (auto simp: lrtimer_handle_def Let_def routes_def fresher_def split: option.splits if_splits)
  next
    case HelloTick
    with assms show ?thesis
      by (intro same) (auto simp: htimer_handle_def unif_def sendHello_def Let_def)
  qed (use assms in \<open>auto simp: btimer_handle_def routes_def fresher_def\<close>)
qed

end
