(* ===== verification/AodvInv.thy ===== *)
theory AodvInv
  imports AodvRoutes
begin

text \<open>
  As long as no route is under local repair, and for packets a correct neighbour sends, none of
  the agent's assertions fails and nothing undefined happens.  The invariant: destinations are
  unique, a route is either up with a hop count and an even sequence number or down with an
  infinite one, the own sequence number is even, and the buffer counts its packets.
\<close>

definition route_ok :: "rt_entry \<Rightarrow> bool" where
  "route_ok rt \<longleftrightarrow> (case rt_flags rt of
     RTF_UP \<Rightarrow> \<not> no_route rt \<and> even (rt_seqno rt) \<and> rt_dst rt \<noteq> IP_BROADCAST
   | RTF_DOWN \<Rightarrow> no_route rt
   | RTF_IN_REPAIR \<Rightarrow> False)"

definition aodv_ok :: "aodv \<Rightarrow> bool" where
  "aodv_ok s \<longleftrightarrow> rt_ok (a_rtable s) \<and> (\<forall>rt\<in>set (a_rtable s). route_ok rt) \<and>
     even (a_seqno s) \<and> rq_ok (a_rqueue s) \<and> (\<forall>k. 0 \<le> a_unif s k)"

text \<open>
  A route that is up does not expire before \<open>T\<close> of its destination, the last time the route
  timer looked at it, and no route is valid for a century.
\<close>

definition expire_ok :: "(int \<Rightarrow> real) \<Rightarrow> real \<Rightarrow> rt_entry \<Rightarrow> bool" where
  "expire_ok T now rt \<longleftrightarrow> rt_expire rt < now + 2 ^ 31 \<and> (rt_flags rt = RTF_UP \<longrightarrow> T (rt_dst rt) \<le> rt_expire rt)"

definition clock :: "(int \<Rightarrow> real) \<Rightarrow> real \<Rightarrow> bool" where
  "clock T now \<longleftrightarrow> 0 \<le> now \<and> (\<forall>d. T d \<le> now)"

definition timely :: "(int \<Rightarrow> real) \<Rightarrow> real \<Rightarrow> aodv \<Rightarrow> bool" where
  "timely T now s \<longleftrightarrow> clock T now \<and> (\<forall>rt\<in>set (a_rtable s). expire_ok T now rt)"

lemma clock_expire: "clock T now \<Longrightarrow> 0 \<le> now" "clock T now \<Longrightarrow> T d \<le> now"
  "clock T now \<Longrightarrow> 0 \<le> x \<Longrightarrow> T d \<le> now + x"
  by (auto simp: clock_def intro: order_trans)

lemma aodv_ok_new: "\<forall>k. 0 \<le> u k \<Longrightarrow> aodv_ok (aodv_new i u)"
  by (simp add: aodv_ok_def aodv_new_def rt_ok_def rq_ok_new)

lemma emit_frame [simp]: "a_index (emit x s) = a_index s" "a_unif (emit x s) = a_unif s" "a_bcast (emit x s) = a_bcast s"
  "a_nb (emit x s) = a_nb s" "a_unif (set_rt d f s) = a_unif s" "a_bcast (set_rt d f s) = a_bcast s"
  by (simp_all add: emit_def set_rt_def)

lemma aodv_ok_emit [simp]: "aodv_ok (emit x s) = aodv_ok s" "timely T now (emit x s) = timely T now s"
  by (simp_all add: aodv_ok_def timely_def emit_def)

lemma aodv_ok_cong:
  assumes "a_rtable t = a_rtable s" "a_seqno t = a_seqno s" "a_rqueue t = a_rqueue s" "a_unif t = a_unif s"
  shows "aodv_ok t = aodv_ok s" "timely T now t = timely T now s"
  using assms by (simp_all add: aodv_ok_def timely_def)

lemma aodv_ok_lookup: "aodv_ok s \<Longrightarrow> rt_lookup d (a_rtable s) = Some rt \<Longrightarrow> route_ok rt"
  using rt_lookup_dst by (auto simp: aodv_ok_def)

lemma route_ok_up: "route_ok rt \<Longrightarrow> \<not> no_route rt \<Longrightarrow> rt_flags rt = RTF_UP \<and> even (rt_seqno rt)"
  by (auto simp: route_ok_def split: rt_flags.splits)

lemma aodv_ok_set:
  assumes "aodv_ok s" "\<And>r. rt_dst (f r) = rt_dst r" "\<And>r. rt_lookup d (a_rtable s) = Some r \<Longrightarrow> route_ok (f r)"
  shows "aodv_ok (set_rt d f s)"
  using assms unfolding aodv_ok_def by (auto simp: set_rt_def dest!: rt_write_set)

lemma timely_set:
  assumes "timely T now s"
    "\<And>r. rt_lookup d (a_rtable s) = Some r \<Longrightarrow> expire_ok T now r \<Longrightarrow> clock T now \<Longrightarrow> expire_ok T now (f r)"
  shows "timely T now (set_rt d f s)"
  using assms rt_lookup_dst unfolding timely_def by (auto simp: set_rt_def dest!: rt_write_set)

section \<open>Sending\<close>

text \<open>What a successful step keeps: the invariant, timeliness, and which routes are up.\<close>

definition step_ok :: "real \<Rightarrow> aodv \<Rightarrow> aodv_error + aodv \<Rightarrow> bool" where
  "step_ok now s r \<longleftrightarrow> (\<exists>s'. r = Inr s' \<and> aodv_ok s' \<and> (\<forall>T. timely T now s \<longrightarrow> timely T now s') \<and>
     a_index s' = a_index s \<and>
     (\<forall>d rt. rt_lookup d (a_rtable s) = Some rt \<longrightarrow> (\<exists>rt'. rt_lookup d (a_rtable s') = Some rt' \<and>
        rt_flags rt' = rt_flags rt \<and> rt_hops rt' = rt_hops rt \<and> rt_seqno rt' = rt_seqno rt)))"

lemma step_okI [intro?]: "aodv_ok s' \<Longrightarrow> a_index s' = a_index s \<Longrightarrow> a_rtable s' = a_rtable s \<Longrightarrow> step_ok now s (Inr s')"
  by (auto simp: step_ok_def timely_def)

lemma step_ok_bind:
  assumes "step_ok now s r" "\<And>s'. r = Inr s' \<Longrightarrow> step_ok now s (Inr s') \<Longrightarrow> aodv_ok s' \<Longrightarrow> step_ok now s' (f s')"
  shows "step_ok now s (bind_err r f)"
proof -
  from assms(1) obtain s' where s': "r = Inr s'" "aodv_ok s'" "step_ok now s (Inr s')" by (auto simp: step_ok_def)
  from assms(2) [OF s'(1,3,2)] s'(1,3) show ?thesis unfolding step_ok_def by fastforce
qed

lemma step_ok_id: "aodv_ok s \<Longrightarrow> step_ok now s (Inr s)"
  by (auto simp: step_ok_def)

lemma step_ok_emit: "step_ok now s (Inr t) \<Longrightarrow> step_ok now s (Inr (emit x t))"
  by (auto simp: step_ok_def)

lemma unif_frame: "unif s = (u, t) \<Longrightarrow> t = s\<lparr>a_drawn := Suc (a_drawn s)\<rparr>"
  by (auto simp: unif_def)

lemma aodv_ok_upd [simp]:
  "aodv_ok (s\<lparr>a_drawn := n\<rparr>) = aodv_ok s" "timely T now (s\<lparr>a_drawn := n\<rparr>) = timely T now s"
  "aodv_ok (s\<lparr>a_bcast := b\<rparr>) = aodv_ok s" "timely T now (s\<lparr>a_bcast := b\<rparr>) = timely T now s"
  "aodv_ok (s\<lparr>a_nb := l\<rparr>) = aodv_ok s" "timely T now (s\<lparr>a_nb := l\<rparr>) = timely T now s"
  "aodv_ok (s\<lparr>a_ifq := ps\<rparr>) = aodv_ok s" "aodv_ok (s\<lparr>a_bid := z\<rparr>) = aodv_ok s"
  "timely T now (s\<lparr>a_bid := z\<rparr>) = timely T now s" "timely T now (s\<lparr>a_seqno := w\<rparr>) = timely T now s"
  by (simp_all add: aodv_ok_def timely_def)

text \<open>A unicast over a route that is up, or a broadcast without one, goes through.\<close>

lemma set_expire_ok:
  assumes "aodv_ok s"
  shows "step_ok now s (Inr (set_rt d (\<lambda>rt. rt\<lparr>rt_expire := now + ACTIVE_ROUTE_TIMEOUT\<rparr>) s))"
proof -
  let ?f = "\<lambda>rt. rt\<lparr>rt_expire := now + ACTIVE_ROUTE_TIMEOUT\<rparr>"
  have "aodv_ok (set_rt d ?f s)"
    using assms aodv_ok_lookup [OF assms] by (intro aodv_ok_set) (auto simp: route_ok_def no_route_def cong: rt_flags.case_cong)
  moreover have "timely T now s \<Longrightarrow> timely T now (set_rt d ?f s)" for T
    by (rule timely_set) (simp_all add: ACTIVE_ROUTE_TIMEOUT_def expire_ok_def clock_expire)
  ultimately show ?thesis by (auto simp: step_ok_def)
qed

lemma forward_ok:
  assumes ok: "aodv_ok s"
    and r: "case r of Some d \<Rightarrow> p_daddr p \<noteq> IP_BROADCAST \<and> (\<exists>rt. rt_lookup d (a_rtable s) = Some rt \<and> rt_flags rt = RTF_UP)
                     | None \<Rightarrow> p_daddr p = IP_BROADCAST"
  shows "step_ok now s (forward r p delay now s)"
proof (cases r)
  case None
  with r have b: "p_daddr p = IP_BROADCAST" by simp
  have "aodv_ok s \<Longrightarrow> step_ok now s (Inr (emit x (s\<lparr>a_drawn := n\<rparr>)))" for x n
    by (rule step_ok_emit) (rule step_okI, simp_all)
  with ok None b show ?thesis
    by (auto simp: forward_def unif_def intro: step_ok_emit step_ok_id)
next
  case (Some d)
  with r obtain rt where rt: "rt_lookup d (a_rtable s) = Some rt" "rt_flags rt = RTF_UP" and b: "p_daddr p \<noteq> IP_BROADCAST"
    by auto
  with Some ok show ?thesis
    by (auto simp: forward_def with_rt_def intro: step_ok_emit step_ok_id set_expire_ok)
qed

text \<open>The loops over the buffer come to an end, with no packet for the destination left.\<close>

lemma take_dst_count: "take_dst d ps = (Some p, ps') \<Longrightarrow> length ps = Suc (length ps') \<and> p_daddr p = d"
  by (induction ps arbitrary: ps') (auto split: if_splits prod.splits)

lemma aodv_ok_rqueue: "aodv_ok s \<Longrightarrow> rq_ok q \<Longrightarrow> step_ok now s (Inr (s\<lparr>a_rqueue := q\<rparr>))"
  by (rule step_okI) (simp_all add: aodv_ok_def)

lemma drain_loop_ok:
  assumes body: "\<And>p x t. aodv_ok t \<Longrightarrow> p_daddr p = d \<Longrightarrow> I t \<Longrightarrow>
      \<exists>x' t'. body p x t = Inr (x', t') \<and> step_ok now t (Inr t') \<and> a_rqueue t' = a_rqueue t \<and> I t'"
    and I: "\<And>t q. I t \<Longrightarrow> I (t\<lparr>a_rqueue := q\<rparr>)"
  shows "aodv_ok s \<Longrightarrow> I s \<Longrightarrow> length (rq_pkts (a_rqueue s)) < n \<Longrightarrow>
    \<exists>x' s'. drain_loop n now d body x s = Inr (x', s') \<and> step_ok now s (Inr s') \<and> I s'"
proof (induction n arbitrary: x s)
  case (Suc n)
  then have "rq_ok (a_rqueue s)" by (simp add: aodv_ok_def)
  from rq_deque_dst_ok [OF this, of now d] obtain q where
    q: "rq_deque_dst now d (a_rqueue s) = Inr (fst (take_dst d (fresh now (rq_pkts (a_rqueue s)))), q)"
    "rq_ok q" "rq_pkts q = snd (take_dst d (fresh now (rq_pkts (a_rqueue s))))" by blast
  have s: "step_ok now s (Inr (s\<lparr>a_rqueue := q\<rparr>))" by (rule aodv_ok_rqueue [OF Suc.prems(1) q(2)])
  then have ok: "aodv_ok (s\<lparr>a_rqueue := q\<rparr>)" by (simp add: step_ok_def)
  have len: "length (fresh now (rq_pkts (a_rqueue s))) \<le> n" using Suc.prems(3) unfolding fresh_def
    by (meson le_trans length_filter_le less_Suc_eq_le)
  show ?case
  proof (cases "fst (take_dst d (fresh now (rq_pkts (a_rqueue s))))")
    case None
    with q(1) s I [OF Suc.prems(2)] show ?thesis by (simp add: Let_def)
  next
    case (Some p)
    then have tk: "length (rq_pkts q) < n" "p_daddr p = d"
      using take_dst_count [of d "fresh now (rq_pkts (a_rqueue s))" p "rq_pkts q"] q(3) len by (auto simp: prod_eq_iff)
    from body [OF ok tk(2) I [OF Suc.prems(2)], of x] obtain x1 t1 where
      b: "body p x (s\<lparr>a_rqueue := q\<rparr>) = Inr (x1, t1)" "step_ok now (s\<lparr>a_rqueue := q\<rparr>) (Inr t1)"
      "a_rqueue t1 = q" "I t1" by auto
    have "aodv_ok t1" using b(2) by (simp add: step_ok_def)
    from Suc.IH [OF this b(4), of x1] b(3) tk(1) obtain x2 s2 where
      c: "drain_loop n now d body x1 t1 = Inr (x2, s2)" "step_ok now t1 (Inr s2)" "I s2" by auto
    have "step_ok now s (Inr s2)"
      using step_ok_bind [OF step_ok_bind [OF s, of "\<lambda>_. Inr t1"], of "\<lambda>_. Inr s2"] b(2) c(2) by auto
    with q(1) Some b(1) c show ?thesis by (simp add: Let_def)
  qed
qed simp

lemma drain_ok:
  assumes "\<And>p x t. aodv_ok t \<Longrightarrow> p_daddr p = d \<Longrightarrow> I t \<Longrightarrow>
      \<exists>x' t'. body p x t = Inr (x', t') \<and> step_ok now t (Inr t') \<and> a_rqueue t' = a_rqueue t \<and> I t'"
    and "\<And>t q. I t \<Longrightarrow> I (t\<lparr>a_rqueue := q\<rparr>)" "aodv_ok s" "I s"
  shows "\<exists>x' s'. drain now d body x s = Inr (x', s') \<and> step_ok now s (Inr s') \<and> I s'"
  unfolding drain_def by (rule drain_loop_ok [OF assms(1,2,3,4)]) simp_all

lemma drop_no_route_ok:
  "aodv_ok s \<Longrightarrow> \<exists>x' s'. drain now d drop_no_route x s = Inr (x', s') \<and> step_ok now s (Inr s')"
  using drain_ok [of d "\<lambda>_. True" drop_no_route now s x]
  by (auto simp: drop_no_route_def intro: step_ok_emit step_ok_id)

lemma enque_ok:
  assumes "aodv_ok s"
  shows "step_ok now s (enque_buffer now p s)"
proof -
  have "rq_ok (a_rqueue s)" using assms by (simp add: aodv_ok_def)
  from rq_enque_ok [OF this, of now p] obtain q ds where q: "rq_enque now p (a_rqueue s) = Inr (ds, q)" "rq_ok q" by blast
  have "step_ok now s (Inr t) \<Longrightarrow> step_ok now s (Inr (fold (\<lambda>(p, why). emit (Dropped p why)) ds t))" for t
    by (induction ds arbitrary: t) (auto intro: step_ok_emit)
  with aodv_ok_rqueue [OF assms q(2)] show ?thesis by (simp add: enque_buffer_def q(1))
qed

lemma route_ok_fields:
  "rt_dst r' = rt_dst r \<Longrightarrow> rt_flags r' = rt_flags r \<Longrightarrow> rt_hops r' = rt_hops r \<Longrightarrow> rt_seqno r' = rt_seqno r \<Longrightarrow> route_ok r' = route_ok r"
  by (simp add: route_ok_def no_route_def split: rt_flags.split)

text \<open>Writing fields of an entry that the invariant does not speak of.\<close>

lemma set_rt_step:
  assumes ok: "aodv_ok s" and f: "\<And>r. rt_dst (f r) = rt_dst r"
    "\<And>r. rt_lookup d (a_rtable s) = Some r \<Longrightarrow> rt_flags (f r) = rt_flags r \<and> rt_hops (f r) = rt_hops r \<and> rt_seqno (f r) = rt_seqno r"
    "\<And>r T. rt_lookup d (a_rtable s) = Some r \<Longrightarrow> expire_ok T now r \<Longrightarrow> clock T now \<Longrightarrow> expire_ok T now (f r)"
  shows "step_ok now s (Inr (set_rt d f s))"
proof -
  have "aodv_ok (set_rt d f s)"
  proof (rule aodv_ok_set [OF ok f(1)])
    fix r assume "rt_lookup d (a_rtable s) = Some r"
    with route_ok_fields [of "f r" r] f(1,2) [of r] aodv_ok_lookup [OF ok] show "route_ok (f r)" by simp
  qed
  moreover have "timely T now s \<Longrightarrow> timely T now (set_rt d f s)" for T
    by (rule timely_set) (use f in auto)
  ultimately show ?thesis using f by (auto simp: step_ok_def)
qed

lemma timely_lookup: "timely T now s \<Longrightarrow> rt_lookup d (a_rtable s) = Some r \<Longrightarrow> expire_ok T now r"
  using rt_lookup_dst unfolding timely_def by blast

lemma rt_write_id: "rt_lookup d ts = Some rt \<Longrightarrow> rt_ok ts \<Longrightarrow> rt_write d (\<lambda>_. r') ts = rt_write d (\<lambda>r. if r = rt then r' else r) ts"
  by (induction ts) (auto simp: rt_ok_def)

lemma set_rt_const:
  assumes ok: "aodv_ok s" and rt: "rt_lookup d (a_rtable s) = Some rt" and "rt_dst r' = d"
    "rt_flags r' = rt_flags rt" "rt_hops r' = rt_hops rt" "rt_seqno r' = rt_seqno rt"
    "\<And>T. clock T now \<Longrightarrow> expire_ok T now r'"
  shows "step_ok now s (Inr (set_rt d (\<lambda>_. r') s))"
proof -
  have "set_rt d (\<lambda>_. r') s = set_rt d (\<lambda>r. if r = rt then r' else r) s"
    using rt_write_id [OF rt, of r'] ok by (simp add: set_rt_def aodv_ok_def)
  moreover have "step_ok now s (Inr (set_rt d (\<lambda>r. if r = rt then r' else r) s))"
    using assms rt_lookup_dst [OF rt] by (intro set_rt_step) auto
  ultimately show ?thesis by simp
qed

lemma sendRequest_ok:
  assumes ok: "aodv_ok s" and rt: "rt_lookup d (a_rtable s) = Some rt"
  shows "step_ok now s (sendRequest d now s)"
proof -
  note r = aodv_ok_lookup [OF ok rt]
  consider (up) "rt_flags rt = RTF_UP" | (wait) "rt_flags rt \<noteq> RTF_UP" "rt_req_timeout rt > now"
    | (give_up) "rt_flags rt \<noteq> RTF_UP" "\<not> rt_req_timeout rt > now" "rt_req_cnt rt > RREQ_RETRIES"
    | (send) "rt_flags rt \<noteq> RTF_UP" "\<not> rt_req_timeout rt > now" "\<not> rt_req_cnt rt > RREQ_RETRIES" by blast
  then show ?thesis
  proof cases
    case up
    with r rt ok show ?thesis by (simp add: sendRequest_def route_ok_def step_ok_id)
  next
    case wait
    with rt ok show ?thesis by (simp add: sendRequest_def step_ok_id)
  next
    case give_up
    let ?s = "set_rt d (\<lambda>rt. rt\<lparr>rt_req_timeout := now + MAX_RREQ_TIMEOUT, rt_req_cnt := 0\<rparr>) s"
    have s: "step_ok now s (Inr ?s)" by (rule set_rt_step [OF ok]) (simp_all add: expire_ok_def)
    then have "aodv_ok ?s" by (simp add: step_ok_def)
    from drop_no_route_ok [OF this, of now "rt_dst rt" "()"] obtain t where
      t: "drain now (rt_dst rt) drop_no_route () ?s = Inr ((), t)" "step_ok now ?s (Inr t)" by auto
    have "sendRequest d now s = Inr t" using give_up rt t(1) by (simp add: sendRequest_def)
    moreover have "step_ok now s (Inr t)" using step_ok_bind [OF s, of "\<lambda>_. Inr t"] t(2) by simp
    ultimately show ?thesis by simp
  next
    case send
    obtain ttl r1 where t: "request_ttl rt = (ttl, r1)" by (metis surj_pair)
    let ?r = "request_timeout now ttl r1" and ?seq = "a_seqno s + 2"
    have s: "step_ok now s (Inr (set_rt d (\<lambda>_. ?r) s))"
      using request_ttl_route [OF t] rt_lookup_dst [OF rt] send
      by (intro set_rt_const [OF ok rt]) (auto simp: expire_ok_def request_timeout_def Let_def dest!: clock_expire(1))
    have even: "even ?seq" using ok by (simp add: aodv_ok_def)
    have "step_ok now s (Inr ((set_rt d (\<lambda>_. ?r) s)\<lparr>a_bid := b, a_seqno := ?seq\<rparr>))" for b
      using s even by (auto simp: step_ok_def aodv_ok_def timely_def)
    with send rt t even show ?thesis by (auto simp: sendRequest_def Let_def intro: step_ok_emit)
  qed
qed

text \<open>\<open>ensure_rt\<close> may add an entry that is down.\<close>

lemma ensure_ok:
  assumes "aodv_ok s"
  shows "\<exists>t rt. ensure_rt d s = Inr t \<and> step_ok now s (Inr t) \<and> rt_lookup d (a_rtable t) = Some rt"
proof (cases "rt_lookup d (a_rtable s)")
  case None
  let ?t = "s\<lparr>a_rtable := aodv_rt_entry\<lparr>rt_dst := d\<rparr> # a_rtable s\<rparr>"
  have "rt_ok (a_rtable ?t)" using assms None by (auto simp: aodv_ok_def rt_ok_def rt_lookup_None)
  moreover have "route_ok (aodv_rt_entry\<lparr>rt_dst := d\<rparr>)" by (simp add: route_ok_def no_route_def aodv_rt_entry_def)
  ultimately have "aodv_ok ?t" using assms by (simp add: aodv_ok_def)
  moreover have "timely T now s \<Longrightarrow> timely T now ?t" for T
    by (auto simp: timely_def aodv_rt_entry_def expire_ok_def dest!: clock_expire(1))
  moreover have "ensure_rt d s = Inr ?t" using None by (simp add: ensure_rt_def rt_add_def)
  ultimately show ?thesis using None by (auto simp: step_ok_def)
next
  case (Some rt)
  with assms show ?thesis by (simp add: ensure_rt_def step_ok_id)
qed

lemma sendReply_ok:
  assumes "aodv_ok s" "rt_lookup a (a_rtable s) = Some rt"
  shows "step_ok now s (sendReply a h d n l t s)"
  using assms by (auto simp: sendReply_def intro: step_ok_emit step_ok_id)

lemma sendError_ok: "step_ok now s (Inr t) \<Longrightarrow> step_ok now s (Inr (sendError es j t))"
  by (auto simp: sendError_def Let_def unif_def intro!: step_ok_emit) (auto simp: step_ok_def)

end
