(* ===== verification/AodvSafe.thy ===== *)
theory AodvSafe
  imports AodvInv
begin

text \<open>
  The handlers of the agent keep the invariant of AodvInv and end in no error, for well-formed
  packets, while no route is under local repair.
\<close>

definition safe :: "real \<Rightarrow> aodv \<Rightarrow> aodv_error + aodv \<Rightarrow> bool" where
  "safe now s r \<longleftrightarrow> (\<exists>s'. r = Inr s' \<and> aodv_ok s' \<and> (\<forall>T. timely T now s \<longrightarrow> timely T now s') \<and> a_index s' = a_index s)"

lemma step_safe: "step_ok now s r \<Longrightarrow> safe now s r"
  by (auto simp: step_ok_def safe_def)

lemma safe_bind:
  assumes "safe now s r" "\<And>s'. r = Inr s' \<Longrightarrow> safe now s (Inr s') \<Longrightarrow> aodv_ok s' \<Longrightarrow> safe now s' (f s')"
  shows "safe now s (bind_err r f)"
proof -
  from assms(1) obtain s' where s': "r = Inr s'" "aodv_ok s'" "safe now s (Inr s')" by (auto simp: safe_def)
  from assms(2) [OF s'(1,3,2)] s'(1,3) show ?thesis by (auto simp: safe_def)
qed

lemma safe_trans: "safe now s (Inr t) \<Longrightarrow> safe now t r \<Longrightarrow> safe now s r"
  using safe_bind [of now s "Inr t" "\<lambda>_. r"] by simp

lemma safe_id: "aodv_ok s \<Longrightarrow> safe now s (Inr s)"
  by (simp add: safe_def)

lemma safe_emit: "safe now s (Inr t) \<Longrightarrow> safe now s (Inr (emit x t))"
  by (auto simp: safe_def)

lemma safe_ok: "safe now s (Inr t) \<Longrightarrow> aodv_ok t"
  by (simp add: safe_def)

lemma safe_set:
  assumes ok: "aodv_ok s" and "\<And>r. rt_dst (f r) = rt_dst r"
    and "\<And>r. rt_lookup d (a_rtable s) = Some r \<Longrightarrow> route_ok (f r)"
    and "\<And>r T. rt_lookup d (a_rtable s) = Some r \<Longrightarrow> expire_ok T now r \<Longrightarrow> clock T now \<Longrightarrow> expire_ok T now (f r)"
  shows "safe now s (Inr (set_rt d f s))"
  using assms aodv_ok_set [OF ok, of f d] timely_set [of _ now s d f] by (auto simp: safe_def)

section \<open>Well-formed packets\<close>

definition wf_rreq :: "rreq \<Rightarrow> bool" where
  "wf_rreq rq \<longleftrightarrow> even (rq_src_seqno rq) \<and> rq_hop_count rq \<noteq> 255 \<and> rq_src rq \<noteq> IP_BROADCAST"

definition wf_rrep :: "rrep \<Rightarrow> bool" where
  "wf_rrep rp \<longleftrightarrow> even (rp_dst_seqno rp) \<and> rp_hop_count rp \<noteq> 255 \<and> rp_hop_count rp \<noteq> 0 \<and>
     rp_dst rp \<noteq> IP_BROADCAST \<and> 0 \<le> rp_lifetime rp \<and> rp_lifetime rp < 2 ^ 31"

definition wf_packet :: "packet \<Rightarrow> bool" where
  "wf_packet p \<longleftrightarrow> (p_ptype p = PT_AODV \<longrightarrow> p_sport p = RT_PORT \<and> p_dport p = RT_PORT \<and>
     (case p_body p of
        RREQ rq \<Rightarrow> wf_rreq rq
      | RREP rp \<Rightarrow> wf_rrep rp \<and> p_daddr p \<noteq> IP_BROADCAST
      | RERR es \<Rightarrow> length es \<le> AODV_MAX_ERRORS
      | HELLO rp \<Rightarrow> True
      | _ \<Rightarrow> False))"

lemma unat_hops: "unat (ucast (h :: 8 word) :: 16 word) = unat h"
proof -
  have "take_bit 16 (unat h) = unat h" using unsigned_less [of h, where ?'a = nat] by (simp add: take_bit_nat_eq_self_iff)
  then show ?thesis by (simp add: unsigned_ucast_eq)
qed

lemma ucast_hops: "h \<noteq> 255 \<Longrightarrow> (ucast (h :: 8 word) :: 16 word) \<noteq> 255"
proof
  assume h: "h \<noteq> 255" and "(ucast h :: 16 word) = 255"
  then have "unat h = unat (255 :: 16 word)" by (metis unat_hops)
  then have "unat h = unat (255 :: 8 word)" by simp
  with h show False by (metis word_unat_eq_iff)
qed

section \<open>Route requests\<close>

lemma forward_rqueue: "forward r p delay now s = Inr t \<Longrightarrow> a_rqueue t = a_rqueue s"
  by (auto simp: forward_def with_rt_Inr unif_def split: if_splits option.splits)

definition up_to :: "int \<Rightarrow> aodv \<Rightarrow> bool" where
  "up_to d s \<longleftrightarrow> (\<exists>rt. rt_lookup d (a_rtable s) = Some rt \<and> rt_flags rt = RTF_UP)"

lemma up_to_step: "step_ok now s (Inr t) \<Longrightarrow> up_to d s \<Longrightarrow> up_to d t"
  by (fastforce simp: step_ok_def up_to_def)

lemma up_to_rqueue: "up_to d s \<Longrightarrow> up_to d (s\<lparr>a_rqueue := q\<rparr>)"
  by (simp add: up_to_def)

lemma forward_up:
  assumes "aodv_ok s" "up_to d s" "p_daddr p \<noteq> IP_BROADCAST"
  shows "\<exists>t. forward (Some d) p delay now s = Inr t \<and> step_ok now s (Inr t) \<and> a_rqueue t = a_rqueue s \<and> up_to d t"
proof -
  have "step_ok now s (forward (Some d) p delay now s)"
    using assms by (intro forward_ok) (simp_all add: up_to_def)
  moreover from this obtain t where "forward (Some d) p delay now s = Inr t" by (auto simp: step_ok_def)
  ultimately show ?thesis using forward_rqueue up_to_step [OF _ assms(2)] by auto
qed

lemma up_not_no_route: "aodv_ok s \<Longrightarrow> rt_lookup d (a_rtable s) = Some rt \<Longrightarrow> rt_flags rt = RTF_UP \<Longrightarrow> \<not> no_route rt"
  using aodv_ok_lookup by (fastforce simp: route_ok_def)

lemma reverse_drain_ok:
  assumes "aodv_ok s" "up_to d s" "d \<noteq> IP_BROADCAST"
  shows "\<exists>x t. drain now d (forward_reverse d now) () s = Inr (x, t) \<and> step_ok now s (Inr t) \<and> up_to d t"
proof (rule drain_ok [of d "up_to d"])
  fix p :: packet and x t assume t: "aodv_ok t" "p_daddr p = d" "up_to d t"
  from forward_up [OF t(1,3), of p NO_DELAY now] assms(3) t(2) obtain u where
    u: "forward (Some d) p NO_DELAY now t = Inr u" "step_ok now t (Inr u)" "a_rqueue u = a_rqueue t" "up_to d u" by auto
  from t(3) obtain rt where "rt_lookup d (a_rtable t) = Some rt" "rt_flags rt = RTF_UP" by (auto simp: up_to_def)
  with u up_not_no_route [OF t(1)]
  show "\<exists>x' t'. forward_reverse d now p x t = Inr (x', t') \<and> step_ok now t (Inr t') \<and> a_rqueue t' = a_rqueue t \<and> up_to d t'"
    by (simp add: forward_reverse_def with_rt_def)
qed (use assms up_to_rqueue in auto)

lemma reverse_entry_ok:
  assumes "wf_rreq rq"
  shows "rt_dst rt = rq_src rq \<Longrightarrow> route_ok (reverse_entry rq from now rt)" "rt_flags (reverse_entry rq from now rt) = RTF_UP"
    "rt_dst (reverse_entry rq from now rt) = rt_dst rt"
  using assms ucast_hops [of "rq_hop_count rq"]
  by (auto simp: reverse_entry_def rt_update_def Let_def route_ok_def no_route_def wf_rreq_def INFINITY2_def)

lemma reverse_route_ok:
  assumes ok: "aodv_ok s" and wf: "wf_rreq rq"
  shows "\<exists>t rt. reverse_route rq from now s = Inr t \<and> safe now s (Inr t) \<and> rt_lookup (rq_src rq) (a_rtable t) = Some rt"
proof -
  let ?d = "rq_src rq"
  from ensure_ok [OF ok, of ?d] obtain s1 rt1 where s1: "ensure_rt ?d s = Inr s1" "step_ok now s (Inr s1)"
    "rt_lookup ?d (a_rtable s1) = Some rt1" by blast
  have ok1: "aodv_ok s1" using s1(2) by (simp add: step_ok_def)
  let ?f = "\<lambda>rt. rt\<lparr>rt_expire := max (rt_expire rt) (now + REV_ROUTE_LIFE)\<rparr>"
  let ?s2 = "set_rt ?d ?f s1"
  have s2: "step_ok now s1 (Inr ?s2)"
    by (rule set_rt_step [OF ok1]) (auto simp: REV_ROUTE_LIFE_def expire_ok_def)
  then have ok2: "aodv_ok ?s2" by (simp add: step_ok_def)
  have safe2: "safe now s (Inr ?s2)" using step_safe [OF s1(2)] step_safe [OF s2] by (rule safe_trans)
  have rt0: "rt_lookup ?d (a_rtable ?s2) = Some (?f rt1)" using s1(3) by simp
  show ?thesis
  proof (cases "reverse_fresher rq (?f rt1)")
    case False
    with s1 rt0 safe2 show ?thesis by (simp add: reverse_route_def Let_def with_rt_def)
  next
    case True
    let ?s3 = "set_rt ?d (reverse_entry rq from now) ?s2"
    have s3: "safe now ?s2 (Inr ?s3)"
    proof (rule safe_set [OF ok2])
      fix r assume l: "rt_lookup ?d (a_rtable ?s2) = Some r"
      then show "route_ok (reverse_entry rq from now r)"
        by (intro reverse_entry_ok [OF wf]) (simp only: rt_lookup_dst)
      fix T assume "clock T now" "expire_ok T now r"
      then show "expire_ok T now (reverse_entry rq from now r)" using clock_expire(2) [of T now "rt_dst r"]
        by (auto simp: expire_ok_def reverse_entry_def rt_update_def Let_def REV_ROUTE_LIFE_def ACTIVE_ROUTE_TIMEOUT_def
            max_def)
    qed (rule reverse_entry_ok [OF wf])
    have up: "up_to ?d ?s3" using reverse_entry_ok [OF wf] s1(3) by (simp add: up_to_def)
    have "?d \<noteq> IP_BROADCAST" using wf by (simp add: wf_rreq_def)
    from reverse_drain_ok [OF safe_ok [OF s3] up this, of now] obtain x t where
      t: "drain now ?d (forward_reverse ?d now) () ?s3 = Inr (x, t)" "step_ok now ?s3 (Inr t)" "up_to ?d t" by blast
    have "reverse_route rq from now s = Inr t"
      using s1(1,3) True t(1) by (simp add: reverse_route_def Let_def with_rt_def)
    moreover have "safe now s (Inr t)"
      using safe_trans [OF safe_trans [OF safe2 s3] step_safe [OF t(2)]] .
    ultimately show ?thesis using t(3) by (auto simp: up_to_def)
  qed
qed

lemma pc_insert_ok: "aodv_ok s \<Longrightarrow> safe now s (Inr (set_rt d (pc_insert a) s))"
  by (rule step_safe) (rule set_rt_step, simp_all add: expire_ok_def)

lemma u32_ok:
  assumes "- 1 < x" "x < 2 ^ 32"
  shows "\<exists>w. u32_of_real x = Inr w"
proof -
  have "0 \<le> to_int x" "to_int x < 2 ^ 32" using assms by (auto simp: to_int_def)
  then show ?thesis by (simp add: u32_of_real_def Let_def)
qed

lemma seqno_ok: "aodv_ok s \<Longrightarrow> even w \<Longrightarrow> safe now s (Inr (s\<lparr>a_seqno := w\<rparr>))"
  by (simp add: safe_def aodv_ok_def)

lemma forward_request_ok: "aodv_ok s \<Longrightarrow> p_daddr p = IP_BROADCAST \<Longrightarrow> safe now s (forward None p delay now s)"
  by (intro step_safe forward_ok) simp_all

text \<open>All routes have been looked at within the last second.\<close>

definition recent :: "(int \<Rightarrow> real) \<Rightarrow> real \<Rightarrow> bool" where
  "recent T now \<longleftrightarrow> (\<forall>d. now - 1 < T d)"

lemma answer_request_ok:
  assumes ok: "aodv_ok s" and t: "timely T now s" "recent T now" and rt0: "rt_lookup (rq_src rq) (a_rtable s) = Some rt0"
  shows "safe now s (answer_request rq p now s)"
proof (cases "rq_dst rq = a_index s")
  case True
  let ?m = "max (a_seqno s) (rq_dst_seqno rq) + 1"
  let ?n = "if odd ?m then ?m + 1 else ?m"
  have "even ?n" by simp
  note s1 = seqno_ok [OF ok this, of now]
  have "step_ok now (s\<lparr>a_seqno := ?n\<rparr>)
      (sendReply (rq_src rq) 1 (a_index s) ?n MY_ROUTE_TIMEOUT (rq_timestamp rq) (s\<lparr>a_seqno := ?n\<rparr>))"
    using rt0 by (intro sendReply_ok [OF safe_ok [OF s1]]) simp
  from safe_trans [OF s1 step_safe [OF this]] True show ?thesis
    unfolding answer_request_def Let_def
    by (auto intro!: safe_bind intro: safe_emit safe_id simp del: bind_err.simps)
next
  case False
  note dst = this
  show ?thesis
  proof (cases "rt_lookup (rq_dst rq) (a_rtable s)")
    case None
    with dst ok show ?thesis by (simp add: answer_request_def forward_request_ok)
  next
    case (Some rt)
    show ?thesis
    proof (cases "\<not> no_route rt \<and> rt_seqno rt \<ge> rq_dst_seqno rq")
      case False
      with dst Some ok show ?thesis by (auto simp: answer_request_def forward_request_ok)
    next
      case True
      have "rt_flags rt = RTF_UP" using route_ok_up [OF aodv_ok_lookup [OF ok Some]] True by simp
      moreover from t(1) rt_lookup_dst [OF Some] have "expire_ok T now rt" by (simp add: timely_def)
      moreover have "now - 1 < T (rt_dst rt)" using t(2) by (simp add: recent_def)
      ultimately have "- 1 < rt_expire rt - now" "rt_expire rt - now < 2 ^ 32"
        by (simp_all add: expire_ok_def)
      from u32_ok [OF this] obtain life where life: "u32_of_real (rt_expire rt - now) = Inr life" by blast
      note reply = step_safe [OF sendReply_ok [OF ok rt0, of now "unat (rt_hops rt) + 1" "rq_dst rq" "rt_seqno rt" life "rq_timestamp rq"]]
      then obtain u where
        u: "sendReply (rq_src rq) (unat (rt_hops rt) + 1) (rq_dst rq) (rt_seqno rt) life (rq_timestamp rq) s = Inr u"
        by (auto simp: safe_def)
      with reply have u': "safe now s (Inr u)" by simp
      have lk: "rt_lookup (rq_src rq) (a_rtable u) = Some rt0" using sendReply_table [OF u] rt0 by simp
      let ?u1 = "set_rt (rq_dst rq) (pc_insert (rt_nexthop rt0)) u"
      have u1: "safe now s (Inr ?u1)" using u' pc_insert_ok [OF safe_ok [OF u']] by (rule safe_trans)
      have u2: "safe now s (Inr (set_rt (rq_src rq) (pc_insert (rt_nexthop rt)) ?u1))"
        using u1 pc_insert_ok [OF safe_ok [OF u1]] by (rule safe_trans)
      from dst Some True life u lk safe_emit [OF u2] show ?thesis
        by (simp add: answer_request_def with_rt_def Let_def)
    qed
  qed
qed

lemma recvRequest_ok:
  assumes ok: "aodv_ok s" and t: "timely T now s" "recent T now" and wf: "wf_rreq rq"
  shows "safe now s (recvRequest rq p now s)"
proof (cases "rq_src rq = a_index s \<or> id_lookup (rq_src rq) (rq_bcast_id rq) (a_bcast s)")
  case True
  with ok show ?thesis by (auto simp: recvRequest_def intro: safe_emit safe_id)
next
  case False
  let ?s = "s\<lparr>a_bcast := id_insert now (rq_src rq) (rq_bcast_id rq) (a_bcast s)\<rparr>"
  have s: "safe now s (Inr ?s)" using ok by (simp add: safe_def)
  from reverse_route_ok [OF safe_ok [OF s] wf, of "p_saddr p" now] obtain u rt where
    u: "reverse_route rq (p_saddr p) now ?s = Inr u" "safe now ?s (Inr u)" "rt_lookup (rq_src rq) (a_rtable u) = Some rt" by blast
  have "timely T now u" using t(1) s u(2) by (auto simp: safe_def)
  from safe_trans [OF safe_trans [OF s u(2)] answer_request_ok [OF safe_ok [OF u(2)] this t(2) u(3)]] False u(1)
  show ?thesis by (simp add: recvRequest_def)
qed

section \<open>Route replies\<close>

lemma reply_entry_ok:
  assumes "wf_rrep rp"
  shows "rt_dst rt = rp_dst rp \<Longrightarrow> route_ok (reply_entry rp now rt)" "rt_flags (reply_entry rp now rt) = RTF_UP"
    "rt_dst (reply_entry rp now rt) = rt_dst rt" "clock T now \<Longrightarrow> expire_ok T now (reply_entry rp now rt)"
  using assms ucast_hops [of "rp_hop_count rp"]
  by (auto simp: reply_entry_def rt_update_def route_ok_def no_route_def wf_rrep_def INFINITY2_def expire_ok_def clock_expire)

lemma delayed_up:
  assumes "aodv_ok t" "up_to d t" "p_daddr p \<noteq> IP_BROADCAST"
  shows "\<exists>x' t'. forward_delayed d now p x t = Inr (x', t') \<and> step_ok now t (Inr t') \<and> a_rqueue t' = a_rqueue t \<and> up_to d t'"
  using forward_up [OF assms, of x now] by (auto simp: forward_delayed_def)

lemma delayed_drain_ok:
  assumes "aodv_ok s" "up_to d s" "d \<noteq> IP_BROADCAST"
  shows "\<exists>y t. drain now d (forward_delayed d now) x s = Inr (y, t) \<and> step_ok now s (Inr t) \<and> up_to d t"
proof (rule drain_ok [of d "up_to d"])
  fix p :: packet and x t assume t: "aodv_ok t" "p_daddr p = d" "up_to d t"
  with assms(3) show "\<exists>x' t'. forward_delayed d now p x t = Inr (x', t') \<and> step_ok now t (Inr t') \<and>
      a_rqueue t' = a_rqueue t \<and> up_to d t'" by (intro delayed_up) auto
qed (use assms up_to_rqueue in auto)

lemma reply_drain_ok:
  assumes "aodv_ok s" "up_to d s" "d \<noteq> IP_BROADCAST"
  shows "\<exists>y t. drain now d (forward_reply d now) x s = Inr (y, t) \<and> step_ok now s (Inr t) \<and> up_to d t"
proof (rule drain_ok [of d "up_to d"])
  fix p :: packet and x t assume t: "aodv_ok t" "p_daddr p = d" "up_to d t"
  with assms(3) delayed_up [OF t(1,3), of p now x]
  obtain x' t' where u: "forward_delayed d now p x t = Inr (x', t')" "step_ok now t (Inr t')" "a_rqueue t' = a_rqueue t" "up_to d t'"
    by auto
  from t(3) obtain rt where "rt_lookup d (a_rtable t) = Some rt" "rt_flags rt = RTF_UP" by (auto simp: up_to_def)
  with u up_not_no_route [OF t(1)]
  show "\<exists>x' t'. forward_reply d now p x t = Inr (x', t') \<and> step_ok now t (Inr t') \<and> a_rqueue t' = a_rqueue t \<and> up_to d t'"
    by (simp add: forward_reply_def with_rt_def)
qed (use assms up_to_rqueue in auto)

lemma recvReply_ok:
  assumes ok: "aodv_ok s" and wf: "wf_rrep rp" "p_daddr p \<noteq> IP_BROADCAST"
  shows "safe now s (recvReply rp p now s)"
proof -
  let ?d = "rp_dst rp"
  from ensure_ok [OF ok, of ?d] obtain s1 rt where s1: "ensure_rt ?d s = Inr s1" "step_ok now s (Inr s1)"
    "rt_lookup ?d (a_rtable s1) = Some rt" by blast
  have ok1: "aodv_ok s1" and safe1: "safe now s (Inr s1)" and idx: "a_index s1 = a_index s"
    using s1(2) step_safe [OF s1(2)] by (auto simp: step_ok_def)
  show ?thesis
  proof (cases "reply_fresher rp rt")
    case False
    with s1 safe_emit [OF safe1] show ?thesis by (simp add: recvReply_def Let_def with_rt_def)
  next
    case True
    let ?s2 = "set_rt ?d (reply_entry rp now) s1"
    have s2: "safe now s1 (Inr ?s2)" by (rule safe_set [OF ok1]) (use reply_entry_ok [OF wf(1)] rt_lookup_dst in auto)
    have up2: "up_to ?d ?s2" using reply_entry_ok [OF wf(1)] s1(3) by (simp add: up_to_def)
    let ?s3 = "if p_daddr p = a_index s then set_rt ?d (record_latency rp now) ?s2 else ?s2"
    have s3: "step_ok now ?s2 (Inr ?s3)"
      using safe_ok [OF s2] by (auto intro: step_ok_id set_rt_step simp: record_latency_def expire_ok_def)
    have up3: "up_to ?d ?s3" by (rule up_to_step [OF s3 up2])
    have "?d \<noteq> IP_BROADCAST" and hop: "rp_hop_count rp \<noteq> 0" using wf by (simp_all add: wf_rrep_def)
    from reply_drain_ok [OF safe_ok [OF step_safe [OF s3]] up3 this(1), of now 0] obtain y t where
      t: "drain now ?d (forward_reply ?d now) 0 ?s3 = Inr (y, t)" "step_ok now ?s3 (Inr t)" by blast
    have safe_t: "safe now s (Inr t)"
      using safe_trans [OF safe_trans [OF safe_trans [OF safe1 s2] step_safe [OF s3]] step_safe [OF t(2)]] .
    note okt = safe_ok [OF safe_t]
    let ?fin = "if p_daddr p = a_index t then Inr (emit (Freed p) t)
       else case rt_lookup (p_daddr p) (a_rtable t) of
         Some rt0 \<Rightarrow> if \<not> no_route rt0 then
             bind_err (assert_that (rt_flags rt0 = RTF_UP) t) (\<lambda>s.
             bind_err (forward (Some (p_daddr p))
                 (p\<lparr>p_body := RREP (rp\<lparr>rp_hop_count := rp_hop_count rp + 1, rp_src := a_index s\<rparr>)\<rparr>) NO_DELAY now s)
               (\<lambda>s. Inr (set_rt ?d (pc_insert (rt_nexthop rt0)) s)))
           else Inr (emit (Dropped p DROP_RTR_NO_ROUTE) t)
       | None \<Rightarrow> Inr (emit (Dropped p DROP_RTR_NO_ROUTE) t)"
    have idt: "a_index t = a_index s" using safe_t by (simp add: safe_def)
    have "recvReply rp p now s = ?fin"
    proof (cases "p_daddr p = a_index s")
      case True
      with \<open>reply_fresher rp rt\<close> s1(1,3) t(1) hop idx idt show ?thesis
        by (simp add: recvReply_def Let_def with_rt_def del: bind_err_Inr)
    next
      case False
      with \<open>reply_fresher rp rt\<close> s1(1,3) t(1) hop idx idt show ?thesis
        by (simp add: recvReply_def Let_def with_rt_def del: bind_err_Inr)
    qed
    moreover have "safe now t ?fin"
    proof (cases "rt_lookup (p_daddr p) (a_rtable t)")
      case None
      with okt show ?thesis by (simp add: safe_emit safe_id)
    next
      case (Some rt0)
      show ?thesis
      proof (cases "no_route rt0 \<or> p_daddr p = a_index t")
        case True
        with Some okt show ?thesis by (auto intro: safe_emit safe_id)
      next
        case False
        then have "rt_flags rt0 = RTF_UP" using route_ok_up [OF aodv_ok_lookup [OF okt Some]] by simp
        then have "up_to (p_daddr p) t" using Some by (simp add: up_to_def)
        from forward_up [OF okt this, of "p\<lparr>p_body := RREP (rp\<lparr>rp_hop_count := rp_hop_count rp + 1, rp_src := a_index t\<rparr>)\<rparr>" NO_DELAY now]
          wf(2) obtain u where u: "forward (Some (p_daddr p))
            (p\<lparr>p_body := RREP (rp\<lparr>rp_hop_count := rp_hop_count rp + 1, rp_src := a_index t\<rparr>)\<rparr>) NO_DELAY now t = Inr u"
          "step_ok now t (Inr u)" by auto
        with False Some \<open>rt_flags rt0 = RTF_UP\<close> safe_trans [OF step_safe [OF u(2)] pc_insert_ok]
        show ?thesis using safe_ok [OF step_safe [OF u(2)]] by simp
      qed
    qed
    ultimately show ?thesis using safe_trans [OF safe_t] by simp
  qed
qed

end
