(* ===== verification/AodvAgentSafe.thy ===== *)
theory AodvAgentSafe
  imports AodvSafe
begin

text \<open>
  The remaining handlers of the agent, and with them every call the simulator makes: from a
  state with the invariant of AodvInv they end in no error and keep the invariant.
\<close>

section \<open>Route errors and hello messages\<close>

lemma rt_down_ok: "route_ok rt \<Longrightarrow> route_ok (rt_down (rt\<lparr>rt_seqno := n\<rparr>))"
  "clock T now \<Longrightarrow> expire_ok T now rt \<Longrightarrow> expire_ok T now (rt_down (rt\<lparr>rt_seqno := n\<rparr>))"
  "rt_dst (rt_down rt) = rt_dst rt"
  by (auto simp: rt_down_def route_ok_def no_route_def expire_ok_def split: rt_flags.splits dest!: clock_expire(1))

lemma set_down_ok:
  assumes "aodv_ok s"
  shows "safe now s (Inr (set_rt d (\<lambda>rt. rt_down (rt\<lparr>rt_seqno := n\<rparr>)) s))"
  by (rule safe_set [OF assms]) (use rt_down_ok aodv_ok_lookup [OF assms] in auto)

lemma ifq_drop_safe: "safe now s (Inr t) \<Longrightarrow> safe now s (Inr (ifq_drop_all a t))"
proof (induction a t rule: ifq_drop_all.induct)
  case (1 a t)
  obtain r ps where f: "ifq_filter a (a_ifq t) = (r, ps)" by (metis surj_pair)
  show ?case
  proof (cases r)
    case None
    with 1 f show ?thesis by (simp add: ifq_drop_all.simps [of a t])
  next
    case (Some p)
    have "safe now s (Inr (emit (Dropped p DROP_RTR_MAC_CALLBACK) (t\<lparr>a_ifq := ps\<rparr>)))"
      using "1.prems" by (intro safe_emit) (auto simp: safe_def timely_def)
    with 1(1) [OF f [symmetric] Some] f Some show ?thesis by (simp add: ifq_drop_all.simps [of a t])
  qed
qed

lemma ifq_drop_table [simp]: "a_rtable (ifq_drop_all a s) = a_rtable s"
proof (induction a s rule: ifq_drop_all.induct)
  case (1 a s)
  then show ?case
    by (subst ifq_drop_all.simps) (auto simp: emit_def split: prod.split option.split)
qed

lemma recv_error_loop_ok:
  "aodv_ok s \<Longrightarrow> length nre + length es \<le> AODV_MAX_ERRORS \<Longrightarrow>
    \<exists>m t. recv_error_loop from es nre s = Inr (m, t) \<and> safe now s (Inr t)"
proof (induction es arbitrary: nre s)
  case Nil
  then show ?case by (simp add: safe_id)
next
  case (Cons e es)
  obtain d n where e: "e = (d, n)" by (cases e) auto
  have skip: ?case if "recv_error_loop from (e # es) nre s = recv_error_loop from es nre s"
    using Cons.IH [OF Cons.prems(1), of nre] Cons.prems(2) that by simp
  show ?case
  proof (cases "rt_lookup d (a_rtable s)")
    case None
    with e show ?thesis by (intro skip) simp
  next
    case (Some rt)
    show ?thesis
    proof (cases "\<not> no_route rt \<and> rt_nexthop rt = from \<and> rt_seqno rt \<le> n")
      case False
      with Some e show ?thesis by (intro skip) auto
    next
      case True
      then have up: "rt_flags rt = RTF_UP" "even (rt_seqno rt)"
        using route_ok_up [OF aodv_ok_lookup [OF Cons.prems(1) Some]] by auto
      let ?s = "ifq_drop_all from (set_rt d (\<lambda>rt. rt_down (rt\<lparr>rt_seqno := n\<rparr>)) s)"
      have s: "safe now s (Inr ?s)" by (rule ifq_drop_safe [OF set_down_ok [OF Cons.prems(1)]])
      show ?thesis
      proof (cases "pc_empty rt")
        case True
        from Cons.IH [OF safe_ok [OF s], of nre] Cons.prems(2) obtain m t where
          t: "recv_error_loop from es nre ?s = Inr (m, t)" "safe now ?s (Inr t)" by auto
        with safe_trans [OF s t(2)] e Some \<open>\<not> no_route rt \<and> _\<close> up True show ?thesis by simp
      next
        case False
        let ?u = "set_rt d pc_delete_all ?s"
        have "safe now ?s (Inr ?u)"
          by (rule step_safe [OF set_rt_step [OF safe_ok [OF s]]]) (simp_all add: pc_delete_all_def expire_ok_def)
        then have u: "safe now s (Inr ?u)" by (rule safe_trans [OF s])
        have add: "rerr_add d n nre = Inr (nre @ [(d, n)])" using Cons.prems(2) by (simp add: rerr_add_def)
        from Cons.IH [OF safe_ok [OF u], of "nre @ [(d, n)]"] Cons.prems(2) obtain m t where
          t: "recv_error_loop from es (nre @ [(d, n)]) ?u = Inr (m, t)" "safe now ?u (Inr t)" by auto
        with safe_trans [OF u t(2)] e Some \<open>\<not> no_route rt \<and> _\<close> up False add show ?thesis by simp
      qed
    qed
  qed
qed

lemma sendError_safe: "safe now s (Inr t) \<Longrightarrow> safe now s (Inr (sendError es j t))"
  using safe_trans [OF _ step_safe [OF sendError_ok [OF step_ok_id]]] safe_ok by blast

lemma recvError_ok:
  assumes "aodv_ok s" "length es \<le> AODV_MAX_ERRORS"
  shows "safe now s (recvError es p s)"
proof -
  from recv_error_loop_ok [OF assms(1), of "[]" es "p_saddr p" now] assms(2) obtain m t where
    t: "recv_error_loop (p_saddr p) es [] s = Inr (m, t)" "safe now s (Inr t)" by auto
  with sendError_safe [OF t(2)] show ?thesis by (simp add: recvError_def safe_emit)
qed

lemma nb_insert_ok: "aodv_ok s \<Longrightarrow> safe now s (nb_insert a now s)"
  by (auto simp: nb_insert_def assert_that_def safe_def aodv_ok_def timely_def)

lemma safe_nb: "aodv_ok s \<Longrightarrow> safe now s (Inr (s\<lparr>a_nb := l\<rparr>))"
  by (simp add: safe_def)

lemma recvHello_ok: "aodv_ok s \<Longrightarrow> safe now s (recvHello rp p now s)"
  unfolding recvHello_def
  by (rule safe_bind) (auto intro: safe_emit safe_id nb_insert_ok safe_nb split: option.split)

lemma recvAODV_ok:
  assumes "aodv_ok s" "timely T now s" "recent T now" "wf_packet p" "p_ptype p = PT_AODV"
  shows "safe now s (recvAODV p now s)"
  using assms recvRequest_ok [OF assms(1,2,3), of _ p] recvReply_ok [OF assms(1), of _ p now]
    recvError_ok [OF assms(1), of _ now p] recvHello_ok [OF assms(1), of now]
  by (auto simp: recvAODV_def wf_packet_def split: aodv_body.splits)

section \<open>Data packets\<close>

lemma rt_resolve_ok:
  assumes ok: "aodv_ok s" and b: "p_daddr p \<noteq> IP_BROADCAST"
  shows "safe now s (rt_resolve p now s)"
proof -
  let ?p = "p\<lparr>p_xmit_failure := True\<rparr>" and ?d = "p_daddr p"
  from ensure_ok [OF ok, of ?d] obtain t rt where t: "ensure_rt ?d s = Inr t" "step_ok now s (Inr t)"
    "rt_lookup ?d (a_rtable t) = Some rt" by blast
  have okt: "aodv_ok t" using t(2) by (simp add: step_ok_def)
  note route = aodv_ok_lookup [OF okt t(3)]
  have q: "step_ok now t (enque_buffer now ?p t)" by (rule enque_ok [OF okt])
  then obtain u where u: "enque_buffer now ?p t = Inr u" "step_ok now t (Inr u)" "aodv_ok u" by (auto simp: step_ok_def)
  then obtain rt' where "rt_lookup ?d (a_rtable u) = Some rt'" using t(3) by (fastforce simp: step_ok_def)
  note req = safe_trans [OF step_safe [OF u(2)] step_safe [OF sendRequest_ok [OF u(3) this]]]
  have idx: "a_index t = a_index s" using t(2) by (auto simp: step_ok_def)
  let ?r = "if rt_flags rt = RTF_UP then forward (Some ?d) ?p NO_DELAY now t
     else if p_saddr p = a_index s then sendRequest ?d now u
     else Inr (emit (Dropped ?p DROP_RTR_NO_ROUTE) (sendError [(?d, rt_seqno rt)] False t))"
  have "rt_resolve p now s = ?r"
    using t(1,3) route idx u(1)
    by (cases "rt_flags rt") (simp_all add: rt_resolve_def Let_def with_rt_def route_ok_def del: bind_err_Inr)
  moreover have "safe now t (forward (Some ?d) ?p NO_DELAY now t)" if "rt_flags rt = RTF_UP"
    using that t(3) b by (intro step_safe forward_ok [OF okt]) simp
  then have "safe now t ?r" using req sendError_safe [OF safe_id [OF okt]] by (auto intro: safe_emit)
  ultimately show ?thesis using safe_trans [OF step_safe [OF t(2)]] by simp
qed

lemma aodv_recv_ok:
  assumes ok: "aodv_ok s" and "timely T now s" "recent T now" "wf_packet p"
  shows "safe now s (aodv_recv p now s)"
proof -
  have r: "p_daddr q \<noteq> IP_BROADCAST \<Longrightarrow> safe now s (rt_resolve q now s)" for q :: packet
    by (rule rt_resolve_ok [OF ok])
  have f: "p_daddr q = IP_BROADCAST \<Longrightarrow> safe now s (forward None q NO_DELAY now s)" for q :: packet
    by (rule forward_request_ok [OF ok])
  have a: "safe now s (recvAODV (p\<lparr>p_ttl := p_ttl p - 1\<rparr>) now s)" if "p_ptype p = PT_AODV"
    using assms that by (intro recvAODV_ok) (simp_all add: wf_packet_def cong: aodv_body.case_cong)
  show ?thesis
  proof (cases "p_ptype p = PT_AODV")
    case True
    then have "aodv_recv p now s = recvAODV (p\<lparr>p_ttl := p_ttl p - 1\<rparr>) now s" by (simp add: aodv_recv_def)
    with a True show ?thesis by simp
  next
    case False
    with ok show ?thesis unfolding aodv_recv_def Let_def by (auto intro: safe_emit safe_id r f)
  qed
qed

section \<open>Broken links\<close>

lemma pc_delete_frame [simp]: "route_ok (pc_delete a r) = route_ok r" "expire_ok T now (pc_delete a r) = expire_ok T now r"
  "rt_dst (pc_delete a r) = rt_dst r"
  by (simp_all add: pc_delete_def route_ok_def no_route_def expire_ok_def cong: rt_flags.case_cong)

definition entries_kept :: "real \<Rightarrow> rt_entry list \<Rightarrow> rt_entry list \<Rightarrow> bool" where
  "entries_kept now ts us \<longleftrightarrow> map rt_dst us = map rt_dst ts \<and> (\<forall>rt\<in>set us. route_ok rt) \<and>
     (\<forall>T. clock T now \<longrightarrow> (\<forall>rt\<in>set ts. expire_ok T now rt) \<longrightarrow> (\<forall>rt\<in>set us. expire_ok T now rt))"

lemma entries_kept_Cons:
  assumes "entries_kept now ts us" "route_ok r" "rt_dst r = rt_dst rt"
    "\<And>T. clock T now \<Longrightarrow> expire_ok T now rt \<Longrightarrow> expire_ok T now r"
  shows "entries_kept now (rt # ts) (pc_delete a r # us)"
  using assms by (simp add: entries_kept_def)

lemma link_failure_loop_ok:
  "\<forall>rt\<in>set ts. route_ok rt \<Longrightarrow> length es + length ts \<le> AODV_MAX_ERRORS \<Longrightarrow>
    \<exists>us fs. link_failure_loop a ts es = Inr (us, fs) \<and> entries_kept now ts us"
proof (induction ts arbitrary: es)
  case Nil
  then show ?case by (simp add: entries_kept_def)
next
  case (Cons rt ts)
  have rest: "\<forall>rt\<in>set ts. route_ok rt" and rt: "route_ok rt" using Cons.prems(1) by simp_all
  show ?case
  proof (cases "\<not> no_route rt \<and> rt_nexthop rt = a")
    case False
    have "length es + length ts \<le> AODV_MAX_ERRORS" using Cons.prems(2) by simp
    from Cons.IH [OF rest this] obtain us fs where
      "link_failure_loop a ts es = Inr (us, fs)" "entries_kept now ts us" by blast
    with False entries_kept_Cons [OF this(2) rt, of rt] show ?thesis by auto
  next
    case True
    then have up: "rt_flags rt = RTF_UP" "even (rt_seqno rt)" using route_ok_up [OF rt] by auto
    let ?es = "es @ [(rt_dst rt, rt_seqno rt + 1)]"
    have add: "rerr_add (rt_dst rt) (rt_seqno rt + 1) es = Inr ?es" using Cons.prems(2) by (simp add: rerr_add_def)
    have "length ?es + length ts \<le> AODV_MAX_ERRORS" using Cons.prems(2) by simp
    from Cons.IH [OF rest this] obtain us fs where
      u: "link_failure_loop a ts ?es = Inr (us, fs)" "entries_kept now ts us" by blast
    have "entries_kept now (rt # ts) (pc_delete a (rt_down (rt\<lparr>rt_seqno := rt_seqno rt + 1\<rparr>)) # us)"
      by (rule entries_kept_Cons [OF u(2)]) (use rt_down_ok rt in simp_all)
    with True up add u(1) show ?thesis by simp
  qed
qed

text \<open>The destinations in the table are those before.\<close>

definition same_dsts :: "aodv \<Rightarrow> aodv \<Rightarrow> bool" where
  "same_dsts s t \<longleftrightarrow> map rt_dst (a_rtable t) = map rt_dst (a_rtable s)"

lemma same_dsts_length: "same_dsts s t \<Longrightarrow> length (a_rtable t) = length (a_rtable s)"
  unfolding same_dsts_def by (metis length_map)

lemma handle_link_failure_ok:
  assumes ok: "aodv_ok s" and len: "length (a_rtable s) \<le> AODV_MAX_ERRORS"
  shows "\<exists>t. handle_link_failure a s = Inr t \<and> safe now s (Inr t) \<and> same_dsts s t"
proof -
  from link_failure_loop_ok [of "a_rtable s" "[]" a now] ok len obtain us fs where
    u: "link_failure_loop a (a_rtable s) [] = Inr (us, fs)" "entries_kept now (a_rtable s) us"
    by (auto simp: aodv_ok_def)
  then have t: "safe now s (Inr (s\<lparr>a_rtable := us\<rparr>))"
    using ok by (simp add: safe_def aodv_ok_def timely_def rt_ok_def entries_kept_def)
  have "a_rtable (sendError fs False (s\<lparr>a_rtable := us\<rparr>)) = us" by (simp add: sendError_def Let_def emit_def)
  with u t sendError_safe [OF t] show ?thesis
    by (simp add: handle_link_failure_def Let_def same_dsts_def entries_kept_def)
qed

lemma nb_delete_ok:
  assumes ok: "aodv_ok s" and len: "length (a_rtable s) \<le> AODV_MAX_ERRORS"
  shows "\<exists>t. nb_delete a s = Inr t \<and> safe now s (Inr t) \<and> same_dsts s t"
proof -
  let ?s = "s\<lparr>a_seqno := a_seqno s + 2, a_nb := nb_remove a (a_nb s)\<rparr>"
  have even: "even (a_seqno s + 2)" using ok by (simp add: aodv_ok_def)
  then have s: "safe now s (Inr ?s)" using ok by (auto simp: safe_def aodv_ok_def timely_def)
  from handle_link_failure_ok [OF safe_ok [OF s], of a now] len obtain t where
    t: "handle_link_failure a ?s = Inr t" "safe now ?s (Inr t)" "same_dsts ?s t" by auto
  with safe_trans [OF s t(2)] even show ?thesis by (simp add: nb_delete_def same_dsts_def)
qed

lemma nb_purge_loop_ok:
  "aodv_ok s \<Longrightarrow> length (a_rtable s) \<le> AODV_MAX_ERRORS \<Longrightarrow> safe now s (nb_purge_loop now nbs s)"
proof (induction nbs arbitrary: s)
  case (Cons nb nbs)
  show ?case
  proof (cases "nb_expire nb \<le> now")
    case True
    from nb_delete_ok [OF Cons.prems, of "nb_addr nb" now] obtain t where
      t: "nb_delete (nb_addr nb) s = Inr t" "safe now s (Inr t)" "same_dsts s t" by blast
    with safe_trans [OF t(2) Cons.IH [OF safe_ok [OF t(2)]]] True Cons.prems(2) same_dsts_length [OF t(3)]
    show ?thesis by simp
  qed (use Cons in simp)
qed (simp add: safe_id)

lemma rt_ll_failed_ok:
  assumes ok: "aodv_ok s" and "length (a_rtable s) \<le> AODV_MAX_ERRORS"
    and "\<And>rt. rt_lookup (p_daddr p) (a_rtable s) = Some rt \<Longrightarrow> p_num_forwards p \<le> int (unat (rt_hops rt))"
  shows "safe now s (rt_ll_failed p now s)"
proof -
  let ?s = "ifq_drop_all (p_next_hop p) (emit (Dropped p DROP_RTR_MAC_CALLBACK) s)"
  have s: "safe now s (Inr ?s)" using ok by (intro ifq_drop_safe safe_emit safe_id)
  have "a_rtable ?s = a_rtable s" by (simp add: emit_def)
  with nb_delete_ok [OF safe_ok [OF s], of "p_next_hop p" now] assms(2) obtain t where
    "nb_delete (p_next_hop p) ?s = Inr t" "safe now ?s (Inr t)" by auto
  with safe_trans [OF s this(2)] assms(3) ok show ?thesis
    by (force simp: rt_ll_failed_def intro: safe_emit safe_id split: option.split)
qed

section \<open>The timers\<close>

lemma step_found: "step_ok now s (Inr t) \<Longrightarrow> rt_lookup d (a_rtable s) \<noteq> None \<Longrightarrow> rt_lookup d (a_rtable t) \<noteq> None"
  by (fastforce simp: step_ok_def)

text \<open>The loop looks at every route: those still up do not expire before now.\<close>

definition looked_at :: "int set \<Rightarrow> real \<Rightarrow> (int \<Rightarrow> real) \<Rightarrow> int \<Rightarrow> real" where
  "looked_at D now T d = (if d \<in> D then now else T d)"

lemma looked_at_Cons: "looked_at (set (d # ds)) now T = looked_at (set ds) now (T(d := now))"
  by (auto simp: looked_at_def)

lemma timely_looked:
  assumes "timely T now s" "\<And>rt. rt_lookup d (a_rtable s) = Some rt \<Longrightarrow> rt_flags rt = RTF_UP \<Longrightarrow> now \<le> rt_expire rt"
    "rt_ok (a_rtable s)"
  shows "timely (T(d := now)) now s"
  using assms rt_lookup_mem by (auto simp: timely_def expire_ok_def clock_def)

definition purged :: "real \<Rightarrow> int list \<Rightarrow> aodv \<Rightarrow> aodv_error + aodv \<Rightarrow> bool" where
  "purged now ds s r \<longleftrightarrow> (\<exists>t. r = Inr t \<and> safe now s (Inr t) \<and>
     (\<forall>T. timely T now s \<longrightarrow> timely (looked_at (set ds) now T) now t))"

lemma purged_step:
  assumes t: "safe now s (Inr t)" "purged now ds t r"
    and up: "\<And>T. timely T now s \<Longrightarrow> timely (T(d := now)) now t"
  shows "purged now (d # ds) s r"
proof -
  from t(2) obtain u where u: "r = Inr u" "safe now t (Inr u)"
    "\<And>T. timely T now t \<Longrightarrow> timely (looked_at (set ds) now T) now u" by (auto simp: purged_def)
  then show ?thesis
    using safe_trans [OF t(1) u(2)] up u(3) unfolding purged_def looked_at_Cons by blast
qed

lemma rt_purge_loop_ok:
  "aodv_ok s \<Longrightarrow> \<forall>d\<in>set ds. rt_lookup d (a_rtable s) \<noteq> None \<Longrightarrow> purged now ds s (rt_purge_loop now ds delay s)"
proof (induction ds arbitrary: delay s)
  case Nil
  then show ?case by (simp add: purged_def safe_id looked_at_def [abs_def])
next
  case (Cons d ds)
  then obtain rt where rt: "rt_lookup d (a_rtable s) = Some rt" by auto
  have tab: "rt_ok (a_rtable s)" using Cons.prems(1) by (simp add: aodv_ok_def)
  have more: "purged now (d # ds) s (rt_purge_loop now ds x t)"
    if "safe now s (Inr t)" "\<And>d. rt_lookup d (a_rtable s) \<noteq> None \<Longrightarrow> rt_lookup d (a_rtable t) \<noteq> None"
      "\<And>T. timely T now s \<Longrightarrow> timely (T(d := now)) now t" for x t
    using that Cons.prems(2) by (intro purged_step [OF that(1) _ that(3)] Cons.IH safe_ok [OF that(1)]) auto
  have step: "purged now (d # ds) s (rt_purge_loop now ds x t)"
    if t: "step_ok now s (Inr t)" and l: "rt_flags rt = RTF_UP \<Longrightarrow> now \<le> rt_expire rt" for x t
  proof (rule more [OF step_safe [OF t] step_found [OF t]])
    fix T assume "timely T now s"
    then have "timely (T(d := now)) now s" by (rule timely_looked) (use rt l tab in auto)
    with t show "timely (T(d := now)) now t" by (auto simp: step_ok_def)
  qed
  note route = aodv_ok_lookup [OF Cons.prems(1) rt]
  consider (expired) "rt_flags rt = RTF_UP" "rt_expire rt < now" | (up) "rt_flags rt = RTF_UP" "\<not> rt_expire rt < now"
    | (request) "rt_flags rt \<noteq> RTF_UP" "rq_find d (a_rqueue s)" | (down) "rt_flags rt \<noteq> RTF_UP" "\<not> rq_find d (a_rqueue s)"
    by blast
  then show ?case
  proof cases
    case expired
    with route have r: "\<not> no_route rt" "odd (rt_seqno rt + 1)" by (auto simp: route_ok_def)
    from drop_no_route_ok [OF Cons.prems(1), of now d "()"] obtain t where
      t: "drain now d drop_no_route () s = Inr ((), t)" "step_ok now s (Inr t)" by auto
    let ?t = "set_rt d (\<lambda>r. rt_down (r\<lparr>rt_seqno := rt_seqno r + 1\<rparr>)) t"
    have okt: "aodv_ok t" using t(2) by (simp add: step_ok_def)
    have t2: "safe now t (Inr ?t)"
      by (rule safe_set [OF okt]) (use rt_down_ok aodv_ok_lookup [OF okt] in auto)
    have "rt_lookup e (a_rtable s) \<noteq> None \<Longrightarrow> rt_lookup e (a_rtable ?t) \<noteq> None" for e
      using step_found [OF t(2), of e] by (simp add: rt_down_ok(3))
    moreover have "timely (T(d := now)) now ?t" if "timely T now s" for T
    proof (rule timely_looked)
      show "timely T now ?t" using that t(2) t2 by (auto simp: step_ok_def safe_def)
      show "rt_ok (a_rtable ?t)" using safe_ok [OF t2] by (simp add: aodv_ok_def)
      fix q assume "rt_lookup d (a_rtable ?t) = Some q" "rt_flags q = RTF_UP"
      then show "now \<le> rt_expire q" by (auto simp: rt_down_ok(3)) (auto simp: rt_down_def split: if_splits)
    qed
    ultimately show ?thesis
      using more [OF safe_trans [OF step_safe [OF t(2)] t2], of delay] expired r rt t(1) by (simp add: with_rt_def)
  next
    case up
    have "up_to d s" using up rt by (simp add: up_to_def)
    moreover have "d \<noteq> IP_BROADCAST" using up route rt_lookup_dst [OF rt] by (simp add: route_ok_def)
    ultimately obtain y t where
      t: "drain now d (forward_delayed d now) delay s = Inr (y, t)" "step_ok now s (Inr t)"
      using delayed_drain_ok [OF Cons.prems(1), of d now delay] by blast
    with step [OF t(2), of y] up rt route show ?thesis by (simp add: with_rt_def route_ok_def)
  next
    case request
    note r = sendRequest_ok [OF Cons.prems(1) rt, of now]
    then obtain t where t: "sendRequest d now s = Inr t" by (auto simp: step_ok_def)
    with step [of t delay] r request rt show ?thesis by (simp add: with_rt_def)
  next
    case down
    with step [OF step_ok_id [OF Cons.prems(1)], of delay] rt show ?thesis by (simp add: with_rt_def)
  qed
qed

lemma btimer_ok: "aodv_ok s \<Longrightarrow> safe now s (btimer_handle now s)"
  by (auto simp: btimer_handle_def safe_def)

lemma rtimer_looked:
  assumes "aodv_ok s"
  shows "\<exists>t. rtimer_handle now s = Inr t \<and> safe now s (Inr t) \<and>
    (\<forall>T. timely T now s \<longrightarrow> timely (looked_at (set (map rt_dst (a_rtable s))) now T) now t)"
proof -
  have "purged now (map rt_dst (a_rtable s)) s (rt_purge now s)"
    unfolding rt_purge_def by (rule rt_purge_loop_ok [OF assms]) (auto simp: rt_lookup_None)
  then show ?thesis by (auto simp: purged_def rtimer_handle_def intro: safe_emit)
qed

lemma rtimer_ok: "aodv_ok s \<Longrightarrow> safe now s (rtimer_handle now s)"
  using rtimer_looked by metis

text \<open>After the route timer, all routes that are up expire later.\<close>

lemma rtimer_timely:
  assumes "aodv_ok s" "timely T now s" "rtimer_handle now s = Inr t"
  shows "timely (\<lambda>_. now) now t"
proof -
  let ?D = "set (map rt_dst (a_rtable s))"
  define U where "U d = (if d \<in> ?D then T d else now)" for d
  have "timely U now s" using assms(2) by (auto simp: timely_def expire_ok_def clock_def U_def)
  with rtimer_looked [OF assms(1), of now] assms(3) have "timely (looked_at ?D now U) now t" by auto
  moreover have "looked_at ?D now U = (\<lambda>_. now)" by (auto simp: looked_at_def U_def)
  ultimately show ?thesis by simp
qed

lemma ntimer_ok:
  assumes "aodv_ok s" "length (a_rtable s) \<le> AODV_MAX_ERRORS"
  shows "safe now s (ntimer_handle now s)"
  unfolding ntimer_handle_def nb_purge_def
  by (intro safe_bind nb_purge_loop_ok [OF assms] safe_emit safe_id)

lemma htimer_ok:
  assumes "aodv_ok s"
  shows "safe now s (htimer_handle s)"
proof -
  have "0 \<le> a_unif s k" for k using assms by (simp add: aodv_ok_def)
  with assms show ?thesis
    by (simp add: htimer_handle_def sendHello_def unif_def Let_def MinHelloInterval_def MaxHelloInterval_def
        HELLO_INTERVAL_def safe_def)
qed

lemma lrtimer_ok:
  assumes ok: "aodv_ok s"
  shows "safe now s (lrtimer_handle p s)"
proof -
  have "safe now s (Inr (set_rt d rt_down s))" for d
  proof (rule safe_set [OF ok])
    fix r assume "rt_lookup d (a_rtable s) = Some r"
    from aodv_ok_lookup [OF ok this] show "route_ok (rt_down r)" using rt_down_ok(1) [of r "rt_seqno r"] by simp
    fix T assume "expire_ok T now r" "clock T now"
    then show "expire_ok T now (rt_down r)" using rt_down_ok(2) [of T now r "rt_seqno r"] by simp
  qed (rule rt_down_ok)
  with ok show ?thesis by (auto simp: lrtimer_handle_def Let_def intro: safe_emit safe_id split: option.split)
qed

section \<open>Every call\<close>

text \<open>
  What a call needs: a well-formed packet, a table that fits into a route error, and for a link
  failure a packet that is not repaired locally.
\<close>

definition call_ok :: "aodv_call \<Rightarrow> aodv \<Rightarrow> bool" where
  "call_ok c s \<longleftrightarrow> (case c of
     Recv p \<Rightarrow> wf_packet p
   | LinkFailed p \<Rightarrow> length (a_rtable s) \<le> AODV_MAX_ERRORS \<and>
       (case rt_lookup (p_daddr p) (a_rtable s) of
          Some rt \<Rightarrow> p_num_forwards p \<le> int (unat (rt_hops rt)) | None \<Rightarrow> True)
   | NeighborTick \<Rightarrow> length (a_rtable s) \<le> AODV_MAX_ERRORS
   | _ \<Rightarrow> True)"

lemma step_safe_ok:
  assumes "aodv_ok s" "timely T now s" "recent T now" "call_ok c s"
  shows "safe now s (aodv_step c now s)"
proof (cases c)
  case (LinkFailed p)
  with assms show ?thesis by (auto simp: call_ok_def intro!: rt_ll_failed_ok split: option.splits)
qed (use assms aodv_recv_ok btimer_ok rtimer_ok ntimer_ok htimer_ok lrtimer_ok in \<open>auto simp: call_ok_def\<close>)

section \<open>Runs\<close>

text \<open>
  An agent that is started and called, \<open>agent T t s\<close>: \<open>T\<close> is the time of the last tick of the
  route timer and \<open>t\<close> the time of the last call.  The route timer ticks at least once a second
  (it is set every \<open>FREQUENCY\<close>, half a second).
\<close>

inductive agent :: "real \<Rightarrow> real \<Rightarrow> aodv \<Rightarrow> bool" where
  start: "0 \<le> now \<Longrightarrow> \<forall>k. 0 \<le> u k \<Longrightarrow> aodv_start now (aodv_new i u) = Inr s \<Longrightarrow> agent now now s"
| call: "agent T t s \<Longrightarrow> t \<le> now \<Longrightarrow> now < T + 1 \<Longrightarrow> call_ok c s \<Longrightarrow> aodv_step c now s = Inr s' \<Longrightarrow>
    agent (if c = RouteTick then now else T) now s'"

inductive_cases agentE: "agent T t s"

lemma start_ok: "aodv_ok s \<Longrightarrow> safe now s (aodv_start now s)"
  unfolding aodv_start_def by (rule safe_bind [OF btimer_ok]) (auto intro: rtimer_ok)

lemma start_inv:
  assumes "0 \<le> now" "\<forall>k. 0 \<le> u k" "aodv_start now (aodv_new i u) = Inr s"
  shows "aodv_ok s \<and> timely (\<lambda>_. now) now s"
proof -
  have "aodv_ok (aodv_new i u)" "timely (\<lambda>_. now) now (aodv_new i u)"
    using assms aodv_ok_new by (auto simp: timely_def clock_def aodv_new_def)
  with start_ok [of "aodv_new i u" now] assms(3) show ?thesis by (auto simp: safe_def)
qed

lemma timely_later:
  assumes "timely T t s" "t \<le> now"
  shows "timely T now s"
proof -
  have "rt_expire rt < t + 2 ^ 31 \<Longrightarrow> rt_expire rt < now + 2 ^ 31" for rt :: rt_entry using assms(2) by linarith
  moreover have "clock T t \<Longrightarrow> clock T now" using assms(2) by (meson clock_def order_trans)
  ultimately show ?thesis using assms(1) unfolding timely_def expire_ok_def by blast
qed

lemma agent_inv: "agent T t s \<Longrightarrow> aodv_ok s \<and> timely (\<lambda>_. T) t s"
proof (induction rule: agent.induct)
  case (start now u i s)
  then show ?case by (rule start_inv)
next
  case (call T t s now c s')
  have later: "timely (\<lambda>_. T) now s" using call.IH call.hyps(2) by (blast intro: timely_later)
  moreover have "recent (\<lambda>_. T) now" using call.hyps(3) by (simp add: recent_def)
  ultimately have "safe now s (Inr s')" using step_safe_ok call by metis
  with later call.IH rtimer_timely [of s "\<lambda>_. T" now s'] call.hyps(5) show ?case
    by (auto simp: safe_def)
qed

lemma agent_step:
  assumes "agent T t s" "t \<le> now" "now < T + 1" "call_ok c s"
  shows "\<exists>s'. aodv_step c now s = Inr s' \<and> agent (if c = RouteTick then now else T) now s'"
proof -
  have "timely (\<lambda>_. T) now s" "recent (\<lambda>_. T) now"
    using agent_inv [OF assms(1)] timely_later assms(2,3) by (auto simp: recent_def)
  from step_safe_ok [OF conjunct1 [OF agent_inv [OF assms(1)]] this assms(4)]
  obtain s' where "aodv_step c now s = Inr s'" by (auto simp: safe_def)
  with agent.call [OF assms this] show ?thesis by blast
qed

end
