(* ===== verification/AodvProps.thy ===== *)
theory AodvProps
  imports AodvAgentSafe
begin

text \<open>
  What the AODV agent promises: it runs without failing, its routes only get better, requests are
  handled once, and what its buffer and its table keep.  The last section holds what its local
  repair does not keep.
\<close>

section \<open>A run never fails\<close>

text \<open>C3. An agent that was started, whose route timer ticked within the last second and which is
  called with a well-formed packet, a timer, or a link failure it does not repair locally, fails no
  assertion and does nothing undefined: the call ends in a state in which the same holds again.\<close>

theorem agent_never_fails:
  assumes "agent T t s" "t \<le> now" "now < T + 1" "call_ok c s"
  shows "\<exists>s'. aodv_step c now s = Inr s' \<and> agent (if c = RouteTick then now else T) now s' \<and> aodv_ok s'"
proof -
  from agent_step [OF assms] obtain s' where
    "aodv_step c now s = Inr s'" "agent (if c = RouteTick then now else T) now s'" by blast
  with agent_inv [OF this(2)] show ?thesis by blast
qed

text \<open>An agent just started.\<close>

definition started :: aodv where
  "started = (aodv_new 0 (\<lambda>_. 0))\<lparr>a_out := [TimerSet BroadcastTimer BCAST_ID_SAVE, TimerSet RouteCacheTimer FREQUENCY]\<rparr>"

lemma started_agent: "agent 0 0 started"
  by (rule agent.start [of 0 "\<lambda>_. 0" 0])
    (simp_all add: started_def aodv_start_def btimer_handle_def rtimer_handle_def rt_purge_def aodv_new_def emit_def)

lemma agent_never_fails_witness:
  "\<exists>s'. aodv_step (Recv (packet_alloc\<lparr>p_saddr := 0, p_daddr := 1\<rparr>)) (1 / 2) started = Inr s' \<and> agent 0 (1 / 2) s' \<and> aodv_ok s'"
proof -
  have "call_ok (Recv (packet_alloc\<lparr>p_saddr := 0, p_daddr := 1\<rparr>)) started"
    by (simp add: call_ok_def wf_packet_def packet_alloc_def PT_AODV_def)
  from agent_never_fails [OF started_agent _ _ this, of "1 / 2"] show ?thesis by simp
qed

section \<open>Routes\<close>

text \<open>C14. A route request and a route reply keep every route or replace it by a better one: one
  with a larger sequence number, or with the same and no more hops.\<close>

theorem routes_improve:
  assumes "recvRequest rq p now s = Inr s' \<or> recvReply rp p now s = Inr s'" "rt_lookup d (a_rtable s) = Some r"
  shows "\<exists>r'. rt_lookup d (a_rtable s') = Some r' \<and>
    (rt_seqno r < rt_seqno r' \<or> rt_seqno r = rt_seqno r' \<and> rt_hops r' \<le> rt_hops r)"
proof -
  from assms(1) have "routes better s s'" using recvRequest_routes recvReply_routes by blast
  with assms(2) show ?thesis by (simp add: routes_def better_def)
qed

definition one_route :: aodv where
  "one_route = started\<lparr>a_rtable := [aodv_rt_entry\<lparr>rt_dst := 1, rt_seqno := 4, rt_hops := 3, rt_nexthop := 2,
     rt_flags := RTF_UP, rt_expire := 10\<rparr>]\<rparr>"

lemma request_not_fresher:
  "recvRequest \<lparr>rq_hop_count = 3, rq_bcast_id = 1, rq_dst = 0, rq_dst_seqno = 0, rq_src = 1, rq_src_seqno = 4, rq_timestamp = 0\<rparr>
      packet_alloc 1 one_route =
    Inr (one_route\<lparr>a_bcast := [\<lparr>b_src = 1, b_id = 1, b_expire = 7\<rparr>], a_seqno := 4,
      a_out := a_out one_route @
        [Sent (packet_alloc\<lparr>p_ptype := PT_AODV, p_size := 44, p_iface := - 2, p_addr_type := NS_AF_INET, p_next_hop := 2,
            p_daddr := 1, p_sport := 255, p_dport := 255, p_ttl := 30,
            p_body := RREP \<lparr>rp_hop_count = 1, rp_dst = 0, rp_dst_seqno = 4, rp_src = 0, rp_lifetime = 10, rp_timestamp = 0\<rparr>\<rparr>) 0,
         Freed packet_alloc]\<rparr>)"
  by (simp add: recvRequest_def one_route_def started_def aodv_new_def id_insert_def id_lookup_def BCAST_ID_SAVE_def
      reverse_route_def ensure_rt_def set_rt_def with_rt_def reverse_fresher_def REV_ROUTE_LIFE_def aodv_rt_entry_def
      answer_request_def Let_def sendReply_def emit_def packet_alloc_def MY_ROUTE_TIMEOUT_def IP_HDR_LEN_def
      rrep_size_def RT_PORT_def NETWORK_DIAMETER_def)

lemma routes_improve_witness:
  "\<exists>s' r'. recvRequest \<lparr>rq_hop_count = 3, rq_bcast_id = 1, rq_dst = 0, rq_dst_seqno = 0, rq_src = 1, rq_src_seqno = 4,
      rq_timestamp = 0\<rparr> packet_alloc 1 one_route = Inr s' \<and> rt_lookup 1 (a_rtable s') = Some r' \<and> (4 < rt_seqno r' \<or> 4 = rt_seqno r' \<and> rt_hops r' \<le> 3)"
proof -
  have "rt_lookup 1 (a_rtable one_route) = Some (hd (a_rtable one_route))" by (simp add: one_route_def)
  from routes_improve [OF disjI1 [OF request_not_fresher] this] request_not_fresher show ?thesis
    by (auto simp: one_route_def)
qed

text \<open>C32. No call to the agent takes a route out of the table or lowers its sequence number.\<close>

theorem sequence_numbers_grow:
  assumes "aodv_step c now s = Inr s'" "rt_lookup d (a_rtable s) = Some r"
  shows "\<exists>r'. rt_lookup d (a_rtable s') = Some r' \<and> rt_seqno r \<le> rt_seqno r'"
  using aodv_step_routes [OF assms(1)] assms(2) by (simp add: routes_def fresher_def)

lemma route_tick_expires:
  "aodv_step RouteTick 11 one_route = Inr (one_route\<lparr>a_rtable := [aodv_rt_entry\<lparr>rt_dst := 1, rt_seqno := 5,
     rt_last_hop_count := 3\<rparr>], a_out := a_out one_route @ [TimerSet RouteCacheTimer FREQUENCY]\<rparr>)"
  by (simp add: rtimer_handle_def rt_purge_def one_route_def started_def aodv_new_def with_rt_def no_route_def drain_def
      rq_deque_dst_def rq_purge.simps findAgedPacket_def findPacketWithDst_def rq_split_def aodv_rqueue_def
      aodv_rt_entry_def set_rt_def rt_down_def emit_def Let_def INFINITY2_def)

lemma sequence_numbers_grow_witness:
  "\<exists>s' r'. aodv_step RouteTick 11 one_route = Inr s' \<and> rt_lookup 1 (a_rtable s') = Some r' \<and> 4 \<le> rt_seqno r'"
proof -
  have "rt_lookup 1 (a_rtable one_route) = Some (hd (a_rtable one_route))" by (simp add: one_route_def)
  from sequence_numbers_grow [OF route_tick_expires this] route_tick_expires show ?thesis
    by (auto simp: one_route_def)
qed

section \<open>Requests\<close>

text \<open>The cache of request ids changes in \<open>recvRequest\<close> itself only.\<close>

definition same_ids :: "aodv \<Rightarrow> aodv \<Rightarrow> bool" where
  "same_ids s t \<longleftrightarrow> a_bcast t = a_bcast s \<and> a_index t = a_index s"

lemma same_ids_simps [simp]: "same_ids s s" "same_ids s (emit x t) = same_ids s t" "same_ids s (set_rt d f t) = same_ids s t"
  "same_ids s (t\<lparr>a_rqueue := q\<rparr>) = same_ids s t" "same_ids s (t\<lparr>a_rtable := ts\<rparr>) = same_ids s t"
  "same_ids s (t\<lparr>a_seqno := w\<rparr>) = same_ids s t" "same_ids s (t\<lparr>a_drawn := n\<rparr>) = same_ids s t"
  by (simp_all add: same_ids_def)








text \<open>The first request for a new destination goes through the whole network: a packet of the
  node itself is buffered and a request with the time to live \<open>NETWORK_DIAMETER\<close> is sent, not one
  with \<open>TTL_START\<close>.\<close>

theorem first_request_floods:
  assumes ok: "aodv_ok s" and new: "rt_lookup (p_daddr p) (a_rtable s) = None"
    and own: "p_saddr p = a_index s" and now: "0 \<le> now"
  shows "\<exists>s' q rq. rt_resolve p now s = Inr s' \<and> last (a_out s') = Sent q 0 \<and> p_body q = RREQ rq \<and>
    rq_dst rq = p_daddr p \<and> p_ttl q = NETWORK_DIAMETER"
proof -
  let ?p = "p\<lparr>p_xmit_failure := True\<rparr>" and ?d = "p_daddr p"
  let ?t = "s\<lparr>a_rtable := aodv_rt_entry\<lparr>rt_dst := ?d\<rparr> # a_rtable s\<rparr>"
  have t: "ensure_rt ?d s = Inr ?t" using new by (simp add: ensure_rt_def rt_add_def)
  then have "aodv_ok ?t" using ensure_ok [OF ok, of ?d now] by (auto simp: step_ok_def)
  from enque_ok [OF this, of now ?p] obtain u where u: "enque_buffer now ?p ?t = Inr u" "aodv_ok u" by (auto simp: step_ok_def)
  note v = enque_table [OF u(1)]
  let ?r = "request_timeout now NETWORK_DIAMETER (aodv_rt_entry\<lparr>rt_dst := ?d, rt_req_last_ttl := 255, rt_req_cnt := 1\<rparr>)"
  have "even (a_seqno u + 2)" using u(2) by (simp add: aodv_ok_def)
  then have "\<exists>s' q rq. sendRequest ?d now u = Inr s' \<and> last (a_out s') = Sent q 0 \<and> p_body q = RREQ rq \<and>
      rq_dst rq = ?d \<and> p_ttl q = NETWORK_DIAMETER"
    using v now
    by (simp add: sendRequest_def aodv_rt_entry_def RREQ_RETRIES_def request_ttl_def INFINITY2_def TTL_THRESHOLD_def
        Let_def emit_def)
  moreover have "rt_resolve p now s = sendRequest ?d now u"
    using t u(1) own by (simp add: rt_resolve_def with_rt_def Let_def aodv_rt_entry_def del: bind_err_Inr)
  ultimately show ?thesis by simp
qed

lemma first_request_floods_witness:
  "\<exists>s' q rq. rt_resolve (packet_alloc\<lparr>p_daddr := 5\<rparr>) 3 started = Inr s' \<and> last (a_out s') = Sent q 0 \<and> p_body q = RREQ rq \<and>
    rq_dst rq = 5 \<and> p_ttl q = 30"
  using first_request_floods [of started "packet_alloc\<lparr>p_daddr := 5\<rparr>" 3] agent_inv [OF started_agent]
  by (simp add: started_def aodv_new_def packet_alloc_def NETWORK_DIAMETER_def)

section \<open>The buffer\<close>

text \<open>C34. The buffer is a list: \<open>enque\<close> appends the packet, and drops the oldest one if and only if
  the list would get too long; \<open>deque\<close> takes out the first packet for a destination.  Both lose the packets
  that are too old before, without dropping or returning them.\<close>

theorem buffer_refines_list:
  assumes "rq_ok q"
  shows "(\<exists>q' ds. rq_enque now p q = Inr (ds, q') \<and> rq_ok q' \<and> rq_limit q' = rq_limit q \<and> rq_timeout q' = rq_timeout q \<and>
      map fst ds @ rq_pkts q' = fresh now (rq_pkts q) @ [p\<lparr>p_ts := now + rq_timeout q\<rparr>] \<and>
      p\<lparr>p_ts := now + rq_timeout q\<rparr> \<in> set (rq_pkts q') \<and> length ds \<le> 1 \<and>
      (ds = [] \<longleftrightarrow> int (length (fresh now (rq_pkts q))) < rq_limit q)) \<and>
    (\<exists>q'. rq_deque_dst now d q = Inr (fst (take_dst d (fresh now (rq_pkts q))), q') \<and> rq_ok q' \<and>
      rq_pkts q' = snd (take_dst d (fresh now (rq_pkts q))) \<and> rq_limit q' = rq_limit q \<and> rq_timeout q' = rq_timeout q)"
  by (rule conjI [OF rq_enque_ok [OF assms] rq_deque_dst_ok [OF assms]])

text \<open>A packet buffered at time 0 is gone at time 31, and was not dropped.\<close>

lemma buffer_refines_list_witness:
  "\<exists>q'. rq_enque 31 packet_alloc (aodv_rqueue\<lparr>rq_pkts := [packet_alloc\<lparr>p_ts := 30\<rparr>], rq_len := 1\<rparr>) = Inr ([], q') \<and>
    rq_pkts q' = [packet_alloc\<lparr>p_ts := 31 + rq_timeout aodv_rqueue\<rparr>]"
proof -
  let ?q = "aodv_rqueue\<lparr>rq_pkts := [packet_alloc\<lparr>p_ts := 30\<rparr>], rq_len := 1\<rparr>"
  have "rq_ok ?q" by (simp add: rq_ok_def aodv_rqueue_def)
  from buffer_refines_list [OF this, of 31 packet_alloc 0] obtain q' ds where
    q: "rq_enque 31 packet_alloc ?q = Inr (ds, q')" "packet_alloc\<lparr>p_ts := 31 + rq_timeout ?q\<rparr> \<in> set (rq_pkts q')"
      "map fst ds @ rq_pkts q' = fresh 31 (rq_pkts ?q) @ [packet_alloc\<lparr>p_ts := 31 + rq_timeout ?q\<rparr>]" by blast
  have "fresh 31 (rq_pkts ?q) = []" by (simp add: fresh_def)
  with q(2,3) have "ds = []" by (cases ds) auto
  with q show ?thesis by (simp add: fresh_def)
qed

section \<open>Local repair\<close>

lemma drain_drop_table: "drain_loop n now d drop_no_route x s = Inr (y, t) \<Longrightarrow> a_rtable t = a_rtable s"
proof (induction n arbitrary: x s)
  case (Suc n)
  then obtain r q where q: "rq_deque_dst now d (a_rqueue s) = Inr (r, q)" by auto
  show ?case
  proof (cases r)
    case None
    with q Suc.prems show ?thesis by (auto simp: Let_def)
  next
    case (Some p)
    with q Suc.prems have "drain_loop n now d drop_no_route x (emit (Dropped p DROP_RTR_NO_ROUTE) (s\<lparr>a_rqueue := q\<rparr>)) = Inr (y, t)"
      by (simp add: Let_def drop_no_route_def [of p])
    from Suc.IH [OF this] show ?thesis by simp
  qed
qed simp

lemma PerHopTime_pos: "0 < PerHopTime r"
proof -
  have "0 < sum_list (filter (\<lambda>l. l > 0) ls)" if "filter (\<lambda>l. l > 0) ls \<noteq> []" for ls :: "real list"
  proof -
    have "\<forall>l\<in>set ls'. 0 < l \<Longrightarrow> ls' \<noteq> [] \<Longrightarrow> 0 < sum_list ls'" for ls' :: "real list"
      by (induction ls') (auto intro: add_pos_nonneg sum_list_nonneg less_imp_le)
    with that show ?thesis by auto
  qed
  then show ?thesis by (auto simp: PerHopTime_def NODE_TRAVERSAL_TIME_def Let_def split: option.split)
qed

lemma request_ttl_pos: "request_ttl rt = (ttl, rt') \<Longrightarrow> 0 \<le> rt_last_hop_count rt \<Longrightarrow> 0 < ttl"
  by (auto simp: request_ttl_def Let_def TTL_START_def TTL_INCREMENT_def NETWORK_DIAMETER_def split: if_splits)

lemma request_timeout_later:
  assumes "0 < ttl"
  shows "now < rt_req_timeout (request_timeout now ttl rt)"
proof -
  have "0 < 2 * of_int ttl * PerHopTime (Some (rt\<lparr>rt_req_last_ttl := ttl\<rparr>))"
    using assms PerHopTime_pos by simp
  moreover have "0 < real (unat c)" if "0 < c" for c :: "8 word" using that
    by (metis of_nat_0_less_iff word_less_nat_alt unsigned_0)
  ultimately show ?thesis by (simp add: request_timeout_def Let_def MAX_RREQ_TIMEOUT_def)
qed

text \<open>A request changes when the next one may be sent, and counts.\<close>

lemma sendRequest_entry:
  assumes "sendRequest d now s = Inr t" "rt_lookup d (a_rtable s) = Some rt" "rt_flags rt \<noteq> RTF_UP"
  shows "\<exists>rt'. rt_lookup d (a_rtable t) = Some rt' \<and> rt_flags rt' = rt_flags rt \<and> rt_hops rt' = rt_hops rt \<and>
    rt_nexthop rt' = rt_nexthop rt \<and> (0 \<le> rt_last_hop_count rt \<longrightarrow> now < rt_req_timeout rt')"
proof -
  consider (wait) "rt_req_timeout rt > now" | (give_up) "\<not> rt_req_timeout rt > now" "rt_req_cnt rt > RREQ_RETRIES"
    | (send) "\<not> rt_req_timeout rt > now" "\<not> rt_req_cnt rt > RREQ_RETRIES" by blast
  then show ?thesis
  proof cases
    case wait
    with assms show ?thesis by (auto simp: sendRequest_def)
  next
    case give_up
    with assms obtain x where "drain now (rt_dst rt) drop_no_route ()
        (set_rt d (\<lambda>rt. rt\<lparr>rt_req_timeout := now + MAX_RREQ_TIMEOUT, rt_req_cnt := 0\<rparr>) s) = Inr (x, t)"
      by (auto simp: sendRequest_def simp del: set_rt_fields)
    from drain_drop_table [OF this [unfolded drain_def]] assms(2) show ?thesis by (simp add: MAX_RREQ_TIMEOUT_def)
  next
    case send
    obtain ttl r1 where r: "request_ttl rt = (ttl, r1)" by (metis surj_pair)
    have r1: "rt_nexthop r1 = rt_nexthop rt" using r by (auto simp: request_ttl_def Let_def split: if_splits)
    let ?r = "request_timeout now ttl r1"
    from send assms r have t: "a_rtable t = rt_write d (\<lambda>_. ?r) (a_rtable s)"
      by (auto simp: sendRequest_def Let_def)
    have "rt_nexthop ?r = rt_nexthop rt" using r1 by (simp add: request_timeout_def Let_def)
    with request_ttl_route [OF r] rt_lookup_dst [OF assms(2)] request_timeout_later [of ttl now r1] request_ttl_pos [OF r]
    show ?thesis by (simp add: t rt_write_const [OF assms(2)])
  qed
qed

lemma local_repair_entry:
  assumes "local_rt_repair d p now s = Inr t" "rt_lookup d (a_rtable s) = Some rt"
  shows "\<exists>rt' q. rt_lookup d (a_rtable t) = Some rt' \<and> rt_flags rt' = RTF_IN_REPAIR \<and> rt_hops rt' = rt_hops rt \<and>
    rt_nexthop rt' = rt_nexthop rt \<and> (0 \<le> rt_last_hop_count rt \<longrightarrow> now < rt_req_timeout rt') \<and>
    last (a_out t) = RepairTimer q (rt_req_timeout rt')"
proof -
  from assms(1) obtain u v rt' q where u: "enque_buffer now p s = Inr u"
    and v: "sendRequest d now (set_rt d (\<lambda>rt. rt\<lparr>rt_flags := RTF_IN_REPAIR\<rparr>) u) = Inr v"
    and t: "rt_lookup d (a_rtable v) = Some rt'" "t = emit (RepairTimer q (rt_req_timeout rt')) v"
    by (auto simp: local_rt_repair_def Let_def with_rt_Inr split: if_splits)
  have "rt_lookup d (a_rtable (set_rt d (\<lambda>rt. rt\<lparr>rt_flags := RTF_IN_REPAIR\<rparr>) u)) = Some (rt\<lparr>rt_flags := RTF_IN_REPAIR\<rparr>)"
    using enque_table [OF u] assms(2) by simp
  from sendRequest_entry [OF v this] t show ?thesis by (auto simp: emit_def)
qed

lemma link_failure_fails:
  "rt \<in> set ts \<Longrightarrow> \<not> no_route rt \<Longrightarrow> rt_nexthop rt = a \<Longrightarrow> rt_flags rt \<noteq> RTF_UP \<Longrightarrow> \<exists>e. link_failure_loop a ts es = Inl e"
proof (induction ts arbitrary: es)
  case (Cons r ts)
  show ?case
  proof (cases "\<exists>e. link_failure_loop a (r # ts) es = Inl e")
    case False
    then obtain us where us: "link_failure_loop a (r # ts) es = Inr us" by (cases "link_failure_loop a (r # ts) es") auto
    then have "rt \<in> set ts" using Cons.prems by (auto split: if_splits)
    with Cons.IH Cons.prems have "\<exists>e. link_failure_loop a ts fs = Inl e" for fs by blast
    then have "\<not> (\<exists>x. link_failure_loop a ts fs = Inr x)" for fs by (metis sum.distinct(1))
    with us show ?thesis by auto
  qed
qed simp

text \<open>C33. The local repair of a route leaves it in a state in which the loss of the same next hop
  fails an assertion.\<close>

theorem local_repair_is_fatal:
  assumes "local_rt_repair d p now s = Inr s'" "rt_lookup d (a_rtable s) = Some rt" "\<not> no_route rt"
  shows "\<exists>e. nb_delete (rt_nexthop rt) s' = Inl e"
proof -
  from local_repair_entry [OF assms(1,2)] obtain rt' where r: "rt_lookup d (a_rtable s') = Some rt'"
    "rt_flags rt' = RTF_IN_REPAIR" "rt_hops rt' = rt_hops rt" "rt_nexthop rt' = rt_nexthop rt" by blast
  then have "rt' \<in> set (a_rtable s')" "\<not> no_route rt'" "rt_flags rt' \<noteq> RTF_UP"
    using rt_lookup_dst assms(3) by (auto simp: no_route_def)
  from link_failure_fails [OF this(1,2) r(4) this(3), of "[]"] obtain e where
    "link_failure_loop (rt_nexthop rt) (a_rtable s') [] = Inl e" by blast
  then show ?thesis by (auto simp: nb_delete_def handle_link_failure_def assert_that_def)
qed

text \<open>A link failure reported for a packet that has been forwarded more often than its destination
  is hops away.\<close>

definition failed_packet :: packet where
  "failed_packet = packet_alloc\<lparr>p_daddr := 1, p_next_hop := 2, p_num_forwards := 4\<rparr>"

lemma failed_packet_repaired: "\<exists>s'. local_rt_repair 1 failed_packet 1 one_route = Inr s'"
  by (simp add: local_rt_repair_def failed_packet_def packet_alloc_def one_route_def started_def aodv_new_def
      enque_buffer_def rq_enque_def rq_purge.simps findAgedPacket_def rq_split_def aodv_rqueue_def rq_verifyQueue_def
      sendRequest_def aodv_rt_entry_def RREQ_RETRIES_def request_ttl_def INFINITY2_def TTL_THRESHOLD_def
      set_rt_def emit_def with_rt_def Let_def)

lemma one_route_entry: "rt_lookup 1 (a_rtable one_route) = Some (hd (a_rtable one_route))"
  by (simp add: one_route_def)

lemma local_repair_is_fatal_witness:
  "\<exists>s' e. rt_ll_failed failed_packet 1 one_route = Inr s' \<and> nb_delete 2 s' = Inl e"
proof -
  from failed_packet_repaired obtain s' where s': "local_rt_repair 1 failed_packet 1 one_route = Inr s'" by blast
  have "\<not> no_route (hd (a_rtable one_route))" "rt_nexthop (hd (a_rtable one_route)) = 2"
    by (simp_all add: one_route_def no_route_def INFINITY2_def)
  with local_repair_is_fatal [OF s' one_route_entry] obtain e where "nb_delete 2 s' = Inl e" by auto
  moreover have "rt_ll_failed failed_packet 1 one_route = Inr s'"
    using s' by (simp add: rt_ll_failed_def failed_packet_def packet_alloc_def one_route_def DATA_PACKET_def PT_TCP_def IP_BROADCAST_def)
  ultimately show ?thesis by blast
qed

text \<open>The timer of a local repair is set to the time at which the request times out, although
  the scheduler takes a delay: it is set to expire later than twice the present time.\<close>

theorem repair_timer_late:
  assumes "local_rt_repair d p now s = Inr s'" "rt_lookup d (a_rtable s) = Some rt" "0 \<le> rt_last_hop_count rt"
  shows "\<exists>q delay rt'. last (a_out s') = RepairTimer q delay \<and> rt_lookup d (a_rtable s') = Some rt' \<and>
    delay = rt_req_timeout rt' \<and> now < delay"
  using local_repair_entry [OF assms(1,2)] assms(3) by blast

lemma repair_timer_late_witness:
  "\<exists>s' q delay. local_rt_repair 1 failed_packet 1 one_route = Inr s' \<and> last (a_out s') = RepairTimer q delay \<and> 1 < delay"
proof -
  from failed_packet_repaired obtain s' where s': "local_rt_repair 1 failed_packet 1 one_route = Inr s'" by blast
  have "0 \<le> rt_last_hop_count (hd (a_rtable one_route))" by (simp add: one_route_def aodv_rt_entry_def)
  from repair_timer_late [OF s' one_route_entry this] s' show ?thesis by blast
qed

end
