(* ===== verification/TcpAcker.thy ===== *)
theory TcpAcker
  imports Prelude
begin

unbundle bit_operations_syntax

text \<open>
  The receiver of TCP, class Acker of tcp/tcp-sink.h and tcp/tcp-sink.cc: the next packet
  expected, the largest packet seen, and a circular array with the number of bytes of the packets
  between them.  C++ ints are integers.  The two loops need not end for an arbitrary array; they
  are partial functions, and a result \<open>None\<close> means that the code loops forever.
\<close>

section \<open>The receive window\<close>

definition MWS :: int where "MWS = 64"
definition MWM :: int where "MWM = MWS - 1"

record acker =
  ak_next :: int
  ak_maxseen :: int
  ak_wndmask :: int
  ak_ecn_unacked :: int
  ak_seen :: "int list"
  ak_ts_to_echo :: real
  ak_is_dup :: bool
  ak_last_ack_sent :: int

text \<open>\<open>is_dup_\<close> is not initialised; it is read only after \<open>update\<close> has set it.\<close>

definition acker_new :: acker where
  "acker_new = \<lparr>ak_next = 0, ak_maxseen = 0, ak_wndmask = MWM, ak_ecn_unacked = 0,
     ak_seen = replicate (nat MWS) 0, ak_ts_to_echo = 0, ak_is_dup = False, ak_last_ack_sent = 0\<rparr>"

definition acker_reset :: "acker \<Rightarrow> acker" where
  "acker_reset a = a\<lparr>ak_next := 0, ak_maxseen := 0, ak_seen := replicate (nat (ak_wndmask a + 1)) 0\<rparr>"

text \<open>\<open>seen_[i & wndmask_]\<close>, and an assignment to it.\<close>

definition slot :: "int \<Rightarrow> int \<Rightarrow> nat" where
  "slot m i = nat (i AND m)"

definition seen_at :: "acker \<Rightarrow> int \<Rightarrow> int" where
  "seen_at a i = ak_seen a ! slot (ak_wndmask a) i"

definition seen_set :: "int \<Rightarrow> int \<Rightarrow> acker \<Rightarrow> acker" where
  "seen_set i b a = a\<lparr>ak_seen := (ak_seen a)[slot (ak_wndmask a) i := b]\<rparr>"

definition resize_buffers :: "int \<Rightarrow> acker \<Rightarrow> acker" where
  "resize_buffers sz a =
     a\<lparr>ak_seen := fold (\<lambda>i xs. xs[slot (sz - 1) i := seen_at a i]) [ak_next a..ak_maxseen a + 1] (replicate (nat sz) 0),
       ak_wndmask := sz - 1\<rparr>"

definition update_ts :: "int \<Rightarrow> real \<Rightarrow> bool \<Rightarrow> acker \<Rightarrow> acker" where
  "update_ts seqno ts rfc1323 a =
     (if rfc1323 \<and> seqno = ak_last_ack_sent a + 1 then a\<lparr>ak_ts_to_echo := ts\<rparr>
      else if ts \<ge> ak_ts_to_echo a \<and> seqno \<le> ak_last_ack_sent a + 1 then a\<lparr>ak_ts_to_echo := ts\<rparr>
      else a)"

definition update_ecn_unacked :: "int \<Rightarrow> acker \<Rightarrow> acker" where
  "update_ecn_unacked v a = a\<lparr>ak_ecn_unacked := v\<rparr>"

definition ack_Seqno :: "acker \<Rightarrow> int" where
  "ack_Seqno a = ak_next a - 1"

text \<open>The loops of \<open>update\<close>: the growing of the array, and the delivery of packets in sequence.\<close>

partial_function (option) grow_loop :: "int \<Rightarrow> acker \<Rightarrow> acker option" where
  "grow_loop seq a =
     (if seq + 1 - ak_next a \<ge> ak_wndmask a then grow_loop seq (resize_buffers ((ak_wndmask a + 1) * 2) a)
      else Some a)"

partial_function (option) deliver_loop :: "acker \<Rightarrow> int \<Rightarrow> int \<Rightarrow> (int \<times> int) option" where
  "deliver_loop a next n =
     (if seen_at a next \<noteq> 0 then deliver_loop a (next + 1) (n + seen_at a next) else Some (next, n))"

definition mark_seen :: "int \<Rightarrow> int \<Rightarrow> acker \<Rightarrow> acker" where
  "mark_seen seq numBytes a =
     (let a = fold (\<lambda>i. seen_set i 0) [ak_maxseen a + 1..seq - 1] a;
          a = seen_set seq numBytes (a\<lparr>ak_maxseen := seq\<rparr>)
      in seen_set (ak_maxseen a + 1) 0 a)"

definition acker_update :: "int \<Rightarrow> int \<Rightarrow> acker \<Rightarrow> (int \<times> acker) option" where
  "acker_update seq numBytes a =
     (case grow_loop seq (a\<lparr>ak_is_dup := False\<rparr>) of
        None \<Rightarrow> None
      | Some a \<Rightarrow>
          (let just_marked_as_seen = seq > ak_maxseen a;
               a = (if seq > ak_maxseen a then mark_seen seq numBytes a else a);
               a = (if seq < ak_next a then a\<lparr>ak_is_dup := True\<rparr> else a)
           in if seq \<ge> ak_next a \<and> seq \<le> ak_maxseen a then
                (let a = (if seen_at a seq \<noteq> 0 \<and> \<not> just_marked_as_seen then a\<lparr>ak_is_dup := True\<rparr> else a);
                     a = seen_set seq numBytes a
                 in case deliver_loop a (ak_next a) 0 of
                      None \<Rightarrow> None
                    | Some (next, n) \<Rightarrow> Some (n, a\<lparr>ak_next := next\<rparr>))
              else Some (0, a)))"

section \<open>The packets received\<close>

text \<open>
  The abstract receiver is a map from packets to their bytes.  \<open>acker_ok got a\<close>: all packets before
  \<open>next\<close> have been received, \<open>next\<close> has not, none after \<open>maxseen\<close> has, and the array holds the
  packets from \<open>next\<close> to \<open>maxseen + 1\<close>, in distinct places.
\<close>

definition bytes_of :: "(int \<rightharpoonup> int) \<Rightarrow> int \<Rightarrow> int" where
  "bytes_of got i = (case got i of Some b \<Rightarrow> b | None \<Rightarrow> 0)"

definition window_ok :: "(int \<Rightarrow> int) \<Rightarrow> acker \<Rightarrow> bool" where
  "window_ok f a \<longleftrightarrow> (\<exists>k>0. ak_wndmask a = 2 ^ k - 1 \<and> length (ak_seen a) = 2 ^ k \<and>
     ak_maxseen a + 1 - ak_next a < 2 ^ k) \<and> ak_next a \<le> ak_maxseen a + 1 \<and>
     (\<forall>i. ak_next a \<le> i \<and> i \<le> ak_maxseen a + 1 \<longrightarrow> seen_at a i = f i)"

definition acker_ok :: "(int \<rightharpoonup> int) \<Rightarrow> acker \<Rightarrow> bool" where
  "acker_ok got a \<longleftrightarrow> window_ok (bytes_of got) a \<and> got (ak_next a) = None \<and> 0 \<le> ak_next a \<and>
     (\<forall>i. 0 \<le> i \<and> i < ak_next a \<longrightarrow> got i \<noteq> None) \<and>
     (\<forall>i b. got i = Some b \<longrightarrow> 0 \<le> i \<and> i \<le> ak_maxseen a \<and> 0 < b)"

definition arrive :: "int \<Rightarrow> int \<Rightarrow> acker \<Rightarrow> (int \<rightharpoonup> int) \<Rightarrow> int \<rightharpoonup> int" where
  "arrive seq b a got = (if seq < ak_next a then got else got(seq \<mapsto> b))"

lemma slot_mod: "slot (2 ^ k - 1) i = nat (i mod 2 ^ k)"
proof -
  have "i AND (2 ^ k - 1) = take_bit k i" by (simp add: take_bit_eq_mask mask_eq_exp_minus_1)
  then show ?thesis by (simp add: slot_def take_bit_eq_mod)
qed

lemma slot_less: "slot (2 ^ k - 1) i < 2 ^ k"
  by (simp add: slot_mod nat_less_iff)

lemma slot_inj:
  assumes "slot (2 ^ k - 1) i = slot (2 ^ k - 1) j" "\<bar>i - j\<bar> < 2 ^ k"
  shows "i = j"
proof -
  have "i mod 2 ^ k = j mod 2 ^ k" using assms(1)
    by (metis slot_mod nat_eq_iff2 pos_mod_sign zero_less_numeral zero_less_power int_nat_eq)
  then have "2 ^ k dvd i - j" by (simp add: mod_eq_dvd_iff)
  with assms(2) show ?thesis using dvd_imp_le_int [of "i - j" "2 ^ k"] by fastforce
qed

lemma window_upd [simp]: "window_ok f (a\<lparr>ak_is_dup := b\<rparr>) = window_ok f a"
  "window_ok f (a\<lparr>ak_ts_to_echo := t\<rparr>) = window_ok f a" "window_ok f (a\<lparr>ak_ecn_unacked := e\<rparr>) = window_ok f a"
  "window_ok f (a\<lparr>ak_last_ack_sent := l\<rparr>) = window_ok f a"
  by (simp_all add: window_ok_def seen_at_def)

lemma seen_set_frame [simp]: "ak_next (seen_set i b a) = ak_next a" "ak_maxseen (seen_set i b a) = ak_maxseen a"
  "ak_wndmask (seen_set i b a) = ak_wndmask a" "length (ak_seen (seen_set i b a)) = length (ak_seen a)"
  "ak_is_dup (seen_set i b a) = ak_is_dup a" "ak_last_ack_sent (seen_set i b a) = ak_last_ack_sent a"
  by (simp_all add: seen_set_def)

text \<open>Assignments to distinct places of the array do not interfere.\<close>

lemma seen_at_set:
  assumes "ak_wndmask a = 2 ^ k - 1" "length (ak_seen a) = 2 ^ k" "\<bar>i - j\<bar> < 2 ^ k"
  shows "seen_at (seen_set i b a) j = (if j = i then b else seen_at a j)"
  using assms slot_less [of k i] slot_inj [of k i j] by (auto simp: seen_at_def seen_set_def nth_list_update)

lemma window_set:
  assumes "window_ok f a" "ak_next a \<le> i" "i \<le> ak_maxseen a + 1"
  shows "window_ok (f(i := b)) (seen_set i b a)"
proof -
  from assms(1) obtain k where k: "ak_wndmask a = 2 ^ k - 1" "length (ak_seen a) = 2 ^ k"
    "ak_maxseen a + 1 - ak_next a < 2 ^ k" by (auto simp: window_ok_def)
  have "seen_at (seen_set i b a) j = (if j = i then b else f j)" if "ak_next a \<le> j" "j \<le> ak_maxseen a + 1" for j
  proof -
    have "\<bar>i - j\<bar> < 2 ^ k" using that assms(2,3) k(3) by linarith
    from seen_at_set [OF k(1,2) this] assms(1) that show ?thesis by (simp add: window_ok_def)
  qed
  with assms(1) show ?thesis unfolding window_ok_def by auto
qed

lemma window_cong: "window_ok f a \<Longrightarrow> (\<And>i. ak_next a \<le> i \<Longrightarrow> i \<le> ak_maxseen a + 1 \<Longrightarrow> f i = g i) \<Longrightarrow> window_ok g a"
  by (auto simp: window_ok_def)

lemma seen_at_clear:
  assumes k: "ak_wndmask a = 2 ^ k - 1" "length (ak_seen a) = 2 ^ k"
    and "\<And>i. i \<in> set is \<Longrightarrow> \<bar>i - j\<bar> < 2 ^ k"
  shows "seen_at (fold (\<lambda>i. seen_set i 0) is a) j = (if j \<in> set is then 0 else seen_at a j)"
  using assms
proof (induction "is" arbitrary: a)
  case (Cons i "is")
  have "\<bar>i - j\<bar> < 2 ^ k" using Cons.prems(3) by simp
  with Cons.IH [of "seen_set i 0 a"] Cons.prems seen_at_set [OF Cons.prems(1,2) this] show ?case by auto
qed simp

lemma clear_frame [simp]:
  "ak_next (fold (\<lambda>i. seen_set i 0) is a) = ak_next a" "ak_maxseen (fold (\<lambda>i. seen_set i 0) is a) = ak_maxseen a"
  "ak_wndmask (fold (\<lambda>i. seen_set i 0) is a) = ak_wndmask a"
  "length (ak_seen (fold (\<lambda>i. seen_set i 0) is a)) = length (ak_seen a)"
  by (induction "is" arbitrary: a) simp_all

lemma mark_seen_ok:
  assumes w: "window_ok f a" and seq: "ak_maxseen a < seq" "seq + 1 - ak_next a < ak_wndmask a"
    and f: "\<And>i. ak_maxseen a < i \<Longrightarrow> f i = 0"
  shows "window_ok (f(seq := b)) (mark_seen seq b a)" "ak_next (mark_seen seq b a) = ak_next a"
    "ak_maxseen (mark_seen seq b a) = seq"
proof -
  from w obtain k where k: "ak_wndmask a = 2 ^ k - 1" "length (ak_seen a) = 2 ^ k" and k0: "0 < k" by (auto simp: window_ok_def)
  have nx: "ak_next a \<le> ak_maxseen a + 1" using w by (simp add: window_ok_def)
  let ?c = "fold (\<lambda>i. seen_set i 0) [ak_maxseen a + 1..seq - 1] a"
  let ?m = "seen_set (seq + 1) 0 (seen_set seq b (?c\<lparr>ak_maxseen := seq\<rparr>))"
  have m: "mark_seen seq b a = ?m" by (simp add: mark_seen_def Let_def)
  show "ak_next (mark_seen seq b a) = ak_next a" "ak_maxseen (mark_seen seq b a) = seq" by (simp_all add: m)
  have "seen_at ?m j = (f(seq := b)) j" if j: "ak_next a \<le> j" "j \<le> seq + 1" for j
  proof -
    have near: "\<bar>i - j\<bar> < 2 ^ k" if "ak_next a \<le> i" "i \<le> seq + 1" for i
      using that j seq(2) k(1) by linarith
    have "seen_at (?c\<lparr>ak_maxseen := seq\<rparr>) j = seen_at ?c j" by (simp add: seen_at_def)
    also have "\<dots> = (if ak_maxseen a < j \<and> j < seq then 0 else seen_at a j)"
      using near nx by (subst seen_at_clear [OF k]) auto
    finally have "seen_at ?m j = (if j = seq + 1 then 0 else if j = seq then b else if ak_maxseen a < j then 0 else seen_at a j)"
      using near [of "seq + 1"] near [of seq] seq(1) nx k j by (subst seen_at_set [where k = k] | simp)+
    with w j f seq(1) show ?thesis by (auto simp: window_ok_def)
  qed
  with k k0 seq nx show "window_ok (f(seq := b)) (mark_seen seq b a)" unfolding m window_ok_def by auto
qed

section \<open>The loops end\<close>

lemma resize_fold:
  assumes "length xs = 2 ^ k" "distinct is" "\<And>i i'. i \<in> set is \<Longrightarrow> i' \<in> set is \<Longrightarrow> \<bar>i - i'\<bar> < 2 ^ k"
  shows "length (fold (\<lambda>i xs. xs[slot (2 ^ k - 1) i := g i]) is xs) = 2 ^ k \<and>
    (\<forall>i\<in>set is. fold (\<lambda>i xs. xs[slot (2 ^ k - 1) i := g i]) is xs ! slot (2 ^ k - 1) i = g i)"
  using assms
proof (induction "is" rule: rev_induct)
  case (snoc j "is")
  let ?s = "slot (2 ^ k - 1)"
  let ?ys = "fold (\<lambda>i xs. xs[?s i := g i]) is xs"
  have IH: "length ?ys = 2 ^ k" "\<forall>i\<in>set is. ?ys ! ?s i = g i" using snoc by auto
  have "?s j \<noteq> ?s i" if "i \<in> set is" for i
    using slot_inj [of k j i] snoc.prems(2,3) that by auto
  with IH slot_less [of k j] show ?case by (auto simp: nth_list_update)
qed simp

lemma resize_ok:
  assumes w: "window_ok f a"
  shows "window_ok f (resize_buffers ((ak_wndmask a + 1) * 2) a)"
    "ak_wndmask (resize_buffers ((ak_wndmask a + 1) * 2) a) = 2 * ak_wndmask a + 1"
proof -
  from w obtain k where k: "ak_wndmask a = 2 ^ k - 1" "length (ak_seen a) = 2 ^ k"
    "ak_maxseen a + 1 - ak_next a < 2 ^ k" by (auto simp: window_ok_def)
  let ?is = "[ak_next a..ak_maxseen a + 1]"
  let ?ys = "fold (\<lambda>i xs. xs[slot (2 ^ Suc k - 1) i := seen_at a i]) ?is (replicate (nat (2 ^ Suc k)) 0)"
  have "(2 :: int) ^ k < 2 ^ Suc k" by simp
  then have "\<And>i i'. i \<in> set ?is \<Longrightarrow> i' \<in> set ?is \<Longrightarrow> \<bar>i - i'\<bar> < 2 ^ Suc k" using k(3) by fastforce
  from resize_fold [of "replicate (nat (2 ^ Suc k)) 0" "Suc k" ?is "seen_at a", OF _ _ this]
  have ys: "length ?ys = 2 ^ Suc k" "\<forall>i\<in>set ?is. ?ys ! slot (2 ^ Suc k - 1) i = seen_at a i"
    by (simp_all add: nat_power_eq nat_mult_distrib)
  have "(ak_wndmask a + 1) * 2 = 2 ^ Suc k" by (simp add: k(1))
  then have r: "resize_buffers ((ak_wndmask a + 1) * 2) a = a\<lparr>ak_seen := ?ys, ak_wndmask := 2 ^ Suc k - 1\<rparr>"
    by (simp only: resize_buffers_def)
  show "ak_wndmask (resize_buffers ((ak_wndmask a + 1) * 2) a) = 2 * ak_wndmask a + 1" by (simp only: r) (simp add: k(1))
  show "window_ok f (resize_buffers ((ak_wndmask a + 1) * 2) a)"
    unfolding r window_ok_def using w ys k by (auto simp: seen_at_def window_ok_def intro!: exI [of _ "Suc k"])
qed

text \<open>The fields that are not part of the window.\<close>

definition ak_rest :: "acker \<Rightarrow> int \<times> real \<times> int" where
  "ak_rest a = (ak_ecn_unacked a, ak_ts_to_echo a, ak_last_ack_sent a)"

lemma rest_frame [simp]: "ak_rest (seen_set i b a) = ak_rest a" "ak_rest (a\<lparr>ak_is_dup := d\<rparr>) = ak_rest a"
  "ak_rest (a\<lparr>ak_next := m\<rparr>) = ak_rest a" "ak_rest (resize_buffers sz a) = ak_rest a"
  by (simp_all add: ak_rest_def seen_set_def resize_buffers_def)

lemma rest_mark [simp]: "ak_rest (mark_seen seq b a) = ak_rest a"
proof -
  have "ak_rest (fold (\<lambda>i. seen_set i 0) is a) = ak_rest a" for "is" by (induction "is" arbitrary: a) simp_all
  moreover have "ak_rest (a\<lparr>ak_maxseen := m\<rparr>) = ak_rest a" for a m by (simp add: ak_rest_def)
  ultimately show ?thesis by (simp add: mark_seen_def Let_def)
qed

lemma resize_frame [simp]: "ak_next (resize_buffers sz a) = ak_next a" "ak_maxseen (resize_buffers sz a) = ak_maxseen a"
  "ak_is_dup (resize_buffers sz a) = ak_is_dup a"
  by (simp_all add: resize_buffers_def)

lemma grow_ok:
  "window_ok f a \<Longrightarrow> \<exists>a'. grow_loop seq a = Some a' \<and> window_ok f a' \<and> ak_next a' = ak_next a \<and>
    ak_maxseen a' = ak_maxseen a \<and> ak_is_dup a' = ak_is_dup a \<and> ak_rest a' = ak_rest a \<and> seq + 1 - ak_next a' < ak_wndmask a'"
proof (induction "nat (seq + 2 - ak_next a - ak_wndmask a)" arbitrary: a rule: less_induct)
  case less
  show ?case
  proof (cases "seq + 1 - ak_next a \<ge> ak_wndmask a")
    case False
    with less.prems show ?thesis by (simp add: grow_loop.simps [of seq a])
  next
    case True
    let ?r = "resize_buffers ((ak_wndmask a + 1) * 2) a"
    have "0 \<le> ak_wndmask a" using less.prems by (auto simp: window_ok_def)
    with True resize_ok(2) [OF less.prems] have "nat (seq + 2 - ak_next ?r - ak_wndmask ?r) < nat (seq + 2 - ak_next a - ak_wndmask a)"
      by simp
    from less.hyps [OF this resize_ok(1) [OF less.prems]] True show ?thesis by (simp add: grow_loop.simps [of seq a])
  qed
qed

lemma deliver_ok:
  assumes w: "window_ok f a" and f: "f (ak_maxseen a + 1) = 0"
  shows "ak_next a \<le> next \<Longrightarrow> next \<le> ak_maxseen a + 1 \<Longrightarrow>
    \<exists>m. deliver_loop a next n = Some (m, n + (\<Sum>i = next..<m. f i)) \<and> next \<le> m \<and> m \<le> ak_maxseen a + 1 \<and>
      f m = 0 \<and> (\<forall>i. next \<le> i \<and> i < m \<longrightarrow> f i \<noteq> 0)"
proof (induction "nat (ak_maxseen a + 1 - next)" arbitrary: "next" n rule: less_induct)
  case less
  have s: "seen_at a next = f next" using w less.prems by (simp add: window_ok_def)
  show ?case
  proof (cases "f next = 0")
    case True
    with s less.prems show ?thesis by (intro exI [of _ "next"]) (simp add: deliver_loop.simps [of a "next"])
  next
    case False
    then have "next \<noteq> ak_maxseen a + 1" using f by auto
    then have lt: "next + 1 \<le> ak_maxseen a + 1" using less.prems(2) by simp
    have "nat (ak_maxseen a + 1 - (next + 1)) < nat (ak_maxseen a + 1 - next)" using lt by simp
    from less.hyps [OF this _ lt, of "n + f next"] less.prems(1) obtain m where
      m: "deliver_loop a (next + 1) (n + f next) = Some (m, n + f next + (\<Sum>i = next + 1..<m. f i))" "next + 1 \<le> m"
      "m \<le> ak_maxseen a + 1" "f m = 0" "\<forall>i. next + 1 \<le> i \<and> i < m \<longrightarrow> f i \<noteq> 0" by auto
    have "{next..<m} = insert next {next + 1..<m}" using m(2) by auto
    then have "(\<Sum>i = next..<m. f i) = f next + (\<Sum>i = next + 1..<m. f i)" by simp
    with m s False show ?thesis
      by (intro exI [of _ m]) (auto simp: deliver_loop.simps [of a "next"], metis zle_add1_eq_le order_le_less add1_zle_eq)
  qed
qed

section \<open>The receiver as a set of packets\<close>

lemma bytes_of_upd: "bytes_of (got(seq \<mapsto> b)) = (bytes_of got)(seq := b)"
  by (auto simp: bytes_of_def fun_eq_iff)

lemma acker_ok_new: "acker_ok (\<lambda>_. None) acker_new"
proof -
  have "slot 63 i < 64" for i using slot_less [of 6 i] by simp
  then have "window_ok (\<lambda>_. 0) acker_new"
    by (auto simp: window_ok_def acker_new_def MWS_def MWM_def seen_at_def intro!: exI [of _ 6])
  then show ?thesis by (simp add: acker_ok_def bytes_of_def [abs_def] acker_new_def)
qed

lemma acker_ok_reset: "acker_ok got a \<Longrightarrow> acker_ok (\<lambda>_. None) (acker_reset a)"
proof -
  assume "acker_ok got a"
  then obtain k where k: "ak_wndmask a = 2 ^ k - 1" "0 < k" by (auto simp: acker_ok_def window_ok_def)
  then have "1 < (2 :: int) ^ k" by simp
  have "window_ok (\<lambda>_. 0) (acker_reset a)"
    using k \<open>1 < 2 ^ k\<close> slot_less [of k]
    by (auto simp: window_ok_def acker_reset_def seen_at_def nat_power_eq intro!: exI [of _ k])
  then show ?thesis by (simp add: acker_ok_def bytes_of_def [abs_def] acker_reset_def)
qed

text \<open>The packet is entered, and those in sequence delivered.\<close>

lemma deliver_arrived:
  assumes w: "window_ok (bytes_of got) a" and seq: "ak_next a \<le> seq" "seq \<le> ak_maxseen a" "0 < b"
    and got: "0 \<le> ak_next a" "\<forall>i. 0 \<le> i \<and> i < ak_next a \<longrightarrow> got i \<noteq> None"
      "\<forall>i c. got i = Some c \<longrightarrow> 0 \<le> i \<and> i \<le> ak_maxseen a \<and> 0 < c"
  shows "\<exists>m. deliver_loop (seen_set seq b a) (ak_next a) 0 = Some (m, \<Sum>i = ak_next a..<m. bytes_of (got(seq \<mapsto> b)) i) \<and>
    ak_next a \<le> m \<and> acker_ok (got(seq \<mapsto> b)) ((seen_set seq b a)\<lparr>ak_next := m\<rparr>)"
proof -
  let ?g = "got(seq \<mapsto> b)" and ?a = "seen_set seq b a"
  have nx: "ak_next a \<le> ak_maxseen a + 1" using w by (simp add: window_ok_def)
  have w': "window_ok (bytes_of ?g) ?a"
    unfolding bytes_of_upd by (rule window_set [OF w]) (use seq in auto)
  have "got (ak_maxseen a + 1) = None" using got(3) by (cases "got (ak_maxseen a + 1)") force+
  then have z: "bytes_of ?g (ak_maxseen ?a + 1) = 0" using seq by (simp add: bytes_of_def)
  define f where "f = bytes_of ?g"
  from deliver_ok [OF w' z, of "ak_next a" 0, folded f_def] nx obtain m where
    "deliver_loop ?a (ak_next a) 0 = Some (m, \<Sum>i = ak_next a..<m. f i)" "ak_next a \<le> m" "m \<le> ak_maxseen a + 1"
    "f m = 0" "\<forall>i. ak_next a \<le> i \<and> i < m \<longrightarrow> f i \<noteq> 0" by auto
  note m = this [unfolded f_def]
  have none: "?g i = None \<longleftrightarrow> bytes_of ?g i = 0" for i
    using got(3) seq(3) by (auto simp: bytes_of_def split: option.split)
  have "\<forall>i. 0 \<le> i \<and> i < m \<longrightarrow> ?g i \<noteq> None"
    using m(5) got(2) none by (metis fun_upd_apply option.distinct(1) not_le)
  moreover have "\<forall>i c. ?g i = Some c \<longrightarrow> 0 \<le> i \<and> i \<le> ak_maxseen a \<and> 0 < c" using got(1,3) seq by auto
  moreover have "window_ok (bytes_of ?g) (?a\<lparr>ak_next := m\<rparr>)"
    using w' m(2,3) by (force simp: window_ok_def seen_at_def)
  ultimately have "acker_ok ?g (?a\<lparr>ak_next := m\<rparr>)"
    using m(2,4) none got(1) by (simp add: acker_ok_def del: fun_upd_apply)
  with m(1,2) show ?thesis by blast
qed

lemma acker_update_ok:
  assumes ok: "acker_ok got a" and b: "0 < b"
  shows "\<exists>n a'. acker_update seq b a = Some (n, a') \<and> acker_ok (arrive seq b a got) a' \<and>
    (ak_is_dup a' \<longleftrightarrow> seq < ak_next a \<or> got seq \<noteq> None) \<and> ak_next a \<le> ak_next a' \<and> ak_rest a' = ak_rest a \<and>
    ak_maxseen a' = max seq (ak_maxseen a) \<and>
    n = (\<Sum>i = ak_next a..<ak_next a'. bytes_of (arrive seq b a got) i)"
proof -
  have w: "window_ok (bytes_of got) (a\<lparr>ak_is_dup := False\<rparr>)" using ok by (simp add: acker_ok_def)
  from grow_ok [OF w, of seq] obtain g where g: "grow_loop seq (a\<lparr>ak_is_dup := False\<rparr>) = Some g" "window_ok (bytes_of got) g"
    "ak_next g = ak_next a" "ak_maxseen g = ak_maxseen a" "\<not> ak_is_dup g" "ak_rest g = ak_rest a"
    "seq + 1 - ak_next g < ak_wndmask g" by auto
  have nx: "ak_next a \<le> ak_maxseen a + 1" using g(2-4) by (simp add: window_ok_def)
  have got: "0 \<le> ak_next g" "\<forall>i. 0 \<le> i \<and> i < ak_next g \<longrightarrow> got i \<noteq> None"
      "\<forall>i c. got i = Some c \<longrightarrow> 0 \<le> i \<and> i \<le> ak_maxseen g \<and> 0 < c" using ok g by (simp_all add: acker_ok_def)
  consider (old) "seq < ak_next a" | (new) "ak_next a \<le> seq" "ak_maxseen a < seq" | (gap) "ak_next a \<le> seq" "seq \<le> ak_maxseen a"
    by linarith
  then show ?thesis
  proof cases
    case old
    then have "acker_update seq b a = Some (0, g\<lparr>ak_is_dup := True\<rparr>)"
      using g nx by (simp add: acker_update_def Let_def)
    moreover have "acker_ok got (g\<lparr>ak_is_dup := True\<rparr>)" using ok g by (simp add: acker_ok_def)
    ultimately show ?thesis using old g nx by (simp add: arrive_def)
  next
    case new
    let ?m = "mark_seen seq b g"
    have z: "bytes_of got i = 0" if "ak_maxseen g < i" for i
    proof (cases "got i")
      case (Some c)
      then have "i \<le> ak_maxseen g" using got(3) by blast
      with that show ?thesis by simp
    qed (simp add: bytes_of_def)
    note m = mark_seen_ok [OF g(2) _ g(7) z, of b]
    have ms: "window_ok (bytes_of (got(seq \<mapsto> b))) ?m" "ak_next ?m = ak_next a" "ak_maxseen ?m = seq"
      using m new g(3,4) by (simp_all add: bytes_of_upd)
    have seq0: "0 \<le> seq" using got(1) g(3) new(1) by simp
    have got': "0 \<le> ak_next ?m" "\<forall>i. 0 \<le> i \<and> i < ak_next ?m \<longrightarrow> (got(seq \<mapsto> b)) i \<noteq> None"
      "\<forall>i c. (got(seq \<mapsto> b)) i = Some c \<longrightarrow> 0 \<le> i \<and> i \<le> ak_maxseen ?m \<and> 0 < c"
      using got ms(2,3) g(3,4) new b seq0 by (simp_all, force)
    from deliver_arrived [of "got(seq \<mapsto> b)", OF ms(1) _ _ b got', of seq] ms(2,3) new obtain k where
      k: "deliver_loop (seen_set seq b ?m) (ak_next a) 0 = Some (k, \<Sum>i = ak_next a..<k. bytes_of (got(seq \<mapsto> b)) i)"
        "ak_next a \<le> k" "acker_ok (got(seq \<mapsto> b)) ((seen_set seq b ?m)\<lparr>ak_next := k\<rparr>)" by auto
    have dup: "\<not> ak_is_dup ?m"
    proof -
      have "ak_is_dup (fold (\<lambda>i. seen_set i 0) is h) = ak_is_dup h" for "is" and h :: acker by (induction "is" arbitrary: h) simp_all
      with g(5) show ?thesis by (simp add: mark_seen_def Let_def)
    qed
    have "got seq = None" using got(3) new(2) g(4) by (cases "got seq") force+
    moreover have "acker_update seq b a = Some (\<Sum>i = ak_next a..<k. bytes_of (got(seq \<mapsto> b)) i, (seen_set seq b ?m)\<lparr>ak_next := k\<rparr>)"
      using g new ms k by (simp add: acker_update_def Let_def)
    ultimately show ?thesis using new k dup ms g by (simp add: arrive_def)
  next
    case gap
    define d where "d = (if seen_at g seq \<noteq> 0 then g\<lparr>ak_is_dup := True\<rparr> else g)"
    have d: "window_ok (bytes_of got) d" "ak_next d = ak_next g" "ak_maxseen d = ak_maxseen g" "ak_rest d = ak_rest g"
      using g(2) by (simp_all add: d_def)
    have "seen_at g seq = bytes_of got seq" using g(2-4) gap by (simp add: window_ok_def)
    moreover have "bytes_of got seq \<noteq> 0 \<longleftrightarrow> got seq \<noteq> None" using got(3) by (auto simp: bytes_of_def split: option.split)
    ultimately have dup: "ak_is_dup d \<longleftrightarrow> got seq \<noteq> None" using g(5) by (simp add: d_def)
    have got': "0 \<le> ak_next d" "\<forall>i. 0 \<le> i \<and> i < ak_next d \<longrightarrow> got i \<noteq> None"
      "\<forall>i c. got i = Some c \<longrightarrow> 0 \<le> i \<and> i \<le> ak_maxseen d \<and> 0 < c" using got d by simp_all
    from deliver_arrived [OF d(1) _ _ b got', of seq] gap g d obtain k where
      k: "deliver_loop (seen_set seq b d) (ak_next a) 0 = Some (k, \<Sum>i = ak_next a..<k. bytes_of (got(seq \<mapsto> b)) i)"
        "ak_next a \<le> k" "acker_ok (got(seq \<mapsto> b)) ((seen_set seq b d)\<lparr>ak_next := k\<rparr>)" by auto
    have "acker_update seq b a = Some (\<Sum>i = ak_next a..<k. bytes_of (got(seq \<mapsto> b)) i, (seen_set seq b d)\<lparr>ak_next := k\<rparr>)"
      using g gap k(1) by (cases "seen_at g seq = 0") (simp_all add: acker_update_def Let_def d_def)
    with gap k dup d g show ?thesis by (simp add: arrive_def max_def)
  qed
qed

end
