(* ===== verification/TcpSack.thy ===== *)
theory TcpSack
  imports TcpAcker
begin

text \<open>
  Selective acknowledgments, classes SackStack and Sacker of tcp/tcp-sink.cc.  A block is a pair
  of its left edge and the first packet behind it.  An access outside the array of the stack has
  the result \<open>None\<close>.
\<close>

section \<open>The stack of blocks\<close>

record sack_stack =
  ss_size :: int
  ss_cnt :: int
  SFE :: "(int \<times> int) list"

definition sack_stack_new :: "int \<Rightarrow> sack_stack" where
  "sack_stack_new sz = \<lparr>ss_size = sz, ss_cnt = 0, SFE = replicate (nat sz) (- 1, - 1)\<rparr>"

definition ss_head :: "int \<Rightarrow> sack_stack \<Rightarrow> (int \<times> int) option" where
  "ss_head n s = (if 0 \<le> n \<and> n < ss_size s then Some (SFE s ! nat n) else None)"

definition ss_set_head :: "int \<times> int \<Rightarrow> sack_stack \<Rightarrow> sack_stack" where
  "ss_set_head b s = s\<lparr>SFE := (SFE s)[0 := b]\<rparr>"

definition ss_reset :: "sack_stack \<Rightarrow> sack_stack" where
  "ss_reset s = s\<lparr>SFE := fold (\<lambda>i es. es[nat i := (- 1, - 1)]) [0..ss_cnt s - 1] (SFE s), ss_cnt := 0\<rparr>"

definition ss_push :: "int \<Rightarrow> sack_stack \<Rightarrow> sack_stack" where
  "ss_push n s =
     (let c = (if ss_cnt s \<ge> ss_size s then ss_size s - 1 else ss_cnt s)
      in s\<lparr>SFE := fold (\<lambda>i es. es[nat (i + 1) := es ! nat i]) (rev [n..c - 1]) (SFE s), ss_cnt := c + 1\<rparr>)"

definition ss_pop :: "int \<Rightarrow> sack_stack \<Rightarrow> sack_stack" where
  "ss_pop n s =
     (let es = fold (\<lambda>i es. es[nat i := es ! nat (i + 1)]) [n..ss_cnt s - 2] (SFE s)
      in s\<lparr>SFE := es[nat (max n (ss_cnt s - 1)) := (- 1, - 1)], ss_cnt := ss_cnt s - 1\<rparr>)"

section \<open>The blocks of an acknowledgment\<close>

definition NSA :: int where "NSA = 3"

text \<open>\<open>generateDSacks_\<close> is the sink's, \<open>sk_dsacks\<close> its value.\<close>

record sacker =
  sk_acker :: acker
  sk_base_nblocks :: int
  sk_dsacks :: bool
  sk_sf :: sack_stack

definition sacker_configure :: "int \<Rightarrow> bool \<Rightarrow> acker \<Rightarrow> sacker" where
  "sacker_configure nblocks dsacks a =
     (let n = (if nblocks > NSA then NSA else nblocks)
      in \<lparr>sk_acker = a, sk_base_nblocks = n, sk_dsacks = dsacks, sk_sf = sack_stack_new n\<rparr>)"

text \<open>The number of blocks is changed.\<close>

definition sacker_trace :: "int \<Rightarrow> sacker \<Rightarrow> sacker" where
  "sacker_trace nblocks s =
     (let n = (if nblocks > NSA then NSA else nblocks)
      in s\<lparr>sk_sf := sack_stack_new n, sk_base_nblocks := n\<rparr>)"

definition sacker_reset :: "sacker \<Rightarrow> sacker" where
  "sacker_reset s = s\<lparr>sk_sf := ss_reset (sk_sf s), sk_acker := acker_reset (sk_acker s)\<rparr>"

text \<open>The loop over the older blocks.\<close>

partial_function (option) sack_history ::
  "int \<Rightarrow> int \<Rightarrow> int \<times> int \<Rightarrow> int \<Rightarrow> (int \<times> int) list \<Rightarrow> sack_stack \<Rightarrow> ((int \<times> int) list \<times> sack_stack) option" where
  "sack_history base maxseen recent k blocks sf =
     (if int (length blocks) < base then
        (case ss_head k sf of
           None \<Rightarrow> None
         | Some b \<Rightarrow>
             if fst b < 0 \<or> snd b < 0 \<or> snd b > maxseen + 1 then Some (blocks, sf)
             else if fst recent \<le> fst b \<and> snd recent \<ge> snd b then
               sack_history base maxseen recent k blocks (ss_pop k sf)
             else sack_history base maxseen recent (k + 1) (blocks @ [b]) sf)
      else Some (blocks, sf))"

definition sack_right :: "acker \<Rightarrow> int \<Rightarrow> int" where
  "sack_right a old_seqno =
     (case find (\<lambda>i. seen_at a i = 0) [old_seqno..ak_maxseen a] of Some i \<Rightarrow> i | None \<Rightarrow> ak_maxseen a + 1)"

definition sack_left :: "acker \<Rightarrow> int \<Rightarrow> int \<Rightarrow> int" where
  "sack_left a seqno right =
     (case find (\<lambda>i. seen_at a i = 0) (rev [seqno + 1..right - 1]) of Some i \<Rightarrow> i + 1 | None \<Rightarrow> - 1)"

definition append_ack :: "int \<Rightarrow> sacker \<Rightarrow> ((int \<times> int) list \<times> sacker) option" where
  "append_ack old_seqno s =
     (let a = sk_acker s; seqno = ack_Seqno a in
      if old_seqno < 0 then Some ([], s)
      else if seqno \<ge> ak_maxseen a \<and> ss_cnt (sk_sf s) \<noteq> 0 then Some ([], s\<lparr>sk_sf := ss_reset (sk_sf s)\<rparr>)
      else if (seqno < ak_maxseen a \<or> ak_is_dup a) \<and> sk_base_nblocks s > 0 then
        (let blocks = (if sk_dsacks s \<and> ak_is_dup a then [(old_seqno, old_seqno + 1)] else []) in
         if int (length blocks) \<ge> sk_base_nblocks s then Some (blocks, s)
         else
           (let right = sack_right a old_seqno;
                left = (if old_seqno \<le> seqno then 0 else sack_left a seqno right);
                blocks = (if old_seqno \<le> seqno then blocks else blocks @ [(left, right)])
            in case sack_history (sk_base_nblocks s) (ak_maxseen a) (left, right) 0 blocks (sk_sf s) of
                 None \<Rightarrow> None
               | Some (blocks, sf) \<Rightarrow>
                   Some (blocks, s\<lparr>sk_sf := (if old_seqno > seqno then ss_set_head (left, right) (ss_push 0 sf) else sf)\<rparr>)))
      else Some ([], s))"

section \<open>The stack as a list\<close>

definition ss_ok :: "(int \<times> int) list \<Rightarrow> sack_stack \<Rightarrow> bool" where
  "ss_ok bs s \<longleftrightarrow> ss_cnt s = int (length bs) \<and> ss_cnt s \<le> ss_size s \<and>
     SFE s = bs @ replicate (nat (ss_size s) - length bs) (- 1, - 1)"

lemma ss_ok_new: "0 \<le> n \<Longrightarrow> ss_ok [] (sack_stack_new n)"
  by (simp add: ss_ok_def sack_stack_new_def)

lemma ss_ok_length: "ss_ok bs s \<Longrightarrow> int (length bs) \<le> ss_size s"
  by (simp add: ss_ok_def)

lemma ss_head_ok:
  assumes "ss_ok bs s" "k < length bs"
  shows "ss_head (int k) s = Some (bs ! k)"
  using assms by (simp add: ss_ok_def ss_head_def nth_append)

lemma ss_head_end:
  assumes "ss_ok bs s" "int (length bs) < ss_size s"
  shows "ss_head (int (length bs)) s = Some (- 1, - 1)"
  using assms by (simp add: ss_ok_def ss_head_def nth_append)

text \<open>The loops that move entries, by the entries of the result.\<close>

lemma upto_upt: "[int a..int b - 1] = map int [a..<b]"
proof (induction b)
  case (Suc b)
  show ?case
  proof (cases "a \<le> b")
    case True
    then have "[int a..int b] = [int a..int b - 1] @ [int b]" by (simp add: upto_rec2)
    with Suc True show ?thesis by simp
  qed simp
qed simp

lemma fill_nth:
  "b \<le> length es \<Longrightarrow> length (fold (\<lambda>i es. es[nat i := x]) (map int [a..<b]) es) = length es \<and>
    (\<forall>j<length es. fold (\<lambda>i es. es[nat i := x]) (map int [a..<b]) es ! j = (if a \<le> j \<and> j < b then x else es ! j))"
  by (induction b) (auto simp: nth_list_update less_Suc_eq)

lemma shift_down_nth:
  "b < length es \<Longrightarrow> length (fold (\<lambda>i es. es[nat i := es ! nat (i + 1)]) (map int [a..<b]) es) = length es \<and>
    (\<forall>j<length es. fold (\<lambda>i es. es[nat i := es ! nat (i + 1)]) (map int [a..<b]) es ! j =
       (if a \<le> j \<and> j < b then es ! Suc j else es ! j))"
proof (induction b)
  case (Suc b)
  have "nat (int b + 1) = Suc b" by simp
  with Suc show ?case by (auto simp: nth_list_update less_Suc_eq)
qed simp

lemma shift_up_nth:
  "c < length es \<Longrightarrow> d \<le> c \<Longrightarrow>
    length (fold (\<lambda>i es. es[nat (i + 1) := es ! nat i]) (rev (map int [c - d..<c])) es) = length es \<and>
    (\<forall>j<length es. fold (\<lambda>i es. es[nat (i + 1) := es ! nat i]) (rev (map int [c - d..<c])) es ! j =
       (if c - d < j \<and> j \<le> c then es ! (j - 1) else es ! j))"
proof (induction d)
  case (Suc d)
  obtain p where p: "c = p + Suc d" using Suc.prems(2) by (metis add.commute le_add_diff_inverse)
  then have p: "c - Suc d = p" "c - d = Suc p" "Suc p < length es" "p < c" using Suc.prems(1) by simp_all
  have l: "[p..<c] = p # [Suc p..<c]" using p(4) by (rule upt_conv_Cons)
  have n: "nat (int p + 1) = Suc p" by simp
  have "length (fold (\<lambda>i es. es[nat (i + 1) := es ! nat i]) (rev (map int [Suc p..<c])) es) = length es"
    "\<And>j. j < length es \<Longrightarrow> fold (\<lambda>i es. es[nat (i + 1) := es ! nat i]) (rev (map int [Suc p..<c])) es ! j =
       (if Suc p < j \<and> j \<le> c then es ! (j - 1) else es ! j)" using Suc p by auto
  with p show ?case by (auto simp: l n nth_list_update)
qed auto

lemma ss_reset_ok: "ss_ok bs s \<Longrightarrow> ss_ok [] (ss_reset s)"
proof -
  assume ok: "ss_ok bs s"
  let ?es = "bs @ replicate (nat (ss_size s) - length bs) (- 1, - 1)"
  have "fold (\<lambda>i es. es[nat i := (- 1, - 1)]) (map int [0..<length bs]) ?es = replicate (nat (ss_size s)) (- 1, - 1)"
    using fill_nth [of "length bs" ?es "(- 1, - 1)" 0] ok by (intro nth_equalityI) (auto simp: ss_ok_def nth_append)
  with ok upto_upt [of 0 "length bs"] show ?thesis by (simp add: ss_ok_def ss_reset_def)
qed

lemma ss_pop_ok:
  assumes ok: "ss_ok bs s" and k: "k < length bs"
  shows "ss_ok (take k bs @ drop (Suc k) bs) (ss_pop (int k) s)"
proof -
  let ?m = "nat (ss_size s)" let ?es = "bs @ replicate (?m - length bs) (- 1, - 1)"
  have len: "length ?es = ?m" "length bs \<le> ?m" using ok by (auto simp: ss_ok_def)
  have c: "int (length bs) - 2 = int (length bs - 1) - 1" "nat (max (int k) (int (length bs) - 1)) = length bs - 1"
    using k by auto
  have up: "[int k..int (length bs - 1) - 1] = map int [k..<length bs - 1]" by (rule upto_upt)
  define f where "f = fold (\<lambda>i es. es[nat i := es ! nat (i + 1)]) (map int [k..<length bs - 1]) ?es"
  have f: "length f = ?m" "\<And>j. j < ?m \<Longrightarrow> f ! j = (if k \<le> j \<and> j < length bs - 1 then ?es ! Suc j else ?es ! j)"
    using shift_down_nth [of "length bs - 1" ?es k] k len unfolding f_def by auto
  have "f[length bs - 1 := (- 1, - 1)] = (take k bs @ drop (Suc k) bs) @ replicate (?m - (length bs - 1)) (- 1, - 1)"
  proof (rule nth_equalityI)
    show "length (f[length bs - 1 := (- 1, - 1)]) = length ((take k bs @ drop (Suc k) bs) @ replicate (?m - (length bs - 1)) (- 1, - 1))"
      using f k len by simp
    fix j assume "j < length (f[length bs - 1 := (- 1, - 1)])"
    then show "f[length bs - 1 := (- 1, - 1)] ! j = ((take k bs @ drop (Suc k) bs) @ replicate (?m - (length bs - 1)) (- 1, - 1)) ! j"
      using f k len by (auto simp: nth_list_update nth_append min_def)
  qed
  then show ?thesis
    using ok k c up by (simp add: ss_ok_def ss_pop_def Let_def f_def)
qed

lemma ss_push_ok:
  assumes ok: "ss_ok bs s" and size: "0 < ss_size s"
  shows "ss_ok (b # take (nat (ss_size s) - 1) bs) (ss_set_head b (ss_push 0 s))"
proof -
  let ?m = "nat (ss_size s)" let ?es = "bs @ replicate (?m - length bs) (- 1, - 1)"
  let ?c = "min (length bs) (?m - 1)"
  have len: "length ?es = ?m" "length bs \<le> ?m" "0 < ?m" using ok size by (auto simp: ss_ok_def)
  have c: "(if ss_cnt s \<ge> ss_size s then ss_size s - 1 else ss_cnt s) = int ?c"
    using ok size by (auto simp: ss_ok_def min_def)
  define f where "f = fold (\<lambda>i es. es[nat (i + 1) := es ! nat i]) (rev (map int [0..<?c])) ?es"
  have f: "length f = ?m" "\<And>j. j < ?m \<Longrightarrow> f ! j = (if 0 < j \<and> j \<le> ?c then ?es ! (j - 1) else ?es ! j)"
    using shift_up_nth [of ?c ?es ?c] len unfolding f_def by auto
  have "f[0 := b] = (b # take (?m - 1) bs) @ replicate (?m - length (b # take (?m - 1) bs)) (- 1, - 1)"
  proof (rule nth_equalityI)
    show "length (f[0 := b]) = length ((b # take (?m - 1) bs) @ replicate (?m - length (b # take (?m - 1) bs)) (- 1, - 1))"
      using f len by (simp add: min_def)
    fix j assume "j < length (f[0 := b])"
    then show "f[0 := b] ! j = ((b # take (?m - 1) bs) @ replicate (?m - length (b # take (?m - 1) bs)) (- 1, - 1)) ! j"
      using f len by (cases j) (auto simp: nth_append min_def)
  qed
  moreover have "int ?c + 1 = int (length (b # take (?m - 1) bs))" by simp
  moreover have "[0..int ?c - 1] = map int [0..<?c]" using upto_upt [of 0 ?c] by simp
  moreover have "ss_push 0 s = s\<lparr>SFE := fold (\<lambda>i es. es[nat (i + 1) := es ! nat i]) (rev [0..int ?c - 1]) (SFE s), ss_cnt := int ?c + 1\<rparr>"
    by (simp only: ss_push_def Let_def c)
  moreover have "SFE s = ?es" "int (length (b # take (?m - 1) bs)) \<le> ss_size s" using ok size by (auto simp: ss_ok_def)
  ultimately show ?thesis unfolding ss_ok_def ss_set_head_def f_def by simp
qed

section \<open>The blocks are received packets\<close>

text \<open>\<open>block_ok got b\<close>: a nonempty range of packets received.\<close>

definition block_ok :: "(int \<rightharpoonup> int) \<Rightarrow> int \<times> int \<Rightarrow> bool" where
  "block_ok got b \<longleftrightarrow> 0 \<le> fst b \<and> fst b < snd b \<and> (\<forall>i. fst b \<le> i \<and> i < snd b \<longrightarrow> got i \<noteq> None)"

lemma block_ok_mono: "block_ok got b \<Longrightarrow> dom got \<subseteq> dom got' \<Longrightarrow> block_ok got' b"
  by (fastforce simp: block_ok_def dom_def)

text \<open>The loop over the older blocks takes some from the stack and adds others to the acknowledgment.\<close>

lemma sack_history_ok:
  "ss_ok bs sf \<Longrightarrow> k \<le> length bs \<Longrightarrow> base \<le> ss_size sf \<Longrightarrow> k \<le> length blocks \<Longrightarrow>
    \<exists>hs bs' sf'. sack_history base maxseen recent (int k) blocks sf = Some (blocks @ hs, sf') \<and>
      ss_ok bs' sf' \<and> ss_size sf' = ss_size sf \<and> set hs \<subseteq> set bs \<and> set bs' \<subseteq> set bs \<and>
      (int (length blocks) \<le> base \<longrightarrow> int (length (blocks @ hs)) \<le> base)"
proof (induction "nat (base - int (length blocks)) + length bs" arbitrary: bs sf k blocks rule: less_induct)
  case less
  note unf = sack_history.simps [of base maxseen recent "int k" blocks sf]
  show ?case
  proof (cases "int (length blocks) < base")
    case False
    then have "sack_history base maxseen recent (int k) blocks sf = Some (blocks @ [], sf)" by (simp add: unf)
    with less.prems(1) show ?thesis by (metis empty_set empty_subsetI subset_refl append_Nil2)
  next
    case True
    show ?thesis
    proof (cases "k < length bs")
      case False
      then have "k = length bs" "int (length bs) < ss_size sf" using less.prems True by auto
      then have "ss_head (int k) sf = Some (- 1, - 1)" using ss_head_end [OF less.prems(1)] by simp
      with True less.prems(1) have "sack_history base maxseen recent (int k) blocks sf = Some (blocks @ [], sf)" by (simp add: unf)
      with less.prems(1) show ?thesis by (metis empty_set empty_subsetI subset_refl append_Nil2)
    next
      case kl: True
      note head = ss_head_ok [OF less.prems(1) kl]
      let ?b = "bs ! k"
      consider (stop) "fst ?b < 0 \<or> snd ?b < 0 \<or> snd ?b > maxseen + 1"
        | (cover) "\<not> (fst ?b < 0 \<or> snd ?b < 0 \<or> snd ?b > maxseen + 1)" "fst recent \<le> fst ?b \<and> snd recent \<ge> snd ?b"
        | (take) "\<not> (fst ?b < 0 \<or> snd ?b < 0 \<or> snd ?b > maxseen + 1)" "\<not> (fst recent \<le> fst ?b \<and> snd recent \<ge> snd ?b)"
        by blast
      then show ?thesis
      proof cases
        case stop
        with head True have "sack_history base maxseen recent (int k) blocks sf = Some (blocks @ [], sf)" by (simp add: unf)
        with less.prems(1) show ?thesis by (metis empty_set empty_subsetI subset_refl append_Nil2)
      next
        case cover
        let ?bs = "take k bs @ drop (Suc k) bs"
        have "nat (base - int (length blocks)) + length ?bs < nat (base - int (length blocks)) + length bs" using kl by simp
        moreover have "k \<le> length ?bs" using kl by simp
        moreover have sub: "set ?bs \<subseteq> set bs" by (auto dest: in_set_takeD in_set_dropD)
        moreover have "ss_size (ss_pop (int k) sf) = ss_size sf" by (simp add: ss_pop_def Let_def)
        ultimately obtain hs bs' sf' where
          "sack_history base maxseen recent (int k) blocks (ss_pop (int k) sf) = Some (blocks @ hs, sf')"
          "ss_ok bs' sf'" "ss_size sf' = ss_size sf" "set hs \<subseteq> set ?bs" "set bs' \<subseteq> set ?bs"
          "int (length blocks) \<le> base \<longrightarrow> int (length (blocks @ hs)) \<le> base"
          using less.hyps [of blocks ?bs "ss_pop (int k) sf" k] ss_pop_ok [OF less.prems(1) kl] less.prems(3,4) by metis
        moreover from head True cover have "sack_history base maxseen recent (int k) blocks sf =
            sack_history base maxseen recent (int k) blocks (ss_pop (int k) sf)" by (simp add: unf)
        ultimately show ?thesis using sub by (metis subset_trans)
      next
        case take
        have "nat (base - int (length (blocks @ [?b]))) + length bs < nat (base - int (length blocks)) + length bs"
          using True by simp
        then obtain hs bs' sf' where
          "sack_history base maxseen recent (int (Suc k)) (blocks @ [?b]) sf = Some ((blocks @ [?b]) @ hs, sf')"
          "ss_ok bs' sf'" "ss_size sf' = ss_size sf" "set hs \<subseteq> set bs" "set bs' \<subseteq> set bs"
          "int (length (blocks @ [?b])) \<le> base \<longrightarrow> int (length ((blocks @ [?b]) @ hs)) \<le> base"
          using less.hyps [of "blocks @ [?b]" bs sf "Suc k"] less.prems kl by (metis Suc_leI Suc_le_mono length_append_singleton)
        moreover from head True take have "sack_history base maxseen recent (int k) blocks sf =
            sack_history base maxseen recent (int (Suc k)) (blocks @ [?b]) sf" by (auto simp: unf add.commute)
        moreover have "set (?b # hs) \<subseteq> set bs" using \<open>set hs \<subseteq> set bs\<close> kl by simp
        moreover have "int (length (blocks @ [?b])) \<le> base" using True by simp
        ultimately show ?thesis by (metis append.assoc append_Cons append_Nil)
      qed
    qed
  qed
qed

lemma find_upto_Some:
  "find P [a..b] = Some i \<Longrightarrow> a \<le> i \<and> i \<le> b \<and> P i \<and> (\<forall>j. a \<le> j \<and> j < i \<longrightarrow> \<not> P j)"
proof (induction a b rule: upto.induct)
  case (1 a b)
  from "1.prems" have ab: "a \<le> b" by (cases "a \<le> b") simp_all
  then have "[a..b] = a # [a + 1..b]" by (rule upto_rec1)
  with 1 ab show ?case by (auto split: if_splits) (metis order_le_less zless_imp_add1_zle)
qed

lemma find_rev_upto_Some:
  "find P (rev [a..b]) = Some i \<Longrightarrow> a \<le> i \<and> i \<le> b \<and> P i \<and> (\<forall>j. i < j \<and> j \<le> b \<longrightarrow> \<not> P j)"
proof (induction "nat (b + 1 - a)" arbitrary: b)
  case (Suc n)
  then have "a \<le> b" by simp
  then have "rev [a..b] = b # rev [a..b - 1]" by (simp add: upto_rec2)
  note rev = this
  show ?case
  proof (cases "P b")
    case True
    with Suc.prems rev \<open>a \<le> b\<close> show ?thesis by auto
  next
    case False
    then have "find P (rev [a..b - 1]) = Some i" using Suc.prems rev by simp
    from Suc.hyps(1) [OF _ this] Suc.hyps(2) have i: "a \<le> i" "i \<le> b - 1" "P i" "\<forall>j. i < j \<and> j \<le> b - 1 \<longrightarrow> \<not> P j"
      by simp_all
    have "\<not> P j" if "i < j" "j \<le> b" for j using i(4) that False by (cases "j = b") auto
    with i show ?thesis by simp
  qed
qed auto

lemma seen_got:
  assumes "acker_ok got a" "ak_next a \<le> i" "i \<le> ak_maxseen a + 1"
  shows "seen_at a i = 0 \<longleftrightarrow> got i = None"
proof -
  have "seen_at a i = bytes_of got i" using assms by (simp add: acker_ok_def window_ok_def)
  moreover have "got i = Some b \<Longrightarrow> 0 < b" for b using assms(1) by (auto simp: acker_ok_def)
  ultimately show ?thesis by (auto simp: bytes_of_def split: option.splits)
qed

lemma not_got_end: "acker_ok got a \<Longrightarrow> got (ak_maxseen a + 1) = None"
  by (cases "got (ak_maxseen a + 1)") (force simp: acker_ok_def)+

lemma sack_right_ok:
  assumes ok: "acker_ok got a" and old: "ak_next a \<le> old" "got old \<noteq> None"
  shows "old < sack_right a old \<and> sack_right a old \<le> ak_maxseen a + 1 \<and> got (sack_right a old) = None \<and>
    (\<forall>i. old \<le> i \<and> i < sack_right a old \<longrightarrow> got i \<noteq> None)"
proof -
  have le: "old \<le> ak_maxseen a" using ok old(2) by (auto simp: acker_ok_def)
  have seen: "seen_at a i = 0 \<longleftrightarrow> got i = None" if "old \<le> i" "i \<le> ak_maxseen a + 1" for i
    using seen_got [OF ok, of i] that old(1) by simp
  show ?thesis
  proof (cases "find (\<lambda>i. seen_at a i = 0) [old..ak_maxseen a]")
    case None
    then have "\<forall>i\<in>{old..ak_maxseen a}. seen_at a i \<noteq> 0" by (simp add: find_None_iff)
    with seen le not_got_end [OF ok] show ?thesis by (auto simp: sack_right_def None)
  next
    case (Some i)
    from find_upto_Some [OF Some] have i: "old \<le> i" "i \<le> ak_maxseen a" "got i = None" "\<forall>j. old \<le> j \<and> j < i \<longrightarrow> got j \<noteq> None"
      using seen by auto
    moreover have "old \<noteq> i" using i(3) old(2) by auto
    ultimately show ?thesis by (simp add: sack_right_def Some)
  qed
qed

lemma sack_left_ok:
  assumes ok: "acker_ok got a" and r: "ak_next a < r" "r \<le> ak_maxseen a + 1"
  shows "ak_next a < sack_left a (ack_Seqno a) r \<and> sack_left a (ack_Seqno a) r \<le> r \<and>
    got (sack_left a (ack_Seqno a) r - 1) = None \<and> (\<forall>i. sack_left a (ack_Seqno a) r \<le> i \<and> i < r \<longrightarrow> got i \<noteq> None)"
proof -
  have seen: "seen_at a i = 0 \<longleftrightarrow> got i = None" if "ak_next a \<le> i" "i < r" for i
    using seen_got [OF ok, of i] that r by simp
  have "seen_at a (ak_next a) = 0" using seen [of "ak_next a"] r ok by (simp add: acker_ok_def)
  then have "find (\<lambda>i. seen_at a i = 0) (rev [ak_next a..r - 1]) \<noteq> None" using r(1) by (auto simp: find_None_iff)
  then obtain i where i: "find (\<lambda>i. seen_at a i = 0) (rev [ak_next a..r - 1]) = Some i" by auto
  from find_rev_upto_Some [OF i] seen have "ak_next a \<le> i" "i < r" "got i = None" "\<forall>j. i < j \<and> j < r \<longrightarrow> got j \<noteq> None"
    by auto
  then show ?thesis using i by (auto simp: sack_left_def ack_Seqno_def)
qed

definition sacker_ok :: "(int \<rightharpoonup> int) \<Rightarrow> sacker \<Rightarrow> bool" where
  "sacker_ok got s \<longleftrightarrow> acker_ok got (sk_acker s) \<and> 0 \<le> sk_base_nblocks s \<and> sk_base_nblocks s \<le> NSA \<and>
     ss_size (sk_sf s) = sk_base_nblocks s \<and> (\<exists>bs. ss_ok bs (sk_sf s) \<and> (\<forall>b\<in>set bs. block_ok got b))"

text \<open>The longest block around a packet that is out of sequence.\<close>

definition run_around :: "(int \<rightharpoonup> int) \<Rightarrow> int \<Rightarrow> int \<times> int \<Rightarrow> bool" where
  "run_around got i b \<longleftrightarrow> fst b \<le> i \<and> i < snd b \<and> block_ok got b \<and> got (fst b - 1) = None \<and> got (snd b) = None"

lemma first_block_ok:
  assumes ok: "acker_ok got a" and old: "ack_Seqno a < old" "got old \<noteq> None"
  shows "run_around got old (sack_left a (ack_Seqno a) (sack_right a old), sack_right a old)"
proof -
  have "got (ak_next a) = None" using ok by (simp add: acker_ok_def)
  with old(2) have "ak_next a \<noteq> old" by auto
  with old(1) have nx: "ak_next a < old" by (simp add: ack_Seqno_def)
  define R where "R = sack_right a old"
  have r: "old < R" "R \<le> ak_maxseen a + 1" "got R = None" "\<forall>i. old \<le> i \<and> i < R \<longrightarrow> got i \<noteq> None"
    using sack_right_ok [OF ok less_imp_le [OF nx] old(2)] by (simp_all add: R_def)
  have "ak_next a < R" using nx r(1) by simp
  define L where "L = sack_left a (ack_Seqno a) R"
  have l: "ak_next a < L" "got (L - 1) = None" "\<forall>i. L \<le> i \<and> i < R \<longrightarrow> got i \<noteq> None"
    using sack_left_ok [OF ok \<open>ak_next a < R\<close> r(2)] by (simp_all add: L_def)
  have "L \<le> old"
  proof (rule ccontr)
    assume "\<not> L \<le> old"
    then have "old \<le> L - 1" by simp
    moreover have "L - 1 < R" using sack_left_ok [OF ok \<open>ak_next a < R\<close> r(2)] by (simp add: L_def)
    ultimately show False using r(4) l(2) by blast
  qed
  moreover have "0 \<le> ak_next a" using ok by (simp add: acker_ok_def)
  ultimately have "run_around got old (L, R)" using r l by (simp add: run_around_def block_ok_def)
  then show ?thesis by (simp add: L_def R_def)
qed

lemma append_ack_ok:
  assumes ok: "sacker_ok got s" and old: "0 \<le> old" "got old \<noteq> None"
  shows "\<exists>blocks s'. append_ack old s = Some (blocks, s') \<and> sacker_ok got s' \<and> sk_acker s' = sk_acker s \<and>
    sk_dsacks s' = sk_dsacks s \<and> sk_base_nblocks s' = sk_base_nblocks s \<and>
    (\<forall>b\<in>set blocks. block_ok got b) \<and> int (length blocks) \<le> NSA \<and>
    (ack_Seqno (sk_acker s) < old \<and> 0 < sk_base_nblocks s \<and> \<not> sk_dsacks s \<longrightarrow>
      blocks \<noteq> [] \<and> run_around got old (hd blocks))"
proof -
  let ?a = "sk_acker s"
  have a: "acker_ok got ?a" using ok by (simp add: sacker_ok_def)
  have le: "old \<le> ak_maxseen ?a" using a old(2) by (auto simp: acker_ok_def)
  have pos: "\<not> old < 0" using old(1) by simp
  note app = append_ack_def Let_def if_True if_False pos simp_thms
  from ok obtain bs where bs: "ss_ok bs (sk_sf s)" "\<forall>b\<in>set bs. block_ok got b" by (auto simp: sacker_ok_def)
  have base: "0 \<le> sk_base_nblocks s" "sk_base_nblocks s \<le> NSA" "ss_size (sk_sf s) = sk_base_nblocks s" using ok by (simp_all add: sacker_ok_def)
  consider (empty) "ack_Seqno ?a \<ge> ak_maxseen ?a \<and> ss_cnt (sk_sf s) \<noteq> 0"
    | (none) "\<not> (ack_Seqno ?a \<ge> ak_maxseen ?a \<and> ss_cnt (sk_sf s) \<noteq> 0)" "\<not> ((ack_Seqno ?a < ak_maxseen ?a \<or> ak_is_dup ?a) \<and> sk_base_nblocks s > 0)"
    | (blocks) "\<not> (ack_Seqno ?a \<ge> ak_maxseen ?a \<and> ss_cnt (sk_sf s) \<noteq> 0)" "(ack_Seqno ?a < ak_maxseen ?a \<or> ak_is_dup ?a) \<and> sk_base_nblocks s > 0"
    by blast
  then show ?thesis
  proof cases
    case empty
    have "ss_ok [] (ss_reset (sk_sf s))" "ss_size (ss_reset (sk_sf s)) = ss_size (sk_sf s)"
      using ss_reset_ok [OF bs(1)] by (simp_all add: ss_reset_def)
    then have "sacker_ok got (s\<lparr>sk_sf := ss_reset (sk_sf s)\<rparr>)" using a base by (auto simp: sacker_ok_def)
    moreover have "append_ack old s = Some ([], s\<lparr>sk_sf := ss_reset (sk_sf s)\<rparr>)" by (simp only: app empty simp_thms)
    ultimately show ?thesis using empty le by (simp add: NSA_def)
  next
    case none
    then have "append_ack old s = Some ([], s)" by (simp only: app none)
    with none le ok show ?thesis by (auto simp: NSA_def)
  next
    case blocks
    let ?old = "old \<le> ack_Seqno ?a"
    let ?d = "if sk_dsacks s \<and> ak_is_dup ?a then [(old, old + 1)] else []"
    have d: "\<forall>b\<in>set ?d. block_ok got b" using old by (auto simp: block_ok_def)
    show ?thesis
    proof (cases "int (length ?d) \<ge> sk_base_nblocks s")
      case True
      have "append_ack old s = Some (?d, s)" by (simp only: app blocks True)
      moreover have "sk_dsacks s" using True blocks(2) by (auto split: if_splits)
      moreover have "int (length ?d) \<le> NSA" by (simp add: NSA_def)
      ultimately show ?thesis using ok d by blast
    next
      case False
      let ?r = "sack_right ?a old" let ?l = "if ?old then 0 else sack_left ?a (ack_Seqno ?a) ?r"
      let ?b = "if ?old then ?d else ?d @ [(?l, ?r)]"
      have run: "\<not> ?old \<Longrightarrow> run_around got old (?l, ?r)" using first_block_ok [OF a _ old(2)] by simp
      have b: "\<forall>b\<in>set ?b. block_ok got b" using d run by (auto simp: run_around_def)
      from sack_history_ok [OF bs(1), of 0 "sk_base_nblocks s" ?b "ak_maxseen ?a" "(?l, ?r)"] base(3) obtain hs bs' sf' where
        h: "sack_history (sk_base_nblocks s) (ak_maxseen ?a) (?l, ?r) 0 ?b (sk_sf s) = Some (?b @ hs, sf')"
          "ss_ok bs' sf'" "ss_size sf' = sk_base_nblocks s" "set hs \<subseteq> set bs" "set bs' \<subseteq> set bs"
          "int (length ?b) \<le> sk_base_nblocks s \<longrightarrow> int (length (?b @ hs)) \<le> sk_base_nblocks s" by auto
      let ?sf = "if \<not> ?old then ss_set_head (?l, ?r) (ss_push 0 sf') else sf'"
      have "\<exists>cs. ss_ok cs ?sf \<and> (\<forall>b\<in>set cs. block_ok got b)"
      proof (cases ?old)
        case True
        with h bs(2) show ?thesis by auto
      next
        case new: False
        have "ss_ok ((?l, ?r) # take (nat (ss_size sf') - 1) bs') ?sf"
          using ss_push_ok [OF h(2), of "(?l, ?r)"] h(3) blocks new by simp
        moreover have "\<forall>b\<in>set ((?l, ?r) # take (nat (ss_size sf') - 1) bs'). block_ok got b"
          using run [OF new] h(5) bs(2) by (auto simp: run_around_def dest: in_set_takeD)
        ultimately show ?thesis by blast
      qed
      moreover have "ss_size ?sf = sk_base_nblocks s" using h(3) by (simp add: ss_set_head_def ss_push_def Let_def)
      ultimately have "sacker_ok got (s\<lparr>sk_sf := ?sf\<rparr>)" using a base by (simp add: sacker_ok_def)
      moreover have "append_ack old s = Some (?b @ hs, s\<lparr>sk_sf := ?sf\<rparr>)"
        by (simp only: app blocks False h(1) option.case prod.case not_le)
      moreover have "\<forall>b\<in>set (?b @ hs). block_ok got b" using b h(4) bs(2) by auto
      moreover have "int (length (?b @ hs)) \<le> NSA" using h(6) False base(2) by (auto split: if_splits)
      ultimately show ?thesis using run by auto
    qed
  qed
qed

end
