(* ===== verification/TcpSink.thy ===== *)
theory TcpSink
  imports TcpSack
begin

text \<open>
  The TCP receiver of tcp/tcp-sink.cc: TcpSink, which acknowledges every packet, and DelAckSink,
  which delays acknowledgments.  Either has an Acker or a Sacker.  What a sink sends, delivers,
  frees and schedules is collected in \<open>sn_out\<close>; a result \<open>None\<close> is a loop without end, an access
  outside an array or an abort.
\<close>

section \<open>Packets and sinks\<close>

datatype qs_state = QS_DISABLE | QS_REQUEST | QS_RESPONSE

record tcp_pkt =
  tp_seqno :: int
  tp_ts :: real
  tp_size :: int
  tp_flowid :: int
  tp_ttl :: int
  tp_ect :: bool
  tp_ce :: bool
  tp_ecnecho :: bool
  tp_cong_action :: bool
  tp_qs_flag :: qs_state
  tp_qs_ttl :: int
  tp_qs_rate :: int

record tcp_ack =
  ta_seqno :: int
  ta_ts :: real
  ta_ts_echo :: real
  ta_flowid :: int
  ta_ecnecho :: int
  ta_ect :: bool
  ta_blocks :: "(int \<times> int) list"
  ta_size :: int
  ta_qs_flag :: qs_state
  ta_qs_ttl :: int
  ta_qs_rate :: int

datatype sink_out = AckSent tcp_ack | Delivered int | DelayTimer real | DelayCancel | PktFreed tcp_pkt

datatype some_acker = Plain acker | Sack sacker

record sink =
  sn_acker :: some_acker
  sn_bytes :: int
  sn_save :: "tcp_pkt option"
  sn_lastreset :: real
  sn_pending :: bool
  sn_interval :: real
  sn_size :: int
  sn_ts_echo_bugfix :: bool
  sn_ts_echo_rfc1323 :: bool
  sn_qs_enabled :: bool
  sn_RFC2581_immediate_ack :: bool
  sn_SYN_immediate_ack :: bool
  sn_ecn_syn :: bool
  sn_out :: "sink_out list"

text \<open>The methods of the acker, virtual or inherited.\<close>

fun the_acker :: "some_acker \<Rightarrow> acker" where
  "the_acker (Plain a) = a"
| "the_acker (Sack s) = sk_acker s"

fun map_acker :: "(acker \<Rightarrow> acker) \<Rightarrow> some_acker \<Rightarrow> some_acker" where
  "map_acker f (Plain a) = Plain (f a)"
| "map_acker f (Sack s) = Sack (s\<lparr>sk_acker := f (sk_acker s)\<rparr>)"

fun acker_append :: "int \<Rightarrow> some_acker \<Rightarrow> ((int \<times> int) list \<times> some_acker) option" where
  "acker_append old_seqno (Plain a) = Some ([], Plain a)"
| "acker_append old_seqno (Sack s) =
     (case append_ack old_seqno s of None \<Rightarrow> None | Some (bs, s) \<Rightarrow> Some (bs, Sack s))"

definition sink_emit :: "sink_out \<Rightarrow> sink \<Rightarrow> sink" where
  "sink_emit x s = s\<lparr>sn_out := sn_out s @ [x]\<rparr>"

section \<open>TcpSink\<close>

text \<open>\<open>Acker::reset\<close> is not virtual: the reset of a sink does not call \<open>Sacker::reset\<close>.\<close>

definition sink_reset :: "real \<Rightarrow> sink \<Rightarrow> sink" where
  "sink_reset now s = s\<lparr>sn_acker := map_acker acker_reset (sn_acker s), sn_save := None, sn_lastreset := now\<rparr>"

text \<open>The congestion marks of the packet and of the delayed one, and the echo.\<close>

definition sink_ecn :: "tcp_pkt \<Rightarrow> sink \<Rightarrow> int \<times> bool \<times> some_acker" where
  "sink_ecn opkt s =
     (let sf = (case sn_save s of Some p \<Rightarrow> [p] | None \<Rightarrow> []);
          a = sn_acker s;
          a = (if list_ex tp_cong_action sf \<or> tp_cong_action opkt then map_acker (update_ecn_unacked 0) a else a);
          a = (if list_ex (\<lambda>p. tp_ect p \<and> tp_ce p) sf \<or> (tp_ect opkt \<and> tp_ce opkt)
               then map_acker (update_ecn_unacked 1) a else a);
          echo = (if list_ex tp_ect sf \<or> tp_ect opkt then ak_ecn_unacked (the_acker a) else 0)
      in if (\<not> tp_ect opkt \<and> tp_ecnecho opkt) \<or> list_ex (\<lambda>p. \<not> tp_ect p \<and> tp_ecnecho p) sf
         then (1, sn_ecn_syn s, a) else (echo, False, a))"

definition sink_qs :: "tcp_pkt \<Rightarrow> sink \<Rightarrow> qs_state \<times> int \<times> int" where
  "sink_qs opkt s =
     (if sn_qs_enabled s \<and> tp_seqno opkt = 0 \<and> tp_qs_flag opkt = QS_REQUEST
      then (let d = tp_ttl opkt - tp_qs_ttl opkt in (QS_RESPONSE, d - cdiv d 256 * 256, tp_qs_rate opkt))
      else (QS_DISABLE, 0, 0))"

definition sink_ack :: "real \<Rightarrow> tcp_pkt \<Rightarrow> sink \<Rightarrow> sink option" where
  "sink_ack now opkt s =
     (let seqno = ack_Seqno (the_acker (sn_acker s));
          ts_echo = (if sn_ts_echo_bugfix s then ak_ts_to_echo (the_acker (sn_acker s)) else tp_ts opkt);
          (qs_flag, qs_ttl, qs_rate) = sink_qs opkt s;
          (echo, ect, a) = sink_ecn opkt s
      in case acker_append (tp_seqno opkt) a of
           None \<Rightarrow> None
         | Some (blocks, a) \<Rightarrow>
             Some (sink_emit
               (AckSent \<lparr>ta_seqno = seqno, ta_ts = now, ta_ts_echo = ts_echo, ta_flowid = tp_flowid opkt,
                  ta_ecnecho = echo, ta_ect = ect, ta_blocks = blocks,
                  ta_size = sn_size s + int (length blocks) * 8,
                  ta_qs_flag = qs_flag, ta_qs_ttl = qs_ttl, ta_qs_rate = qs_rate\<rparr>)
               (s\<lparr>sn_acker := map_acker (\<lambda>a. a\<lparr>ak_last_ack_sent := seqno\<rparr>) a\<rparr>)))"

text \<open>The window is updated, and what is in sequence delivered.\<close>

definition sink_update :: "tcp_pkt \<Rightarrow> sink \<Rightarrow> sink option" where
  "sink_update pkt s =
     (let a = update_ts (tp_seqno pkt) (tp_ts pkt) (sn_ts_echo_rfc1323 s) (the_acker (sn_acker s))
      in case acker_update (tp_seqno pkt) (tp_size pkt) a of
           None \<Rightarrow> None
         | Some (n, a) \<Rightarrow>
             (let s = s\<lparr>sn_acker := map_acker (\<lambda>_. a) (sn_acker s)\<rparr>
              in Some (if n \<noteq> 0 then sink_emit (Delivered n) (s\<lparr>sn_bytes := sn_bytes s + n\<rparr>) else s)))"

definition sink_recv :: "real \<Rightarrow> tcp_pkt \<Rightarrow> sink \<Rightarrow> sink option" where
  "sink_recv now pkt s =
     (if tp_ts pkt < sn_lastreset s then Some (sink_emit (PktFreed pkt) s)
      else case sink_update pkt s of
             None \<Rightarrow> None
           | Some s \<Rightarrow> map_option (sink_emit (PktFreed pkt)) (sink_ack now pkt s))"

section \<open>DelAckSink\<close>

definition del_cancel :: "sink \<Rightarrow> sink" where
  "del_cancel s = (if sn_pending s then sink_emit DelayCancel (s\<lparr>sn_pending := False\<rparr>) else s)"

definition del_reset :: "real \<Rightarrow> sink \<Rightarrow> sink" where
  "del_reset now s = sink_reset now (del_cancel s)"

text \<open>The acknowledgment is delayed if there is no timer, and the packet in sequence.\<close>

definition del_delays :: "tcp_pkt \<Rightarrow> sink \<Rightarrow> bool" where
  "del_delays pkt s \<longleftrightarrow> \<not> sn_pending s \<and> tp_seqno pkt = ack_Seqno (the_acker (sn_acker s)) \<and>
     \<not> (sn_RFC2581_immediate_ack s \<and> tp_seqno pkt < ak_maxseen (the_acker (sn_acker s))) \<and>
     \<not> (sn_SYN_immediate_ack s \<and> tp_seqno pkt = 0)"

definition free_save :: "sink \<Rightarrow> sink" where
  "free_save s = (case sn_save s of None \<Rightarrow> s | Some p \<Rightarrow> sink_emit (PktFreed p) (s\<lparr>sn_save := None\<rparr>))"

definition del_recv :: "real \<Rightarrow> tcp_pkt \<Rightarrow> sink \<Rightarrow> sink option" where
  "del_recv now pkt s =
     (if tp_ts pkt < sn_lastreset s then Some (sink_emit (PktFreed pkt) s)
      else case sink_update pkt s of
             None \<Rightarrow> None
           | Some s \<Rightarrow>
               if del_delays pkt s then
                 Some (sink_emit (DelayTimer (sn_interval s)) (s\<lparr>sn_save := Some pkt, sn_pending := True\<rparr>))
               else map_option (\<lambda>s. sink_emit (PktFreed pkt) (free_save s)) (sink_ack now pkt (del_cancel s)))"

definition del_timeout :: "real \<Rightarrow> sink \<Rightarrow> sink option" where
  "del_timeout now s =
     (case sn_save s of
        None \<Rightarrow> Some s
      | Some pkt \<Rightarrow> map_option (\<lambda>s. sink_emit (PktFreed pkt) (s\<lparr>sn_save := None\<rparr>)) (sink_ack now pkt s))"

text \<open>\<open>DelayTimer::expire\<close>, called by \<open>TimerHandler::handle\<close>, which aborts if the timer is not pending.\<close>

definition del_expire :: "real \<Rightarrow> sink \<Rightarrow> sink option" where
  "del_expire now s = (if sn_pending s then del_timeout now (s\<lparr>sn_pending := False\<rparr>) else None)"

end
