(* ===== verification/TcpSinkProps.thy ===== *)
theory TcpSinkProps
  imports TcpSink
begin

text \<open>
  What the TCP receivers promise: acknowledgments are cumulative and every byte is delivered once
  and in order, selective acknowledgments name packets received, and at most one packet waits for
  a delayed acknowledgment.
\<close>

section \<open>The invariant of a sink\<close>

fun some_ok :: "(int \<rightharpoonup> int) \<Rightarrow> some_acker \<Rightarrow> bool" where
  "some_ok got (Plain a) = acker_ok got a"
| "some_ok got (Sack s) = sacker_ok got s"

definition sink_next :: "sink \<Rightarrow> int" where
  "sink_next s = ak_next (the_acker (sn_acker s))"

definition sink_ok :: "(int \<rightharpoonup> int) \<Rightarrow> sink \<Rightarrow> bool" where
  "sink_ok got s \<longleftrightarrow> some_ok got (sn_acker s)"

lemma acker_ok_upd [simp]: "acker_ok got (a\<lparr>ak_ts_to_echo := t\<rparr>) = acker_ok got a"
  "acker_ok got (a\<lparr>ak_ecn_unacked := e\<rparr>) = acker_ok got a" "acker_ok got (a\<lparr>ak_last_ack_sent := l\<rparr>) = acker_ok got a"
  by (simp_all add: acker_ok_def)

lemma some_ok_acker: "some_ok got a \<Longrightarrow> acker_ok got (the_acker a)"
  by (cases a) (simp_all add: sacker_ok_def)

lemma some_ok_map:
  assumes "some_ok got a" "acker_ok got' (f (the_acker a))" "dom got \<subseteq> dom got'"
  shows "some_ok got' (map_acker f a)"
proof (cases a)
  case (Sack s)
  with assms(1) obtain bs where bs: "ss_ok bs (sk_sf s)" "\<forall>b\<in>set bs. block_ok got b" by (auto simp: sacker_ok_def)
  then have "\<forall>b\<in>set bs. block_ok got' b" using block_ok_mono [OF _ assms(3)] by blast
  note bs = bs(1) this
  with Sack assms show ?thesis by (auto simp: sacker_ok_def)
qed (use assms in simp)

text \<open>Whether there are blocks, how many, and whether duplicates are reported.\<close>

fun acker_kind :: "some_acker \<Rightarrow> (int \<times> bool) option" where
  "acker_kind (Plain a) = None"
| "acker_kind (Sack s) = Some (sk_base_nblocks s, sk_dsacks s)"

lemma acker_kind_map [simp]: "acker_kind (map_acker f a) = acker_kind a"
  by (cases a) simp_all

lemma the_acker_map [simp]: "the_acker (map_acker f a) = f (the_acker a)"
  by (cases a) simp_all

lemma emit_simps [simp]: "sink_ok got (sink_emit x s) = sink_ok got s" "sink_next (sink_emit x s) = sink_next s"
  "sn_pending (sink_emit x s) = sn_pending s" "sn_save (sink_emit x s) = sn_save s" "sn_bytes (sink_emit x s) = sn_bytes s"
  "sn_lastreset (sink_emit x s) = sn_lastreset s" "sn_acker (sink_emit x s) = sn_acker s"
  "sn_out (sink_emit x s) = sn_out s @ [x]"
  by (simp_all add: sink_ok_def sink_next_def sink_emit_def)

lemma upd_simps [simp]: "sink_ok got (s\<lparr>sn_bytes := b\<rparr>) = sink_ok got s" "sink_ok got (s\<lparr>sn_pending := q\<rparr>) = sink_ok got s"
  "sink_ok got (s\<lparr>sn_save := v\<rparr>) = sink_ok got s" "sink_next (s\<lparr>sn_pending := q\<rparr>) = sink_next s"
  "sink_next (s\<lparr>sn_save := v\<rparr>) = sink_next s" "sink_next (s\<lparr>sn_bytes := b\<rparr>) = sink_next s"
  by (simp_all add: sink_ok_def sink_next_def)

text \<open>The acknowledgments sent.\<close>

fun ack_of :: "sink_out \<Rightarrow> tcp_ack list" where
  "ack_of (AckSent a) = [a]"
| "ack_of _ = []"

definition acks :: "sink \<Rightarrow> tcp_ack list" where
  "acks s = concat (map ack_of (sn_out s))"

lemma acks_emit [simp]: "acks (sink_emit x s) = acks s @ ack_of x"
  by (simp add: acks_def)

lemma acks_upd [simp]: "acks (s\<lparr>sn_acker := a\<rparr>) = acks s" "acks (s\<lparr>sn_bytes := b\<rparr>) = acks s"
  "acks (s\<lparr>sn_pending := q\<rparr>) = acks s" "acks (s\<lparr>sn_save := v\<rparr>) = acks s"
  by (simp_all add: acks_def)

text \<open>The packets received so far: \<open>seqs\<close>, each with the size given by \<open>f\<close>.\<close>

definition got_of :: "(int \<Rightarrow> int) \<Rightarrow> int set \<Rightarrow> int \<rightharpoonup> int" where
  "got_of f S i = (if i \<in> S then Some (f i) else None)"

lemma got_of_arrive:
  assumes "acker_ok (got_of f S) a" "0 \<le> q"
  shows "arrive q (f q) a (got_of f S) = got_of f (insert q S)"
proof (cases "q < ak_next a")
  case True
  with assms have "got_of f S q \<noteq> None" by (simp add: acker_ok_def)
  then have "insert q S = S" by (auto simp: got_of_def split: if_splits)
  with True show ?thesis by (simp add: arrive_def)
next
  case False
  then show ?thesis by (auto simp: arrive_def got_of_def fun_eq_iff)
qed

section \<open>Receiving and acknowledging\<close>

lemma update_ts_frame [simp]: "acker_ok got (update_ts q t b a) = acker_ok got a" "ak_next (update_ts q t b a) = ak_next a"
  "ak_maxseen (update_ts q t b a) = ak_maxseen a"
  by (simp_all add: update_ts_def)

lemma arrive_ts [simp]: "arrive q b (update_ts q' t r a) got = arrive q b a got"
  by (simp add: arrive_def)

definition good_pkt :: "(int \<Rightarrow> int) \<Rightarrow> tcp_pkt \<Rightarrow> bool" where
  "good_pkt f p \<longleftrightarrow> 0 \<le> tp_seqno p \<and> 0 < tp_size p \<and> tp_size p = f (tp_seqno p)"

lemma sink_update_ok:
  assumes ok: "sink_ok (got_of f S) s" and p: "good_pkt f p"
  shows "\<exists>t. sink_update p s = Some t \<and> sink_ok (got_of f (insert (tp_seqno p) S)) t \<and> sink_next s \<le> sink_next t \<and>
    sn_bytes t = sn_bytes s + (\<Sum>i = sink_next s..<sink_next t. f i) \<and> acks t = acks s \<and> sn_save t = sn_save s \<and>
    sn_pending t = sn_pending s \<and> sn_lastreset t = sn_lastreset s \<and> acker_kind (sn_acker t) = acker_kind (sn_acker s)"
proof -
  let ?a = "update_ts (tp_seqno p) (tp_ts p) (sn_ts_echo_rfc1323 s) (the_acker (sn_acker s))"
  let ?g = "got_of f (insert (tp_seqno p) S)"
  have a: "acker_ok (got_of f S) ?a" using ok some_ok_acker by (simp add: sink_ok_def)
  have "0 \<le> tp_seqno p" "0 < tp_size p" and sz: "tp_size p = f (tp_seqno p)" using p by (simp_all add: good_pkt_def)
  then have arr: "arrive (tp_seqno p) (tp_size p) ?a (got_of f S) = ?g" using got_of_arrive [OF a, of "tp_seqno p"] by simp
  from acker_update_ok [OF a \<open>0 < tp_size p\<close>, of "tp_seqno p"] obtain n b where
    b: "acker_update (tp_seqno p) (tp_size p) ?a = Some (n, b)" "acker_ok ?g b" "ak_next ?a \<le> ak_next b"
      "n = (\<Sum>i = ak_next ?a..<ak_next b. bytes_of ?g i)" unfolding arr by blast
  have "bytes_of ?g i = f i" if "i \<in> {ak_next ?a..<ak_next b}" for i
  proof -
    have "0 \<le> i" using that a by (simp add: acker_ok_def)
    then have "?g i \<noteq> None" using that b(2) by (simp add: acker_ok_def)
    then show ?thesis by (auto simp: bytes_of_def got_of_def split: if_splits)
  qed
  then have n: "n = (\<Sum>i = sink_next s..<ak_next b. f i)" using b(4) by (simp add: sink_next_def)
  have "dom (got_of f S) \<subseteq> dom ?g" by (auto simp: got_of_def dom_def)
  then have "some_ok ?g (map_acker (\<lambda>_. b) (sn_acker s))" using ok b(2) by (intro some_ok_map) (simp_all add: sink_ok_def)
  then have "sink_ok ?g (s\<lparr>sn_acker := map_acker (\<lambda>_. b) (sn_acker s)\<rparr>)" by (simp add: sink_ok_def)
  moreover have "sink_next (s\<lparr>sn_acker := map_acker (\<lambda>_. b) (sn_acker s)\<rparr>) = ak_next b" by (simp add: sink_next_def)
  ultimately show ?thesis using b(1,3) n by (auto simp: sink_update_def Let_def sink_next_def)
qed

text \<open>What an acknowledgment says of the packets received.\<close>

definition ack_ok :: "int set \<Rightarrow> tcp_pkt \<Rightarrow> sink \<Rightarrow> tcp_ack \<Rightarrow> bool" where
  "ack_ok S p s a \<longleftrightarrow> ta_seqno a = sink_next s - 1 \<and> length (ta_blocks a) \<le> 3 \<and>
     (\<forall>b\<in>set (ta_blocks a). fst b < snd b \<and> {fst b..<snd b} \<subseteq> S) \<and>
     (case acker_kind (sn_acker s) of
        Some (n, dsacks) \<Rightarrow> ta_seqno a < tp_seqno p \<and> 0 < n \<and> \<not> dsacks \<longrightarrow>
          ta_blocks a \<noteq> [] \<and> (case hd (ta_blocks a) of (l, r) \<Rightarrow> l \<le> tp_seqno p \<and> tp_seqno p < r \<and> l - 1 \<notin> S \<and> r \<notin> S)
      | None \<Rightarrow> ta_blocks a = [])"

lemma acker_append_ok:
  assumes "some_ok got a" "0 \<le> old" "got old \<noteq> None"
  shows "\<exists>bs a'. acker_append old a = Some (bs, a') \<and> some_ok got a' \<and> the_acker a' = the_acker a \<and>
    acker_kind a' = acker_kind a \<and> (\<forall>b\<in>set bs. block_ok got b) \<and> length bs \<le> 3 \<and>
    (case acker_kind a of
       Some (n, dsacks) \<Rightarrow> ack_Seqno (the_acker a) < old \<and> 0 < n \<and> \<not> dsacks \<longrightarrow> bs \<noteq> [] \<and> run_around got old (hd bs)
     | None \<Rightarrow> bs = [])"
proof (cases a)
  case (Sack k)
  with append_ack_ok [of got k old] assms show ?thesis by (force simp: NSA_def)
qed (use assms in simp)

lemma block_got_of: "block_ok (got_of f S) b \<Longrightarrow> fst b < snd b \<and> {fst b..<snd b} \<subseteq> S"
  by (auto simp: block_ok_def got_of_def split: if_splits)

text \<open>The congestion bits do not matter for the window.\<close>

definition same_window :: "(int \<rightharpoonup> int) \<Rightarrow> some_acker \<Rightarrow> some_acker \<Rightarrow> bool" where
  "same_window got a b \<longleftrightarrow> some_ok got b \<and> ak_next (the_acker b) = ak_next (the_acker a) \<and>
    acker_kind b = acker_kind a"

lemma same_window_ecn:
  assumes "same_window got a b"
  shows "same_window got a (map_acker (update_ecn_unacked v) b)"
proof -
  have "some_ok got (map_acker (update_ecn_unacked v) b)" using assms
    by (intro some_ok_map [OF _ _ subset_refl]) (simp_all add: some_ok_acker update_ecn_unacked_def same_window_def)
  with assms show ?thesis by (simp add: same_window_def update_ecn_unacked_def)
qed

lemma sink_ecn_ok:
  assumes "some_ok got (sn_acker s)"
  shows "\<exists>e x a. sink_ecn p s = (e, x, a) \<and> same_window got (sn_acker s) a"
proof -
  have id: "same_window got (sn_acker s) (sn_acker s)" using assms by (simp add: same_window_def)
  have "same_window got (sn_acker s) (snd (snd (sink_ecn p s)))"
    unfolding sink_ecn_def Let_def if_distrib [where f = snd] snd_conv if_cancel
    by (simp add: id same_window_ecn)
  then show ?thesis by (metis prod.collapse)
qed

lemma sink_ack_ok:
  assumes ok: "sink_ok (got_of f S) s" and q: "0 \<le> tp_seqno p" "tp_seqno p \<in> S"
  shows "\<exists>t a. sink_ack now p s = Some t \<and> sink_ok (got_of f S) t \<and> acks t = acks s @ [a] \<and> ack_ok S p s a \<and>
    sink_next t = sink_next s \<and> sn_save t = sn_save s \<and> sn_pending t = sn_pending s \<and> sn_bytes t = sn_bytes s \<and>
    sn_lastreset t = sn_lastreset s \<and> acker_kind (sn_acker t) = acker_kind (sn_acker s)"
proof -
  let ?g = "got_of f S"
  from sink_ecn_ok [of ?g s p] ok obtain e x a where
    a: "sink_ecn p s = (e, x, a)" "some_ok ?g a" "ak_next (the_acker a) = sink_next s"
      "acker_kind a = acker_kind (sn_acker s)" by (auto simp: sink_ok_def sink_next_def same_window_def)
  have "?g (tp_seqno p) \<noteq> None" using q by (simp add: got_of_def)
  from acker_append_ok [OF a(2) q(1) this] obtain bs b where
    b: "acker_append (tp_seqno p) a = Some (bs, b)" "some_ok ?g b" "the_acker b = the_acker a" "\<forall>b\<in>set bs. block_ok ?g b" "length bs \<le> 3"
      "acker_kind b = acker_kind a"
      "case acker_kind a of
       Some (n, dsacks) \<Rightarrow> ack_Seqno (the_acker a) < tp_seqno p \<and> 0 < n \<and> \<not> dsacks \<longrightarrow>
         bs \<noteq> [] \<and> run_around ?g (tp_seqno p) (hd bs)
     | None \<Rightarrow> bs = []" by blast
  obtain qf qt qr where qs: "sink_qs p s = (qf, qt, qr)" by (metis surj_pair)
  let ?k = "\<lparr>ta_seqno = ack_Seqno (the_acker (sn_acker s)), ta_ts = now,
      ta_ts_echo = (if sn_ts_echo_bugfix s then ak_ts_to_echo (the_acker (sn_acker s)) else tp_ts p), ta_flowid = tp_flowid p,
      ta_ecnecho = e, ta_ect = x, ta_blocks = bs, ta_size = sn_size s + int (length bs) * 8,
      ta_qs_flag = qf, ta_qs_ttl = qt, ta_qs_rate = qr\<rparr>"
  let ?t = "s\<lparr>sn_acker := map_acker (\<lambda>a. a\<lparr>ak_last_ack_sent := ack_Seqno (the_acker (sn_acker s))\<rparr>) b\<rparr>"
  have "sink_ack now p s = Some (sink_emit (AckSent ?k) ?t)"
    using a(1) b(1) qs by (simp add: sink_ack_def Let_def)
  moreover have "some_ok ?g (sn_acker ?t)" using b(2) by (simp add: some_ok_map some_ok_acker)
  then have "sink_ok ?g ?t" by (simp add: sink_ok_def)
  moreover have "sink_next ?t = sink_next s" using a(3) b(3) by (simp add: sink_next_def)
  moreover have "ack_ok S p s ?k"
  proof -
    have "\<forall>b\<in>set bs. fst b < snd b \<and> {fst b..<snd b} \<subseteq> S" using b(4) block_got_of by blast
    moreover have "run_around ?g (tp_seqno p) c \<Longrightarrow>
        (case c of (l, r) \<Rightarrow> l \<le> tp_seqno p \<and> tp_seqno p < r \<and> l - 1 \<notin> S \<and> r \<notin> S)" for c
      by (auto simp: run_around_def got_of_def split: if_splits)
    ultimately show ?thesis using a(3,4) b(5,7)
      by (auto simp: ack_ok_def sink_next_def ack_Seqno_def split: option.splits)
  qed
  moreover have "acker_kind (sn_acker ?t) = acker_kind (sn_acker s)" using a(4) b(6) by simp
  ultimately show ?thesis by auto
qed

lemma sink_recv_ok:
  assumes ok: "sink_ok (got_of f S) s" and p: "good_pkt f p" "sn_lastreset s \<le> tp_ts p"
  shows "\<exists>t a. sink_recv now p s = Some t \<and> sink_ok (got_of f (insert (tp_seqno p) S)) t \<and> sink_next s \<le> sink_next t \<and>
    sn_bytes t = sn_bytes s + (\<Sum>i = sink_next s..<sink_next t. f i) \<and> acks t = acks s @ [a] \<and>
    sn_lastreset t = sn_lastreset s \<and> acker_kind (sn_acker t) = acker_kind (sn_acker s) \<and>
    ack_ok (insert (tp_seqno p) S) p t a"
proof -
  let ?S = "insert (tp_seqno p) S"
  from sink_update_ok [OF ok p(1)] obtain u where
    u: "sink_update p s = Some u" "sink_ok (got_of f ?S) u" "sink_next s \<le> sink_next u"
      "sn_bytes u = sn_bytes s + (\<Sum>i = sink_next s..<sink_next u. f i)" "acks u = acks s" "sn_lastreset u = sn_lastreset s"
      "acker_kind (sn_acker u) = acker_kind (sn_acker s)" by blast
  have "0 \<le> tp_seqno p" using p(1) by (simp add: good_pkt_def)
  from sink_ack_ok [OF u(2) this, of now] obtain t a where
    t: "sink_ack now p u = Some t" "sink_ok (got_of f ?S) t" "acks t = acks u @ [a]" "ack_ok ?S p u a"
      "sink_next t = sink_next u" "sn_bytes t = sn_bytes u" "sn_lastreset t = sn_lastreset u"
      "acker_kind (sn_acker t) = acker_kind (sn_acker u)" by auto
  from t(4,5,8) have "ack_ok ?S p (sink_emit (PktFreed p) t) a" by (simp add: ack_ok_def)
  with u t(1-3,5-8) p(2) show ?thesis by (auto simp: sink_recv_def)
qed

section \<open>Runs\<close>

fun sink_run :: "(real \<times> tcp_pkt) list \<Rightarrow> sink \<Rightarrow> sink option" where
  "sink_run [] s = Some s"
| "sink_run ((now, p) # ps) s = (case sink_recv now p s of None \<Rightarrow> None | Some s \<Rightarrow> sink_run ps s)"

definition seqs :: "(real \<times> tcp_pkt) list \<Rightarrow> int set" where
  "seqs ps = (tp_seqno \<circ> snd) ` set ps"

lemma sink_run_append: "sink_run (ps @ qs) s = (case sink_run ps s of None \<Rightarrow> None | Some s \<Rightarrow> sink_run qs s)"
  by (induction ps s rule: sink_run.induct) (auto split: option.split)

lemma sum_split: "a \<le> b \<Longrightarrow> b \<le> c \<Longrightarrow> (\<Sum>i = a..<b. f i) + (\<Sum>i = b..<c. f i) = (\<Sum>i = a..<c. f i)" for a b c :: int
  by (subst sum.union_disjoint [symmetric]) (auto intro: arg_cong [of _ _ "sum f"])

text \<open>The first packet that has not been received.\<close>

definition first_missing :: "int set \<Rightarrow> int \<Rightarrow> bool" where
  "first_missing S n \<longleftrightarrow> 0 \<le> n \<and> n \<notin> S \<and> {0..<n} \<subseteq> S"

lemma sink_next_missing: "sink_ok (got_of f S) s \<Longrightarrow> first_missing S (sink_next s)"
  using some_ok_acker [of "got_of f S" "sn_acker s"]
  by (auto simp: sink_ok_def sink_next_def first_missing_def acker_ok_def got_of_def split: if_splits)

text \<open>What the acknowledgment of packet \<open>p\<close> says when the packets \<open>S\<close> have been received.\<close>

definition ack_says :: "(int \<times> bool) option \<Rightarrow> int set \<Rightarrow> tcp_pkt \<Rightarrow> tcp_ack \<Rightarrow> bool" where
  "ack_says kind S p a \<longleftrightarrow> first_missing S (ta_seqno a + 1) \<and> length (ta_blocks a) \<le> 3 \<and>
     (\<forall>b\<in>set (ta_blocks a). fst b < snd b \<and> {fst b..<snd b} \<subseteq> S) \<and>
     (case kind of
        Some (n, dsacks) \<Rightarrow> ta_seqno a < tp_seqno p \<and> 0 < n \<and> \<not> dsacks \<longrightarrow>
          ta_blocks a \<noteq> [] \<and> (case hd (ta_blocks a) of (l, r) \<Rightarrow> l \<le> tp_seqno p \<and> tp_seqno p < r \<and> l - 1 \<notin> S \<and> r \<notin> S)
      | None \<Rightarrow> ta_blocks a = [])"

lemma ack_ok_says: "sink_ok (got_of f S) s \<Longrightarrow> ack_ok S p s a \<Longrightarrow> ack_says (acker_kind (sn_acker s)) S p a"
  using sink_next_missing [of f S s] by (simp add: ack_ok_def ack_says_def split: option.splits)

lemma seqs_snoc: "seqs (ps @ [(now, p)]) = insert (tp_seqno p) (seqs ps)"
  by (auto simp: seqs_def)

lemma sink_run_ok:
  assumes ok: "sink_ok (got_of f {}) s" and "\<forall>(now, p)\<in>set ps. good_pkt f p \<and> sn_lastreset s \<le> tp_ts p"
  shows "\<exists>t as. sink_run ps s = Some t \<and> sink_ok (got_of f (seqs ps)) t \<and> sink_next s \<le> sink_next t \<and>
      sn_bytes t = sn_bytes s + (\<Sum>i = sink_next s..<sink_next t. f i) \<and> sn_lastreset t = sn_lastreset s \<and>
      acker_kind (sn_acker t) = acker_kind (sn_acker s) \<and> acks t = acks s @ as \<and> length as = length ps \<and>
      (\<forall>k<length ps. ack_says (acker_kind (sn_acker s)) (seqs (take (Suc k) ps)) (snd (ps ! k)) (as ! k))"
  using assms(2)
proof (induction ps rule: rev_induct)
  case Nil
  with ok show ?case by (simp add: seqs_def)
next
  case (snoc np ps)
  obtain now p where np: "np = (now, p)" by (cases np) auto
  let ?S = "insert (tp_seqno p) (seqs ps)"
  from snoc obtain u as where
    u: "sink_run ps s = Some u" "sink_ok (got_of f (seqs ps)) u" "sink_next s \<le> sink_next u"
      "sn_bytes u = sn_bytes s + (\<Sum>i = sink_next s..<sink_next u. f i)" "sn_lastreset u = sn_lastreset s"
      "acker_kind (sn_acker u) = acker_kind (sn_acker s)" "acks u = acks s @ as" "length as = length ps"
      "\<forall>k<length ps. ack_says (acker_kind (sn_acker s)) (seqs (take (Suc k) ps)) (snd (ps ! k)) (as ! k)" by auto
  have p: "good_pkt f p" "sn_lastreset u \<le> tp_ts p" using snoc.prems np u(5) by auto
  from sink_recv_ok [OF u(2) p, of now] obtain t a where
    t: "sink_recv now p u = Some t" "sink_ok (got_of f ?S) t" "sink_next u \<le> sink_next t"
      "sn_bytes t = sn_bytes u + (\<Sum>i = sink_next u..<sink_next t. f i)" "acks t = acks u @ [a]" "sn_lastreset t = sn_lastreset u"
      "acker_kind (sn_acker t) = acker_kind (sn_acker u)" "ack_ok ?S p t a" by blast
  have run: "sink_run (ps @ [np]) s = Some t" using u(1) t(1) by (simp add: sink_run_append np)
  have says: "ack_says (acker_kind (sn_acker s)) (seqs (take (Suc k) (ps @ [np]))) (snd ((ps @ [np]) ! k)) ((as @ [a]) ! k)"
    if "k < length (ps @ [np])" for k
  proof (cases "k = length ps")
    case True
    then show ?thesis using ack_ok_says [OF t(2,8)] t(7) u(6,8) by (simp add: np seqs_snoc nth_append)
  next
    case False
    with that u(8,9) show ?thesis by (simp add: nth_append)
  qed
  have bytes: "sn_bytes t = sn_bytes s + (\<Sum>i = sink_next s..<sink_next t. f i)"
    using sum_split [OF u(3) t(3), of f] u(4) t(4) by simp
  show ?case
    by (rule exI [of _ t], rule exI [of _ "as @ [a]"]) (use run says bytes u t np in \<open>auto simp: seqs_snoc\<close>)
qed

text \<open>A receiver as it is created.\<close>

definition fresh_sink :: "sink \<Rightarrow> bool" where
  "fresh_sink s \<longleftrightarrow> sn_bytes s = 0 \<and> sn_out s = [] \<and> sn_save s = None \<and> \<not> sn_pending s \<and>
     (sn_acker s = Plain acker_new \<or> (\<exists>n d. 0 \<le> n \<and> sn_acker s = Sack (sacker_configure n d acker_new)))"

lemma got_of_empty: "got_of f {} = (\<lambda>_. None)"
  by (auto simp: got_of_def)

lemma sacker_configure_ok: "0 \<le> n \<Longrightarrow> acker_ok got a \<Longrightarrow> sacker_ok got (sacker_configure n d a)"
  using ss_ok_new [of n] ss_ok_new [of NSA]
  by (auto simp: sacker_ok_def sacker_configure_def Let_def NSA_def sack_stack_new_def intro!: exI [of _ "[]"])

lemma fresh_ok: "fresh_sink s \<Longrightarrow> sink_ok (got_of f {}) s"
  unfolding got_of_empty fresh_sink_def sink_ok_def
  by (auto simp: acker_ok_new sacker_configure_ok)

lemma fresh_next: "fresh_sink s \<Longrightarrow> sink_next s = 0"
  by (auto simp: fresh_sink_def sink_next_def acker_new_def sacker_configure_def Let_def)

lemma fresh_acks: "fresh_sink s \<Longrightarrow> acks s = []"
  by (simp add: fresh_sink_def acks_def)

end
