(* ===== verification/TcpReceive.thy ===== *)
theory TcpReceive
  imports TcpSinkProps
begin

text \<open>
  The life of a DelAckSink, any sequence of packets, expiries of the timer and resets, and the
  properties of the receivers.
\<close>

section \<open>Delayed acknowledgments\<close>

text \<open>A reset forgets the blocks, if there are any, only in \<open>Sacker::reset\<close>, which it does not call.\<close>

fun no_blocks :: "some_acker \<Rightarrow> bool" where
  "no_blocks (Plain a) = True"
| "no_blocks (Sack k) = (ss_cnt (sk_sf k) = 0)"

text \<open>\<open>del_sink f s0 S s\<close>: \<open>s\<close> is reached from \<open>s0\<close>; the packets \<open>S\<close> have been received since the last reset.\<close>

inductive del_sink :: "(int \<Rightarrow> int) \<Rightarrow> sink \<Rightarrow> int set \<Rightarrow> sink \<Rightarrow> bool" for f s0 where
  created: "fresh_sink s0 \<Longrightarrow> del_sink f s0 {} s0"
| packet: "del_sink f s0 S s \<Longrightarrow> good_pkt f p \<Longrightarrow> del_recv now p s = Some t \<Longrightarrow>
    del_sink f s0 (if tp_ts p < sn_lastreset s then S else insert (tp_seqno p) S) t"
| expiry: "del_sink f s0 S s \<Longrightarrow> del_expire now s = Some t \<Longrightarrow> del_sink f s0 S t"
| reset: "del_sink f s0 S s \<Longrightarrow> no_blocks (sn_acker s) \<Longrightarrow> del_sink f s0 {} (del_reset now s)"

text \<open>A packet waits if and only if the timer is pending, and it has been received.\<close>

definition del_ok :: "(int \<Rightarrow> int) \<Rightarrow> int set \<Rightarrow> sink \<Rightarrow> bool" where
  "del_ok f S s \<longleftrightarrow> sink_ok (got_of f S) s \<and> (sn_pending s \<longleftrightarrow> sn_save s \<noteq> None) \<and>
     (\<forall>p. sn_save s = Some p \<longrightarrow> 0 \<le> tp_seqno p \<and> tp_seqno p \<in> S)"

lemma cancel_simps [simp]: "sink_ok got (del_cancel s) = sink_ok got s" "sink_next (del_cancel s) = sink_next s"
  "acks (del_cancel s) = acks s" "\<not> sn_pending (del_cancel s)" "sn_save (del_cancel s) = sn_save s"
  "sn_bytes (del_cancel s) = sn_bytes s" "sn_lastreset (del_cancel s) = sn_lastreset s"
  "sn_acker (del_cancel s) = sn_acker s"
  by (simp_all add: del_cancel_def)

lemma free_save_simps [simp]: "sink_ok got (free_save s) = sink_ok got s" "sink_next (free_save s) = sink_next s"
  "acks (free_save s) = acks s" "sn_pending (free_save s) = sn_pending s" "sn_save (free_save s) = None"
  "sn_bytes (free_save s) = sn_bytes s" "sn_acker (free_save s) = sn_acker s"
  by (auto simp: free_save_def split: option.splits)

lemma ack_ok_cong: "sink_next s = sink_next t \<Longrightarrow> acker_kind (sn_acker s) = acker_kind (sn_acker t) \<Longrightarrow>
    ack_ok S p s a = ack_ok S p t a"
  by (simp add: ack_ok_def)

text \<open>One packet: it is acknowledged, or it waits alone.\<close>

definition waits :: "tcp_pkt \<Rightarrow> sink \<Rightarrow> sink \<Rightarrow> bool" where
  "waits p s t \<longleftrightarrow> \<not> sn_pending s \<and> sn_pending t \<and> sn_save t = Some p \<and> acks t = acks s \<and>
     tp_seqno p = sink_next t - 1 \<and> last (sn_out t) = DelayTimer (sn_interval s)"

definition acked :: "int set \<Rightarrow> tcp_pkt \<Rightarrow> sink \<Rightarrow> sink \<Rightarrow> bool" where
  "acked S p s t \<longleftrightarrow> \<not> sn_pending t \<and> sn_save t = None \<and> (\<exists>a. acks t = acks s @ [a] \<and> ack_ok S p t a)"

lemma sink_update_interval: "sink_update p s = Some t \<Longrightarrow> sn_interval t = sn_interval s"
  by (auto simp: sink_update_def Let_def sink_emit_def split: option.splits if_splits)

lemma del_recv_ok:
  assumes ok: "del_ok f S s" and p: "good_pkt f p" "sn_lastreset s \<le> tp_ts p"
  shows "\<exists>t. del_recv now p s = Some t \<and> del_ok f (insert (tp_seqno p) S) t \<and> sink_next s \<le> sink_next t \<and>
    sn_bytes t = sn_bytes s + (\<Sum>i = sink_next s..<sink_next t. f i) \<and> sn_lastreset t = sn_lastreset s \<and>
    (waits p s t \<or> acked (insert (tp_seqno p) S) p s t)"
proof -
  let ?S = "insert (tp_seqno p) S"
  have q: "0 \<le> tp_seqno p" using p(1) by (simp add: good_pkt_def)
  have late: "\<not> tp_ts p < sn_lastreset s" using p(2) by simp
  from sink_update_ok [OF _ p(1), of S s] ok obtain u where
    u: "sink_update p s = Some u" "sink_ok (got_of f ?S) u" "sink_next s \<le> sink_next u"
      "sn_bytes u = sn_bytes s + (\<Sum>i = sink_next s..<sink_next u. f i)" "acks u = acks s" "sn_save u = sn_save s"
      "sn_pending u = sn_pending s" "sn_lastreset u = sn_lastreset s" "sn_interval u = sn_interval s"
    using sink_update_interval by (fastforce simp: del_ok_def)
  show ?thesis
  proof (cases "del_delays p u")
    case True
    define t where "t = sink_emit (DelayTimer (sn_interval u)) (u\<lparr>sn_save := Some p, sn_pending := True\<rparr>)"
    have "del_recv now p s = Some t" using u(1) late True by (simp add: del_recv_def t_def)
    moreover have "del_ok f ?S t" using u(2) q by (simp add: del_ok_def t_def)
    moreover have "waits p s t" using True u by (simp add: waits_def t_def del_delays_def sink_next_def ack_Seqno_def sink_emit_def acks_def)
    moreover have "sn_lastreset t = sn_lastreset s" using u(8) by (simp add: t_def)
    ultimately show ?thesis using u(3,4) by (auto simp: t_def)
  next
    case False
    from sink_ack_ok [of f ?S "del_cancel u" p now] u(2) q obtain v a where
      v: "sink_ack now p (del_cancel u) = Some v" "sink_ok (got_of f ?S) v" "acks v = acks s @ [a]" "ack_ok ?S p (del_cancel u) a"
        "sink_next v = sink_next u" "\<not> sn_pending v" "sn_bytes v = sn_bytes u" "sn_lastreset v = sn_lastreset u"
        "acker_kind (sn_acker v) = acker_kind (sn_acker u)" using u(5) by auto
    define t where "t = sink_emit (PktFreed p) (free_save v)"
    have "del_recv now p s = Some t" using u(1) v(1) late False by (simp add: del_recv_def t_def)
    moreover have "del_ok f ?S t" using v(2,6) by (simp add: del_ok_def t_def)
    moreover have "ack_ok ?S p t a" using v(4,5,9) ack_ok_cong [of t "del_cancel u"] by (simp add: t_def)
    then have "acked ?S p s t" using v(3,6) by (simp add: acked_def t_def)
    moreover have "sn_lastreset t = sn_lastreset s" using v(8) u(8) by (auto simp: t_def free_save_def split: option.split)
    ultimately show ?thesis using u(3,4) v(5,7) by (auto simp: t_def)
  qed
qed

lemma del_expire_ok:
  assumes ok: "del_ok f S s" and "sn_pending s"
  shows "\<exists>p t. sn_save s = Some p \<and> del_expire now s = Some t \<and> del_ok f S t \<and> acked S p s t \<and>
    sink_next t = sink_next s \<and> sn_bytes t = sn_bytes s \<and> sn_lastreset t = sn_lastreset s"
proof -
  from ok assms(2) obtain p where p: "sn_save s = Some p" "0 \<le> tp_seqno p" "tp_seqno p \<in> S" by (auto simp: del_ok_def)
  let ?u = "s\<lparr>sn_pending := False\<rparr>"
  have "sink_ok (got_of f S) ?u" using ok by (simp add: del_ok_def)
  from sink_ack_ok [OF this p(2,3), of now] obtain v a where
    v: "sink_ack now p ?u = Some v" "sink_ok (got_of f S) v" "acks v = acks s @ [a]" "ack_ok S p ?u a" "sink_next v = sink_next s"
      "\<not> sn_pending v" "sn_bytes v = sn_bytes s" "sn_lastreset v = sn_lastreset s"
      "acker_kind (sn_acker v) = acker_kind (sn_acker s)" by auto
  define t where "t = sink_emit (PktFreed p) (v\<lparr>sn_save := None\<rparr>)"
  have "del_expire now s = Some t" using p(1) v(1) assms(2) by (simp add: del_expire_def del_timeout_def t_def)
  moreover have "del_ok f S t" using v(2,6) by (simp add: del_ok_def t_def)
  moreover have "ack_ok S p t a" using v(4,5,9) ack_ok_cong [of t ?u] by (simp add: t_def)
  then have "acked S p s t" using v(3,6) by (simp add: acked_def t_def)
  ultimately show ?thesis using p(1) v(5,7,8) by (auto simp: t_def)
qed

lemma reset_acker_ok: "some_ok got a \<Longrightarrow> no_blocks a \<Longrightarrow> some_ok (\<lambda>_. None) (map_acker acker_reset a)"
proof (cases a)
  case (Sack k)
  assume "some_ok got a" "no_blocks a"
  with Sack obtain bs where k: "acker_ok got (sk_acker k)" "ss_ok bs (sk_sf k)" "0 \<le> sk_base_nblocks k"
    "sk_base_nblocks k \<le> NSA" "ss_size (sk_sf k) = sk_base_nblocks k" "ss_cnt (sk_sf k) = 0" by (auto simp: sacker_ok_def)
  then have "ss_ok [] (sk_sf k)" by (simp add: ss_ok_def)
  then show ?thesis using Sack k acker_ok_reset by (auto simp: sacker_ok_def intro!: exI [of _ "[]"])
qed (simp add: acker_ok_reset)

lemma del_reset_ok: "del_ok f S s \<Longrightarrow> no_blocks (sn_acker s) \<Longrightarrow> del_ok f {} (del_reset now s)"
  using reset_acker_ok [of "got_of f S" "sn_acker s"]
  by (simp add: del_ok_def del_reset_def sink_reset_def got_of_empty sink_ok_def)

lemma del_sink_ok: "del_sink f s0 S s \<Longrightarrow> del_ok f S s"
proof (induction rule: del_sink.induct)
  case created
  then show ?case using fresh_ok [of s0 f] by (simp add: del_ok_def fresh_sink_def)
next
  case (packet S s p now t)
  show ?case
  proof (cases "tp_ts p < sn_lastreset s")
    case True
    with packet.hyps(3) have "t = sink_emit (PktFreed p) s" by (simp add: del_recv_def)
    with True packet.IH show ?thesis by (simp add: del_ok_def)
  next
    case False
    with del_recv_ok [OF packet.IH packet.hyps(2), of now] packet.hyps(3) show ?thesis by (auto simp: not_less)
  qed
next
  case (expiry S s now t)
  then have "sn_pending s" by (cases "sn_pending s") (simp_all add: del_expire_def)
  with del_expire_ok [OF expiry.IH, of now] expiry.hyps(2) show ?case by auto
next
  case (reset S s now)
  then show ?case by (intro del_reset_ok)
qed

section \<open>Properties\<close>

text \<open>Sinks and packets for the witnesses.\<close>

definition ex_sink :: "some_acker \<Rightarrow> sink" where
  "ex_sink a = \<lparr>sn_acker = a, sn_bytes = 0, sn_save = None, sn_lastreset = 0, sn_pending = False, sn_interval = 1 / 10,
     sn_size = 40, sn_ts_echo_bugfix = False, sn_ts_echo_rfc1323 = False, sn_qs_enabled = False,
     sn_RFC2581_immediate_ack = True, sn_SYN_immediate_ack = False, sn_ecn_syn = False, sn_out = []\<rparr>"

definition ex_tcp :: "int \<Rightarrow> real \<Rightarrow> tcp_pkt" where
  "ex_tcp q t = \<lparr>tp_seqno = q, tp_ts = t, tp_size = 1000, tp_flowid = 1, tp_ttl = 32, tp_ect = False, tp_ce = False,
     tp_ecnecho = False, tp_cong_action = False, tp_qs_flag = QS_DISABLE, tp_qs_ttl = 0, tp_qs_rate = 0\<rparr>"

lemma ex_fresh: "fresh_sink (ex_sink (Plain acker_new))" "0 \<le> n \<Longrightarrow> fresh_sink (ex_sink (Sack (sacker_configure n d acker_new)))"
  by (auto simp: fresh_sink_def ex_sink_def)

lemma ex_good: "0 \<le> q \<Longrightarrow> good_pkt (\<lambda>_. 1000) (ex_tcp q t)"
  by (simp add: good_pkt_def ex_tcp_def)

lemma ex_simps [simp]: "sn_bytes (ex_sink a) = 0" "sn_lastreset (ex_sink a) = 0" "sn_acker (ex_sink a) = a"
  "tp_seqno (ex_tcp q t) = q" "tp_ts (ex_tcp q t) = t"
  by (simp_all add: ex_sink_def ex_tcp_def)

text \<open>C12. A new TCP receiver, with or without selective acknowledgments, handles any packets, in
  any order, repeated or not: its loops end, each packet causes one acknowledgment, whose number is
  the one before the first packet missing at that moment, and the bytes delivered are those of the
  packets before the first missing one, each counted once.\<close>

theorem sink_acks_cumulative:
  assumes "fresh_sink s" "\<forall>(now, p)\<in>set ps. good_pkt f p \<and> sn_lastreset s \<le> tp_ts p"
  shows "\<exists>t. sink_run ps s = Some t \<and> first_missing (seqs ps) (sink_next t) \<and>
    sn_bytes t = (\<Sum>i = 0..<sink_next t. f i) \<and> length (acks t) = length ps \<and>
    (\<forall>k<length ps. first_missing (seqs (take (Suc k) ps)) (ta_seqno (acks t ! k) + 1))"
proof -
  from sink_run_ok [OF fresh_ok [OF assms(1)] assms(2)] obtain t as where
    "sink_run ps s = Some t" "sink_ok (got_of f (seqs ps)) t" "sn_bytes t = (\<Sum>i = 0..<sink_next t. f i)" "acks t = as"
    "length as = length ps"
    "\<forall>k<length ps. ack_says (acker_kind (sn_acker s)) (seqs (take (Suc k) ps)) (snd (ps ! k)) (as ! k)"
    using assms(1) by (auto simp: fresh_next fresh_acks) (auto simp: fresh_sink_def)
  then show ?thesis by (intro exI [of _ t]) (simp add: sink_next_missing ack_says_def)
qed

theorem sink_acks_cumulative_witness:
  "\<exists>t. sink_run [(1, ex_tcp 0 1), (2, ex_tcp 2 2), (3, ex_tcp 2 2), (4, ex_tcp 1 3)] (ex_sink (Plain acker_new)) = Some t \<and>
     first_missing {0, 1, 2} (sink_next t) \<and> sn_bytes t = (\<Sum>i = 0..<sink_next t. 1000) \<and> length (acks t) = 4"
proof -
  let ?ps = "[(1 :: real, ex_tcp 0 1), (2, ex_tcp 2 2), (3, ex_tcp 2 2), (4, ex_tcp 1 3)]"
  have "\<forall>(now, p)\<in>set ?ps. good_pkt (\<lambda>_. 1000) p \<and> sn_lastreset (ex_sink (Plain acker_new)) \<le> tp_ts p"
    by (simp add: ex_good)
  moreover have "seqs ?ps = {0, 1, 2}" by (auto simp: seqs_def ex_tcp_def)
  ultimately show ?thesis using sink_acks_cumulative [OF ex_fresh(1), of ?ps "\<lambda>_. 1000"] by auto
qed

text \<open>C35. The blocks of a selective acknowledgment, at most three, name packets that have been
  received and nothing else.  For a packet behind the first missing one, with duplicate reports
  off, there is a block, and the first is the longest run of packets around it.\<close>

theorem sack_blocks_received:
  assumes "0 < n" "sn_acker s = Sack (sacker_configure n d acker_new)" "fresh_sink s"
    and "\<forall>(now, p)\<in>set ps. good_pkt f p \<and> sn_lastreset s \<le> tp_ts p"
  shows "\<exists>t. sink_run ps s = Some t \<and> length (acks t) = length ps \<and> (\<forall>k<length ps.
    let S = seqs (take (Suc k) ps); q = tp_seqno (snd (ps ! k)); a = acks t ! k
    in length (ta_blocks a) \<le> 3 \<and> (\<forall>(l, r)\<in>set (ta_blocks a). l < r \<and> {l..<r} \<subseteq> S) \<and>
      (ta_seqno a < q \<and> \<not> d \<longrightarrow> ta_blocks a \<noteq> [] \<and>
         (case hd (ta_blocks a) of (l, r) \<Rightarrow> l \<le> q \<and> q < r \<and> l - 1 \<notin> S \<and> r \<notin> S)))"
proof -
  from assms(1,2) obtain m where m: "acker_kind (sn_acker s) = Some (m, d)" "0 < m"
    by (auto simp: sacker_configure_def Let_def NSA_def)
  from sink_run_ok [OF fresh_ok [OF assms(3)] assms(4)] obtain t as where
    "sink_run ps s = Some t" "acks t = as" "length as = length ps"
    "\<forall>k<length ps. ack_says (Some (m, d)) (seqs (take (Suc k) ps)) (snd (ps ! k)) (as ! k)"
    using assms(3) m(1) by (auto simp: fresh_acks)
  with m(2) show ?thesis by (intro exI [of _ t]) (simp add: ack_says_def Let_def split_beta')
qed

theorem sack_blocks_received_witness:
  "\<exists>t. sink_run [(1, ex_tcp 0 1), (2, ex_tcp 2 2)] (ex_sink (Sack (sacker_configure 3 False acker_new))) = Some t \<and>
     length (acks t) = 2"
  using sack_blocks_received [of 3 "ex_sink (Sack (sacker_configure 3 False acker_new))" False
    "[(1, ex_tcp 0 1), (2, ex_tcp 2 2)]" "\<lambda>_. 1000"] ex_fresh(2) [of 3 False] ex_good [of 0 1] ex_good [of 2 2]
  by (auto simp: ex_sink_def ex_tcp_def)

text \<open>C36. A delaying receiver never leaves more than one packet unacknowledged.  At every moment of
  its life a packet waits exactly while the timer is pending.  The next packet either is
  acknowledged at once, and then nothing waits, or it waits: it is in sequence, nothing waited
  before it, and the timer is started.  When the timer expires, the packet that waits is
  acknowledged.  A reset may intervene where no selective acknowledgment blocks are kept.\<close>

theorem delayed_acks:
  assumes "del_sink f s0 S s"
  shows "(sn_pending s \<longleftrightarrow> sn_save s \<noteq> None) \<and> first_missing S (sink_next s) \<and>
    (\<forall>now p. good_pkt f p \<and> sn_lastreset s \<le> tp_ts p \<longrightarrow> (\<exists>t. del_recv now p s = Some t \<and>
       sn_bytes t = sn_bytes s + (\<Sum>i = sink_next s..<sink_next t. f i) \<and>
       (\<not> sn_pending t \<and> (\<exists>a. acks t = acks s @ [a] \<and> ta_seqno a = sink_next t - 1) \<or>
        \<not> sn_pending s \<and> sn_pending t \<and> acks t = acks s \<and> sn_save t = Some p \<and> tp_seqno p = sink_next t - 1 \<and>
        last (sn_out t) = DelayTimer (sn_interval s)))) \<and>
    (\<forall>now. sn_pending s \<longrightarrow> (\<exists>t a. del_expire now s = Some t \<and> \<not> sn_pending t \<and> acks t = acks s @ [a] \<and>
       ta_seqno a = sink_next s - 1))"
proof -
  from assms have ok: "del_ok f S s" by (rule del_sink_ok)
  have "\<exists>t. del_recv now p s = Some t \<and> sn_bytes t = sn_bytes s + (\<Sum>i = sink_next s..<sink_next t. f i) \<and>
       (\<not> sn_pending t \<and> (\<exists>a. acks t = acks s @ [a] \<and> ta_seqno a = sink_next t - 1) \<or>
        \<not> sn_pending s \<and> sn_pending t \<and> acks t = acks s \<and> sn_save t = Some p \<and> tp_seqno p = sink_next t - 1 \<and>
        last (sn_out t) = DelayTimer (sn_interval s))"
    if "good_pkt f p \<and> sn_lastreset s \<le> tp_ts p" for now p
    using del_recv_ok [OF ok, of p now] that by (auto simp: waits_def acked_def ack_ok_def)
  moreover have "\<exists>t a. del_expire now s = Some t \<and> \<not> sn_pending t \<and> acks t = acks s @ [a] \<and> ta_seqno a = sink_next s - 1"
    if "sn_pending s" for now
    using del_expire_ok [OF ok that, of now] by (auto simp: acked_def ack_ok_def)
  moreover have "first_missing S (sink_next s)" using ok sink_next_missing [of f S s] by (simp add: del_ok_def)
  ultimately show ?thesis using ok unfolding del_ok_def by blast
qed

theorem delayed_acks_witness:
  "\<exists>t. del_recv 1 (ex_tcp 0 1) (ex_sink (Plain acker_new)) = Some t \<and> sn_bytes t = (\<Sum>i = 0..<sink_next t. 1000)"
proof -
  have "del_sink (\<lambda>_. 1000) (ex_sink (Plain acker_new)) {} (ex_sink (Plain acker_new))" by (intro created ex_fresh)
  note H = delayed_acks [OF this, THEN conjunct2, THEN conjunct2, THEN conjunct1,
    THEN spec [where x = 1], THEN spec [where x = "ex_tcp 0 1"], THEN mp]
  have "good_pkt (\<lambda>_. 1000) (ex_tcp 0 1) \<and> sn_lastreset (ex_sink (Plain acker_new)) \<le> tp_ts (ex_tcp 0 1)"
    by (simp add: ex_good)
  from H [OF this] obtain t where "del_recv 1 (ex_tcp 0 1) (ex_sink (Plain acker_new)) = Some t"
    "sn_bytes t = 0 + (\<Sum>i = 0..<sink_next t. 1000)" unfolding fresh_next [OF ex_fresh(1)] ex_simps by blast
  then show ?thesis by simp
qed

end
