(* ===== verification/TcpReset.thy ===== *)
theory TcpReset
  imports TcpReceive
begin

text \<open>
  The reset of a sink and the stack of blocks.  \<open>TcpSink::reset\<close> calls \<open>Acker::reset\<close>, which is
  not virtual, and not \<open>Sacker::reset\<close>: the blocks of the previous connection remain.
\<close>

lemma sacker_reset_ok: "sacker_ok got k \<Longrightarrow> sacker_ok (\<lambda>_. None) (sacker_reset k)"
  using ss_reset_ok acker_ok_reset
  by (fastforce simp: sacker_ok_def sacker_reset_def ss_reset_def intro!: exI [of _ "[]"])

text \<open>The history of at most one block that is not covered.\<close>

lemma history_short:
  assumes ss: "ss_ok bs sf" and size: "2 \<le> base" "base = ss_size sf" "q \<le> m"
    and bs: "bs = [] \<or> (\<exists>l r. bs = [(l, r)] \<and> 0 \<le> l \<and> l < r \<and> r \<le> q)"
  shows "sack_history base m (q, q + 1) 0 [(q, q + 1)] sf = Some ((q, q + 1) # bs, sf)"
proof -
  note unf = sack_history.simps [of base m "(q, q + 1)"]
  have stop: "sack_history base m (q, q + 1) (int (length bs)) ((q, q + 1) # bs) sf = Some ((q, q + 1) # bs, sf)"
  proof (cases "int (length bs) < ss_size sf")
    case True
    with ss_head_end [OF ss] show ?thesis by (simp add: unf)
  next
    case False
    with size show ?thesis by (subst unf) simp
  qed
  from bs show ?thesis
  proof
    assume "\<exists>l r. bs = [(l, r)] \<and> 0 \<le> l \<and> l < r \<and> r \<le> q"
    then obtain l r where b: "bs = [(l, r)]" "0 \<le> l" "l < r" "r \<le> q" by blast
    have "ss_head 0 sf = Some (l, r)" using ss_head_ok [OF ss, of 0] b(1) by simp
    then have "sack_history base m (q, q + 1) 0 [(q, q + 1)] sf = sack_history base m (q, q + 1) 1 ([(q, q + 1)] @ bs) sf"
      using b size by (subst unf) simp
    with stop b(1) show ?thesis by simp
  qed (use stop in simp)
qed

text \<open>The only packet received is a block of its own.\<close>

lemma run_around_single: "run_around (got_of f {q}) q b \<Longrightarrow> b = (q, q + 1)"
proof -
  assume run: "run_around (got_of f {q}) q b"
  then have b: "fst b \<le> q" "q < snd b" "{fst b..<snd b} \<subseteq> {q}" using block_got_of [of f "{q}" b]
    by (simp_all add: run_around_def)
  then have "fst b \<in> {fst b..<snd b}" "snd b - 1 \<in> {fst b..<snd b}" by simp_all
  with b(3) have "fst b = q" "snd b - 1 = q" by blast+
  then show ?thesis by (cases b) auto
qed

lemma append_first:
  assumes a: "acker_ok (got_of f {q}) (sk_acker k)" and q: "0 < q" "q \<le> ak_maxseen (sk_acker k)"
    and k: "2 \<le> sk_base_nblocks k" "sk_base_nblocks k = ss_size (sk_sf k)" "\<not> sk_dsacks k" "ss_ok bs (sk_sf k)"
    and bs: "bs = [] \<or> (\<exists>l r. bs = [(l, r)] \<and> 0 \<le> l \<and> l < r \<and> r \<le> q)"
  shows "\<exists>sf. append_ack q k = Some ((q, q + 1) # bs, k\<lparr>sk_sf := sf\<rparr>) \<and> ss_size sf = ss_size (sk_sf k) \<and>
    ss_ok ((q, q + 1) # take (nat (ss_size sf) - 1) bs) sf"
proof -
  let ?a = "sk_acker k"
  have "ak_next ?a = 0"
  proof (rule ccontr)
    assume "ak_next ?a \<noteq> 0"
    with a have "got_of f {q} 0 \<noteq> None" by (simp add: acker_ok_def)
    with q(1) show False by (simp add: got_of_def split: if_splits)
  qed
  then have s: "ack_Seqno ?a = - 1" by (simp add: ack_Seqno_def)
  have "run_around (got_of f {q}) q (sack_left ?a (ack_Seqno ?a) (sack_right ?a q), sack_right ?a q)"
    using first_block_ok [OF a, of q] q s by (simp add: got_of_def)
  from run_around_single [OF this] have lr: "sack_left ?a (- 1) (q + 1) = q" "sack_right ?a q = q + 1" using s by auto
  let ?sf = "ss_set_head (q, q + 1) (ss_push 0 (sk_sf k))"
  have "append_ack q k = Some ((q, q + 1) # bs, k\<lparr>sk_sf := ?sf\<rparr>)"
    using q k s lr history_short [OF k(4) k(1,2) q(2) bs] by (simp add: append_ack_def Let_def)
  moreover have "ss_size ?sf = ss_size (sk_sf k)" by (simp add: ss_set_head_def ss_push_def Let_def)
  moreover have "0 < ss_size (sk_sf k)" using k(1,2) by simp
  ultimately show ?thesis using ss_push_ok [OF k(4), of "(q, q + 1)"] by auto
qed

lemma sink_ecn_map: "\<exists>e x v. sink_ecn p s = (e, x, map_acker (update_ecn_unacked v) (sn_acker s))"
proof -
  have same: "map_acker (update_ecn_unacked (ak_ecn_unacked (the_acker a))) a = a" for a
    by (cases a) (simp_all add: update_ecn_unacked_def)
  have twice: "map_acker (update_ecn_unacked w) (map_acker (update_ecn_unacked v) a) = map_acker (update_ecn_unacked w) a" for v w a
    by (cases a) (simp_all add: update_ecn_unacked_def)
  have "\<exists>v. snd (snd (sink_ecn p s)) = map_acker (update_ecn_unacked v) (sn_acker s)"
    unfolding sink_ecn_def Let_def if_distrib [where f = snd] snd_conv if_cancel
    using same [of "sn_acker s"] by (simp add: twice) metis
  then show ?thesis by (metis prod.collapse)
qed

text \<open>The first packet after a reset, out of sequence.\<close>

lemma recv_first:
  assumes s: "sn_acker s = Sack k" "acker_ok (got_of f {}) (sk_acker k)" and p: "good_pkt f p" "0 < tp_seqno p" "sn_lastreset s \<le> tp_ts p"
    and k: "2 \<le> sk_base_nblocks k" "sk_base_nblocks k = ss_size (sk_sf k)" "\<not> sk_dsacks k" "ss_ok bs (sk_sf k)"
    and bs: "bs = [] \<or> (\<exists>l r. bs = [(l, r)] \<and> 0 \<le> l \<and> l < r \<and> r \<le> tp_seqno p)"
  shows "\<exists>t k' a. sink_recv now p s = Some t \<and> acks t = acks s @ [a] \<and> ta_seqno a = - 1 \<and>
    ta_blocks a = (tp_seqno p, tp_seqno p + 1) # bs \<and> sn_acker t = Sack k' \<and> acker_ok (got_of f {tp_seqno p}) (sk_acker k') \<and>
    sk_base_nblocks k' = sk_base_nblocks k \<and> sk_base_nblocks k' = ss_size (sk_sf k') \<and> \<not> sk_dsacks k' \<and>
    ss_ok ((tp_seqno p, tp_seqno p + 1) # take (nat (ss_size (sk_sf k')) - 1) bs) (sk_sf k') \<and> sn_lastreset t = sn_lastreset s"
proof -
  let ?q = "tp_seqno p" let ?g = "got_of f {?q}"
  have q: "0 \<le> ?q" "0 < tp_size p" "tp_size p = f ?q" using p(1) by (simp_all add: good_pkt_def)
  define a where "a = update_ts ?q (tp_ts p) (sn_ts_echo_rfc1323 s) (sk_acker k)"
  have a: "acker_ok (got_of f {}) a" using s(2) by (simp add: a_def)
  have "arrive ?q (tp_size p) a (got_of f {}) = ?g" using got_of_arrive [OF a q(1)] q(3) by simp
  with acker_update_ok [OF a q(2), of ?q] obtain n b where
    b: "acker_update ?q (tp_size p) a = Some (n, b)" "acker_ok ?g b" "ak_maxseen b = max ?q (ak_maxseen a)" by auto
  define u where "u = (let s = s\<lparr>sn_acker := Sack (k\<lparr>sk_acker := b\<rparr>)\<rparr>
    in if n \<noteq> 0 then sink_emit (Delivered n) (s\<lparr>sn_bytes := sn_bytes s + n\<rparr>) else s)"
  have u: "sink_update p s = Some u" "sn_acker u = Sack (k\<lparr>sk_acker := b\<rparr>)" "acks u = acks s" "sn_lastreset u = sn_lastreset s"
    using b(1) s(1) by (simp_all add: sink_update_def u_def Let_def a_def)
  from sink_ecn_map [of p u] obtain e x v where
    e: "sink_ecn p u = (e, x, Sack (k\<lparr>sk_acker := update_ecn_unacked v b\<rparr>))" by (auto simp: u(2))
  let ?k = "k\<lparr>sk_acker := update_ecn_unacked v b\<rparr>"
  have kb: "acker_ok ?g (sk_acker ?k)" "?q \<le> ak_maxseen (sk_acker ?k)" using b(2,3) by (simp_all add: update_ecn_unacked_def)
  from append_first [of f ?q ?k bs] kb p(2) k bs obtain sf where
    sf: "append_ack ?q ?k = Some ((?q, ?q + 1) # bs, ?k\<lparr>sk_sf := sf\<rparr>)" "ss_size sf = ss_size (sk_sf k)"
      "ss_ok ((?q, ?q + 1) # take (nat (ss_size sf) - 1) bs) sf" by auto
  obtain qf qt qr where qs: "sink_qs p u = (qf, qt, qr)" by (metis surj_pair)
  have "sink_next u = 0"
  proof (rule ccontr)
    assume "sink_next u \<noteq> 0"
    then have "?g 0 \<noteq> None" using b(2) by (simp add: acker_ok_def sink_next_def u(2))
    with p(2) show False by (simp add: got_of_def split: if_splits)
  qed
  then have no: "ack_Seqno b = - 1" by (simp add: ack_Seqno_def sink_next_def u(2))
  have "\<not> tp_ts p < sn_lastreset s" using p(3) by simp
  then show ?thesis using u e sf qs no kb(1) k(1-3)
    by (simp add: sink_recv_def sink_ack_def Let_def)
qed

lemma reset_frame [simp]: "sn_acker (sink_reset now s) = map_acker acker_reset (sn_acker s)" "acks (sink_reset now s) = acks s"
  "sn_lastreset (sink_reset now s) = now"
  by (simp_all add: sink_reset_def acks_def)

text \<open>C37. A reset does not clear the selective acknowledgments.  A new receiver with at least two
  blocks gets packet \<open>l\<close> out of sequence, is reset for the next connection, and gets packet \<open>q\<close>
  out of sequence.  Its acknowledgment reports \<open>l\<close> as received, although no packet but \<open>q\<close> has
  arrived since the reset.\<close>

theorem reset_keeps_sack_blocks:
  assumes "fresh_sink s" "sn_acker s = Sack (sacker_configure n False acker_new)" "2 \<le> n"
    and p: "good_pkt f p" "0 < tp_seqno p" "sn_lastreset s \<le> tp_ts p"
    and q: "good_pkt f q" "tp_seqno p < tp_seqno q" "now \<le> tp_ts q"
  shows "\<exists>t u a b. sink_recv now1 p s = Some t \<and> acks t = [a] \<and> sink_recv now2 q (sink_reset now t) = Some u \<and>
    acks u = [a, b] \<and> ta_seqno b = - 1 \<and>
    ta_blocks b = [(tp_seqno q, tp_seqno q + 1), (tp_seqno p, tp_seqno p + 1)]"
proof -
  let ?k = "sacker_configure n False acker_new"
  have k: "2 \<le> sk_base_nblocks ?k" "sk_base_nblocks ?k = ss_size (sk_sf ?k)" "\<not> sk_dsacks ?k" "ss_ok [] (sk_sf ?k)" "sk_acker ?k = acker_new"
    using assms(3) ss_ok_new [of n] ss_ok_new [of NSA]
    by (auto simp: sacker_configure_def Let_def NSA_def sack_stack_new_def)
  have "acker_ok (got_of f {}) (sk_acker ?k)" using acker_ok_new by (simp add: got_of_empty k(5))
  from recv_first [OF assms(2) this p k(1-4), of now1] fresh_acks [OF assms(1)] obtain t k' a where
    t: "sink_recv now1 p s = Some t" "acks t = [a]" "sn_acker t = Sack k'" "acker_ok (got_of f {tp_seqno p}) (sk_acker k')"
      "2 \<le> sk_base_nblocks k'" "sk_base_nblocks k' = ss_size (sk_sf k')" "\<not> sk_dsacks k'"
      "ss_ok [(tp_seqno p, tp_seqno p + 1)] (sk_sf k')" using k(1) by auto
  let ?r = "k'\<lparr>sk_acker := acker_reset (sk_acker k')\<rparr>"
  have r: "sn_acker (sink_reset now t) = Sack ?r" using t(3) by simp
  have "acker_ok (got_of f {}) (sk_acker ?r)" using acker_ok_reset [OF t(4)] by (simp add: got_of_empty)
  from recv_first [OF r this q(1) _ _ _ _ _ _ disjI2, of "[(tp_seqno p, tp_seqno p + 1)]" now2] t(2,5-8) p(2) q(2,3)
  show ?thesis using t(1) by auto
qed

theorem reset_keeps_sack_blocks_witness:
  "\<exists>t u a b. sink_recv 1 (ex_tcp 1 1) (ex_sink (Sack (sacker_configure 3 False acker_new))) = Some t \<and> acks t = [a] \<and>
    sink_recv 3 (ex_tcp 3 3) (sink_reset 2 t) = Some u \<and> acks u = [a, b] \<and> ta_seqno b = - 1 \<and> ta_blocks b = [(3, 4), (1, 2)]"
  using reset_keeps_sack_blocks [of "ex_sink (Sack (sacker_configure 3 False acker_new))" 3 "\<lambda>_. 1000" "ex_tcp 1 1" "ex_tcp 3 3" 2 1 3]
    ex_fresh(2) [of 3 False] ex_good [of 1 1] ex_good [of 3 3] by simp

end
