(* ===== verification/TcpState.thy ===== *)
theory TcpState
  imports TcpSink
begin

text \<open>
  The TCP sender, class TcpAgent of tcp/tcp.h and tcp/tcp.cc and its subclasses RenoTcpAgent and
  NewRenoTcpAgent: its parameters, which are bound Tcl variables, and its state.  C ints are
  integers and doubles reals.  What the sender sends, and the calls of its timers, the application
  and Tcl, are appended to \<open>tc_out\<close>; freeing acknowledgments and event tracing are left out.  The class of the object
  is a parameter; the virtual methods dispatch on it.
\<close>

section \<open>Parameters\<close>

datatype tcp_class = Tahoe | Reno | NewReno

record tcp_conf =
  cf_class :: tcp_class
  cf_wnd :: real
  cf_wnd_const :: real
  cf_wnd_th :: real
  cf_tcp_tick :: real
  cf_wnd_option :: int
  cf_increase_num :: real
  cf_tcpip_base_hdr_size :: int
  cf_maxcwnd :: int
  cf_numdupacks :: int
  cf_size :: int
  cf_overhead :: real
  cf_ttl :: int
  cf_flowid :: int
  cf_maxrto :: real
  cf_minrto :: real
  cf_ts_resetRTO :: bool
  cf_ts_option_size :: int
  cf_ts_option :: bool
  cf_T_SRTT_BITS :: nat
  cf_T_RTTVAR_BITS :: nat
  cf_rttvar_exp :: nat
  cf_srtt_init :: int
  cf_rttvar_init :: int
  cf_rtxcur_init :: real
  cf_timerfix :: bool
  cf_rfc2988 :: bool
  cf_syn :: bool
  cf_delay_growth :: bool
  cf_max_connects :: int
  cf_frto_enabled :: bool
  cf_sfrto_enabled :: bool
  cf_spurious_response :: int
  cf_bug_fix :: bool
  cf_less_careful :: bool
  cf_exitFastRetrans :: bool
  cf_bugfix_ack :: bool
  cf_bugfix_ts :: bool
  cf_bugfix_ss :: bool
  cf_old_ecn :: bool
  cf_k_parameter :: real
  cf_l_parameter :: real
  cf_precision_reduce :: bool
  cf_maxburst :: int
  cf_aggressive_maxburst :: bool
  cf_slow_start_restart :: bool
  cf_restart_bugfix :: bool
  cf_singledup :: bool
  cf_noFastRetrans :: bool
  cf_useHeaders :: bool
  cf_ecn :: bool
  cf_SetCWRonRetransmit :: bool
  cf_eln :: bool
  cf_eln_rxmit_thresh :: int
  cf_low_window :: int
  cf_high_window :: int
  cf_high_p :: real
  cf_high_decrease :: real
  cf_max_ssthresh :: int
  cf_cwnd_range :: int
  cf_rate_request :: int
  cf_qs_enabled :: bool
  cf_tcp_qs_recovery :: bool
  cf_qs_request_mode :: int
  cf_qs_thresh :: int
  cf_qs_rtt :: int
  cf_rate_function :: int
  cf_QOption :: bool
  cf_EnblRTTCtr :: bool
  cf_control_increase :: bool
  cf_newreno_changes :: int
  cf_newreno_changes1 :: bool
  cf_partial_window_deflation :: bool
  cf_exit_recovery_fix :: bool

section \<open>The round-trip time\<close>

record tcp_rtt =
  rtt_active :: bool
  rtt_seq :: int
  rtt_ts :: real
  t_rtt :: int
  t_srtt :: int
  t_rttvar :: int
  t_backoff :: int
  t_rtxcur :: real
  boot_time :: real
  use_rtt :: bool

section \<open>Packets and effects\<close>

datatype tx_reason = REASON_NONE | REASON_TIMEOUT | REASON_DUPACK

record tcp_seg =
  sg_seqno :: int
  sg_ts :: real
  sg_ts_echo :: real
  sg_reason :: tx_reason
  sg_last_rtt :: int
  sg_size :: int
  sg_flowid :: int
  sg_qs :: bool
  sg_ect :: bool
  sg_cong_action :: bool
  sg_ecnecho :: bool
  sg_qs_flag :: qs_state
  sg_qs_ttl :: int
  sg_qs_rate :: int

text \<open>The acknowledgment of a receiver, with the flags that agents on the way can set.\<close>

record ack_pkt = tcp_ack +
  ap_cong_action :: bool
  ap_no_ts :: bool
  ap_eln :: bool

datatype tcp_out = SegSent tcp_seg | RtxTimer real | RtxCancelled | DelSndTimer real | AppIdle | ConnDone

section \<open>The state of a sender\<close>

datatype cwnd_action = ACTION_NONE | ACTION_DUPACK | ACTION_TIMEOUT | ACTION_ECN | ACTION_EXITED

record hstcp =
  hs_low_p :: real
  hs_dec1 :: real
  hs_dec2 :: real
  hs_p1 :: real
  hs_p2 :: real
  hs_cwnd_last :: real
  hs_increase_last :: real

record qoption =
  qo_last :: int
  qo_prev :: int
  qo_start :: int
  qo_RTT_count :: int
  qo_RTT_prev :: int
  qo_RTT_goodcount :: int
  qo_F_counting :: bool
  qo_W_used :: int
  qo_W_timed :: int
  qo_F_full :: bool
  qo_Backoffs :: int

record tcp_stats =
  ndatapack :: int
  ndatabytes :: int
  nackpack :: int
  nrexmit :: int
  nrexmitpack :: int
  nrexmitbytes :: int
  necnresponses :: int
  ncwndcuts :: int
  ncwndcuts1 :: int

record newreno =
  nr_acked :: int
  nr_new_ssthresh :: int
  nr_ack2 :: real
  nr_ack3 :: real
  nr_basertt :: real
  nr_firstpartial :: bool

text \<open>
  \<open>tc_rtx\<close>, \<open>tc_delsnd\<close> and \<open>tc_burstsnd\<close> tell whether the timer is pending; \<open>tc_tss\<close> is empty
  while the array is not allocated; \<open>tc_random\<close> are the draws from the random number generator to
  come, each in $[0, 1)$.
\<close>

record tcp =
  tc_t_seqno :: int
  tc_dupacks :: int
  tc_curseq :: int
  tc_highest_ack :: int
  tc_cwnd :: real
  tc_ssthresh :: int
  tc_maxseq :: int
  tc_last_ack :: int
  tc_recover :: int
  tc_last_cwnd_action :: cwnd_action
  tc_count :: int
  tc_firstsent :: real
  tc_lastreset :: real
  tc_closed :: bool
  tc_rtt :: tcp_rtt
  tc_wnd_init :: real
  tc_wnd_init_option :: int
  tc_wnd_restart :: real
  tc_decrease_num :: real
  tc_ts_peer :: real
  tc_ts_echo :: real
  tc_tss :: "real list"
  tc_tss_size :: int
  tc_rtx :: bool
  tc_delsnd :: bool
  tc_burstsnd :: bool
  tc_syn_connects :: int
  tc_awnd :: real
  tc_first_decrease :: bool
  tc_fcnt :: real
  tc_cong_action :: bool
  tc_ecn_burst :: bool
  tc_ecn_backoff :: bool
  tc_ect :: bool
  tc_eln_last_rxmit :: int
  tc_hs :: hstcp
  tc_qs_requested :: bool
  tc_qs_approved :: bool
  tc_qs_window :: int
  tc_qs_cwnd :: int
  tc_ttl_diff :: int
  tc_frto :: int
  tc_pipe_prev :: int
  tc_qo :: qoption
  tc_prev_highest_ack :: int
  tc_dupwnd :: int
  tc_newreno :: newreno
  tc_stats :: tcp_stats
  tc_random :: "nat \<Rightarrow> real"
  tc_out :: "tcp_out list"

definition tcp_emit :: "tcp_out \<Rightarrow> tcp \<Rightarrow> tcp" where
  "tcp_emit x s = s\<lparr>tc_out := tc_out s @ [x]\<rparr>"

definition tcp_draw :: "tcp \<Rightarrow> real \<times> tcp" where
  "tcp_draw s = (tc_random s 0, s\<lparr>tc_random := \<lambda>i. tc_random s (Suc i)\<rparr>)"

definition map_rtt :: "(tcp_rtt \<Rightarrow> tcp_rtt) \<Rightarrow> tcp \<Rightarrow> tcp" where
  "map_rtt f s = s\<lparr>tc_rtt := f (tc_rtt s)\<rparr>"

text \<open>Timers: \<open>resched\<close> of the retransmission timer and of the timer for delayed sending.\<close>

definition rtx_resched :: "real \<Rightarrow> tcp \<Rightarrow> tcp" where
  "rtx_resched d s = tcp_emit (RtxTimer d) (s\<lparr>tc_rtx := True\<rparr>)"

definition cancel_rtx_timer :: "tcp \<Rightarrow> tcp" where
  "cancel_rtx_timer s = (if tc_rtx s then tcp_emit RtxCancelled (s\<lparr>tc_rtx := False\<rparr>) else s)"

definition delsnd_resched :: "real \<Rightarrow> tcp \<Rightarrow> tcp" where
  "delsnd_resched d s = tcp_emit (DelSndTimer d) (s\<lparr>tc_delsnd := True\<rparr>)"

definition cancel_timers :: "tcp \<Rightarrow> tcp" where
  "cancel_timers s = (cancel_rtx_timer s)\<lparr>tc_burstsnd := False, tc_delsnd := False\<rparr>"

end
