(* ===== verification/TcpRtt.thy ===== *)
theory TcpRtt
  imports TcpState
begin

unbundle bit_operations_syntax

text \<open>
  The estimate of the round-trip time and the retransmission timeout of TcpAgent.  The smoothed
  time and its variation are fixed-point numbers of clock ticks, with \<open>T_SRTT_BITS\<close> and
  \<open>T_RTTVAR_BITS\<close> bits behind the point; the deviation of a sample is a 16-bit \<open>short\<close>.  The shift
  \<open>rttvar_exp_ + (T_SRTT_BITS - T_RTTVAR_BITS)\<close> of the timeout is 3 by default; a setting that makes
  it negative is undefined in C and shifts by nothing here.
\<close>

section \<open>The operations\<close>

definition to_short :: "int \<Rightarrow> int" where
  "to_short x = sint (word_of_int x :: 16 word)"

definition rtt_init :: "tcp_conf \<Rightarrow> tcp_rtt \<Rightarrow> tcp_rtt" where
  "rtt_init c r = r\<lparr>t_rtt := 0,
     t_srtt := push_bit (cf_T_SRTT_BITS c) (to_int (of_int (cf_srtt_init c) / cf_tcp_tick c)),
     t_rttvar := push_bit (cf_T_RTTVAR_BITS c) (to_int (of_int (cf_rttvar_init c) / cf_tcp_tick c)),
     t_rtxcur := cf_rtxcur_init c, t_backoff := 1\<rparr>"

text \<open>\<open>exit(1)\<close> for a negative timeout is the result \<open>None\<close>.\<close>

definition rtt_timeout :: "tcp_conf \<Rightarrow> tcp_rtt \<Rightarrow> (real \<times> tcp_rtt) option" where
  "rtt_timeout c r =
     (let b = of_int (t_backoff r);
          t = (if cf_rfc2988 c then
                 (if t_rtxcur r < cf_minrto c \<and> \<not> use_rtt r then cf_minrto c * b else t_rtxcur r * b)
               else if t_rtxcur r * b < cf_minrto c then cf_minrto c else t_rtxcur r * b);
          t = (if t > cf_maxrto c then cf_maxrto c else t)
      in if t < 2 * cf_tcp_tick c then
           (if t < 0 then None
            else Some (if use_rtt r \<and> t < cf_tcp_tick c then cf_tcp_tick c else 2 * cf_tcp_tick c, r\<lparr>use_rtt := False\<rparr>))
         else Some (t, r\<lparr>use_rtt := False\<rparr>))"

text \<open>A sample of \<open>tao\<close> seconds in ticks, at least one.\<close>

definition rtt_sample :: "tcp_conf \<Rightarrow> real \<Rightarrow> real \<Rightarrow> tcp_rtt \<Rightarrow> int" where
  "rtt_sample c now tao r =
     (let m = (if cf_ts_option c then to_int (tao / cf_tcp_tick c + 1 / 2)
               else (let tickoff = c_fmod (now - tao + boot_time r) (cf_tcp_tick c)
                     in to_int ((tao + tickoff) / cf_tcp_tick c)))
      in if m < 1 then 1 else m)"

definition rtt_smooth :: "tcp_conf \<Rightarrow> tcp_rtt \<Rightarrow> tcp_rtt" where
  "rtt_smooth c r =
     (if t_srtt r \<noteq> 0 then
        (let delta = to_short (t_rtt r - drop_bit (cf_T_SRTT_BITS c) (t_srtt r));
             srtt = (if t_srtt r + delta \<le> 0 then 1 else t_srtt r + delta);
             delta = (if delta < 0 then to_short (- delta) else delta);
             delta = to_short (delta - drop_bit (cf_T_RTTVAR_BITS c) (t_rttvar r))
         in r\<lparr>t_srtt := srtt, t_rttvar := (if t_rttvar r + delta \<le> 0 then 1 else t_rttvar r + delta)\<rparr>)
      else r\<lparr>t_srtt := push_bit (cf_T_SRTT_BITS c) (t_rtt r), t_rttvar := push_bit (cf_T_RTTVAR_BITS c - 1) (t_rtt r)\<rparr>)"

definition rtt_update :: "tcp_conf \<Rightarrow> real \<Rightarrow> real \<Rightarrow> tcp_rtt \<Rightarrow> tcp_rtt" where
  "rtt_update c now tao r =
     (let r = rtt_smooth c (r\<lparr>t_rtt := rtt_sample c now tao r\<rparr>)
      in r\<lparr>t_rtxcur := of_int (drop_bit (cf_T_SRTT_BITS c)
             (push_bit (cf_rttvar_exp c + cf_T_SRTT_BITS c - cf_T_RTTVAR_BITS c) (t_rttvar r) + t_srtt r)) *
             cf_tcp_tick c\<rparr>)"

text \<open>From a backoff of 64 on, \<open>rtt_timeout\<close> is called for its value, and resets \<open>use_rtt_\<close>.\<close>

definition rtt_backoff :: "tcp_conf \<Rightarrow> tcp_rtt \<Rightarrow> tcp_rtt option" where
  "rtt_backoff c r =
     (let clobber = \<lambda>r. (if t_backoff r > 8
        then r\<lparr>t_rttvar := t_rttvar r + drop_bit (cf_T_SRTT_BITS c) (t_srtt r), t_srtt := 0\<rparr> else r);
          double = \<lambda>r. r\<lparr>t_backoff := 2 * t_backoff r\<rparr>
      in if t_backoff r < 64 then Some (clobber (double r))
         else if cf_rfc2988 c then
           (case rtt_timeout c r of
              None \<Rightarrow> None
            | Some (t, r) \<Rightarrow> Some (clobber (if t < cf_maxrto c then double r else r)))
         else Some (clobber r))"

section \<open>The estimate\<close>

text \<open>The parameters a simulation must choose for a sane timer, and the invariant.\<close>

definition timer_conf :: "tcp_conf \<Rightarrow> bool" where
  "timer_conf c \<longleftrightarrow> 0 < cf_tcp_tick c \<and> 0 \<le> cf_minrto c \<and> 0 \<le> cf_maxrto c \<and> 0 \<le> cf_srtt_init c \<and>
     0 \<le> cf_rttvar_init c \<and> 0 \<le> cf_rtxcur_init c"

definition rtt_ok :: "tcp_rtt \<Rightarrow> bool" where
  "rtt_ok r \<longleftrightarrow> 0 \<le> t_srtt r \<and> 0 \<le> t_rttvar r \<and> 1 \<le> t_backoff r \<and> 0 \<le> t_rtxcur r"

lemma rtt_ok_upd [simp]: "rtt_ok (r\<lparr>use_rtt := u\<rparr>) = rtt_ok r" "rtt_ok (r\<lparr>rtt_active := b\<rparr>) = rtt_ok r"
  "rtt_ok (r\<lparr>rtt_seq := q\<rparr>) = rtt_ok r" "rtt_ok (r\<lparr>rtt_ts := t\<rparr>) = rtt_ok r" "rtt_ok (r\<lparr>t_rtt := m\<rparr>) = rtt_ok r"
  "rtt_ok (r\<lparr>boot_time := t\<rparr>) = rtt_ok r"
  by (simp_all add: rtt_ok_def)

lemma rtt_init_ok: "timer_conf c \<Longrightarrow> rtt_ok (rtt_init c r)"
  by (simp add: timer_conf_def rtt_ok_def rtt_init_def to_int_nonneg push_bit_eq_mult)

lemma rtt_timeout_ok:
  assumes c: "timer_conf c" and r: "rtt_ok r"
  shows "\<exists>t. rtt_timeout c r = Some (t, r\<lparr>use_rtt := False\<rparr>) \<and> cf_tcp_tick c \<le> t \<and> t \<le> max (cf_maxrto c) (2 * cf_tcp_tick c) \<and>
    (\<not> use_rtt r \<longrightarrow> 2 * cf_tcp_tick c \<le> t \<and> min (cf_minrto c) (cf_maxrto c) \<le> t)"
proof -
  define b where "b = (of_int (t_backoff r) :: real)"
  have b: "1 \<le> b" using r by (simp add: b_def rtt_ok_def)
  have le: "x \<le> x * b" if "0 \<le> x" for x using mult_left_mono [OF b that] by simp
  have nonneg: "0 \<le> cf_minrto c * b" "0 \<le> t_rtxcur r * b" using b c r by (simp_all add: timer_conf_def rtt_ok_def)
  have minrto: "cf_minrto c \<le> cf_minrto c * b" using le c by (simp add: timer_conf_def)
  have rtx: "t_rtxcur r \<le> t_rtxcur r * b" using le r by (simp add: rtt_ok_def)
  define t where "t = (if cf_rfc2988 c then
      (if t_rtxcur r < cf_minrto c \<and> \<not> use_rtt r then cf_minrto c * b else t_rtxcur r * b)
    else if t_rtxcur r * b < cf_minrto c then cf_minrto c else t_rtxcur r * b)"
  have t: "0 \<le> t" "\<not> use_rtt r \<longrightarrow> cf_minrto c \<le> t"
    using nonneg minrto rtx c by (auto simp: t_def timer_conf_def)
  define u where "u = (if t > cf_maxrto c then cf_maxrto c else t)"
  have u: "0 \<le> u" "u \<le> cf_maxrto c" "\<not> use_rtt r \<longrightarrow> min (cf_minrto c) (cf_maxrto c) \<le> u"
    using t c by (auto simp: u_def timer_conf_def)
  have "rtt_timeout c r = Some (if u < 2 * cf_tcp_tick c then
      (if use_rtt r \<and> u < cf_tcp_tick c then cf_tcp_tick c else 2 * cf_tcp_tick c) else u, r\<lparr>use_rtt := False\<rparr>)"
    unfolding rtt_timeout_def Let_def b_def [symmetric] t_def [symmetric] u_def [symmetric] using u(1) by simp
  then show ?thesis using u c by (auto simp: timer_conf_def)
qed

lemma rtt_sample_pos: "1 \<le> rtt_sample c now tao r"
  by (simp add: rtt_sample_def Let_def)

lemma rtt_smooth_ok: "rtt_ok r \<Longrightarrow> 0 \<le> t_rtt r \<Longrightarrow> rtt_ok (rtt_smooth c r)"
  by (simp add: rtt_ok_def rtt_smooth_def Let_def push_bit_eq_mult)

lemma rtt_update_ok:
  assumes "timer_conf c" "rtt_ok r"
  shows "rtt_ok (rtt_update c now tao r)"
proof -
  let ?r = "rtt_smooth c (r\<lparr>t_rtt := rtt_sample c now tao r\<rparr>)"
  have "rtt_ok ?r" using assms(2) rtt_sample_pos [of c now tao r] by (intro rtt_smooth_ok) simp_all
  then show ?thesis using assms(1)
    by (simp add: rtt_update_def Let_def rtt_ok_def timer_conf_def push_bit_eq_mult)
qed

lemma rtt_backoff_ok:
  assumes "timer_conf c" "rtt_ok r"
  shows "\<exists>r'. rtt_backoff c r = Some r' \<and> rtt_ok r' \<and> t_backoff r \<le> t_backoff r'"
proof -
  from rtt_timeout_ok [OF assms] obtain t where "rtt_timeout c r = Some (t, r\<lparr>use_rtt := False\<rparr>)" by blast
  then show ?thesis using assms(2) by (auto simp: rtt_backoff_def Let_def rtt_ok_def)
qed

section \<open>The estimate is an exponential average\<close>

lemma to_short_eq: "to_short x = (x + 2 ^ 15) mod 2 ^ 16 - 2 ^ 15"
  by (simp add: to_short_def sint_sbintrunc' signed_take_bit_eq_take_bit_shift take_bit_eq_mod del: signed_of_int)

lemma to_short_id: "\<bar>x\<bar> < 2 ^ 15 \<Longrightarrow> to_short x = x"
  by (simp add: to_short_eq)

lemma to_short_wrap:
  assumes "2 ^ 15 \<le> x" "x < 2 ^ 16"
  shows "to_short x = x - 2 ^ 16"
proof -
  have "(x + 2 ^ 15) mod 2 ^ 16 = (x - 2 ^ 15 + 2 ^ 16) mod 2 ^ 16" by (simp add: add.commute)
  also have "\<dots> = x - 2 ^ 15" using assms by (subst mod_add_self2) simp
  finally show ?thesis by (simp add: to_short_eq)
qed

text \<open>
  As long as no deviation leaves the range of a \<open>short\<close>, the new estimates are the exponential
  averages with gain $2^{-k}$, rounded up by less than one unit of the last place; a variation of
  zero is raised to one.
\<close>

lemma drop_bit_bounds:
  fixes x :: int
  shows "of_int x / 2 ^ k - 1 < (of_int (drop_bit k x) :: real)" "(of_int (drop_bit k x) :: real) \<le> of_int x / 2 ^ k"
proof -
  have "drop_bit k x = \<lfloor>of_int x / (of_int (2 ^ k) :: real)\<rfloor>" by (simp only: floor_divide_of_int_eq drop_bit_eq_div)
  then have "drop_bit k x = \<lfloor>of_int x / (2 ^ k :: real)\<rfloor>" by simp
  then show "of_int x / 2 ^ k - 1 < (of_int (drop_bit k x) :: real)" "(of_int (drop_bit k x) :: real) \<le> of_int x / 2 ^ k"
    by linarith+
qed

lemma drop_bit_le: "0 \<le> x \<Longrightarrow> drop_bit k x \<le> (x :: int)" for x :: int
  using zdiv_mono2 [of x 1 "2 ^ k"] by (simp add: drop_bit_eq_div)

definition deviation :: "tcp_conf \<Rightarrow> tcp_rtt \<Rightarrow> int" where
  "deviation c r = t_rtt r - drop_bit (cf_T_SRTT_BITS c) (t_srtt r)"

lemma rtt_smooth_exact:
  assumes r: "rtt_ok r" "0 < t_srtt r" "1 \<le> t_rtt r" and d: "\<bar>deviation c r\<bar> < 2 ^ 15" "t_rttvar r < 2 ^ 15"
  shows "t_srtt (rtt_smooth c r) = t_srtt r + deviation c r"
    "t_rttvar (rtt_smooth c r) = max 1 (t_rttvar r + (\<bar>deviation c r\<bar> - drop_bit (cf_T_RTTVAR_BITS c) (t_rttvar r)))"
proof -
  let ?d = "deviation c r" let ?v = "drop_bit (cf_T_RTTVAR_BITS c) (t_rttvar r)"
  have v: "0 \<le> ?v" "?v \<le> t_rttvar r" using r(1) drop_bit_le by (simp_all add: rtt_ok_def)
  have short: "to_short ?d = ?d" "to_short (- ?d) = - ?d" using d(1) by (simp_all add: to_short_id)
  have "\<bar>\<bar>?d\<bar> - ?v\<bar> < 2 ^ 15" using d v by linarith
  then have short2: "to_short (\<bar>?d\<bar> - ?v) = \<bar>?d\<bar> - ?v" by (rule to_short_id)
  have "1 \<le> t_srtt r + ?d" using r drop_bit_le [of "t_srtt r" "cf_T_SRTT_BITS c"] by (simp add: deviation_def)
  moreover have abs: "(if ?d < 0 then to_short (- ?d) else ?d) = \<bar>?d\<bar>" using short(2) by simp
  ultimately show "t_srtt (rtt_smooth c r) = t_srtt r + ?d"
    "t_rttvar (rtt_smooth c r) = max 1 (t_rttvar r + (\<bar>?d\<bar> - ?v))"
    using r(2) unfolding rtt_smooth_def Let_def deviation_def [symmetric] short(1) abs short2 by simp_all
qed

end
