(* ===== verification/TcpWindow.thy ===== *)
theory TcpWindow
  imports TcpRtt
begin

text \<open>
  The congestion window of the senders: how large it is, how it opens and how it is cut.  The
  flags of \<open>slowdown\<close> are a list.  Powers and logarithms are those of the reals; C's differ
  outside the positive numbers.
\<close>

section \<open>The window\<close>

definition force_wnd :: "int \<Rightarrow> tcp \<Rightarrow> int" where
  "force_wnd num s = tc_recover s + num - tc_highest_ack s"

text \<open>The virtual methods \<open>window\<close> and \<open>windowd\<close>.\<close>

definition window :: "tcp_conf \<Rightarrow> tcp \<Rightarrow> int" where
  "window c s =
     (if cf_class c = Tahoe then
        (if tc_frto s = 2 then
           (if of_int (force_wnd 2 s) < cf_wnd c then force_wnd 2 s else to_int (cf_wnd c))
         else if tc_cwnd s < cf_wnd c then to_int (tc_cwnd s) else to_int (cf_wnd c))
      else
        (let win = (if tc_frto s = 2 then force_wnd 2 s else to_int (tc_cwnd s) + tc_dupwnd s)
         in if win > to_int (cf_wnd c) then to_int (cf_wnd c) else win))"

definition windowd :: "tcp_conf \<Rightarrow> tcp \<Rightarrow> real" where
  "windowd c s =
     (if cf_class c = Tahoe then (if tc_cwnd s < cf_wnd c then tc_cwnd s else cf_wnd c)
      else (let win = tc_cwnd s + of_int (tc_dupwnd s) in if win > cf_wnd c then cf_wnd c else win))"

text \<open>\<open>abort()\<close> for a wrong option is \<open>None\<close>.\<close>

definition initial_window :: "tcp_conf \<Rightarrow> tcp \<Rightarrow> real option" where
  "initial_window c s =
     (if tc_qs_cwnd s \<noteq> 0 then Some (of_int (tc_qs_cwnd s))
      else if tc_wnd_init_option s = 1 then Some (tc_wnd_init s)
      else if tc_wnd_init_option s = 2 then
        Some (if cf_size c \<le> 1095 then 4 else if cf_size c < 2190 then 3 else 2)
      else None)"

definition set_initial_window :: "tcp_conf \<Rightarrow> tcp \<Rightarrow> tcp option" where
  "set_initial_window c s =
     (if cf_syn c \<and> cf_delay_growth c then Some (s\<lparr>tc_cwnd := 1, tc_syn_connects := 0\<rparr>)
      else map_option (\<lambda>w. s\<lparr>tc_cwnd := w\<rparr>) (initial_window c s))"

definition network_limited :: "tcp_conf \<Rightarrow> tcp \<Rightarrow> bool" where
  "network_limited c s \<longleftrightarrow> tc_t_seqno s > tc_prev_highest_ack s + window c s"

section \<open>Opening the window\<close>

definition limited_slow_start :: "real \<Rightarrow> int \<Rightarrow> real \<Rightarrow> real" where
  "limited_slow_start cwnd max_ssthresh increment =
     (if max_ssthresh \<le> 0 then increment
      else (let round = to_int (cwnd / (of_int max_ssthresh / 2));
                increment1 = (if round > 0 then 1 / of_int round else 0)
            in if increment < increment1 then increment1 else increment))"

definition decrease_param :: "tcp \<Rightarrow> real" where
  "decrease_param s = hs_dec1 (tc_hs s) + ln (tc_cwnd s) * hs_dec2 (tc_hs s)"

definition increase_param :: "tcp_conf \<Rightarrow> tcp \<Rightarrow> real \<times> tcp" where
  "increase_param c s =
     (let h = tc_hs s in
      if tc_cwnd s \<le> of_int (cf_low_window c) then (1 / tc_cwnd s, s)
      else if tc_cwnd s \<ge> hs_cwnd_last h \<and> tc_cwnd s < hs_cwnd_last h + of_int (cf_cwnd_range c) then
        (hs_increase_last h / tc_cwnd s, s)
      else
        (let p = exp (hs_p1 h + ln (tc_cwnd s) * hs_p2 h);
             decrease = decrease_param s;
             increase = tc_cwnd s * tc_cwnd s * p / (1 / decrease - 1 / 2)
         in (increase / tc_cwnd s, s\<lparr>tc_hs := h\<lparr>hs_cwnd_last := tc_cwnd s, hs_increase_last := increase\<rparr>\<rparr>)))"

text \<open>The increase of the window by one packet when \<open>f\<close>, added up, exceeds it.\<close>

definition add_up :: "real \<Rightarrow> tcp \<Rightarrow> tcp" where
  "add_up f s =
     (let f = f + tc_fcnt s
      in if f > tc_cwnd s then s\<lparr>tc_fcnt := 0, tc_cwnd := tc_cwnd s + 1\<rparr> else s\<lparr>tc_fcnt := f\<rparr>)"

definition limited_increase :: "tcp_conf \<Rightarrow> real \<Rightarrow> tcp \<Rightarrow> tcp" where
  "limited_increase c increment s =
     s\<lparr>tc_cwnd := tc_cwnd s +
        (if (tc_last_cwnd_action s = ACTION_NONE \<or> tc_last_cwnd_action s = ACTION_TIMEOUT) \<and> cf_max_ssthresh c > 0
         then limited_slow_start (tc_cwnd s) (cf_max_ssthresh c) increment else increment)\<rparr>"

definition srtt_seconds :: "tcp_conf \<Rightarrow> tcp \<Rightarrow> real" where
  "srtt_seconds c s = of_int (drop_bit (cf_T_SRTT_BITS c) (t_srtt (tc_rtt s))) * cf_tcp_tick c"

text \<open>The growth past \<open>ssthresh_\<close>, by the option; \<open>abort()\<close> for an unknown one.\<close>

definition open_linear :: "tcp_conf \<Rightarrow> tcp \<Rightarrow> tcp option" where
  "open_linear c s =
     (if cf_wnd_option c = 0 then
        Some (if of_int (tc_count s + 1) \<ge> tc_cwnd s then s\<lparr>tc_count := 0, tc_cwnd := tc_cwnd s + 1\<rparr>
              else s\<lparr>tc_count := tc_count s + 1\<rparr>)
      else if cf_wnd_option c = 1 then Some (limited_increase c (cf_increase_num c / tc_cwnd s) s)
      else if cf_wnd_option c = 2 then Some (add_up (srtt_seconds c s * srtt_seconds c s * cf_wnd_const c) s)
      else if cf_wnd_option c = 3 then Some (add_up (tc_awnd s * tc_awnd s * cf_wnd_const c) s)
      else if cf_wnd_option c = 4 then Some (add_up (tc_awnd s * cf_wnd_const c) s)
      else if cf_wnd_option c = 5 then Some (add_up (srtt_seconds c s * cf_wnd_const c) s)
      else if cf_wnd_option c = 6 then
        Some (s\<lparr>tc_cwnd := tc_cwnd s + cf_increase_num c / (tc_cwnd s * tc_cwnd s powr cf_k_parameter c)\<rparr>)
      else if cf_wnd_option c = 8 then
        (case increase_param c s of (increment, s) \<Rightarrow> Some (limited_increase c increment s))
      else None)"

definition opencwnd :: "tcp_conf \<Rightarrow> tcp \<Rightarrow> tcp option" where
  "opencwnd c s =
     map_option (\<lambda>s. if cf_maxcwnd c \<noteq> 0 \<and> to_int (tc_cwnd s) > cf_maxcwnd c then s\<lparr>tc_cwnd := of_int (cf_maxcwnd c)\<rparr> else s)
       (if tc_cwnd s < of_int (tc_ssthresh s) then Some (s\<lparr>tc_cwnd := tc_cwnd s + 1\<rparr>) else open_linear c s)"

section \<open>Cutting the window\<close>

datatype cut = CLOSE_SSTHRESH_HALF | CLOSE_CWND_HALF | CLOSE_CWND_RESTART | CLOSE_CWND_INIT | CLOSE_CWND_ONE
  | THREE_QUARTER_SSTHRESH | CLOSE_CWND_HALF_WAY | CWND_HALF_WITH_MIN | TCP_IDLE | NO_OUTSTANDING_DATA

text \<open>The window, its half, and what the decrease parameter leaves of it, with \<open>decrease_num_\<close>.\<close>

definition high_speed :: "tcp_conf \<Rightarrow> tcp \<Rightarrow> bool" where
  "high_speed c s \<longleftrightarrow> cf_wnd_option c = 8 \<and> tc_cwnd s > of_int (cf_low_window c)"

definition slowdown_windows :: "tcp_conf \<Rightarrow> tcp \<Rightarrow> real \<times> real \<times> real \<times> tcp" where
  "slowdown_windows c s =
     (let s' = (if cf_wnd_option c \<noteq> 6 \<and> high_speed c s then s\<lparr>tc_decrease_num := decrease_param s\<rparr> else s);
          l = cf_l_parameter c; wd = windowd c s; w = window c s
      in if cf_precision_reduce c then
           (wd, wd / 2,
            (if cf_wnd_option c = 6 then wd - (1 - tc_decrease_num s) * wd powr l
             else if high_speed c s then wd - decrease_param s * wd
             else tc_decrease_num s * wd), s')
         else
           (of_int w, of_int (cdiv w 2),
            of_int (to_int (if cf_wnd_option c = 6 then of_int w - (1 - tc_decrease_num s) * of_int w powr l
             else if high_speed c s then wd - decrease_param s * wd
             else tc_decrease_num s * of_int w)), s'))"

definition cut_ssthresh :: "cut list \<Rightarrow> bool \<Rightarrow> real \<Rightarrow> real \<Rightarrow> tcp \<Rightarrow> tcp" where
  "cut_ssthresh how slowstart halfwin decreasewin s =
     (if CLOSE_SSTHRESH_HALF \<in> set how then
        (if tc_first_decrease s \<or> slowstart \<or> tc_last_cwnd_action s = ACTION_TIMEOUT
         then s\<lparr>tc_ssthresh := to_int halfwin\<rparr> else s\<lparr>tc_ssthresh := to_int decreasewin\<rparr>)
      else if THREE_QUARTER_SSTHRESH \<in> set how \<and> of_int (tc_ssthresh s) < 3 * tc_cwnd s / 4
        then s\<lparr>tc_ssthresh := to_int (3 * tc_cwnd s / 4)\<rparr>
      else s)"

definition cut_cwnd :: "cut list \<Rightarrow> bool \<Rightarrow> real \<Rightarrow> real \<Rightarrow> real \<Rightarrow> tcp \<Rightarrow> tcp" where
  "cut_cwnd how slowstart win halfwin decreasewin s =
     (if CLOSE_CWND_HALF \<in> set how then
        s\<lparr>tc_cwnd := (if tc_first_decrease s \<or> slowstart \<or> tc_decrease_num s = 1 / 2 then halfwin else decreasewin)\<rparr>
      else if CWND_HALF_WITH_MIN \<in> set how then s\<lparr>tc_cwnd := (if decreasewin < 1 then 1 else decreasewin)\<rparr>
      else if CLOSE_CWND_RESTART \<in> set how then s\<lparr>tc_cwnd := of_int (to_int (tc_wnd_restart s))\<rparr>
      else if CLOSE_CWND_INIT \<in> set how then s\<lparr>tc_cwnd := of_int (to_int (tc_wnd_init s))\<rparr>
      else if CLOSE_CWND_ONE \<in> set how then s\<lparr>tc_cwnd := 1\<rparr>
      else if CLOSE_CWND_HALF_WAY \<in> set how then
        (let used = of_int (qo_W_used (tc_qo s)); cwnd = used + tc_decrease_num s * (win - used)
         in s\<lparr>tc_cwnd := (if cwnd < 1 then 1 else cwnd)\<rparr>)
      else s)"

definition count_cut :: "cut list \<Rightarrow> tcp \<Rightarrow> tcp" where
  "count_cut how s = s\<lparr>tc_stats := (tc_stats s)\<lparr>ncwndcuts := ncwndcuts (tc_stats s) + 1,
     ncwndcuts1 := ncwndcuts1 (tc_stats s) + (if TCP_IDLE \<notin> set how \<and> NO_OUTSTANDING_DATA \<notin> set how then 1 else 0)\<rparr>\<rparr>"

definition slowdown :: "tcp_conf \<Rightarrow> cut list \<Rightarrow> tcp \<Rightarrow> tcp" where
  "slowdown c how s =
     (let s = count_cut how s;
          slowstart = (tc_cwnd s < of_int (tc_ssthresh s));
          (win, halfwin, decreasewin, s) = slowdown_windows c s;
          s = cut_ssthresh how slowstart halfwin decreasewin s;
          s = cut_cwnd how slowstart win halfwin decreasewin s;
          s = (if tc_ssthresh s < 2 then s\<lparr>tc_ssthresh := 2\<rparr> else s);
          s = (if list_ex (\<lambda>x. x \<in> {CLOSE_CWND_HALF, CLOSE_CWND_RESTART, CLOSE_CWND_INIT, CLOSE_CWND_ONE}) how
               then s\<lparr>tc_cong_action := True\<rparr> else s)
      in s\<lparr>tc_fcnt := 0, tc_count := 0, tc_first_decrease := False\<rparr>)"

text \<open>The obsolete \<open>closecwnd\<close> and \<open>quench\<close>; an unknown argument aborts.\<close>

definition closecwnd :: "tcp_conf \<Rightarrow> int \<Rightarrow> tcp \<Rightarrow> tcp option" where
  "closecwnd c how s =
     map_option (\<lambda>s. s\<lparr>tc_fcnt := 0, tc_count := 0\<rparr>)
       (if how = 0 then Some (s\<lparr>tc_ssthresh := max 2 (cdiv (window c s) 2), tc_cwnd := of_int (to_int (tc_wnd_restart s))\<rparr>)
        else if how = 1 then
          (let w = tc_decrease_num s * of_int (window c s) in Some (s\<lparr>tc_cwnd := w, tc_ssthresh := max 2 (to_int w)\<rparr>))
        else if how = 2 then Some (s\<lparr>tc_cwnd := tc_wnd_init s\<rparr>)
        else if how = 3 then Some (s\<lparr>tc_cwnd := of_int (to_int (tc_wnd_init s))\<rparr>)
        else if how = 4 then Some (s\<lparr>tc_ssthresh := max 2 (cdiv (window c s) 2), tc_cwnd := 1\<rparr>)
        else None)"

definition quench :: "tcp_conf \<Rightarrow> int \<Rightarrow> tcp \<Rightarrow> tcp option" where
  "quench c how s =
     (if tc_highest_ack s \<ge> tc_recover s
      then closecwnd c how (s\<lparr>tc_recover := tc_maxseq s, tc_last_cwnd_action := ACTION_ECN\<rparr>) else Some s)"

end
