(* ===== verification/TcpOutput.thy ===== *)
theory TcpOutput
  imports TcpWindow
begin

text \<open>
  How a sender sends: one packet, with the SYN, the Quick-Start request and the timer that go with
  it, or as many as the window allows, and how the window of an idle sender decays (QOption).  A
  result \<open>None\<close> is an abort, a division by zero, an access outside an array, or a loop without end.
\<close>

section \<open>Timers\<close>

definition set_rtx_timer :: "tcp_conf \<Rightarrow> tcp \<Rightarrow> tcp option" where
  "set_rtx_timer c s =
     (case rtt_timeout c (tc_rtt s) of None \<Rightarrow> None | Some (t, r) \<Rightarrow> Some (rtx_resched t (s\<lparr>tc_rtt := r\<rparr>)))"

definition tcp_rtt_backoff :: "tcp_conf \<Rightarrow> tcp \<Rightarrow> tcp option" where
  "tcp_rtt_backoff c s = map_option (\<lambda>r. s\<lparr>tc_rtt := r\<rparr>) (rtt_backoff c (tc_rtt s))"

definition reset_rtx_timer :: "tcp_conf \<Rightarrow> bool \<Rightarrow> bool \<Rightarrow> tcp \<Rightarrow> tcp option" where
  "reset_rtx_timer c mild backoff s =
     (case (if backoff then tcp_rtt_backoff c s else Some s) of
        None \<Rightarrow> None
      | Some s \<Rightarrow>
          map_option (\<lambda>s. map_rtt (rtt_active_update (\<lambda>_. False)) (if mild then s else s\<lparr>tc_t_seqno := tc_highest_ack s + 1\<rparr>))
            (set_rtx_timer c s))"

definition newtimer :: "tcp_conf \<Rightarrow> int \<Rightarrow> tcp \<Rightarrow> tcp option" where
  "newtimer c seqno s =
     (if tc_t_seqno s > seqno \<or> seqno < tc_maxseq s \<or> tc_cwnd s < 1 then set_rtx_timer c s
      else Some (cancel_rtx_timer s))"

section \<open>Quick-Start rates\<close>

definition fuzzy_cast :: "real \<Rightarrow> int" where
  "fuzzy_cast f = (if f - of_int (to_int f) \<ge> 1 - 1 / 1000000 then to_int (f + 1 / 2) else to_int f)"

definition rate_to_Bps :: "tcp_conf \<Rightarrow> int \<Rightarrow> real" where
  "rate_to_Bps c rate =
     (if rate = 0 then 0
      else if cf_rate_function c = 2 then 2 powr of_int rate * 5000 else of_int (rate * 10240))"

definition Bps_to_rate :: "tcp_conf \<Rightarrow> real \<Rightarrow> int" where
  "Bps_to_rate c Bps =
     (if Bps = 0 then 0
      else if cf_rate_function c = 2 then (let r = fuzzy_cast (ln (Bps / 5000) / ln 2) in if r \<ge> 1 then r else 0)
      else cdiv (to_int Bps) 10240)"

section \<open>One packet\<close>

definition headersize :: "tcp_conf \<Rightarrow> int" where
  "headersize c = cf_tcpip_base_hdr_size c + (if cf_ts_option c then cf_ts_option_size c else 0)"

text \<open>
  The table of timestamps, with \<open>bugfix_ts_\<close>: allocated, doubled when it is getting full, and
  written.  Before the first acknowledgment, the copying starts at a negative index.
\<close>

definition grow_tss :: "tcp \<Rightarrow> tcp option" where
  "grow_tss s =
     (let n = tc_tss_size s; h = tc_highest_ack s in
      if h < 0 then None
      else Some (s\<lparr>tc_tss := fold (\<lambda>i xs. xs[nat (cmod (h + i) (n * 2)) := tc_tss s ! nat (cmod (h + i) n)])
                     [0..n - 1] (replicate (nat (n * 2)) 0),
                   tc_tss_size := n * 2\<rparr>))"

definition store_tss :: "tcp_conf \<Rightarrow> real \<Rightarrow> int \<Rightarrow> tcp \<Rightarrow> tcp option" where
  "store_tss c now seqno s =
     (let s = (if cf_bugfix_ts c \<and> tc_tss s = [] then s\<lparr>tc_tss := replicate (nat (tc_tss_size s)) 0\<rparr> else s)
      in case (if cf_bugfix_ts c \<and> of_int (seqno - tc_highest_ack s) > of_int (tc_tss_size s) * (9 / 10 :: real)
               then grow_tss s else Some s) of
           None \<Rightarrow> None
         | Some s \<Rightarrow>
             if tc_tss s = [] then Some s
             else if seqno < 0 then None
             else Some (s\<lparr>tc_tss := (tc_tss s)[nat (cmod seqno (tc_tss_size s)) := now]\<rparr>))"

text \<open>The packet with its header, and \<open>cong_action_\<close> reported.\<close>

definition out_header :: "tcp_conf \<Rightarrow> real \<Rightarrow> int \<Rightarrow> tx_reason \<Rightarrow> tcp \<Rightarrow> tcp_seg \<times> tcp" where
  "out_header c now seqno reason s =
     (let cwr = tc_cong_action s \<and> (\<not> seqno < tc_maxseq s \<or> cf_SetCWRonRetransmit c)
      in (\<lparr>sg_seqno = seqno, sg_ts = now, sg_ts_echo = tc_ts_peer s, sg_reason = reason,
           sg_last_rtt = to_int (of_int (t_rtt (tc_rtt s)) * cf_tcp_tick c * 1000),
           sg_size = (if seqno = 0 then (if cf_syn c then cf_tcpip_base_hdr_size c else cf_size c)
                      else if cf_useHeaders c then cf_size c + headersize c else cf_size c),
           sg_flowid = cf_flowid c, sg_qs = tc_qs_approved s, sg_ect = (cf_ecn c \<and> seqno \<noteq> 0), sg_cong_action = cwr,
           sg_ecnecho = (cf_ecn c \<and> seqno = 0), sg_qs_flag = QS_DISABLE, sg_qs_ttl = 0, sg_qs_rate = 0\<rparr>,
          if cwr then s\<lparr>tc_cong_action := False\<rparr> else s))"

text \<open>The number of kilobytes per second to ask for.\<close>

definition qs_request :: "tcp_conf \<Rightarrow> tcp \<Rightarrow> int" where
  "qs_request c s =
     (let unsent = tc_curseq s - tc_maxseq s - 1;
          dataout = cdiv (unsent * (cf_size c + headersize c)) 1024
      in if cf_qs_request_mode c = 1 \<and> cf_qs_rtt c > 0 then
           (if unsent < cf_qs_thresh c then 0
            else min (cf_rate_request c) (cdiv (dataout * 1000) (cf_qs_rtt c)))
         else cf_rate_request c)"

definition out_qs :: "tcp_conf \<Rightarrow> tcp_seg \<Rightarrow> tcp \<Rightarrow> tcp_seg \<times> tcp" where
  "out_qs c p s =
     (if sg_seqno p = 0 \<and> cf_qs_enabled c \<and> qs_request c s > 0 then
        (let (u, s') = tcp_draw s; ttl = \<lfloor>256 * u\<rfloor>
         in (p\<lparr>sg_qs_flag := QS_REQUEST, sg_qs_ttl := ttl, sg_qs_rate := Bps_to_rate c (of_int (qs_request c s * 1024))\<rparr>,
             s'\<lparr>tc_ttl_diff := cmod (cf_ttl c - ttl) 256, tc_qs_requested := True\<rparr>))
      else (p, s))"

text \<open>After the packet is on its way: what has been sent, and whether it is timed.\<close>

definition out_sent :: "real \<Rightarrow> int \<Rightarrow> int \<Rightarrow> tcp \<Rightarrow> tcp" where
  "out_sent now seqno databytes s =
     (let s = (if seqno = tc_curseq s \<and> seqno > tc_maxseq s then tcp_emit AppIdle s else s)
      in if seqno > tc_maxseq s then
           map_rtt (\<lambda>r. if rtt_active r then r
              else (let r = r\<lparr>rtt_active := True\<rparr>
                    in if seqno > rtt_seq r then r\<lparr>rtt_seq := seqno, rtt_ts := now\<rparr> else r))
             (s\<lparr>tc_maxseq := seqno\<rparr>)
         else s\<lparr>tc_stats := (tc_stats s)\<lparr>nrexmitpack := nrexmitpack (tc_stats s) + 1,
                  nrexmitbytes := nrexmitbytes (tc_stats s) + databytes\<rparr>\<rparr>)"

definition out_send :: "tcp_conf \<Rightarrow> real \<Rightarrow> tcp_seg \<Rightarrow> int \<Rightarrow> tcp \<Rightarrow> tcp option" where
  "out_send c now p databytes s =
     (let force_set_rtx_timer = (tc_highest_ack s = tc_maxseq s);
          s = tcp_emit (SegSent p) (s\<lparr>tc_stats := (tc_stats s)\<lparr>ndatapack := ndatapack (tc_stats s) + 1,
                 ndatabytes := ndatabytes (tc_stats s) + databytes\<rparr>\<rparr>);
          s = out_sent now (sg_seqno p) databytes s
      in if \<not> tc_rtx s \<or> force_set_rtx_timer then set_rtx_timer c s else Some s)"

text \<open>A connection that has tried too often gives up: the packet is not sent.\<close>

definition tcp_output :: "tcp_conf \<Rightarrow> real \<Rightarrow> int \<Rightarrow> tx_reason \<Rightarrow> tcp \<Rightarrow> tcp option" where
  "tcp_output c now seqno reason s =
     (case store_tss c now seqno s of
        None \<Rightarrow> None
      | Some s \<Rightarrow>
          (let (p, s) = out_header c now seqno reason s;
               syn = (seqno = 0 \<and> cf_syn c);
               s = (if syn then s\<lparr>tc_curseq := (if tc_maxseq s = - 1 then tc_curseq s + 1 else tc_curseq s),
                                  tc_syn_connects := tc_syn_connects s + 1\<rparr> else s)
           in if syn \<and> cf_max_connects c > 0 \<and> tc_syn_connects s > cf_max_connects c
              then Some (rtx_resched 10000 (s\<lparr>tc_curseq := 0\<rparr>))
              else (let (p, s) = out_qs c p s in out_send c now p (if syn then 0 else cf_size c) s)))"

section \<open>The decay of the window of an idle sender\<close>

definition map_qo :: "(qoption \<Rightarrow> qoption) \<Rightarrow> tcp \<Rightarrow> tcp" where
  "map_qo f s = s\<lparr>tc_qo := f (tc_qo s)\<rparr>"

definition tcp_ticks :: "tcp_conf \<Rightarrow> real \<Rightarrow> int" where
  "tcp_ticks c now = to_int (now / cf_tcp_tick c + 1 / 2)"

definition reset_qoption :: "int \<Rightarrow> qoption \<Rightarrow> qoption" where
  "reset_qoption now q = q\<lparr>qo_start := now, qo_RTT_count := 0, qo_RTT_prev := 0, qo_RTT_goodcount := 1,
     qo_F_counting := False, qo_W_timed := - 1, qo_F_full := False, qo_Backoffs := 0\<rparr>"

text \<open>The sender has no more data to send: the window it has used, and a cut if it is limited by that.\<close>

definition qo_used :: "tcp \<Rightarrow> tcp" where
  "qo_used s = map_qo (\<lambda>q. q\<lparr>qo_W_used := max (tc_t_seqno s - tc_highest_ack s) (qo_W_used q)\<rparr>) s"

definition app_limited :: "tcp_conf \<Rightarrow> (qoption \<Rightarrow> qoption) \<Rightarrow> tcp \<Rightarrow> tcp" where
  "app_limited c f s =
     map_qo (\<lambda>q. (f q)\<lparr>qo_W_used := 0\<rparr>)
       (slowdown c [CLOSE_CWND_HALF_WAY, TCP_IDLE] (slowdown c [THREE_QUARTER_SSTHRESH, TCP_IDLE] s))"

definition rtt_counting :: "tcp_conf \<Rightarrow> real \<Rightarrow> tcp \<Rightarrow> tcp" where
  "rtt_counting c now s =
     (let tcp_now = tcp_ticks c now;
          rtt = max 1 (drop_bit (cf_T_SRTT_BITS c) (t_srtt (tc_rtt s)));
          RTTs = cdiv ((tcp_now - qo_last (tc_qo s)) * qo_RTT_goodcount (tc_qo s)) (rtt * 2) - qo_Backoffs (tc_qo s);
          s = (if tcp_now - qo_last (tc_qo s) \<ge> 2 * rtt then
                 (let s = map_qo (qo_Backoffs_update (\<lambda>_. 0)) s
                  in if RTTs > 0 then
                       ((\<lambda>s. map_qo (\<lambda>q. q\<lparr>qo_RTT_prev := qo_RTT_count q, qo_W_used := 0\<rparr>)
                           (slowdown c [CWND_HALF_WITH_MIN, TCP_IDLE] s)) ^^ nat RTTs)
                         (slowdown c [THREE_QUARTER_SSTHRESH, TCP_IDLE] s)
                     else s)
               else s);
          s = map_qo (qo_last_update (\<lambda>_. tcp_now)) s;
          s = (if tcp_now - qo_start (tc_qo s) \<ge> 2 * rtt then
                 map_qo (\<lambda>q. q\<lparr>qo_RTT_goodcount := (if qo_RTT_count q > qo_RTT_goodcount q \<or> qo_F_full q
                                  then max 1 (qo_RTT_count q) else qo_RTT_goodcount q),
                            qo_RTT_prev := qo_RTT_prev q - qo_RTT_count q, qo_RTT_count := 0, qo_start := tcp_now,
                            qo_F_full := False\<rparr>) s
               else s);
          s = (if tc_t_seqno s = tc_highest_ack s + window c s then
                 map_qo (\<lambda>q. q\<lparr>qo_W_used := 0, qo_F_full := True, qo_RTT_prev := qo_RTT_count q\<rparr>) s
               else if tc_t_seqno s = tc_curseq s - 1 then
                 (let s = qo_used s
                  in if qo_RTT_count (tc_qo s) - qo_RTT_prev (tc_qo s) \<ge> 2
                     then app_limited c (\<lambda>q. q\<lparr>qo_RTT_prev := qo_RTT_count q, qo_Backoffs := qo_Backoffs q + 1\<rparr>) s
                     else s)
               else s)
      in if \<not> qo_F_counting (tc_qo s) then map_qo (\<lambda>q. q\<lparr>qo_W_timed := tc_t_seqno s, qo_F_counting := True\<rparr>) s else s)"

definition process_qoption_after_send :: "tcp_conf \<Rightarrow> real \<Rightarrow> tcp \<Rightarrow> tcp option" where
  "process_qoption_after_send c now s =
     (let tcp_now = tcp_ticks c now; rto = to_int (t_rtxcur (tc_rtt s) / cf_tcp_tick c)
      in if cf_EnblRTTCtr c then Some (rtt_counting c now s)
         else if tcp_now - qo_last (tc_qo s) \<ge> rto \<and> rto = 0 then None
         else
           (let s = (if tcp_now - qo_last (tc_qo s) \<ge> rto then
                       map_qo (\<lambda>q. q\<lparr>qo_prev := tcp_now, qo_W_used := 0\<rparr>)
                         ((slowdown c [CWND_HALF_WITH_MIN, TCP_IDLE] ^^ nat (cdiv (tcp_now - qo_last (tc_qo s)) rto))
                           (slowdown c [THREE_QUARTER_SSTHRESH, TCP_IDLE] s))
                     else s);
                s = map_qo (qo_last_update (\<lambda>_. tcp_now)) s
            in Some (if tc_t_seqno s = tc_highest_ack s + window c s then
                       map_qo (\<lambda>q. q\<lparr>qo_prev := tcp_now, qo_W_used := 0\<rparr>) s
                     else if tc_t_seqno s = tc_curseq s - 1 then
                       (let s = qo_used s
                        in if tcp_now - qo_prev (tc_qo s) \<ge> rto then app_limited c (qo_prev_update (\<lambda>_. tcp_now)) s else s)
                     else s)))"

definition process_qoption_after_ack :: "tcp_conf \<Rightarrow> int \<Rightarrow> tcp \<Rightarrow> tcp" where
  "process_qoption_after_ack c seqno s =
     (let q = tc_qo s in
      if qo_F_counting q then
        (if seqno \<ge> qo_W_timed q then s\<lparr>tc_qo := q\<lparr>qo_RTT_count := qo_RTT_count q + 1, qo_F_counting := False\<rparr>\<rparr>
         else if tc_dupacks s = cf_numdupacks c then s\<lparr>tc_qo := q\<lparr>qo_RTT_count := qo_RTT_count q + 1\<rparr>\<rparr>
         else s)
      else s)"

section \<open>As much as the window allows\<close>

definition after_send :: "tcp_conf \<Rightarrow> real \<Rightarrow> tcp \<Rightarrow> tcp option" where
  "after_send c now s =
     map_option (\<lambda>s. s\<lparr>tc_t_seqno := tc_t_seqno s + 1\<rparr>)
       (if cf_QOption c then process_qoption_after_send c now s else Some s)"

text \<open>
  The delay between packets after an approved Quick-Start request.  For a
  window of 0 the code divides by zero and asks for an infinite time; the quotient is 0 here.
\<close>

definition delay_send :: "tcp_conf \<Rightarrow> int \<Rightarrow> tcp \<Rightarrow> tcp" where
  "delay_send c win s =
     (let delay = of_int (t_rtt (tc_rtt s)) * cf_tcp_tick c / of_int win
      in if cf_overhead c \<noteq> 0 then (let (u, s) = tcp_draw s in delsnd_resched (delay + cf_overhead c * u) s)
         else delsnd_resched delay s)"

partial_function (option) send_loop ::
  "tcp_conf \<Rightarrow> real \<Rightarrow> bool \<Rightarrow> tx_reason \<Rightarrow> int \<Rightarrow> int \<Rightarrow> int \<Rightarrow> tcp \<Rightarrow> tcp option" where
  "send_loop c now force reason maxburst npackets win s =
     (if tc_t_seqno s \<le> tc_highest_ack s + win \<and> tc_t_seqno s < tc_curseq s then
        (if cf_overhead c = 0 \<or> force \<or> tc_qs_approved s then
           (case tcp_output c now (tc_t_seqno s) reason s of
              None \<Rightarrow> None
            | Some s \<Rightarrow>
                (case after_send c now s of
                   None \<Rightarrow> None
                 | Some s \<Rightarrow>
                     if tc_qs_approved s then Some (delay_send c win s)
                     else if maxburst \<noteq> 0 \<and> npackets + 1 = maxburst then Some s
                     else send_loop c now force reason maxburst (npackets + 1) (window c s) s))
         else if \<not> tc_delsnd s then (let (u, s) = tcp_draw s in Some (delsnd_resched (cf_overhead c * u) s))
         else if maxburst \<noteq> 0 \<and> npackets = maxburst then Some s
         else send_loop c now force reason maxburst npackets (window c s) s)
      else Some s)"

definition send_much :: "tcp_conf \<Rightarrow> real \<Rightarrow> bool \<Rightarrow> tx_reason \<Rightarrow> int \<Rightarrow> tcp \<Rightarrow> tcp option" where
  "send_much c now force reason maxburst s =
     (if \<not> force \<and> tc_delsnd s then Some s
      else (let s = (if tc_t_seqno s = 0 then s\<lparr>tc_firstsent := now\<rparr> else s)
            in if tc_burstsnd s then Some s else send_loop c now force reason maxburst 0 (window c s) s))"

definition TCP_MAXSEQ :: int where "TCP_MAXSEQ = 1073741824"

definition sendmsg :: "tcp_conf \<Rightarrow> real \<Rightarrow> int \<Rightarrow> tcp \<Rightarrow> tcp option" where
  "sendmsg c now nbytes s =
     (if nbytes = - 1 \<and> tc_curseq s \<le> TCP_MAXSEQ then
        send_much c now False REASON_NONE (cf_maxburst c) (s\<lparr>tc_curseq := TCP_MAXSEQ\<rparr>)
      else if cf_size c = 0 then None
      else send_much c now False REASON_NONE (cf_maxburst c)
             (s\<lparr>tc_curseq := tc_curseq s + (cdiv nbytes (cf_size c) + (if cmod nbytes (cf_size c) \<noteq> 0 then 1 else 0))\<rparr>))"

definition advanceby :: "tcp_conf \<Rightarrow> real \<Rightarrow> int \<Rightarrow> tcp \<Rightarrow> tcp option" where
  "advanceby c now delta s =
     send_much c now False REASON_NONE (cf_maxburst c)
       (s\<lparr>tc_curseq := tc_curseq s + delta, tc_closed := (if delta > 0 then False else tc_closed s)\<rparr>)"

definition send_one :: "tcp_conf \<Rightarrow> real \<Rightarrow> tcp \<Rightarrow> tcp option" where
  "send_one c now s =
     (if of_int (tc_t_seqno s) \<le> of_int (tc_highest_ack s) + cf_wnd c \<and> tc_t_seqno s < tc_curseq s \<and>
         of_int (tc_t_seqno s) \<le> of_int (tc_highest_ack s) + tc_cwnd s + of_int (tc_dupacks s)
      then (case tcp_output c now (tc_t_seqno s) REASON_NONE s of None \<Rightarrow> None | Some s \<Rightarrow> after_send c now s)
      else Some s)"

end
