(* ===== verification/TcpAgent.thy ===== *)
theory TcpAgent
  imports TcpOutput "HOL-Library.Monad_Syntax"
begin

text \<open>
  The senders' reactions: acknowledgments, duplicate acknowledgments, congestion marks and
  timeouts, for TcpAgent (Tahoe, tcp/tcp.cc), RenoTcpAgent (tcp/tcp-reno.cc) and NewRenoTcpAgent
  (tcp/tcp-newreno.cc).
\<close>

section \<open>Creation and reset\<close>

text \<open>The constructors leave the fields of \<open>u\<close> that they do not mention as they are in memory.\<close>

definition tcp_new :: "tcp \<Rightarrow> tcp" where
  "tcp_new u = u\<lparr>tc_t_seqno := 0, tc_dupacks := 0, tc_curseq := 0, tc_highest_ack := 0, tc_cwnd := 0, tc_ssthresh := 0,
     tc_maxseq := 0, tc_count := 0,
     tc_rtt := (tc_rtt u)\<lparr>rtt_active := False, rtt_seq := - 1, rtt_ts := 0, t_rtt := 0, t_srtt := 0, t_rttvar := 0,
       t_backoff := 0, use_rtt := False\<rparr>,
     tc_lastreset := 0, tc_closed := False, tc_ts_peer := 0, tc_ts_echo := 0, tc_tss := [], tc_tss_size := 100,
     tc_rtx := False, tc_delsnd := False, tc_burstsnd := False, tc_first_decrease := True, tc_fcnt := 0,
     tc_stats := (tc_stats u)\<lparr>nrexmit := 0\<rparr>,
     tc_hs := \<lparr>hs_low_p = 0, hs_dec1 = 0, hs_dec2 = 0, hs_p1 = 0, hs_p2 = 0, hs_cwnd_last = 0, hs_increase_last = 0\<rparr>,
     tc_cong_action := False, tc_ecn_burst := False, tc_ecn_backoff := False, tc_ect := False,
     tc_qs_requested := False, tc_qs_approved := False, tc_qs_window := 0, tc_qs_cwnd := 0, tc_frto := 0,
     tc_dupwnd := 0, tc_newreno := (tc_newreno u)\<lparr>nr_acked := 0, nr_firstpartial := False\<rparr>, tc_out := []\<rparr>"

definition reset_hs :: "tcp_conf \<Rightarrow> hstcp \<Rightarrow> hstcp" where
  "reset_hs c h =
     (let low = of_int (cf_low_window c); high = of_int (cf_high_window c);
          low_p = 3 / 2 / (low * low);
          highLowWin = ln high - ln low;
          highLowP = ln (cf_high_p c) - ln low_p
      in h\<lparr>hs_low_p := low_p,
           hs_dec1 := 1 / 2 - ln low * (cf_high_decrease c - 1 / 2) / highLowWin,
           hs_dec2 := (cf_high_decrease c - 1 / 2) / highLowWin,
           hs_p1 := ln low_p - ln low * highLowP / highLowWin,
           hs_p2 := highLowP / highLowWin\<rparr>)"

definition tcp_reset :: "tcp_conf \<Rightarrow> real \<Rightarrow> tcp \<Rightarrow> tcp option" where
  "tcp_reset c now s = do {
     let s = map_rtt (\<lambda>r. (rtt_init c r)\<lparr>rtt_seq := - 1\<rparr>) (s\<lparr>tc_dupacks := 0, tc_curseq := 0\<rparr>);
     s \<leftarrow> set_initial_window c s;
     let thresh = to_int (cf_wnd c);
     let s = s\<lparr>tc_t_seqno := 0, tc_maxseq := - 1, tc_last_ack := - 1, tc_highest_ack := - 1,
        tc_ssthresh := (if cf_max_ssthresh c > 0 \<and> cf_max_ssthresh c < thresh then cf_max_ssthresh c else thresh),
        tc_wnd_restart := 1, tc_awnd := tc_wnd_init s / 2, tc_recover := 0, tc_closed := False,
        tc_last_cwnd_action := ACTION_NONE\<rparr>;
     let (u, s) = tcp_draw s;
     let s = map_rtt (boot_time_update (\<lambda>_. cf_tcp_tick c * u)) s;
     let s = s\<lparr>tc_first_decrease := True, tc_lastreset := now,
        tc_stats := \<lparr>ndatapack = 0, ndatabytes = 0, nackpack = 0, nrexmit = 0, nrexmitpack = 0, nrexmitbytes = 0,
          necnresponses = 0, ncwndcuts = 0, ncwndcuts1 = 0\<rparr>\<rparr>;
     let s = cancel_timers s;
     let s = (if cf_control_increase c then s\<lparr>tc_prev_highest_ack := tc_highest_ack s\<rparr> else s);
     let s = (if cf_wnd_option c = 8 then s\<lparr>tc_hs := reset_hs c (tc_hs s)\<rparr> else s);
     let t = tcp_ticks c now;
     Some (if cf_QOption c then
             map_qo (\<lambda>q. (if cf_EnblRTTCtr c then reset_qoption t else id) (q\<lparr>qo_last := t, qo_prev := t, qo_W_used := 0\<rparr>)) s
           else s)
   }"

section \<open>New acknowledgments\<close>

definition ecnecho :: "ack_pkt \<Rightarrow> bool" where
  "ecnecho p \<longleftrightarrow> ta_ecnecho p \<noteq> 0"

text \<open>The end of the backoff, unless the window is one packet and marks continue.\<close>

definition end_backoff :: "ack_pkt \<Rightarrow> tcp \<Rightarrow> tcp" where
  "end_backoff p s =
     (if \<not> tc_ect s \<or> \<not> tc_ecn_backoff s \<or> \<not> ecnecho p
      then map_rtt (t_backoff_update (\<lambda>_. 1)) (s\<lparr>tc_ecn_backoff := False\<rparr>) else s)"

text \<open>The samples of the round-trip time: by timestamps, and of the packet that is timed.\<close>

definition newack_rtt :: "tcp_conf \<Rightarrow> real \<Rightarrow> ack_pkt \<Rightarrow> tcp \<Rightarrow> tcp" where
  "newack_rtt c now p s =
     (let s = (if cf_ts_option c then
                 (let s = map_rtt (rtt_update c now (now - ta_ts_echo p)) (s\<lparr>tc_ts_echo := ta_ts_echo p\<rparr>)
                  in if cf_ts_resetRTO c then end_backoff p s else s)
               else s)
      in if rtt_active (tc_rtt s) \<and> ta_seqno p \<ge> rtt_seq (tc_rtt s) then
           (let s = map_rtt (rtt_active_update (\<lambda>_. False)) (end_backoff p s)
            in if cf_ts_option c then s else map_rtt (rtt_update c now (now - rtt_ts (tc_rtt s))) s)
         else s)"

definition newack :: "tcp_conf \<Rightarrow> real \<Rightarrow> ack_pkt \<Rightarrow> tcp \<Rightarrow> tcp option" where
  "newack c now p s = do {
     s \<leftarrow> (if cf_timerfix c then Some s else newtimer c (ta_seqno p) s);
     let s = s\<lparr>tc_dupacks := 0, tc_last_ack := ta_seqno p, tc_prev_highest_ack := tc_highest_ack s, tc_highest_ack := ta_seqno p,
        tc_t_seqno := (if tc_t_seqno s < ta_seqno p + 1 then ta_seqno p + 1 else tc_t_seqno s)\<rparr>;
     let s = (if ap_no_ts p then s else newack_rtt c now p s);
     s \<leftarrow> (if cf_timerfix c then newtimer c (ta_seqno p) s else Some s);
     Some (s\<lparr>tc_awnd := tc_awnd s * (1 - cf_wnd_th c) + cf_wnd_th c * tc_cwnd s\<rparr>)
   }"

definition tcp_ecn :: "tcp_conf \<Rightarrow> int \<Rightarrow> tcp \<Rightarrow> tcp option" where
  "tcp_ecn c seqno s =
     (if seqno > tc_recover s \<or> tc_last_cwnd_action s = ACTION_TIMEOUT then do {
        let s = s\<lparr>tc_recover := tc_maxseq s, tc_last_cwnd_action := ACTION_ECN\<rparr>;
        s \<leftarrow> (if tc_cwnd s \<le> 1 then
                 (if tc_ecn_backoff s then tcp_rtt_backoff c s else Some (s\<lparr>tc_ecn_backoff := True\<rparr>))
               else Some (s\<lparr>tc_ecn_backoff := False\<rparr>));
        let s = slowdown c [CLOSE_CWND_HALF, CLOSE_SSTHRESH_HALF] s;
        Some (s\<lparr>tc_stats := (tc_stats s)\<lparr>necnresponses := necnresponses (tc_stats s) + 1\<rparr>\<rparr>)
      } else Some s)"

definition spurious_timeout :: "tcp_conf \<Rightarrow> tcp \<Rightarrow> tcp" where
  "spurious_timeout c s =
     (let s = s\<lparr>tc_frto := 0\<rparr>
      in s\<lparr>tc_cwnd := (if cf_spurious_response c = 2 then of_int (tc_ssthresh s)
                       else if cf_spurious_response c = 3 then 1
                       else of_int (tc_t_seqno s - tc_prev_highest_ack s)),
           tc_ssthresh := tc_pipe_prev s, tc_recover := tc_highest_ack s - 1\<rparr>)"

definition frto_step :: "tcp_conf \<Rightarrow> tcp \<Rightarrow> tcp" where
  "frto_step c s =
     (if tc_frto s = 1 then
        (if of_int (tc_recover s + 1) \<ge> of_int (tc_highest_ack s) + cf_wnd c \<or> tc_recover s + 1 \<ge> tc_curseq s
         then s\<lparr>tc_frto := 0\<rparr>
         else if tc_highest_ack s = tc_recover s then s\<lparr>tc_frto := 0\<rparr>
         else s\<lparr>tc_t_seqno := tc_recover s + 1, tc_frto := 2\<rparr>)
      else if tc_frto s = 2 then spurious_timeout c s
      else s)"

definition ecn_state :: "ack_pkt \<Rightarrow> tcp \<Rightarrow> tcp" where
  "ecn_state p s =
     (let s = (if tc_ect s then
                 (let s = (if ecnecho p then s else s\<lparr>tc_ecn_backoff := False\<rparr>) in s\<lparr>tc_ecn_burst := ecnecho p\<rparr>)
               else s)
      in if \<not> tc_ect s \<and> ecnecho p \<and> \<not> ap_cong_action p then s\<lparr>tc_ect := True\<rparr> else s)"

definition recv_newack_helper :: "tcp_conf \<Rightarrow> real \<Rightarrow> ack_pkt \<Rightarrow> tcp \<Rightarrow> tcp option" where
  "recv_newack_helper c now p s = do {
     s \<leftarrow> newack c now p s;
     let s = (if tc_qs_window s \<noteq> 0 \<and> tc_highest_ack s \<ge> tc_qs_window s then s\<lparr>tc_qs_window := 0\<rparr> else s);
     s \<leftarrow> (if (\<not> tc_ect s \<or> \<not> ecnecho p \<or> (cf_old_ecn c \<and> tc_ecn_burst s)) \<and> (\<not> cf_control_increase c \<or> network_limited c s)
            then opencwnd c s else Some s);
     let s = ecn_state p s;
     let s = (if tc_highest_ack s \<ge> tc_curseq s - 1 \<and> \<not> tc_closed s then tcp_emit ConnDone (s\<lparr>tc_closed := True\<rparr>) else s);
     let s = (if cf_QOption c \<and> tc_curseq s = tc_highest_ack s + 1 then cancel_rtx_timer s else s);
     Some (frto_step c s)
   }"

section \<open>Duplicate acknowledgments\<close>

definition lossQuickStart :: "tcp_conf \<Rightarrow> real \<Rightarrow> tcp \<Rightarrow> (bool \<times> tcp) option" where
  "lossQuickStart c now s =
     (if tc_qs_window s \<noteq> 0 \<and> cf_tcp_qs_recovery c then
        (let s = (slowdown c [CLOSE_CWND_INIT] s)\<lparr>tc_qs_window := 0\<rparr>
         in map_option (Pair True) (tcp_output c now (tc_last_ack s + 1) REASON_DUPACK s))
      else Some (False, s))"

definition tahoe_action :: "tcp_conf \<Rightarrow> real \<Rightarrow> tcp \<Rightarrow> tcp option" where
  "tahoe_action c now s = do {
     (quick, s) \<leftarrow> lossQuickStart c now (s\<lparr>tc_recover := tc_maxseq s\<rparr>);
     reset_rtx_timer c False False
       (if quick then s else slowdown c [CLOSE_SSTHRESH_HALF, CLOSE_CWND_ONE] (s\<lparr>tc_last_cwnd_action := ACTION_DUPACK\<rparr>))
   }"

text \<open>Whether a fast retransmission is due, whatever happened in this window of data.\<close>

definition fast_retransmit :: "tcp_conf \<Rightarrow> tcp \<Rightarrow> bool" where
  "fast_retransmit c s \<longleftrightarrow> tc_highest_ack s > tc_recover s \<or> (\<not> cf_bug_fix c \<and> \<not> cf_ecn c) \<or>
     (cf_bugfix_ss c \<and> tc_highest_ack s = 0)"

definition tahoe_dupack_action :: "tcp_conf \<Rightarrow> real \<Rightarrow> tcp \<Rightarrow> tcp option" where
  "tahoe_dupack_action c now s =
     (if fast_retransmit c s then tahoe_action c now s
      else if cf_ecn c \<and> tc_last_cwnd_action s = ACTION_ECN then
        reset_rtx_timer c False False (slowdown c [CLOSE_CWND_ONE] (s\<lparr>tc_last_cwnd_action := ACTION_DUPACK\<rparr>))
      else if cf_bug_fix c then Some s
      else tahoe_action c now s)"

text \<open>The packet lost is sent again, after a mark has already cut the window.\<close>

definition ecn_retransmit :: "tcp_conf \<Rightarrow> real \<Rightarrow> tcp \<Rightarrow> tcp option" where
  "ecn_retransmit c now s = do {
     s \<leftarrow> reset_rtx_timer c True False (s\<lparr>tc_last_cwnd_action := ACTION_DUPACK\<rparr>);
     s \<leftarrow> tcp_output c now (tc_last_ack s + 1) REASON_DUPACK s;
     Some (s\<lparr>tc_dupwnd := cf_numdupacks c\<rparr>)
   }"

definition reno_action :: "tcp_conf \<Rightarrow> real \<Rightarrow> tcp \<Rightarrow> tcp option" where
  "reno_action c now s = do {
     let s = slowdown c [CLOSE_SSTHRESH_HALF, CLOSE_CWND_HALF]
       (s\<lparr>tc_recover := tc_maxseq s, tc_last_cwnd_action := ACTION_DUPACK\<rparr>);
     s \<leftarrow> reset_rtx_timer c True False s;
     s \<leftarrow> tcp_output c now (tc_last_ack s + 1) REASON_DUPACK s;
     Some (s\<lparr>tc_dupwnd := cf_numdupacks c\<rparr>)
   }"

definition reno_dupack_action :: "tcp_conf \<Rightarrow> real \<Rightarrow> tcp \<Rightarrow> tcp option" where
  "reno_dupack_action c now s =
     (if fast_retransmit c s \<or> tc_last_cwnd_action s = ACTION_DUPACK then reno_action c now s
      else if cf_ecn c \<and> tc_last_cwnd_action s = ACTION_ECN then ecn_retransmit c now s
      else if cf_bug_fix c then Some s
      else reno_action c now s)"

definition newreno_action :: "tcp_conf \<Rightarrow> real \<Rightarrow> tcp \<Rightarrow> tcp option" where
  "newreno_action c now s = do {
     s \<leftarrow> reset_rtx_timer c True False (s\<lparr>tc_recover := tc_maxseq s\<rparr>);
     (quick, s) \<leftarrow> lossQuickStart c now s;
     if quick then Some s
     else do {
       s \<leftarrow> tcp_output c now (tc_last_ack s + 1) REASON_DUPACK
         (slowdown c [CLOSE_SSTHRESH_HALF, CLOSE_CWND_HALF] (s\<lparr>tc_last_cwnd_action := ACTION_DUPACK\<rparr>));
       Some (s\<lparr>tc_dupwnd := cf_numdupacks c\<rparr>)
     }
   }"

text \<open>With \<open>bugfix_ts_\<close>, the table of timestamps is read at \<open>highest_ack_\<close>, which may be $-1$.\<close>

definition newreno_dupack_action :: "tcp_conf \<Rightarrow> real \<Rightarrow> tcp \<Rightarrow> tcp option" where
  "newreno_dupack_action c now s =
     (if fast_retransmit c s \<or> (cf_bug_fix c \<and> cf_less_careful c \<and> tc_highest_ack s = tc_recover s)
      then newreno_action c now s
      else if cf_ecn c \<and> tc_last_cwnd_action s = ACTION_ECN then ecn_retransmit c now s
      else if cf_bug_fix c then
        (if cf_bugfix_ts c \<and> (tc_tss s = [] \<or> tc_highest_ack s < 0) then None
         else if cf_bugfix_ts c \<and> tc_tss s ! nat (cmod (tc_highest_ack s) (tc_tss_size s)) = tc_ts_echo s
           then newreno_action c now s
         else if cf_bugfix_ack c \<and> tc_cwnd s > 1 \<and> tc_highest_ack s - tc_prev_highest_ack s \<le> cf_numdupacks c
           then newreno_action c now s
         else Some s)
      else newreno_action c now s)"

section \<open>Partial acknowledgments of NewReno\<close>

definition partialnewack :: "tcp_conf \<Rightarrow> ack_pkt \<Rightarrow> tcp \<Rightarrow> tcp" where
  "partialnewack c p s =
     (let s = (if cf_partial_window_deflation c then
                 (let deflate = (if ta_seqno p > tc_last_ack s then ta_seqno p - tc_last_ack s else 0);
                      s = (if tc_dupwnd s > deflate then s\<lparr>tc_dupwnd := tc_dupwnd s - (deflate - 1)\<rparr>
                           else s\<lparr>tc_cwnd := tc_cwnd s - of_int (deflate - tc_dupwnd s), tc_dupwnd := 1\<rparr>)
                  in if tc_cwnd s < 1 then s\<lparr>tc_cwnd := 1\<rparr> else s)
               else s);
          s = s\<lparr>tc_last_ack := ta_seqno p, tc_highest_ack := ta_seqno p,
                tc_t_seqno := (if tc_t_seqno s < ta_seqno p + 1 then ta_seqno p + 1 else tc_t_seqno s)\<rparr>
      in if rtt_active (tc_rtt s) \<and> ta_seqno p \<ge> rtt_seq (tc_rtt s)
         then map_rtt (\<lambda>r. r\<lparr>rtt_active := False, t_backoff := 1\<rparr>) s else s)"

definition partialnewack_helper :: "tcp_conf \<Rightarrow> real \<Rightarrow> ack_pkt \<Rightarrow> tcp \<Rightarrow> tcp option" where
  "partialnewack_helper c now p s = do {
     s \<leftarrow> (if \<not> cf_newreno_changes1 c \<or> \<not> nr_firstpartial (tc_newreno s)
            then newtimer c (ta_seqno p) (s\<lparr>tc_newreno := (tc_newreno s)\<lparr>nr_firstpartial := True\<rparr>\<rparr>) else Some s);
     let s = partialnewack c p s;
     tcp_output c now (tc_last_ack s + 1) REASON_NONE s
   }"

section \<open>Quick-Start\<close>

definition endQuickStart :: "tcp_conf \<Rightarrow> tcp \<Rightarrow> tcp option" where
  "endQuickStart c s =
     (let s = s\<lparr>tc_qs_approved := False, tc_qs_cwnd := 0, tc_qs_window := tc_maxseq s\<rparr>;
          new_cwnd = tc_maxseq s - tc_last_ack s
      in if new_cwnd > 1 \<and> of_int new_cwnd < tc_cwnd s then
           map_option (\<lambda>w. s\<lparr>tc_cwnd := max w (of_int new_cwnd)\<rparr>) (initial_window c s)
         else Some s)"

definition processQuickStart :: "tcp_conf \<Rightarrow> real \<Rightarrow> ack_pkt \<Rightarrow> tcp \<Rightarrow> tcp option" where
  "processQuickStart c now p s =
     (let s = s\<lparr>tc_qs_requested := False, tc_qs_approved := False\<rparr>
      in if ta_qs_flag p = QS_RESPONSE \<and> ta_qs_ttl p = tc_ttl_diff s \<and> ta_qs_rate p > 0 then
           (let app_rate = to_int (rate_to_Bps c (ta_qs_rate p) * (now - ta_ts_echo p) / of_int (cf_size c + headersize c))
            in map_option (\<lambda>w. if of_int app_rate > w then s\<lparr>tc_qs_cwnd := app_rate, tc_qs_approved := True\<rparr> else s)
                 (initial_window c s))
         else Some s)"

definition recv_qs :: "tcp_conf \<Rightarrow> real \<Rightarrow> ack_pkt \<Rightarrow> tcp \<Rightarrow> tcp option" where
  "recv_qs c now p s = do {
     s \<leftarrow> (if tc_qs_approved s \<and> ta_seqno p > tc_last_ack s then endQuickStart c s else Some s);
     if tc_qs_requested s then processQuickStart c now p s else Some s
   }"

section \<open>Reception\<close>

definition recv_frto_helper :: "ack_pkt \<Rightarrow> tcp \<Rightarrow> tcp" where
  "recv_frto_helper p s =
     (if ta_seqno p = tc_last_ack s \<and> tc_frto s \<noteq> 0 then
        s\<lparr>tc_t_seqno := tc_highest_ack s + 1, tc_cwnd := of_int (tc_frto s), tc_frto := 0, tc_dupacks := - 1\<rparr>
      else s)"

text \<open>What every \<open>recv\<close> does with an acknowledgment that is not from before the last reset.\<close>

definition recv_start :: "tcp_conf \<Rightarrow> ack_pkt \<Rightarrow> tcp \<Rightarrow> tcp option" where
  "recv_start c p s = do {
     let s = s\<lparr>tc_stats := (tc_stats s)\<lparr>nackpack := nackpack (tc_stats s) + 1\<rparr>, tc_ts_peer := ta_ts p\<rparr>;
     s \<leftarrow> (if ecnecho p \<and> cf_ecn c then tcp_ecn c (ta_seqno p) s else Some s);
     Some (recv_frto_helper p s)
   }"

definition tcp_eln :: "tcp_conf \<Rightarrow> real \<Rightarrow> ack_pkt \<Rightarrow> tcp \<Rightarrow> tcp option" where
  "tcp_eln c now p s =
     (let s = s\<lparr>tc_dupacks := tc_dupacks s + 1\<rparr>
      in if tc_dupacks s = cf_eln_rxmit_thresh c \<and> ta_seqno p > tc_eln_last_rxmit s then
           map_option (\<lambda>s. s\<lparr>tc_eln_last_rxmit := tc_last_ack s + 1\<rparr>)
             (tcp_output c now (tc_last_ack s + 1) REASON_DUPACK s)
         else send_much c now False REASON_NONE (cf_maxburst c) s)"

text \<open>The window of the first data after the SYN.\<close>

definition first_window :: "tcp_conf \<Rightarrow> tcp \<Rightarrow> tcp option" where
  "first_window c s =
     (if tc_last_ack s = 0 \<and> cf_delay_growth c then map_option (\<lambda>w. s\<lparr>tc_cwnd := w\<rparr>) (initial_window c s) else Some s)"

definition tahoe_recv :: "tcp_conf \<Rightarrow> real \<Rightarrow> ack_pkt \<Rightarrow> tcp \<Rightarrow> tcp option" where
  "tahoe_recv c now p s = do {
     s \<leftarrow> recv_qs c now p s;
     if ta_ts p < tc_lastreset s then Some s
     else do {
       s \<leftarrow> recv_start c p s;
       if ta_seqno p = tc_last_ack s \<and> ap_eln p \<and> cf_eln c then tcp_eln c now p s
       else do {
         s \<leftarrow> (if ta_seqno p > tc_last_ack s then do {
                  s \<leftarrow> recv_newack_helper c now p s;
                  first_window c s }
                else if ta_seqno p = tc_last_ack s then
                  (let s = s\<lparr>tc_dupacks := tc_dupacks s + 1\<rparr>
                   in if tc_dupacks s = cf_numdupacks c \<and> \<not> cf_noFastRetrans c then tahoe_dupack_action c now s
                      else if tc_dupacks s < cf_numdupacks c \<and> cf_singledup c then send_one c now s
                      else Some s)
                else Some s);
         let s = (if cf_QOption c \<and> cf_EnblRTTCtr c then process_qoption_after_ack c (ta_seqno p) s else s);
         if ta_seqno p \<ge> tc_last_ack s \<or> cf_aggressive_maxburst c
         then send_much c now False REASON_NONE (cf_maxburst c) s else Some s
       }
     }
   }"

definition reno_recv :: "tcp_conf \<Rightarrow> real \<Rightarrow> ack_pkt \<Rightarrow> tcp \<Rightarrow> tcp option" where
  "reno_recv c now p s = do {
     s \<leftarrow> recv_qs c now p s;
     if ta_ts p < tc_lastreset s then Some s
     else do {
       s \<leftarrow> recv_start c p s;
       if ta_seqno p = tc_last_ack s \<and> ap_eln p \<and> cf_eln c then tcp_eln c now p s
       else do {
         s \<leftarrow> (if ta_seqno p > tc_last_ack s then do {
                  let s = s\<lparr>tc_last_cwnd_action := (if tc_last_cwnd_action s = ACTION_DUPACK then ACTION_EXITED
                                                    else tc_last_cwnd_action s), tc_dupwnd := 0\<rparr>;
                  s \<leftarrow> recv_newack_helper c now p s;
                  first_window c s }
                else if ta_seqno p = tc_last_ack s then
                  (let s = s\<lparr>tc_dupacks := tc_dupacks s + 1\<rparr>
                   in if tc_dupacks s = cf_numdupacks c then
                        map_option (\<lambda>s. if cf_exitFastRetrans c then s else s\<lparr>tc_dupwnd := cf_numdupacks c\<rparr>)
                          (reno_dupack_action c now s)
                      else if tc_dupacks s > cf_numdupacks c \<and>
                          (\<not> cf_exitFastRetrans c \<or> tc_last_cwnd_action s = ACTION_DUPACK)
                        then Some (s\<lparr>tc_dupwnd := tc_dupwnd s + 1\<rparr>)
                      else if tc_dupacks s < cf_numdupacks c \<and> cf_singledup c then send_one c now s
                      else Some s)
                else Some s);
         if (ta_seqno p \<ge> tc_last_ack s \<or> cf_aggressive_maxburst c) \<and>
            (tc_dupacks s = 0 \<or> tc_dupacks s > cf_numdupacks c - 1)
         then send_much c now False REASON_NONE (cf_maxburst c) s else Some s
       }
     }
   }"

text \<open>
  NewReno's estimate of \<open>ssthresh_\<close> from the first acknowledgments, used only with \<open>newreno_changes_\<close>.  Where
  the second and the third arrive at the same time the code divides by zero and converts an infinite
  \<open>double\<close>; the quotient is 0 here.
\<close>

definition newreno_first_acks :: "tcp_conf \<Rightarrow> real \<Rightarrow> tcp \<Rightarrow> tcp" where
  "newreno_first_acks c now s =
     (let n = (tc_newreno s)\<lparr>nr_acked := nr_acked (tc_newreno s) + 1\<rparr>
      in if nr_acked n = 1 then s\<lparr>tc_newreno := n\<lparr>nr_basertt := now - tc_firstsent s\<rparr>\<rparr>
         else if nr_acked n = 2 then s\<lparr>tc_newreno := n\<lparr>nr_ack2 := now\<rparr>\<rparr>
         else if nr_acked n = 3 then
           (let size = of_int (cf_size c);
                new_ssthresh = to_int (nr_basertt n * (size / (now - nr_ack2 n)) / size)
            in s\<lparr>tc_newreno := n\<lparr>nr_ack3 := now, nr_new_ssthresh := new_ssthresh\<rparr>,
                 tc_ssthresh := (if cf_newreno_changes c > 0 \<and> new_ssthresh < tc_ssthresh s then new_ssthresh
                                 else tc_ssthresh s)\<rparr>)
         else s\<lparr>tc_newreno := n\<rparr>)"

text \<open>The end of fast recovery.\<close>

definition newreno_exit :: "tcp_conf \<Rightarrow> ack_pkt \<Rightarrow> tcp \<Rightarrow> tcp" where
  "newreno_exit c p s =
     (let s = (if tc_dupwnd s > 0 then
                 s\<lparr>tc_dupwnd := 0,
                   tc_last_cwnd_action := (if tc_last_cwnd_action s = ACTION_DUPACK then ACTION_EXITED
                                           else tc_last_cwnd_action s),
                   tc_cwnd := (if cf_exit_recovery_fix c then of_int (min (tc_ssthresh s) (tc_maxseq s - ta_seqno p + 1))
                               else tc_cwnd s)\<rparr>
               else s)
      in s\<lparr>tc_newreno := (tc_newreno s)\<lparr>nr_firstpartial := False\<rparr>\<rparr>)"

definition newreno_dupack :: "tcp_conf \<Rightarrow> real \<Rightarrow> tcp \<Rightarrow> tcp option" where
  "newreno_dupack c now s =
     (let s = s\<lparr>tc_dupacks := tc_dupacks s + 1\<rparr>
      in if tc_dupacks s = cf_numdupacks c then
           map_option (\<lambda>s. if cf_exitFastRetrans c then s else s\<lparr>tc_dupwnd := cf_numdupacks c\<rparr>)
             (newreno_dupack_action c now s)
         else if tc_dupacks s > cf_numdupacks c \<and> (\<not> cf_exitFastRetrans c \<or> tc_last_cwnd_action s = ACTION_DUPACK) then
           (let s = s\<lparr>tc_dupwnd := tc_dupwnd s + 1\<rparr>
            in if cf_newreno_changes c > 0 \<and> cmod (tc_dupacks s) 2 = 1
               then tcp_output c now (tc_t_seqno s) REASON_NONE (s\<lparr>tc_t_seqno := tc_t_seqno s + 1\<rparr>) else Some s)
         else if tc_dupacks s < cf_numdupacks c \<and> cf_singledup c then send_one c now s
         else Some s)"

definition newreno_recv :: "tcp_conf \<Rightarrow> real \<Rightarrow> ack_pkt \<Rightarrow> tcp \<Rightarrow> tcp option" where
  "newreno_recv c now p s = do {
     s \<leftarrow> recv_qs c now p s;
     let s = newreno_first_acks c now s;
     if ta_ts p < tc_lastreset s then Some s
     else do {
       s \<leftarrow> recv_start c p s;
       if ta_seqno p = tc_last_ack s \<and> ap_eln p \<and> cf_eln c then tcp_eln c now p s
       else do {
         s \<leftarrow> (if ta_seqno p > tc_last_ack s then
                  (if ta_seqno p \<ge> tc_recover s \<or> tc_last_cwnd_action s \<noteq> ACTION_DUPACK then do {
                     s \<leftarrow> recv_newack_helper c now p (newreno_exit c p s);
                     first_window c s }
                   else partialnewack_helper c now p (if cf_partial_window_deflation c then s else s\<lparr>tc_dupwnd := 0\<rparr>))
                else if ta_seqno p = tc_last_ack s then newreno_dupack c now s
                else Some s);
         if ta_seqno p \<ge> tc_last_ack s \<or> cf_aggressive_maxburst c then
           (if tc_dupacks s = 0 then send_much c now False REASON_NONE (cf_maxburst c) s
            else if tc_dupacks s > cf_numdupacks c - 1 \<and> cf_newreno_changes c = 0
              then send_much c now False REASON_NONE 2 s
            else Some s)
         else Some s
       }
     }
   }"

definition tcp_recv :: "tcp_conf \<Rightarrow> real \<Rightarrow> ack_pkt \<Rightarrow> tcp \<Rightarrow> tcp option" where
  "tcp_recv c = (case cf_class c of Tahoe \<Rightarrow> tahoe_recv c | Reno \<Rightarrow> reno_recv c | NewReno \<Rightarrow> newreno_recv c)"

section \<open>Timeouts\<close>

definition timeout_cut :: "tcp_conf \<Rightarrow> tcp \<Rightarrow> tcp" where
  "timeout_cut c s =
     (let s = s\<lparr>tc_recover := tc_maxseq s\<rparr>;
          s = (if tc_highest_ack s = - 1 \<and> tc_wnd_init_option s = 2 then s\<lparr>tc_wnd_init_option := 1\<rparr>
               else if tc_highest_ack s = - 1 \<and> tc_wnd_init_option s = 1 \<and> tc_wnd_init s > 1 \<and> cf_bugfix_ss c
                 then s\<lparr>tc_wnd_init := 1\<rparr>
               else s);
          frto = (\<lambda>s. if cf_frto_enabled c \<or> cf_sfrto_enabled c then s\<lparr>tc_frto := 1\<rparr> else s)
      in if tc_highest_ack s = tc_maxseq s \<and> cf_restart_bugfix c then slowdown c [CLOSE_CWND_ONE, NO_OUTSTANDING_DATA] s
         else if tc_highest_ack s < tc_recover s \<and> tc_last_cwnd_action s = ACTION_ECN then
           frto (slowdown c [CLOSE_CWND_ONE] s)
         else
           frto (slowdown c [CLOSE_SSTHRESH_HALF, CLOSE_CWND_RESTART]
             (s\<lparr>tc_stats := (tc_stats s)\<lparr>nrexmit := nrexmit (tc_stats s) + 1\<rparr>, tc_last_cwnd_action := ACTION_TIMEOUT\<rparr>)))"

definition tahoe_timeout :: "tcp_conf \<Rightarrow> real \<Rightarrow> tcp \<Rightarrow> tcp option" where
  "tahoe_timeout c now s = do {
     let s = s\<lparr>tc_frto := 0\<rparr>;
     let s = s\<lparr>tc_pipe_prev := max (window c s) (tc_ssthresh s), tc_cwnd := (if tc_cwnd s < 1 then 1 else tc_cwnd s),
               tc_qs_approved := False\<rparr>;
     let s = (if tc_highest_ack s = tc_maxseq s \<and> \<not> cf_slow_start_restart c then s else timeout_cut c s);
     s \<leftarrow> reset_rtx_timer c False (\<not> (tc_highest_ack s = tc_maxseq s \<and> cf_restart_bugfix c)) s;
     send_much c now False REASON_TIMEOUT (cf_maxburst c) (s\<lparr>tc_last_cwnd_action := ACTION_TIMEOUT\<rparr>)
   }"

definition tcp_timeout :: "tcp_conf \<Rightarrow> real \<Rightarrow> tcp \<Rightarrow> tcp option" where
  "tcp_timeout c now s =
     (if cf_class c = Tahoe then tahoe_timeout c now s
      else tahoe_timeout c now
        (s\<lparr>tc_dupwnd := 0, tc_dupacks := 0, tc_recover := (if cf_bug_fix c then tc_maxseq s else tc_recover s)\<rparr>))"

text \<open>The timers, called by \<open>TimerHandler::handle\<close>, which aborts if the timer is not pending.\<close>

definition rtx_expire :: "tcp_conf \<Rightarrow> real \<Rightarrow> tcp \<Rightarrow> tcp option" where
  "rtx_expire c now s = (if tc_rtx s then tcp_timeout c now (s\<lparr>tc_rtx := False\<rparr>) else None)"

definition delsnd_expire :: "tcp_conf \<Rightarrow> real \<Rightarrow> tcp \<Rightarrow> tcp option" where
  "delsnd_expire c now s =
     (if tc_delsnd s then send_much c now True REASON_TIMEOUT (cf_maxburst c) (s\<lparr>tc_delsnd := False\<rparr>) else None)"

end
