(* ===== verification/TcpFrames.thy ===== *)
theory TcpFrames
  imports TcpAgent
begin

text \<open>
  What the operations of a sender leave alone.  \<open>key\<close> collects the sequence numbers and modes that
  the window does not touch; \<open>net\<close> what has been sent, and the timer and estimate that go with it.
\<close>

section \<open>The packets sent\<close>

fun seg_of :: "tcp_out \<Rightarrow> tcp_seg list" where
  "seg_of (SegSent p) = [p]"
| "seg_of _ = []"

definition sent :: "tcp \<Rightarrow> tcp_seg list" where
  "sent s = concat (map seg_of (tc_out s))"

lemma sent_emit [simp]: "sent (tcp_emit x s) = sent s @ seg_of x"
  by (simp add: sent_def tcp_emit_def)

text \<open>The packet whose round-trip time is measured.\<close>

definition timed :: "tcp_rtt \<Rightarrow> bool \<times> int \<times> real" where
  "timed r = (rtt_active r, rtt_seq r, rtt_ts r)"

definition key :: "tcp \<Rightarrow> int \<times> int \<times> int \<times> int \<times> cwnd_action \<times> int \<times> int \<times> int \<times> bool \<times> bool \<times> int \<times> bool \<times> real list" where
  "key s = (tc_t_seqno s, tc_highest_ack s, tc_last_ack s, tc_recover s, tc_last_cwnd_action s, tc_dupacks s, tc_dupwnd s,
     tc_frto s, tc_delsnd s, tc_burstsnd s, tc_wnd_init_option s, tc_qs_approved s, tc_tss s)"

definition net :: "tcp \<Rightarrow> int \<times> int \<times> bool \<times> tcp_rtt \<times> tcp_out list" where
  "net s = (tc_maxseq s, tc_curseq s, tc_rtx s, tc_rtt s, tc_out s)"

lemmas key_net = key_def net_def

lemma net_sent: "net t = net s \<Longrightarrow> sent t = sent s"
  by (simp add: net_def sent_def)

section \<open>The window\<close>

lemma count_cut_frame [frame_simps]: "key (count_cut how s) = key s" "net (count_cut how s) = net s"
  by (simp_all add: count_cut_def key_net)

lemma cut_ssthresh_frame [frame_simps]: "key (cut_ssthresh how b h d s) = key s" "net (cut_ssthresh how b h d s) = net s"
  "tc_cwnd (cut_ssthresh how b h d s) = tc_cwnd s" "tc_wnd_restart (cut_ssthresh how b h d s) = tc_wnd_restart s"
  by (simp_all add: cut_ssthresh_def key_net)

lemma cut_cwnd_frame [frame_simps]: "key (cut_cwnd how b w h d s) = key s" "net (cut_cwnd how b w h d s) = net s"
  "tc_ssthresh (cut_cwnd how b w h d s) = tc_ssthresh s" "tc_wnd_restart (cut_cwnd how b w h d s) = tc_wnd_restart s"
  by (simp_all add: cut_cwnd_def key_net Let_def)

lemma slowdown_windows_frame:
  "slowdown_windows c s = (w, h, d, t) \<Longrightarrow> key t = key s \<and> net t = net s \<and> tc_cwnd t = tc_cwnd s \<and>
     tc_ssthresh t = tc_ssthresh s \<and> tc_first_decrease t = tc_first_decrease s \<and> tc_wnd_restart t = tc_wnd_restart s \<and>
     tc_last_cwnd_action t = tc_last_cwnd_action s"
proof -
  assume "slowdown_windows c s = (w, h, d, t)"
  then have "t = snd (snd (snd (slowdown_windows c s)))" by simp
  also have "\<dots> = (if cf_wnd_option c \<noteq> 6 \<and> high_speed c s then s\<lparr>tc_decrease_num := decrease_param s\<rparr> else s)"
    unfolding slowdown_windows_def Let_def if_distrib [where f = snd] snd_conv if_cancel ..
  finally show ?thesis by (simp add: key_net)
qed

lemma slowdown_frame [simp]: "key (slowdown c how s) = key s" "net (slowdown c how s) = net s"
proof -
  obtain w h d t where w: "slowdown_windows c (count_cut how s) = (w, h, d, t)" by (metis surj_pair)
  note * = slowdown_windows_frame [OF w]
  define b where "b = (tc_cwnd (count_cut how s) < of_int (tc_ssthresh (count_cut how s)))"
  define x where "x = cut_cwnd how b w h d (cut_ssthresh how b h d t)"
  have x: "key x = key s" "net x = net s" using * by (simp_all add: x_def frame_simps)
  have key: "key (x\<lparr>tc_fcnt := 0, tc_count := 0, tc_first_decrease := False\<rparr>) = key x"
    "key (x\<lparr>tc_ssthresh := 2\<rparr>) = key x" "key (x\<lparr>tc_cong_action := True\<rparr>) = key x" for x
    by (simp_all add: key_def)
  have net: "net (x\<lparr>tc_fcnt := 0, tc_count := 0, tc_first_decrease := False\<rparr>) = net x"
    "net (x\<lparr>tc_ssthresh := 2\<rparr>) = net x" "net (x\<lparr>tc_cong_action := True\<rparr>) = net x" for x
    by (simp_all add: net_def)
  show "key (slowdown c how s) = key s" "net (slowdown c how s) = net s"
    unfolding slowdown_def Let_def w prod.case b_def [symmetric] x_def [symmetric]
    by (simp_all add: key net x if_distrib [of key] if_distrib [of net])
qed

lemma add_up_frame [frame_simps]: "key (add_up f s) = key s" "net (add_up f s) = net s"
  by (simp_all add: add_up_def Let_def key_net)

lemma limited_increase_frame [frame_simps]: "key (limited_increase c i s) = key s" "net (limited_increase c i s) = net s"
  by (simp_all add: limited_increase_def key_net)

lemma increase_param_frame: "increase_param c s = (i, t) \<Longrightarrow> key t = key s \<and> net t = net s"
  by (auto simp: increase_param_def Let_def key_net split: if_splits)

text \<open>The options that exist.\<close>

definition option_conf :: "tcp_conf \<Rightarrow> bool" where
  "option_conf c \<longleftrightarrow> 0 \<le> cf_wnd_option c \<and> cf_wnd_option c \<le> 8 \<and> cf_wnd_option c \<noteq> 7"

lemma open_linear_frame: "option_conf c \<Longrightarrow> \<exists>t. open_linear c s = Some t \<and> key t = key s \<and> net t = net s"
proof -
  assume "option_conf c"
  then have o: "cf_wnd_option c \<in> {0, 1, 2, 3, 4, 5, 6, 8}" by (auto simp: option_conf_def)
  obtain i u where i: "increase_param c s = (i, u)" by (metis surj_pair)
  have "key u = key s" "net u = net s" using increase_param_frame [OF i] by simp_all
  moreover have "key (s\<lparr>tc_cwnd := w\<rparr>) = key s" "net (s\<lparr>tc_cwnd := w\<rparr>) = net s"
    "key (s\<lparr>tc_count := k\<rparr>) = key s" "net (s\<lparr>tc_count := k\<rparr>) = net s" for w k
    by (simp_all add: key_net)
  moreover have "key (s\<lparr>tc_count := k, tc_cwnd := w\<rparr>) = key s" "net (s\<lparr>tc_count := k, tc_cwnd := w\<rparr>) = net s" for w k
    by (simp_all add: key_net)
  ultimately show ?thesis using o i unfolding insert_iff empty_iff open_linear_def
    by (elim disjE) (simp_all add: frame_simps)
qed

lemma opencwnd_frame: "option_conf c \<Longrightarrow> \<exists>t. opencwnd c s = Some t \<and> key t = key s \<and> net t = net s"
proof -
  assume o: "option_conf c"
  have upd: "key (s\<lparr>tc_cwnd := w\<rparr>) = key s" "net (s\<lparr>tc_cwnd := w\<rparr>) = net s" for s w by (simp_all add: key_net)
  from open_linear_frame [OF o, of s] obtain u where "open_linear c s = Some u" "key u = key s" "net u = net s" by blast
  then show ?thesis by (simp add: opencwnd_def upd)
qed

section \<open>The timer and the estimate\<close>

lemma timed_simps [simp]: "timed (rtt_init c r) = timed r" "timed (r\<lparr>use_rtt := u\<rparr>) = timed r" "timed (r\<lparr>t_backoff := b\<rparr>) = timed r"
  "timed (r\<lparr>boot_time := t\<rparr>) = timed r"
  by (simp_all add: timed_def rtt_init_def)

lemma timed_update [simp]: "timed (rtt_update c now tao r) = timed r"
  by (simp add: timed_def rtt_update_def Let_def rtt_smooth_def)

lemma timed_timeout: "rtt_timeout c r = Some (t, r') \<Longrightarrow> timed r' = timed r"
  by (auto simp: rtt_timeout_def Let_def timed_def split: if_splits)

lemma timed_backoff: "rtt_backoff c r = Some r' \<Longrightarrow> timed r' = timed r"
proof -
  have upd: "timed (r\<lparr>t_rttvar := v, t_srtt := w\<rparr>) = timed r" "timed (r\<lparr>t_backoff := b\<rparr>) = timed r" for r v w b
    by (simp_all add: timed_def)
  show "rtt_backoff c r = Some r' \<Longrightarrow> timed r' = timed r" using timed_timeout [of c r]
    by (auto simp: rtt_backoff_def Let_def upd split: if_splits option.splits)
qed

lemma key_simps [simp]: "key (map_rtt f s) = key s" "key (tcp_emit x s) = key s" "key (s\<lparr>tc_rtt := r\<rparr>) = key s"
  "key (rtx_resched d s) = key s" "key (cancel_rtx_timer s) = key s"
  by (simp_all add: key_def map_rtt_def tcp_emit_def rtx_resched_def cancel_rtx_timer_def)

lemma map_rtt_simps [simp]: "tc_maxseq (map_rtt f s) = tc_maxseq s" "tc_curseq (map_rtt f s) = tc_curseq s"
  "tc_rtx (map_rtt f s) = tc_rtx s" "sent (map_rtt f s) = sent s" "tc_rtt (map_rtt f s) = f (tc_rtt s)"
  "tc_ect (map_rtt f s) = tc_ect s" "tc_cwnd (map_rtt f s) = tc_cwnd s"
  by (simp_all add: map_rtt_def sent_def)

definition timer_set :: "tcp \<Rightarrow> tcp \<Rightarrow> bool" where
  "timer_set s t \<longleftrightarrow> key t = key s \<and> tc_maxseq t = tc_maxseq s \<and> tc_curseq t = tc_curseq s \<and> sent t = sent s \<and> tc_rtx t \<and>
     rtt_ok (tc_rtt t) \<and> timed (tc_rtt t) = timed (tc_rtt s) \<and> tc_cwnd t = tc_cwnd s"

lemma set_rtx_timer_ok:
  assumes "timer_conf c" "rtt_ok (tc_rtt s)"
  shows "\<exists>t. set_rtx_timer c s = Some t \<and> timer_set s t"
proof -
  from rtt_timeout_ok [OF assms] obtain d where d: "rtt_timeout c (tc_rtt s) = Some (d, (tc_rtt s)\<lparr>use_rtt := False\<rparr>)" by blast
  have "sent (s\<lparr>tc_rtt := r, tc_rtx := True\<rparr>) = sent s" for r by (simp add: sent_def)
  with d assms(2) show ?thesis
    by (simp add: set_rtx_timer_def timer_set_def rtx_resched_def) (simp add: tcp_emit_def key_def)
qed

end
