(* ===== verification/TcpSending.thy ===== *)
theory TcpSending
  imports TcpFrames
begin

text \<open>
  Sending: one packet, and the loop that sends what the window allows.  The loop ends, and keeps
  the invariant of the sequence numbers.
\<close>

section \<open>Parameters and invariant\<close>

text \<open>
  The parameters considered: an existing option for the window, which is at least one packet, no limit on connection attempts,
  and neither of the experimental options \<open>bugFix_ts_\<close> and \<open>QOption_\<close> (all as by default).
\<close>

definition tcp_conf_ok :: "tcp_conf \<Rightarrow> bool" where
  "tcp_conf_ok c \<longleftrightarrow> timer_conf c \<and> option_conf c \<and> \<not> cf_bugfix_ts c \<and> \<not> cf_QOption c \<and> cf_max_connects c \<le> 0 \<and> 0 < cf_size c \<and> 1 \<le> cf_wnd c"

text \<open>
  \<open>seq_ok\<close> holds whenever packets are sent; \<open>wait_ok\<close> when the sender waits: the timer runs if
  data are outstanding, and a packet that is timed will not be sent again.
\<close>

definition seq_ok :: "tcp \<Rightarrow> bool" where
  "seq_ok s \<longleftrightarrow> tc_last_ack s = tc_highest_ack s \<and> - 1 \<le> tc_highest_ack s \<and> tc_highest_ack s \<le> tc_maxseq s \<and>
     0 \<le> tc_t_seqno s \<and> (tc_frto s \<noteq> 0 \<longrightarrow> - 1 \<le> tc_recover s) \<and>
     (tc_frto s \<noteq> 0 \<or> tc_last_cwnd_action s = ACTION_DUPACK \<or> tc_last_cwnd_action s = ACTION_ECN \<longrightarrow> tc_recover s \<le> tc_maxseq s) \<and>
     (tc_wnd_init_option s = 1 \<or> tc_wnd_init_option s = 2) \<and> tc_tss s = [] \<and> \<not> tc_burstsnd s \<and>
     rtt_ok (tc_rtt s) \<and> rtt_seq (tc_rtt s) \<le> tc_maxseq s"

definition outstanding_timed :: "tcp \<Rightarrow> bool" where
  "outstanding_timed s \<longleftrightarrow> (tc_highest_ack s < tc_maxseq s \<longrightarrow> tc_rtx s)"

definition tx_ok :: "tcp \<Rightarrow> bool" where
  "tx_ok s \<longleftrightarrow> seq_ok s \<and> tc_t_seqno s \<le> tc_maxseq s + 1"

text \<open>The size of packet \<open>q\<close>, and the effect of sending it.\<close>

definition seg_size :: "tcp_conf \<Rightarrow> int \<Rightarrow> int" where
  "seg_size c q = (if q = 0 then (if cf_syn c then cf_tcpip_base_hdr_size c else cf_size c)
     else if cf_useHeaders c then cf_size c + headersize c else cf_size c)"

definition out_ok :: "tcp_conf \<Rightarrow> real \<Rightarrow> int \<Rightarrow> tx_reason \<Rightarrow> tcp \<Rightarrow> tcp \<Rightarrow> bool" where
  "out_ok c now q r s t \<longleftrightarrow> key t = key s \<and> tc_cwnd t = tc_cwnd s \<and> tc_maxseq t = max (tc_maxseq s) q \<and>
     tc_curseq t = (if q = 0 \<and> cf_syn c \<and> tc_maxseq s = - 1 then tc_curseq s + 1 else tc_curseq s) \<and>
     tc_rtx t \<and> rtt_ok (tc_rtt t) \<and> (\<exists>p. sent t = sent s @ [p] \<and> sg_seqno p = q \<and> sg_ts p = now \<and> sg_reason p = r \<and> sg_size p = seg_size c q) \<and>
     (q \<le> tc_maxseq s \<or> rtt_active (tc_rtt s) \<longrightarrow> timed (tc_rtt t) = timed (tc_rtt s)) \<and>
     (tc_maxseq s < q \<and> \<not> rtt_active (tc_rtt s) \<and> rtt_seq (tc_rtt s) \<le> tc_maxseq s \<longrightarrow> timed (tc_rtt t) = (True, q, now))"

lemma out_sent_ok:
  fixes now :: real and q n :: int
  assumes "rtt_ok (tc_rtt s)"
  defines "t \<equiv> out_sent now q n s"
  shows "key t = key s" "tc_cwnd t = tc_cwnd s" "tc_maxseq t = max (tc_maxseq s) q" "tc_curseq t = tc_curseq s" "tc_rtx t = tc_rtx s"
    "rtt_ok (tc_rtt t)" "sent t = sent s" "q \<le> tc_maxseq s \<or> rtt_active (tc_rtt s) \<longrightarrow> timed (tc_rtt t) = timed (tc_rtt s)"
    "tc_maxseq s < q \<and> \<not> rtt_active (tc_rtt s) \<and> rtt_seq (tc_rtt s) \<le> tc_maxseq s \<longrightarrow> timed (tc_rtt t) = (True, q, now)"
    "tc_highest_ack t = tc_highest_ack s"
  using assms(1) by (simp_all add: t_def out_sent_def Let_def key_def timed_def sent_def map_rtt_def tcp_emit_def)

lemma out_send_ok:
  assumes c: "timer_conf c" and r: "rtt_ok (tc_rtt s)"
  shows "\<exists>t. out_send c now p n s = Some t \<and> key t = key s \<and> tc_cwnd t = tc_cwnd s \<and> tc_maxseq t = max (tc_maxseq s) (sg_seqno p) \<and>
     tc_curseq t = tc_curseq s \<and> tc_rtx t \<and> rtt_ok (tc_rtt t) \<and> sent t = sent s @ [p] \<and>
     (sg_seqno p \<le> tc_maxseq s \<or> rtt_active (tc_rtt s) \<longrightarrow> timed (tc_rtt t) = timed (tc_rtt s)) \<and>
     (tc_maxseq s < sg_seqno p \<and> \<not> rtt_active (tc_rtt s) \<and> rtt_seq (tc_rtt s) \<le> tc_maxseq s \<longrightarrow>
       timed (tc_rtt t) = (True, sg_seqno p, now))"
proof -
  define u where "u = tcp_emit (SegSent p) (s\<lparr>tc_stats := (tc_stats s)\<lparr>ndatapack := ndatapack (tc_stats s) + 1,
                 ndatabytes := ndatabytes (tc_stats s) + n\<rparr>\<rparr>)"
  have u: "key u = key s" "tc_cwnd u = tc_cwnd s" "tc_maxseq u = tc_maxseq s" "tc_curseq u = tc_curseq s" "tc_rtx u = tc_rtx s"
    "tc_rtt u = tc_rtt s" "sent u = sent s @ [p]" by (simp_all add: u_def) (simp_all add: tcp_emit_def key_def sent_def)
  define v where "v = out_sent now (sg_seqno p) n u"
  note v = out_sent_ok [where s = u and now = now and q = "sg_seqno p" and n = n, unfolded u(6), OF r, folded v_def, unfolded u]
  from set_rtx_timer_ok [OF c v(6)] obtain t where t: "set_rtx_timer c v = Some t" "timer_set v t" by blast
  have eq: "out_send c now p n s = (if \<not> tc_rtx v \<or> tc_highest_ack s = tc_maxseq s then set_rtx_timer c v else Some v)"
    by (simp add: out_send_def Let_def u_def v_def)
  show ?thesis
  proof (cases "\<not> tc_rtx v \<or> tc_highest_ack s = tc_maxseq s")
    case True
    with eq t v show ?thesis by (auto simp: timer_set_def)
  next
    case False
    with eq v show ?thesis by auto
  qed
qed

lemma out_header_frame:
  assumes "out_header c now q r s = (p, t)"
  shows "key t = key s" "net t = net s" "tc_cwnd t = tc_cwnd s" "sg_seqno p = q" "sg_ts p = now" "sg_reason p = r"
    "sg_size p = seg_size c q"
proof -
  from assms have "t = snd (out_header c now q r s)" "p = fst (out_header c now q r s)" by simp_all
  then show "key t = key s" "net t = net s" "tc_cwnd t = tc_cwnd s" "sg_seqno p = q" "sg_ts p = now" "sg_reason p = r"
    "sg_size p = seg_size c q"
    unfolding out_header_def Let_def fst_conv snd_conv by (simp_all add: key_net seg_size_def)
qed

lemma out_qs_frame:
  assumes "out_qs c p s = (p', t)"
  shows "key t = key s" "net t = net s" "tc_cwnd t = tc_cwnd s" "sg_seqno p' = sg_seqno p" "sg_ts p' = sg_ts p"
    "sg_reason p' = sg_reason p" "sg_size p' = sg_size p"
proof -
  from assms have "t = snd (out_qs c p s)" "p' = fst (out_qs c p s)" by simp_all
  then show "key t = key s" "net t = net s" "tc_cwnd t = tc_cwnd s" "sg_seqno p' = sg_seqno p" "sg_ts p' = sg_ts p"
    "sg_reason p' = sg_reason p" "sg_size p' = sg_size p"
    unfolding out_qs_def Let_def tcp_draw_def by (simp_all add: key_net)
qed

lemma tcp_output_ok:
  assumes c: "tcp_conf_ok c" and r: "rtt_ok (tc_rtt s)" "tc_tss s = []"
  shows "\<exists>t. tcp_output c now q r s = Some t \<and> out_ok c now q r s t"
proof -
  obtain p u where u: "out_header c now q r s = (p, u)" by (metis surj_pair)
  note u' = out_header_frame [OF u]
  define v where "v = (if q = 0 \<and> cf_syn c then u\<lparr>tc_curseq := (if tc_maxseq u = - 1 then tc_curseq u + 1 else tc_curseq u),
                                  tc_syn_connects := tc_syn_connects u + 1\<rparr> else u)"
  have upd: "key (u\<lparr>tc_curseq := x, tc_syn_connects := y\<rparr>) = key u" "sent (u\<lparr>tc_curseq := x, tc_syn_connects := y\<rparr>) = sent u" for x y
    by (simp_all add: key_def sent_def)
  have u2: "tc_maxseq u = tc_maxseq s" "tc_curseq u = tc_curseq s" "tc_rtx u = tc_rtx s" "tc_rtt u = tc_rtt s"
    using u'(2) by (simp_all add: net_def)
  have v: "key v = key s" "tc_cwnd v = tc_cwnd s" "tc_maxseq v = tc_maxseq s" "tc_rtx v = tc_rtx s" "tc_rtt v = tc_rtt s" "sent v = sent s"
    "tc_curseq v = (if q = 0 \<and> cf_syn c \<and> tc_maxseq s = - 1 then tc_curseq s + 1 else tc_curseq s)"
    using u'(1,3) u2 net_sent [OF u'(2)] by (simp_all add: v_def upd)
  obtain p' w where w: "out_qs c p v = (p', w)" by (metis surj_pair)
  note w' = out_qs_frame [OF w]
  have "timer_conf c" "rtt_ok (tc_rtt w)" using c r(1) w' v(5) by (simp_all add: tcp_conf_ok_def net_def)
  from out_send_ok [OF this, of now p' "if q = 0 \<and> cf_syn c then 0 else cf_size c"] obtain t where
    t: "out_send c now p' (if q = 0 \<and> cf_syn c then 0 else cf_size c) w = Some t" "key t = key w" "tc_cwnd t = tc_cwnd w"
      "tc_maxseq t = max (tc_maxseq w) (sg_seqno p')" "tc_curseq t = tc_curseq w" "tc_rtx t" "rtt_ok (tc_rtt t)"
      "sent t = sent w @ [p']"
      "sg_seqno p' \<le> tc_maxseq w \<or> rtt_active (tc_rtt w) \<longrightarrow> timed (tc_rtt t) = timed (tc_rtt w)"
      "tc_maxseq w < sg_seqno p' \<and> \<not> rtt_active (tc_rtt w) \<and> rtt_seq (tc_rtt w) \<le> tc_maxseq w \<longrightarrow>
       timed (tc_rtt t) = (True, sg_seqno p', now)"
    by blast
  have "store_tss c now q s = Some s" using c r(2) by (simp add: store_tss_def tcp_conf_ok_def)
  moreover have "\<not> cf_max_connects c > 0" using c by (simp add: tcp_conf_ok_def)
  ultimately have eq: "tcp_output c now q r s = Some t" using t(1) u w
    by (simp add: tcp_output_def v_def [symmetric])
  have w2: "sent w = sent v" "tc_rtt w = tc_rtt v" "tc_maxseq w = tc_maxseq v" "tc_curseq w = tc_curseq v"
    using w'(2) net_sent [OF w'(2)] by (simp_all add: net_def)
  have "out_ok c now q r s t" unfolding out_ok_def
    using t(2-10) unfolding w' w2 v u'(4-7) by (simp add: v(7) w'(4-7) u'(4-7))
  with eq show ?thesis by blast
qed

section \<open>The loop\<close>

lemma key_keep: "key t = key s \<Longrightarrow> tc_t_seqno t = tc_t_seqno s \<and> tc_highest_ack t = tc_highest_ack s \<and> tc_last_ack t = tc_last_ack s \<and>
    tc_recover t = tc_recover s \<and> tc_last_cwnd_action t = tc_last_cwnd_action s \<and> tc_dupacks t = tc_dupacks s \<and>
    tc_dupwnd t = tc_dupwnd s \<and> tc_frto t = tc_frto s \<and> tc_delsnd t = tc_delsnd s \<and> tc_burstsnd t = tc_burstsnd s \<and>
    tc_wnd_init_option t = tc_wnd_init_option s \<and> tc_qs_approved t = tc_qs_approved s \<and> tc_tss t = tc_tss s"
  by (simp add: key_def)

lemma out_keep:
  assumes "out_ok c now q r s t"
  shows "tc_t_seqno t = tc_t_seqno s" "tc_highest_ack t = tc_highest_ack s" "tc_last_ack t = tc_last_ack s" "tc_recover t = tc_recover s"
    "tc_last_cwnd_action t = tc_last_cwnd_action s" "tc_dupacks t = tc_dupacks s" "tc_dupwnd t = tc_dupwnd s" "tc_frto t = tc_frto s"
    "tc_delsnd t = tc_delsnd s" "tc_burstsnd t = tc_burstsnd s" "tc_wnd_init_option t = tc_wnd_init_option s"
    "tc_qs_approved t = tc_qs_approved s" "tc_tss t = tc_tss s" "tc_cwnd t = tc_cwnd s" "tc_maxseq t = max (tc_maxseq s) q"
    "tc_curseq t = (if q = 0 \<and> cf_syn c \<and> tc_maxseq s = - 1 then tc_curseq s + 1 else tc_curseq s)"
    "tc_rtx t" "rtt_ok (tc_rtt t)"
  using assms by (simp_all add: out_ok_def key_def)

lemma sender_window_cong: "key t = key s \<Longrightarrow> tc_cwnd t = tc_cwnd s \<Longrightarrow> window c t = window c s"
  by (simp add: window_def key_def force_wnd_def)

lemma out_rtt_seq: "out_ok c now q r s t \<Longrightarrow> rtt_seq (tc_rtt s) \<le> tc_maxseq s \<Longrightarrow> rtt_seq (tc_rtt t) \<le> max (tc_maxseq s) q"
  by (cases "q \<le> tc_maxseq s \<or> rtt_active (tc_rtt s)") (auto simp: out_ok_def timed_def)

lemma out_seq_ok:
  assumes "seq_ok s" "out_ok c now q r s t"
  shows "seq_ok t"
proof -
  note k = out_keep [OF assms(2)]
  have s: "rtt_seq (tc_rtt s) \<le> tc_maxseq s" "tc_maxseq s \<le> max (tc_maxseq s) q" using assms(1) by (simp_all add: seq_ok_def)
  have "rtt_seq (tc_rtt t) \<le> max (tc_maxseq s) q" using out_rtt_seq [OF assms(2) s(1)] .
  with assms(1) s(2) k(18) show ?thesis unfolding seq_ok_def k(1-17) by (elim conjE) (intro conjI; force)
qed

text \<open>One round of the loop.\<close>

definition sent_next :: "tcp_conf \<Rightarrow> real \<Rightarrow> tx_reason \<Rightarrow> tcp \<Rightarrow> tcp \<Rightarrow> bool" where
  "sent_next c now r s t \<longleftrightarrow> (\<exists>u. out_ok c now (tc_t_seqno s) r s u \<and> t = u\<lparr>tc_t_seqno := tc_t_seqno s + 1\<rparr>)"

lemma seq_ok_upd [simp]: "seq_ok (s\<lparr>tc_random := g\<rparr>) = seq_ok s" "seq_ok (delsnd_resched d s) = seq_ok s"
  "0 \<le> q \<Longrightarrow> seq_ok s \<Longrightarrow> seq_ok (s\<lparr>tc_t_seqno := q\<rparr>)"
  by (simp_all add: seq_ok_def delsnd_resched_def tcp_emit_def)

lemma tx_ok_upd [simp]: "tx_ok (s\<lparr>tc_random := g\<rparr>) = tx_ok s" "tx_ok (delsnd_resched d s) = tx_ok s"
  by (simp_all add: tx_ok_def) (simp add: delsnd_resched_def tcp_emit_def)

lemma sent_next_ok:
  assumes "tx_ok s" "sent_next c now r s t"
  shows "tx_ok t"
proof -
  from assms(2) obtain u where u: "out_ok c now (tc_t_seqno s) r s u" "t = u\<lparr>tc_t_seqno := tc_t_seqno s + 1\<rparr>"
    by (auto simp: sent_next_def)
  have "seq_ok u" using assms(1) u(1) out_seq_ok by (auto simp: tx_ok_def)
  moreover have "0 \<le> tc_t_seqno s + 1" using assms(1) by (simp add: tx_ok_def seq_ok_def)
  ultimately show ?thesis using out_keep [OF u(1)] u(2) by (simp add: tx_ok_def)
qed

text \<open>The rule for the loop: what every round keeps, and the delays keep, the loop keeps, and it ends.\<close>

lemma send_loop_rule:
  assumes c: "tcp_conf_ok c"
    and step: "\<And>s t. P s \<Longrightarrow> tx_ok s \<Longrightarrow> tc_t_seqno s \<le> tc_highest_ack s + window c s \<Longrightarrow> tc_t_seqno s < tc_curseq s \<Longrightarrow>
      sent_next c now r s t \<Longrightarrow> P t"
    and delay: "\<And>s d. P s \<Longrightarrow> P (delsnd_resched d s)" "\<And>s g. P s \<Longrightarrow> P (s\<lparr>tc_random := g\<rparr>)"
  shows "P s \<Longrightarrow> tx_ok s \<Longrightarrow> force \<or> \<not> tc_delsnd s \<Longrightarrow>
    \<exists>t. send_loop c now force r m n (window c s) s = Some t \<and> P t \<and> tx_ok t"
proof (induction "nat (tc_curseq s - tc_t_seqno s) + (if tc_maxseq s = - 1 then 1 else 0)" arbitrary: s n rule: less_induct)
  case less
  note unf = send_loop.simps [of c now force r m n "window c s" s]
  have q: "\<not> cf_QOption c" using c by (simp add: tcp_conf_ok_def)
  show ?case
  proof (cases "tc_t_seqno s \<le> tc_highest_ack s + window c s \<and> tc_t_seqno s < tc_curseq s")
    case False
    then have "send_loop c now force r m n (window c s) s = Some s" by (subst unf) (simp only: if_False)
    with less.prems show ?thesis by blast
  next
    case cond: True
    show ?thesis
    proof (cases "cf_overhead c = 0 \<or> force \<or> tc_qs_approved s")
      case False
      then have "send_loop c now force r m n (window c s) s =
          Some (delsnd_resched (cf_overhead c * tc_random s 0) (s\<lparr>tc_random := \<lambda>i. tc_random s (Suc i)\<rparr>))"
        by (subst unf) (use cond False less.prems(3) in \<open>simp add: tcp_draw_def\<close>)
      with less.prems delay show ?thesis by simp
    next
      case True
      have "rtt_ok (tc_rtt s)" "tc_tss s = []" using less.prems(2) by (simp_all add: tx_ok_def seq_ok_def)
      from tcp_output_ok [OF c this, of now "tc_t_seqno s" r] obtain u where
        u: "tcp_output c now (tc_t_seqno s) r s = Some u" "out_ok c now (tc_t_seqno s) r s u" by blast
      define t where "t = u\<lparr>tc_t_seqno := tc_t_seqno s + 1\<rparr>"
      have after: "after_send c now u = Some t" using q out_keep(1) [OF u(2)] by (simp add: after_send_def t_def)
      have next_t: "sent_next c now r s t" using u(2) by (auto simp: sent_next_def t_def)
      have t: "P t" "tx_ok t" using step [OF less.prems(1,2) _ _ next_t] cond sent_next_ok [OF less.prems(2) next_t] by auto
      show ?thesis
      proof (cases "tc_qs_approved t \<or> (m \<noteq> 0 \<and> n + 1 = m)")
        case stop: True
        have "send_loop c now force r m n (window c s) s = Some (if tc_qs_approved t then delay_send c (window c s) t else t)"
          by (subst unf) (use cond True u(1) after stop in \<open>cases "tc_qs_approved t"; simp\<close>)
        moreover have "P (delay_send c (window c s) t)" "tx_ok (delay_send c (window c s) t)"
          using t delay by (simp_all add: delay_send_def Let_def tcp_draw_def)
        ultimately show ?thesis using t by simp
      next
        case False
        then have go: "\<not> tc_qs_approved t" "\<not> (m \<noteq> 0 \<and> n + 1 = m)" by simp_all
        have loop: "send_loop c now force r m n (window c s) s = send_loop c now force r m (n + 1) (window c t) t"
          by (subst unf) (use cond True u(1) after go in \<open>simp only: simp_thms if_True if_False option.case\<close>)
        have f: "tc_t_seqno t = tc_t_seqno s + 1" "tc_maxseq t = max (tc_maxseq s) (tc_t_seqno s)"
          "tc_curseq t = (if tc_t_seqno s = 0 \<and> cf_syn c \<and> tc_maxseq s = - 1 then tc_curseq s + 1 else tc_curseq s)"
          using out_keep(15,16) [OF u(2)] by (simp_all add: t_def)
        have q0: "0 \<le> tc_t_seqno s" using less.prems(2) by (simp add: tx_ok_def seq_ok_def)
        have "nat (tc_curseq t - tc_t_seqno t) + (if tc_maxseq t = - 1 then 1 else 0)
            < nat (tc_curseq s - tc_t_seqno s) + (if tc_maxseq s = - 1 then 1 else 0)"
          unfolding f using cond q0 by (cases "tc_maxseq s = - 1"; simp; linarith)
        moreover have "force \<or> \<not> tc_delsnd t" using less.prems(3) out_keep(9) [OF u(2)] by (simp add: t_def)
        ultimately show ?thesis using less.hyps t loop by simp
      qed
    qed
  qed
qed

lemma send_much_rule:
  assumes c: "tcp_conf_ok c"
    and step: "\<And>s t. P s \<Longrightarrow> tx_ok s \<Longrightarrow> tc_t_seqno s \<le> tc_highest_ack s + window c s \<Longrightarrow> tc_t_seqno s < tc_curseq s \<Longrightarrow>
      sent_next c now r s t \<Longrightarrow> P t"
    and delay: "\<And>s d. P s \<Longrightarrow> P (delsnd_resched d s)" "\<And>s g. P s \<Longrightarrow> P (s\<lparr>tc_random := g\<rparr>)"
    and first: "\<And>s. P s \<Longrightarrow> P (s\<lparr>tc_firstsent := now\<rparr>)"
    and s: "P s" "tx_ok s"
  shows "\<exists>t. send_much c now force r m s = Some t \<and> P t \<and> tx_ok t"
proof -
  let ?s = "if tc_t_seqno s = 0 then s\<lparr>tc_firstsent := now\<rparr> else s"
  have "P ?s" "tx_ok ?s" using s first by (auto simp: tx_ok_def seq_ok_def)
  moreover have "tc_delsnd ?s = tc_delsnd s" "\<not> tc_burstsnd ?s" using s(2) by (simp_all add: tx_ok_def seq_ok_def)
  moreover have "\<exists>t. send_loop c now force r m 0 (window c s) s = Some t \<and> P t \<and> tx_ok t"
    if "P s" "tx_ok s" "force \<or> \<not> tc_delsnd s" for s
    by (rule send_loop_rule [where P = P and r = r]) (fact c step delay that)+
  ultimately show ?thesis using s
    by (cases "\<not> force \<and> tc_delsnd s") (auto simp: send_much_def Let_def)
qed

end
