(* ===== verification/TcpInv.thy ===== *)
theory TcpInv
  imports TcpSending
begin

text \<open>
  The invariant of a sender: its sequence numbers are in order, the retransmission timer runs
  while data are outstanding, no more data are outstanding than the window the receiver offers,
  nothing is sent that the application has not produced, and the packet whose round-trip time is
  measured has been sent once.
\<close>

section \<open>The invariant\<close>

text \<open>For Karn's rule neither F-RTO nor explicit loss notification, which retransmit on their own, is on.\<close>

definition karn_conf :: "tcp_conf \<Rightarrow> bool" where
  "karn_conf c \<longleftrightarrow> \<not> cf_frto_enabled c \<and> \<not> cf_sfrto_enabled c \<and> \<not> cf_eln c \<and> cf_newreno_changes c \<le> 0"

definition flow :: "tcp_conf \<Rightarrow> tcp \<Rightarrow> bool" where
  "flow c s \<longleftrightarrow> (cf_newreno_changes c \<le> 0 \<longrightarrow> of_int (tc_maxseq s) \<le> of_int (tc_highest_ack s) + cf_wnd c)"

definition produced :: "tcp_conf \<Rightarrow> tcp \<Rightarrow> bool" where
  "produced c s \<longleftrightarrow> (cf_newreno_changes c \<le> 0 \<longrightarrow> tc_maxseq s < tc_curseq s)"

definition sole :: "int \<Rightarrow> real \<Rightarrow> tcp_seg list \<Rightarrow> bool" where
  "sole q t ps \<longleftrightarrow> map sg_ts (filter (\<lambda>p. sg_seqno p = q) ps) = [t]"

definition measured :: "tcp \<Rightarrow> bool" where
  "measured s \<longleftrightarrow> (case timed (tc_rtt s) of (active, q, t) \<Rightarrow>
     active \<longrightarrow> q < tc_t_seqno s \<and> sole q t (sent s) \<and> (tc_last_cwnd_action s = ACTION_DUPACK \<longrightarrow> tc_recover s < q))"

text \<open>The packets sent have the numbers up to \<open>maxseq_\<close>, and the sizes of these numbers.\<close>

definition seg_ok :: "tcp_conf \<Rightarrow> int \<Rightarrow> tcp_seg \<Rightarrow> bool" where
  "seg_ok c m p \<longleftrightarrow> 0 \<le> sg_seqno p \<and> sg_seqno p \<le> m \<and> sg_size p = seg_size c (sg_seqno p)"

text \<open>
  \<open>b\<close> tells that duplicate acknowledgments come only while data are outstanding, bounds the
  acknowledgments from above, and the packets sent from below.  \<open>calm\<close> is what
  remains of the invariant \<open>good\<close> just before the retransmission timer is set anew.
\<close>

definition calm :: "tcp_conf \<Rightarrow> bool \<times> int \<times> int \<Rightarrow> tcp \<Rightarrow> bool" where
  "calm c b s \<longleftrightarrow> tx_ok s \<and> flow c s \<and> (fst b \<longrightarrow> produced c s) \<and> (\<forall>p\<in>set (sent s). seg_ok c (tc_maxseq s) p) \<and>
     tc_highest_ack s \<le> fst (snd b) \<and> snd (snd b) \<le> tc_maxseq s \<and> (karn_conf c \<longrightarrow> tc_frto s = 0)"

definition rest :: "tcp_conf \<Rightarrow> bool \<times> int \<times> int \<Rightarrow> tcp \<Rightarrow> bool" where
  "rest c b s \<longleftrightarrow> flow c s \<and> (fst b \<longrightarrow> produced c s) \<and> (\<forall>p\<in>set (sent s). seg_ok c (tc_maxseq s) p) \<and>
     tc_highest_ack s \<le> fst (snd b) \<and> snd (snd b) \<le> tc_maxseq s \<and> (karn_conf c \<longrightarrow> tc_frto s = 0) \<and> outstanding_timed s \<and> (fst b \<and> karn_conf c \<longrightarrow> measured s)"

definition good :: "tcp_conf \<Rightarrow> bool \<times> int \<times> int \<Rightarrow> tcp \<Rightarrow> bool" where
  "good c b s \<longleftrightarrow> tx_ok s \<and> rest c b s"

lemma good_calm: "good c b s \<Longrightarrow> calm c b s"
  by (simp add: good_def rest_def calm_def)

lemma good_iff: "good c b s \<longleftrightarrow> calm c b s \<and> outstanding_timed s \<and> (fst b \<and> karn_conf c \<longrightarrow> measured s)"
  by (auto simp: good_def rest_def calm_def)

text \<open>The fields on which the invariant depends.\<close>

definition view :: "tcp \<Rightarrow> int \<times> int \<times> int \<times> int \<times> cwnd_action \<times> int \<times> bool \<times> int \<times> real list \<times> int \<times> int \<times> bool \<times> tcp_rtt \<times> tcp_seg list" where
  "view s = (tc_t_seqno s, tc_highest_ack s, tc_last_ack s, tc_recover s, tc_last_cwnd_action s, tc_frto s, tc_burstsnd s,
     tc_wnd_init_option s, tc_tss s, tc_maxseq s, tc_curseq s, tc_rtx s, tc_rtt s, sent s)"

lemma view_key: "key t = key s \<Longrightarrow> net t = net s \<Longrightarrow> view t = view s"
  using net_sent [of t s] by (simp add: view_def key_net)

lemma view_good: "view t = view s \<Longrightarrow> good c b t = good c b s" "view t = view s \<Longrightarrow> calm c b t = calm c b s"
  by (simp_all add: view_def good_def rest_def calm_def tx_ok_def seq_ok_def flow_def produced_def outstanding_timed_def measured_def)

lemma view_upd [simp]: "view (s\<lparr>tc_random := g\<rparr>) = view s" "view (s\<lparr>tc_firstsent := t\<rparr>) = view s" "view (s\<lparr>tc_dupacks := d\<rparr>) = view s"
  "view (s\<lparr>tc_dupwnd := d\<rparr>) = view s" "view (s\<lparr>tc_cwnd := w\<rparr>) = view s" "view (s\<lparr>tc_ssthresh := m\<rparr>) = view s"
  "view (s\<lparr>tc_stats := x\<rparr>) = view s" "view (s\<lparr>tc_ts_peer := t\<rparr>) = view s" "view (s\<lparr>tc_newreno := n\<rparr>) = view s"
  "view (s\<lparr>tc_qs_window := m\<rparr>) = view s" "view (s\<lparr>tc_qs_approved := a\<rparr>) = view s" "view (s\<lparr>tc_qs_requested := a\<rparr>) = view s"
  "view (s\<lparr>tc_qs_cwnd := m\<rparr>) = view s" "view (s\<lparr>tc_pipe_prev := m\<rparr>) = view s" "view (s\<lparr>tc_ecn_backoff := a\<rparr>) = view s"
  "view (s\<lparr>tc_ecn_burst := a\<rparr>) = view s" "view (s\<lparr>tc_ect := a\<rparr>) = view s" "view (s\<lparr>tc_closed := a\<rparr>) = view s"
  "view (s\<lparr>tc_awnd := w\<rparr>) = view s" "view (s\<lparr>tc_eln_last_rxmit := m\<rparr>) = view s" "view (s\<lparr>tc_wnd_init := w\<rparr>) = view s"
  "view (s\<lparr>tc_prev_highest_ack := m\<rparr>) = view s" "view (s\<lparr>tc_ts_echo := t\<rparr>) = view s"
  by (simp_all add: view_def sent_def)

lemma view_emit [simp]: "seg_of x = [] \<Longrightarrow> view (tcp_emit x s) = view s"
  by (simp add: view_def) (simp add: tcp_emit_def)

lemma view_delsnd [simp]: "view (delsnd_resched d s) = view s"
  by (simp add: delsnd_resched_def) (simp add: view_def sent_def)

lemma view_slowdown [simp]: "view (slowdown c how s) = view s"
  by (rule view_key) simp_all

lemma good_slowdown [simp]: "good c b (slowdown c how s) = good c b s" "calm c b (slowdown c how s) = calm c b s"
  by (simp_all add: view_good [OF view_slowdown])

lemmas good_upd [simp] = view_upd [THEN view_good(1)]
lemmas calm_upd [simp] = view_upd [THEN view_good(2)]
lemmas good_emit [simp] = view_emit [THEN view_good(1)]
lemmas good_delsnd [simp] = view_delsnd [THEN view_good(1)]

section \<open>Sending keeps it\<close>

lemma to_int_le: "0 \<le> x \<Longrightarrow> of_int (to_int x) \<le> x" "x < 0 \<Longrightarrow> to_int x \<le> 0"
  by (simp_all add: to_int_def ceiling_le_iff)

lemma window_le:
  assumes "1 \<le> cf_wnd c"
  shows "of_int (window c s) \<le> cf_wnd c"
proof -
  have w: "of_int (to_int (cf_wnd c)) \<le> cf_wnd c" using assms by (intro to_int_le) simp
  have "of_int (to_int (tc_cwnd s)) \<le> cf_wnd c" if "tc_cwnd s < cf_wnd c"
  proof (cases "0 \<le> tc_cwnd s")
    case True
    with to_int_le(1) that show ?thesis by fastforce
  next
    case False
    then have "to_int (tc_cwnd s) \<le> 0" by (intro to_int_le) simp
    with assms show ?thesis by linarith
  qed
  with w show ?thesis by (auto simp: window_def Let_def not_le)
qed

lemma sole_snoc:
  "sole q t ps \<Longrightarrow> sg_seqno p \<noteq> q \<Longrightarrow> sole q t (ps @ [p])"
  "\<forall>p\<in>set ps. sg_seqno p < q \<Longrightarrow> sg_seqno p = q \<Longrightarrow> sole q (sg_ts p) (ps @ [p])"
  by (auto simp: sole_def filter_empty_conv)

text \<open>Sending packet \<open>q\<close>: one that follows what has been sent, or one sent before that is not measured.\<close>

lemma out_rest:
  assumes c: "tcp_conf_ok c" and s: "seq_ok s" "rest c b s" and o: "out_ok c now q r s t"
    and flow: "cf_newreno_changes c \<le> 0 \<longrightarrow> of_int q \<le> of_int (tc_highest_ack s) + cf_wnd c"
    and prod: "fst b \<and> cf_newreno_changes c \<le> 0 \<longrightarrow> q < tc_curseq s" and q: "0 \<le> q" "q \<le> tc_maxseq s + 1"
    and fresh: "fst b \<and> karn_conf c \<longrightarrow> (rtt_active (tc_rtt s) \<longrightarrow> q \<noteq> rtt_seq (tc_rtt s)) \<and> (tc_maxseq s < q \<longrightarrow> q < n) \<and> tc_t_seqno s \<le> n"
  shows "rest c b (t\<lparr>tc_t_seqno := n\<rparr>)"
proof -
  note k = out_keep [OF o]
  from o obtain p where p: "sent t = sent s @ [p]" "sg_seqno p = q" "sg_ts p = now" "sg_size p = seg_size c q" by (auto simp: out_ok_def)
  have t: "sent (t\<lparr>tc_t_seqno := n\<rparr>) = sent t" by (simp add: sent_def)
  have cur: "tc_curseq s \<le> tc_curseq t" using k(16) by simp
  have "flow c t" using s(2) flow k(15,2) by (auto simp: flow_def rest_def)
  moreover have "fst b \<longrightarrow> produced c t" using s(2) prod k(15) cur by (auto simp: produced_def rest_def)
  moreover have all: "\<forall>p\<in>set (sent t). seg_ok c (tc_maxseq t) p" using s(2) p q(1) k(15) by (auto simp: rest_def seg_ok_def)
  moreover have "karn_conf c \<longrightarrow> tc_frto t = 0" using s(2) k(8) by (simp add: rest_def)
  moreover have "tc_highest_ack t \<le> fst (snd b)" "snd (snd b) \<le> tc_maxseq t" using s(2) k(2,15) by (auto simp: rest_def)
  moreover have "outstanding_timed t" using k(17) by (simp add: outstanding_timed_def)
  moreover have "measured (t\<lparr>tc_t_seqno := n\<rparr>)" if b: "fst b \<and> karn_conf c"
  proof (cases "tc_maxseq s < q \<and> \<not> rtt_active (tc_rtt s)")
    case True
    have "\<forall>p\<in>set (sent s). sg_seqno p < q" using s(2) True by (auto simp: rest_def seg_ok_def)
    then have "sole q now (sent t)" using sole_snoc(2) [of "sent s" q p] p by simp
    moreover have "timed (tc_rtt t) = (True, q, now)" using o True s(1) by (auto simp: out_ok_def seq_ok_def)
    moreover have "tc_last_cwnd_action t = ACTION_DUPACK \<longrightarrow> tc_recover t < q" using s(1) True k(4,5) by (auto simp: seq_ok_def)
    ultimately show ?thesis using fresh b True by (simp add: measured_def t)
  next
    case False
    then have same: "timed (tc_rtt t) = timed (tc_rtt s)" using o by (auto simp: out_ok_def)
    have "measured s" using s(2) b by (simp add: rest_def)
    with same fresh b p sole_snoc(1) [of _ _ "sent s" p] k(4,5) show ?thesis
      by (auto simp: measured_def t timed_def)
  qed
  ultimately show ?thesis unfolding rest_def t by (simp add: flow_def produced_def outstanding_timed_def)
qed

lemma sent_next_rest:
  assumes c: "tcp_conf_ok c" and s: "good c b s" and next_s: "sent_next c now r s t"
    and q: "of_int (tc_t_seqno s) \<le> of_int (tc_highest_ack s) + cf_wnd c" "tc_t_seqno s < tc_curseq s"
  shows "good c b t"
proof -
  from next_s obtain u where u: "out_ok c now (tc_t_seqno s) r s u" "t = u\<lparr>tc_t_seqno := tc_t_seqno s + 1\<rparr>"
    by (auto simp: sent_next_def)
  have s': "tx_ok s" "seq_ok s" "rest c b s" using s by (simp_all add: good_def tx_ok_def)
  have "fst b \<and> karn_conf c \<longrightarrow> rtt_active (tc_rtt s) \<longrightarrow> rtt_seq (tc_rtt s) < tc_t_seqno s"
    using s'(3) by (auto simp: rest_def measured_def timed_def)
  then have "rest c b t" unfolding u(2) using s' q by (intro out_rest [OF c s'(2,3) u(1)]) (auto simp: tx_ok_def seq_ok_def)
  then show ?thesis using sent_next_ok [OF s'(1) next_s] by (simp add: good_def)
qed

lemma send_much_good:
  assumes c: "tcp_conf_ok c" and s: "good c b s"
  shows "\<exists>t. send_much c now force r m s = Some t \<and> good c b t"
proof -
  have w: "1 \<le> cf_wnd c" using c by (simp add: tcp_conf_ok_def)
  have "\<exists>t. send_much c now force r m s = Some t \<and> good c b t \<and> tx_ok t"
  proof (rule send_much_rule [where P = "good c b" and r = r, OF c])
    fix s t
    assume "good c b s" "tx_ok s" "tc_t_seqno s \<le> tc_highest_ack s + window c s" "tc_t_seqno s < tc_curseq s" "sent_next c now r s t"
    moreover from this have "of_int (tc_t_seqno s) \<le> of_int (tc_highest_ack s) + cf_wnd c" using window_le [OF w, of s] by linarith
    ultimately show "good c b t" using sent_next_rest [OF c] by blast
  qed (use s in \<open>simp_all\<close>, use s in \<open>simp add: good_def\<close>)
  then show ?thesis by blast
qed

lemma after_send_good:
  assumes c: "tcp_conf_ok c" and s: "good c b s"
    and q: "of_int (tc_t_seqno s) \<le> of_int (tc_highest_ack s) + cf_wnd c" "tc_t_seqno s < tc_curseq s"
  shows "\<exists>t u. tcp_output c now (tc_t_seqno s) r s = Some t \<and> after_send c now t = Some u \<and> good c b u"
proof -
  have "rtt_ok (tc_rtt s)" "tc_tss s = []" using s by (simp_all add: good_def tx_ok_def seq_ok_def)
  from tcp_output_ok [OF c this, of now "tc_t_seqno s" r] obtain t where
    t: "tcp_output c now (tc_t_seqno s) r s = Some t" "out_ok c now (tc_t_seqno s) r s t" by blast
  have "after_send c now t = Some (t\<lparr>tc_t_seqno := tc_t_seqno s + 1\<rparr>)"
    using c out_keep(1) [OF t(2)] by (simp add: after_send_def tcp_conf_ok_def)
  moreover have "sent_next c now r s (t\<lparr>tc_t_seqno := tc_t_seqno s + 1\<rparr>)" using t(2) by (auto simp: sent_next_def)
  ultimately show ?thesis using t(1) sent_next_rest [OF c s _ q] by blast
qed

lemma send_one_good:
  assumes c: "tcp_conf_ok c" and s: "good c b s"
  shows "\<exists>t. send_one c now s = Some t \<and> good c b t"
  using s after_send_good [OF c s, of now REASON_NONE] by (fastforce simp: send_one_def)

text \<open>Sending the packet after the last acknowledged one, again unless nothing is outstanding.\<close>

lemma retransmit_good:
  assumes c: "tcp_conf_ok c" and s: "good c b s"
    and q: "fst b \<longrightarrow> tc_highest_ack s < tc_maxseq s"
    and fresh: "fst b \<and> karn_conf c \<and> rtt_active (tc_rtt s) \<longrightarrow> tc_last_ack s + 1 \<noteq> rtt_seq (tc_rtt s)"
  shows "\<exists>t. tcp_output c now (tc_last_ack s + 1) r s = Some t \<and> good c b t \<and> out_ok c now (tc_last_ack s + 1) r s t"
proof -
  have s': "seq_ok s" "tx_ok s" "rest c b s" using s by (simp_all add: good_def tx_ok_def)
  then have h: "tc_last_ack s = tc_highest_ack s" "tc_highest_ack s \<le> tc_maxseq s" "- 1 \<le> tc_highest_ack s" by (simp_all add: seq_ok_def)
  have "rtt_ok (tc_rtt s)" "tc_tss s = []" using s' by (simp_all add: seq_ok_def)
  from tcp_output_ok [OF c this, of now "tc_last_ack s + 1" r] obtain t where
    t: "tcp_output c now (tc_last_ack s + 1) r s = Some t" "out_ok c now (tc_last_ack s + 1) r s t" by blast
  have w: "1 \<le> cf_wnd c" using c by (simp add: tcp_conf_ok_def)
  have pr: "fst b \<longrightarrow> produced c s" using s'(3) by (simp add: rest_def)
  have "rest c b (t\<lparr>tc_t_seqno := tc_t_seqno s\<rparr>)"
    by (rule out_rest [OF c s'(1,3) t(2)]) (use w h pr q fresh in \<open>auto simp: produced_def\<close>)
  moreover have "t\<lparr>tc_t_seqno := tc_t_seqno t\<rparr> = t" by simp
  ultimately have "rest c b t" using out_keep(1) [OF t(2)] by metis
  moreover have "seq_ok t" using out_seq_ok [OF s'(1) t(2)] .
  then have "tx_ok t" using s'(2) out_keep(1,15) [OF t(2)] by (auto simp: tx_ok_def)
  ultimately show ?thesis using t by (auto simp: good_def)
qed

end
