(* ===== verification/TcpHandlers.thy ===== *)
theory TcpHandlers
  imports TcpInv
begin

text \<open>
  The handlers of a sender keep its invariant and end without failing: the timers, duplicate
  acknowledgments, new and partial acknowledgments, and timeouts.
\<close>

section \<open>The retransmission timer\<close>

lemma calm_rtt:
  assumes "calm c b s" "rtt_ok r" "rtt_seq r = rtt_seq (tc_rtt s)"
  shows "calm c b (s\<lparr>tc_rtt := r\<rparr>)"
  using assms by (simp add: calm_def tx_ok_def seq_ok_def flow_def produced_def sent_def)

lemma timer_set_calm:
  assumes "calm c b s" "timer_set s t"
  shows "calm c b t" "outstanding_timed t" "measured t = measured s"
proof -
  have k: "key t = key s" "tc_maxseq t = tc_maxseq s" "tc_curseq t = tc_curseq s" "sent t = sent s" "tc_rtx t" "rtt_ok (tc_rtt t)"
    "timed (tc_rtt t) = timed (tc_rtt s)" using assms(2) by (simp_all add: timer_set_def)
  note kk = key_keep [OF k(1)]
  show "measured t = measured s" using kk k by (simp add: measured_def)
  show "outstanding_timed t" using k(5) by (simp add: outstanding_timed_def)
  show "calm c b t" using assms(1) kk k by (simp add: calm_def tx_ok_def seq_ok_def flow_def produced_def timed_def)
qed

lemma calm_parts: "calm c b s \<Longrightarrow> rtt_ok (tc_rtt s) \<and> - 1 \<le> tc_highest_ack s \<and> tc_highest_ack s \<le> tc_maxseq s \<and>
    tc_last_ack s = tc_highest_ack s"
  by (simp add: calm_def tx_ok_def seq_ok_def)

lemma conf_timer: "tcp_conf_ok c \<Longrightarrow> timer_conf c \<and> option_conf c"
  by (simp add: tcp_conf_ok_def)

text \<open>\<open>reset_rtx_timer\<close> restores the invariant, as nothing is measured any more.\<close>

lemma tcp_rtt_backoff_ok:
  assumes "tcp_conf_ok c" "rtt_ok (tc_rtt s)"
  shows "\<exists>r. tcp_rtt_backoff c s = Some (s\<lparr>tc_rtt := r\<rparr>) \<and> rtt_ok r \<and> timed r = timed (tc_rtt s)"
  using rtt_backoff_ok [of c "tc_rtt s"] timed_backoff [of c "tc_rtt s"] assms conf_timer [of c]
  by (auto simp: tcp_rtt_backoff_def)

definition timer_reset :: "bool \<Rightarrow> tcp \<Rightarrow> tcp \<Rightarrow> bool" where
  "timer_reset mild s t \<longleftrightarrow> key (t\<lparr>tc_t_seqno := tc_t_seqno s\<rparr>) = key s \<and> tc_maxseq t = tc_maxseq s \<and> tc_curseq t = tc_curseq s \<and>
     sent t = sent s \<and> tc_cwnd t = tc_cwnd s \<and> tc_rtx t \<and> \<not> rtt_active (tc_rtt t) \<and>
     tc_t_seqno t = (if mild then tc_t_seqno s else tc_highest_ack s + 1)"

lemma reset_rtx_timer_good:
  assumes c: "tcp_conf_ok c" and s: "calm c b s"
  shows "\<exists>t. reset_rtx_timer c mild backoff s = Some t \<and> good c b t \<and> timer_reset mild s t"
proof -
  have "\<exists>r. (if backoff then tcp_rtt_backoff c s else Some s) = Some (s\<lparr>tc_rtt := r\<rparr>) \<and> rtt_ok r \<and> timed r = timed (tc_rtt s)"
    using tcp_rtt_backoff_ok [OF c, of s] calm_parts [OF s] by (cases backoff) (auto intro: exI [of _ "tc_rtt s"])
  then obtain r where r: "(if backoff then tcp_rtt_backoff c s else Some s) = Some (s\<lparr>tc_rtt := r\<rparr>)" "rtt_ok r"
    "timed r = timed (tc_rtt s)" by blast
  define u where "u = s\<lparr>tc_rtt := r\<rparr>"
  have u: "calm c b u" using calm_rtt [OF s r(2)] r(3) by (simp add: u_def timed_def)
  from set_rtx_timer_ok [of c u] c u conf_timer calm_parts [OF u] obtain v where v: "set_rtx_timer c u = Some v" "timer_set u v" by blast
  note vc = timer_set_calm [OF u v(2)]
  define w where "w = (if mild then v else v\<lparr>tc_t_seqno := tc_highest_ack v + 1\<rparr>)"
  define t where "t = map_rtt (rtt_active_update (\<lambda>_. False)) w"
  have vk: "key v = key s" "tc_maxseq v = tc_maxseq s" "tc_curseq v = tc_curseq s" "sent v = sent s" "tc_cwnd v = tc_cwnd s" "tc_rtx v"
    using v(2) by (simp_all add: timer_set_def u_def sent_def key_def)
  have eq: "reset_rtx_timer c mild backoff s = Some t" using r(1) v(1) by (simp add: reset_rtx_timer_def t_def w_def u_def)
  have w: "calm c b w" using vc(1) calm_parts [OF vc(1)]
    by (simp add: w_def calm_def tx_ok_def seq_ok_def flow_def produced_def sent_def)
  have "calm c b t" using calm_rtt [OF w, of "(tc_rtt w)\<lparr>rtt_active := False\<rparr>"] calm_parts [OF w] by (simp add: t_def map_rtt_def)
  moreover have t: "tc_rtx t" "\<not> rtt_active (tc_rtt t)" using vk(6) by (simp_all add: t_def w_def)
  then have "outstanding_timed t" "measured t" by (simp_all add: outstanding_timed_def measured_def timed_def)
  ultimately have "good c b t" by (simp add: good_iff)
  moreover have "timer_reset mild s t"
    using vk t key_keep [OF vk(1)] by (simp add: timer_reset_def t_def w_def map_rtt_def sent_def key_def)
  ultimately show ?thesis using eq by blast
qed

lemma timer_reset_keep:
  assumes "timer_reset mild s t"
  shows "tc_highest_ack t = tc_highest_ack s" "tc_last_ack t = tc_last_ack s" "tc_recover t = tc_recover s"
    "tc_last_cwnd_action t = tc_last_cwnd_action s" "tc_dupacks t = tc_dupacks s" "tc_frto t = tc_frto s" "tc_maxseq t = tc_maxseq s"
    "tc_curseq t = tc_curseq s" "\<not> rtt_active (tc_rtt t)" "tc_delsnd t = tc_delsnd s"
  using assms by (simp_all add: timer_reset_def key_def)

text \<open>\<open>newtimer\<close> for the acknowledgment of \<open>q\<close>.\<close>

definition new_timer :: "int \<Rightarrow> tcp \<Rightarrow> tcp \<Rightarrow> bool" where
  "new_timer q s t \<longleftrightarrow> key t = key s \<and> tc_maxseq t = tc_maxseq s \<and> tc_curseq t = tc_curseq s \<and> sent t = sent s \<and>
     tc_cwnd t = tc_cwnd s \<and> rtt_ok (tc_rtt t) \<and> timed (tc_rtt t) = timed (tc_rtt s) \<and>
     (q < tc_maxseq s \<or> q < tc_t_seqno s \<longrightarrow> tc_rtx t)"

lemma newtimer_ok:
  assumes c: "tcp_conf_ok c" and s: "rtt_ok (tc_rtt s)"
  shows "\<exists>t. newtimer c q s = Some t \<and> new_timer q s t"
proof (cases "tc_t_seqno s > q \<or> q < tc_maxseq s \<or> tc_cwnd s < 1")
  case True
  with set_rtx_timer_ok [of c s] c s conf_timer show ?thesis
    by (auto simp: newtimer_def new_timer_def timer_set_def)
next
  case False
  let ?t = "cancel_rtx_timer s"
  have "tc_maxseq ?t = tc_maxseq s \<and> tc_curseq ?t = tc_curseq s \<and> sent ?t = sent s \<and> tc_cwnd ?t = tc_cwnd s \<and> tc_rtt ?t = tc_rtt s"
    by (simp add: cancel_rtx_timer_def) (simp add: tcp_emit_def sent_def)
  with False s have "newtimer c q s = Some ?t \<and> new_timer q s ?t" by (simp add: newtimer_def new_timer_def)
  then show ?thesis by blast
qed

lemma new_timer_calm:
  assumes "calm c b s" "new_timer q s t"
  shows "calm c b t" "measured t = measured s"
proof -
  have k: "key t = key s" "tc_maxseq t = tc_maxseq s" "tc_curseq t = tc_curseq s" "sent t = sent s" "rtt_ok (tc_rtt t)"
    "timed (tc_rtt t) = timed (tc_rtt s)" using assms(2) by (simp_all add: new_timer_def)
  note kk = key_keep [OF k(1)]
  show "measured t = measured s" using kk k by (simp add: measured_def)
  show "calm c b t" using assms(1) kk k by (simp add: calm_def tx_ok_def seq_ok_def flow_def produced_def timed_def)
qed

section \<open>Modes\<close>

lemma calm_action:
  assumes "calm c b s" "a = ACTION_DUPACK \<or> a = ACTION_ECN \<longrightarrow> tc_recover s \<le> tc_maxseq s"
  shows "calm c b (s\<lparr>tc_last_cwnd_action := a\<rparr>)"
  using assms by (auto simp: calm_def tx_ok_def seq_ok_def flow_def produced_def sent_def)

lemma good_action:
  assumes "good c b s" "a = ACTION_ECN \<longrightarrow> tc_recover s \<le> tc_maxseq s"
    "a = ACTION_DUPACK \<longrightarrow> tc_recover s \<le> tc_maxseq s \<and> \<not> rtt_active (tc_rtt s)"
  shows "good c b (s\<lparr>tc_last_cwnd_action := a\<rparr>)"
proof -
  have "calm c b (s\<lparr>tc_last_cwnd_action := a\<rparr>)" using assms by (intro calm_action) (auto simp: good_iff)
  with assms show ?thesis by (auto simp: good_iff outstanding_timed_def measured_def timed_def sent_def)
qed

lemma calm_recover:
  assumes "calm c b s"
  shows "calm c b (s\<lparr>tc_recover := tc_maxseq s\<rparr>)" "calm c b (s\<lparr>tc_recover := tc_maxseq s, tc_last_cwnd_action := a\<rparr>)"
  using assms by (simp_all add: calm_def tx_ok_def seq_ok_def flow_def produced_def sent_def)

lemma retransmit_calm:
  assumes c: "tcp_conf_ok c" and s: "calm c b s" "outstanding_timed s" and q: "fst b \<longrightarrow> tc_highest_ack s < tc_maxseq s"
  shows "\<exists>t. tcp_output c now (tc_last_ack s + 1) r s = Some t \<and> calm c b t"
proof -
  have "good c (False, snd b) s" using s by (simp add: good_iff calm_def)
  from retransmit_good [OF c this, of now r] obtain t where
    t: "tcp_output c now (tc_last_ack s + 1) r s = Some t" "good c (False, snd b) t" "out_ok c now (tc_last_ack s + 1) r s t" by auto
  have "fst b \<longrightarrow> produced c t" using s(1) q out_keep(15,16) [OF t(3)] calm_parts [OF s(1)] by (auto simp: produced_def calm_def)
  with t show ?thesis by (auto simp: good_iff calm_def)
qed

section \<open>Duplicate acknowledgments\<close>

lemma lossQuickStart_calm:
  assumes c: "tcp_conf_ok c" and s: "calm c b s" "outstanding_timed s" and q: "fst b \<longrightarrow> tc_highest_ack s < tc_maxseq s"
  shows "\<exists>k t. lossQuickStart c now s = Some (k, t) \<and> calm c b t \<and> (\<not> k \<longrightarrow> t = s)"
proof (cases "tc_qs_window s \<noteq> 0 \<and> cf_tcp_qs_recovery c")
  case True
  let ?u = "(slowdown c [CLOSE_CWND_INIT] s)\<lparr>tc_qs_window := 0\<rparr>"
  have v: "view ?u = view s" by simp
  then have u: "tc_last_ack ?u = tc_last_ack s" "outstanding_timed ?u = outstanding_timed s" "tc_highest_ack ?u = tc_highest_ack s"
    "tc_maxseq ?u = tc_maxseq s" by (simp_all add: view_def outstanding_timed_def)
  have "calm c b ?u" using s(1) view_good(2) [OF v] by simp
  from retransmit_calm [OF c this, of now REASON_DUPACK] s(2) q u True show ?thesis by (auto simp: lossQuickStart_def)
next
  case False
  with s show ?thesis by (auto simp: lossQuickStart_def)
qed

lemma tahoe_action_good:
  assumes c: "tcp_conf_ok c" and s: "good c b s" and q: "fst b \<longrightarrow> tc_highest_ack s < tc_maxseq s"
  shows "\<exists>t. tahoe_action c now s = Some t \<and> good c b t"
proof -
  let ?s = "s\<lparr>tc_recover := tc_maxseq s\<rparr>"
  have calm: "calm c b ?s" using calm_recover(1) good_calm [OF s] .
  have "outstanding_timed ?s" using s by (simp add: good_iff outstanding_timed_def)
  from lossQuickStart_calm [OF c calm this, of now] q obtain k t where
    t: "lossQuickStart c now ?s = Some (k, t)" "calm c b t" "\<not> k \<longrightarrow> t = ?s" by auto
  have "calm c b (if k then t else slowdown c [CLOSE_SSTHRESH_HALF, CLOSE_CWND_ONE] (t\<lparr>tc_last_cwnd_action := ACTION_DUPACK\<rparr>))"
    using t(2,3) calm_action [OF calm, of ACTION_DUPACK] by auto
  from reset_rtx_timer_good [OF c this, of False False] t(1) show ?thesis by (auto simp: tahoe_action_def)
qed

text \<open>The packet after the last acknowledged one, when no packet is measured.\<close>

lemma retransmit_unmeasured:
  assumes c: "tcp_conf_ok c" and s: "good c b s" "\<not> rtt_active (tc_rtt s)" and q: "fst b \<longrightarrow> tc_highest_ack s < tc_maxseq s"
  shows "\<exists>t. tcp_output c now (tc_last_ack s + 1) r s = Some t \<and> good c b t"
  using retransmit_good [OF c s(1) q, of now r] s(2) by blast

lemma ecn_retransmit_good:
  assumes c: "tcp_conf_ok c" and s: "good c b s" "tc_last_cwnd_action s = ACTION_ECN" and q: "fst b \<longrightarrow> tc_highest_ack s < tc_maxseq s"
  shows "\<exists>t. ecn_retransmit c now s = Some t \<and> good c b t"
proof -
  have "tc_recover s \<le> tc_maxseq s" using s by (simp add: good_def tx_ok_def seq_ok_def)
  then have "calm c b (s\<lparr>tc_last_cwnd_action := ACTION_DUPACK\<rparr>)" using good_calm [OF s(1)] by (intro calm_action) simp_all
  from reset_rtx_timer_good [OF c this, of True False] obtain t where
    t: "reset_rtx_timer c True False (s\<lparr>tc_last_cwnd_action := ACTION_DUPACK\<rparr>) = Some t" "good c b t"
      "timer_reset True (s\<lparr>tc_last_cwnd_action := ACTION_DUPACK\<rparr>) t" by blast
  note k = timer_reset_keep [OF t(3)]
  from retransmit_unmeasured [OF c t(2) k(9), of now REASON_DUPACK] q k t(1) show ?thesis by (auto simp: ecn_retransmit_def)
qed

lemma reno_action_good:
  assumes c: "tcp_conf_ok c" and s: "good c b s" and q: "fst b \<longrightarrow> tc_highest_ack s < tc_maxseq s"
  shows "\<exists>t. reno_action c now s = Some t \<and> good c b t"
proof -
  let ?u = "s\<lparr>tc_recover := tc_maxseq s, tc_last_cwnd_action := ACTION_DUPACK\<rparr>"
  let ?s = "slowdown c [CLOSE_SSTHRESH_HALF, CLOSE_CWND_HALF] ?u"
  have "calm c b ?s" using calm_recover(2) [OF good_calm [OF s]] by simp
  from reset_rtx_timer_good [OF c this, of True False] obtain t where
    t: "reset_rtx_timer c True False ?s = Some t" "good c b t" "timer_reset True ?s t" by blast
  note k = timer_reset_keep [OF t(3)]
  have "tc_highest_ack ?s = tc_highest_ack s" "tc_maxseq ?s = tc_maxseq s" using view_slowdown [of c _ ?u] by (simp_all add: view_def)
  with retransmit_unmeasured [OF c t(2) k(9), of now REASON_DUPACK] q k t(1) show ?thesis by (auto simp: reno_action_def)
qed

lemma newreno_action_good:
  assumes c: "tcp_conf_ok c" and s: "good c b s" and q: "fst b \<longrightarrow> tc_highest_ack s < tc_maxseq s"
  shows "\<exists>t. newreno_action c now s = Some t \<and> good c b t"
proof -
  let ?s = "s\<lparr>tc_recover := tc_maxseq s\<rparr>"
  from reset_rtx_timer_good [OF c calm_recover(1) [OF good_calm [OF s]], of True False] obtain t where
    t: "reset_rtx_timer c True False ?s = Some t" "good c b t" "timer_reset True ?s t" by blast
  note k = timer_reset_keep [OF t(3)]
  have q': "fst b \<longrightarrow> tc_highest_ack t < tc_maxseq t" using q k by simp
  show ?thesis
  proof (cases "tc_qs_window t \<noteq> 0 \<and> cf_tcp_qs_recovery c")
    case True
    let ?u = "(slowdown c [CLOSE_CWND_INIT] t)\<lparr>tc_qs_window := 0\<rparr>"
    have v: "view ?u = view t" by simp
    then have u: "tc_last_ack ?u = tc_last_ack t" "tc_highest_ack ?u = tc_highest_ack t" "tc_maxseq ?u = tc_maxseq t"
      "rtt_active (tc_rtt ?u) = rtt_active (tc_rtt t)" by (simp_all add: view_def)
    have "good c b ?u" using t(2) view_good(1) [OF v] by simp
    from retransmit_unmeasured [OF c this, of now REASON_DUPACK] k(9) q' u True t(1) show ?thesis
      by (auto simp: newreno_action_def lossQuickStart_def)
  next
    case False
    let ?d = "t\<lparr>tc_last_cwnd_action := ACTION_DUPACK\<rparr>"
    let ?u = "slowdown c [CLOSE_SSTHRESH_HALF, CLOSE_CWND_HALF] ?d"
    have "good c b ?d" using t(2) k by (intro good_action) simp_all
    then have g: "good c b ?u" by simp
    have "view ?u = view ?d" by simp
    then have u: "tc_last_ack ?u = tc_last_ack t" "tc_highest_ack ?u = tc_highest_ack t" "tc_maxseq ?u = tc_maxseq t"
      "rtt_active (tc_rtt ?u) = rtt_active (tc_rtt t)" by (simp_all add: view_def)
    from retransmit_unmeasured [OF c g, of now REASON_DUPACK] k(9) q' u False t(1) show ?thesis
      by (auto simp: newreno_action_def lossQuickStart_def)
  qed
qed

lemma dupack_action_good:
  assumes c: "tcp_conf_ok c" and s: "good c b s" and q: "fst b \<longrightarrow> tc_highest_ack s < tc_maxseq s"
  shows "\<exists>t. tahoe_dupack_action c now s = Some t \<and> good c b t" "\<exists>t. reno_dupack_action c now s = Some t \<and> good c b t"
    "\<exists>t. newreno_dupack_action c now s = Some t \<and> good c b t"
proof -
  have ts: "\<not> cf_bugfix_ts c" using c by (simp add: tcp_conf_ok_def)
  show "\<exists>t. reno_dupack_action c now s = Some t \<and> good c b t"
    using reno_action_good [OF assms, of now] ecn_retransmit_good [OF c s _ q, of now] s by (auto simp: reno_dupack_action_def)
  show "\<exists>t. newreno_dupack_action c now s = Some t \<and> good c b t"
    using newreno_action_good [OF assms, of now] ecn_retransmit_good [OF c s _ q, of now] s ts
    by (auto simp: newreno_dupack_action_def)
  have "\<exists>t. reset_rtx_timer c False False (slowdown c [CLOSE_CWND_ONE] (s\<lparr>tc_last_cwnd_action := ACTION_DUPACK\<rparr>)) = Some t \<and> good c b t"
    if "tc_last_cwnd_action s = ACTION_ECN"
  proof -
    have "tc_recover s \<le> tc_maxseq s" using s that by (simp add: good_def tx_ok_def seq_ok_def)
    then have "calm c b (slowdown c [CLOSE_CWND_ONE] (s\<lparr>tc_last_cwnd_action := ACTION_DUPACK\<rparr>))"
      using calm_action [OF good_calm [OF s]] by simp
    from reset_rtx_timer_good [OF c this] show ?thesis by blast
  qed
  with tahoe_action_good [OF assms, of now] s show "\<exists>t. tahoe_dupack_action c now s = Some t \<and> good c b t"
    by (auto simp: tahoe_dupack_action_def)
qed

end
