(* ===== verification/TcpAcks.thy ===== *)
theory TcpAcks
  imports TcpHandlers
begin

text \<open>
  New and partial acknowledgments keep the invariant of a sender, and so does the reception of any
  acknowledgment of data that have been sent.
\<close>

section \<open>Before the acknowledgment is looked at\<close>

lemma good_parts:
  assumes "good c b s"
  shows "tc_last_ack s = tc_highest_ack s" "- 1 \<le> tc_highest_ack s" "tc_highest_ack s \<le> tc_maxseq s" "rtt_ok (tc_rtt s)"
    "tc_wnd_init_option s = 1 \<or> tc_wnd_init_option s = 2"
    "tc_last_cwnd_action s = ACTION_ECN \<or> tc_last_cwnd_action s = ACTION_DUPACK \<longrightarrow> tc_recover s \<le> tc_maxseq s"
  using assms by (simp_all add: good_def tx_ok_def seq_ok_def)

lemma view_parts:
  assumes "view t = view s"
  shows "tc_last_ack t = tc_last_ack s" "tc_highest_ack t = tc_highest_ack s" "tc_maxseq t = tc_maxseq s"
    "tc_wnd_init_option t = tc_wnd_init_option s" "tc_recover t = tc_recover s"
    "tc_last_cwnd_action t = tc_last_cwnd_action s" "tc_frto t = tc_frto s" "tc_curseq t = tc_curseq s"
    "tc_t_seqno t = tc_t_seqno s" "tc_rtx t = tc_rtx s" "tc_rtt t = tc_rtt s" "sent t = sent s" "tc_tss t = tc_tss s"
    "tc_burstsnd t = tc_burstsnd s"
  using assms by (simp_all add: view_def)

lemma initial_window_some:
  "tc_wnd_init_option s = 1 \<or> tc_wnd_init_option s = 2 \<Longrightarrow> \<exists>w. initial_window c s = Some w"
  by (auto simp: initial_window_def)

lemma endQuickStart_view:
  assumes "tc_wnd_init_option s = 1 \<or> tc_wnd_init_option s = 2"
  shows "\<exists>t. endQuickStart c s = Some t \<and> view t = view s"
proof -
  have "\<exists>w. initial_window c (s\<lparr>tc_qs_approved := False, tc_qs_cwnd := 0, tc_qs_window := tc_maxseq s\<rparr>) = Some w"
    using assms by (intro initial_window_some) simp
  then show ?thesis by (auto simp: endQuickStart_def Let_def)
qed

lemma processQuickStart_view:
  assumes "tc_wnd_init_option s = 1 \<or> tc_wnd_init_option s = 2"
  shows "\<exists>t. processQuickStart c now p s = Some t \<and> view t = view s"
proof -
  obtain w where "initial_window c (s\<lparr>tc_qs_requested := False, tc_qs_approved := False\<rparr>) = Some w"
    using assms initial_window_some [of "s\<lparr>tc_qs_requested := False, tc_qs_approved := False\<rparr>" c] by auto
  then show ?thesis by (simp add: processQuickStart_def Let_def)
qed

lemma recv_qs_view:
  assumes s: "tc_wnd_init_option s = 1 \<or> tc_wnd_init_option s = 2"
  shows "\<exists>t. recv_qs c now p s = Some t \<and> view t = view s"
proof -
  obtain u where u: "(if tc_qs_approved s \<and> ta_seqno p > tc_last_ack s then endQuickStart c s else Some s) = Some u" "view u = view s"
    using endQuickStart_view [OF s, of c] by (cases "tc_qs_approved s \<and> ta_seqno p > tc_last_ack s") auto
  have "tc_wnd_init_option u = 1 \<or> tc_wnd_init_option u = 2" using s view_parts(4) [OF u(2)] by simp
  from processQuickStart_view [OF this, of c now p] u show ?thesis by (auto simp: recv_qs_def)
qed

lemma good_rtt:
  assumes "good c b s" "rtt_ok r" "timed r = timed (tc_rtt s)"
  shows "good c b (s\<lparr>tc_rtt := r\<rparr>)"
proof -
  have "calm c b (s\<lparr>tc_rtt := r\<rparr>)" using assms by (intro calm_rtt) (simp_all add: good_iff timed_def)
  with assms(1,3) show ?thesis by (simp add: good_iff outstanding_timed_def measured_def sent_def)
qed

lemma good_recover:
  assumes "good c b s"
  shows "good c b (s\<lparr>tc_recover := tc_maxseq s, tc_last_cwnd_action := ACTION_ECN\<rparr>)"
  using assms calm_recover(2) [OF good_calm [OF assms], of ACTION_ECN]
  by (simp add: good_iff outstanding_timed_def measured_def timed_def sent_def split: prod.splits)

definition acks_same :: "tcp \<Rightarrow> tcp \<Rightarrow> bool" where
  "acks_same s t \<longleftrightarrow> tc_last_ack t = tc_last_ack s \<and> tc_highest_ack t = tc_highest_ack s \<and> tc_maxseq t = tc_maxseq s"

lemma tcp_ecn_good:
  assumes c: "tcp_conf_ok c" and s: "good c b s"
  shows "\<exists>t. tcp_ecn c q s = Some t \<and> good c b t \<and> acks_same s t"
proof -
  let ?s = "s\<lparr>tc_recover := tc_maxseq s, tc_last_cwnd_action := ACTION_ECN\<rparr>"
  have g: "good c b ?s" using good_recover [OF s] .
  obtain r where r: "tcp_rtt_backoff c ?s = Some (?s\<lparr>tc_rtt := r\<rparr>)" "rtt_ok r" "timed r = timed (tc_rtt ?s)"
    using tcp_rtt_backoff_ok [OF c, of ?s] good_parts(4) [OF g] by blast
  have "\<exists>u. (if tc_cwnd ?s \<le> 1 then
          (if tc_ecn_backoff ?s then tcp_rtt_backoff c ?s else Some (?s\<lparr>tc_ecn_backoff := True\<rparr>))
        else Some (?s\<lparr>tc_ecn_backoff := False\<rparr>)) = Some u \<and> good c b u \<and> acks_same s u"
    using r(1) g good_rtt [OF g r(2,3)] by (simp add: acks_same_def)
  then obtain u where u: "(if tc_cwnd ?s \<le> 1 then
          (if tc_ecn_backoff ?s then tcp_rtt_backoff c ?s else Some (?s\<lparr>tc_ecn_backoff := True\<rparr>))
        else Some (?s\<lparr>tc_ecn_backoff := False\<rparr>)) = Some u" "good c b u" "acks_same s u" by blast
  define v where "v = slowdown c [CLOSE_CWND_HALF, CLOSE_SSTHRESH_HALF] u"
  define t where "t = v\<lparr>tc_stats := (tc_stats v)\<lparr>necnresponses := necnresponses (tc_stats v) + 1\<rparr>\<rparr>"
  have v: "view t = view u" by (simp add: t_def v_def)
  have "good c b t" using u(2) view_good(1) [OF v] by simp
  moreover have "acks_same s t" using u(3) view_parts [OF v] by (simp add: acks_same_def)
  moreover have "tcp_ecn c q s = Some (if q > tc_recover s \<or> tc_last_cwnd_action s = ACTION_TIMEOUT then t else s)"
    using u(1) by (simp add: tcp_ecn_def t_def v_def Let_def)
  ultimately show ?thesis using s by (auto simp: acks_same_def)
qed

lemma recv_frto_helper_good:
  assumes "good c b s"
  shows "good c b (recv_frto_helper p s) \<and> acks_same s (recv_frto_helper p s)"
proof (cases "ta_seqno p = tc_last_ack s \<and> tc_frto s \<noteq> 0")
  case True
  let ?t = "s\<lparr>tc_t_seqno := tc_highest_ack s + 1, tc_cwnd := of_int (tc_frto s), tc_frto := 0, tc_dupacks := - 1\<rparr>"
  have k: "\<not> karn_conf c" using True assms by (auto simp: good_def rest_def)
  have "seq_ok ?t" "tc_t_seqno ?t \<le> tc_maxseq ?t + 1" using assms by (simp_all add: good_def tx_ok_def seq_ok_def)
  moreover have "rest c b ?t" using assms k by (simp add: good_def rest_def flow_def produced_def outstanding_timed_def sent_def)
  ultimately show ?thesis using True by (simp add: recv_frto_helper_def acks_same_def good_def tx_ok_def)
next
  case False
  with assms show ?thesis by (auto simp: recv_frto_helper_def acks_same_def)
qed

lemma recv_start_good:
  assumes c: "tcp_conf_ok c" and s: "good c b s"
  shows "\<exists>t. recv_start c p s = Some t \<and> good c b t \<and> acks_same s t"
proof -
  let ?s = "s\<lparr>tc_stats := (tc_stats s)\<lparr>nackpack := nackpack (tc_stats s) + 1\<rparr>, tc_ts_peer := ta_ts p\<rparr>"
  have g: "good c b ?s" using s by simp
  obtain u where u: "(if ecnecho p \<and> cf_ecn c then tcp_ecn c (ta_seqno p) ?s else Some ?s) = Some u" "good c b u" "acks_same s u"
    using tcp_ecn_good [OF c g, of "ta_seqno p"] g by (cases "ecnecho p \<and> cf_ecn c") (auto simp: acks_same_def)
  from recv_frto_helper_good [OF u(2), of p] u(1,3) show ?thesis by (auto simp: recv_start_def acks_same_def)
qed

section \<open>New acknowledgments\<close>

text \<open>The effect of acknowledging the packets up to \<open>q\<close>.\<close>

definition acks_upto :: "int \<Rightarrow> tcp \<Rightarrow> tcp \<Rightarrow> bool" where
  "acks_upto q s t \<longleftrightarrow> (\<exists>x r. view t = (max (tc_t_seqno s) (q + 1), q, q, tc_recover s, tc_last_cwnd_action s, tc_frto s,
       tc_burstsnd s, tc_wnd_init_option s, tc_tss s, tc_maxseq s, tc_curseq s, x, r, sent s) \<and>
     rtt_ok r \<and> rtt_seq r = rtt_seq (tc_rtt s) \<and> (timed r = timed (tc_rtt s) \<or> \<not> rtt_active r) \<and> (q < tc_maxseq s \<longrightarrow> x))"

lemma acks_uptoI:
  assumes "tc_t_seqno t = max (tc_t_seqno s) (q + 1)" "tc_highest_ack t = q" "tc_last_ack t = q" "tc_recover t = tc_recover s"
    "tc_last_cwnd_action t = tc_last_cwnd_action s" "tc_frto t = tc_frto s" "tc_burstsnd t = tc_burstsnd s"
    "tc_wnd_init_option t = tc_wnd_init_option s" "tc_tss t = tc_tss s" "tc_maxseq t = tc_maxseq s" "tc_curseq t = tc_curseq s"
    "sent t = sent s" "q < tc_maxseq s \<longrightarrow> tc_rtx t" "rtt_ok (tc_rtt t)" "rtt_seq (tc_rtt t) = rtt_seq (tc_rtt s)"
    "timed (tc_rtt t) = timed (tc_rtt s) \<or> \<not> rtt_active (tc_rtt t)"
  shows "acks_upto q s t"
  using assms unfolding acks_upto_def view_def by blast

lemma acks_upto_good:
  assumes s: "good c b s" and q: "tc_highest_ack s < q" "q \<le> tc_maxseq s" "q \<le> fst (snd b)" and t: "acks_upto q s t"
  shows "good c b t"
proof -
  from t obtain x r where
    v: "tc_t_seqno t = max (tc_t_seqno s) (q + 1)" "tc_highest_ack t = q" "tc_last_ack t = q" "tc_recover t = tc_recover s"
      "tc_last_cwnd_action t = tc_last_cwnd_action s" "tc_frto t = tc_frto s" "tc_burstsnd t = tc_burstsnd s"
      "tc_wnd_init_option t = tc_wnd_init_option s" "tc_tss t = tc_tss s" "tc_maxseq t = tc_maxseq s" "tc_curseq t = tc_curseq s"
      "tc_rtx t = x" "tc_rtt t = r" "sent t = sent s"
    and r: "rtt_ok r" "rtt_seq r = rtt_seq (tc_rtt s)" "timed r = timed (tc_rtt s) \<or> \<not> rtt_active r" "q < tc_maxseq s \<longrightarrow> x"
    by (auto simp: acks_upto_def view_def)
  have "tx_ok t" using s q r(1,2) unfolding good_def tx_ok_def seq_ok_def v by linarith
  moreover have "flow c t \<and> (fst b \<longrightarrow> produced c t)" using s q unfolding good_def rest_def flow_def produced_def v by auto
  moreover have "measured s \<longrightarrow> measured t" using r(3) by (auto simp: measured_def v timed_def)
  ultimately show ?thesis using s r(4) q(3) by (auto simp: good_def rest_def v outstanding_timed_def)
qed

definition rtt_keep :: "tcp \<Rightarrow> tcp \<Rightarrow> bool" where
  "rtt_keep s t \<longleftrightarrow> view (t\<lparr>tc_rtt := tc_rtt s\<rparr>) = view s \<and> rtt_ok (tc_rtt t) \<and> rtt_seq (tc_rtt t) = rtt_seq (tc_rtt s) \<and>
     (timed (tc_rtt t) = timed (tc_rtt s) \<or> \<not> rtt_active (tc_rtt t))"

lemma rtt_keep_parts:
  assumes "rtt_keep s t"
  shows "tc_t_seqno t = tc_t_seqno s" "tc_highest_ack t = tc_highest_ack s" "tc_last_ack t = tc_last_ack s"
    "tc_recover t = tc_recover s" "tc_last_cwnd_action t = tc_last_cwnd_action s" "tc_frto t = tc_frto s"
    "tc_burstsnd t = tc_burstsnd s" "tc_wnd_init_option t = tc_wnd_init_option s" "tc_tss t = tc_tss s"
    "tc_maxseq t = tc_maxseq s" "tc_curseq t = tc_curseq s" "sent t = sent s"
    "tc_rtx t = tc_rtx s" "rtt_ok (tc_rtt t)" "rtt_seq (tc_rtt t) = rtt_seq (tc_rtt s)"
    "timed (tc_rtt t) = timed (tc_rtt s) \<or> \<not> rtt_active (tc_rtt t)"
  using assms by (simp_all add: rtt_keep_def view_def sent_def)

lemma sent_upd: "sent (s\<lparr>tc_dupacks := d, tc_last_ack := l, tc_prev_highest_ack := h, tc_highest_ack := g, tc_t_seqno := q\<rparr>) = sent s"
  by (simp add: sent_def)

lemma rtt_keep_refl: "rtt_ok (tc_rtt s) \<Longrightarrow> rtt_keep s s"
  by (simp add: rtt_keep_def)

lemma rtt_keep_trans: "rtt_keep s t \<Longrightarrow> rtt_keep t u \<Longrightarrow> rtt_keep s u"
  by (auto simp: rtt_keep_def view_def timed_def sent_def)

lemma rtt_keep_backoff: "rtt_ok (tc_rtt s) \<Longrightarrow> rtt_keep s (end_backoff p s)"
  by (simp add: rtt_keep_def end_backoff_def map_rtt_def rtt_ok_def view_def sent_def)

lemma rtt_keep_update: "timer_conf c \<Longrightarrow> rtt_ok (tc_rtt s) \<Longrightarrow> rtt_keep s (map_rtt (rtt_update c now d) s)"
  using timed_update [of c now d "tc_rtt s"] by (simp add: rtt_keep_def map_rtt_def rtt_update_ok timed_def view_def sent_def)

lemma rtt_keep_stop: "rtt_ok (tc_rtt s) \<Longrightarrow> rtt_keep s (map_rtt (rtt_active_update (\<lambda>_. False)) s)"
  by (simp add: rtt_keep_def map_rtt_def view_def sent_def)

lemma rtt_keep_echo: "rtt_ok (tc_rtt s) \<Longrightarrow> rtt_keep s (s\<lparr>tc_ts_echo := e\<rparr>)"
  by (simp add: rtt_keep_def)

lemma newack_rtt_keep:
  assumes c: "timer_conf c" and s: "rtt_ok (tc_rtt s)"
  shows "rtt_keep s (newack_rtt c now p s)"
proof -
  define u where "u = (if cf_ts_option c then
      (let s = map_rtt (rtt_update c now (now - ta_ts_echo p)) (s\<lparr>tc_ts_echo := ta_ts_echo p\<rparr>)
       in if cf_ts_resetRTO c then end_backoff p s else s) else s)"
  let ?v = "map_rtt (rtt_update c now (now - ta_ts_echo p)) (s\<lparr>tc_ts_echo := ta_ts_echo p\<rparr>)"
  have step: "rtt_keep s t \<Longrightarrow> rtt_ok (tc_rtt t)" for s t by (simp add: rtt_keep_def)
  have v: "rtt_keep s ?v" using rtt_keep_trans [OF rtt_keep_echo [OF s] rtt_keep_update [OF c]] s by simp
  then have u: "rtt_keep s u"
    using rtt_keep_trans [OF v rtt_keep_backoff [OF step [OF v]]] rtt_keep_refl [OF s] by (simp add: u_def Let_def)
  define w where "w = map_rtt (rtt_active_update (\<lambda>_. False)) (end_backoff p u)"
  have w: "rtt_keep u w"
    using rtt_keep_trans [OF rtt_keep_backoff [OF step [OF u]] rtt_keep_stop] step [OF rtt_keep_backoff [OF step [OF u]]]
    by (simp add: w_def)
  have "rtt_keep u (if cf_ts_option c then w else map_rtt (rtt_update c now (now - rtt_ts (tc_rtt w))) w)"
    using w rtt_keep_trans [OF w rtt_keep_update [OF c step [OF w]]] by simp
  note w' = rtt_keep_trans [OF u this]
  have eq: "newack_rtt c now p s = (if rtt_active (tc_rtt u) \<and> ta_seqno p \<ge> rtt_seq (tc_rtt u) then
      (if cf_ts_option c then w else map_rtt (rtt_update c now (now - rtt_ts (tc_rtt w))) w) else u)" (is "_ = (if ?A then _ else _)")
    unfolding newack_rtt_def u_def [symmetric] by (simp only: Let_def w_def)
  show ?thesis using w' u unfolding eq by (cases ?A) (simp_all only: if_True if_False simp_thms)
qed

lemma new_timer_parts:
  assumes "new_timer q s t"
  shows "key t = key s" "tc_maxseq t = tc_maxseq s" "tc_curseq t = tc_curseq s" "sent t = sent s" "rtt_ok (tc_rtt t)"
    "timed (tc_rtt t) = timed (tc_rtt s)" "q < tc_maxseq s \<longrightarrow> tc_rtx t" "q < tc_t_seqno s \<longrightarrow> tc_rtx t"
  using assms by (simp_all add: new_timer_def)

lemma newack_good:
  assumes c: "tcp_conf_ok c" and s: "good c b s" and q: "tc_highest_ack s < ta_seqno p" "ta_seqno p \<le> tc_maxseq s" "ta_seqno p \<le> fst (snd b)"
  shows "\<exists>t. newack c now p s = Some t \<and> good c b t \<and> tc_highest_ack t = ta_seqno p \<and> tc_maxseq t = tc_maxseq s \<and>
    (cf_timerfix c \<longrightarrow> tc_rtx t)"
proof -
  let ?q = "ta_seqno p"
  let ?upd = "\<lambda>s. s\<lparr>tc_dupacks := 0, tc_last_ack := ?q, tc_prev_highest_ack := tc_highest_ack s, tc_highest_ack := ?q,
        tc_t_seqno := (if tc_t_seqno s < ?q + 1 then ?q + 1 else tc_t_seqno s)\<rparr>"
  let ?rtt = "\<lambda>s. if ap_no_ts p then s else newack_rtt c now p s"
  have t: "timer_conf c" using c by (simp add: tcp_conf_ok_def)
  have rtt: "rtt_keep s (?rtt s)" if "rtt_ok (tc_rtt s)" for s using newack_rtt_keep [OF t that] rtt_keep_refl [OF that] by simp
  have r: "rtt_ok (tc_rtt s)" using good_parts(4) [OF s] .
  have "\<exists>u. newack c now p s = Some (u\<lparr>tc_awnd := tc_awnd u * (1 - cf_wnd_th c) + cf_wnd_th c * tc_cwnd u\<rparr>) \<and> acks_upto ?q s u \<and>
      (cf_timerfix c \<longrightarrow> tc_rtx u)"
  proof (cases "cf_timerfix c")
    case False
    from newtimer_ok [OF c r, of ?q] obtain v where v: "newtimer c ?q s = Some v" "new_timer ?q s v" by blast
    note v' = new_timer_parts [OF v(2)]
    note k = key_keep [OF v'(1)]
    have "rtt_keep (?upd v) (?rtt (?upd v))" using v'(5) by (intro rtt) simp
    note u = rtt_keep_parts [OF this]
    have "acks_upto ?q s (?rtt (?upd v))"
      by (rule acks_uptoI; (unfold u)?) (use k v' u(13-16) in \<open>simp_all add: sent_upd timed_def\<close>)
    with False v(1) show ?thesis by (intro exI [of _ "?rtt (?upd v)"]) (simp add: newack_def Let_def)
  next
    case True
    define u where "u = ?rtt (?upd s)"
    have k: "rtt_keep (?upd s) u" using r unfolding u_def by (intro rtt) simp
    note u = rtt_keep_parts [OF k]
    from newtimer_ok [OF c u(14), of ?q] obtain v where v: "newtimer c ?q u = Some v" "new_timer ?q u v" by blast
    note v' = new_timer_parts [OF v(2)]
    note k = key_keep [OF v'(1)]
    have "acks_upto ?q s v" by (rule acks_uptoI) (use k v' u in \<open>simp_all add: sent_upd timed_def\<close>)
    moreover have "newack c now p s = Some (v\<lparr>tc_awnd := tc_awnd v * (1 - cf_wnd_th c) + cf_wnd_th c * tc_cwnd v\<rparr>)"
      using True v(1) unfolding newack_def Let_def u_def by (simp only: if_True Option.bind.simps)
    moreover have "tc_rtx v" using v'(8) u(1) by simp
    ultimately show ?thesis by blast
  qed
  then obtain u where u: "newack c now p s = Some (u\<lparr>tc_awnd := tc_awnd u * (1 - cf_wnd_th c) + cf_wnd_th c * tc_cwnd u\<rparr>)"
    "acks_upto ?q s u" "cf_timerfix c \<longrightarrow> tc_rtx u" by blast
  have "tc_highest_ack u = ?q \<and> tc_maxseq u = tc_maxseq s" using u(2) by (auto simp: acks_upto_def view_def)
  with acks_upto_good [OF s q u(2)] u(1,3) show ?thesis by simp
qed

end
