(* ===== verification/TcpRecv.thy ===== *)
theory TcpRecv
  imports TcpAcks
begin

text \<open>The reception of acknowledgments, by Tahoe, Reno and NewReno senders, keeps the invariant.\<close>

section \<open>After a new acknowledgment\<close>

lemma frto_step_good:
  assumes s: "good c b s"
  shows "good c b (frto_step c s) \<and> acks_same s (frto_step c s)"
proof (cases "tc_frto s = 0")
  case True
  with s show ?thesis by (simp add: frto_step_def acks_same_def)
next
  case False
  then have k: "\<not> karn_conf c" using s by (auto simp: good_def rest_def)
  have tx: "tx_ok s" and r: "rest c b s" using s by (simp_all add: good_def)
  have upd: "rest c b (s\<lparr>tc_frto := f\<rparr>)" "rest c b (s\<lparr>tc_frto := f, tc_recover := m\<rparr>)"
    "rest c b (s\<lparr>tc_frto := f, tc_t_seqno := q\<rparr>)" for f m q
    using r k by (simp_all add: rest_def flow_def produced_def outstanding_timed_def sent_def)
  have tx1: "tx_ok (s\<lparr>tc_frto := 0\<rparr>)" using tx by (simp add: tx_ok_def seq_ok_def)
  have tx2: "tx_ok (s\<lparr>tc_frto := 0, tc_recover := tc_highest_ack s - 1\<rparr>)" using tx by (simp add: tx_ok_def seq_ok_def)
  have tx3: "tx_ok (s\<lparr>tc_frto := 2, tc_t_seqno := tc_recover s + 1\<rparr>)" using tx False by (simp add: tx_ok_def seq_ok_def)
  have g: "good c b (s\<lparr>tc_frto := 0\<rparr>)" "good c b (s\<lparr>tc_frto := 0, tc_recover := tc_highest_ack s - 1\<rparr>)"
    "good c b (s\<lparr>tc_frto := 2, tc_t_seqno := tc_recover s + 1\<rparr>)" using tx1 tx2 tx3 upd by (simp_all add: good_def)
  have eq: "s\<lparr>tc_t_seqno := q, tc_frto := f\<rparr> = s\<lparr>tc_frto := f, tc_t_seqno := q\<rparr>" for q f by simp
  have view: "view (spurious_timeout c s) = view (s\<lparr>tc_frto := 0, tc_recover := tc_highest_ack s - 1\<rparr>)"
    by (simp add: spurious_timeout_def view_def sent_def Let_def)
  have sp: "good c b (spurious_timeout c s)" using view_good(1) [OF view] g(2) by simp
  have "acks_same s (spurious_timeout c s)" using view_parts(1-3) [OF view] by (simp add: acks_same_def)
  with sp g s show ?thesis by (simp add: frto_step_def eq) (simp add: acks_same_def)
qed

lemma opencwnd_good:
  assumes "tcp_conf_ok c" "good c b s"
  shows "\<exists>t. opencwnd c s = Some t \<and> good c b t \<and> acks_same s t"
proof -
  from opencwnd_frame [of c s] conf_timer [OF assms(1)] obtain t where t: "opencwnd c s = Some t" "key t = key s" "net t = net s" by blast
  have v: "view t = view s" using view_key t(2,3) .
  show ?thesis using t(1) assms(2) view_good(1) [OF v] view_parts [OF v] by (simp add: acks_same_def)
qed

lemma ecn_state_view [simp]: "view (ecn_state p s) = view s"
  by (simp add: ecn_state_def Let_def)

text \<open>Each of the steps after \<open>newack\<close> keeps the invariant and the highest acknowledgment.\<close>

lemma recv_newack_helper_good:
  assumes c: "tcp_conf_ok c" and s: "good c b s" and q: "tc_highest_ack s < ta_seqno p" "ta_seqno p \<le> tc_maxseq s" "ta_seqno p \<le> fst (snd b)"
  shows "\<exists>t. recv_newack_helper c now p s = Some t \<and> good c b t"
proof -
  have qo: "\<not> cf_QOption c" using c by (simp add: tcp_conf_ok_def)
  from newack_good [OF c s q, of now] obtain t where t: "newack c now p s = Some t" "good c b t" by blast
  define u where "u = (if tc_qs_window t \<noteq> 0 \<and> tc_highest_ack t \<ge> tc_qs_window t then t\<lparr>tc_qs_window := 0\<rparr> else t)"
  have u: "good c b u" using t(2) by (simp add: u_def)
  let ?A = "(\<not> tc_ect u \<or> \<not> ecnecho p \<or> (cf_old_ecn c \<and> tc_ecn_burst u)) \<and> (\<not> cf_control_increase c \<or> network_limited c u)"
  obtain v where v: "(if ?A then opencwnd c u else Some u) = Some v" "good c b v"
    using opencwnd_good [OF c u] u by (cases ?A) auto
  define w where "w = ecn_state p v"
  define x where "x = (if tc_highest_ack w \<ge> tc_curseq w - 1 \<and> \<not> tc_closed w then tcp_emit ConnDone (w\<lparr>tc_closed := True\<rparr>) else w)"
  have "view w = view v" unfolding w_def by (rule ecn_state_view)
  then have "view x = view v" by (simp add: x_def)
  from view_good(1) [OF this] have "good c b x" using v(2) by simp
  moreover have "recv_newack_helper c now p s = Some (frto_step c x)"
    unfolding recv_newack_helper_def t(1) Let_def Option.bind.simps u_def [symmetric] v(1) w_def [symmetric] x_def [symmetric]
    using qo by simp
  ultimately show ?thesis using frto_step_good by blast
qed

lemma first_window_good:
  assumes "good c b s"
  shows "\<exists>t. first_window c s = Some t \<and> good c b t"
proof -
  obtain w where "initial_window c s = Some w" using initial_window_some good_parts(5) [OF assms] by blast
  with assms show ?thesis by (auto simp: first_window_def)
qed

text \<open>A partial acknowledgment: the next packet is sent again, and it is not the one measured.\<close>

lemma partialnewack_upto:
  assumes s: "rtt_ok (tc_rtt s)" "ta_seqno p < tc_maxseq s \<longrightarrow> tc_rtx s"
  shows "acks_upto (ta_seqno p) s (partialnewack c p s)" "tc_highest_ack (partialnewack c p s) = ta_seqno p"
    "tc_last_ack (partialnewack c p s) = ta_seqno p" "tc_maxseq (partialnewack c p s) = tc_maxseq s"
    "tc_last_cwnd_action (partialnewack c p s) = tc_last_cwnd_action s" "tc_recover (partialnewack c p s) = tc_recover s"
proof -
  let ?q = "ta_seqno p"
  define d where "d = (if cf_partial_window_deflation c then
      (let deflate = (if ?q > tc_last_ack s then ?q - tc_last_ack s else 0);
           s = (if tc_dupwnd s > deflate then s\<lparr>tc_dupwnd := tc_dupwnd s - (deflate - 1)\<rparr>
                else s\<lparr>tc_cwnd := tc_cwnd s - of_int (deflate - tc_dupwnd s), tc_dupwnd := 1\<rparr>)
       in if tc_cwnd s < 1 then s\<lparr>tc_cwnd := 1\<rparr> else s) else s)"
  have v: "view d = view s" by (simp add: d_def Let_def)
  note d = view_parts [OF v]
  define u where "u = d\<lparr>tc_last_ack := ?q, tc_highest_ack := ?q, tc_t_seqno := (if tc_t_seqno d < ?q + 1 then ?q + 1 else tc_t_seqno d)\<rparr>"
  have u: "sent u = sent s" using d(12) by (simp add: u_def sent_def)
  have eq: "partialnewack c p s = (if rtt_active (tc_rtt u) \<and> ?q \<ge> rtt_seq (tc_rtt u)
      then map_rtt (\<lambda>r. r\<lparr>rtt_active := False, t_backoff := 1\<rparr>) u else u)"
    unfolding partialnewack_def d_def [symmetric] by (simp only: Let_def u_def)
  have r: "rtt_ok ((tc_rtt s)\<lparr>rtt_active := False, t_backoff := 1\<rparr>)" using s(1) by (simp add: rtt_ok_def)
  have u': "acks_upto ?q s u" "acks_upto ?q s (map_rtt (\<lambda>r. r\<lparr>rtt_active := False, t_backoff := 1\<rparr>) u)"
    by (rule acks_uptoI; use s r d u in \<open>simp add: u_def map_rtt_def sent_def timed_def\<close>)+
  then show "acks_upto ?q s (partialnewack c p s)" unfolding eq by simp
  show "tc_highest_ack (partialnewack c p s) = ?q" "tc_last_ack (partialnewack c p s) = ?q"
    "tc_maxseq (partialnewack c p s) = tc_maxseq s" "tc_last_cwnd_action (partialnewack c p s) = tc_last_cwnd_action s"
    "tc_recover (partialnewack c p s) = tc_recover s"
    unfolding eq using d by (simp_all add: u_def map_rtt_def)
qed

lemma new_timer_good:
  assumes s: "good c b s" and n: "new_timer q s t" and q: "q \<le> tc_highest_ack s \<or> q < tc_maxseq s"
  shows "good c b t"
proof -
  note n' = new_timer_parts [OF n] and k = key_keep [OF new_timer_parts(1) [OF n]]
  have "outstanding_timed t" using q n' k s by (auto simp: outstanding_timed_def)
  then show ?thesis using s new_timer_calm [OF good_calm [OF s] n] by (simp add: good_iff)
qed

lemma partialnewack_helper_good:
  assumes c: "tcp_conf_ok c" and s: "good c b s" "tc_last_cwnd_action s = ACTION_DUPACK"
    and q: "tc_highest_ack s < ta_seqno p" "ta_seqno p < tc_recover s" "ta_seqno p \<le> fst (snd b)"
  shows "\<exists>t. partialnewack_helper c now p s = Some t \<and> good c b t"
proof -
  let ?q = "ta_seqno p"
  let ?s = "s\<lparr>tc_newreno := (tc_newreno s)\<lparr>nr_firstpartial := True\<rparr>\<rparr>"
  let ?A = "\<not> cf_newreno_changes1 c \<or> \<not> nr_firstpartial (tc_newreno s)"
  have m: "tc_recover s \<le> tc_maxseq s" "tc_recover ?s \<le> tc_maxseq ?s" using good_parts(6) [OF s(1)] s(2) by simp_all
  have g: "good c b ?s" using s(1) by simp
  obtain v where v: "newtimer c ?q ?s = Some v" "new_timer ?q ?s v" using newtimer_ok [OF c good_parts(4) [OF g]] by blast
  note n' = new_timer_parts [OF v(2)] and k = key_keep [OF new_timer_parts(1) [OF v(2)]]
  have gv: "good c b v" by (rule new_timer_good [OF g v(2)]) (use q m in simp)
  obtain u where u: "(if ?A then newtimer c ?q ?s else Some s) = Some u" "good c b u" "tc_highest_ack u = tc_highest_ack s"
    "tc_maxseq u = tc_maxseq s" "tc_recover u = tc_recover s" "tc_last_cwnd_action u = tc_last_cwnd_action s"
    using v(1) gv n' k s(1) by (cases ?A) auto
  have "tc_rtx u" using u(2-4) q m by (simp add: good_iff outstanding_timed_def)
  note a = partialnewack_upto [OF good_parts(4) [OF u(2)], of p c] 
  let ?t = "partialnewack c p u"
  have t: "good c b ?t" using acks_upto_good [OF u(2) _ _ _ a(1)] q m u \<open>tc_rtx u\<close> by simp
  have "fst b \<and> karn_conf c \<and> rtt_active (tc_rtt ?t) \<longrightarrow> ?q + 1 \<noteq> rtt_seq (tc_rtt ?t)"
    using t a(5,6) u(5,6) s(2) q \<open>tc_rtx u\<close> by (auto simp: good_iff measured_def timed_def)
  with retransmit_good [OF c t, of now REASON_NONE] a(2-4) u(1,4) q m \<open>tc_rtx u\<close> show ?thesis
    by (auto simp: partialnewack_helper_def)
qed

end
