(* ===== verification/TcpRuns.thy ===== *)
theory TcpRuns
  imports TcpRecv
begin

text \<open>
  The reception of any acknowledgment of data that have been sent, by the three kinds of sender,
  with explicit loss notification and the options of NewReno: it does not fail and keeps the invariant.
\<close>

section \<open>Acknowledgments\<close>

text \<open>
  The acknowledgments that can arrive: only of packets sent, and within the bound.  \<open>b\<close> may
  require that the last acknowledgment is repeated only while data are outstanding.
\<close>

definition ack_valid :: "bool \<times> int \<times> int \<Rightarrow> ack_pkt \<Rightarrow> tcp \<Rightarrow> bool" where
  "ack_valid b p s \<longleftrightarrow> ta_seqno p \<le> tc_maxseq s \<and> ta_seqno p \<le> fst (snd b) \<and>
     (fst b \<longrightarrow> ta_seqno p = tc_highest_ack s \<longrightarrow> tc_highest_ack s < tc_maxseq s)"

lemma tcp_eln_good:
  assumes c: "tcp_conf_ok c" "cf_eln c" and s: "good c b s" and q: "fst b \<longrightarrow> tc_highest_ack s < tc_maxseq s"
  shows "\<exists>t. tcp_eln c now p s = Some t \<and> good c b t"
proof -
  let ?s = "s\<lparr>tc_dupacks := tc_dupacks s + 1\<rparr>"
  have g: "good c b ?s" using s by simp
  have "\<not> karn_conf c" using c(2) by (simp add: karn_conf_def)
  then obtain t where t: "tcp_output c now (tc_last_ack s + 1) REASON_DUPACK ?s = Some t" "good c b t"
    using retransmit_good [OF c(1) g, of now REASON_DUPACK] q by auto
  obtain u where "send_much c now False REASON_NONE (cf_maxburst c) ?s = Some u" "good c b u"
    using send_much_good [OF c(1) g] by blast
  with t show ?thesis by (auto simp: tcp_eln_def Let_def)
qed

text \<open>NewReno's flywheel sends without regard for the window.\<close>

lemma flywheel_good:
  assumes c: "tcp_conf_ok c" "cf_newreno_changes c > 0" and s: "good c b s"
  shows "\<exists>t. tcp_output c now (tc_t_seqno s) r (s\<lparr>tc_t_seqno := tc_t_seqno s + 1\<rparr>) = Some t \<and> good c b t"
proof -
  let ?s = "s\<lparr>tc_t_seqno := tc_t_seqno s + 1\<rparr>"
  have k: "\<not> karn_conf c" using c(2) by (simp add: karn_conf_def)
  have s': "tx_ok s" "rest c b s" using s by (simp_all add: good_def)
  have sq: "seq_ok ?s" using s' by (simp add: tx_ok_def seq_ok_def)
  have rs: "rest c b ?s" using s' k by (simp add: rest_def flow_def produced_def outstanding_timed_def sent_def)
  from tcp_output_ok [OF c(1), of ?s now "tc_t_seqno s" r] sq obtain t where
    t: "tcp_output c now (tc_t_seqno s) r ?s = Some t" "out_ok c now (tc_t_seqno s) r ?s t" by (auto simp: seq_ok_def)
  have "rest c b (t\<lparr>tc_t_seqno := tc_t_seqno t\<rparr>)"
    by (rule out_rest [OF c(1) sq rs t(2)]) (use c(2) k s' in \<open>auto simp: tx_ok_def seq_ok_def\<close>)
  moreover have "t\<lparr>tc_t_seqno := tc_t_seqno t\<rparr> = t" by simp
  ultimately have "rest c b t" by metis
  moreover have "tx_ok t" using out_seq_ok [OF sq t(2)] out_keep(1,15) [OF t(2)] by (simp add: tx_ok_def)
  ultimately show ?thesis using t by (simp add: good_def)
qed

lemma newreno_dupack_good:
  assumes c: "tcp_conf_ok c" and s: "good c b s" and q: "fst b \<longrightarrow> tc_highest_ack s < tc_maxseq s"
  shows "\<exists>t. newreno_dupack c now s = Some t \<and> good c b t"
proof -
  define u where "u = s\<lparr>tc_dupacks := tc_dupacks s + 1\<rparr>"
  define d where "d = u\<lparr>tc_dupwnd := tc_dupwnd u + 1\<rparr>"
  have g: "good c b u" "good c b d" "fst b \<longrightarrow> tc_highest_ack u < tc_maxseq u" using s q by (simp_all add: u_def d_def)
  have eq: "newreno_dupack c now s =
     (if tc_dupacks u = cf_numdupacks c then
        map_option (\<lambda>s. if cf_exitFastRetrans c then s else s\<lparr>tc_dupwnd := cf_numdupacks c\<rparr>) (newreno_dupack_action c now u)
      else if tc_dupacks u > cf_numdupacks c \<and> (\<not> cf_exitFastRetrans c \<or> tc_last_cwnd_action u = ACTION_DUPACK) then
        (if cf_newreno_changes c > 0 \<and> cmod (tc_dupacks d) 2 = 1
         then tcp_output c now (tc_t_seqno d) REASON_NONE (d\<lparr>tc_t_seqno := tc_t_seqno d + 1\<rparr>) else Some d)
      else if tc_dupacks u < cf_numdupacks c \<and> cf_singledup c then send_one c now u else Some u)"
    unfolding newreno_dupack_def Let_def d_def u_def ..
  obtain t where "newreno_dupack_action c now u = Some t" "good c b t" using dupack_action_good(3) [OF c g(1,3)] by blast
  moreover obtain v where "send_one c now u = Some v" "good c b v" using send_one_good [OF c g(1)] by blast
  moreover have "\<exists>v. tcp_output c now (tc_t_seqno d) REASON_NONE (d\<lparr>tc_t_seqno := tc_t_seqno d + 1\<rparr>) = Some v \<and> good c b v"
    if "cf_newreno_changes c > 0" using flywheel_good [OF c that g(2)] .
  ultimately show ?thesis unfolding eq using g by simp
qed

section \<open>The receiving methods\<close>

lemma recv_begin:
  assumes c: "tcp_conf_ok c" and s: "good c b s" and p: "ack_valid b p s"
  obtains u where "recv_qs c now p s = Some u" "good c b u" "ack_valid b p u"
    "\<And>v. view v = view u \<Longrightarrow> good c b v \<and> ack_valid b p v"
proof -
  obtain u where u: "recv_qs c now p s = Some u" "view u = view s" using recv_qs_view [OF good_parts(5) [OF s]] by blast
  have "good c b v \<and> ack_valid b p v" if "view v = view u" for v
    using view_good(1) [of v s c b] view_parts [of v s] that u(2) s p by (simp add: ack_valid_def)
  with u show ?thesis using that by blast
qed

lemma recv_middle:
  assumes c: "tcp_conf_ok c" and s: "good c b s" and p: "ack_valid b p s"
  obtains u where "recv_start c p s = Some u" "good c b u" "ack_valid b p u" "tc_last_ack u = tc_highest_ack u"
proof -
  obtain u where "recv_start c p s = Some u" "good c b u" "acks_same s u" using recv_start_good [OF c s] by blast
  with p good_parts(1) that show ?thesis by (auto simp: ack_valid_def acks_same_def)
qed

lemma newack_step:
  assumes c: "tcp_conf_ok c" and s: "good c b s" and q: "tc_last_ack s < ta_seqno p" "ta_seqno p \<le> tc_maxseq s" "ta_seqno p \<le> fst (snd b)"
  shows "\<exists>t. Option.bind (recv_newack_helper c now p s) (first_window c) = Some t \<and> good c b t"
proof -
  obtain u where u: "recv_newack_helper c now p s = Some u" "good c b u"
    using recv_newack_helper_good [OF c s] q good_parts(1) [OF s] by auto
  from first_window_good [OF u(2)] u(1) show ?thesis by simp
qed

lemma some_bind: "\<exists>t. x = Some t \<and> P t \<Longrightarrow> (\<And>t. P t \<Longrightarrow> \<exists>u. f t = Some u \<and> Q u) \<Longrightarrow> \<exists>u. Option.bind x f = Some u \<and> Q u"
  by auto

text \<open>The frame of the three methods: \<open>g\<close> comes first, \<open>mid\<close> reacts to the acknowledgment, \<open>fin\<close> sends.\<close>

definition recv_frame :: "tcp_conf \<Rightarrow> real \<Rightarrow> ack_pkt \<Rightarrow> (tcp \<Rightarrow> tcp) \<Rightarrow> (tcp \<Rightarrow> tcp option) \<Rightarrow> (tcp \<Rightarrow> tcp option) \<Rightarrow> tcp \<Rightarrow> tcp option" where
  "recv_frame c now p g mid fin s = Option.bind (recv_qs c now p s) (\<lambda>s.
     if ta_ts p < tc_lastreset (g s) then Some (g s)
     else Option.bind (recv_start c p (g s)) (\<lambda>s.
       if ta_seqno p = tc_last_ack s \<and> ap_eln p \<and> cf_eln c then tcp_eln c now p s else Option.bind (mid s) fin))"

lemma recv_frame_good:
  assumes c: "tcp_conf_ok c" and s: "good c b s" and p: "ack_valid b p s" and g: "\<And>s. view (g s) = view s"
    and mid: "\<And>s. good c b s \<Longrightarrow> ack_valid b p s \<Longrightarrow> tc_last_ack s = tc_highest_ack s \<Longrightarrow> \<exists>t. mid s = Some t \<and> good c b t"
    and fin: "\<And>s. good c b s \<Longrightarrow> \<exists>t. fin s = Some t \<and> good c b t"
  shows "\<exists>t. recv_frame c now p g mid fin s = Some t \<and> good c b t"
proof -
  obtain u where u: "recv_qs c now p s = Some u" "good c b (g u) \<and> ack_valid b p (g u)" using recv_begin [OF c s p] g by metis
  obtain v where v: "recv_start c p (g u) = Some v" "good c b v" "ack_valid b p v" "tc_last_ack v = tc_highest_ack v"
    using recv_middle [OF c, of b "g u" p] u(2) by blast
  have "\<exists>t. tcp_eln c now p v = Some t \<and> good c b t" if "cf_eln c" "ta_seqno p = tc_last_ack v"
    using tcp_eln_good [OF c that(1) v(2)] that(2) v(3,4) by (simp add: ack_valid_def)
  moreover have "\<exists>t. Option.bind (mid v) fin = Some t \<and> good c b t" using some_bind [OF mid [OF v(2-4)] fin] .
  ultimately show ?thesis using u v(1) by (simp add: recv_frame_def)
qed

text \<open>A new acknowledgment, or the last one repeated.\<close>

lemma ack_cases:
  assumes c: "tcp_conf_ok c" and s: "good c b s" "ack_valid b p s" "tc_last_ack s = tc_highest_ack s"
    and new: "tc_last_ack s < ta_seqno p \<Longrightarrow> \<exists>t. f s = Some t \<and> good c b t"
    and dup: "fst b \<longrightarrow> tc_highest_ack s < tc_maxseq s \<Longrightarrow> \<exists>t. g s = Some t \<and> good c b t"
  shows "\<exists>t. (if ta_seqno p > tc_last_ack s then f s else if ta_seqno p = tc_last_ack s then g s else Some s) = Some t \<and> good c b t"
  using s new dup by (auto simp: ack_valid_def)

lemma good_exit:
  assumes "good c b s"
  shows "good c b (s\<lparr>tc_last_cwnd_action := (if tc_last_cwnd_action s = ACTION_DUPACK then ACTION_EXITED else tc_last_cwnd_action s)\<rparr>)"
proof (cases "tc_last_cwnd_action s = ACTION_DUPACK")
  case True
  with good_action [OF assms, of ACTION_EXITED] show ?thesis by simp
next
  case False
  with assms show ?thesis by simp
qed

lemma good_send:
  assumes c: "tcp_conf_ok c" and s: "good c b s"
  shows "\<exists>t. (if A then send_much c now f r m s else Some s) = Some t \<and> good c b t"
  using send_much_good [OF assms] s by simp

lemma tahoe_recv_good:
  assumes c: "tcp_conf_ok c" and s: "good c b s" and p: "ack_valid b p s"
  shows "\<exists>t. tahoe_recv c now p s = Some t \<and> good c b t"
proof -
  let ?dup = "\<lambda>s. if tc_dupacks s = cf_numdupacks c \<and> \<not> cf_noFastRetrans c then tahoe_dupack_action c now s
        else if tc_dupacks s < cf_numdupacks c \<and> cf_singledup c then send_one c now s
        else Some s"
  let ?mid = "\<lambda>s. if ta_seqno p > tc_last_ack s then Option.bind (recv_newack_helper c now p s) (first_window c)
     else if ta_seqno p = tc_last_ack s then ?dup (s\<lparr>tc_dupacks := tc_dupacks s + 1\<rparr>) else Some s"
  let ?fin = "\<lambda>s. if ta_seqno p \<ge> tc_last_ack s \<or> cf_aggressive_maxburst c
     then send_much c now False REASON_NONE (cf_maxburst c) s else Some s"
  have "\<not> cf_QOption c" using c by (simp add: tcp_conf_ok_def)
  then have eq: "tahoe_recv c now p s = recv_frame c now p (\<lambda>s. s) ?mid ?fin s"
    by (simp only: tahoe_recv_def recv_frame_def Let_def simp_thms if_False cong: if_cong)
  have dup: "\<exists>t. ?dup s = Some t \<and> good c b t" if "good c b s" "fst b \<longrightarrow> tc_highest_ack s < tc_maxseq s" for s
    using dupack_action_good(1) [OF c that, of now] send_one_good [OF c that(1), of now] that by simp
  have mid: "\<exists>t. ?mid s = Some t \<and> good c b t" if "good c b s" "ack_valid b p s" "tc_last_ack s = tc_highest_ack s" for s
    by (rule ack_cases [OF c that], rule newack_step [OF c that(1)], assumption, use that(2) in \<open>simp add: ack_valid_def\<close>,
      use that(2) in \<open>simp add: ack_valid_def\<close>, rule dup)
      (use that(1) in simp_all)
  show ?thesis unfolding eq by (rule recv_frame_good [OF c s p refl mid]) (use good_send [OF c] in simp_all)
qed

lemma reno_recv_good:
  assumes c: "tcp_conf_ok c" and s: "good c b s" and p: "ack_valid b p s"
  shows "\<exists>t. reno_recv c now p s = Some t \<and> good c b t"
proof -
  let ?new = "\<lambda>s. s\<lparr>tc_last_cwnd_action := (if tc_last_cwnd_action s = ACTION_DUPACK then ACTION_EXITED
                                                    else tc_last_cwnd_action s), tc_dupwnd := 0\<rparr>"
  let ?dup = "\<lambda>s. if tc_dupacks s = cf_numdupacks c then
         map_option (\<lambda>s. if cf_exitFastRetrans c then s else s\<lparr>tc_dupwnd := cf_numdupacks c\<rparr>) (reno_dupack_action c now s)
       else if tc_dupacks s > cf_numdupacks c \<and> (\<not> cf_exitFastRetrans c \<or> tc_last_cwnd_action s = ACTION_DUPACK)
         then Some (s\<lparr>tc_dupwnd := tc_dupwnd s + 1\<rparr>)
       else if tc_dupacks s < cf_numdupacks c \<and> cf_singledup c then send_one c now s
       else Some s"
  let ?mid = "\<lambda>s. if ta_seqno p > tc_last_ack s then Option.bind (recv_newack_helper c now p (?new s)) (first_window c)
     else if ta_seqno p = tc_last_ack s then ?dup (s\<lparr>tc_dupacks := tc_dupacks s + 1\<rparr>) else Some s"
  let ?fin = "\<lambda>s. if (ta_seqno p \<ge> tc_last_ack s \<or> cf_aggressive_maxburst c) \<and>
            (tc_dupacks s = 0 \<or> tc_dupacks s > cf_numdupacks c - 1)
     then send_much c now False REASON_NONE (cf_maxburst c) s else Some s"
  have eq: "reno_recv c now p s = recv_frame c now p (\<lambda>s. s) ?mid ?fin s"
    by (simp only: reno_recv_def recv_frame_def Let_def)
  have dup: "\<exists>t. ?dup s = Some t \<and> good c b t" if g: "good c b s" "fst b \<longrightarrow> tc_highest_ack s < tc_maxseq s" for s
  proof -
    obtain t where "reno_dupack_action c now s = Some t" "good c b t" using dupack_action_good(2) [OF c g] by blast
    moreover obtain u where "send_one c now s = Some u" "good c b u" using send_one_good [OF c g(1)] by blast
    ultimately show ?thesis using g by simp
  qed
  have new: "\<exists>t. Option.bind (recv_newack_helper c now p (?new s)) (first_window c) = Some t \<and> good c b t"
    if g: "good c b s" "ta_seqno p \<le> tc_maxseq s" "ta_seqno p \<le> fst (snd b)" "tc_last_ack s < ta_seqno p" for s
    using newack_step [OF c, of b "?new s" p now] good_exit [OF g(1)] g by simp
  have mid: "\<exists>t. ?mid s = Some t \<and> good c b t" if g: "good c b s" "ack_valid b p s" "tc_last_ack s = tc_highest_ack s" for s
    by (rule ack_cases [OF c g], rule new [OF g(1)], use g(2) in \<open>simp add: ack_valid_def\<close>, use g(2) in \<open>simp add: ack_valid_def\<close>, assumption, rule dup)
      (use g(1) in simp_all)
  show ?thesis unfolding eq by (rule recv_frame_good [OF c s p refl mid]) (use good_send [OF c] in simp_all)
qed

lemma newreno_first_acks_view [simp]: "view (newreno_first_acks c now s) = view s"
  by (simp add: newreno_first_acks_def Let_def)

lemma newreno_exit_good:
  assumes "good c b s"
  shows "good c b (newreno_exit c p s)" "tc_last_ack (newreno_exit c p s) = tc_last_ack s" "tc_maxseq (newreno_exit c p s) = tc_maxseq s"
proof -
  have view: "view (newreno_exit c p s) = view (if tc_dupwnd s > 0 then s\<lparr>tc_last_cwnd_action :=
      (if tc_last_cwnd_action s = ACTION_DUPACK then ACTION_EXITED else tc_last_cwnd_action s)\<rparr> else s)"
    unfolding newreno_exit_def Let_def view_upd by (simp add: view_def sent_def)
  show "good c b (newreno_exit c p s)" using assms good_exit [OF assms] unfolding view_good(1) [OF view] by simp
  show "tc_last_ack (newreno_exit c p s) = tc_last_ack s" "tc_maxseq (newreno_exit c p s) = tc_maxseq s"
    using view_parts(1,3) [OF view] by simp_all
qed

lemma newreno_recv_good:
  assumes c: "tcp_conf_ok c" and s: "good c b s" and p: "ack_valid b p s"
  shows "\<exists>t. newreno_recv c now p s = Some t \<and> good c b t"
proof -
  let ?new = "\<lambda>s. if ta_seqno p \<ge> tc_recover s \<or> tc_last_cwnd_action s \<noteq> ACTION_DUPACK
     then Option.bind (recv_newack_helper c now p (newreno_exit c p s)) (first_window c)
     else partialnewack_helper c now p (if cf_partial_window_deflation c then s else s\<lparr>tc_dupwnd := 0\<rparr>)"
  let ?mid = "\<lambda>s. if ta_seqno p > tc_last_ack s then ?new s else if ta_seqno p = tc_last_ack s then newreno_dupack c now s else Some s"
  let ?fin = "\<lambda>s. if ta_seqno p \<ge> tc_last_ack s \<or> cf_aggressive_maxburst c then
           (if tc_dupacks s = 0 then send_much c now False REASON_NONE (cf_maxburst c) s
            else if tc_dupacks s > cf_numdupacks c - 1 \<and> cf_newreno_changes c = 0
              then send_much c now False REASON_NONE 2 s
            else Some s)
         else Some s"
  have eq: "newreno_recv c now p s = recv_frame c now p (newreno_first_acks c now) ?mid ?fin s"
    by (simp only: newreno_recv_def recv_frame_def Let_def)
  have new: "\<exists>t. ?new s = Some t \<and> good c b t"
    if g: "good c b s" "ta_seqno p \<le> tc_maxseq s" "ta_seqno p \<le> fst (snd b)" "tc_last_ack s < ta_seqno p" for s
  proof (cases "ta_seqno p \<ge> tc_recover s \<or> tc_last_cwnd_action s \<noteq> ACTION_DUPACK")
    case True
    with newack_step [OF c newreno_exit_good(1) [OF g(1)], of p p now] newreno_exit_good(2,3) [OF g(1), of p] g(2-4) show ?thesis by simp
  next
    case False
    let ?s = "if cf_partial_window_deflation c then s else s\<lparr>tc_dupwnd := 0\<rparr>"
    have "good c b ?s" "tc_last_cwnd_action ?s = ACTION_DUPACK" "tc_highest_ack ?s < ta_seqno p" "ta_seqno p < tc_recover ?s" "ta_seqno p \<le> fst (snd b)"
      using g False good_parts(1) [OF g(1)] by simp_all
    from partialnewack_helper_good [OF c this, of now] False show ?thesis by simp
  qed
  have mid: "\<exists>t. ?mid s = Some t \<and> good c b t" if g: "good c b s" "ack_valid b p s" "tc_last_ack s = tc_highest_ack s" for s
    by (rule ack_cases [OF c g], rule new [OF g(1)], use g(2) in \<open>simp add: ack_valid_def\<close>, use g(2) in \<open>simp add: ack_valid_def\<close>, assumption, rule newreno_dupack_good [OF c g(1)])
  show ?thesis unfolding eq
    by (rule recv_frame_good [OF c s p newreno_first_acks_view mid]) (use send_much_good [OF c] in simp_all)
qed

lemma tcp_recv_good:
  "tcp_conf_ok c \<Longrightarrow> good c b s \<Longrightarrow> ack_valid b p s \<Longrightarrow> \<exists>t. tcp_recv c now p s = Some t \<and> good c b t"
  using tahoe_recv_good reno_recv_good newreno_recv_good by (simp add: tcp_recv_def split: tcp_class.split)

end
