(* ===== verification/TcpSender.thy ===== *)
theory TcpSender
  imports TcpRuns
begin

text \<open>
  The runs of a sender: after a reset, acknowledgments, expirations of its timers and data of the
  application in any order.  Every event is handled without failing and keeps the invariant.
\<close>

section \<open>Timeouts\<close>

lemma calm_frto:
  assumes "calm c b s" "karn_conf c \<longrightarrow> f = 0" "f \<noteq> 0 \<longrightarrow> - 1 \<le> tc_recover s \<and> tc_recover s \<le> tc_maxseq s"
  shows "calm c b (s\<lparr>tc_frto := f\<rparr>)"
  using assms by (auto simp: calm_def tx_ok_def seq_ok_def flow_def produced_def sent_def)

lemma calm_init_option: "calm c b s \<Longrightarrow> calm c b (s\<lparr>tc_wnd_init_option := 1\<rparr>)"
  by (simp add: calm_def tx_ok_def seq_ok_def flow_def produced_def sent_def)

text \<open>The state just before the window is cut, and the two ways to go on.\<close>

lemma timeout_cut_calm:
  assumes s: "calm c b s"
  shows "calm c b (timeout_cut c s)" "tc_maxseq (timeout_cut c s) = tc_maxseq s" "tc_highest_ack (timeout_cut c s) = tc_highest_ack s"
proof -
  define u where "u = s\<lparr>tc_recover := tc_maxseq s\<rparr>"
  define v where "v = (if tc_highest_ack u = - 1 \<and> tc_wnd_init_option u = 2 then u\<lparr>tc_wnd_init_option := 1\<rparr>
     else if tc_highest_ack u = - 1 \<and> tc_wnd_init_option u = 1 \<and> tc_wnd_init u > 1 \<and> cf_bugfix_ss c then u\<lparr>tc_wnd_init := 1\<rparr> else u)"
  define frto where "frto = (\<lambda>s :: tcp. if cf_frto_enabled c \<or> cf_sfrto_enabled c then s\<lparr>tc_frto := 1\<rparr> else s)"
  have u: "calm c b u" using calm_recover(1) [OF s] by (simp add: u_def)
  have v: "calm c b v" using u calm_init_option [OF u] by (simp add: v_def)
  have vf: "tc_recover v = tc_maxseq s" "tc_maxseq v = tc_maxseq s" "tc_highest_ack v = tc_highest_ack s" by (simp_all add: v_def u_def)
  define w where "w = v\<lparr>tc_stats := (tc_stats v)\<lparr>nrexmit := nrexmit (tc_stats v) + 1\<rparr>, tc_last_cwnd_action := ACTION_TIMEOUT\<rparr>"
  have w: "calm c b w" using calm_action [of c b "v\<lparr>tc_stats := (tc_stats v)\<lparr>nrexmit := nrexmit (tc_stats v) + 1\<rparr>\<rparr>" ACTION_TIMEOUT] v
    by (simp add: w_def)
  have wf: "tc_recover w = tc_maxseq s" "tc_maxseq w = tc_maxseq s" "tc_highest_ack w = tc_highest_ack s" by (simp_all add: w_def vf)
  have sl: "tc_recover (slowdown c how x) = tc_recover x" "tc_maxseq (slowdown c how x) = tc_maxseq x"
    "tc_highest_ack (slowdown c how x) = tc_highest_ack x" for how x using view_parts(2,3,5) [OF view_slowdown] by simp_all
  have frto: "calm c b (frto (slowdown c how x))" if "calm c b x" "tc_recover x = tc_maxseq s" "tc_maxseq x = tc_maxseq s" for how x
  proof -
    have "calm c b ((slowdown c how x)\<lparr>tc_frto := 1\<rparr>)" if "cf_frto_enabled c \<or> cf_sfrto_enabled c"
      by (rule calm_frto) (use \<open>calm c b x\<close> that calm_parts [OF \<open>calm c b x\<close>] \<open>tc_recover x = _\<close> \<open>tc_maxseq x = _\<close> in
        \<open>auto simp: karn_conf_def sl\<close>)
    with that(1) show ?thesis by (simp add: frto_def)
  qed
  have frtof: "tc_maxseq (frto x) = tc_maxseq x" "tc_highest_ack (frto x) = tc_highest_ack x" for x by (simp_all add: frto_def)
  have eq: "timeout_cut c s = (if tc_highest_ack v = tc_maxseq v \<and> cf_restart_bugfix c then slowdown c [CLOSE_CWND_ONE, NO_OUTSTANDING_DATA] v
      else if tc_highest_ack v < tc_recover v \<and> tc_last_cwnd_action v = ACTION_ECN then frto (slowdown c [CLOSE_CWND_ONE] v)
      else frto (slowdown c [CLOSE_SSTHRESH_HALF, CLOSE_CWND_RESTART] w))"
    unfolding timeout_cut_def by (simp only: Let_def u_def [symmetric] v_def [symmetric] frto_def w_def)
  show "calm c b (timeout_cut c s)" unfolding eq using v frto [OF v vf(1,2)] frto [OF w wf(1,2)] by simp
  show "tc_maxseq (timeout_cut c s) = tc_maxseq s" "tc_highest_ack (timeout_cut c s) = tc_highest_ack s"
    unfolding eq by (simp_all add: frtof sl vf wf)
qed

text \<open>A timeout goes back to the first packet that is not acknowledged, and sends from there.\<close>

definition timeout_state :: "tcp_conf \<Rightarrow> tcp \<Rightarrow> tcp" where
  "timeout_state c s =
     (let s = s\<lparr>tc_frto := 0\<rparr>;
          s = s\<lparr>tc_pipe_prev := max (window c s) (tc_ssthresh s), tc_cwnd := (if tc_cwnd s < 1 then 1 else tc_cwnd s), tc_qs_approved := False\<rparr>
      in if tc_highest_ack s = tc_maxseq s \<and> \<not> cf_slow_start_restart c then s else timeout_cut c s)"

lemma timeout_state_calm:
  assumes s: "calm c b s"
  shows "calm c b (timeout_state c s)" "tc_maxseq (timeout_state c s) = tc_maxseq s" "tc_highest_ack (timeout_state c s) = tc_highest_ack s"
proof -
  define u where "u = s\<lparr>tc_frto := 0\<rparr>"
  define v where "v = u\<lparr>tc_pipe_prev := max (window c u) (tc_ssthresh u), tc_cwnd := (if tc_cwnd u < 1 then 1 else tc_cwnd u), tc_qs_approved := False\<rparr>"
  have "calm c b u" unfolding u_def by (rule calm_frto) (use s in simp_all)
  then have v: "calm c b v" "tc_maxseq v = tc_maxseq s" "tc_highest_ack v = tc_highest_ack s" by (simp_all add: v_def u_def)
  have eq: "timeout_state c s = (if tc_highest_ack v = tc_maxseq v \<and> \<not> cf_slow_start_restart c then v else timeout_cut c v)"
    unfolding timeout_state_def by (simp only: Let_def u_def v_def)
  show "calm c b (timeout_state c s)" "tc_maxseq (timeout_state c s) = tc_maxseq s" "tc_highest_ack (timeout_state c s) = tc_highest_ack s"
    unfolding eq using v timeout_cut_calm [OF v(1)] by simp_all
qed

lemma tahoe_timeout_good:
  assumes c: "tcp_conf_ok c" and s: "calm c b s"
  shows "\<exists>u t. tahoe_timeout c now s = Some t \<and> good c b t \<and>
    timer_reset False (timeout_state c s) u \<and> good c b (u\<lparr>tc_last_cwnd_action := ACTION_TIMEOUT\<rparr>) \<and>
    send_much c now False REASON_TIMEOUT (cf_maxburst c) (u\<lparr>tc_last_cwnd_action := ACTION_TIMEOUT\<rparr>) = Some t"
proof -
  let ?s = "timeout_state c s"
  let ?b = "\<not> (tc_highest_ack ?s = tc_maxseq ?s \<and> cf_restart_bugfix c)"
  from reset_rtx_timer_good [OF c timeout_state_calm(1) [OF s], of False ?b] obtain u where
    u: "reset_rtx_timer c False ?b ?s = Some u" "good c b u" "timer_reset False ?s u" by blast
  have g: "good c b (u\<lparr>tc_last_cwnd_action := ACTION_TIMEOUT\<rparr>)" using good_action [OF u(2)] by simp
  from send_much_good [OF c g] obtain t where
    t: "send_much c now False REASON_TIMEOUT (cf_maxburst c) (u\<lparr>tc_last_cwnd_action := ACTION_TIMEOUT\<rparr>) = Some t" "good c b t" by blast
  have "tahoe_timeout c now s = Option.bind (reset_rtx_timer c False ?b ?s)
      (\<lambda>s. send_much c now False REASON_TIMEOUT (cf_maxburst c) (s\<lparr>tc_last_cwnd_action := ACTION_TIMEOUT\<rparr>))"
    unfolding tahoe_timeout_def timeout_state_def by (simp only: Let_def)
  with u t g show ?thesis by auto
qed

section \<open>Timers and data\<close>

lemma calm_pending: "good c b s \<Longrightarrow> calm c b (s\<lparr>tc_rtx := False\<rparr>)"
  by (simp add: good_iff calm_def tx_ok_def seq_ok_def flow_def produced_def sent_def)

lemma rtx_expire_good:
  assumes c: "tcp_conf_ok c" and s: "good c b s" "tc_rtx s"
  shows "\<exists>t. rtx_expire c now s = Some t \<and> good c b t"
proof -
  let ?s = "s\<lparr>tc_rtx := False\<rparr>" let ?d = "?s\<lparr>tc_dupwnd := 0, tc_dupacks := 0\<rparr>"
  have calm: "calm c b ?s" using calm_pending [OF s(1)] .
  then have "calm c b (?d\<lparr>tc_recover := (if cf_bug_fix c then tc_maxseq s else tc_recover s)\<rparr>)"
    using calm_recover(1) [of c b ?d] by simp
  from tahoe_timeout_good [OF c this, of now] tahoe_timeout_good [OF c calm, of now] s(2) show ?thesis
    unfolding rtx_expire_def tcp_timeout_def by (cases "cf_class c = Tahoe") (auto cong del: if_weak_cong)
qed

lemma view_timers: "view (s\<lparr>tc_delsnd := x\<rparr>) = view s"
  by (simp add: view_def sent_def)

lemma delsnd_expire_good:
  assumes c: "tcp_conf_ok c" and s: "good c b s" "tc_delsnd s"
  shows "\<exists>t. delsnd_expire c now s = Some t \<and> good c b t"
  using send_much_good [OF c, of b "s\<lparr>tc_delsnd := False\<rparr>" now True] s view_good(1) [OF view_timers] by (simp add: delsnd_expire_def)

lemma good_curseq: "good c b s \<Longrightarrow> tc_curseq s \<le> n \<Longrightarrow> good c b (s\<lparr>tc_curseq := n\<rparr>)"
  by (auto simp: good_def rest_def tx_ok_def seq_ok_def flow_def produced_def outstanding_timed_def measured_def sent_def split: prod.splits)

lemma cdiv_ge_0: "0 \<le> a \<Longrightarrow> 0 < n \<Longrightarrow> 0 \<le> cdiv a n"
  by (simp add: cdiv_def sgn_if pos_imp_zdiv_nonneg_iff)

lemma sendmsg_good:
  assumes c: "tcp_conf_ok c" and s: "good c b s" and n: "0 \<le> n \<or> n = - 1 \<and> tc_curseq s \<le> TCP_MAXSEQ"
  shows "\<exists>t. sendmsg c now n s = Some t \<and> good c b t"
proof -
  have size: "0 < cf_size c" using c by (simp add: tcp_conf_ok_def)
  let ?k = "cdiv n (cf_size c) + (if cmod n (cf_size c) \<noteq> 0 then 1 else 0)"
  have "0 \<le> ?k" if "0 \<le> n" using cdiv_ge_0 [OF that size] by simp
  then have "good c b (s\<lparr>tc_curseq := tc_curseq s + ?k\<rparr>)" if "0 \<le> n" using that by (intro good_curseq [OF s]) simp
  moreover have "good c b (s\<lparr>tc_curseq := TCP_MAXSEQ\<rparr>)" if "tc_curseq s \<le> TCP_MAXSEQ" by (rule good_curseq [OF s that])
  ultimately show ?thesis using send_much_good [OF c, where b = b] size n by (auto simp: sendmsg_def)
qed

lemma advanceby_good:
  assumes c: "tcp_conf_ok c" and s: "good c b s" and n: "0 \<le> n"
  shows "\<exists>t. advanceby c now n s = Some t \<and> good c b t"
proof -
  have "good c b (s\<lparr>tc_curseq := tc_curseq s + n, tc_closed := (if n > 0 then False else tc_closed s)\<rparr>)"
    using good_curseq [OF s, of "tc_curseq s + n"] n by simp
  from send_much_good [OF c this] show ?thesis by (simp add: advanceby_def)
qed

section \<open>The first reset\<close>

text \<open>The fields that the constructor leaves to the bound variable \<open>windowInitOption_\<close>.\<close>

lemma tcp_reset_good:
  assumes c: "tcp_conf_ok c" and u: "tc_wnd_init_option u = 1 \<or> tc_wnd_init_option u = 2" and b: "- 1 \<le> fst (snd b)" "snd (snd b) \<le> - 1"
  shows "\<exists>s. tcp_reset c now (tcp_new u) = Some s \<and> good c b s"
proof -
  let ?r = "(rtt_init c (tc_rtt (tcp_new u)))\<lparr>rtt_seq := - 1\<rparr>"
  have r: "rtt_ok ?r" "\<not> rtt_active ?r" using rtt_init_ok [of c "tc_rtt (tcp_new u)"] c
    by (simp_all add: tcp_conf_ok_def) (simp add: rtt_init_def tcp_new_def)
  let ?s = "map_rtt (\<lambda>r. (rtt_init c r)\<lparr>rtt_seq := - 1\<rparr>) ((tcp_new u)\<lparr>tc_dupacks := 0, tc_curseq := 0\<rparr>)"
  obtain w where w: "initial_window c ?s = Some w" using u by (auto simp: initial_window_def tcp_new_def map_rtt_def)
  obtain v where v: "set_initial_window c ?s = Some v" "tc_rtt v = ?r" "tc_wnd_init_option v = tc_wnd_init_option u" "tc_tss v = []"
    "tc_frto v = 0" "tc_out v = []" "tc_curseq v = 0" "\<not> tc_rtx v"
    using w by (cases "cf_syn c \<and> cf_delay_growth c") (auto simp: set_initial_window_def map_rtt_def tcp_new_def)
  have wnd: "1 \<le> cf_wnd c" "\<not> cf_QOption c" using c by (simp_all add: tcp_conf_ok_def)
  have "good c b s" if "tcp_reset c now (tcp_new u) = Some s" for s
  proof -
    have s: "s = the (tcp_reset c now (tcp_new u))" using that by simp
    have f: "tc_t_seqno s = 0" "tc_highest_ack s = - 1" "tc_last_ack s = - 1" "tc_recover s = 0" "tc_last_cwnd_action s = ACTION_NONE"
      "tc_frto s = 0" "\<not> tc_burstsnd s" "tc_wnd_init_option s = tc_wnd_init_option u" "tc_tss s = []" "tc_maxseq s = - 1"
      "tc_curseq s = 0" "tc_out s = []" "rtt_ok (tc_rtt s)" "\<not> rtt_active (tc_rtt s)" "rtt_seq (tc_rtt s) = - 1"
      using v(2-) r unfolding s tcp_reset_def
      by (simp_all add: v(1) wnd(2) Let_def tcp_draw_def cancel_timers_def cancel_rtx_timer_def) (simp_all add: map_rtt_def v(2-))
    show ?thesis unfolding good_def tx_ok_def seq_ok_def rest_def flow_def produced_def outstanding_timed_def measured_def timed_def sent_def f
      using u b wnd(1) f by simp
  qed
  moreover have "\<exists>s. tcp_reset c now (tcp_new u) = Some s" using v(1) by (simp add: tcp_reset_def Let_def split: prod.split)
  ultimately show ?thesis by blast
qed

section \<open>Runs\<close>

text \<open>
  Acknowledgments come for packets sent, and if \<open>b\<close>, the last one is repeated only while data are
  outstanding.  Time is not restricted: an event can come at any \<open>now\<close>.
\<close>

inductive sender :: "tcp_conf \<Rightarrow> bool \<Rightarrow> tcp \<Rightarrow> bool" for c b where
  start: "tc_wnd_init_option u = 1 \<or> tc_wnd_init_option u = 2 \<Longrightarrow> tcp_reset c now (tcp_new u) = Some s \<Longrightarrow> sender c b s"
| ack: "sender c b s \<Longrightarrow> ack_valid (b, tc_maxseq s, tc_maxseq s) p s \<Longrightarrow> tcp_recv c now p s = Some t \<Longrightarrow> sender c b t"
| rtx: "sender c b s \<Longrightarrow> rtx_expire c now s = Some t \<Longrightarrow> sender c b t"
| delsnd: "sender c b s \<Longrightarrow> delsnd_expire c now s = Some t \<Longrightarrow> sender c b t"
| send: "sender c b s \<Longrightarrow> 0 \<le> n \<or> n = - 1 \<and> tc_curseq s \<le> TCP_MAXSEQ \<Longrightarrow> sendmsg c now n s = Some t \<Longrightarrow> sender c b t"
| advance: "sender c b s \<Longrightarrow> 0 \<le> n \<Longrightarrow> advanceby c now n s = Some t \<Longrightarrow> sender c b t"

lemma good_bound: "good c (b, n, m) s \<Longrightarrow> good c (b, tc_maxseq s, tc_maxseq s) s"
  by (auto simp: good_def rest_def tx_ok_def seq_ok_def)

lemma sender_good:
  assumes c: "tcp_conf_ok c"
  shows "sender c b s \<Longrightarrow> good c (b, tc_maxseq s, tc_maxseq s) s"
proof (induction rule: sender.induct)
  case (start u now s)
  with tcp_reset_good [OF c, of u "(b, - 1, - 1)" now] good_bound show ?case by auto
next
  case (ack s p now t)
  with tcp_recv_good [OF c ack.IH ack.hyps(2), of now] good_bound show ?case by auto
next
  case (rtx s now t)
  moreover from this have "tc_rtx s" by (simp add: rtx_expire_def split: if_splits)
  ultimately show ?case using rtx_expire_good [OF c rtx.IH, of now] good_bound by auto
next
  case (delsnd s now t)
  moreover from this have "tc_delsnd s" by (simp add: delsnd_expire_def split: if_splits)
  ultimately show ?case using delsnd_expire_good [OF c delsnd.IH, of now] good_bound by auto
next
  case (send s n now t)
  with sendmsg_good [OF c send.IH send.hyps(2), of now] good_bound show ?case by auto
next
  case (advance s n now t)
  with advanceby_good [OF c advance.IH, of n now] good_bound show ?case by auto
qed

end
