(* ===== verification/TcpProps.thy ===== *)
theory TcpProps
  imports TcpSender
begin

text \<open>
  The properties of the senders: whatever happens in a run is handled, data outstanding are timed,
  and the window of the receiver and Karn's rule are respected.
\<close>

section \<open>An example\<close>

text \<open>Reno with a window of 20 packets, and a sender with 3000 bytes of data.\<close>

definition ex_conf :: tcp_conf where
  "ex_conf = \<lparr>cf_class = Reno, cf_wnd = 20, cf_wnd_const = 4, cf_wnd_th = 1/500, cf_tcp_tick = 1/10, cf_wnd_option = 1,
     cf_increase_num = 1, cf_tcpip_base_hdr_size = 40, cf_maxcwnd = 0, cf_numdupacks = 3, cf_size = 1000,
     cf_overhead = 0, cf_ttl = 32, cf_flowid = 0, cf_maxrto = 60, cf_minrto = 1, cf_ts_resetRTO = False,
     cf_ts_option_size = 10, cf_ts_option = False, cf_T_SRTT_BITS = 3, cf_T_RTTVAR_BITS = 2, cf_rttvar_exp = 2,
     cf_srtt_init = 0, cf_rttvar_init = 12, cf_rtxcur_init = 6, cf_timerfix = True, cf_rfc2988 = True, cf_syn = True,
     cf_delay_growth = False, cf_max_connects = 0, cf_frto_enabled = False, cf_sfrto_enabled = False,
     cf_spurious_response = 1, cf_bug_fix = True, cf_less_careful = False, cf_exitFastRetrans = True,
     cf_bugfix_ack = True, cf_bugfix_ts = False, cf_bugfix_ss = True, cf_old_ecn = False, cf_k_parameter = 0,
     cf_l_parameter = 1, cf_precision_reduce = True, cf_maxburst = 0, cf_aggressive_maxburst = False,
     cf_slow_start_restart = True, cf_restart_bugfix = True, cf_singledup = True, cf_noFastRetrans = False,
     cf_useHeaders = True, cf_ecn = False, cf_SetCWRonRetransmit = True, cf_eln = False, cf_eln_rxmit_thresh = 1,
     cf_low_window = 38, cf_high_window = 83000, cf_high_p = 1/10000000, cf_high_decrease = 1/10, cf_max_ssthresh = 0,
     cf_cwnd_range = 0, cf_rate_request = 0, cf_qs_enabled = False, cf_tcp_qs_recovery = False,
     cf_qs_request_mode = 1, cf_qs_thresh = 0, cf_qs_rtt = 0, cf_rate_function = 1, cf_QOption = False,
     cf_EnblRTTCtr = False, cf_control_increase = False, cf_newreno_changes = 0, cf_newreno_changes1 = False,
     cf_partial_window_deflation = False, cf_exit_recovery_fix = False\<rparr>"

definition ex_mem :: tcp where
  "ex_mem = \<lparr>tc_t_seqno = 0, tc_dupacks = 0, tc_curseq = 0, tc_highest_ack = 0, tc_cwnd = 0, tc_ssthresh = 0, tc_maxseq = 0,
     tc_last_ack = 0, tc_recover = 0, tc_last_cwnd_action = ACTION_NONE, tc_count = 0, tc_firstsent = 0,
     tc_lastreset = 0, tc_closed = False, tc_rtt = \<lparr>rtt_active = False, rtt_seq = 0, rtt_ts = 0, t_rtt = 0,
     t_srtt = 0, t_rttvar = 0, t_backoff = 0, t_rtxcur = 0, boot_time = 0, use_rtt = False\<rparr>, tc_wnd_init = 2,
     tc_wnd_init_option = 1, tc_wnd_restart = 1, tc_decrease_num = 1/2, tc_ts_peer = 0, tc_ts_echo = 0, tc_tss = [],
     tc_tss_size = 0, tc_rtx = False, tc_delsnd = False, tc_burstsnd = False, tc_syn_connects = 0, tc_awnd = 0,
     tc_first_decrease = False, tc_fcnt = 0, tc_cong_action = False, tc_ecn_burst = False, tc_ecn_backoff = False,
     tc_ect = False, tc_eln_last_rxmit = 0, tc_hs = \<lparr>hs_low_p = 0, hs_dec1 = 0, hs_dec2 = 0, hs_p1 = 0,
     hs_p2 = 0, hs_cwnd_last = 0, hs_increase_last = 0\<rparr>, tc_qs_requested = False, tc_qs_approved = False,
     tc_qs_window = 0, tc_qs_cwnd = 0, tc_ttl_diff = 0, tc_frto = 0, tc_pipe_prev = 0, tc_qo = \<lparr>qo_last = 0,
     qo_prev = 0, qo_start = 0, qo_RTT_count = 0, qo_RTT_prev = 0, qo_RTT_goodcount = 0, qo_F_counting = False,
     qo_W_used = 0, qo_W_timed = 0, qo_F_full = False, qo_Backoffs = 0\<rparr>, tc_prev_highest_ack = 0,
     tc_dupwnd = 0, tc_newreno = \<lparr>nr_acked = 0, nr_new_ssthresh = 0, nr_ack2 = 0, nr_ack3 = 0, nr_basertt = 0,
     nr_firstpartial = False\<rparr>, tc_stats = \<lparr>ndatapack = 0, ndatabytes = 0, nackpack = 0, nrexmit = 0,
     nrexmitpack = 0, nrexmitbytes = 0, necnresponses = 0, ncwndcuts = 0, ncwndcuts1 = 0\<rparr>,
     tc_random = \<lambda>_. 0, tc_out = []\<rparr>"

lemma ex_conf_ok: "tcp_conf_ok ex_conf" "karn_conf ex_conf"
  by (simp_all add: tcp_conf_ok_def timer_conf_def option_conf_def karn_conf_def ex_conf_def)

definition ex_idle :: tcp where
  "ex_idle = the (tcp_reset ex_conf 0 (tcp_new ex_mem))"

definition ex_busy :: tcp where
  "ex_busy = the (sendmsg ex_conf 0 3000 ex_idle)"

lemma ex_idle: "sender ex_conf b ex_idle"
proof -
  have u: "tc_wnd_init_option ex_mem = 1 \<or> tc_wnd_init_option ex_mem = 2" by (simp add: ex_mem_def)
  then obtain s where s: "tcp_reset ex_conf 0 (tcp_new ex_mem) = Some s"
    using tcp_reset_good [OF ex_conf_ok(1), of ex_mem "(b, 0, - 1)" 0] by auto
  from sender.start [OF u s] s show ?thesis by (simp add: ex_idle_def)
qed

lemma ex_busy: "sender ex_conf b ex_busy"
proof -
  obtain s where s: "sendmsg ex_conf 0 3000 ex_idle = Some s"
    using sendmsg_good [OF ex_conf_ok(1) sender_good [OF ex_conf_ok(1) ex_idle], of 3000 0] by auto
  from sender.send [OF ex_idle _ s] s show ?thesis by (simp add: ex_busy_def)
qed

lemma ex_busy_state: "tc_highest_ack ex_busy = - 1" "tc_maxseq ex_busy = 1" "tc_curseq ex_busy = 4" "rtt_active (tc_rtt ex_busy)"
  "rtt_seq (tc_rtt ex_busy) = 0"
  by (simp_all add: ex_busy_def ex_idle_def tcp_reset_def tcp_new_def ex_mem_def ex_conf_def map_rtt_def set_initial_window_def
    initial_window_def rtt_init_def tcp_draw_def cancel_timers_def cancel_rtx_timer_def Let_def sendmsg_def send_much_def
    send_loop.simps TCP_MAXSEQ_def cdiv_def cmod_def window_def to_int_def tcp_output_def store_tss_def out_header_def out_qs_def
    out_send_def out_sent_def after_send_def tcp_emit_def set_rtx_timer_def rtt_timeout_def rtx_resched_def)

section \<open>Properties of every run\<close>

text \<open>C2. A sender never gets stuck.  In every state that it can reach, by acknowledgments, timers
  and data in any order, it handles the next event without aborting, dividing by zero or looping:
  any acknowledgment of packets sent, the expiration of a pending timer, and new data.  If packets
  are outstanding, the retransmission timer is pending, so that there is a next event.\<close>

theorem sender_never_stuck:
  assumes "tcp_conf_ok c" "sender c b s"
  shows "(tc_highest_ack s < tc_maxseq s \<longrightarrow> tc_rtx s) \<and>
    (ack_valid (b, tc_maxseq s, tc_maxseq s) p s \<longrightarrow> (\<exists>t. tcp_recv c now p s = Some t)) \<and>
    (tc_rtx s \<longrightarrow> (\<exists>t. rtx_expire c now s = Some t)) \<and> (tc_delsnd s \<longrightarrow> (\<exists>t. delsnd_expire c now s = Some t)) \<and>
    (0 \<le> n \<longrightarrow> (\<exists>t. sendmsg c now n s = Some t) \<and> (\<exists>t. advanceby c now n s = Some t))"
proof -
  note s = sender_good [OF assms]
  have "tc_highest_ack s < tc_maxseq s \<longrightarrow> tc_rtx s" using s by (simp add: good_iff outstanding_timed_def)
  then show ?thesis
    using tcp_recv_good [OF assms(1) s, of p now] rtx_expire_good [OF assms(1) s, of now] delsnd_expire_good [OF assms(1) s, of now]
      sendmsg_good [OF assms(1) s, of n now] advanceby_good [OF assms(1) s, of n now] by blast
qed

theorem sender_never_stuck_witness:
  "tc_highest_ack ex_busy < tc_maxseq ex_busy \<and> tc_rtx ex_busy \<and> (\<exists>t. rtx_expire ex_conf 6 ex_busy = Some t)"
  using sender_never_stuck [OF ex_conf_ok(1) ex_busy [of True], of undefined 6 0] ex_busy_state by simp

text \<open>C22. Flow control, without NewReno's flywheel: the packets sent and not acknowledged never
  exceed the window of the receiver, and no packet has been sent that the application has not
  produced, provided that the last acknowledgment is repeated only while data are outstanding.\<close>

theorem flow_control:
  assumes "tcp_conf_ok c" "cf_newreno_changes c \<le> 0" "sender c b s"
  shows "of_int (tc_maxseq s - tc_highest_ack s) \<le> cf_wnd c \<and> (\<forall>p\<in>set (sent s). sg_seqno p \<le> tc_maxseq s) \<and>
    (b \<longrightarrow> (\<forall>p\<in>set (sent s). sg_seqno p < tc_curseq s))"
  using sender_good [OF assms(1,3)] assms(2) by (fastforce simp: good_def rest_def flow_def produced_def seg_ok_def)

theorem flow_control_witness: "of_int (tc_maxseq ex_busy - tc_highest_ack ex_busy) \<le> (20 :: real)"
  using flow_control [OF ex_conf_ok(1) _ ex_busy [of True]] by (simp add: ex_conf_def)

text \<open>C21. Karn's rule, without F-RTO, explicit loss notification and the flywheel: while the
  round-trip time of a packet is measured, the packet has been sent exactly once, at the time
  \<open>rtt_ts_\<close> from which it is measured, provided that the last acknowledgment is repeated only
  while data are outstanding.\<close>

theorem karns_rule:
  assumes "tcp_conf_ok c" "karn_conf c" "sender c True s" "rtt_active (tc_rtt s)"
  shows "\<exists>p. filter (\<lambda>p. sg_seqno p = rtt_seq (tc_rtt s)) (sent s) = [p] \<and> sg_ts p = rtt_ts (tc_rtt s)"
  using sender_good [OF assms(1,3)] assms(2,4) by (auto simp: good_def rest_def measured_def timed_def sole_def map_eq_Cons_conv)

theorem karns_rule_witness:
  "\<exists>p. filter (\<lambda>p. sg_seqno p = 0) (sent ex_busy) = [p] \<and> sg_ts p = rtt_ts (tc_rtt ex_busy)"
  using karns_rule [OF ex_conf_ok ex_busy] ex_busy_state by simp

text \<open>The retransmission timeout: in every state that a sender can reach, the timeout that it
  would set is computed, is at least one tick of the clock, at least two ticks and the minimum
  timeout unless the estimate is used as it is, and at most the maximum timeout or two ticks.\<close>

theorem timeout_in_range:
  assumes "tcp_conf_ok c" "sender c b s"
  shows "\<exists>t r. rtt_timeout c (tc_rtt s) = Some (t, r) \<and> cf_tcp_tick c \<le> t \<and> t \<le> max (cf_maxrto c) (2 * cf_tcp_tick c) \<and>
    (\<not> use_rtt (tc_rtt s) \<longrightarrow> 2 * cf_tcp_tick c \<le> t \<and> min (cf_minrto c) (cf_maxrto c) \<le> t)"
  using rtt_timeout_ok [of c "tc_rtt s"] good_parts(4) [OF sender_good [OF assms]] conf_timer [OF assms(1)] by blast

theorem timeout_in_range_witness:
  "\<exists>t r. rtt_timeout ex_conf (tc_rtt ex_busy) = Some (t, r) \<and> 1 / 10 \<le> t \<and> t \<le> 60"
  using timeout_in_range [OF ex_conf_ok(1) ex_busy [of True]] by (auto simp: ex_conf_def)

end
