(* ===== verification/TcpTimeout.thy ===== *)
theory TcpTimeout
  imports TcpProps
begin

text \<open>What a sender does when the retransmission timer expires, and when data are acknowledged.\<close>

section \<open>The first packet sent\<close>

lemma sent_frame [simp]: "sent (s\<lparr>tc_random := g\<rparr>) = sent s" "sent (s\<lparr>tc_firstsent := t\<rparr>) = sent s" "sent (delsnd_resched d s) = sent s"
  "sent (s\<lparr>tc_t_seqno := q\<rparr>) = sent s" "sent (s\<lparr>tc_last_cwnd_action := a\<rparr>) = sent s"
  "tc_rtx (delsnd_resched d s) = tc_rtx s"
  by (simp_all add: delsnd_resched_def tcp_emit_def) (simp_all add: sent_def)

lemma tx_ok_firstsent [simp]: "tx_ok (s\<lparr>tc_firstsent := t\<rparr>) = tx_ok s"
  by (simp add: tx_ok_def seq_ok_def)

text \<open>If the window is open, the loop starts with packet \<open>t_seqno_\<close>.\<close>

lemma send_loop_first:
  assumes c: "tcp_conf_ok c" and s: "tx_ok s" "cf_overhead c = 0" "\<not> tc_delsnd s"
    and q: "tc_t_seqno s \<le> tc_highest_ack s + window c s" "tc_t_seqno s < tc_curseq s"
  shows "\<exists>t p ps. send_loop c now False r m n (window c s) s = Some t \<and> sent t = sent s @ p # ps \<and> sg_seqno p = tc_t_seqno s \<and>
    sg_ts p = now \<and> sg_reason p = r \<and> tc_rtx t"
proof -
  have qo: "\<not> cf_QOption c" using c by (simp add: tcp_conf_ok_def)
  note unf = send_loop.simps [of c now False r m n "window c s" s]
  have "rtt_ok (tc_rtt s)" "tc_tss s = []" using s(1) by (simp_all add: tx_ok_def seq_ok_def)
  from tcp_output_ok [OF c this, of now "tc_t_seqno s" r] obtain u where
    u: "tcp_output c now (tc_t_seqno s) r s = Some u" "out_ok c now (tc_t_seqno s) r s u" by blast
  define t where "t = u\<lparr>tc_t_seqno := tc_t_seqno s + 1\<rparr>"
  have after: "after_send c now u = Some t" using qo out_keep(1) [OF u(2)] by (simp add: after_send_def t_def)
  have "sent_next c now r s t" using u(2) by (auto simp: sent_next_def t_def)
  then have t: "tx_ok t" using sent_next_ok [OF s(1)] by simp
  from u(2) obtain p where p: "sent t = sent s @ [p]" "sg_seqno p = tc_t_seqno s" "sg_ts p = now" "sg_reason p = r" "tc_rtx t"
    by (auto simp: out_ok_def t_def)
  have step: "send_loop c now False r m n (window c s) s =
      (if tc_qs_approved t then Some (delay_send c (window c s) t) else if m \<noteq> 0 \<and> n + 1 = m then Some t
       else send_loop c now False r m (n + 1) (window c t) t)"
    by (subst unf) (use q s(2) u(1) after in \<open>simp only: simp_thms if_True option.case\<close>)
  let ?P = "\<lambda>x. (\<exists>ps. sent x = sent t @ ps) \<and> tc_rtx x"
  have "\<exists>x. send_loop c now False r m (n + 1) (window c t) t = Some x \<and> ?P x \<and> tx_ok x"
  proof (rule send_loop_rule [where P = ?P and r = r])
    fix x y assume "?P x" "sent_next c now r x y"
    then show "?P y" by (auto simp: sent_next_def out_ok_def)
  qed (use c p t s(3) out_keep(9) [OF u(2)] in \<open>simp_all add: t_def\<close>)
  moreover have "?P (delay_send c (window c s) t)" using p(5) by (simp add: delay_send_def Let_def tcp_draw_def)
  moreover have "?P t" using p(5) by simp
  ultimately obtain x where x: "send_loop c now False r m n (window c s) s = Some x" "?P x"
    unfolding step by (cases "tc_qs_approved t"; cases "m \<noteq> 0 \<and> n + 1 = m") auto
  then obtain ps where "sent x = sent s @ p # ps" "tc_rtx x" using p(1) by auto
  with x(1) p show ?thesis by blast
qed

lemma send_much_first:
  assumes c: "tcp_conf_ok c" and s: "tx_ok s" "cf_overhead c = 0" "\<not> tc_delsnd s"
    and q: "tc_t_seqno s \<le> tc_highest_ack s + window c s" "tc_t_seqno s < tc_curseq s"
  shows "\<exists>t p ps. send_much c now False r m s = Some t \<and> sent t = sent s @ p # ps \<and> sg_seqno p = tc_t_seqno s \<and>
    sg_ts p = now \<and> sg_reason p = r \<and> tc_rtx t"
proof -
  define u where "u = (if tc_t_seqno s = 0 then s\<lparr>tc_firstsent := now\<rparr> else s)"
  have u: "window c u = window c s" "sent u = sent s" "tc_t_seqno u = tc_t_seqno s" "tx_ok u" "\<not> tc_delsnd u"
    "tc_highest_ack u = tc_highest_ack s" "tc_curseq u = tc_curseq s" using s by (simp_all add: u_def window_def force_wnd_def)
  have b: "\<not> tc_burstsnd u" using u(4) by (simp add: tx_ok_def seq_ok_def)
  then have eq: "send_much c now False r m s = send_loop c now False r m 0 (window c u) u"
    using s(3) by (simp add: send_much_def Let_def u_def)
  show ?thesis unfolding eq u(2) [symmetric] u(3) [symmetric] by (rule send_loop_first [OF c u(4) s(2) u(5)]) (use q u in simp_all)
qed

section \<open>The window after a cut\<close>

lemma slowdown_cwnd:
  shows "tc_cwnd (slowdown c [CLOSE_CWND_ONE] s) = 1"
    "tc_cwnd (slowdown c [CLOSE_SSTHRESH_HALF, CLOSE_CWND_RESTART] s) = of_int (to_int (tc_wnd_restart s))"
proof -
  show "tc_cwnd (slowdown c [CLOSE_CWND_ONE] s) = 1"
    unfolding slowdown_def Let_def by (simp add: cut_cwnd_def split: prod.split)
  have keep: "tc_wnd_restart t = tc_wnd_restart s" if "slowdown_windows c (count_cut how s) = (w, h, d, t)" for w h d t how
    using slowdown_windows_frame [OF that] by (simp add: count_cut_def)
  show "tc_cwnd (slowdown c [CLOSE_SSTHRESH_HALF, CLOSE_CWND_RESTART] s) = of_int (to_int (tc_wnd_restart s))"
    unfolding slowdown_def Let_def by (auto simp: cut_cwnd_def frame_simps dest!: keep split: prod.split)
qed

text \<open>The window at a timeout.\<close>

lemma timeout_window:
  assumes c: "1 \<le> cf_wnd c" and s: "1 \<le> tc_wnd_restart s" "tc_highest_ack s < tc_maxseq s"
  shows "1 \<le> tc_cwnd (timeout_state c s)" "tc_frto (timeout_state c s) \<noteq> 2" "tc_dupwnd (timeout_state c s) = tc_dupwnd s"
    "tc_delsnd (timeout_state c s) = tc_delsnd s" "sent (timeout_state c s) = sent s" "tc_curseq (timeout_state c s) = tc_curseq s"
proof -
  define v where "v = (let s = s\<lparr>tc_frto := 0\<rparr> in s\<lparr>tc_pipe_prev := max (window c s) (tc_ssthresh s),
     tc_cwnd := (if tc_cwnd s < 1 then 1 else tc_cwnd s), tc_qs_approved := False\<rparr>)"
  have v: "tc_wnd_restart v = tc_wnd_restart s" "tc_highest_ack v = tc_highest_ack s" "tc_maxseq v = tc_maxseq s" "tc_frto v = 0"
    "tc_dupwnd v = tc_dupwnd s" "tc_delsnd v = tc_delsnd s" "sent v = sent s" "tc_curseq v = tc_curseq s"
    by (simp_all add: v_def Let_def) (simp add: sent_def)
  define w where "w = (let s = v\<lparr>tc_recover := tc_maxseq v\<rparr> in
     if tc_highest_ack s = - 1 \<and> tc_wnd_init_option s = 2 then s\<lparr>tc_wnd_init_option := 1\<rparr>
     else if tc_highest_ack s = - 1 \<and> tc_wnd_init_option s = 1 \<and> tc_wnd_init s > 1 \<and> cf_bugfix_ss c then s\<lparr>tc_wnd_init := 1\<rparr> else s)"
  define x where "x = w\<lparr>tc_stats := (tc_stats w)\<lparr>nrexmit := nrexmit (tc_stats w) + 1\<rparr>, tc_last_cwnd_action := ACTION_TIMEOUT\<rparr>"
  have w: "tc_wnd_restart w = tc_wnd_restart s" "tc_frto w = 0" "tc_dupwnd w = tc_dupwnd s" "tc_delsnd w = tc_delsnd s" "sent w = sent s"
    "tc_curseq w = tc_curseq s" "tc_highest_ack w = tc_highest_ack s" "tc_maxseq w = tc_maxseq s"
    using v by (simp_all add: w_def Let_def) (simp_all add: sent_def)
  have x: "tc_wnd_restart x = tc_wnd_restart s" "tc_frto x = 0" "tc_dupwnd x = tc_dupwnd s" "tc_delsnd x = tc_delsnd s" "sent x = sent s"
    "tc_curseq x = tc_curseq s" using w by (simp_all add: x_def) (simp add: sent_def)
  define frto where "frto = (\<lambda>s :: tcp. if cf_frto_enabled c \<or> cf_sfrto_enabled c then s\<lparr>tc_frto := 1\<rparr> else s)"
  have f: "tc_cwnd (frto s) = tc_cwnd s" "tc_dupwnd (frto s) = tc_dupwnd s" "tc_delsnd (frto s) = tc_delsnd s" "sent (frto s) = sent s"
    "tc_curseq (frto s) = tc_curseq s" "tc_frto s \<noteq> 2 \<Longrightarrow> tc_frto (frto s) \<noteq> 2" for s
    by (simp_all add: frto_def) (simp add: sent_def)
  have "timeout_state c s = (if tc_highest_ack v = tc_maxseq v \<and> \<not> cf_slow_start_restart c then v else timeout_cut c v)"
    by (simp only: timeout_state_def Let_def v_def)
  moreover have "timeout_cut c v = (if tc_highest_ack w = tc_maxseq w \<and> cf_restart_bugfix c then slowdown c [CLOSE_CWND_ONE, NO_OUTSTANDING_DATA] w
      else if tc_highest_ack w < tc_recover w \<and> tc_last_cwnd_action w = ACTION_ECN then frto (slowdown c [CLOSE_CWND_ONE] w)
      else frto (slowdown c [CLOSE_SSTHRESH_HALF, CLOSE_CWND_RESTART] x))"
    unfolding timeout_cut_def by (simp only: Let_def w_def frto_def x_def)
  moreover have "tc_highest_ack v \<noteq> tc_maxseq v" "tc_highest_ack w \<noteq> tc_maxseq w" using s(2) v w by simp_all
  ultimately have eq: "timeout_state c s = (if tc_highest_ack w < tc_recover w \<and> tc_last_cwnd_action w = ACTION_ECN
      then frto (slowdown c [CLOSE_CWND_ONE] w) else frto (slowdown c [CLOSE_SSTHRESH_HALF, CLOSE_CWND_RESTART] x))" by (simp only: if_False simp_thms)
  have sl: "tc_frto (slowdown c how y) = tc_frto y" "tc_dupwnd (slowdown c how y) = tc_dupwnd y" "tc_delsnd (slowdown c how y) = tc_delsnd y"
    "sent (slowdown c how y) = sent y" "tc_curseq (slowdown c how y) = tc_curseq y" for how y
    using slowdown_frame [of c how y] net_sent [of "slowdown c how y" y] by (simp_all add: key_net)
  have "(1 :: real) \<le> of_int (to_int (tc_wnd_restart s))" using s(1) by (simp add: to_int_def)
  then show "1 \<le> tc_cwnd (timeout_state c s)" unfolding eq using x(1) by (simp add: f slowdown_cwnd)
  show "tc_frto (timeout_state c s) \<noteq> 2" "tc_dupwnd (timeout_state c s) = tc_dupwnd s" "tc_delsnd (timeout_state c s) = tc_delsnd s"
    "sent (timeout_state c s) = sent s" "tc_curseq (timeout_state c s) = tc_curseq s"
    unfolding eq by (simp_all add: f sl w x)
qed

section \<open>A timeout\<close>

text \<open>C23. When the retransmission timer of a reachable state expires while data are outstanding,
  and sending is not delayed, the first packet that is not acknowledged is sent again at once, with
  the reason of a timeout, and the timer is pending again.\<close>

theorem timeout_retransmits:
  assumes c: "tcp_conf_ok c" "cf_newreno_changes c \<le> 0" "cf_overhead c = 0" and run: "sender c True s"
    and s: "tc_rtx s" "\<not> tc_delsnd s" "tc_highest_ack s < tc_maxseq s" "1 \<le> tc_wnd_restart s"
  shows "\<exists>t p ps. rtx_expire c now s = Some t \<and> sent t = sent s @ p # ps \<and> sg_seqno p = tc_highest_ack s + 1 \<and>
    sg_ts p = now \<and> sg_reason p = REASON_TIMEOUT \<and> tc_rtx t"
proof -
  note g = sender_good [OF c(1) run]
  define r where "r = s\<lparr>tc_rtx := False\<rparr>"
  define d where "d = (if cf_class c = Tahoe then r
     else r\<lparr>tc_dupwnd := 0, tc_dupacks := 0, tc_recover := (if cf_bug_fix c then tc_maxseq r else tc_recover r)\<rparr>)"
  have calm: "calm c (True, tc_maxseq s, tc_maxseq s) r" using calm_pending [OF g] by (simp add: r_def)
  then have calm: "calm c (True, tc_maxseq s, tc_maxseq s) d"
    using calm_recover(1) [of c "(True, tc_maxseq s, tc_maxseq s)" "r\<lparr>tc_dupwnd := 0, tc_dupacks := 0\<rparr>"] by (simp add: d_def)
  have d: "tc_highest_ack d = tc_highest_ack s" "tc_maxseq d = tc_maxseq s" "tc_wnd_restart d = tc_wnd_restart s" "\<not> tc_delsnd d"
    "tc_curseq d = tc_curseq s" "sent d = sent s" "cf_class c \<noteq> Tahoe \<longrightarrow> tc_dupwnd d = 0"
    using s(2) by (simp_all add: d_def r_def) (simp add: sent_def)
  have w: "1 \<le> cf_wnd c" using c(1) by (simp add: tcp_conf_ok_def)
  note tw = timeout_window [OF w, of d, unfolded d, OF s(4,3)]
  from tahoe_timeout_good [OF c(1) calm, of now] obtain u t where u: "tahoe_timeout c now d = Some t"
    "timer_reset False (timeout_state c d) u" "good c (True, tc_maxseq s, tc_maxseq s) (u\<lparr>tc_last_cwnd_action := ACTION_TIMEOUT\<rparr>)"
    "send_much c now False REASON_TIMEOUT (cf_maxburst c) (u\<lparr>tc_last_cwnd_action := ACTION_TIMEOUT\<rparr>) = Some t" by blast
  let ?u = "u\<lparr>tc_last_cwnd_action := ACTION_TIMEOUT\<rparr>"
  have k: "tc_t_seqno u = tc_highest_ack s + 1" "tc_highest_ack u = tc_highest_ack s" "\<not> tc_delsnd u" "tc_curseq u = tc_curseq s"
    "sent u = sent s" "1 \<le> tc_cwnd u" "tc_frto u \<noteq> 2" "cf_class c \<noteq> Tahoe \<longrightarrow> tc_dupwnd u = 0"
    using u(2) tw d timeout_state_calm(3) [OF calm] timer_reset_keep [OF u(2)] by (auto simp: timer_reset_def key_def)
  have win: "1 \<le> window c ?u" using k(6-8) w by (auto simp: window_def to_int_def Let_def)
  have cur: "tc_highest_ack s + 1 < tc_curseq s" using g c(2) s(3) by (simp add: good_def rest_def produced_def)
  have "tx_ok ?u" using u(3) by (simp add: good_def)
  from send_much_first [OF c(1) this c(3), of now REASON_TIMEOUT "cf_maxburst c"] k win cur u(4)
  obtain p ps where p: "sent t = sent s @ p # ps" "sg_seqno p = tc_highest_ack s + 1" "sg_ts p = now" "sg_reason p = REASON_TIMEOUT" "tc_rtx t"
    by auto
  have "rtx_expire c now s = Some t" using s(1) u(1) by (simp add: rtx_expire_def tcp_timeout_def d_def r_def split: if_splits)
  with p show ?thesis by blast
qed

lemma ex_busy_timer: "\<not> tc_delsnd ex_busy" "tc_wnd_restart ex_busy = 1"
  by (simp_all add: ex_busy_def ex_idle_def tcp_reset_def tcp_new_def ex_mem_def ex_conf_def map_rtt_def set_initial_window_def
    initial_window_def rtt_init_def tcp_draw_def cancel_timers_def cancel_rtx_timer_def Let_def sendmsg_def send_much_def
    send_loop.simps TCP_MAXSEQ_def cdiv_def cmod_def window_def to_int_def tcp_output_def store_tss_def out_header_def out_qs_def
    out_send_def out_sent_def after_send_def tcp_emit_def set_rtx_timer_def rtt_timeout_def rtx_resched_def)

theorem timeout_retransmits_witness:
  "\<exists>t p ps. rtx_expire ex_conf 6 ex_busy = Some t \<and> sent t = sent ex_busy @ p # ps \<and> sg_seqno p = 0 \<and> sg_reason p = REASON_TIMEOUT"
proof -
  have "tc_rtx ex_busy" using sender_good [OF ex_conf_ok(1) ex_busy [of True]] ex_busy_state by (simp add: good_iff outstanding_timed_def)
  with timeout_retransmits [OF ex_conf_ok(1) _ _ ex_busy, of 6] show ?thesis
    using ex_busy_state(1,2) ex_busy_timer by (auto simp: ex_conf_def)
qed

end
