(* ===== verification/TcpCongestion.thy ===== *)
theory TcpCongestion
  imports TcpTimeout
begin

text \<open>How the congestion window grows and is cut, and how the round-trip time is estimated.\<close>

section \<open>Growth\<close>

text \<open>\<open>k\<close> openings of the window.\<close>

primrec opens :: "tcp_conf \<Rightarrow> nat \<Rightarrow> tcp \<Rightarrow> tcp option" where
  "opens c 0 s = Some s"
| "opens c (Suc k) s = Option.bind (opens c k s) (opencwnd c)"

definition additive :: "tcp_conf \<Rightarrow> bool" where
  "additive c \<longleftrightarrow> cf_wnd_option c = 1 \<and> cf_max_ssthresh c \<le> 0 \<and> cf_maxcwnd c = 0 \<and> 0 \<le> cf_increase_num c"

lemma opencwnd_additive:
  assumes "additive c"
  shows "opencwnd c s = Some (s\<lparr>tc_cwnd := tc_cwnd s + (if tc_cwnd s < of_int (tc_ssthresh s) then 1 else cf_increase_num c / tc_cwnd s)\<rparr>)"
  using assms by (simp add: opencwnd_def open_linear_def limited_increase_def additive_def)

lemma opens_slow_start:
  assumes "additive c"
  shows "tc_cwnd s + real k \<le> of_int (tc_ssthresh s) \<Longrightarrow> opens c k s = Some (s\<lparr>tc_cwnd := tc_cwnd s + real k\<rparr>)"
proof (induction k)
  case (Suc k)
  then have "opens c k s = Some (s\<lparr>tc_cwnd := tc_cwnd s + real k\<rparr>)" "tc_cwnd s + real k < of_int (tc_ssthresh s)" by simp_all
  then show ?case using opencwnd_additive [OF assms, of "s\<lparr>tc_cwnd := tc_cwnd s + real k\<rparr>"] by (simp add: add.commute add.left_commute)
qed simp

lemma opens_linear:
  assumes c: "additive c" and s: "of_int (tc_ssthresh s) \<le> tc_cwnd s" "1 \<le> tc_cwnd s"
  shows "real k \<le> tc_cwnd s \<Longrightarrow> \<exists>w. opens c k s = Some (s\<lparr>tc_cwnd := w\<rparr>) \<and>
    tc_cwnd s + cf_increase_num c * real k / (tc_cwnd s + cf_increase_num c) \<le> w \<and> w \<le> tc_cwnd s + cf_increase_num c * real k / tc_cwnd s"
proof (induction k)
  case 0
  have "s\<lparr>tc_cwnd := tc_cwnd s\<rparr> = s" by simp
  then have "opens c 0 s = Some (s\<lparr>tc_cwnd := tc_cwnd s\<rparr>)" by simp
  then show ?case by (intro exI [of _ "tc_cwnd s"]) simp
next
  case (Suc k)
  let ?w = "tc_cwnd s" let ?a = "cf_increase_num c"
  have a: "0 \<le> ?a" using c by (simp add: additive_def)
  from Suc obtain v where v: "opens c k s = Some (s\<lparr>tc_cwnd := v\<rparr>)" "?w + ?a * real k / (?w + ?a) \<le> v" "v \<le> ?w + ?a * real k / ?w" by auto
  have "0 \<le> ?a * real k / (?w + ?a)" using a s(2) by simp
  then have low: "?w \<le> v" using v(2) by linarith
  have "?a * real k / ?w \<le> ?a" using mult_left_mono [OF Suc.prems a] a s(2) by (simp add: divide_le_eq distrib_left)
  then have high: "v \<le> ?w + ?a" using v(3) by linarith
  have step: "?a / (?w + ?a) \<le> ?a / v" "?a / v \<le> ?a / ?w" using low high a s(2) by (auto intro!: divide_left_mono mult_pos_pos)
  have "opens c (Suc k) s = Some (s\<lparr>tc_cwnd := v + ?a / v\<rparr>)"
    using v(1) low s(1) opencwnd_additive [OF c, of "s\<lparr>tc_cwnd := v\<rparr>"] by simp
  moreover have "?w + ?a * real (Suc k) / (?w + ?a) \<le> v + ?a / v" "v + ?a / v \<le> ?w + ?a * real (Suc k) / ?w"
    using v(2,3) step by (simp_all add: distrib_left add_divide_distrib)
  ultimately show ?case by blast
qed

text \<open>C24. The growth of the window, with the option that is the default: in slow start it grows by
  one packet with every acknowledgment; beyond \<open>ssthresh_\<close> by at most \<open>increase_num_\<close> packets, one
  by default, with every window of acknowledgments, and by less than that only because the window
  is growing meanwhile.\<close>

theorem window_growth:
  assumes "additive c" "1 \<le> tc_cwnd s" "real k \<le> tc_cwnd s"
  shows "(tc_cwnd s + real k \<le> of_int (tc_ssthresh s) \<longrightarrow> opens c k s = Some (s\<lparr>tc_cwnd := tc_cwnd s + real k\<rparr>)) \<and>
    (of_int (tc_ssthresh s) \<le> tc_cwnd s \<longrightarrow> (\<exists>w. opens c k s = Some (s\<lparr>tc_cwnd := w\<rparr>) \<and>
      tc_cwnd s + cf_increase_num c * real k / (tc_cwnd s + cf_increase_num c) \<le> w \<and>
      w \<le> tc_cwnd s + cf_increase_num c * real k / tc_cwnd s \<and> w \<le> tc_cwnd s + cf_increase_num c))"
proof -
  have "cf_increase_num c * real k / tc_cwnd s \<le> cf_increase_num c"
    using mult_left_mono [OF assms(3), of "cf_increase_num c"] assms(1,2) by (simp add: divide_le_eq additive_def)
  with opens_slow_start [OF assms(1)] opens_linear [OF assms(1) _ assms(2,3)] show ?thesis by force
qed

theorem window_growth_witness:
  "\<exists>w. opens ex_conf 8 (ex_mem\<lparr>tc_cwnd := 8, tc_ssthresh := 4\<rparr>) = Some (ex_mem\<lparr>tc_ssthresh := 4, tc_cwnd := w\<rparr>) \<and> 8 + 8 / 9 \<le> w \<and> w \<le> 9"
  using window_growth [of ex_conf "ex_mem\<lparr>tc_cwnd := 8, tc_ssthresh := 4\<rparr>" 8] by (auto simp: additive_def ex_conf_def)

section \<open>Cuts\<close>

text \<open>C25. The cut after a loss, at full precision and with the default decrease of a half: the window
  becomes half of what could be sent, \<open>ssthresh_\<close> the integer part of that, but at least two, and the
  next packet will report the cut.\<close>

theorem loss_halves_window:
  assumes "cf_precision_reduce c" "cf_wnd_option c \<noteq> 6" "cf_wnd_option c \<noteq> 8" "tc_decrease_num s = 1 / 2"
  defines "t \<equiv> slowdown c [CLOSE_SSTHRESH_HALF, CLOSE_CWND_HALF] s"
  shows "tc_cwnd t = windowd c s / 2 \<and> tc_ssthresh t = max 2 (to_int (windowd c s / 2)) \<and> tc_cong_action t \<and>
    view t = view s"
proof -
  have w: "windowd c (count_cut how s) = windowd c s" for how by (simp add: windowd_def count_cut_def)
  have d: "tc_decrease_num (count_cut how s) = 1 / 2" for how using assms(4) by (simp add: count_cut_def)
  have sw: "slowdown_windows c (count_cut how s) = (windowd c s, windowd c s / 2, windowd c s / 2, count_cut how s)" for how
    using assms(1-3) by (simp add: slowdown_windows_def Let_def high_speed_def w d)
  show ?thesis unfolding t_def
    by (intro conjI view_slowdown; unfold slowdown_def Let_def sw prod.case) (auto simp: cut_cwnd_def cut_ssthresh_def d)
qed

theorem loss_halves_window_witness:
  "tc_cwnd (slowdown ex_conf [CLOSE_SSTHRESH_HALF, CLOSE_CWND_HALF] (ex_mem\<lparr>tc_cwnd := 10\<rparr>)) = 5 \<and>
    tc_ssthresh (slowdown ex_conf [CLOSE_SSTHRESH_HALF, CLOSE_CWND_HALF] (ex_mem\<lparr>tc_cwnd := 10\<rparr>)) = 5"
  using loss_halves_window [of ex_conf "ex_mem\<lparr>tc_cwnd := 10\<rparr>"] by (simp add: ex_conf_def ex_mem_def windowd_def to_int_def)

section \<open>The estimate of the round-trip time\<close>

text \<open>An update of a fixed-point average with \<open>k\<close> bits behind the point is an average of reals, rounded up.\<close>

lemma average_step:
  fixes x m :: int
  shows "(1 - 1 / 2 ^ k) * (of_int x / 2 ^ k) + of_int m / 2 ^ k \<le> (of_int (x + (m - drop_bit k x)) / 2 ^ k :: real)"
    "(of_int (x + (m - drop_bit k x)) / 2 ^ k :: real) < (1 - 1 / 2 ^ k) * (of_int x / 2 ^ k) + of_int m / 2 ^ k + 1 / 2 ^ k"
proof -
  let ?d = "of_int (drop_bit k x) :: real"
  have p: "(0 :: real) < 2 ^ k" by simp
  have d: "of_int x / 2 ^ k - 1 < ?d" "?d \<le> of_int x / 2 ^ k" using drop_bit_bounds [where x = x and k = k] by simp_all
  have d': "?d / 2 ^ k \<le> (of_int x / 2 ^ k) / 2 ^ k" "(of_int x / 2 ^ k - 1) / 2 ^ k < ?d / 2 ^ k"
    using d p by (intro divide_right_mono divide_strict_right_mono; simp)+
  have eq: "(of_int (x + (m - drop_bit k x)) / 2 ^ k :: real) = of_int x / 2 ^ k + of_int m / 2 ^ k - ?d / 2 ^ k"
    by (simp add: add_divide_distrib diff_divide_distrib)
  have "(1 - 1 / 2 ^ k) * (of_int x / 2 ^ k) = of_int x / 2 ^ k - (of_int x / 2 ^ k) / (2 ^ k :: real)" by (simp add: algebra_simps)
  moreover have "(of_int x / 2 ^ k - 1) / 2 ^ k = (of_int x / 2 ^ k) / 2 ^ k - 1 / (2 ^ k :: real)" by (simp add: diff_divide_distrib)
  ultimately show "(1 - 1 / 2 ^ k) * (of_int x / 2 ^ k) + of_int m / 2 ^ k \<le> (of_int (x + (m - drop_bit k x)) / 2 ^ k :: real)"
    "(of_int (x + (m - drop_bit k x)) / 2 ^ k :: real) < (1 - 1 / 2 ^ k) * (of_int x / 2 ^ k) + of_int m / 2 ^ k + 1 / 2 ^ k"
    unfolding eq using d' by linarith+
qed

text \<open>The estimate is an exponential average.  As long as the deviation of a sample and the
  variation fit a 16-bit number, \<open>rtt_smooth\<close> changes the smoothed round-trip time, in ticks, to
  $(1 - 2^{-k}) \cdot srtt + 2^{-k} \cdot sample$, and the variation to the average of itself and the absolute
  deviation in the same way, both rounded up by less than one unit of the last place; only a
  variation of zero becomes one.\<close>

theorem rtt_average:
  assumes r: "rtt_ok r" "0 < t_srtt r" "1 \<le> t_rtt r" and d: "\<bar>deviation c r\<bar> < 2 ^ 15" "t_rttvar r < 2 ^ 15"
  defines "k \<equiv> cf_T_SRTT_BITS c" and "j \<equiv> cf_T_RTTVAR_BITS c"
  defines "srtt \<equiv> (1 - 1 / 2 ^ k) * (of_int (t_srtt r) / 2 ^ k) + of_int (t_rtt r) / 2 ^ k :: real"
    and "rttvar \<equiv> (1 - 1 / 2 ^ j) * (of_int (t_rttvar r) / 2 ^ j) + of_int \<bar>deviation c r\<bar> / 2 ^ j :: real"
  shows "srtt \<le> of_int (t_srtt (rtt_smooth c r)) / 2 ^ k \<and> of_int (t_srtt (rtt_smooth c r)) / 2 ^ k < srtt + 1 / 2 ^ k \<and>
    rttvar \<le> of_int (t_rttvar (rtt_smooth c r)) / 2 ^ j \<and>
    (t_rttvar (rtt_smooth c r) = 1 \<or> of_int (t_rttvar (rtt_smooth c r)) / 2 ^ j < rttvar + 1 / 2 ^ j)"
proof -
  note e = rtt_smooth_exact [OF r d, unfolded deviation_def, folded k_def j_def]
  let ?v = "t_rttvar r + (\<bar>deviation c r\<bar> - drop_bit j (t_rttvar r))"
  have v: "t_rttvar (rtt_smooth c r) = max 1 ?v" using e(2) by (simp add: deviation_def k_def)
  have "of_int ?v / 2 ^ j \<le> (of_int (max 1 ?v) / 2 ^ j :: real)" by (intro divide_right_mono) simp_all
  then have "rttvar \<le> of_int (t_rttvar (rtt_smooth c r)) / 2 ^ j"
    using average_step(1) [where k = j and x = "t_rttvar r" and m = "\<bar>deviation c r\<bar>"] unfolding v rttvar_def by linarith
  moreover have "t_rttvar (rtt_smooth c r) = 1 \<or> of_int (t_rttvar (rtt_smooth c r)) / 2 ^ j < rttvar + 1 / 2 ^ j"
    using average_step(2) [where k = j and x = "t_rttvar r" and m = "\<bar>deviation c r\<bar>"] unfolding v rttvar_def by (simp add: max_def)
  ultimately show ?thesis
    using average_step [where k = k and x = "t_srtt r" and m = "t_rtt r"] unfolding e(1) srtt_def by simp
qed

definition ex_rtt :: "int \<Rightarrow> tcp_rtt" where
  "ex_rtt m = (tc_rtt ex_mem)\<lparr>t_srtt := 80, t_rttvar := 8, t_rtt := m, t_backoff := 1\<rparr>"

theorem rtt_average_witness:
  "12 \<le> of_int (t_srtt (rtt_smooth ex_conf (ex_rtt 26))) / (8 :: real) \<and> of_int (t_srtt (rtt_smooth ex_conf (ex_rtt 26))) / (8 :: real) < 12 + 1 / 8 \<and>
    5.5 \<le> of_int (t_rttvar (rtt_smooth ex_conf (ex_rtt 26))) / (4 :: real)"
  using rtt_average [of "ex_rtt 26" ex_conf] by (simp add: ex_rtt_def ex_conf_def ex_mem_def rtt_ok_def deviation_def drop_bit_eq_div)

text \<open>
  A deviation that does not fit wraps: a sample that exceeds the estimate by $2^{15}$ ticks or
  more, but less than $2^{16}$, makes the estimate smaller.
\<close>

theorem rtt_sample_wraps:
  assumes "rtt_ok r" "0 < t_srtt r" "2 ^ 15 \<le> deviation c r" "deviation c r < 2 ^ 16"
  shows "t_srtt (rtt_smooth c r) = max 1 (t_srtt r + deviation c r - 2 ^ 16) \<and>
    (1 < t_srtt r \<longrightarrow> t_srtt (rtt_smooth c r) < t_srtt r)"
proof -
  have "to_short (t_rtt r - drop_bit (cf_T_SRTT_BITS c) (t_srtt r)) = deviation c r - 2 ^ 16"
    using to_short_wrap [OF assms(3,4)] by (simp add: deviation_def)
  then have "t_srtt (rtt_smooth c r) = max 1 (t_srtt r + deviation c r - 2 ^ 16)"
    using assms(2) by (simp add: rtt_smooth_def Let_def max_def)
  with assms(4) show ?thesis by simp
qed

theorem rtt_sample_wraps_witness: "t_srtt (rtt_smooth ex_conf (ex_rtt 60000)) = 1"
  using rtt_sample_wraps [of "ex_rtt 60000" ex_conf]
  by (simp add: ex_rtt_def ex_conf_def ex_mem_def rtt_ok_def deviation_def drop_bit_eq_div)

end
