(* ===== verification/TcpQuirks.thy ===== *)
theory TcpQuirks
  imports TcpCongestion
begin

text \<open>
  What the senders do at the edges: a timer that stays when everything is acknowledged, a
  measurement that outlives a reset, and a packet sent that was never produced.
\<close>

section \<open>The timer after an acknowledgment\<close>

text \<open>With \<open>timerfix_\<close>, as by default, a new acknowledgment never cancels the retransmission
  timer: it is pending afterwards even if every packet that has been sent is acknowledged, although
  \<open>newtimer\<close> is meant to cancel it then.  \<open>t_seqno_\<close> has already been moved past the acknowledgment.\<close>

theorem newack_keeps_timer:
  assumes "tcp_conf_ok c" "cf_timerfix c" "sender c b s" "tc_highest_ack s < ta_seqno p" "ta_seqno p \<le> tc_maxseq s"
  shows "\<exists>t. newack c now p s = Some t \<and> tc_highest_ack t = ta_seqno p \<and> tc_maxseq t = tc_maxseq s \<and> tc_rtx t"
  using newack_good [OF assms(1) sender_good [OF assms(1,3)] assms(4,5), of now] assms(2,5) by auto

definition ex_ack :: "int \<Rightarrow> ack_pkt" where
  "ex_ack q = \<lparr>ta_seqno = q, ta_ts = 1, ta_ts_echo = 0, ta_flowid = 0, ta_ecnecho = 0, ta_ect = False, ta_blocks = [], ta_size = 40,
     ta_qs_flag = QS_DISABLE, ta_qs_ttl = 0, ta_qs_rate = 0, ap_cong_action = False, ap_no_ts = False, ap_eln = False\<rparr>"

theorem newack_keeps_timer_witness:
  "\<exists>t. newack ex_conf 1 (ex_ack 1) ex_busy = Some t \<and> tc_highest_ack t = 1 \<and> tc_maxseq t = 1 \<and> tc_rtx t"
  using newack_keeps_timer [OF ex_conf_ok(1) _ ex_busy [of True], of "ex_ack 1" 1] ex_busy_state by (simp add: ex_conf_def ex_ack_def)

section \<open>The measurement after a reset\<close>

text \<open>The reset of a sender in use, without F-RTO.\<close>

lemma tcp_reset_used:
  assumes c: "tcp_conf_ok c" and s: "tc_wnd_init_option s = 1 \<or> tc_wnd_init_option s = 2" "tc_tss s = []" "tc_frto s = 0"
  shows "\<exists>t. tcp_reset c now s = Some t \<and> tx_ok t \<and> timed (tc_rtt t) = (rtt_active (tc_rtt s), - 1, rtt_ts (tc_rtt s))"
proof -
  let ?r = "(rtt_init c (tc_rtt s))\<lparr>rtt_seq := - 1\<rparr>"
  have r: "rtt_ok ?r" "rtt_active ?r = rtt_active (tc_rtt s)" "rtt_ts ?r = rtt_ts (tc_rtt s)" using rtt_init_ok [of c "tc_rtt s"] c
    by (simp_all add: tcp_conf_ok_def) (simp_all add: rtt_init_def)
  let ?s = "map_rtt (\<lambda>r. (rtt_init c r)\<lparr>rtt_seq := - 1\<rparr>) (s\<lparr>tc_dupacks := 0, tc_curseq := 0\<rparr>)"
  obtain w where w: "initial_window c ?s = Some w" using initial_window_some [of ?s c] s(1) by (auto simp: map_rtt_def)
  obtain v where v: "set_initial_window c ?s = Some v" "tc_rtt v = ?r" "tc_wnd_init_option v = tc_wnd_init_option s" "tc_tss v = []"
    "tc_frto v = 0" using w s by (cases "cf_syn c \<and> cf_delay_growth c") (auto simp: set_initial_window_def map_rtt_def)
  have "\<exists>t. tcp_reset c now s = Some t" using v(1) by (simp add: tcp_reset_def Let_def split: prod.split)
  then obtain t where t: "tcp_reset c now s = Some t" by blast
  then have the: "t = the (tcp_reset c now s)" by simp
  have q: "\<not> cf_QOption c" using c by (simp add: tcp_conf_ok_def)
  have f: "tc_t_seqno t = 0" "tc_highest_ack t = - 1" "tc_last_ack t = - 1" "tc_recover t = 0" "tc_last_cwnd_action t = ACTION_NONE"
    "tc_frto t = 0" "\<not> tc_burstsnd t" "tc_wnd_init_option t = tc_wnd_init_option s" "tc_tss t = []" "tc_maxseq t = - 1"
    "rtt_ok (tc_rtt t)" "rtt_active (tc_rtt t) = rtt_active (tc_rtt s)" "rtt_seq (tc_rtt t) = - 1" "rtt_ts (tc_rtt t) = rtt_ts (tc_rtt s)"
    using v(2-) r unfolding the tcp_reset_def
    by (simp_all add: v(1) q Let_def tcp_draw_def cancel_timers_def cancel_rtx_timer_def) (simp_all add: map_rtt_def tcp_emit_def v(2-))
  have "tx_ok t" unfolding tx_ok_def seq_ok_def using f s(1) by simp
  with t f(12-14) show ?thesis by (simp add: timed_def)
qed

text \<open>What is sent while a packet is measured does not change the measurement.\<close>

lemma send_much_timed:
  assumes c: "tcp_conf_ok c" and s: "tx_ok s" "rtt_active (tc_rtt s)"
  shows "\<exists>t. send_much c now f r m s = Some t \<and> tx_ok t \<and> timed (tc_rtt t) = timed (tc_rtt s)"
proof -
  let ?P = "\<lambda>x. timed (tc_rtt x) = timed (tc_rtt s)"
  have "\<exists>t. send_much c now f r m s = Some t \<and> ?P t \<and> tx_ok t"
  proof (rule send_much_rule [where P = ?P and r = r])
    fix x y assume "?P x" "sent_next c now r x y"
    then show "?P y" using s(2) by (auto simp: sent_next_def out_ok_def timed_def)
  qed (use c s in \<open>simp_all add: delsnd_resched_def tcp_emit_def\<close>)
  then show ?thesis by blast
qed

text \<open>C26. A reset does not stop the measurement of the round-trip time.  If a packet is measured when
  a sender is reset for its next connection, the first acknowledgment of that connection, with any
  data sent before it, yields a sample from the time the old packet was sent.\<close>

theorem measurement_outlives_reset:
  assumes c: "tcp_conf_ok c" "karn_conf c" "\<not> cf_ts_option c" and s: "sender c True s" "rtt_active (tc_rtt s)"
    and p: "\<not> ap_no_ts p" "0 \<le> ta_seqno p" and n: "0 \<le> n"
  shows "\<exists>t u. tcp_reset c now s = Some t \<and> sendmsg c now1 n t = Some u \<and>
    t_rtt (tc_rtt (newack_rtt c now2 p u)) = rtt_sample c now2 (now2 - rtt_ts (tc_rtt s)) (tc_rtt u)"
proof -
  note g = sender_good [OF c(1) s(1)]
  have "tc_tss s = []" "tc_frto s = 0" using g c(2) by (simp_all add: good_def tx_ok_def seq_ok_def rest_def)
  from tcp_reset_used [OF c(1) good_parts(5) [OF g] this, of now] obtain t where
    t: "tcp_reset c now s = Some t" "tx_ok t" "timed (tc_rtt t) = (True, - 1, rtt_ts (tc_rtt s))" using s(2) by auto
  have size: "0 < cf_size c" using c(1) by (simp add: tcp_conf_ok_def)
  let ?t = "t\<lparr>tc_curseq := tc_curseq t + (cdiv n (cf_size c) + (if cmod n (cf_size c) \<noteq> 0 then 1 else 0))\<rparr>"
  have "tx_ok ?t" "rtt_active (tc_rtt ?t)" using t(2,3) by (simp_all add: tx_ok_def seq_ok_def timed_def)
  from send_much_timed [OF c(1) this, of now1 False REASON_NONE "cf_maxburst c"] obtain u where u: "sendmsg c now1 n t = Some u" "timed (tc_rtt u) = timed (tc_rtt ?t)"
    using n size by (auto simp: sendmsg_def)
  have r: "rtt_active (tc_rtt u)" "rtt_seq (tc_rtt u) = - 1" "rtt_ts (tc_rtt u) = rtt_ts (tc_rtt s)" using u(2) t(3) by (simp_all add: timed_def)
  have "rtt_sample c now2 d (tc_rtt (map_rtt (rtt_active_update (\<lambda>_. False)) (end_backoff p u))) = rtt_sample c now2 d (tc_rtt u)" for d
    by (simp add: rtt_sample_def end_backoff_def map_rtt_def)
  moreover have "rtt_ts (tc_rtt (map_rtt (rtt_active_update (\<lambda>_. False)) (end_backoff p u))) = rtt_ts (tc_rtt u)"
    by (simp add: end_backoff_def map_rtt_def)
  moreover have "t_rtt (rtt_update c now2 d x) = rtt_sample c now2 d x" for d x
    by (simp add: rtt_update_def rtt_smooth_def Let_def)
  ultimately have "t_rtt (tc_rtt (newack_rtt c now2 p u)) = rtt_sample c now2 (now2 - rtt_ts (tc_rtt s)) (tc_rtt u)"
    using r p(2) c(3) by (simp add: newack_rtt_def Let_def)
  with t(1) u(1) show ?thesis by blast
qed

theorem measurement_outlives_reset_witness:
  "\<exists>t u. tcp_reset ex_conf 100 ex_busy = Some t \<and> sendmsg ex_conf 100 1000 t = Some u \<and>
    t_rtt (tc_rtt (newack_rtt ex_conf 101 (ex_ack 0) u)) = rtt_sample ex_conf 101 (101 - rtt_ts (tc_rtt ex_busy)) (tc_rtt u)"
  using measurement_outlives_reset [OF ex_conf_ok _ ex_busy, of "ex_ack 0" 1000 100 100 101] ex_busy_state
  by (simp add: ex_conf_def ex_ack_def)

section \<open>Fast retransmission with nothing outstanding\<close>

text \<open>Reno does not check that anything is outstanding when it retransmits on duplicate
  acknowledgments: if every packet the application has produced is acknowledged, three duplicates
  make it send the next packet number, which the application has not produced.\<close>

theorem reno_sends_unproduced:
  assumes c: "tcp_conf_ok c" and s: "good c (False, n, m) s" "fast_retransmit c s"
    and all: "tc_highest_ack s = tc_maxseq s" "tc_maxseq s + 1 = tc_curseq s"
  shows "\<exists>t p. reno_dupack_action c now s = Some t \<and> sent t = sent s @ [p] \<and> sg_seqno p = tc_curseq s"
proof -
  let ?u = "s\<lparr>tc_recover := tc_maxseq s, tc_last_cwnd_action := ACTION_DUPACK\<rparr>"
  let ?s = "slowdown c [CLOSE_SSTHRESH_HALF, CLOSE_CWND_HALF] ?u"
  have v: "view ?s = view ?u" by simp
  have "calm c (False, n, m) ?s" using calm_recover(2) [OF good_calm [OF s(1)]] by simp
  from reset_rtx_timer_good [OF c this, of True False] obtain t where
    t: "reset_rtx_timer c True False ?s = Some t" "good c (False, n, m) t" "timer_reset True ?s t" by blast
  note k = timer_reset_keep [OF t(3)]
  have "rtt_ok (tc_rtt t)" "tc_tss t = []" using t(2) by (simp_all add: good_def tx_ok_def seq_ok_def)
  from tcp_output_ok [OF c this, of now "tc_last_ack t + 1" REASON_DUPACK] obtain x where
    x: "tcp_output c now (tc_last_ack t + 1) REASON_DUPACK t = Some x" "out_ok c now (tc_last_ack t + 1) REASON_DUPACK t x" by blast
  have "tc_last_ack t + 1 = tc_curseq s" using k(2) view_parts(1) [OF v] good_parts(1) [OF s(1)] all by simp
  moreover have "sent t = sent s" using t(3) view_parts(12) [OF v] by (simp add: timer_reset_def) (simp add: sent_def)
  moreover have "sent (x\<lparr>tc_dupwnd := d\<rparr>) = sent x" for d by (simp add: sent_def)
  ultimately obtain p where "sent (x\<lparr>tc_dupwnd := cf_numdupacks c\<rparr>) = sent s @ [p]" "sg_seqno p = tc_curseq s"
    using x(2) by (auto simp: out_ok_def)
  moreover have "reno_dupack_action c now s = Some (x\<lparr>tc_dupwnd := cf_numdupacks c\<rparr>)"
    using s(2) t(1) x(1) by (simp add: reno_dupack_action_def reno_action_def Let_def)
  ultimately show ?thesis by blast
qed

definition ex_done :: tcp where
  "ex_done = ex_mem\<lparr>tc_t_seqno := 4, tc_curseq := 4, tc_highest_ack := 3, tc_last_ack := 3, tc_maxseq := 3,
     tc_rtt := (tc_rtt ex_mem)\<lparr>t_backoff := 1\<rparr>\<rparr>"

theorem reno_sends_unproduced_witness:
  "\<exists>t p. reno_dupack_action ex_conf 9 ex_done = Some t \<and> sent t = sent ex_done @ [p] \<and> sg_seqno p = 4"
proof -
  have "good ex_conf (False, 3, 3) ex_done"
    by (simp add: good_def rest_def tx_ok_def seq_ok_def rtt_ok_def flow_def outstanding_timed_def sent_def ex_done_def ex_mem_def ex_conf_def)
  moreover have "fast_retransmit ex_conf ex_done" "tc_highest_ack ex_done = tc_maxseq ex_done" "tc_maxseq ex_done + 1 = tc_curseq ex_done"
    "tc_curseq ex_done = 4" by (simp_all add: fast_retransmit_def ex_done_def ex_mem_def)
  ultimately show ?thesis using reno_sends_unproduced [OF ex_conf_ok(1), of 3 3 ex_done 9] by simp
qed

end
