(* ===== verification/TcpConnection.thy ===== *)
theory TcpConnection
  imports TcpProps TcpReceive
begin

text \<open>
  A sender and a receiver, connected by a network that may lose, repeat, delay and reorder the
  packets and the acknowledgments.  What a sender relies on is the locale \<open>receiver\<close>; TcpSink and
  DelAckSink are its interpretations.
\<close>

section \<open>The network\<close>

text \<open>A packet that carries a segment, whatever the routers have done to its other fields.\<close>

definition carries :: "tcp_seg \<Rightarrow> tcp_pkt \<Rightarrow> bool" where
  "carries g p \<longleftrightarrow> tp_seqno p = sg_seqno g \<and> tp_size p = sg_size g \<and> tp_ts p = sg_ts g"

text \<open>
  Any segment ever sent can arrive, again and again, and any acknowledgment ever sent, with flags
  set by agents on the way.  \<open>recv\<close> and \<open>expire\<close> are the receiver's methods, \<open>out\<close> its
  acknowledgments so far.
\<close>

inductive connection :: "tcp_conf \<Rightarrow> (real \<Rightarrow> tcp_pkt \<Rightarrow> 'k \<Rightarrow> 'k option) \<Rightarrow> (real \<Rightarrow> 'k \<Rightarrow> 'k option) \<Rightarrow> ('k \<Rightarrow> tcp_ack list) \<Rightarrow>
    'k \<Rightarrow> tcp \<Rightarrow> 'k \<Rightarrow> bool" for c recv expire out k0 where
  opened: "tc_wnd_init_option u = 1 \<or> tc_wnd_init_option u = 2 \<Longrightarrow> tcp_reset c now (tcp_new u) = Some s \<Longrightarrow>
    connection c recv expire out k0 s k0"
| packet: "connection c recv expire out k0 s k \<Longrightarrow> g \<in> set (sent s) \<Longrightarrow> carries g p \<Longrightarrow> recv now p k = Some k' \<Longrightarrow>
    connection c recv expire out k0 s k'"
| delack: "connection c recv expire out k0 s k \<Longrightarrow> expire now k = Some k' \<Longrightarrow> connection c recv expire out k0 s k'"
| ack: "connection c recv expire out k0 s k \<Longrightarrow> tcp_ack.truncate p \<in> set (out k) \<Longrightarrow> tcp_recv c now p s = Some t \<Longrightarrow>
    connection c recv expire out k0 t k"
| rtx: "connection c recv expire out k0 s k \<Longrightarrow> rtx_expire c now s = Some t \<Longrightarrow> connection c recv expire out k0 t k"
| delsnd: "connection c recv expire out k0 s k \<Longrightarrow> delsnd_expire c now s = Some t \<Longrightarrow> connection c recv expire out k0 t k"
| send: "connection c recv expire out k0 s k \<Longrightarrow> 0 \<le> n \<or> n = - 1 \<and> tc_curseq s \<le> TCP_MAXSEQ \<Longrightarrow> sendmsg c now n s = Some t \<Longrightarrow>
    connection c recv expire out k0 t k"
| advance: "connection c recv expire out k0 s k \<Longrightarrow> 0 \<le> n \<Longrightarrow> advanceby c now n s = Some t \<Longrightarrow> connection c recv expire out k0 t k"

section \<open>What a sender relies on\<close>

text \<open>
  \<open>ok S k\<close>: the receiver is in its invariant when the packets \<open>S\<close> have been accepted.  \<open>next_of\<close> is
  the first packet that it misses.  Every new acknowledgment is the one before that.
\<close>

locale receiver =
  fixes recv :: "real \<Rightarrow> tcp_pkt \<Rightarrow> 'k \<Rightarrow> 'k option" and expire :: "real \<Rightarrow> 'k \<Rightarrow> 'k option"
    and out :: "'k \<Rightarrow> tcp_ack list" and ok :: "int set \<Rightarrow> 'k \<Rightarrow> bool" and next_of :: "'k \<Rightarrow> int" and f :: "int \<Rightarrow> int"
  assumes recv_law: "ok S k \<Longrightarrow> good_pkt f p \<Longrightarrow> \<exists>t S'. recv now p k = Some t \<and> ok S' t \<and> S' \<subseteq> insert (tp_seqno p) S \<and>
      next_of k \<le> next_of t \<and> (\<forall>a\<in>set (out t). a \<in> set (out k) \<or> ta_seqno a = next_of t - 1)"
    and expire_law: "ok S k \<Longrightarrow> expire now k = Some t \<Longrightarrow> ok S t \<and> next_of t = next_of k \<and>
      (\<forall>a\<in>set (out t). a \<in> set (out k) \<or> ta_seqno a = next_of t - 1)"
    and missing_law: "ok S k \<Longrightarrow> first_missing S (next_of k)"
begin

text \<open>The invariant of the connection.\<close>

definition linked :: "tcp_conf \<Rightarrow> tcp \<Rightarrow> 'k \<Rightarrow> bool" where
  "linked c s k \<longleftrightarrow> (\<exists>S m. ok S k \<and> (\<forall>q\<in>S. q \<le> m) \<and> (\<forall>a\<in>set (out k). ta_seqno a < next_of k) \<and> good c (False, next_of k - 1, m) s)"

lemma linked_sender:
  assumes "linked c s k" and step: "\<And>m. good c (False, next_of k - 1, m) s \<Longrightarrow> good c (False, next_of k - 1, m) t"
  shows "linked c t k"
  using assms unfolding linked_def by blast

lemma good_weaken: "good c (False, n, m) s \<Longrightarrow> n \<le> n' \<Longrightarrow> m' \<le> tc_maxseq s \<Longrightarrow> good c (False, n', m') s"
  by (auto simp: good_def rest_def)

lemma linked_bounds:
  assumes "linked c s k"
  shows "tc_highest_ack s < next_of k" "next_of k \<le> tc_maxseq s + 1" "\<And>a. a \<in> set (out k) \<Longrightarrow> ta_seqno a < next_of k"
proof -
  from assms obtain S m where k: "ok S k" "\<forall>q\<in>S. q \<le> m" "good c (False, next_of k - 1, m) s" "\<forall>a\<in>set (out k). ta_seqno a < next_of k"
    by (auto simp: linked_def)
  then show "tc_highest_ack s < next_of k" by (simp add: good_def rest_def)
  show "ta_seqno a < next_of k" if "a \<in> set (out k)" for a using that k(4) by blast
  have b: "m \<le> tc_maxseq s" "- 1 \<le> tc_maxseq s" using k(3) by (simp_all add: good_def rest_def tx_ok_def seq_ok_def)
  show "next_of k \<le> tc_maxseq s + 1"
  proof (cases "next_of k = 0")
    case False
    then have "next_of k - 1 \<in> S" using missing_law [OF k(1)] by (auto simp: first_missing_def)
    with k(2) b show ?thesis by fastforce
  qed (use b in simp)
qed

lemma linked_ack:
  assumes "linked c s k" "tcp_ack.truncate p \<in> set (out k)"
  shows "ack_valid (False, next_of k - 1, m) p s"
proof -
  have "ta_seqno p < next_of k" using linked_bounds(3) [OF assms] by (simp add: tcp_ack.truncate_def)
  with linked_bounds(2) [OF assms(1)] show ?thesis by (simp add: ack_valid_def)
qed

lemma linked_packet:
  assumes c: "\<And>q. 0 \<le> q \<Longrightarrow> f q = seg_size c q \<and> 0 < f q" and k: "linked c s k" and p: "g \<in> set (sent s)" "carries g p"
  shows "\<exists>t. recv now p k = Some t \<and> linked c s t"
proof -
  from k obtain S m where k: "ok S k" "\<forall>q\<in>S. q \<le> m" "good c (False, next_of k - 1, m) s" "\<forall>a\<in>set (out k). ta_seqno a < next_of k"
    by (auto simp: linked_def)
  have g: "seg_ok c (tc_maxseq s) g" "m \<le> tc_maxseq s" using k(3) p(1) by (simp_all add: good_def rest_def)
  then have "good_pkt f p" using p(2) c [of "sg_seqno g"] by (simp add: good_pkt_def seg_ok_def carries_def)
  from recv_law [OF k(1) this, of now] obtain t S' where
    t: "recv now p k = Some t" "ok S' t" "S' \<subseteq> insert (tp_seqno p) S" "next_of k \<le> next_of t"
      "\<forall>a\<in>set (out t). a \<in> set (out k) \<or> ta_seqno a = next_of t - 1" by blast
  have "\<forall>q\<in>insert (tp_seqno p) S. q \<le> tc_maxseq s" using k(2) g p(2) by (force simp: seg_ok_def carries_def)
  then have "\<forall>q\<in>S'. q \<le> tc_maxseq s" using t(3) by blast
  moreover have "\<forall>a\<in>set (out t). ta_seqno a < next_of t" using t(4,5) k(4) by force
  moreover have "good c (False, next_of t - 1, tc_maxseq s) s" using good_weaken [OF k(3)] t(4) by simp
  ultimately have "linked c s t" using t(2) unfolding linked_def by blast
  with t(1) show ?thesis by blast
qed

lemma connection_linked:
  assumes c: "tcp_conf_ok c" and f: "\<And>q. 0 \<le> q \<Longrightarrow> f q = seg_size c q \<and> 0 < f q" and k0: "ok {} k0" "out k0 = []"
  shows "connection c recv expire out k0 s k \<Longrightarrow> linked c s k"
proof (induction rule: connection.induct)
  case (opened u now s)
  have "0 \<le> next_of k0" using missing_law [OF k0(1)] by (simp add: first_missing_def)
  with tcp_reset_good [OF c opened(1), of "(False, next_of k0 - 1, - 1)" now] opened(2) k0 show ?case
    by (auto simp: linked_def)
next
  case (packet s k g p now k')
  with linked_packet [OF f packet.IH packet.hyps(2,3), of now] show ?case by auto
next
  case (delack s k now k')
  then obtain S m where k: "ok S k" "\<forall>q\<in>S. q \<le> m" "good c (False, next_of k - 1, m) s" "\<forall>a\<in>set (out k). ta_seqno a < next_of k"
    by (auto simp: linked_def)
  from expire_law [OF k(1) delack.hyps(2)] k show ?case by (force simp: linked_def)
next
  case (ack s k p now t)
  show ?case by (rule linked_sender [OF ack.IH])
    (use tcp_recv_good [OF c _ linked_ack [OF ack.IH ack.hyps(2)], where now = now] ack.hyps(3) in auto)
next
  case (rtx s k now t)
  then have "tc_rtx s" by (simp add: rtx_expire_def split: if_splits)
  then show ?case by (intro linked_sender [OF rtx.IH]) (use rtx_expire_good [OF c, where now = now] rtx.hyps(2) in fastforce)
next
  case (delsnd s k now t)
  then have "tc_delsnd s" by (simp add: delsnd_expire_def split: if_splits)
  then show ?case by (intro linked_sender [OF delsnd.IH]) (use delsnd_expire_good [OF c, where now = now] delsnd.hyps(2) in fastforce)
next
  case (send s k n now t)
  show ?case by (rule linked_sender [OF send.IH]) (use sendmsg_good [OF c _ send.hyps(2), where now = now] send.hyps(3) in fastforce)
next
  case (advance s k n now t)
  show ?case by (rule linked_sender [OF advance.IH]) (use advanceby_good [OF c _ advance.hyps(2), where now = now] advance.hyps(3) in fastforce)
qed

end

section \<open>The receivers\<close>

text \<open>The bytes delivered are those of the packets in sequence.\<close>

definition delivered :: "(int \<Rightarrow> int) \<Rightarrow> sink \<Rightarrow> bool" where
  "delivered f k \<longleftrightarrow> sn_bytes k = (\<Sum>i = 0..<sink_next k. f i)"

lemma delivered_step:
  assumes "delivered f k" "sn_bytes t = sn_bytes k + (\<Sum>i = sink_next k..<sink_next t. f i)" "0 \<le> sink_next k" "sink_next k \<le> sink_next t"
  shows "delivered f t"
  using assms sum_split [of 0 "sink_next k" "sink_next t" f] by (simp add: delivered_def)

definition plain_ok :: "(int \<Rightarrow> int) \<Rightarrow> int set \<Rightarrow> sink \<Rightarrow> bool" where
  "plain_ok f S k \<longleftrightarrow> sink_ok (got_of f S) k \<and> delivered f k"

definition delayed_ok :: "(int \<Rightarrow> int) \<Rightarrow> int set \<Rightarrow> sink \<Rightarrow> bool" where
  "delayed_ok f S k \<longleftrightarrow> del_ok f S k \<and> delivered f k"

lemma sink_recv_law:
  assumes "plain_ok f S k" "good_pkt f p"
  shows "\<exists>t S'. sink_recv now p k = Some t \<and> plain_ok f S' t \<and> S' \<subseteq> insert (tp_seqno p) S \<and> sink_next k \<le> sink_next t \<and>
    (\<forall>a\<in>set (acks t). a \<in> set (acks k) \<or> ta_seqno a = sink_next t - 1)"
proof (cases "tp_ts p < sn_lastreset k")
  case True
  then have "sink_recv now p k = Some (sink_emit (PktFreed p) k)" by (simp add: sink_recv_def)
  moreover have "plain_ok f S (sink_emit (PktFreed p) k)" using assms(1) by (simp add: plain_ok_def delivered_def)
  ultimately show ?thesis by (intro exI [of _ "sink_emit (PktFreed p) k"] exI [of _ S]) auto
next
  case False
  have k: "sink_ok (got_of f S) k" "delivered f k" using assms(1) by (simp_all add: plain_ok_def)
  from sink_recv_ok [OF k(1) assms(2), of now] False obtain t a where
    t: "sink_recv now p k = Some t" "sink_ok (got_of f (insert (tp_seqno p) S)) t" "sink_next k \<le> sink_next t"
      "sn_bytes t = sn_bytes k + (\<Sum>i = sink_next k..<sink_next t. f i)" "acks t = acks k @ [a]" "ack_ok (insert (tp_seqno p) S) p t a"
    by auto
  have "delivered f t" by (rule delivered_step [OF k(2) t(4) _ t(3)]) (use sink_next_missing [OF k(1)] in \<open>simp add: first_missing_def\<close>)
  then have "plain_ok f (insert (tp_seqno p) S) t" using t(2) by (simp add: plain_ok_def)
  with t show ?thesis by (auto simp: ack_ok_def)
qed

lemma del_recv_law:
  assumes "delayed_ok f S k" "good_pkt f p"
  shows "\<exists>t S'. del_recv now p k = Some t \<and> delayed_ok f S' t \<and> S' \<subseteq> insert (tp_seqno p) S \<and> sink_next k \<le> sink_next t \<and>
    (\<forall>a\<in>set (acks t). a \<in> set (acks k) \<or> ta_seqno a = sink_next t - 1)"
proof (cases "tp_ts p < sn_lastreset k")
  case True
  then have "del_recv now p k = Some (sink_emit (PktFreed p) k)" by (simp add: del_recv_def)
  moreover have "delayed_ok f S (sink_emit (PktFreed p) k)" using assms(1) by (simp add: delayed_ok_def delivered_def del_ok_def)
  ultimately show ?thesis by (intro exI [of _ "sink_emit (PktFreed p) k"] exI [of _ S]) auto
next
  case False
  have k: "del_ok f S k" "delivered f k" using assms(1) by (simp_all add: delayed_ok_def)
  from del_recv_ok [OF k(1) assms(2), of now] False obtain t where
    t: "del_recv now p k = Some t" "del_ok f (insert (tp_seqno p) S) t" "sink_next k \<le> sink_next t"
      "sn_bytes t = sn_bytes k + (\<Sum>i = sink_next k..<sink_next t. f i)" "waits p k t \<or> acked (insert (tp_seqno p) S) p k t" by auto
  have "sink_ok (got_of f S) k" using k(1) by (simp add: del_ok_def)
  then have "delivered f t" using sink_next_missing
    by (intro delivered_step [OF k(2) t(4) _ t(3)]) (auto simp: first_missing_def)
  then have "delayed_ok f (insert (tp_seqno p) S) t" using t(2) by (simp add: delayed_ok_def)
  moreover have "\<forall>a\<in>set (acks t). a \<in> set (acks k) \<or> ta_seqno a = sink_next t - 1"
    using t(5) by (auto simp: waits_def acked_def ack_ok_def)
  ultimately show ?thesis using t(1,3) by blast
qed

lemma del_expire_law:
  assumes "delayed_ok f S k" "del_expire now k = Some t"
  shows "delayed_ok f S t \<and> sink_next t = sink_next k \<and> (\<forall>a\<in>set (acks t). a \<in> set (acks k) \<or> ta_seqno a = sink_next t - 1)"
proof -
  have "sn_pending k" using assms(2) by (simp add: del_expire_def split: if_splits)
  with del_expire_ok [of f S k now] assms show ?thesis by (auto simp: delayed_ok_def delivered_def acked_def ack_ok_def)
qed

interpretation plain: receiver sink_recv "\<lambda>_ _. None" acks "plain_ok f" sink_next f for f
proof unfold_locales
  show "plain_ok f S k \<Longrightarrow> first_missing S (sink_next k)" for S k
    using sink_next_missing unfolding plain_ok_def by blast
qed (use sink_recv_law in \<open>blast | simp\<close>)+

interpretation delayed: receiver del_recv del_expire acks "delayed_ok f" sink_next f for f
proof unfold_locales
  show "delayed_ok f S k \<Longrightarrow> first_missing S (sink_next k)" for S k
    using sink_next_missing unfolding delayed_ok_def del_ok_def by blast
qed (use del_recv_law del_expire_law in blast)+

section \<open>Data acknowledged have been delivered\<close>

lemma fresh_receiver: "fresh_sink k \<Longrightarrow> plain_ok f {} k" "fresh_sink k \<Longrightarrow> delayed_ok f {} k"
  using fresh_ok [of k f] by (simp_all add: plain_ok_def delayed_ok_def del_ok_def delivered_def fresh_next) (simp_all add: fresh_sink_def)

definition sizes_ok :: "tcp_conf \<Rightarrow> bool" where
  "sizes_ok c \<longleftrightarrow> tcp_conf_ok c \<and> 0 < cf_tcpip_base_hdr_size c \<and> 0 \<le> headersize c"

lemma seg_size_pos: "sizes_ok c \<Longrightarrow> 0 < seg_size c q"
  by (simp add: sizes_ok_def tcp_conf_ok_def seg_size_def)

text \<open>C4. From end to end.  A sender of any of the three classes and a new receiver, which may delay
  its acknowledgments, are connected by a network that loses, repeats, delays and reorders packets
  and acknowledgments.  In every state of the connection, every packet that the sender takes for
  acknowledged has been received, and its data delivered: the bytes delivered are those of the
  packets before the first one missing, each once, and nothing that has not been sent.  The sender
  handles every acknowledgment that can arrive, and the receiver every packet.\<close>

theorem acked_data_delivered:
  assumes c: "sizes_ok c" and k0: "fresh_sink k0"
    and r: "recv = sink_recv \<and> expire = (\<lambda>_ _. None) \<or> recv = del_recv \<and> expire = del_expire"
    and run: "connection c recv expire acks k0 s k"
  shows "tc_highest_ack s < sink_next k \<and> sink_next k \<le> tc_maxseq s + 1 \<and> sn_bytes k = (\<Sum>i = 0..<sink_next k. seg_size c i) \<and>
    (\<forall>now p. tcp_ack.truncate p \<in> set (acks k) \<longrightarrow> (\<exists>t. tcp_recv c now p s = Some t)) \<and>
    (\<forall>now g p. g \<in> set (sent s) \<and> carries g p \<longrightarrow> (\<exists>t. recv now p k = Some t))"
proof -
  have c': "tcp_conf_ok c" "\<And>q. 0 \<le> q \<Longrightarrow> seg_size c q = seg_size c q \<and> 0 < seg_size c q" using c seg_size_pos by (simp_all add: sizes_ok_def)
  have ack: "\<exists>t. tcp_recv c now p s = Some t" if "good c (False, n, m) s" "ack_valid (False, n, m) p s" for now p n m
    using tcp_recv_good [OF c'(1) that] by blast
  note fresh = fresh_receiver(1) [OF k0, of "seg_size c"] fresh_receiver(2) [OF k0, of "seg_size c"]
  from r show ?thesis
  proof
    assume r: "recv = sink_recv \<and> expire = (\<lambda>_ _. None)"
    with run plain.connection_linked [OF c' fresh(1) fresh_acks [OF k0]] have l: "plain.linked (seg_size c) c s k" by simp
    then obtain S m where "plain_ok (seg_size c) S k" "good c (False, sink_next k - 1, m) s" by (auto simp: plain.linked_def)
    moreover have "\<exists>t. recv now p k = Some t" if "g \<in> set (sent s)" "carries g p" for now g p
      using plain.linked_packet [OF c'(2) l that, of now] r by blast
    ultimately show ?thesis using ack plain.linked_bounds(1,2) [OF l] plain.linked_ack [OF l]
      by (auto simp: plain_ok_def delivered_def)
  next
    assume r: "recv = del_recv \<and> expire = del_expire"
    with run delayed.connection_linked [OF c' fresh(2) fresh_acks [OF k0]] have l: "delayed.linked (seg_size c) c s k" by simp
    then obtain S m where "delayed_ok (seg_size c) S k" "good c (False, sink_next k - 1, m) s" by (auto simp: delayed.linked_def)
    moreover have "\<exists>t. recv now p k = Some t" if "g \<in> set (sent s)" "carries g p" for now g p
      using delayed.linked_packet [OF c'(2) l that, of now] r by blast
    ultimately show ?thesis using ack delayed.linked_bounds(1,2) [OF l] delayed.linked_ack [OF l]
      by (auto simp: delayed_ok_def delivered_def)
  qed
qed

lemma ex_connection: "connection ex_conf sink_recv (\<lambda>_ _. None) acks k0 ex_busy k0"
proof -
  have u: "tc_wnd_init_option ex_mem = 1 \<or> tc_wnd_init_option ex_mem = 2" by (simp add: ex_mem_def)
  obtain s where s: "tcp_reset ex_conf 0 (tcp_new ex_mem) = Some s"
    using tcp_reset_good [OF ex_conf_ok(1) u, of "(True, 0, - 1)" 0] by auto
  then have i: "s = ex_idle" by (simp add: ex_idle_def)
  obtain t where t: "sendmsg ex_conf 0 3000 ex_idle = Some t"
    using sendmsg_good [OF ex_conf_ok(1) sender_good [OF ex_conf_ok(1) ex_idle], of 3000 0] by auto
  have "connection ex_conf sink_recv (\<lambda>_ _. None) acks k0 ex_idle k0" using connection.opened [OF u s] unfolding i .
  from connection.send [OF this _ t] t show ?thesis by (simp add: ex_busy_def)
qed

text \<open>In the example the SYN arrives.\<close>

theorem acked_data_delivered_witness:
  "\<exists>g\<in>set (sent ex_busy). \<forall>p. carries g p \<longrightarrow> (\<exists>k. sink_recv 1 p (ex_sink (Plain acker_new)) = Some k \<and>
     sink_next k \<le> 2 \<and> sn_bytes k = (\<Sum>i = 0..<sink_next k. seg_size ex_conf i))"
proof -
  have c: "sizes_ok ex_conf" using ex_conf_ok by (simp add: sizes_ok_def) (simp add: ex_conf_def headersize_def)
  note all = acked_data_delivered [OF c ex_fresh(1), of sink_recv "\<lambda>_ _. None"]
  obtain g where "filter (\<lambda>p. sg_seqno p = 0) (sent ex_busy) = [g]"
    using sender_good [OF ex_conf_ok(1) ex_busy [of True]] ex_conf_ok(2) ex_busy_state
    by (auto simp: good_def rest_def measured_def timed_def sole_def map_eq_Cons_conv)
  then have "g \<in> set (filter (\<lambda>p. sg_seqno p = 0) (sent ex_busy))" by simp
  then have g: "g \<in> set (sent ex_busy)" by simp
  moreover have "\<exists>k. sink_recv 1 p (ex_sink (Plain acker_new)) = Some k \<and> sink_next k \<le> 2 \<and>
      sn_bytes k = (\<Sum>i = 0..<sink_next k. seg_size ex_conf i)" if p: "carries g p" for p
  proof -
    from all [OF _ ex_connection] g p obtain k where k: "sink_recv 1 p (ex_sink (Plain acker_new)) = Some k" by blast
    from all [OF _ connection.packet [OF ex_connection g p k]] ex_busy_state k show ?thesis by simp
  qed
  ultimately show ?thesis by blast
qed

end
