(* ===== verification/RouteLogic.thy ===== *)
theory RouteLogic
  imports Prelude
begin

text \<open>
  Class RouteLogic of routing/route.h and routing/route.cc, flat routing: the costs of the links, in
  an array that grows with the number of nodes, and the next hops that \<open>compute_routes\<close> derives from
  them.  Nodes are numbered from 1.  An array is a list, a null pointer the empty list, a \<open>void*\<close> an
  optional address.  An access outside an array or a failed assertion is \<open>None\<close>.
\<close>

section \<open>State\<close>

definition RT_INFINITY :: real where "RT_INFINITY = 16383"

definition INDEX :: "nat \<Rightarrow> nat \<Rightarrow> nat \<Rightarrow> nat" where
  "INDEX i j N = N * i + j"

record adj_entry =
  ae_cost :: real
  ae_entry :: "nat option"

record route_entry =
  re_next_hop :: nat
  re_entry :: "nat option"

record route_logic =
  rl_adj :: "adj_entry list"
  rl_route :: "route_entry list"
  rl_size :: nat

definition rl_new :: route_logic where
  "rl_new = \<lparr>rl_adj = [], rl_route = [], rl_size = 0\<rparr>"

definition rl_reset_all :: "route_logic \<Rightarrow> route_logic" where
  "rl_reset_all s = s\<lparr>rl_adj := [], rl_route := [], rl_size := 0\<rparr>"

section \<open>Links\<close>

definition rl_alloc :: "nat \<Rightarrow> route_logic \<Rightarrow> route_logic" where
  "rl_alloc n s = s\<lparr>rl_size := n, rl_adj := replicate (n * n) \<lparr>ae_cost = RT_INFINITY, ae_entry = None\<rparr>\<rparr>"

text \<open>\<open>m\<close> is at least 16 when the loop starts; for zero the loop would not end.\<close>

function grow_size :: "nat \<Rightarrow> nat \<Rightarrow> nat" where
  "grow_size n m = (if m \<le> n \<and> 0 < m then grow_size n (2 * m) else m)"
  by pat_completeness auto
termination by (relation "measure (\<lambda>(n, m). n + 1 - m)") auto

declare grow_size.simps [simp del]

text \<open>The copy takes over the costs only: the entries of the links are lost.\<close>

definition copy_costs :: "nat \<Rightarrow> adj_entry list \<Rightarrow> nat \<Rightarrow> adj_entry list \<Rightarrow> adj_entry list" where
  "copy_costs osize old m new =
     fold (\<lambda>i. fold (\<lambda>j a. a[INDEX i j m := (a ! INDEX i j m)\<lparr>ae_cost := ae_cost (old ! INDEX i j osize)\<rparr>]) [0..<osize])
       [0..<osize] new"

definition rl_check :: "nat \<Rightarrow> route_logic \<Rightarrow> route_logic" where
  "rl_check n s =
     (if n < rl_size s then s
      else (let old = rl_adj s; osize = rl_size s;
                m = grow_size n (if osize = 0 then 16 else osize);
                s = rl_alloc m s
            in s\<lparr>rl_adj := copy_costs osize old m (rl_adj s), rl_size := m\<rparr>))"

definition rl_insert :: "nat \<Rightarrow> nat \<Rightarrow> real \<Rightarrow> route_logic \<Rightarrow> route_logic" where
  "rl_insert src dst cost s =
     (let s = rl_check dst (rl_check src s); i = INDEX src dst (rl_size s)
      in s\<lparr>rl_adj := (rl_adj s)[i := (rl_adj s ! i)\<lparr>ae_cost := cost\<rparr>]\<rparr>)"

definition rl_insert_entry :: "nat \<Rightarrow> nat \<Rightarrow> real \<Rightarrow> nat option \<Rightarrow> route_logic \<Rightarrow> route_logic" where
  "rl_insert_entry src dst cost entry s =
     (let s = rl_check dst (rl_check src s); i = INDEX src dst (rl_size s)
      in s\<lparr>rl_adj := (rl_adj s)[i := \<lparr>ae_cost = cost, ae_entry = entry\<rparr>]\<rparr>)"

definition rl_reset :: "nat \<Rightarrow> nat \<Rightarrow> route_logic \<Rightarrow> route_logic option" where
  "rl_reset src dst s =
     (if src < rl_size s \<and> dst < rl_size s then
        (let i = INDEX src dst (rl_size s)
         in Some (s\<lparr>rl_adj := (rl_adj s)[i := (rl_adj s ! i)\<lparr>ae_cost := RT_INFINITY\<rparr>]\<rparr>))
      else None)"

section \<open>Routes\<close>

text \<open>
  The arrays of the search for one source.  Those of \<open>hopcnt\<close> and \<open>parent\<close> are allocated once and
  used for each source; every element is written before it is read.
\<close>

record search =
  sr_route :: "route_entry list"
  sr_hopcnt :: "real list"
  sr_parent :: "nat list"

definition route_neighbour :: "nat \<Rightarrow> adj_entry list \<Rightarrow> nat \<Rightarrow> nat \<Rightarrow> search \<Rightarrow> search" where
  "route_neighbour n adj k v t =
     (if sr_parent t ! v \<noteq> k then
        (let t = t\<lparr>sr_hopcnt := (sr_hopcnt t)[v := ae_cost (adj ! INDEX k v n)]\<rparr>
         in if sr_hopcnt t ! v \<noteq> RT_INFINITY then
              t\<lparr>sr_route := (sr_route t)[INDEX k v n := \<lparr>re_next_hop = v, re_entry = ae_entry (adj ! INDEX k v n)\<rparr>]\<rparr>
            else t)
      else t)"

definition nearest :: "nat \<Rightarrow> nat \<Rightarrow> search \<Rightarrow> nat" where
  "nearest n k t =
     fold (\<lambda>w near. if sr_parent t ! w \<noteq> k \<and> sr_hopcnt t ! w < sr_hopcnt t ! near then w else near) [1..<n] 0"

definition route_adjacent :: "nat \<Rightarrow> adj_entry list \<Rightarrow> nat \<Rightarrow> nat \<Rightarrow> nat \<Rightarrow> search \<Rightarrow> search" where
  "route_adjacent n adj k near w t =
     (if sr_parent t ! w \<noteq> k \<and> sr_hopcnt t ! near + ae_cost (adj ! INDEX near w n) < sr_hopcnt t ! w then
        t\<lparr>sr_route := (sr_route t)[INDEX k w n := sr_route t ! INDEX k near n],
          sr_hopcnt := (sr_hopcnt t)[w := sr_hopcnt t ! near + ae_cost (adj ! INDEX near w n)]\<rparr>
      else t)"

definition route_step :: "nat \<Rightarrow> adj_entry list \<Rightarrow> nat \<Rightarrow> search \<Rightarrow> search" where
  "route_step n adj k t =
     (let t = t\<lparr>sr_hopcnt := (sr_hopcnt t)[0 := RT_INFINITY]\<rparr>;
          near = nearest n k t;
          t = t\<lparr>sr_parent := (sr_parent t)[near := k]\<rparr>
      in if near = 0 then t else fold (route_adjacent n adj k near) [1..<n] t)"

definition route_source :: "nat \<Rightarrow> adj_entry list \<Rightarrow> nat \<Rightarrow> search \<Rightarrow> search" where
  "route_source n adj k t =
     fold (\<lambda>v. route_step n adj k) [1..<n] (fold (route_neighbour n adj k) [1..<n] (t\<lparr>sr_parent := [0..<n]\<rparr>))"

definition route_self :: "nat \<Rightarrow> route_entry list \<Rightarrow> route_entry list" where
  "route_self n = fold (\<lambda>k r. r[INDEX k k n := \<lparr>re_next_hop = k, re_entry = None\<rparr>]) [1..<n]"

text \<open>The routes for the links \<open>adj\<close> of nodes below \<open>n\<close>: the body of \<open>compute_routes\<close>.\<close>

definition all_routes :: "nat \<Rightarrow> adj_entry list \<Rightarrow> route_entry list" where
  "all_routes n adj =
     route_self n (sr_route (fold (route_source n adj) [1..<n]
       \<lparr>sr_route = replicate (n * n) \<lparr>re_next_hop = 0, re_entry = None\<rparr>, sr_hopcnt = replicate n 0, sr_parent = replicate n 0\<rparr>))"

definition compute_routes :: "route_logic \<Rightarrow> route_logic" where
  "compute_routes s = s\<lparr>rl_route := all_routes (rl_size s) (rl_adj s)\<rparr>"

text \<open>The command \<open>compute\<close>.\<close>

definition rl_compute :: "route_logic \<Rightarrow> route_logic" where
  "rl_compute s = (if rl_adj s = [] then s else compute_routes s)"

section \<open>Lookup\<close>

text \<open>The answers that stand for an error; the outer \<open>None\<close> is a read outside of \<open>route_\<close>.\<close>

datatype lookup_result = NotComputed | OutOfRange | NextHop int

definition lookup_flat :: "int \<Rightarrow> int \<Rightarrow> route_logic \<Rightarrow> lookup_result option" where
  "lookup_flat sid did s =
     (let src = sid + 1; dst = did + 1
      in if rl_route s = [] then Some NotComputed
         else if src \<ge> int (rl_size s) \<or> dst \<ge> int (rl_size s) then Some OutOfRange
         else (let i = int (rl_size s) * src + dst
               in if 0 \<le> i \<and> nat i < length (rl_route s)
                  then Some (NextHop (int (re_next_hop (rl_route s ! nat i)) - 1)) else None))"

end
