(* ===== verification/RouteShortest.thy ===== *)
theory RouteShortest
  imports RouteLogic
begin

text \<open>
  The routes that \<open>compute_routes\<close> finds are shortest.  \<open>trip\<close> describes the paths between two nodes, with
  their first hop and their cost; \<open>settled\<close> is the invariant of the search for one source, that of
  Dijkstra's algorithm.
\<close>

section \<open>Paths\<close>

definition link_cost :: "nat \<Rightarrow> adj_entry list \<Rightarrow> nat \<Rightarrow> nat \<Rightarrow> real" where
  "link_cost n adj i j = ae_cost (adj ! INDEX i j n)"

inductive trip :: "(nat \<Rightarrow> nat \<Rightarrow> real) \<Rightarrow> nat \<Rightarrow> nat \<Rightarrow> nat \<Rightarrow> nat \<Rightarrow> real \<Rightarrow> bool" for W n k where
  link: "0 < v \<Longrightarrow> v < n \<Longrightarrow> W k v < RT_INFINITY \<Longrightarrow> trip W n k v v (W k v)"
| hop: "trip W n k h x c \<Longrightarrow> 0 < w \<Longrightarrow> w < n \<Longrightarrow> W x w < RT_INFINITY \<Longrightarrow> trip W n k h w (c + W x w)"

text \<open>Costs are not negative, and below the one that stands for no link.\<close>

definition costs_ok :: "(nat \<Rightarrow> nat \<Rightarrow> real) \<Rightarrow> nat \<Rightarrow> bool" where
  "costs_ok W n \<longleftrightarrow> (\<forall>i<n. \<forall>j<n. 0 \<le> W i j \<and> W i j \<le> RT_INFINITY)"

lemma trip_nodes: "trip W n k h w c \<Longrightarrow> 0 < h \<and> h < n \<and> 0 < w \<and> w < n"
  by (induction rule: trip.induct) auto

lemma trip_cost: "trip W n k h w c \<Longrightarrow> costs_ok W n \<Longrightarrow> k < n \<Longrightarrow> 0 \<le> c"
proof (induction rule: trip.induct)
  case (hop h x c w)
  then show ?case using trip_nodes [OF hop(1)] by (simp add: costs_ok_def)
qed (simp add: costs_ok_def)

section \<open>Arrays\<close>

lemma INDEX_less: "i < n \<Longrightarrow> j < n \<Longrightarrow> INDEX i j n < n * n"
proof -
  assume "i < n" "j < n"
  then have "n * i + j < n * i + n" by simp
  also have "\<dots> = n * Suc i" by simp
  also have "\<dots> \<le> n * n" using \<open>i < n\<close> by (intro mult_le_mono2) simp
  finally show ?thesis by (simp add: INDEX_def)
qed

lemma INDEX_eq: "j < n \<Longrightarrow> j' < n \<Longrightarrow> INDEX i j n = INDEX i' j' n \<longleftrightarrow> i = i' \<and> j = j'"
proof
  assume j: "j < n" "j' < n" and "INDEX i j n = INDEX i' j' n"
  then have e: "n * i + j = n * i' + j'" by (simp add: INDEX_def)
  have "(n * i + j) div n = i" "(n * i' + j') div n = i'" using j by simp_all
  with e have "i = i'" by simp
  with e show "i = i' \<and> j = j'" by simp
qed simp

definition arrays_ok :: "nat \<Rightarrow> search \<Rightarrow> bool" where
  "arrays_ok n t \<longleftrightarrow> length (sr_route t) = n * n \<and> length (sr_hopcnt t) = n \<and> length (sr_parent t) = n"

text \<open>What the loop over the neighbours of the source leaves.\<close>

lemma route_neighbours_fold:
  fixes adj :: "adj_entry list"
  assumes "distinct xs" "set xs \<subseteq> {1..<n}" "arrays_ok n t" "k < n"
  defines "f \<equiv> route_neighbour n adj k"
  shows "arrays_ok n (fold f xs t) \<and> sr_parent (fold f xs t) = sr_parent t \<and>
    (\<forall>w<n. sr_hopcnt (fold f xs t) ! w =
      (if w \<in> set xs \<and> sr_parent t ! w \<noteq> k then link_cost n adj k w else sr_hopcnt t ! w)) \<and>
    (\<forall>i<n. \<forall>j<n. sr_route (fold f xs t) ! INDEX i j n =
      (if i = k \<and> j \<in> set xs \<and> sr_parent t ! j \<noteq> k \<and> link_cost n adj k j \<noteq> RT_INFINITY
       then \<lparr>re_next_hop = j, re_entry = ae_entry (adj ! INDEX k j n)\<rparr> else sr_route t ! INDEX i j n))"
  using assms(1-3)
proof (induction xs arbitrary: t)
  case (Cons v xs)
  have v: "0 < v" "v < n" "v \<notin> set xs" using Cons.prems by auto
  have t: "arrays_ok n (f v t)" "sr_parent (f v t) = sr_parent t"
    "\<And>w. w < n \<Longrightarrow> sr_hopcnt (f v t) ! w = (if w = v \<and> sr_parent t ! v \<noteq> k then link_cost n adj k v else sr_hopcnt t ! w)"
    "\<And>i j. i < n \<Longrightarrow> j < n \<Longrightarrow> sr_route (f v t) ! INDEX i j n = (if i = k \<and> j = v \<and> sr_parent t ! v \<noteq> k \<and> link_cost n adj k v \<noteq> RT_INFINITY
       then \<lparr>re_next_hop = v, re_entry = ae_entry (adj ! INDEX k v n)\<rparr> else sr_route t ! INDEX i j n)"
    using Cons.prems(3) v assms(4)
    by (auto simp: f_def route_neighbour_def Let_def arrays_ok_def link_cost_def nth_list_update INDEX_eq INDEX_less)
  from Cons.IH [of "f v t"] Cons.prems t(1) have ih: "arrays_ok n (fold f xs (f v t)) \<and> sr_parent (fold f xs (f v t)) = sr_parent (f v t) \<and>
    (\<forall>w<n. sr_hopcnt (fold f xs (f v t)) ! w =
      (if w \<in> set xs \<and> sr_parent (f v t) ! w \<noteq> k then link_cost n adj k w else sr_hopcnt (f v t) ! w)) \<and>
    (\<forall>i<n. \<forall>j<n. sr_route (fold f xs (f v t)) ! INDEX i j n =
      (if i = k \<and> j \<in> set xs \<and> sr_parent (f v t) ! j \<noteq> k \<and> link_cost n adj k j \<noteq> RT_INFINITY
       then \<lparr>re_next_hop = j, re_entry = ae_entry (adj ! INDEX k j n)\<rparr> else sr_route (f v t) ! INDEX i j n))" by simp
  then show ?case using t v by (auto simp: t(2))
qed simp

text \<open>What the loop over the neighbours of the nearest node leaves.\<close>

definition nearer :: "nat \<Rightarrow> adj_entry list \<Rightarrow> nat \<Rightarrow> nat \<Rightarrow> search \<Rightarrow> nat \<Rightarrow> bool" where
  "nearer n adj k near t w \<longleftrightarrow> sr_parent t ! w \<noteq> k \<and> sr_hopcnt t ! near + link_cost n adj near w < sr_hopcnt t ! w"

lemma route_adjacent_fold:
  fixes adj :: "adj_entry list"
  assumes "distinct xs" "set xs \<subseteq> {1..<n}" "arrays_ok n t" "k < n" "near < n" "sr_parent t ! near = k"
  defines "f \<equiv> route_adjacent n adj k near"
  shows "arrays_ok n (fold f xs t) \<and> sr_parent (fold f xs t) = sr_parent t \<and>
    (\<forall>w<n. sr_hopcnt (fold f xs t) ! w =
      (if w \<in> set xs \<and> nearer n adj k near t w then sr_hopcnt t ! near + link_cost n adj near w else sr_hopcnt t ! w)) \<and>
    (\<forall>i<n. \<forall>j<n. sr_route (fold f xs t) ! INDEX i j n =
      (if i = k \<and> j \<in> set xs \<and> nearer n adj k near t j then sr_route t ! INDEX k near n else sr_route t ! INDEX i j n))"
  using assms(1-3,6)
proof (induction xs arbitrary: t)
  case (Cons v xs)
  have v: "0 < v" "v < n" "v \<notin> set xs" using Cons.prems by auto
  have t: "arrays_ok n (f v t)" "sr_parent (f v t) = sr_parent t"
    "\<And>w. w < n \<Longrightarrow> sr_hopcnt (f v t) ! w = (if w = v \<and> nearer n adj k near t v then sr_hopcnt t ! near + link_cost n adj near v else sr_hopcnt t ! w)"
    "\<And>i j. i < n \<Longrightarrow> j < n \<Longrightarrow> sr_route (f v t) ! INDEX i j n =
       (if i = k \<and> j = v \<and> nearer n adj k near t v then sr_route t ! INDEX k near n else sr_route t ! INDEX i j n)"
    using Cons.prems(3) v assms(4,5)
    by (auto simp: f_def route_adjacent_def Let_def arrays_ok_def link_cost_def nearer_def nth_list_update INDEX_eq INDEX_less)
  have near: "\<not> nearer n adj k near t near" using Cons.prems(4) by (simp add: nearer_def)
  then have same: "sr_hopcnt (f v t) ! near = sr_hopcnt t ! near" "sr_route (f v t) ! INDEX k near n = sr_route t ! INDEX k near n"
    using t(3) [of near] t(4) [of k near] assms(4,5) by auto
  have n: "nearer n adj k near (f v t) w \<longleftrightarrow> nearer n adj k near t w" if "w \<in> set xs" for w
  proof -
    have "w < n" "w \<noteq> v" using that Cons.prems v by auto
    then show ?thesis using t(2,3) by (simp add: nearer_def same)
  qed
  from Cons.IH [of "f v t"] Cons.prems t(1,2) have ih: "arrays_ok n (fold f xs (f v t))" "sr_parent (fold f xs (f v t)) = sr_parent t"
    "\<And>w. w < n \<Longrightarrow> sr_hopcnt (fold f xs (f v t)) ! w = (if w \<in> set xs \<and> nearer n adj k near (f v t) w
       then sr_hopcnt (f v t) ! near + link_cost n adj near w else sr_hopcnt (f v t) ! w)"
    "\<And>i j. i < n \<Longrightarrow> j < n \<Longrightarrow> sr_route (fold f xs (f v t)) ! INDEX i j n = (if i = k \<and> j \<in> set xs \<and> nearer n adj k near (f v t) j
       then sr_route (f v t) ! INDEX k near n else sr_route (f v t) ! INDEX i j n)" by simp_all
  have "sr_hopcnt (fold f xs (f v t)) ! w = (if w \<in> set (v # xs) \<and> nearer n adj k near t w
      then sr_hopcnt t ! near + link_cost n adj near w else sr_hopcnt t ! w)" if "w < n" for w
    using ih(3) [OF that] t(3) [OF that] n [of w] v(3) same(1) by (cases "w \<in> set xs") auto
  moreover have "sr_route (fold f xs (f v t)) ! INDEX i j n = (if i = k \<and> j \<in> set (v # xs) \<and> nearer n adj k near t j
      then sr_route t ! INDEX k near n else sr_route t ! INDEX i j n)" if "i < n" "j < n" for i j
    using ih(4) [OF that] t(4) [OF that] n [of j] v(3) same(2) by (cases "j \<in> set xs") auto
  ultimately show ?case using ih(1,2) by simp
qed simp

section \<open>The search for one source\<close>

lemma nearest_fold:
  fixes H :: "nat \<Rightarrow> real"
  assumes "u = fold (\<lambda>w near. if P w \<and> H w < H near then w else near) xs z"
  shows "(u = z \<or> u \<in> set xs \<and> P u \<and> H u < H z) \<and> H u \<le> H z \<and> (\<forall>w\<in>set xs. P w \<longrightarrow> H u \<le> H w)"
  using assms by (induction xs arbitrary: z) force+

lemma nearest_least:
  assumes "u = nearest n k t"
  shows "u = 0 \<or> 0 < u \<and> u < n \<and> sr_parent t ! u \<noteq> k \<and> sr_hopcnt t ! u < sr_hopcnt t ! 0"
    "0 < w \<Longrightarrow> w < n \<Longrightarrow> sr_parent t ! w \<noteq> k \<Longrightarrow> sr_hopcnt t ! u \<le> sr_hopcnt t ! w"
  using nearest_fold [of u "\<lambda>w. sr_parent t ! w \<noteq> k" "\<lambda>w. sr_hopcnt t ! w" "[1..<n]" 0] assms
  by (auto simp: nearest_def)

definition first_hop :: "nat \<Rightarrow> nat \<Rightarrow> route_entry list \<Rightarrow> nat \<Rightarrow> nat" where
  "first_hop n k r v = re_next_hop (r ! INDEX k v n)"

text \<open>
  The nodes with \<open>parent\<close> equal to the source are those whose distance is known.  The distances
  of the others are those over known nodes.
\<close>

definition far :: "nat \<Rightarrow> nat \<Rightarrow> nat \<Rightarrow> bool" where
  "far n k w \<longleftrightarrow> 0 < w \<and> w < n \<and> w \<noteq> k"

definition estimates :: "nat \<Rightarrow> (nat \<Rightarrow> nat \<Rightarrow> real) \<Rightarrow> nat \<Rightarrow> search \<Rightarrow> bool" where
  "estimates n W k t \<longleftrightarrow> (\<forall>w. far n k w \<longrightarrow> sr_hopcnt t ! w \<le> RT_INFINITY \<and>
     (if sr_hopcnt t ! w < RT_INFINITY then trip W n k (first_hop n k (sr_route t) w) w (sr_hopcnt t ! w)
      else first_hop n k (sr_route t) w = 0))"

definition settled :: "nat \<Rightarrow> (nat \<Rightarrow> nat \<Rightarrow> real) \<Rightarrow> nat \<Rightarrow> search \<Rightarrow> bool" where
  "settled n W k t \<longleftrightarrow> arrays_ok n t \<and> sr_parent t ! k = k \<and> estimates n W k t \<and>
     (\<forall>w. far n k w \<and> sr_parent t ! w \<noteq> k \<longrightarrow> sr_hopcnt t ! w \<le> W k w) \<and>
     (\<forall>x w. far n k x \<and> sr_parent t ! x = k \<and> far n k w \<and> sr_parent t ! w \<noteq> k \<longrightarrow>
        sr_hopcnt t ! w \<le> sr_hopcnt t ! x + W x w \<and> sr_hopcnt t ! x \<le> sr_hopcnt t ! w) \<and>
     (\<forall>x h c. far n k x \<and> sr_parent t ! x = k \<and> trip W n k h x c \<longrightarrow> sr_hopcnt t ! x \<le> c)"

lemma unsettled_trip:
  assumes "settled n W k t" "costs_ok W n" "k < n" "0 < k"
  shows "trip W n k h w c \<Longrightarrow> w \<noteq> k \<Longrightarrow> sr_parent t ! w \<noteq> k \<Longrightarrow> \<exists>y. far n k y \<and> sr_parent t ! y \<noteq> k \<and> sr_hopcnt t ! y \<le> c"
proof (induction rule: trip.induct)
  case (link v)
  then have "far n k v" by (simp add: far_def)
  with link assms(1) show ?case unfolding settled_def by blast
next
  case (hop h x c w)
  have x: "0 < x" "x < n" "0 \<le> W x w" and c: "0 \<le> c"
    using trip_nodes [OF hop(1)] trip_cost [OF hop(1) assms(2,3)] assms(2) hop(3) by (auto simp: costs_ok_def)
  have w: "far n k w" using hop by (simp add: far_def)
  consider "x = k" | "x \<noteq> k" "sr_parent t ! x = k" | "x \<noteq> k" "sr_parent t ! x \<noteq> k" by blast
  then show ?case
  proof cases
    case 1
    with assms(1) w hop(7) have "sr_hopcnt t ! w \<le> W k w" by (auto simp: settled_def)
    with 1 w c hop(7) show ?thesis by (intro exI [of _ w]) simp
  next
    case 2
    with x have "far n k x" by (simp add: far_def)
    with assms(1) 2 w hop(1,7) have "sr_hopcnt t ! w \<le> sr_hopcnt t ! x + W x w" "sr_hopcnt t ! x \<le> c"
      unfolding settled_def by blast+
    then show ?thesis using w hop(7) by (intro exI [of _ w]) simp
  next
    case 3
    with hop.IH obtain y where "far n k y" "sr_parent t ! y \<noteq> k" "sr_hopcnt t ! y \<le> c" by blast
    with x(3) show ?thesis by (intro exI [of _ y]) simp
  qed
qed

definition unknown :: "nat \<Rightarrow> nat \<Rightarrow> search \<Rightarrow> nat set" where
  "unknown n k t = {w. far n k w \<and> sr_parent t ! w \<noteq> k}"

definition exhausted :: "nat \<Rightarrow> nat \<Rightarrow> search \<Rightarrow> bool" where
  "exhausted n k t \<longleftrightarrow> (\<forall>w\<in>unknown n k t. RT_INFINITY \<le> sr_hopcnt t ! w)"

lemma finite_unknown [simp]: "finite (unknown n k t)"
  by (rule finite_subset [of _ "{0..<n}"]) (auto simp: unknown_def far_def)

text \<open>What one step does, node by node.\<close>

lemma route_step_none:
  fixes adj :: "adj_entry list"
  assumes "arrays_ok n t" "0 < k" "k < n" "nearest n k (t\<lparr>sr_hopcnt := (sr_hopcnt t)[0 := RT_INFINITY]\<rparr>) = 0"
  defines "t' \<equiv> route_step n adj k t"
  shows "arrays_ok n t'" "sr_route t' = sr_route t" "\<And>w. 0 < w \<Longrightarrow> sr_parent t' ! w = sr_parent t ! w"
    "\<And>w. 0 < w \<Longrightarrow> sr_hopcnt t' ! w = sr_hopcnt t ! w" "exhausted n k t'"
proof -
  let ?u = "t\<lparr>sr_hopcnt := (sr_hopcnt t)[0 := RT_INFINITY]\<rparr>"
  have t': "t' = ?u\<lparr>sr_parent := (sr_parent t)[0 := k]\<rparr>" using assms(4) by (simp add: t'_def route_step_def Let_def)
  show "arrays_ok n t'" using assms(1) by (simp add: t' arrays_ok_def)
  show "sr_route t' = sr_route t" "\<And>w. 0 < w \<Longrightarrow> sr_parent t' ! w = sr_parent t ! w"
    "\<And>w. 0 < w \<Longrightarrow> sr_hopcnt t' ! w = sr_hopcnt t ! w" by (simp_all add: t')
  have "sr_hopcnt ?u ! 0 = RT_INFINITY" using assms(1-3) by (simp add: arrays_ok_def)
  then show "exhausted n k t'"
    using nearest_least(2) [of 0 n k ?u] assms(4) by (auto simp: exhausted_def unknown_def far_def t')
qed

lemma route_step_some:
  fixes adj :: "adj_entry list"
  assumes "arrays_ok n t" "0 < k" "k < n" "near = nearest n k (t\<lparr>sr_hopcnt := (sr_hopcnt t)[0 := RT_INFINITY]\<rparr>)" "near \<noteq> 0"
    "sr_parent t ! k = k"
  defines "t' \<equiv> route_step n adj k t" and "W \<equiv> link_cost n adj"
  shows "arrays_ok n t'" "far n k near" "sr_parent t ! near \<noteq> k" "sr_hopcnt t ! near < RT_INFINITY"
    "\<And>w. far n k w \<Longrightarrow> sr_parent t ! w \<noteq> k \<Longrightarrow> sr_hopcnt t ! near \<le> sr_hopcnt t ! w"
    "\<And>w. w < n \<Longrightarrow> sr_parent t' ! w = (if w = near then k else sr_parent t ! w)"
    "\<And>w. far n k w \<Longrightarrow> sr_hopcnt t' ! w = (if sr_parent t' ! w \<noteq> k \<and> sr_hopcnt t ! near + W near w < sr_hopcnt t ! w
       then sr_hopcnt t ! near + W near w else sr_hopcnt t ! w)"
    "\<And>w. far n k w \<Longrightarrow> first_hop n k (sr_route t') w = (if sr_parent t' ! w \<noteq> k \<and> sr_hopcnt t ! near + W near w < sr_hopcnt t ! w
       then first_hop n k (sr_route t) near else first_hop n k (sr_route t) w)"
    "\<And>i j. i < n \<Longrightarrow> j < n \<Longrightarrow> i \<noteq> k \<Longrightarrow> sr_route t' ! INDEX i j n = sr_route t ! INDEX i j n"
proof -
  let ?u = "t\<lparr>sr_hopcnt := (sr_hopcnt t)[0 := RT_INFINITY]\<rparr>"
  define v where "v = ?u\<lparr>sr_parent := (sr_parent t)[near := k]\<rparr>"
  have t': "t' = fold (route_adjacent n adj k near) [1..<n] v"
    using assms(5) by (simp add: t'_def route_step_def Let_def v_def flip: assms(4))
  have z: "sr_hopcnt ?u ! 0 = RT_INFINITY" using assms(1-3) by (simp add: arrays_ok_def)
  have near: "0 < near" "near < n" "sr_parent t ! near \<noteq> k" "sr_hopcnt t ! near < RT_INFINITY"
    using nearest_least(1) [OF assms(4)] assms(5) z by auto
  then show "far n k near" "sr_parent t ! near \<noteq> k" "sr_hopcnt t ! near < RT_INFINITY" using assms(6) by (auto simp: far_def)
  show "sr_hopcnt t ! near \<le> sr_hopcnt t ! w" if "far n k w" "sr_parent t ! w \<noteq> k" for w
    using nearest_least(2) [OF assms(4), of w] that near(1) by (simp add: far_def)
  have v: "arrays_ok n v" "sr_parent v ! near = k" using assms(1) near(2) by (simp_all add: v_def arrays_ok_def)
  note a = route_adjacent_fold [of "[1..<n]" n v k near adj, OF _ _ v(1) assms(3) near(2) v(2)]
  have a: "arrays_ok n t'" "sr_parent t' = sr_parent v"
    "\<And>w. far n k w \<Longrightarrow> sr_hopcnt t' ! w = (if nearer n adj k near v w then sr_hopcnt v ! near + W near w else sr_hopcnt v ! w)"
    "\<And>i j. i < n \<Longrightarrow> j < n \<Longrightarrow> sr_route t' ! INDEX i j n =
      (if i = k \<and> 0 < j \<and> nearer n adj k near v j then sr_route v ! INDEX k near n else sr_route v ! INDEX i j n)"
    using a by (auto simp: t' W_def far_def)
  show "arrays_ok n t'" by (rule a)
  show p: "sr_parent t' ! w = (if w = near then k else sr_parent t ! w)" if "w < n" for w
    using assms(1) near(2) that by (simp add: a(2) v_def arrays_ok_def)
  have nearer: "nearer n adj k near v w \<longleftrightarrow> sr_parent t' ! w \<noteq> k \<and> sr_hopcnt t ! near + W near w < sr_hopcnt t ! w" if "far n k w" for w
    using that near(1) by (simp add: nearer_def a(2) W_def far_def) (simp add: v_def)
  show "sr_hopcnt t' ! w = (if sr_parent t' ! w \<noteq> k \<and> sr_hopcnt t ! near + W near w < sr_hopcnt t ! w
       then sr_hopcnt t ! near + W near w else sr_hopcnt t ! w)" if "far n k w" for w
    using a(3) [OF that] nearer [OF that] that near(1) by (simp add: v_def far_def)
  show "first_hop n k (sr_route t') w = (if sr_parent t' ! w \<noteq> k \<and> sr_hopcnt t ! near + W near w < sr_hopcnt t ! w
       then first_hop n k (sr_route t) near else first_hop n k (sr_route t) w)" if "far n k w" for w
    using a(4) [of k w] nearer [OF that] that assms(3) by (simp add: first_hop_def v_def far_def)
  show "sr_route t' ! INDEX i j n = sr_route t ! INDEX i j n" if "i < n" "j < n" "i \<noteq> k" for i j
    using a(4) [OF that(1,2)] that(3) by (simp add: v_def)
qed

lemma settled_cong:
  assumes "settled n W k t" "arrays_ok n t'" "sr_route t' = sr_route t" "0 < k"
    "\<And>w. 0 < w \<Longrightarrow> sr_parent t' ! w = sr_parent t ! w" "\<And>w. 0 < w \<Longrightarrow> sr_hopcnt t' ! w = sr_hopcnt t ! w"
  shows "settled n W k t'"
  using assms unfolding settled_def estimates_def far_def by (auto cong: conj_cong)

lemma route_step_settled:
  assumes t: "settled n (link_cost n adj) k t" and c: "costs_ok (link_cost n adj) n" and k: "0 < k" "k < n"
  shows "settled n (link_cost n adj) k (route_step n adj k t)"
proof -
  let ?t = "route_step n adj k t" and ?W = "link_cost n adj"
  let ?u = "t\<lparr>sr_hopcnt := (sr_hopcnt t)[0 := RT_INFINITY]\<rparr>"
  have a: "arrays_ok n t" "sr_parent t ! k = k" and e: "estimates n ?W k t" using t by (simp_all add: settled_def)
  show ?thesis
  proof (cases "nearest n k ?u = 0")
    case True
    from settled_cong [OF t _ _ k(1)] route_step_none [OF a(1) k True] show ?thesis by blast
  next
    case False
    define near where "near = nearest n k ?u"
    have nz: "near \<noteq> 0" using False by (simp add: near_def)
    note s1 = route_step_some(2-5) [OF a(1) k near_def nz a(2)]
    note s2 = route_step_some(1,6-9) [where adj = adj, OF a(1) k near_def nz a(2)]
    note s = s2(1) s1 s2(2-)
    let ?H = "\<lambda>w. sr_hopcnt t ! w"
    have near: "trip ?W n k (first_hop n k (sr_route t) near) near (?H near)"
      using e s(2,4) by (auto simp: estimates_def)
    have h: "0 \<le> ?H near" by (rule trip_cost [OF near c k(2)])
    have W: "0 \<le> ?W near w" if "far n k w" for w using c s(2) that by (simp add: costs_ok_def far_def)
    have par: "sr_parent ?t ! w = k \<longleftrightarrow> w = near \<or> sr_parent t ! w = k" if "far n k w" for w
      using s(6) [of w] that by (simp add: far_def)
    have less: "sr_hopcnt ?t ! w \<le> ?H w" "sr_parent ?t ! w = k \<Longrightarrow> sr_hopcnt ?t ! w = ?H w"
      "sr_parent ?t ! w \<noteq> k \<Longrightarrow> sr_hopcnt ?t ! w \<le> ?H near + ?W near w" if "far n k w" for w
      using s(7) [OF that] by auto
    have more: "x \<le> sr_hopcnt ?t ! w" if "far n k w" "x \<le> ?H near" "x \<le> ?H w" for x w
      using s(7) [OF that(1)] W [OF that(1)] that(2,3) by (auto split: if_splits)
    have "estimates n ?W k ?t" unfolding estimates_def
    proof (intro allI impI)
      fix w assume w: "far n k w"
      note ew = e [unfolded estimates_def, rule_format, OF w]
      show "sr_hopcnt ?t ! w \<le> RT_INFINITY \<and> (if sr_hopcnt ?t ! w < RT_INFINITY
          then trip ?W n k (first_hop n k (sr_route ?t) w) w (sr_hopcnt ?t ! w) else first_hop n k (sr_route ?t) w = 0)"
      proof (cases "sr_parent ?t ! w \<noteq> k \<and> ?H near + ?W near w < ?H w")
        case True
        then have "?W near w < RT_INFINITY" using h ew by linarith
        with trip.hop [OF near, of w] w have "trip ?W n k (first_hop n k (sr_route t) near) w (?H near + ?W near w)" by (simp add: far_def)
        with s(7,8) [OF w] True ew show ?thesis by simp
      next
        case F: False
        show ?thesis using s(7,8) [OF w] ew unfolding if_not_P [OF F] by simp
      qed
    qed
    moreover have "\<forall>w. far n k w \<and> sr_parent ?t ! w \<noteq> k \<longrightarrow> sr_hopcnt ?t ! w \<le> ?W k w"
    proof (intro allI impI, elim conjE)
      fix w assume w: "far n k w" "sr_parent ?t ! w \<noteq> k"
      then have "?H w \<le> ?W k w" using t par by (auto simp: settled_def)
      with less(1) [OF w(1)] show "sr_hopcnt ?t ! w \<le> ?W k w" by simp
    qed
    moreover have "\<forall>x w. far n k x \<and> sr_parent ?t ! x = k \<and> far n k w \<and> sr_parent ?t ! w \<noteq> k \<longrightarrow>
        sr_hopcnt ?t ! w \<le> sr_hopcnt ?t ! x + ?W x w \<and> sr_hopcnt ?t ! x \<le> sr_hopcnt ?t ! w"
    proof (intro allI impI, elim conjE)
      fix x w assume x: "far n k x" "sr_parent ?t ! x = k" and w: "far n k w" "sr_parent ?t ! w \<noteq> k"
      have w': "sr_parent t ! w \<noteq> k" "w \<noteq> near" using w par by auto
      show "sr_hopcnt ?t ! w \<le> sr_hopcnt ?t ! x + ?W x w \<and> sr_hopcnt ?t ! x \<le> sr_hopcnt ?t ! w"
      proof (cases "x = near")
        case True
        with less(2) [OF x] less(3) [OF w] more [OF w(1), of "?H near"] s(5) [OF w(1) w'(1)] show ?thesis by simp
      next
        case False
        then have x': "sr_parent t ! x = k" using x par by auto
        from t x(1) x' have "far n k v \<Longrightarrow> sr_parent t ! v \<noteq> k \<Longrightarrow> ?H v \<le> ?H x + ?W x v \<and> ?H x \<le> ?H v" for v
          unfolding settled_def by blast
        from this [OF w(1) w'(1)] this [OF s(2,3)] less(1) [OF w(1)] less(2) [OF x] more [OF w(1), of "?H x"]
        show ?thesis by linarith
      qed
    qed
    moreover have "\<forall>x h c. far n k x \<and> sr_parent ?t ! x = k \<and> trip ?W n k h x c \<longrightarrow> sr_hopcnt ?t ! x \<le> c"
    proof (intro allI impI, elim conjE)
      fix x h d assume x: "far n k x" "sr_parent ?t ! x = k" and tr: "trip ?W n k h x d"
      show "sr_hopcnt ?t ! x \<le> d"
      proof (cases "x = near")
        case True
        from unsettled_trip [OF t c k(2,1) tr] x(1) s(3) True obtain y where "far n k y" "sr_parent t ! y \<noteq> k" "?H y \<le> d"
          by (auto simp: far_def)
        with s(5) [of y] True less(1) [OF x(1)] show ?thesis by simp
      next
        case False
        then have "sr_parent t ! x = k" using x par by auto
        with t x(1) tr have "?H x \<le> d" unfolding settled_def by blast
        with less(1) [OF x(1)] show ?thesis by simp
      qed
    qed
    moreover have "sr_parent ?t ! k = k" using s(6) [of k] k a(2) by simp
    ultimately show ?thesis using s(1) unfolding settled_def by blast
  qed
qed

text \<open>Each step settles a node, until none is left that can be reached.\<close>

lemma route_step_progress:
  assumes t: "settled n (link_cost n adj) k t" and k: "0 < k" "k < n"
  shows "exhausted n k (route_step n adj k t) \<or>
    \<not> exhausted n k t \<and> card (unknown n k (route_step n adj k t)) < card (unknown n k t)"
proof -
  let ?u = "t\<lparr>sr_hopcnt := (sr_hopcnt t)[0 := RT_INFINITY]\<rparr>"
  have a: "arrays_ok n t" "sr_parent t ! k = k" using t by (simp_all add: settled_def)
  show ?thesis
  proof (cases "nearest n k ?u = 0")
    case True
    from route_step_none(5) [OF a(1) k True] show ?thesis by blast
  next
    case False
    define near where "near = nearest n k ?u"
    have nz: "near \<noteq> 0" using False by (simp add: near_def)
    note s = route_step_some [OF a(1) k near_def nz a(2)]
    have "near \<in> unknown n k t" using s(2,3) by (simp add: unknown_def)
    moreover from this have "\<not> exhausted n k t" using s(4) by (force simp: exhausted_def not_le)
    moreover have "unknown n k (route_step n adj k t) = unknown n k t - {near}"
      using s(6) by (auto simp: unknown_def far_def)
    ultimately show ?thesis using card_Diff1_less [OF finite_unknown, of near n k t] by simp
  qed
qed

lemma route_step_rows:
  assumes t: "settled n (link_cost n adj) k t" and k: "0 < k" "k < n" and i: "i < n" "j < n" "i \<noteq> k"
  shows "sr_route (route_step n adj k t) ! INDEX i j n = sr_route t ! INDEX i j n"
proof -
  let ?u = "t\<lparr>sr_hopcnt := (sr_hopcnt t)[0 := RT_INFINITY]\<rparr>"
  have a: "arrays_ok n t" "sr_parent t ! k = k" using t by (simp_all add: settled_def)
  show ?thesis
  proof (cases "nearest n k ?u = 0")
    case True
    from route_step_none(2) [OF a(1) k True] show ?thesis by simp
  next
    case False
    then show ?thesis using route_step_some(9) [OF a(1) k refl _ a(2) i] by simp
  qed
qed

lemma route_steps:
  assumes c: "costs_ok (link_cost n adj) n" and k: "0 < k" "k < n"
  shows "settled n (link_cost n adj) k t \<Longrightarrow> exhausted n k t \<or> card (unknown n k t) \<le> length xs \<Longrightarrow>
    (let t' = fold (\<lambda>v. route_step n adj k) xs t
     in settled n (link_cost n adj) k t' \<and> exhausted n k t' \<and>
        (\<forall>i<n. \<forall>j<n. i \<noteq> k \<longrightarrow> sr_route t' ! INDEX i j n = sr_route t ! INDEX i j n))"
proof (induction xs arbitrary: t)
  case Nil
  then show ?case by (auto simp: exhausted_def)
next
  case (Cons x xs)
  let ?t = "route_step n adj k t"
  have "exhausted n k ?t \<or> card (unknown n k ?t) \<le> length xs"
    using route_step_progress [OF Cons.prems(1) k] Cons.prems(2) by auto
  from Cons.IH [OF route_step_settled [OF Cons.prems(1) c k] this] route_step_rows [OF Cons.prems(1) k] show ?case
    by (simp add: Let_def)
qed

text \<open>The start of the search: the links of the source.\<close>

lemma route_start:
  assumes c: "costs_ok (link_cost n adj) n" and k: "0 < k" "k < n" and t: "arrays_ok n t"
    and z: "\<And>w. far n k w \<Longrightarrow> first_hop n k (sr_route t) w = 0"
  defines "t' \<equiv> fold (route_neighbour n adj k) [1..<n] (t\<lparr>sr_parent := [0..<n]\<rparr>)"
  shows "settled n (link_cost n adj) k t'" "card (unknown n k t') \<le> n - 1"
    "\<And>i j. i < n \<Longrightarrow> j < n \<Longrightarrow> i \<noteq> k \<Longrightarrow> sr_route t' ! INDEX i j n = sr_route t ! INDEX i j n"
proof -
  let ?t = "t\<lparr>sr_parent := [0..<n]\<rparr>" and ?W = "link_cost n adj"
  have a: "arrays_ok n ?t" using t by (simp add: arrays_ok_def)
  have f: "arrays_ok n t'" "sr_parent t' = [0..<n]" "\<And>w. far n k w \<Longrightarrow> sr_hopcnt t' ! w = ?W k w"
    "\<And>i j. i < n \<Longrightarrow> j < n \<Longrightarrow> sr_route t' ! INDEX i j n = (if i = k \<and> j \<noteq> 0 \<and> j \<noteq> k \<and> ?W k j \<noteq> RT_INFINITY
       then \<lparr>re_next_hop = j, re_entry = ae_entry (adj ! INDEX k j n)\<rparr> else sr_route t ! INDEX i j n)"
    using route_neighbours_fold [OF _ _ a k(2), of "[1..<n]" adj] k by (auto simp: t'_def far_def)
  have "estimates n ?W k t'" unfolding estimates_def
  proof (intro allI impI)
    fix w assume w: "far n k w"
    then have w': "0 < w" "w < n" "w \<noteq> k" "?W k w \<le> RT_INFINITY" using c k by (auto simp: far_def costs_ok_def)
    then show "sr_hopcnt t' ! w \<le> RT_INFINITY \<and> (if sr_hopcnt t' ! w < RT_INFINITY
        then trip ?W n k (first_hop n k (sr_route t') w) w (sr_hopcnt t' ! w) else first_hop n k (sr_route t') w = 0)"
      using f(3) [OF w] f(4) [OF k(2) w'(2)] z [OF w] trip.link [OF w'(1,2), of ?W k] by (auto simp: first_hop_def)
  qed
  then show "settled n ?W k t'" using f(1-3) k by (auto simp: settled_def far_def)
  have "unknown n k t' \<subseteq> {1..<n}" by (auto simp: unknown_def far_def)
  from card_mono [OF _ this] show "card (unknown n k t') \<le> n - 1" by simp
  show "sr_route t' ! INDEX i j n = sr_route t ! INDEX i j n" if "i < n" "j < n" "i \<noteq> k" for i j
    using f(4) [OF that(1,2)] that(3) by simp
qed

section \<open>All routes\<close>

text \<open>The next hop is the first of a shortest path, if there is one of less than the infinite cost.\<close>

definition best_hop :: "(nat \<Rightarrow> nat \<Rightarrow> real) \<Rightarrow> nat \<Rightarrow> nat \<Rightarrow> nat \<Rightarrow> nat \<Rightarrow> bool" where
  "best_hop W n k v h \<longleftrightarrow>
     (if h = 0 then \<forall>h c. trip W n k h v c \<longrightarrow> RT_INFINITY \<le> c
      else \<exists>c<RT_INFINITY. trip W n k h v c \<and> (\<forall>h' c'. trip W n k h' v c' \<longrightarrow> c \<le> c'))"

lemma settled_best:
  assumes t: "settled n W k t" "exhausted n k t" "costs_ok W n" and k: "0 < k" "k < n" and v: "far n k v"
  shows "best_hop W n k v (first_hop n k (sr_route t) v)"
proof -
  have e: "sr_hopcnt t ! v \<le> RT_INFINITY" "if sr_hopcnt t ! v < RT_INFINITY
      then trip W n k (first_hop n k (sr_route t) v) v (sr_hopcnt t ! v) else first_hop n k (sr_route t) v = 0"
    using t(1) v by (auto simp: settled_def estimates_def)
  have least: "min RT_INFINITY (sr_hopcnt t ! v) \<le> c" if tr: "trip W n k h v c" for h c
  proof (cases "sr_parent t ! v = k")
    case True
    with t(1) v tr have "sr_hopcnt t ! v \<le> c" unfolding settled_def by blast
    then show ?thesis by simp
  next
    case False
    from unsettled_trip [OF t(1,3) k(2,1) tr _ False] v obtain y where "far n k y" "sr_parent t ! y \<noteq> k" "sr_hopcnt t ! y \<le> c"
      by (auto simp: far_def)
    with t(2) have "RT_INFINITY \<le> c" by (force simp: exhausted_def unknown_def)
    then show ?thesis by simp
  qed
  show ?thesis
  proof (cases "sr_hopcnt t ! v < RT_INFINITY")
    case True
    with e(2) have "trip W n k (first_hop n k (sr_route t) v) v (sr_hopcnt t ! v)" by simp
    with trip_nodes [OF this] least True show ?thesis by (force simp: best_hop_def)
  next
    case False
    with e least show ?thesis by (force simp: best_hop_def)
  qed
qed

definition rows_done :: "nat \<Rightarrow> adj_entry list \<Rightarrow> nat \<Rightarrow> search \<Rightarrow> bool" where
  "rows_done n adj m t \<longleftrightarrow> arrays_ok n t \<and>
     (\<forall>k v. 0 < k \<and> k < n \<and> far n k v \<longrightarrow>
        (if k < m then best_hop (link_cost n adj) n k v (first_hop n k (sr_route t) v) else first_hop n k (sr_route t) v = 0))"

lemma route_source_done:
  assumes c: "costs_ok (link_cost n adj) n" and m: "0 < m" "m < n" and t: "rows_done n adj m t"
  shows "rows_done n adj (Suc m) (route_source n adj m t)"
proof -
  let ?W = "link_cost n adj" and ?t = "route_source n adj m t"
  define u where "u = fold (route_neighbour n adj m) [1..<n] (t\<lparr>sr_parent := [0..<n]\<rparr>)"
  have a: "arrays_ok n t" and z: "\<And>w. far n m w \<Longrightarrow> first_hop n m (sr_route t) w = 0"
    using t m by (auto simp: rows_done_def)
  note u = route_start [OF c m a, folded u_def]
  have "?t = fold (\<lambda>v. route_step n adj m) [1..<n] u" by (simp add: route_source_def u_def)
  with route_steps [OF c m u(1) [OF z], of "[1..<n]"] u(2) [OF z] have
    f: "settled n ?W m ?t" "exhausted n m ?t"
      "\<And>i j. i < n \<Longrightarrow> j < n \<Longrightarrow> i \<noteq> m \<Longrightarrow> sr_route ?t ! INDEX i j n = sr_route u ! INDEX i j n"
    by (simp_all add: Let_def)
  have "first_hop n k (sr_route ?t) v = first_hop n k (sr_route t) v" if "k < n" "v < n" "k \<noteq> m" for k v
    using f(3) [OF that] u(3) [OF z that] by (simp add: first_hop_def)
  with t settled_best [OF f(1,2) c m] f(1) m show ?thesis
    by (auto simp: rows_done_def settled_def far_def less_Suc_eq)
qed

lemma route_sources_done:
  assumes c: "costs_ok (link_cost n adj) n"
  shows "m \<le> n \<Longrightarrow> 0 < m \<Longrightarrow> rows_done n adj 1 t \<Longrightarrow> rows_done n adj m (fold (route_source n adj) [1..<m] t)"
proof (induction m)
  case (Suc m)
  show ?case
  proof (cases "m = 0")
    case False
    with Suc route_source_done [OF c, of m] show ?thesis by simp
  qed (use Suc in simp)
qed simp

lemma route_self_fold:
  "\<lbrakk>set xs \<subseteq> {1..<n}; length r = n * n; k < n; v < n\<rbrakk> \<Longrightarrow>
   fold (\<lambda>k r. r[INDEX k k n := \<lparr>re_next_hop = k, re_entry = None\<rparr>]) xs r ! INDEX k v n =
     (if k = v \<and> k \<in> set xs then \<lparr>re_next_hop = k, re_entry = None\<rparr> else r ! INDEX k v n)"
proof (induction xs arbitrary: r)
  case (Cons x xs)
  then have "x < n" by auto
  with Cons show ?case by (auto simp: nth_list_update INDEX_eq INDEX_less)
qed simp

lemma route_self_length: "length (route_self n r) = length r"
proof -
  have "length (fold (\<lambda>k r. r[INDEX k k n := \<lparr>re_next_hop = k, re_entry = None\<rparr>]) xs r) = length r" for xs
    by (induction xs arbitrary: r) auto
  then show ?thesis by (simp add: route_self_def)
qed

text \<open>Every next hop of \<open>compute_routes\<close> is the best.\<close>

lemma all_routes_best:
  assumes c: "costs_ok (link_cost n adj) n" and k: "0 < k" "k < n" and v: "0 < v" "v < n"
  shows "if k = v then first_hop n k (all_routes n adj) v = v else best_hop (link_cost n adj) n k v (first_hop n k (all_routes n adj) v)"
proof -
  let ?t = "\<lparr>sr_route = replicate (n * n) \<lparr>re_next_hop = 0, re_entry = None\<rparr>, sr_hopcnt = replicate n 0, sr_parent = replicate n 0\<rparr>"
  have "rows_done n adj 1 ?t" by (auto simp: rows_done_def arrays_ok_def first_hop_def far_def INDEX_less)
  from route_sources_done [OF c _ _ this, of n] k have d: "rows_done n adj n (fold (route_source n adj) [1..<n] ?t)" by simp
  then have "length (sr_route (fold (route_source n adj) [1..<n] ?t)) = n * n" by (simp add: rows_done_def arrays_ok_def)
  from route_self_fold [OF _ this k(2) v(2), of "[1..<n]"] k d v show ?thesis
    by (auto simp: all_routes_def route_self_def first_hop_def rows_done_def far_def)
qed

lemma all_routes_length:
  assumes "costs_ok (link_cost n adj) n"
  shows "length (all_routes n adj) = n * n"
proof (cases "n = 0")
  case False
  let ?t = "\<lparr>sr_route = replicate (n * n) \<lparr>re_next_hop = 0, re_entry = None\<rparr>, sr_hopcnt = replicate n 0, sr_parent = replicate n 0\<rparr>"
  have "rows_done n adj 1 ?t" by (auto simp: rows_done_def arrays_ok_def first_hop_def far_def INDEX_less)
  from route_sources_done [OF assms _ _ this, of n] False show ?thesis
    by (simp add: rows_done_def arrays_ok_def all_routes_def route_self_length)
qed (simp add: all_routes_def route_self_def)

end
