(* ===== verification/RouteProps.thy ===== *)
theory RouteProps
  imports RouteShortest
begin

text \<open>
  The routes as their users see them: the links that have been inserted, the answers of
  \<open>lookup_flat\<close>, and the way of a packet that is handed on from node to node.
\<close>

section \<open>Links\<close>

definition rl_ok :: "route_logic \<Rightarrow> bool" where
  "rl_ok s \<longleftrightarrow> length (rl_adj s) = rl_size s * rl_size s"

definition cost_of :: "route_logic \<Rightarrow> nat \<Rightarrow> nat \<Rightarrow> real" where
  "cost_of s i j = (if i < rl_size s \<and> j < rl_size s then link_cost (rl_size s) (rl_adj s) i j else RT_INFINITY)"

lemma grow_size_less: "0 < m \<Longrightarrow> n < grow_size n m \<and> m \<le> grow_size n m"
proof (induction n m rule: grow_size.induct)
  case (1 n m)
  then show ?case by (subst (1 2) grow_size.simps) auto
qed

lemma copy_row:
  fixes old :: "adj_entry list"
  assumes "set js \<subseteq> {0..<n}" "n \<le> m" "i < n" "length a = m * m"
  defines "f \<equiv> \<lambda>j a. a[INDEX i j m := (a ! INDEX i j m)\<lparr>ae_cost := ae_cost (old ! INDEX i j n)\<rparr>]"
  shows "length (fold f js a) = m * m \<and> (\<forall>i'<m. \<forall>j<m. fold f js a ! INDEX i' j m =
    (if i' = i \<and> j \<in> set js then (a ! INDEX i' j m)\<lparr>ae_cost := ae_cost (old ! INDEX i' j n)\<rparr> else a ! INDEX i' j m))"
  using assms(1,4)
proof (induction js arbitrary: a)
  case (Cons j js)
  have j: "j < m" "i < m" using Cons.prems assms(2,3) by auto
  have f: "length (f j a) = m * m" "\<And>i' j'. i' < m \<Longrightarrow> j' < m \<Longrightarrow> f j a ! INDEX i' j' m =
    (if i' = i \<and> j' = j then (a ! INDEX i' j' m)\<lparr>ae_cost := ae_cost (old ! INDEX i' j' n)\<rparr> else a ! INDEX i' j' m)"
    using Cons.prems j by (auto simp: f_def nth_list_update INDEX_eq INDEX_less)
  from Cons.IH [OF _ f(1)] Cons.prems(1) f show ?case by auto
qed simp

lemma copy_costs_nth:
  assumes "n \<le> m" "length a = m * m"
  shows "length (copy_costs n old m a) = m * m" "\<And>i j. i < m \<Longrightarrow> j < m \<Longrightarrow> copy_costs n old m a ! INDEX i j m =
    (if i < n \<and> j < n then (a ! INDEX i j m)\<lparr>ae_cost := ae_cost (old ! INDEX i j n)\<rparr> else a ! INDEX i j m)"
proof -
  let ?f = "\<lambda>i. fold (\<lambda>j a. a[INDEX i j m := (a ! INDEX i j m)\<lparr>ae_cost := ae_cost (old ! INDEX i j n)\<rparr>]) [0..<n]"
  have "set is \<subseteq> {0..<n} \<Longrightarrow> distinct is \<Longrightarrow> length a = m * m \<Longrightarrow> length (fold ?f is a) = m * m \<and> (\<forall>i<m. \<forall>j<m. fold ?f is a ! INDEX i j m =
    (if i \<in> set is \<and> j < n then (a ! INDEX i j m)\<lparr>ae_cost := ae_cost (old ! INDEX i j n)\<rparr> else a ! INDEX i j m))" for "is" a
  proof (induction "is" arbitrary: a)
    case (Cons k ks)
    have f: "length (?f k a) = m * m" "\<And>i j. i < m \<Longrightarrow> j < m \<Longrightarrow> ?f k a ! INDEX i j m =
      (if i = k \<and> j < n then (a ! INDEX i j m)\<lparr>ae_cost := ae_cost (old ! INDEX i j n)\<rparr> else a ! INDEX i j m)"
      using copy_row [of "[0..<n]" n m k a] Cons.prems assms(1) by auto
    from Cons.IH [OF _ _ f(1)] Cons.prems(1,2) f(2) show ?case by auto
  qed simp
  from this [of "[0..<n]" a] assms(2)
  show "length (copy_costs n old m a) = m * m" "\<And>i j. i < m \<Longrightarrow> j < m \<Longrightarrow> copy_costs n old m a ! INDEX i j m =
    (if i < n \<and> j < n then (a ! INDEX i j m)\<lparr>ae_cost := ae_cost (old ! INDEX i j n)\<rparr> else a ! INDEX i j m)"
    by (simp_all add: copy_costs_def)
qed

lemma rl_check_ok:
  assumes "rl_ok s"
  shows "rl_ok (rl_check n s)" "cost_of (rl_check n s) = cost_of s" "n < rl_size (rl_check n s)" "rl_size s \<le> rl_size (rl_check n s)"
    "rl_route (rl_check n s) = rl_route s"
proof -
  let ?m = "grow_size n (if rl_size s = 0 then 16 else rl_size s)" and ?e = "\<lparr>ae_cost = RT_INFINITY, ae_entry = None\<rparr>"
  have m: "n < ?m" "rl_size s \<le> ?m" using grow_size_less [of "if rl_size s = 0 then 16 else rl_size s" n] by auto
  have "length (replicate (?m * ?m) ?e) = ?m * ?m" by simp
  note c = copy_costs_nth [where old = "rl_adj s", OF m(2) this]
  show "rl_ok (rl_check n s)" "n < rl_size (rl_check n s)" "rl_size s \<le> rl_size (rl_check n s)" "rl_route (rl_check n s) = rl_route s"
    using assms c(1) m by (auto simp: rl_check_def rl_alloc_def rl_ok_def Let_def)
  show "cost_of (rl_check n s) = cost_of s"
  proof (cases "n < rl_size s")
    case False
    have "cost_of (rl_check n s) i j = cost_of s i j" for i j
      using c(2) [of i j] m False by (auto simp: rl_check_def rl_alloc_def cost_of_def Let_def link_cost_def INDEX_less)
    then show ?thesis by blast
  qed (simp add: rl_check_def)
qed

definition set_cost :: "nat \<Rightarrow> nat \<Rightarrow> real \<Rightarrow> (nat \<Rightarrow> nat \<Rightarrow> real) \<Rightarrow> nat \<Rightarrow> nat \<Rightarrow> real" where
  "set_cost a b c W = W(a := (W a)(b := c))"

lemma rl_write_ok:
  assumes "rl_ok s" "a < rl_size s" "b < rl_size s" "ae_cost e = c"
  defines "t \<equiv> s\<lparr>rl_adj := (rl_adj s)[INDEX a b (rl_size s) := e]\<rparr>"
  shows "rl_ok t" "cost_of t = set_cost a b c (cost_of s)"
proof -
  show "rl_ok t" using assms(1) by (simp add: t_def rl_ok_def)
  have "cost_of t i j = set_cost a b c (cost_of s) i j" for i j
    using assms(1-4) by (auto simp: t_def cost_of_def set_cost_def link_cost_def rl_ok_def nth_list_update INDEX_eq INDEX_less)
  then show "cost_of t = set_cost a b c (cost_of s)" by blast
qed

lemma rl_insert_ok:
  assumes "rl_ok s"
  shows "rl_ok (rl_insert a b c s)" "cost_of (rl_insert a b c s) = set_cost a b c (cost_of s)"
    "rl_ok (rl_insert_entry a b c e s)" "cost_of (rl_insert_entry a b c e s) = set_cost a b c (cost_of s)"
    "rl_route (rl_insert a b c s) = rl_route s"
    "rl_size s \<le> rl_size (rl_insert a b c s)" "a < rl_size (rl_insert a b c s)" "b < rl_size (rl_insert a b c s)"
proof -
  let ?u = "rl_check b (rl_check a s)"
  note u = rl_check_ok [OF rl_check_ok(1) [OF assms, of a], of b] and v = rl_check_ok [OF assms, of a]
  have l: "a < rl_size ?u" "b < rl_size ?u" using u(3,4) v(3) by simp_all
  note w = rl_write_ok [OF u(1) l]
  show "rl_ok (rl_insert a b c s)" "cost_of (rl_insert a b c s) = set_cost a b c (cost_of s)"
    using w u(2) v(2) by (simp_all add: rl_insert_def Let_def)
  show "rl_ok (rl_insert_entry a b c e s)" "cost_of (rl_insert_entry a b c e s) = set_cost a b c (cost_of s)"
    using w u(2) v(2) by (simp_all add: rl_insert_entry_def Let_def)
  show "rl_route (rl_insert a b c s) = rl_route s" "rl_size s \<le> rl_size (rl_insert a b c s)" "a < rl_size (rl_insert a b c s)"
    "b < rl_size (rl_insert a b c s)" using u(4,5) v(4,5) l by (simp_all add: rl_insert_def Let_def)
qed

text \<open>What Tcl does with the links.\<close>

datatype link_op = Link nat nat real | LinkEntry nat nat real "nat option" | Unlink nat nat

fun link_op_do :: "link_op \<Rightarrow> route_logic \<Rightarrow> route_logic option" where
  "link_op_do (Link a b c) s = Some (rl_insert a b c s)"
| "link_op_do (LinkEntry a b c e) s = Some (rl_insert_entry a b c e s)"
| "link_op_do (Unlink a b) s = rl_reset a b s"

fun link_ops :: "link_op list \<Rightarrow> route_logic \<Rightarrow> route_logic option" where
  "link_ops [] s = Some s"
| "link_ops (p # ps) s = (case link_op_do p s of None \<Rightarrow> None | Some s \<Rightarrow> link_ops ps s)"

fun op_cost :: "link_op \<Rightarrow> (nat \<Rightarrow> nat \<Rightarrow> real) \<Rightarrow> nat \<Rightarrow> nat \<Rightarrow> real" where
  "op_cost (Link a b c) W = set_cost a b c W"
| "op_cost (LinkEntry a b c e) W = set_cost a b c W"
| "op_cost (Unlink a b) W = set_cost a b RT_INFINITY W"

lemma link_op_refines:
  assumes "rl_ok s" "link_op_do p s = Some t"
  shows "rl_ok t \<and> cost_of t = op_cost p (cost_of s)"
  using assms rl_insert_ok [OF assms(1)] rl_write_ok [OF assms(1)]
  by (cases p) (auto simp: rl_reset_def Let_def split: if_splits)

lemma link_ops_refine:
  "rl_ok s \<Longrightarrow> link_ops ps s = Some t \<Longrightarrow> rl_ok t \<and> cost_of t = fold op_cost ps (cost_of s)"
proof (induction ps arbitrary: s)
  case (Cons p ps)
  then obtain u where u: "link_op_do p s = Some u" "link_ops ps u = Some t" by (auto split: option.splits)
  from Cons.IH [OF _ u(2)] link_op_refines [OF Cons.prems(1) u(1)] show ?case by simp
qed simp

lemma rl_new_ok: "rl_ok rl_new" "cost_of rl_new = (\<lambda>i j. RT_INFINITY)"
  by (auto simp: rl_ok_def rl_new_def cost_of_def fun_eq_iff)

section \<open>Answers\<close>

lemma trip_cong:
  assumes "\<And>i j. i < n \<Longrightarrow> j < n \<Longrightarrow> W i j = V i j" "k < n"
  shows "trip W n k h w c = trip V n k h w c"
proof -
  have "trip W n k h w c \<Longrightarrow> (\<And>i j. i < n \<Longrightarrow> j < n \<Longrightarrow> W i j = V i j) \<Longrightarrow> trip V n k h w c" for W V :: "nat \<Rightarrow> nat \<Rightarrow> real"
  proof (induction rule: trip.induct)
    case (link v)
    then show ?case using trip.link [of v n V k] assms(2) by simp
  next
    case (hop h x c w)
    then show ?case using trip.hop [of V n k h x c w] trip_nodes [OF hop(1)] by simp
  qed
  from this [of W V] this [of V W] assms(1) show ?thesis by auto
qed

lemma best_hop_cong:
  assumes "\<And>i j. i < n \<Longrightarrow> j < n \<Longrightarrow> W i j = V i j" "k < n"
  shows "best_hop W n k v h = best_hop V n k v h"
proof -
  have "trip W n k h w c = trip V n k h w c" for h w c by (rule trip_cong [OF assms])
  then show ?thesis by (simp add: best_hop_def)
qed

definition priced :: "route_logic \<Rightarrow> bool" where
  "priced s \<longleftrightarrow> rl_ok s \<and> costs_ok (cost_of s) (rl_size s)"

lemma priced_costs: "priced s \<Longrightarrow> costs_ok (link_cost (rl_size s) (rl_adj s)) (rl_size s)"
  by (simp add: priced_def costs_ok_def cost_of_def)

text \<open>The next hop towards \<open>v\<close> that \<open>lookup_flat\<close> reports at \<open>k\<close>, in the numbering from 1.\<close>

definition next_hop :: "route_logic \<Rightarrow> nat \<Rightarrow> nat \<Rightarrow> nat option" where
  "next_hop s k v = (case lookup_flat (int k - 1) (int v - 1) s of
     Some (NextHop h) \<Rightarrow> if 0 \<le> h then Some (nat h + 1) else None | _ \<Rightarrow> None)"

lemma lookup_flat_computed:
  assumes s: "priced s" and k: "0 < k" "k < rl_size s" "0 < v" "v < rl_size s"
  shows "\<exists>h. lookup_flat (int k - 1) (int v - 1) (compute_routes s) = Some (NextHop (int h - 1)) \<and>
    (if k = v then h = v else best_hop (cost_of s) (rl_size s) k v h)"
proof -
  let ?n = "rl_size s" and ?r = "all_routes (rl_size s) (rl_adj s)"
  have c: "costs_ok (link_cost ?n (rl_adj s)) ?n" using priced_costs [OF s] .
  have l: "length ?r = ?n * ?n" by (rule all_routes_length [OF c])
  have ne: "?r \<noteq> []" using l k by (auto simp: dest: arg_cong [of _ _ length])
  have b: "best_hop (cost_of s) ?n k v (first_hop ?n k ?r v)" if "k \<noteq> v"
  proof -
    have "best_hop (link_cost ?n (rl_adj s)) ?n k v h = best_hop (cost_of s) ?n k v h" for h
      by (rule best_hop_cong) (use k in \<open>auto simp: cost_of_def\<close>)
    with all_routes_best [OF c k] that show ?thesis by simp
  qed
  have e: "int ?n * int k + int v = int (INDEX k v ?n)" by (simp add: INDEX_def)
  have "lookup_flat (int k - 1) (int v - 1) (compute_routes s) = Some (NextHop (int (first_hop ?n k ?r v) - 1))"
    using k INDEX_less [OF k(2,4)] by (simp add: lookup_flat_def compute_routes_def l ne e first_hop_def Let_def)
  with b all_routes_best [OF c k] show ?thesis by (cases "k = v") auto
qed

lemma next_hop_best:
  assumes "priced s" "0 < k" "k < rl_size s" "0 < v" "v < rl_size s" "k \<noteq> v"
  shows "case next_hop (compute_routes s) k v of
      None \<Rightarrow> \<forall>h c. trip (cost_of s) (rl_size s) k h v c \<longrightarrow> RT_INFINITY \<le> c
    | Some h \<Rightarrow> \<exists>c<RT_INFINITY. trip (cost_of s) (rl_size s) k h v c \<and> (\<forall>h' c'. trip (cost_of s) (rl_size s) k h' v c' \<longrightarrow> c \<le> c')"
proof -
  from lookup_flat_computed [OF assms(1-5)] assms(6) obtain h where
    h: "lookup_flat (int k - 1) (int v - 1) (compute_routes s) = Some (NextHop (int h - 1))" "best_hop (cost_of s) (rl_size s) k v h" by auto
  show ?thesis
  proof (cases "h = 0")
    case True
    with h show ?thesis by (auto simp: next_hop_def best_hop_def)
  next
    case False
    then have "next_hop (compute_routes s) k v = Some h" using h(1) by (simp add: next_hop_def)
    with h(2) False show ?thesis by (auto simp: best_hop_def)
  qed
qed

section \<open>The way of a packet\<close>

lemma trip_tail:
  "trip W n k h w c \<Longrightarrow> h = w \<and> c = W k w \<or> (\<exists>h'. trip W n h h' w (c - W k h))"
proof (induction rule: trip.induct)
  case (hop h x c w)
  from hop.IH show ?case
  proof
    assume "h = x \<and> c = W k x"
    with trip.link [OF hop(2,3), of W x] hop(4) have "trip W n h w w (c + W x w - W k h)" by simp
    then show ?thesis by blast
  next
    assume "\<exists>h'. trip W n h h' x (c - W k h)"
    then obtain h' where "trip W n h h' x (c - W k h)" by blast
    from trip.hop [OF this hop(2-4)] have "trip W n h h' w (c + W x w - W k h)" by (simp add: algebra_simps)
    then show ?thesis by blast
  qed
qed simp

lemma trip_cons:
  assumes "0 < h" "h < n" "W k h < RT_INFINITY"
  shows "trip W n h h' w c \<Longrightarrow> trip W n k h w (W k h + c)"
proof (induction rule: trip.induct)
  case (link v)
  then show ?case using trip.hop [OF trip.link [of h n W k, OF assms]] by blast
next
  case (hop h' x c w)
  from trip.hop [OF hop.IH hop(2-4)] show ?case by (simp add: algebra_simps)
qed

lemma trip_first: "trip W n k h w c \<Longrightarrow> W k h < RT_INFINITY"
  by (induction rule: trip.induct) auto

text \<open>The distance of \<open>v\<close> from \<open>k\<close>.\<close>

definition dist_to :: "(nat \<Rightarrow> nat \<Rightarrow> real) \<Rightarrow> nat \<Rightarrow> nat \<Rightarrow> nat \<Rightarrow> real \<Rightarrow> bool" where
  "dist_to W n v k d \<longleftrightarrow> (if k = v then d = 0
     else (\<exists>h. trip W n k h v d) \<and> (\<forall>h c. trip W n k h v c \<longrightarrow> d \<le> c)) \<and> d < RT_INFINITY"

lemma dist_to_unique: "dist_to W n v k d \<Longrightarrow> dist_to W n v k e \<Longrightarrow> d = e"
  by (cases "k = v") (auto simp: dist_to_def intro!: order_antisym)

text \<open>All costs are positive, and the next hops are the best.\<close>

definition hops_best :: "(nat \<Rightarrow> nat \<Rightarrow> real) \<Rightarrow> nat \<Rightarrow> nat \<Rightarrow> (nat \<Rightarrow> nat option) \<Rightarrow> bool" where
  "hops_best W n v f \<longleftrightarrow> 0 < v \<and> v < n \<and> (\<forall>i<n. \<forall>j<n. 0 < W i j) \<and> (\<forall>k. far n v k \<longrightarrow> (case f k of
      None \<Rightarrow> \<forall>h c. trip W n k h v c \<longrightarrow> RT_INFINITY \<le> c
    | Some h \<Rightarrow> \<exists>c<RT_INFINITY. trip W n k h v c \<and> (\<forall>h' c'. trip W n k h' v c' \<longrightarrow> c \<le> c')))"

lemma trip_positive: "trip W n k h w c \<Longrightarrow> k < n \<Longrightarrow> (\<forall>i<n. \<forall>j<n. 0 < W i j) \<Longrightarrow> 0 < c"
proof (induction rule: trip.induct)
  case (hop h x c w)
  then have "0 < c" "0 < W x w" using trip_nodes [OF hop(1)] by auto
  then show ?case by simp
qed simp

lemma next_closer:
  assumes f: "hops_best W n v f" and k: "far n v k" "dist_to W n v k d"
  shows "\<exists>h e. f k = Some h \<and> 0 < h \<and> h < n \<and> dist_to W n v h e \<and> d = W k h + e \<and> e < d"
proof -
  have v: "0 < v" "v < n" and W: "\<And>i j. i < n \<Longrightarrow> j < n \<Longrightarrow> 0 < W i j" using f by (auto simp: hops_best_def)
  have kn: "k < n" "k \<noteq> v" using k(1) by (simp_all add: far_def)
  from k kn obtain h0 where "trip W n k h0 v d" and least: "\<And>h c. trip W n k h v c \<Longrightarrow> d \<le> c" and d: "d < RT_INFINITY"
    by (auto simp: dist_to_def)
  with f k(1) have "case f k of None \<Rightarrow> \<forall>h c. trip W n k h v c \<longrightarrow> RT_INFINITY \<le> c
    | Some h \<Rightarrow> \<exists>c<RT_INFINITY. trip W n k h v c \<and> (\<forall>h' c'. trip W n k h' v c' \<longrightarrow> c \<le> c')"
    by (simp add: hops_best_def)
  with \<open>trip W n k h0 v d\<close> d obtain h c where h: "f k = Some h" "trip W n k h v c" "\<And>h' c'. trip W n k h' v c' \<Longrightarrow> c \<le> c'"
    by (fastforce split: option.splits)
  with least [OF h(2)] \<open>trip W n k h0 v d\<close> have c: "c = d" by (meson order_antisym)
  have hn: "0 < h" "h < n" and l: "W k h < RT_INFINITY" using trip_nodes [OF h(2)] trip_first [OF h(2)] by auto
  have pos: "0 < W k h" using W kn(1) hn(2) by blast
  have "dist_to W n v h (d - W k h)"
  proof (cases "h = v")
    case True
    have "d \<le> W k v" using least [OF trip.link [of v n W k, OF v l [unfolded True]]] .
    moreover have "\<not> trip W n h h' v (d - W k h)" for h'
      using trip_positive [of W n h h' v "d - W k h"] hn W True \<open>d \<le> W k v\<close> by force
    ultimately show ?thesis using trip_tail [OF h(2)] True c by (auto simp: dist_to_def RT_INFINITY_def)
  next
    case False
    with trip_tail [OF h(2)] c obtain h' where t: "trip W n h h' v (d - W k h)" by blast
    have "d - W k h \<le> e" if "trip W n h h'' v e" for h'' e
      using least [OF trip_cons [OF hn l that]] by simp
    with t False d pos show ?thesis by (auto simp: dist_to_def)
  qed
  with h(1) hn pos show ?thesis by force
qed

text \<open>The nodes that a packet visits; \<open>m\<close> bounds the number of links it takes.\<close>

fun way :: "nat \<Rightarrow> (nat \<Rightarrow> nat option) \<Rightarrow> nat \<Rightarrow> nat \<Rightarrow> nat list option" where
  "way 0 f v k = (if k = v then Some [v] else None)"
| "way (Suc m) f v k = (if k = v then Some [v] else
     (case f k of None \<Rightarrow> None | Some h \<Rightarrow> map_option ((#) k) (way m f v h)))"

fun way_cost :: "(nat \<Rightarrow> nat \<Rightarrow> real) \<Rightarrow> nat list \<Rightarrow> real" where
  "way_cost W (x # y # p) = W x y + way_cost W (y # p)"
| "way_cost W p = 0"

definition closer :: "(nat \<Rightarrow> nat \<Rightarrow> real) \<Rightarrow> nat \<Rightarrow> nat \<Rightarrow> real \<Rightarrow> nat set" where
  "closer W n v d = {y. 0 < y \<and> y < n \<and> (\<exists>e<d. dist_to W n v y e)}"

lemma way_best:
  assumes f: "hops_best W n v f"
  shows "0 < k \<Longrightarrow> k < n \<Longrightarrow> dist_to W n v k d \<Longrightarrow> card (closer W n v d) \<le> m \<Longrightarrow>
    \<exists>p. way m f v k = Some p \<and> hd p = k \<and> p \<noteq> [] \<and> way_cost W p = d \<and> distinct p \<and> (\<forall>y\<in>set p. \<exists>e\<le>d. dist_to W n v y e)"
proof (induction m arbitrary: k d)
  case 0
  show ?case
  proof (cases "k = v")
    case True
    with 0 show ?thesis by (auto simp: dist_to_def)
  next
    case False
    with 0 have "far n v k" by (simp add: far_def)
    from next_closer [OF f this 0(3)] obtain h e where "0 < h" "h < n" "dist_to W n v h e" "e < d" by blast
    then have "h \<in> closer W n v d" by (auto simp: closer_def)
    moreover have "finite (closer W n v d)" by (rule finite_subset [of _ "{0..<n}"]) (auto simp: closer_def)
    ultimately have "0 < card (closer W n v d)" by (auto simp: card_gt_0_iff)
    with 0(4) show ?thesis by simp
  qed
next
  case (Suc m)
  show ?case
  proof (cases "k = v")
    case True
    with Suc show ?thesis by (auto simp: dist_to_def)
  next
    case False
    with Suc have "far n v k" by (simp add: far_def)
    from next_closer [OF f this Suc(4)] obtain h e where
      h: "f k = Some h" "0 < h" "h < n" "dist_to W n v h e" "d = W k h + e" "e < d" by blast
    have fin: "finite (closer W n v d)" by (rule finite_subset [of _ "{0..<n}"]) (auto simp: closer_def)
    have "h \<in> closer W n v d" using h(2-4,6) by (auto simp: closer_def)
    moreover have "h \<notin> closer W n v e" using dist_to_unique [OF h(4)] by (auto simp: closer_def)
    moreover have "closer W n v e \<subseteq> closer W n v d" using h(6) by (auto simp: closer_def intro: less_trans)
    ultimately have "card (closer W n v e) < card (closer W n v d)" using fin by (intro psubset_card_mono) auto
    with Suc.prems(4) Suc.IH [OF h(2-4)] obtain p where p: "way m f v h = Some p" "hd p = h" "p \<noteq> []" "way_cost W p = e" "distinct p"
      "\<forall>y\<in>set p. \<exists>e'\<le>e. dist_to W n v y e'" by auto
    have "k \<notin> set p" using p(6) dist_to_unique [OF Suc.prems(3)] h(6) by fastforce
    moreover have "way_cost W (k # p) = d" using p(2-4) h(5) by (cases p) auto
    moreover have "\<forall>y\<in>set (k # p). \<exists>e\<le>d. dist_to W n v y e"
    proof
      fix y assume y: "y \<in> set (k # p)"
      show "\<exists>e\<le>d. dist_to W n v y e"
      proof (cases "y = k")
        case False
        with y p(6) obtain e' where "e' \<le> e" "dist_to W n v y e'" by auto
        with h(6) show ?thesis by (intro exI [of _ e']) simp
      qed (use Suc.prems(3) in auto)
    qed
    ultimately show ?thesis using False h(1) p by (intro exI [of _ "k # p"]) auto
  qed
qed

section \<open>Properties\<close>

lemma card_closer: "card (closer W n v d) \<le> n - 1"
proof -
  have "closer W n v d \<subseteq> {1..<n}" by (auto simp: closer_def)
  from card_mono [OF _ this] show ?thesis by simp
qed

lemma priced_ops:
  assumes "link_ops ps rl_new = Some s" "W = fold op_cost ps (\<lambda>i j. RT_INFINITY)" "\<forall>i j. 0 \<le> W i j \<and> W i j \<le> RT_INFINITY"
  shows "priced s" "cost_of s = W"
  using link_ops_refine [OF rl_new_ok(1) assms(1)] assms(2,3) rl_new_ok(2) by (simp_all add: priced_def costs_ok_def)

text \<open>
  C9. After any links have been inserted and removed, the next hop that is looked up is the first of
  a path of least cost over the links as they are then, and there is none only if every path costs as much
  as the infinite cost.
\<close>

theorem routes_shortest:
  assumes "link_ops ps rl_new = Some s" "W = fold op_cost ps (\<lambda>i j. RT_INFINITY)" "\<forall>i j. 0 \<le> W i j \<and> W i j \<le> RT_INFINITY"
    and "0 < k" "k < rl_size s" "0 < v" "v < rl_size s" "k \<noteq> v"
  shows "case next_hop (compute_routes s) k v of
      None \<Rightarrow> \<forall>h c. trip W (rl_size s) k h v c \<longrightarrow> RT_INFINITY \<le> c
    | Some h \<Rightarrow> \<exists>c<RT_INFINITY. trip W (rl_size s) k h v c \<and> (\<forall>h' c'. trip W (rl_size s) k h' v c' \<longrightarrow> c \<le> c')"
  using next_hop_best [OF priced_ops(1) [OF assms(1-3)] assms(4-8)] unfolding priced_ops(2) [OF assms(1-3)] .

text \<open>Two ways from node 1 to node 3, the direct one more expensive.\<close>

definition ex_links :: "link_op list" where
  "ex_links = [Link 1 2 1, Link 2 3 1, Link 1 3 5, Link 1 3 4]"

definition ex_routes :: route_logic where
  "ex_routes = the (link_ops ex_links rl_new)"

lemma ex_routes: "link_ops ex_links rl_new = Some ex_routes" "3 < rl_size ex_routes" "rl_size ex_routes \<le> 16"
  by (simp_all add: ex_routes_def ex_links_def rl_insert_def rl_check_def rl_alloc_def rl_new_def Let_def grow_size.simps)

lemma ex_costs: "\<forall>i j. 0 < fold op_cost ex_links (\<lambda>i j. RT_INFINITY) i j \<and> fold op_cost ex_links (\<lambda>i j. RT_INFINITY) i j \<le> RT_INFINITY"
  by (auto simp: ex_links_def set_cost_def RT_INFINITY_def)

theorem routes_shortest_witness:
  "case next_hop (compute_routes ex_routes) 1 3 of
      None \<Rightarrow> \<forall>h c. trip (fold op_cost ex_links (\<lambda>i j. RT_INFINITY)) (rl_size ex_routes) 1 h 3 c \<longrightarrow> RT_INFINITY \<le> c
    | Some h \<Rightarrow> \<exists>c<RT_INFINITY. trip (fold op_cost ex_links (\<lambda>i j. RT_INFINITY)) (rl_size ex_routes) 1 h 3 c \<and>
        (\<forall>h' c'. trip (fold op_cost ex_links (\<lambda>i j. RT_INFINITY)) (rl_size ex_routes) 1 h' 3 c' \<longrightarrow> c \<le> c')"
  using ex_routes ex_costs by (intro routes_shortest [OF ex_routes(1) refl]) (auto simp: less_imp_le)

text \<open>
  C8. When the costs of the links are positive, a packet that is handed on to the next hop that each node
  looks up reaches its destination, if there is a path at all, without visiting a node
  twice, and over links that cost no more than those of any path.
\<close>

theorem packets_arrive:
  assumes "link_ops ps rl_new = Some s" "W = fold op_cost ps (\<lambda>i j. RT_INFINITY)" "\<forall>i j. 0 < W i j \<and> W i j \<le> RT_INFINITY"
    and "0 < k" "k < rl_size s" "k \<noteq> v" "trip W (rl_size s) k h v c" "c < RT_INFINITY"
  shows "\<exists>p. way (rl_size s) (\<lambda>i. next_hop (compute_routes s) i v) v k = Some p \<and> distinct p \<and>
    (\<forall>h c. trip W (rl_size s) k h v c \<longrightarrow> way_cost W p \<le> c)"
proof -
  let ?n = "rl_size s" and ?f = "\<lambda>i. next_hop (compute_routes s) i v"
  have W: "\<forall>i j. 0 \<le> W i j \<and> W i j \<le> RT_INFINITY" using assms(3) by (simp add: less_imp_le)
  note pr = priced_ops [OF assms(1,2) W]
  have v: "0 < v" "v < ?n" using trip_nodes [OF assms(7)] by simp_all
  have f: "hops_best W ?n v ?f" using next_hop_best [OF pr(1) _ _ v, unfolded pr(2)] v assms(3) by (simp add: hops_best_def far_def)
  have "far ?n v k" using assms(4-6) by (simp add: far_def)
  with f have "case ?f k of None \<Rightarrow> \<forall>h c. trip W ?n k h v c \<longrightarrow> RT_INFINITY \<le> c
    | Some h \<Rightarrow> \<exists>c<RT_INFINITY. trip W ?n k h v c \<and> (\<forall>h' c'. trip W ?n k h' v c' \<longrightarrow> c \<le> c')" by (simp add: hops_best_def)
  then obtain d where d: "dist_to W ?n v k d" using assms(6-8) by (fastforce simp: dist_to_def split: option.splits)
  have "card (closer W ?n v d) \<le> ?n" using card_closer [of W ?n v d] by simp
  from way_best [OF f assms(4,5) d this] obtain p where "way ?n ?f v k = Some p" "way_cost W p = d" "distinct p" by blast
  with d assms(6) show ?thesis by (auto simp: dist_to_def)
qed

theorem packets_arrive_witness:
  "\<exists>p. way (rl_size ex_routes) (\<lambda>i. next_hop (compute_routes ex_routes) i 3) 3 1 = Some p \<and> distinct p \<and>
    (\<forall>h c. trip (fold op_cost ex_links (\<lambda>i j. RT_INFINITY)) (rl_size ex_routes) 1 h 3 c \<longrightarrow>
      way_cost (fold op_cost ex_links (\<lambda>i j. RT_INFINITY)) p \<le> c)"
proof -
  let ?W = "fold op_cost ex_links (\<lambda>i j. RT_INFINITY)"
  have "?W 1 3 = 4" by (simp add: ex_links_def set_cost_def)
  with trip.link [of 3 "rl_size ex_routes" ?W 1] ex_routes(2) have "trip ?W (rl_size ex_routes) 1 3 3 4" by (simp add: RT_INFINITY_def)
  from packets_arrive [OF ex_routes(1) refl ex_costs _ _ _ this] ex_routes(2) show ?thesis by (simp add: RT_INFINITY_def)
qed

text \<open>
  A node that is added when routes have been computed makes the array of links grow, and not that of the
  routes: until they are computed anew, looking up a route from a node in the upper half
  reads outside of the array.
\<close>

theorem lookup_after_growth:
  assumes "priced s" "0 < rl_size s" "rl_size s \<le> src \<or> rl_size s \<le> dst" "0 \<le> sid" "0 \<le> did"
    "int (rl_size s) \<le> 2 * (sid + 1)" "sid + 1 < int (rl_size s)" "did + 1 < int (rl_size s)"
  shows "lookup_flat sid did (compute_routes s) \<noteq> None \<and> lookup_flat sid did (rl_insert src dst c (compute_routes s)) = None"
proof -
  let ?n = "rl_size s" and ?u = "compute_routes s"
  let ?t = "rl_insert src dst c ?u"
  have l: "length (all_routes ?n (rl_adj s)) = ?n * ?n" by (rule all_routes_length [OF priced_costs [OF assms(1)]])
  have u: "rl_ok ?u" "rl_size ?u = ?n" "rl_route ?u = all_routes ?n (rl_adj s)" using assms(1) by (simp_all add: compute_routes_def priced_def rl_ok_def)
  note t = rl_insert_ok(5-8) [OF u(1), of src dst c]
  have ne: "rl_route ?u \<noteq> []" using l u(3) assms(2) by (auto dest: arg_cong [of _ _ length])
  have nodes: "int (nat (sid + 1)) = sid + 1" "int (nat (did + 1)) = did + 1" "nat (sid + 1) < ?n" "nat (did + 1) < ?n" using assms(4-8) by auto
  from lookup_flat_computed [OF assms(1) _ nodes(3) _ nodes(4)] nodes assms(4,5) have
    "lookup_flat sid did ?u \<noteq> None" by (auto simp: nodes)
  moreover have "lookup_flat sid did ?t = None"
  proof -
    have grow: "2 * ?n \<le> grow_size m ?n" if "?n \<le> m" for m
      using grow_size_less [of "2 * ?n" m] that assms(2) by (subst grow_size.simps) simp
    have n: "2 * ?n \<le> rl_size ?t"
    proof (cases "src < ?n")
      case True
      with assms(3) grow [of dst] assms(2) u(2) show ?thesis by (auto simp: rl_insert_def rl_check_def rl_alloc_def Let_def)
    next
      case False
      have "2 * ?n \<le> rl_size (rl_check src ?u)" using False grow [of src] assms(2) u(2) by (auto simp: rl_check_def rl_alloc_def Let_def)
      also have "\<dots> \<le> rl_size (rl_check dst (rl_check src ?u))" using rl_check_ok(4) [OF rl_check_ok(1) [OF u(1)]] .
      finally show ?thesis by (simp add: rl_insert_def Let_def)
    qed
    have "int (?n * ?n) \<le> int (rl_size ?t) * (sid + 1)"
    proof -
      have "int ?n * int ?n \<le> int ?n * (2 * (sid + 1))" using assms(6) by (intro mult_left_mono) auto
      also have "\<dots> = int (2 * ?n) * (sid + 1)" by simp
      also have "\<dots> \<le> int (rl_size ?t) * (sid + 1)" using n assms(4) by (intro mult_right_mono) auto
      finally show ?thesis by simp
    qed
    then have "\<not> nat (int (rl_size ?t) * (sid + 1) + (did + 1)) < ?n * ?n" using assms(4,5) by linarith
    then show ?thesis using n assms(2,7,8) t(1) u(3) l ne by (simp add: lookup_flat_def Let_def)
  qed
  ultimately show ?thesis by simp
qed

theorem lookup_after_growth_witness:
  "lookup_flat 8 1 (compute_routes ex_routes) \<noteq> None \<and> lookup_flat 8 1 (rl_insert 1 20 1 (compute_routes ex_routes)) = None"
proof -
  have "priced ex_routes" using priced_ops(1) [OF ex_routes(1) refl] ex_costs by (auto simp: less_imp_le)
  moreover have "rl_size ex_routes = 16"
    by (simp add: ex_routes_def ex_links_def rl_insert_def rl_check_def rl_alloc_def rl_new_def Let_def grow_size.simps)
  ultimately show ?thesis using lookup_after_growth [of ex_routes 1 20 8 1 1] by simp
qed

end
