(* ===== verification/FlowRing.thy ===== *)
theory FlowRing
  imports QueueBase
begin

text \<open>
  What the fair queues share: buckets with a packet list each, and the ring of the active ones, linked in both directions
  (PacketDRR of queue/drr.cc and PacketSFQ of queue/sfq.cc).  A pointer to a bucket is its
  index in the array.  \<open>ring_ok\<close> says which ring the pointers hold.
\<close>

section \<open>The ring\<close>

record ring_node =
  rn_q :: pqueue
  rn_pkts :: int
  rn_prev :: "nat option"
  rn_next :: "nat option"

definition set_node :: "nat \<Rightarrow> ('a \<Rightarrow> 'a) \<Rightarrow> 'a list \<Rightarrow> 'a list" where
  "set_node i f bs = bs[i := f (bs ! i)]"

text \<open>The buckets and the new head; \<open>None\<close> is a null pointer followed.\<close>

definition ring_activate :: "nat \<Rightarrow> nat option \<Rightarrow> 'a ring_node_scheme list \<Rightarrow> ('a ring_node_scheme list \<times> nat option) option" where
  "ring_activate i head bs = (case head of
     Some h \<Rightarrow>
       (let bs = set_node i (rn_prev_update (\<lambda>_. rn_prev (bs ! h))) bs;
            bs = set_node i (rn_next_update (\<lambda>_. Some h)) bs
        in case rn_prev (bs ! h) of
             None \<Rightarrow> None
           | Some p \<Rightarrow>
               (let bs = set_node p (rn_next_update (\<lambda>_. Some i)) bs;
                    bs = set_node h (rn_prev_update (\<lambda>_. Some i)) bs
                in Some (bs, head)))
   | None \<Rightarrow> Some (set_node i (\<lambda>b. b\<lparr>rn_prev := Some i, rn_next := Some i\<rparr>) bs, Some i))"

text \<open>\<open>next->prev = prev; prev->next = next;\<close>\<close>

definition ring_unlink :: "nat \<Rightarrow> 'a ring_node_scheme list \<Rightarrow> 'a ring_node_scheme list option" where
  "ring_unlink i bs =
     (case (rn_next (bs ! i), rn_prev (bs ! i)) of
        (Some n, Some p) \<Rightarrow>
          (let bs = set_node n (rn_prev_update (\<lambda>_. Some p)) bs
           in Some (set_node p (rn_next_update (\<lambda>_. rn_next (bs ! i))) bs))
      | _ \<Rightarrow> None)"

definition ring_idle :: "nat \<Rightarrow> nat option \<Rightarrow> 'a ring_node_scheme list \<Rightarrow> ('a ring_node_scheme list \<times> nat option) option" where
  "ring_idle i head bs =
     (if head = Some i then
        (if rn_next (bs ! i) = Some i then Some (bs, None)
         else map_option (\<lambda>bs. (bs, rn_next (bs ! i))) (ring_unlink i bs))
      else map_option (\<lambda>bs. (bs, head)) (ring_unlink i bs))"

section \<open>Which ring it is\<close>

fun linked :: "'a ring_node_scheme list \<Rightarrow> nat list \<Rightarrow> bool" where
  "linked bs (a # b # xs) \<longleftrightarrow> rn_next (bs ! a) = Some b \<and> rn_prev (bs ! b) = Some a \<and> linked bs (b # xs)"
| "linked bs xs \<longleftrightarrow> True"

definition ring_ok :: "'a ring_node_scheme list \<Rightarrow> nat option \<Rightarrow> nat list \<Rightarrow> bool" where
  "ring_ok bs head xs \<longleftrightarrow> distinct xs \<and> set xs \<subseteq> {..<length bs} \<and> head = (case xs of [] \<Rightarrow> None | x # _ \<Rightarrow> Some x) \<and>
     linked bs (xs @ take 1 xs)"

lemma linked_append: "linked bs (xs @ y # ys) \<longleftrightarrow> linked bs (xs @ [y]) \<and> linked bs (y # ys)"
  by (induction bs xs rule: linked.induct) auto

lemma linked_snoc:
  "xs \<noteq> [] \<Longrightarrow> linked bs (xs @ [h]) \<longleftrightarrow> linked bs xs \<and> rn_next (bs ! last xs) = Some h \<and> rn_prev (bs ! h) = Some (last xs)"
  by (induction bs xs rule: linked.induct) auto

lemma linked_cong:
  assumes "\<And>a. a \<in> set (butlast xs) \<Longrightarrow> rn_next (bs ! a) = rn_next (cs ! a)" "\<And>a. a \<in> set (tl xs) \<Longrightarrow> rn_prev (bs ! a) = rn_prev (cs ! a)"
  shows "linked bs xs = linked cs xs"
  using assms by (induction bs xs rule: linked.induct) auto

definition cyclic :: "'a ring_node_scheme list \<Rightarrow> nat list \<Rightarrow> bool" where
  "cyclic bs xs \<longleftrightarrow> linked bs (xs @ take 1 xs)"

lemma cyclic_Cons: "cyclic bs (x # xs) \<longleftrightarrow> linked bs (x # xs @ [x])"
  by (simp add: cyclic_def)

lemma cyclic_rotate: "cyclic bs (xs @ ys) \<longleftrightarrow> cyclic bs (ys @ xs)"
proof (cases "xs = [] \<or> ys = []")
  case False
  then obtain x xs' y ys' where e: "xs = x # xs'" "ys = y # ys'" by (auto simp: neq_Nil_conv)
  have "cyclic bs (xs @ ys) \<longleftrightarrow> linked bs (x # xs' @ [y]) \<and> linked bs (y # ys' @ [x])"
    using linked_append [of bs "x # xs'" y "ys' @ [x]"] by (simp add: e cyclic_Cons)
  moreover have "cyclic bs (ys @ xs) \<longleftrightarrow> linked bs (y # ys' @ [x]) \<and> linked bs (x # xs' @ [y])"
    using linked_append [of bs "y # ys'" x "xs' @ [y]"] by (simp add: e cyclic_Cons)
  ultimately show ?thesis by blast
qed auto

lemma ring_ok_alt: "ring_ok bs head xs \<longleftrightarrow> distinct xs \<and> set xs \<subseteq> {..<length bs} \<and>
    head = (case xs of [] \<Rightarrow> None | x # _ \<Rightarrow> Some x) \<and> cyclic bs xs"
  by (simp add: ring_ok_def cyclic_def)

text \<open>The neighbours of a node that is taken to the front.\<close>

lemma cyclic_front:
  assumes "cyclic bs (i # w)" "w \<noteq> []"
  shows "rn_next (bs ! i) = Some (hd w)" "rn_prev (bs ! i) = Some (last w)" "linked bs w"
proof -
  obtain y w' where w: "w = y # w'" using assms(2) by (cases w) auto
  have l: "rn_next (bs ! i) = Some y" "linked bs (y # w' @ [i])" using assms(1) by (simp_all add: cyclic_Cons w)
  then show "rn_next (bs ! i) = Some (hd w)" by (simp add: w)
  have "linked bs (w @ [i])" using l(2) by (simp add: w)
  then show "rn_prev (bs ! i) = Some (last w)" "linked bs w" using linked_snoc [OF assms(2)] by blast+
qed

lemma set_node_nth: "i < length bs \<Longrightarrow> set_node i f bs ! j = (if j = i then f (bs ! i) else bs ! j)"
  by (simp add: set_node_def nth_list_update)

lemma set_node_length [simp]: "length (set_node i f bs) = length bs"
  by (simp add: set_node_def)

text \<open>Whether two arrays differ in their pointers only.\<close>

definition same_data :: "'a ring_node_scheme list \<Rightarrow> 'a ring_node_scheme list \<Rightarrow> bool" where
  "same_data bs cs \<longleftrightarrow> length bs = length cs \<and>
     (\<forall>j<length bs. \<exists>p n. cs ! j = (bs ! j)\<lparr>rn_prev := p, rn_next := n\<rparr>)"

lemma same_dataD:
  assumes "same_data bs cs"
  shows "length cs = length bs" "j < length bs \<Longrightarrow> rn_q (cs ! j) = rn_q (bs ! j)" "j < length bs \<Longrightarrow> rn_pkts (cs ! j) = rn_pkts (bs ! j)"
    "j < length bs \<Longrightarrow> ring_node.more (cs ! j) = ring_node.more (bs ! j)"
  using assms by (auto simp: same_data_def)

lemma same_data_refl: "same_data bs bs"
  unfolding same_data_def
proof (intro conjI allI impI)
  fix j
  show "\<exists>p n. bs ! j = (bs ! j)\<lparr>rn_prev := p, rn_next := n\<rparr>" by (intro exI [of _ "rn_prev (bs ! j)"] exI [of _ "rn_next (bs ! j)"]) simp
qed simp

lemma same_data_set:
  assumes "same_data bs cs" "i < length bs" "\<And>b. \<exists>p n. f b = b\<lparr>rn_prev := p, rn_next := n\<rparr>"
  shows "same_data bs (set_node i f cs)"
  unfolding same_data_def
proof (intro conjI allI impI)
  show "length bs = length (set_node i f cs)" using assms(1) by (simp add: same_data_def)
  fix j assume j: "j < length bs"
  with assms(1) obtain p n where c: "cs ! j = (bs ! j)\<lparr>rn_prev := p, rn_next := n\<rparr>" by (auto simp: same_data_def)
  from assms(3) [of "cs ! j"] obtain p' n' where "f (cs ! j) = (cs ! j)\<lparr>rn_prev := p', rn_next := n'\<rparr>" by blast
  then show "\<exists>p n. set_node i f cs ! j = (bs ! j)\<lparr>rn_prev := p, rn_next := n\<rparr>"
    using c assms(1,2) by (cases "j = i") (auto simp: set_node_nth same_data_def)
qed

lemma node_updates:
  "\<exists>p n. rn_next_update (\<lambda>_. v) b = b\<lparr>rn_prev := p, rn_next := n\<rparr>"
  "\<exists>p n. rn_prev_update (\<lambda>_. v) b = b\<lparr>rn_prev := p, rn_next := n\<rparr>"
  "\<exists>p n. b\<lparr>rn_prev := u, rn_next := v\<rparr> = b\<lparr>rn_prev := p, rn_next := n\<rparr>"
proof -
  show "\<exists>p n. rn_next_update (\<lambda>_. v) b = b\<lparr>rn_prev := p, rn_next := n\<rparr>" by (intro exI [of _ "rn_prev b"] exI [of _ v]) simp
  show "\<exists>p n. rn_prev_update (\<lambda>_. v) b = b\<lparr>rn_prev := p, rn_next := n\<rparr>" by (intro exI [of _ v] exI [of _ "rn_next b"]) simp
qed blast

text \<open>\<open>activate\<close> puts a bucket at the end of the ring.\<close>

lemma linked_insert_end:
  assumes "linked bs (xs @ [h])" "xs \<noteq> []" "distinct xs" "h = hd xs" "i \<notin> set xs" "set xs \<subseteq> {..<length bs}" "i < length bs"
    "\<And>j. j < length bs \<Longrightarrow> j \<noteq> last xs \<Longrightarrow> j \<noteq> i \<Longrightarrow> rn_next (cs ! j) = rn_next (bs ! j)"
    "\<And>j. j < length bs \<Longrightarrow> j \<noteq> h \<Longrightarrow> j \<noteq> i \<Longrightarrow> rn_prev (cs ! j) = rn_prev (bs ! j)"
    "rn_next (cs ! last xs) = Some i" "rn_prev (cs ! i) = Some (last xs)" "rn_next (cs ! i) = Some h" "rn_prev (cs ! h) = Some i"
  shows "linked cs (xs @ [i] @ [h])"
proof -
  have e: "xs = butlast xs @ [last xs]" using assms(2) by simp
  have "linked bs xs" using assms(1) linked_snoc [OF assms(2)] by blast
  moreover have "rn_next (bs ! a) = rn_next (cs ! a)" if "a \<in> set (butlast xs)" for a
  proof -
    have "distinct (butlast xs @ [last xs])" using assms(3) e by simp
    then have "a \<noteq> last xs" using that by auto
    moreover have "a \<in> set xs" using that in_set_butlastD by fast
    ultimately show ?thesis using assms(5,6,8) by force
  qed
  moreover have "rn_prev (bs ! a) = rn_prev (cs ! a)" if "a \<in> set (tl xs)" for a
  proof -
    have "a \<noteq> h" using that assms(2-4) by (cases xs) auto
    moreover have "a \<in> set xs" using that by (cases xs) auto
    ultimately show ?thesis using assms(5,6,9) by force
  qed
  ultimately have "linked cs xs" using linked_cong [of xs bs cs] by blast
  then have "linked cs (xs @ [i])" using linked_snoc [OF assms(2)] assms(10,11) by blast
  then show ?thesis using linked_snoc [of "xs @ [i]" cs h] assms(12,13) by simp
qed

lemma ring_activate_ok:
  assumes r: "ring_ok bs head xs" and i: "i < length bs" "i \<notin> set xs"
  shows "\<exists>cs head'. ring_activate i head bs = Some (cs, head') \<and> ring_ok cs head' (xs @ [i]) \<and> same_data bs cs"
proof (cases xs)
  case Nil
  then have h: "head = None" using r by (simp add: ring_ok_def)
  have "ring_ok (set_node i (\<lambda>b. b\<lparr>rn_prev := Some i, rn_next := Some i\<rparr>) bs) (Some i) [i]"
    using i(1) by (simp add: ring_ok_def set_node_nth)
  moreover have "same_data bs (set_node i (\<lambda>b. b\<lparr>rn_prev := Some i, rn_next := Some i\<rparr>) bs)"
    by (rule same_data_set [OF same_data_refl i(1) node_updates(3)])
  ultimately show ?thesis using h Nil by (simp add: ring_activate_def)
next
  case (Cons h w)
  have l: "linked bs (xs @ [h])" "distinct xs" "set xs \<subseteq> {..<length bs}" "head = Some h" using r Cons by (simp_all add: ring_ok_def)
  have ne: "xs \<noteq> []" and hd: "h = hd xs" using Cons by simp_all
  have hl: "h < length bs" "h \<noteq> i" using l(3) i(2) Cons by auto
  define p where "p = last xs"
  have pl: "p < length bs" "p \<noteq> i" using l(3) i(2) last_in_set [OF ne] by (auto simp: p_def)
  have ph: "rn_prev (bs ! h) = Some p" "rn_next (bs ! p) = Some h" using iffD1 [OF linked_snoc [OF ne] l(1)] by (simp_all add: p_def)
  define b1 where "b1 = set_node i (rn_prev_update (\<lambda>_. Some p)) bs"
  define b2 where "b2 = set_node i (rn_next_update (\<lambda>_. Some h)) b1"
  define b3 where "b3 = set_node p (rn_next_update (\<lambda>_. Some i)) b2"
  define b4 where "b4 = set_node h (rn_prev_update (\<lambda>_. Some i)) b3"
  have len: "length b1 = length bs" "length b2 = length bs" "length b3 = length bs" "length b4 = length bs"
    by (simp_all add: b1_def b2_def b3_def b4_def)
  have n1: "b1 ! j = (if j = i then (bs ! i)\<lparr>rn_prev := Some p\<rparr> else bs ! j)" for j using i(1) by (simp add: b1_def set_node_nth)
  have n2: "b2 ! j = (if j = i then (b1 ! i)\<lparr>rn_next := Some h\<rparr> else b1 ! j)" for j using i(1) len by (simp add: b2_def set_node_nth)
  have n3: "b3 ! j = (if j = p then (b2 ! p)\<lparr>rn_next := Some i\<rparr> else b2 ! j)" for j using pl(1) len by (simp add: b3_def set_node_nth)
  have n4: "b4 ! j = (if j = h then (b3 ! h)\<lparr>rn_prev := Some i\<rparr> else b3 ! j)" for j using hl(1) len by (simp add: b4_def set_node_nth)
  have "b2 ! h = bs ! h" using hl(2) by (simp add: n1 n2)
  then have a: "ring_activate i head bs = Some (b4, head)"
    by (simp add: ring_activate_def l(4) ph Let_def flip: b1_def b2_def) (simp add: b4_def b3_def ph)
  have "linked b4 (xs @ [i] @ [h])"
    by (rule linked_insert_end [OF l(1) ne l(2) hd i(2) l(3) i(1)]) (use hl pl in \<open>auto simp: n1 n2 n3 n4 p_def [symmetric]\<close>)
  then have "ring_ok b4 head (xs @ [i])" using l i Cons by (auto simp: ring_ok_def len)
  moreover have "same_data bs b4" unfolding b4_def b3_def b2_def b1_def
    by (intro same_data_set same_data_refl node_updates i(1) hl(1) pl(1))
  ultimately show ?thesis using a by blast
qed

text \<open>\<open>idle\<close> takes a bucket out of the ring, and \<open>next\<close> leads around it.\<close>

lemma ring_unlink_ok:
  assumes c: "cyclic bs (i # w)" and w: "w \<noteq> []" "distinct (i # w)" "set (i # w) \<subseteq> {..<length bs}"
  shows "\<exists>cs. ring_unlink i bs = Some cs \<and> cyclic cs w \<and> same_data bs cs \<and> cs ! i = bs ! i"
proof -
  note f = cyclic_front [OF c w(1)]
  define n p where "n = hd w" and "p = last w"
  have np: "n \<in> set w" "p \<in> set w" using w(1) by (simp_all add: n_def p_def)
  with w(2,3) have np: "n \<in> set w" "p \<in> set w" "n < length bs" "p < length bs" "n \<noteq> i" "p \<noteq> i" by auto
  define b1 where "b1 = set_node n (rn_prev_update (\<lambda>_. Some p)) bs"
  define b2 where "b2 = set_node p (rn_next_update (\<lambda>_. rn_next (b1 ! i))) b1"
  have n1: "b1 ! j = (if j = n then (bs ! n)\<lparr>rn_prev := Some p\<rparr> else bs ! j)" for j using np(3) by (simp add: b1_def set_node_nth)
  have n2: "b2 ! j = (if j = p then (b1 ! p)\<lparr>rn_next := Some n\<rparr> else b1 ! j)" for j
    using np(4,5) by (simp add: b2_def set_node_nth b1_def set_node_nth f(1) np(3)) (simp add: n_def f(1))
  have u: "ring_unlink i bs = Some b2"
    by (simp add: ring_unlink_def f(1,2) b2_def b1_def Let_def flip: n_def p_def)
  have e: "w = butlast w @ [p]" using w(1) by (simp add: p_def)
  have "rn_next (bs ! a) = rn_next (b2 ! a)" if "a \<in> set (butlast w)" for a
  proof -
    have "distinct (butlast w @ [p])" using w(2) e by simp
    then show ?thesis using that by (auto simp: n1 n2)
  qed
  moreover have "rn_prev (bs ! a) = rn_prev (b2 ! a)" if "a \<in> set (tl w)" for a
    using that w(1,2) by (cases w) (auto simp: n1 n2 n_def)
  ultimately have "linked b2 w" using linked_cong [of w bs b2] f(3) by blast
  then have "cyclic b2 w" using linked_snoc [OF w(1), of b2 n] w(1) by (cases w) (auto simp: cyclic_def n1 n2 n_def p_def)
  moreover have "same_data bs b2" unfolding b2_def b1_def by (intro same_data_set same_data_refl node_updates np)
  moreover have "b2 ! i = bs ! i" using np(5,6) by (simp add: n1 n2)
  ultimately show ?thesis using u by blast
qed

lemma ring_idle_ok:
  assumes r: "ring_ok bs head (ys @ i # zs)"
  shows "\<exists>cs head'. ring_idle i head bs = Some (cs, head') \<and> same_data bs cs \<and>
    ring_ok cs head' (ys @ zs)"
proof -
  let ?w = "zs @ ys"
  have d: "distinct (ys @ i # zs)" "set (ys @ i # zs) \<subseteq> {..<length bs}" "cyclic bs (i # zs @ ys)"
    using r cyclic_rotate [of bs ys "i # zs"] by (simp_all add: ring_ok_alt)
  have h: "head = Some i \<longleftrightarrow> ys = []" using r d(1) by (cases ys) (auto simp: ring_ok_alt)
  show ?thesis
  proof (cases "?w = []")
    case True
    then have "rn_next (bs ! i) = Some i" using d(3) by (simp add: cyclic_def)
    with True h show ?thesis using same_data_refl [of bs] by (auto simp: ring_idle_def ring_ok_def)
  next
    case False
    have "distinct (i # ?w)" "set (i # ?w) \<subseteq> {..<length bs}" using d(1,2) by auto
    from ring_unlink_ok [OF d(3) False this] obtain cs where cs: "ring_unlink i bs = Some cs" "cyclic cs ?w" "same_data bs cs" "cs ! i = bs ! i" by blast
    note f = cyclic_front(1) [OF d(3) False]
    have ne: "rn_next (bs ! i) \<noteq> Some i"
    proof
      assume "rn_next (bs ! i) = Some i"
      with f hd_in_set [OF False] d(1) show False by auto
    qed
    have cy: "cyclic cs (ys @ zs)" using cs(2) cyclic_rotate [of cs zs ys] by simp
    have l: "length cs = length bs" using cs(3) by (simp add: same_data_def)
    show ?thesis
    proof (cases ys)
      case Nil
      with False obtain z zs' where "zs = z # zs'" by (cases zs) auto
      then show ?thesis using Nil h f ne cs cy d l by (auto simp: ring_idle_def ring_ok_alt)
    next
      case (Cons y ys')
      then have "head = Some y" using r by (simp add: ring_ok_alt)
      then show ?thesis using Cons h f ne cs cy d l by (auto simp: ring_idle_def ring_ok_alt)
    qed
  qed
qed

lemma ring_next:
  assumes "ring_ok bs head (x # xs)"
  shows "rn_next (bs ! x) = Some (hd (xs @ [x]))" "ring_ok bs (Some (hd (xs @ [x]))) (xs @ [x])"
proof -
  have c: "cyclic bs (xs @ [x])" "cyclic bs (x # xs)" using assms cyclic_rotate [of bs "[x]" xs] by (simp_all add: ring_ok_alt)
  show "rn_next (bs ! x) = Some (hd (xs @ [x]))" using c(2) by (cases xs) (simp_all add: cyclic_def)
  show "ring_ok bs (Some (hd (xs @ [x]))) (xs @ [x])" using c(1) assms by (cases xs) (auto simp: ring_ok_alt)
qed

lemma ring_ok_set:
  assumes "ring_ok bs head xs" "\<And>b. rn_prev (f b) = rn_prev b" "\<And>b. rn_next (f b) = rn_next b"
  shows "ring_ok (set_node i f bs) head xs"
proof -
  have s: "rn_prev (set_node i f bs ! j) = rn_prev (bs ! j) \<and> rn_next (set_node i f bs ! j) = rn_next (bs ! j)" if "j < length bs" for j
    using that assms(2,3) by (cases "i < length bs") (auto simp: set_node_def nth_list_update)
  have "set (xs @ take 1 xs) \<subseteq> {..<length bs}" using assms(1) set_take_subset [of 1 xs] by (auto simp: ring_ok_def)
  then have "linked bs (xs @ take 1 xs) = linked (set_node i f bs) (xs @ take 1 xs)"
  proof (intro linked_cong)
    fix a
    show "rn_next (bs ! a) = rn_next (set_node i f bs ! a)" if "a \<in> set (butlast (xs @ take 1 xs))"
      using s [of a] in_set_butlastD [OF that] \<open>set (xs @ take 1 xs) \<subseteq> {..<length bs}\<close> by (simp only: subset_eq lessThan_iff Ball_def)
    show "rn_prev (bs ! a) = rn_prev (set_node i f bs ! a)" if "a \<in> set (tl (xs @ take 1 xs))"
      using s [of a] that \<open>set (xs @ take 1 xs) \<subseteq> {..<length bs}\<close> by (cases xs) auto
  qed
  then show ?thesis using assms(1) by (simp add: ring_ok_def)
qed

section \<open>The buckets\<close>

text \<open>Sums over the buckets when one changes, and the memory when a packet goes in or out.\<close>

lemma sum_fun_upd:
  fixes g :: "'a \<Rightarrow> 'b :: ab_group_add" and n :: nat
  assumes "i < n"
  shows "(\<Sum>j<n. g ((f(i := x)) j)) = (\<Sum>j<n. g (f j)) - g (f i) + g x"
proof -
  have "(\<Sum>j<n. g (h j)) = g (h i) + (\<Sum>j\<in>{..<n} - {i}. g (h j))" for h :: "nat \<Rightarrow> 'a"
    using assms by (simp add: sum.remove [of "{..<n}" i])
  from this [of "f(i := x)"] this [of f] show ?thesis by (simp add: algebra_simps)
qed

lemma held_upd:
  fixes n :: nat
  assumes "i < n"
  shows "(\<Sum>j<n. mset ((fs(i := ps)) j)) + mset (fs i) = (\<Sum>j<n. mset (fs j)) + mset ps"
proof -
  have "(\<Sum>j<n. mset (h j)) = mset (h i) + (\<Sum>j\<in>{..<n} - {i}. mset (h j))" for h :: "nat \<Rightarrow> 'a list"
    using assms by (simp add: sum.remove [of "{..<n}" i])
  from this [of "fs(i := ps)"] this [of fs] show ?thesis by simp
qed

lemma pq_ok_frame:
  assumes "pq_ok (m, q) xs" "\<And>a. a \<in> set xs \<Longrightarrow> pm_next m' a = pm_next m a" "pm_size m' = pm_size m"
  shows "pq_ok (m', q) xs"
proof -
  have "(\<forall>a\<in>set ys. nx' a = nx a) \<Longrightarrow> chain nx' h ys = chain nx h ys" for nx nx' h and ys :: "addr list"
    by (induction ys arbitrary: h) simp_all
  from this [of xs "pm_next m'" "pm_next m" "pq_head q"] assms show ?thesis unfolding pq_ok_pair by simp
qed

lemma pq_enque_mem:
  assumes "pq_ok (m, q) xs" "pq_enque p (m, q) = (r, (m', q'))"
  shows "pm_size m' = pm_size m" "\<And>a. a \<noteq> p \<Longrightarrow> a \<notin> set xs \<Longrightarrow> pm_next m' a = pm_next m a"
proof -
  have l: "pq_tail q = Some t \<Longrightarrow> t \<in> set xs" for t using assms(1) by (auto simp: pq_ok_pair split: if_splits)
  show "pm_size m' = pm_size m" "\<And>a. a \<noteq> p \<Longrightarrow> a \<notin> set xs \<Longrightarrow> pm_next m' a = pm_next m a"
    using assms(2) l by (auto simp: pq_enque_def Let_def split: option.splits)
qed

lemma pq_deque_mem: "pq_deque (m, q) = (r, (m', q')) \<Longrightarrow> m' = m"
  by (auto simp: pq_deque_def Let_def split: option.splits if_splits)

lemma set_node_twice: "set_node i f (set_node i g bs) = set_node i (f \<circ> g) bs"
  by (cases "i < length bs") (simp_all add: set_node_def list_update_beyond)

end
