(* ===== verification/Drr.thy ===== *)
theory Drr
  imports FlowRing
begin

text \<open>
  Class DRR of queue/drr.cc: deficit round robin over a hash table of flows.  A packet list of a
  bucket lies in the memory that all queues share, the first component of \<open>q_pq\<close>; the second, the
  list of class Queue itself, is unused.  The array \<open>dr_nodes\<close> is empty until the first packet arrives.
  A null pointer followed, an access outside the array, a division by zero or a loop without end is \<open>None\<close>.
\<close>

unbundle bit_operations_syntax

section \<open>State\<close>

record drr_node = ring_node +
  dn_src :: int
  dn_bcount :: int
  dn_deficit :: int
  dn_turn :: bool

definition drr_node_new :: drr_node where
  "drr_node_new = \<lparr>rn_q = pq_init, rn_pkts = 0, rn_prev = None, rn_next = None, dn_src = - 1, dn_bcount = 0,
     dn_deficit = 0, dn_turn = False\<rparr>"

text \<open>\<open>dr_saddr\<close> is the source address in the header of a packet.\<close>

record drr = queue +
  dr_nodes :: "drr_node list"
  dr_buckets :: int
  dr_blimit :: int
  dr_quantum :: int
  dr_mask :: bool
  dr_bytecnt :: int
  dr_pktcnt :: int
  dr_flwcnt :: int
  dr_curr :: "nat option"
  dr_saddr :: "addr \<Rightarrow> int"

text \<open>The constructor, with the parameters that Tcl binds.\<close>

definition drr_init :: "int \<Rightarrow> int \<Rightarrow> int \<Rightarrow> bool \<Rightarrow> (addr \<Rightarrow> int) \<Rightarrow> queue \<Rightarrow> drr" where
  "drr_init buckets blimit quantum msk saddr q = queue.extend q
     \<lparr>dr_nodes = [], dr_buckets = buckets, dr_blimit = blimit, dr_quantum = quantum, dr_mask = msk, dr_bytecnt = 0,
      dr_pktcnt = 0, dr_flwcnt = 0, dr_curr = None, dr_saddr = saddr\<rparr>"

definition drr_hash :: "drr \<Rightarrow> addr \<Rightarrow> int" where
  "drr_hash s p =
     (let i = (if dr_mask s then dr_saddr s p AND 65520 else dr_saddr s p)
      in cmod (i + drop_bit 8 i + NOT (drop_bit 4 i)) 16777215 + 1)"

definition drr_mem :: "drr \<Rightarrow> pmem" where
  "drr_mem s = fst (q_pq s)"

text \<open>The packet list of a bucket, and its replacement.\<close>

definition node_pq :: "nat \<Rightarrow> drr \<Rightarrow> pqs" where
  "node_pq i s = (drr_mem s, rn_q (dr_nodes s ! i))"

definition set_node_pq :: "nat \<Rightarrow> pqs \<Rightarrow> drr \<Rightarrow> drr" where
  "set_node_pq i mq s = s\<lparr>q_pq := (fst mq, snd (q_pq s)), dr_nodes := set_node i (rn_q_update (\<lambda>_. snd mq)) (dr_nodes s)\<rparr>"

definition upd_node :: "nat \<Rightarrow> (drr_node \<Rightarrow> drr_node) \<Rightarrow> drr \<Rightarrow> drr" where
  "upd_node i f s = s\<lparr>dr_nodes := set_node i f (dr_nodes s)\<rparr>"

section \<open>Arrival\<close>

text \<open>\<open>curr = q->activate(curr)\<close> and \<open>curr = q->idle(curr)\<close>.\<close>

definition drr_activate :: "nat \<Rightarrow> drr \<Rightarrow> drr option" where
  "drr_activate i s = map_option (\<lambda>(bs, c). s\<lparr>dr_nodes := bs, dr_curr := c\<rparr>) (ring_activate i (dr_curr s) (dr_nodes s))"

definition drr_idle :: "nat \<Rightarrow> drr \<Rightarrow> drr option" where
  "drr_idle i s = map_option (\<lambda>(bs, c). s\<lparr>dr_nodes := bs, dr_curr := c\<rparr>) (ring_idle i (dr_curr s) (dr_nodes s))"

fun max_flow :: "nat \<Rightarrow> drr_node list \<Rightarrow> nat option \<Rightarrow> nat \<Rightarrow> nat option" where
  "max_flow 0 bs tmp maxflow = Some maxflow"
| "max_flow (Suc n) bs tmp maxflow = (case tmp of
     None \<Rightarrow> None
   | Some t \<Rightarrow> max_flow n bs (rn_next (bs ! t)) (if dn_bcount (bs ! maxflow) < dn_bcount (bs ! t) then t else maxflow))"

text \<open>The counters after a packet of bucket \<open>i\<close> has been taken out.\<close>

definition drr_less :: "nat \<Rightarrow> addr \<Rightarrow> drr \<Rightarrow> drr" where
  "drr_less i p s =
     (let n = pm_size (drr_mem s) p;
          s = upd_node i (\<lambda>b. b\<lparr>dn_bcount := dn_bcount b - n, rn_pkts := rn_pkts b - 1\<rparr>) s
      in s\<lparr>dr_pktcnt := dr_pktcnt s - 1, dr_bytecnt := dr_bytecnt s - n\<rparr>)"

text \<open>One pass of the loop that drops from the longest flow.\<close>

definition drr_drop_step :: "drr \<Rightarrow> drr option" where
  "drr_drop_step s = (case dr_curr s of
     None \<Rightarrow> None
   | Some c \<Rightarrow> (case max_flow (nat (dr_flwcnt s)) (dr_nodes s) (Some c) c of
       None \<Rightarrow> None
     | Some r \<Rightarrow> (case pq_deque (node_pq r s) of
         (None, _) \<Rightarrow> None
       | (Some p, q) \<Rightarrow>
           (let s = emit (Dropped p) (drr_less r p (set_node_pq r q s))
            in if rn_pkts (dr_nodes s ! r) = 0
               then map_option (\<lambda>s. s\<lparr>dr_flwcnt := dr_flwcnt s - 1\<rparr>) (drr_idle r s)
               else Some s))))"

partial_function (option) drr_drop_loop :: "drr \<Rightarrow> drr option" where
  "drr_drop_loop s =
     (if dr_bytecnt s > dr_blimit s then (case drr_drop_step s of None \<Rightarrow> None | Some s \<Rightarrow> drr_drop_loop s) else Some s)"

text \<open>The bucket of a packet, in an array of \<open>buckets_\<close> elements.\<close>

definition drr_bucket :: "drr \<Rightarrow> addr \<Rightarrow> nat option" where
  "drr_bucket s p =
     (if dr_buckets s \<le> 0 then None
      else (let which = cmod (drr_hash s p) (dr_buckets s) in if 0 \<le> which then Some (nat which) else None))"

definition drr_put :: "nat \<Rightarrow> addr \<Rightarrow> drr \<Rightarrow> drr option" where
  "drr_put i p s =
     (let compare = (if dr_mask s then dr_saddr s p AND 65520 else dr_saddr s p);
          s = upd_node i (\<lambda>b. if dn_src b = - 1 then b\<lparr>dn_src := compare\<rparr> else b) s;
          s = set_node_pq i (snd (pq_enque p (node_pq i s))) s;
          n = pm_size (drr_mem s) p;
          s = upd_node i (\<lambda>b. b\<lparr>rn_pkts := rn_pkts b + 1, dn_bcount := dn_bcount b + n\<rparr>) s;
          s = s\<lparr>dr_pktcnt := dr_pktcnt s + 1, dr_bytecnt := dr_bytecnt s + n\<rparr>
      in if rn_pkts (dr_nodes s ! i) = 1
         then map_option (\<lambda>s. (upd_node i (dn_deficit_update (\<lambda>_. 0)) s)\<lparr>dr_flwcnt := dr_flwcnt s + 1\<rparr>) (drr_activate i s)
         else Some s)"

definition drr_alloc :: "drr \<Rightarrow> drr" where
  "drr_alloc s = (if dr_nodes s = [] then s\<lparr>dr_nodes := replicate (nat (dr_buckets s)) drr_node_new\<rparr> else s)"

definition drr_enque :: "addr \<Rightarrow> drr \<Rightarrow> drr option" where
  "drr_enque p s =
     (let s = drr_alloc s
      in case drr_bucket s p of
           None \<Rightarrow> None
         | Some i \<Rightarrow> if i < length (dr_nodes s) then Option.bind (drr_put i p s) drr_drop_loop else None)"

section \<open>Departure\<close>

text \<open>The quantum that a flow gets at the start of its turn.\<close>

definition drr_turn :: "nat \<Rightarrow> drr \<Rightarrow> drr" where
  "drr_turn c s = upd_node c (\<lambda>b. if dn_turn b then b else b\<lparr>dn_deficit := dn_deficit b + dr_quantum s, dn_turn := True\<rparr>) s"

text \<open>The packet \<open>p\<close> at the head of the current flow leaves.\<close>

definition drr_serve :: "nat \<Rightarrow> addr \<Rightarrow> drr \<Rightarrow> (addr option \<times> drr) option" where
  "drr_serve c p s =
     (let s = upd_node c (\<lambda>b. b\<lparr>dn_deficit := dn_deficit b - pm_size (drr_mem s) p\<rparr>) s
      in case pq_deque (node_pq c s) of
           (None, _) \<Rightarrow> None
         | (Some p, q) \<Rightarrow>
             (let s = drr_less c p (set_node_pq c q s)
              in if rn_pkts (dr_nodes s ! c) = 0 then
                   (let s = upd_node c (\<lambda>b. b\<lparr>dn_turn := False, dn_deficit := 0\<rparr>) (s\<lparr>dr_flwcnt := dr_flwcnt s - 1\<rparr>)
                    in map_option (\<lambda>s. (Some p, s)) (drr_idle c s))
                 else Some (Some p, s)))"

partial_function (option) drr_rounds :: "drr \<Rightarrow> (addr option \<times> drr) option" where
  "drr_rounds s = (case dr_curr s of
     None \<Rightarrow> None
   | Some c \<Rightarrow>
       (let s = drr_turn c s
        in case pq_lookup 0 (node_pq c s) of
             None \<Rightarrow> None
           | Some p \<Rightarrow>
               if dn_deficit (dr_nodes s ! c) \<ge> pm_size (drr_mem s) p then drr_serve c p s
               else (let s = upd_node c (dn_turn_update (\<lambda>_. False)) s
                     in drr_rounds (s\<lparr>dr_curr := rn_next (dr_nodes s ! c)\<rparr>))))"

definition drr_deque :: "drr \<Rightarrow> (addr option \<times> drr) option" where
  "drr_deque s = (if dr_bytecnt s = 0 then Some (None, s) else drr_rounds s)"

section \<open>Commands\<close>

text \<open>\<open>exit(1)\<close> is \<open>None\<close>.\<close>

definition drr_clear :: "drr \<Rightarrow> drr option" where
  "drr_clear s = (if \<forall>b\<in>set (dr_nodes s). rn_pkts b = 0 then Some (s\<lparr>dr_nodes := []\<rparr>) else None)"

definition drr_set_blimit :: "int \<Rightarrow> drr \<Rightarrow> drr option" where
  "drr_set_blimit n s = (if dr_bytecnt s > n then None else Some (s\<lparr>dr_blimit := n\<rparr>))"

definition drr_set_buckets :: "int \<Rightarrow> drr \<Rightarrow> drr option" where
  "drr_set_buckets n s = map_option (dr_buckets_update (\<lambda>_. n)) (drr_clear s)"

definition drr_set_quantum :: "int \<Rightarrow> drr \<Rightarrow> drr" where
  "drr_set_quantum n s = s\<lparr>dr_quantum := n\<rparr>"

definition drr_set_mask :: "bool \<Rightarrow> drr \<Rightarrow> drr" where
  "drr_set_mask b s = s\<lparr>dr_mask := b\<rparr>"

end
