(* ===== verification/DrrInv.thy ===== *)
theory DrrInv
  imports Drr
begin

text \<open>
  The invariant of DRR: \<open>xs\<close> is the ring of the active buckets from the current one on, \<open>fs i\<close> the list of
  packets of bucket \<open>i\<close>.  Arrivals, drops and departures keep it.
\<close>

section \<open>The invariant\<close>

definition bytes :: "drr \<Rightarrow> addr list \<Rightarrow> int" where
  "bytes s ps = sum_list (map (pm_size (drr_mem s)) ps)"

definition node_ok :: "pmem \<Rightarrow> drr_node \<Rightarrow> addr list \<Rightarrow> bool" where
  "node_ok m b ps \<longleftrightarrow> pq_ok (m, rn_q b) ps \<and> rn_pkts b = int (length ps) \<and>
     dn_bcount b = sum_list (map (pm_size m) ps) \<and> 0 \<le> dn_deficit b"

definition drr_static :: "drr \<Rightarrow> int \<times> int \<times> int \<times> bool \<times> (addr \<Rightarrow> int)" where
  "drr_static s = (dr_buckets s, dr_blimit s, dr_quantum s, dr_mask s, dr_saddr s)"

lemma drr_static_bucket:
  assumes "drr_static t = drr_static s"
  shows "drr_bucket t = drr_bucket s"
proof -
  have "dr_buckets t = dr_buckets s" "dr_mask t = dr_mask s" "dr_saddr t = dr_saddr s" using assms by (simp_all add: drr_static_def)
  then show ?thesis by (simp add: fun_eq_iff drr_bucket_def drr_hash_def)
qed

text \<open>Parameters that make sense, and packets with a size and an address.\<close>

definition drr_conf :: "drr \<Rightarrow> bool" where
  "drr_conf s \<longleftrightarrow> 0 < dr_buckets s \<and> 0 < dr_quantum s \<and> 0 \<le> dr_blimit s \<and>
     (\<forall>p. 0 < pm_size (drr_mem s) p \<and> 0 \<le> dr_saddr s p)"

definition drr_core :: "drr \<Rightarrow> nat list \<Rightarrow> (nat \<Rightarrow> addr list) \<Rightarrow> bool" where
  "drr_core s xs fs \<longleftrightarrow> drr_conf s \<and> (dr_nodes s = [] \<or> length (dr_nodes s) = nat (dr_buckets s)) \<and>
     ring_ok (dr_nodes s) (dr_curr s) xs \<and>
     (\<forall>i<length (dr_nodes s). node_ok (drr_mem s) (dr_nodes s ! i) (fs i)) \<and>
     (\<forall>i. \<forall>p\<in>set (fs i). drr_bucket s p = Some i) \<and>
     dr_bytecnt s = (\<Sum>i<length (dr_nodes s). bytes s (fs i)) \<and>
     dr_pktcnt s = (\<Sum>i<length (dr_nodes s). int (length (fs i)))"

definition drr_ok :: "drr \<Rightarrow> nat list \<Rightarrow> (nat \<Rightarrow> addr list) \<Rightarrow> bool" where
  "drr_ok s xs fs \<longleftrightarrow> drr_core s xs fs \<and> (\<forall>i. i \<in> set xs \<longleftrightarrow> fs i \<noteq> []) \<and> dr_flwcnt s = int (length xs)"

definition drr_held :: "drr \<Rightarrow> (nat \<Rightarrow> addr list) \<Rightarrow> addr multiset" where
  "drr_held s fs = (\<Sum>i<length (dr_nodes s). mset (fs i))"

section \<open>One bucket at a time\<close>

lemma drr_core_step:
  assumes s: "drr_core s xs fs" and i: "i < length (dr_nodes s)"
    and t: "dr_nodes t = set_node i f (dr_nodes s)" "\<And>b. rn_prev (f b) = rn_prev b" "\<And>b. rn_next (f b) = rn_next b"
      "drr_static t = drr_static s" "dr_curr t = dr_curr s" "pm_size (drr_mem t) = pm_size (drr_mem s)"
      "\<And>a. a \<notin> set (fs i) \<Longrightarrow> a \<notin> set ps \<Longrightarrow> pm_next (drr_mem t) a = pm_next (drr_mem s) a"
      "node_ok (drr_mem t) (f (dr_nodes s ! i)) ps" "\<And>p. p \<in> set ps \<Longrightarrow> drr_bucket s p = Some i"
      "dr_bytecnt t = dr_bytecnt s - bytes s (fs i) + bytes s ps" "dr_pktcnt t = dr_pktcnt s - int (length (fs i)) + int (length ps)"
  shows "drr_core t xs (fs(i := ps))"
proof -
  have l: "length (dr_nodes t) = length (dr_nodes s)" by (simp add: t(1))
  have st: "dr_buckets t = dr_buckets s" "dr_blimit t = dr_blimit s" "dr_quantum t = dr_quantum s" "dr_mask t = dr_mask s" "dr_saddr t = dr_saddr s"
    using t(4) by (simp_all add: drr_static_def)
  have b: "drr_bucket t p = drr_bucket s p" for p by (simp add: drr_bucket_def drr_hash_def st)
  have bt: "bytes t = bytes s" by (simp add: bytes_def t(6) fun_eq_iff)
  have n: "node_ok (drr_mem t) (dr_nodes t ! j) ((fs(i := ps)) j)" if j: "j < length (dr_nodes s)" for j
  proof (cases "j = i")
    case True
    with t(8) i show ?thesis by (simp add: t(1) set_node_nth)
  next
    case False
    have "pm_next (drr_mem t) a = pm_next (drr_mem s) a" if "a \<in> set (fs j)" for a
    proof -
      have "drr_bucket s a = Some j" using s that by (simp add: drr_core_def)
      then have "a \<notin> set (fs i)" "a \<notin> set ps" using False s t(9) by (auto simp: drr_core_def)
      then show ?thesis by (rule t(7))
    qed
    moreover have "node_ok (drr_mem s) (dr_nodes s ! j) (fs j)" using s j by (simp add: drr_core_def)
    ultimately have "node_ok (drr_mem t) (dr_nodes s ! j) (fs j)" using pq_ok_frame t(6) unfolding node_ok_def by auto
    with False i show ?thesis by (simp add: t(1) set_node_nth)
  qed
  have "dr_bytecnt t = (\<Sum>j<length (dr_nodes s). bytes s ((fs(i := ps)) j))"
    using sum_fun_upd [OF i, of "bytes s" fs ps] s by (simp add: drr_core_def t(10))
  moreover have "dr_pktcnt t = (\<Sum>j<length (dr_nodes s). int (length ((fs(i := ps)) j)))"
    using sum_fun_upd [OF i, of "\<lambda>ps. int (length ps)" fs ps] s by (simp add: drr_core_def t(11))
  moreover have "ring_ok (dr_nodes t) (dr_curr t) xs"
    unfolding t(1,5) using s by (intro ring_ok_set t(2,3)) (simp add: drr_core_def)
  moreover have "\<forall>j. \<forall>p\<in>set ((fs(i := ps)) j). drr_bucket t p = Some j" using s t(9) by (simp add: drr_core_def b)
  moreover have "drr_conf t" using s by (simp add: drr_core_def drr_conf_def st t(6))
  moreover have "dr_nodes t = [] \<or> length (dr_nodes t) = nat (dr_buckets t)" using s l by (auto simp: drr_core_def st(1))
  ultimately show ?thesis using n unfolding drr_core_def l bt by blast
qed

text \<open>The ring changes, and nothing else.\<close>

lemma drr_core_ring:
  assumes s: "drr_core s xs fs" and r: "ring_ok bs c ys" "same_data (dr_nodes s) bs"
  shows "drr_core (s\<lparr>dr_nodes := bs, dr_curr := c\<rparr>) ys fs"
proof -
  let ?t = "s\<lparr>dr_nodes := bs, dr_curr := c\<rparr>"
  have l: "length bs = length (dr_nodes s)" using same_dataD(1) [OF r(2)] .
  have b: "drr_bucket ?t p = drr_bucket s p" for p by (simp add: drr_bucket_def drr_hash_def)
  have n: "node_ok (drr_mem s) (bs ! j) (fs j)" if "j < length (dr_nodes s)" for j
  proof -
    from r(2) that obtain p n where "bs ! j = (dr_nodes s ! j)\<lparr>rn_prev := p, rn_next := n\<rparr>" by (auto simp: same_data_def)
    with s that show ?thesis by (simp add: drr_core_def node_ok_def)
  qed
  have m: "drr_mem ?t = drr_mem s" by (simp add: drr_mem_def)
  have "bytes ?t = bytes s" by (simp add: bytes_def m fun_eq_iff)
  then show ?thesis using s n l r(1) by (auto simp: drr_core_def drr_conf_def m b)
qed

section \<open>The operations\<close>

text \<open>What no operation changes, and the deficit and the turn of each bucket.\<close>

definition drr_frame :: "drr \<Rightarrow> drr \<Rightarrow> bool" where
  "drr_frame s t \<longleftrightarrow> drr_static t = drr_static s \<and> pm_size (drr_mem t) = pm_size (drr_mem s) \<and>
     length (dr_nodes t) = length (dr_nodes s) \<and> q_blocked t = q_blocked s \<and> q_unblock_on_resume t = q_unblock_on_resume s"

lemma drr_frame_refl: "drr_frame s s"
  by (simp add: drr_frame_def)

lemma drr_frame_trans: "drr_frame s t \<Longrightarrow> drr_frame t u \<Longrightarrow> drr_frame s u"
  by (simp add: drr_frame_def)

lemma drr_frameD:
  assumes "drr_frame s t"
  shows "bytes t = bytes s" "drr_bucket t = drr_bucket s" "length (dr_nodes t) = length (dr_nodes s)" "dr_quantum t = dr_quantum s"
    "dr_blimit t = dr_blimit s" "q_blocked t = q_blocked s" "pm_size (drr_mem t) = pm_size (drr_mem s)"
proof -
  have m: "pm_size (drr_mem t) = pm_size (drr_mem s)" and e: "drr_static t = drr_static s" using assms by (simp_all add: drr_frame_def)
  show "bytes t = bytes s" by (simp add: fun_eq_iff bytes_def m)
  show "drr_bucket t = drr_bucket s" by (rule drr_static_bucket [OF e])
  show "length (dr_nodes t) = length (dr_nodes s)" "dr_quantum t = dr_quantum s" "dr_blimit t = dr_blimit s"
    "q_blocked t = q_blocked s" "pm_size (drr_mem t) = pm_size (drr_mem s)" using assms by (simp_all add: drr_frame_def drr_static_def)
qed

definition meter :: "drr \<Rightarrow> nat \<Rightarrow> int \<times> bool" where
  "meter s i = (dn_deficit (dr_nodes s ! i), dn_turn (dr_nodes s ! i))"

lemma drr_mem_simps [simp]:
  "drr_mem (upd_node i f s) = drr_mem s" "drr_mem (set_node_pq i mq s) = fst mq" "drr_mem (s\<lparr>dr_nodes := bs\<rparr>) = drr_mem s"
  "drr_mem (s\<lparr>dr_curr := c\<rparr>) = drr_mem s" "drr_mem (s\<lparr>dr_flwcnt := n\<rparr>) = drr_mem s" "drr_mem (s\<lparr>dr_pktcnt := n\<rparr>) = drr_mem s"
  "drr_mem (s\<lparr>dr_bytecnt := n\<rparr>) = drr_mem s" "drr_mem (emit e s) = drr_mem s" "drr_mem (s\<lparr>q_pq := mq\<rparr>) = fst mq"
  by (simp_all add: drr_mem_def upd_node_def set_node_pq_def)

text \<open>The number of active flows and the output do not matter.\<close>

lemma drr_core_other [simp]:
  "drr_core (s\<lparr>dr_flwcnt := n\<rparr>) xs fs = drr_core s xs fs" "drr_core (emit e s) xs fs = drr_core s xs fs"
  "drr_frame s (t\<lparr>dr_flwcnt := n\<rparr>) = drr_frame s t" "drr_frame s (emit e t) = drr_frame s t"
  "meter (s\<lparr>dr_flwcnt := n\<rparr>) = meter s" "meter (emit e s) = meter s"
proof -
  have h: "drr_bucket (s\<lparr>dr_flwcnt := n\<rparr>) = drr_bucket s" "drr_bucket (emit e s) = drr_bucket s"
    "bytes (s\<lparr>dr_flwcnt := n\<rparr>) = bytes s" "bytes (emit e s) = bytes s"
    by (simp_all add: fun_eq_iff drr_bucket_def drr_hash_def bytes_def emit_def) (simp_all add: drr_mem_def)
  show "drr_core (s\<lparr>dr_flwcnt := n\<rparr>) xs fs = drr_core s xs fs" by (simp add: drr_core_def drr_conf_def h)
  show "drr_core (emit e s) xs fs = drr_core s xs fs" unfolding drr_core_def h drr_conf_def by (simp add: emit_def) (simp add: drr_mem_def)
  show "drr_frame s (t\<lparr>dr_flwcnt := n\<rparr>) = drr_frame s t" "drr_frame s (emit e t) = drr_frame s t"
    by (simp_all add: drr_frame_def drr_static_def emit_def) (simp add: drr_mem_def)
  show "meter (s\<lparr>dr_flwcnt := n\<rparr>) = meter s" "meter (emit e s) = meter s" by (simp_all add: meter_def emit_def fun_eq_iff)
qed

text \<open>Taking the first packet out of bucket \<open>r\<close>, with the counters.\<close>

lemma drr_take:
  assumes s: "drr_core s xs fs" and r: "r < length (dr_nodes s)" "fs r = p # ps"
    and d: "drr_mem u = drr_mem s" "dr_nodes u = set_node r (dn_deficit_update (\<lambda>_. d)) (dr_nodes s)" "0 \<le> d" "drr_static u = drr_static s"
      "dr_curr u = dr_curr s" "dr_bytecnt u = dr_bytecnt s" "dr_pktcnt u = dr_pktcnt s"
  shows "\<exists>q. pq_deque (node_pq r u) = (Some p, q) \<and> drr_core (drr_less r p (set_node_pq r q u)) xs (fs(r := ps)) \<and>
    dr_nodes (drr_less r p (set_node_pq r q u)) =
      set_node r (\<lambda>b. b\<lparr>rn_q := snd q, rn_pkts := int (length ps), dn_bcount := dn_bcount b - pm_size (drr_mem s) p, dn_deficit := d\<rparr>) (dr_nodes s) \<and>
    drr_mem (drr_less r p (set_node_pq r q u)) = drr_mem s"
proof -
  let ?b = "dr_nodes s ! r" and ?m = "drr_mem s"
  have n: "node_ok ?m ?b (p # ps)" using s r by (auto simp: drr_core_def)
  then have "pq_ok (?m, rn_q ?b) (p # ps)" by (simp add: node_ok_def)
  from pq_deque_Cons [OF this] obtain q where q: "pq_deque (?m, rn_q ?b) = (Some p, q)" "pq_ok q ps" by blast
  obtain m' q' where mq: "q = (m', q')" by (cases q)
  with q pq_deque_mem have m': "m' = ?m" by metis
  have u: "node_pq r u = (?m, rn_q ?b)" using r(1) by (simp add: node_pq_def d set_node_nth)
  let ?t = "drr_less r p (set_node_pq r q u)"
  let ?f = "\<lambda>b. b\<lparr>rn_q := q', rn_pkts := int (length ps), dn_bcount := dn_bcount b - pm_size ?m p, dn_deficit := d\<rparr>"
  let ?g = "\<lambda>b. (rn_q_update (\<lambda>_. q') (dn_deficit_update (\<lambda>_. d) b))"
  have "dr_nodes ?t = (dr_nodes s)[r := (?g ?b)\<lparr>dn_bcount := dn_bcount ?b - pm_size ?m p, rn_pkts := rn_pkts ?b - 1\<rparr>]" using r(1)
    by (simp add: drr_less_def set_node_pq_def upd_node_def set_node_def d mq m' Let_def)
  also have "(?g ?b)\<lparr>dn_bcount := dn_bcount ?b - pm_size ?m p, rn_pkts := rn_pkts ?b - 1\<rparr> = ?f ?b"
    using n by (intro drr_node.equality) (simp_all add: node_ok_def)
  finally have "dr_nodes ?t = (dr_nodes s)[r := ?f ?b]" .
  then have nt: "dr_nodes ?t = set_node r ?f (dr_nodes s)" by (simp add: set_node_def)
  have mt: "drr_mem ?t = ?m" by (simp add: drr_less_def Let_def mq m')
  have "drr_core ?t xs (fs(r := ps))"
  proof (rule drr_core_step [OF s r(1) nt])
    show "drr_static ?t = drr_static s" using d(4) by (simp add: drr_less_def Let_def drr_static_def set_node_pq_def upd_node_def)
    show "dr_curr ?t = dr_curr s" using d(5) by (simp add: drr_less_def Let_def set_node_pq_def upd_node_def)
    show "node_ok (drr_mem ?t) (?f ?b) ps" unfolding mt using n q(2) [unfolded mq m'] d(3) by (simp add: node_ok_def)
    show "\<And>p. p \<in> set ps \<Longrightarrow> drr_bucket s p = Some r" using s r(2) by (simp add: drr_core_def)
    show "dr_bytecnt ?t = dr_bytecnt s - bytes s (fs r) + bytes s ps"
      by (simp add: drr_less_def Let_def set_node_pq_def upd_node_def d(6) r(2) bytes_def drr_mem_def mq m')
    show "dr_pktcnt ?t = dr_pktcnt s - int (length (fs r)) + int (length ps)"
      by (simp add: drr_less_def Let_def set_node_pq_def upd_node_def d(7) r(2))
  qed (simp_all add: mt)
  with q(1) nt mt show ?thesis unfolding u by (intro exI [of _ q]) (simp add: mq)
qed

lemma drr_less_frame:
  assumes "drr_mem (drr_less r p (set_node_pq r q u)) = drr_mem s" "drr_frame s u"
  shows "drr_frame s (drr_less r p (set_node_pq r q u))" "q_out (drr_less r p (set_node_pq r q u)) = q_out u"
    "dr_flwcnt (drr_less r p (set_node_pq r q u)) = dr_flwcnt u"
proof -
  show "drr_frame s (drr_less r p (set_node_pq r q u))" using assms(2) unfolding drr_frame_def assms(1)
    by (simp add: drr_static_def drr_less_def set_node_pq_def upd_node_def Let_def)
qed (simp_all add: drr_less_def set_node_pq_def upd_node_def Let_def)

text \<open>A bucket that has become empty leaves the ring.\<close>

lemma drr_idle_ok:
  assumes s: "drr_core s (ys @ r # zs) fs"
  shows "\<exists>t. drr_idle r s = Some t \<and> drr_core t (ys @ zs) fs \<and> drr_frame s t \<and> q_out t = q_out s \<and> drr_mem t = drr_mem s \<and>
    dr_flwcnt t = dr_flwcnt s \<and> (\<forall>i<length (dr_nodes s). meter t i = meter s i)"
proof -
  have "ring_ok (dr_nodes s) (dr_curr s) (ys @ r # zs)" using s by (simp add: drr_core_def)
  from ring_idle_ok [OF this] obtain bs c where r: "ring_idle r (dr_curr s) (dr_nodes s) = Some (bs, c)" "same_data (dr_nodes s) bs" "ring_ok bs c (ys @ zs)"
    by blast
  let ?t = "s\<lparr>dr_nodes := bs, dr_curr := c\<rparr>"
  have "drr_idle r s = Some ?t" by (simp add: drr_idle_def r)
  moreover have "drr_core ?t (ys @ zs) fs" by (rule drr_core_ring [OF s r(3,2)])
  moreover have "meter ?t i = meter s i" if "i < length (dr_nodes s)" for i
  proof -
    from r(2) that obtain p n where "bs ! i = (dr_nodes s ! i)\<lparr>rn_prev := p, rn_next := n\<rparr>" by (auto simp: same_data_def)
    then show ?thesis by (simp add: meter_def)
  qed
  moreover have "drr_frame s ?t" using same_dataD(1) [OF r(2)] by (simp add: drr_frame_def drr_static_def)
  ultimately show ?thesis by (intro exI [of _ ?t]) simp
qed

text \<open>The flow with the most bytes is one of the ring.\<close>

lemma max_flow_ring:
  assumes "ring_ok bs head (x # xs)" "mx \<in> S" "set (x # xs) \<subseteq> S"
  shows "\<exists>r. max_flow n bs (Some x) mx = Some r \<and> r \<in> S"
  using assms
proof (induction n arbitrary: x xs mx head)
  case (Suc n)
  obtain y ys where y: "xs @ [x] = y # ys" by (cases "xs @ [x]") auto
  have "set (y # ys) \<subseteq> S" using Suc.prems(3) by (simp flip: y)
  from Suc.IH [OF _ _ this, of "Some y" "if dn_bcount (bs ! mx) < dn_bcount (bs ! x) then x else mx"] ring_next [OF Suc.prems(1)] Suc.prems(2,3) y
  show ?case by simp
qed simp

text \<open>\<open>drr_live\<close>: the ring is that of the flows with packets.\<close>

lemma drr_okD:
  assumes "drr_ok s xs fs"
  shows "drr_core s xs fs" "\<And>i. i \<in> set xs \<longleftrightarrow> fs i \<noteq> []" "dr_flwcnt s = int (length xs)" "drr_conf s"
    "\<And>i. i \<in> set xs \<Longrightarrow> i < length (dr_nodes s)" "dr_curr s = (case xs of [] \<Rightarrow> None | x # _ \<Rightarrow> Some x)" "distinct xs"
  using assms by (auto simp: drr_ok_def drr_core_def ring_ok_def)

lemma bytes_pos: "drr_conf s \<Longrightarrow> ps \<noteq> [] \<Longrightarrow> 0 < bytes s ps"
proof (induction ps)
  case (Cons p ps)
  have "0 \<le> pm_size (drr_mem s) a" for a using Cons.prems(1) by (simp add: drr_conf_def less_imp_le)
  then have "0 \<le> bytes s ps" by (auto simp: bytes_def intro!: sum_list_nonneg)
  with Cons.prems(1) show ?case by (auto simp: bytes_def drr_conf_def intro: add_pos_nonneg)
qed simp

lemma drr_empty:
  assumes "drr_ok s xs fs"
  shows "dr_bytecnt s = 0 \<longleftrightarrow> xs = []" "0 \<le> dr_bytecnt s"
proof -
  note d = drr_okD [OF assms]
  have b: "dr_bytecnt s = (\<Sum>i<length (dr_nodes s). bytes s (fs i))" using d(1) by (simp add: drr_core_def)
  have nn: "0 \<le> bytes s (fs i)" for i using bytes_pos [OF d(4), of "fs i"] by (cases "fs i = []") (auto simp: bytes_def)
  show "0 \<le> dr_bytecnt s" unfolding b by (intro sum_nonneg nn)
  have "dr_bytecnt s = 0 \<longleftrightarrow> (\<forall>i<length (dr_nodes s). bytes s (fs i) = 0)" unfolding b using nn by (subst sum_nonneg_eq_0_iff) auto
  also have "\<dots> \<longleftrightarrow> (\<forall>i<length (dr_nodes s). fs i = [])"
    using bytes_pos [OF d(4)] by (auto simp: bytes_def) (metis less_irrefl bytes_def)
  also have "\<dots> \<longleftrightarrow> xs = []" using d(2,5) by (cases xs) force+
  finally show "dr_bytecnt s = 0 \<longleftrightarrow> xs = []" .
qed

end
