(* ===== verification/DrrOps.thy ===== *)
theory DrrOps
  imports DrrInv
begin

text \<open>Arrivals and departures of DRR: they return, keep the invariant, and lose no packet.\<close>

section \<open>Arrival\<close>

lemma drr_activate_ok:
  assumes s: "drr_core s xs fs" and i: "i < length (dr_nodes s)" "i \<notin> set xs"
  shows "\<exists>t. drr_activate i s = Some t \<and> drr_core t (xs @ [i]) fs \<and> drr_frame s t \<and> q_out t = q_out s \<and> drr_mem t = drr_mem s \<and>
    dr_flwcnt t = dr_flwcnt s \<and> dr_bytecnt t = dr_bytecnt s \<and> dr_pktcnt t = dr_pktcnt s \<and> (\<forall>j<length (dr_nodes s). meter t j = meter s j)"
proof -
  have "ring_ok (dr_nodes s) (dr_curr s) xs" using s by (simp add: drr_core_def)
  from ring_activate_ok [OF this i] obtain bs c where
    r: "ring_activate i (dr_curr s) (dr_nodes s) = Some (bs, c)" "ring_ok bs c (xs @ [i])" "same_data (dr_nodes s) bs" by blast
  let ?t = "s\<lparr>dr_nodes := bs, dr_curr := c\<rparr>"
  have "drr_activate i s = Some ?t" by (simp add: drr_activate_def r)
  moreover have "drr_core ?t (xs @ [i]) fs" by (rule drr_core_ring [OF s r(2,3)])
  moreover have "meter ?t j = meter s j" if "j < length (dr_nodes s)" for j
  proof -
    from r(3) that obtain p n where "bs ! j = (dr_nodes s ! j)\<lparr>rn_prev := p, rn_next := n\<rparr>" by (auto simp: same_data_def)
    then show ?thesis by (simp add: meter_def)
  qed
  moreover have "drr_frame s ?t" using same_dataD(1) [OF r(3)] by (simp add: drr_frame_def drr_static_def)
  ultimately show ?thesis by (intro exI [of _ ?t]) simp
qed

text \<open>A bucket whose deficit is cleared.\<close>

lemma drr_core_deficit:
  assumes s: "drr_core s xs fs" and i: "i < length (dr_nodes s)" "0 \<le> d"
    and f: "\<And>b. f b = b\<lparr>dn_deficit := d, dn_turn := g b\<rparr>"
  shows "drr_core (upd_node i f s) xs fs" "drr_frame s (upd_node i f s)"
    "j < length (dr_nodes s) \<Longrightarrow> meter (upd_node i f s) j = (if j = i then (d, g (dr_nodes s ! i)) else meter s j)"
proof -
  have n: "node_ok (drr_mem s) (dr_nodes s ! i) (fs i)" using s i by (simp add: drr_core_def)
  have "drr_core (upd_node i f s) xs (fs(i := fs i))"
  proof (rule drr_core_step [OF s i(1)])
    show "dr_nodes (upd_node i f s) = set_node i f (dr_nodes s)" by (simp add: upd_node_def)
    show "node_ok (drr_mem (upd_node i f s)) (f (dr_nodes s ! i)) (fs i)" using n i(2) by (simp add: node_ok_def f)
    show "\<And>p. p \<in> set (fs i) \<Longrightarrow> drr_bucket s p = Some i" using s by (simp add: drr_core_def)
  qed (simp_all add: upd_node_def drr_static_def f drr_mem_def)
  then show "drr_core (upd_node i f s) xs fs" by simp
  show "drr_frame s (upd_node i f s)" by (simp add: upd_node_def drr_static_def drr_frame_def drr_mem_def)
  show "j < length (dr_nodes s) \<Longrightarrow> meter (upd_node i f s) j = (if j = i then (d, g (dr_nodes s ! i)) else meter s j)"
    using i(1) by (simp add: meter_def upd_node_def set_node_nth f)
qed

lemma drr_put_ok:
  assumes s: "drr_ok s xs fs" and i: "i < length (dr_nodes s)" "drr_bucket s p = Some i" "p \<notin> set (fs i)"
  shows "\<exists>t. drr_put i p s = Some t \<and> drr_ok t (if fs i = [] then xs @ [i] else xs) (fs(i := fs i @ [p])) \<and> drr_frame s t \<and>
    q_out t = q_out s \<and> (\<forall>j<length (dr_nodes s). meter t j = (if j = i \<and> fs i = [] then (0, snd (meter s i)) else meter s j))"
proof -
  note d = drr_okD [OF s]
  let ?b = "dr_nodes s ! i" and ?m = "drr_mem s"
  define c where "c = (if dr_mask s then dr_saddr s p AND 65520 else dr_saddr s p)"
  define g where "g = (\<lambda>b :: drr_node. if dn_src b = - 1 then b\<lparr>dn_src := c\<rparr> else b)"
  have n: "node_ok ?m ?b (fs i)" using d(1) i(1) by (simp add: drr_core_def)
  obtain r m q where e: "pq_enque p (?m, rn_q ?b) = (r, (m, q))" by (cases "pq_enque p (?m, rn_q ?b)") auto
  have q: "pq_ok (m, q) (fs i @ [p])" using pq_enque_ok [of "(?m, rn_q ?b)" "fs i" p] n i(3) e by (simp add: node_ok_def)
  have m: "pm_size m = pm_size ?m" "\<And>a. a \<noteq> p \<Longrightarrow> a \<notin> set (fs i) \<Longrightarrow> pm_next m a = pm_next ?m a"
    using pq_enque_mem [OF _ e] n by (auto simp: node_ok_def)
  have g: "rn_q (g b) = rn_q b" "rn_pkts (g b) = rn_pkts b" "dn_bcount (g b) = dn_bcount b" "rn_next (g b) = rn_next b"
    "rn_prev (g b) = rn_prev b" "dn_deficit (g b) = dn_deficit b" "dn_turn (g b) = dn_turn b" for b by (simp_all add: g_def)
  define s1 where "s1 = upd_node i g s"
  have np: "node_pq i s1 = (?m, rn_q ?b)" using i(1) by (simp add: node_pq_def s1_def upd_node_def set_node_nth g drr_mem_def)
  define s2 where "s2 = set_node_pq i (m, q) s1"
  have m2: "pm_size (drr_mem s2) p = pm_size ?m p" by (simp add: s2_def m(1))
  define f2 where "f2 = (\<lambda>b :: drr_node. b\<lparr>rn_pkts := rn_pkts b + 1, dn_bcount := dn_bcount b + pm_size (drr_mem s2) p\<rparr>)"
  define s3 where "s3 = (upd_node i f2 s2)\<lparr>dr_pktcnt := dr_pktcnt (upd_node i f2 s2) + 1,
    dr_bytecnt := dr_bytecnt (upd_node i f2 s2) + pm_size (drr_mem s2) p\<rparr>"
  define f where "f = (\<lambda>b. f2 ((g b)\<lparr>rn_q := q\<rparr>))"
  have n3: "dr_nodes s3 = set_node i f (dr_nodes s)" using i(1)
    by (simp add: s3_def upd_node_def set_node_def f_def) (simp add: s2_def s1_def upd_node_def set_node_pq_def set_node_def)
  have m3: "drr_mem s3 = m" by (simp add: s3_def) (simp add: s2_def)
  have st3: "drr_static s3 = drr_static s" "dr_curr s3 = dr_curr s" "q_out s3 = q_out s" "dr_flwcnt s3 = dr_flwcnt s"
    "dr_bytecnt s3 = dr_bytecnt s + pm_size ?m p" "dr_pktcnt s3 = dr_pktcnt s + 1" "q_blocked s3 = q_blocked s" "q_unblock_on_resume s3 = q_unblock_on_resume s"
    by (simp_all add: s3_def m2 drr_static_def upd_node_def) (simp_all add: s2_def s1_def upd_node_def set_node_pq_def)
  have core: "drr_core s3 xs (fs(i := fs i @ [p]))"
  proof (rule drr_core_step [OF d(1) i(1) n3 _ _ st3(1,2)])
    show "node_ok (drr_mem s3) (f ?b) (fs i @ [p])" using n q m(1) by (simp add: m3 node_ok_def f_def f2_def m2 g)
    show "\<And>a. a \<in> set (fs i @ [p]) \<Longrightarrow> drr_bucket s a = Some i" using d(1) i(2) by (auto simp: drr_core_def)
  qed (auto simp: f_def f2_def g m3 m st3 bytes_def)
  have fr: "drr_frame s s3" by (simp add: drr_frame_def n3 m3 m(1) st3)
  have mt: "meter s3 j = meter s j" if "j < length (dr_nodes s)" for j
    using that i(1) by (simp add: meter_def n3 set_node_nth f_def f2_def g)
  have pk: "rn_pkts (dr_nodes s3 ! i) = 1 + int (length (fs i))" using i(1) n by (simp add: n3 set_node_nth f_def f2_def g node_ok_def)
  have put: "drr_put i p s = (if rn_pkts (dr_nodes s3 ! i) = 1
      then map_option (\<lambda>s. (upd_node i (dn_deficit_update (\<lambda>_. 0)) s)\<lparr>dr_flwcnt := dr_flwcnt s + 1\<rparr>) (drr_activate i s3) else Some s3)"
    unfolding drr_put_def Let_def c_def [symmetric] g_def [symmetric] s1_def [symmetric] np e snd_conv
      s2_def [symmetric] f2_def [symmetric] s3_def [symmetric] by (rule refl)
  show ?thesis
  proof (cases "fs i = []")
    case False
    then have "drr_ok s3 xs (fs(i := fs i @ [p]))" using core d(2,3) st3(4) by (auto simp: drr_ok_def)
    with False put pk fr st3(3) mt show ?thesis by (intro exI [of _ s3]) auto
  next
    case True
    then have x: "i \<notin> set xs" using d(2) by blast
    from drr_activate_ok [OF core _ x] i(1) n3 obtain u where
      u: "drr_activate i s3 = Some u" "drr_core u (xs @ [i]) (fs(i := fs i @ [p]))" "drr_frame s3 u" "q_out u = q_out s3" "dr_flwcnt u = dr_flwcnt s3"
        "\<And>j. j < length (dr_nodes s) \<Longrightarrow> meter u j = meter s3 j" by auto
    have l: "length (dr_nodes u) = length (dr_nodes s)" using drr_frameD(3) [OF u(3)] drr_frameD(3) [OF fr] by simp
    note z = drr_core_deficit [where d = 0 and g = dn_turn and f = "dn_deficit_update (\<lambda>_. 0)", OF u(2) i(1) [folded l]]
    define t where "t = (upd_node i (dn_deficit_update (\<lambda>_. 0)) u)\<lparr>dr_flwcnt := dr_flwcnt u + 1\<rparr>"
    have "drr_core t (xs @ [i]) (fs(i := fs i @ [p]))" using z(1) by (simp add: t_def)
    then have "drr_ok t (xs @ [i]) (fs(i := fs i @ [p]))" using d(2,3) u(5) st3(4) by (auto simp: drr_ok_def t_def upd_node_def)
    moreover have "drr_frame u t" using z(2) by (simp add: t_def)
    then have "drr_frame s t" using drr_frame_trans [OF fr] drr_frame_trans [OF u(3)] by blast
    moreover have "meter t j = (if j = i then (0, snd (meter s i)) else meter s j)" if "j < length (dr_nodes s)" for j
      using z(3) [of j] that i(1) l u(6) mt by (simp add: t_def meter_def upd_node_def)
    moreover have "drr_put i p s = Some t" using put pk True u(1) by (simp add: t_def)
    moreover have "q_out t = q_out s" using u(4) st3(3) by (simp add: t_def upd_node_def)
    ultimately show ?thesis using True by (intro exI [of _ t]) simp
  qed
qed

section \<open>Drops\<close>

lemma set_node_same: "(\<And>b. f b = b) \<Longrightarrow> set_node i f bs = bs"
  by (simp add: set_node_def)

lemma remove1_split: "distinct (ys @ r # zs) \<Longrightarrow> remove1 r (ys @ r # zs) = ys @ zs"
  by (induction ys) auto

lemma drr_drop_step_ok:
  assumes s: "drr_ok s xs fs" and x: "xs \<noteq> []"
  shows "\<exists>t r p ps. drr_drop_step s = Some t \<and> r < length (dr_nodes s) \<and> fs r = p # ps \<and>
    drr_ok t (if ps = [] then remove1 r xs else xs) (fs(r := ps)) \<and> drr_frame s t \<and> q_out t = q_out s @ [Dropped p]"
proof -
  note d = drr_okD [OF s]
  obtain c w where cw: "xs = c # w" using x by (cases xs) auto
  then have c: "dr_curr s = Some c" using d(6) by simp
  have "ring_ok (dr_nodes s) (Some c) (c # w)" using d(1) c cw by (simp add: drr_core_def)
  from max_flow_ring [OF this, of c "set xs"] cw obtain r where
    r: "max_flow (nat (dr_flwcnt s)) (dr_nodes s) (Some c) c = Some r" "r \<in> set xs" by auto
  then obtain p ps where f: "fs r = p # ps" using d(2) [of r] by (cases "fs r") auto
  have rl: "r < length (dr_nodes s)" using d(5) r(2) .
  have n: "node_ok (drr_mem s) (dr_nodes s ! r) (fs r)" using d(1) rl by (simp add: drr_core_def)
  have sn: "dr_nodes s = set_node r (dn_deficit_update (\<lambda>_. dn_deficit (dr_nodes s ! r))) (dr_nodes s)"
    by (simp add: set_node_def)
  from drr_take [OF d(1) rl f refl sn _ refl refl refl refl] n obtain q where
    q: "pq_deque (node_pq r s) = (Some p, q)" "drr_core (drr_less r p (set_node_pq r q s)) xs (fs(r := ps))"
      "dr_nodes (drr_less r p (set_node_pq r q s)) = set_node r (\<lambda>b. b\<lparr>rn_q := snd q, rn_pkts := int (length ps),
         dn_bcount := dn_bcount b - pm_size (drr_mem s) p, dn_deficit := dn_deficit (dr_nodes s ! r)\<rparr>) (dr_nodes s)"
      "drr_mem (drr_less r p (set_node_pq r q s)) = drr_mem s"
    by (auto simp: node_ok_def)
  define t where "t = emit (Dropped p) (drr_less r p (set_node_pq r q s))"
  note fr = drr_less_frame [OF q(4) drr_frame_refl]
  have t: "drr_core t xs (fs(r := ps))" "drr_frame s t" "q_out t = q_out s @ [Dropped p]" "dr_flwcnt t = int (length xs)"
    using q(2) fr d(3) by (simp_all add: t_def) (simp add: emit_def)
  have pk: "rn_pkts (dr_nodes t ! r) = int (length ps)" using rl q(3) by (simp add: t_def emit_def set_node_nth)
  have step: "drr_drop_step s = (if rn_pkts (dr_nodes t ! r) = 0 then map_option (\<lambda>s. s\<lparr>dr_flwcnt := dr_flwcnt s - 1\<rparr>) (drr_idle r t) else Some t)"
    by (simp add: drr_drop_step_def c r(1) q(1) t_def Let_def)
  show ?thesis
  proof (cases "ps = []")
    case False
    then have "drr_ok t xs (fs(r := ps))" using t d(2) r(2) by (auto simp: drr_ok_def)
    with False t step pk rl f show ?thesis by (intro exI [of _ t] exI [of _ r] exI [of _ p] exI [of _ ps]) simp
  next
    case True
    from split_list [OF r(2)] obtain ys zs where yz: "xs = ys @ r # zs" by blast
    with d(7) have r1: "remove1 r xs = ys @ zs" and dz: "distinct (ys @ r # zs)" using remove1_split [of ys r zs] by simp_all
    from drr_idle_ok [OF t(1) [unfolded yz]] obtain u where
      u: "drr_idle r t = Some u" "drr_core u (ys @ zs) (fs(r := ps))" "drr_frame t u" "q_out u = q_out t" "dr_flwcnt u = dr_flwcnt t" by blast
    let ?u = "u\<lparr>dr_flwcnt := dr_flwcnt u - 1\<rparr>"
    have "i \<in> set (ys @ zs) \<longleftrightarrow> (fs(r := ps)) i \<noteq> []" for i using d(2) [of i] dz True by (auto simp: yz)
    then have "drr_ok ?u (ys @ zs) (fs(r := ps))" using u(2,5) t(4) yz by (auto simp: drr_ok_def)
    moreover have "drr_frame s ?u" using drr_frame_trans [OF t(2) u(3)] by simp
    ultimately show ?thesis using step pk True u(1,4) t(3) r1 rl f
      by (intro exI [of _ ?u] exI [of _ r] exI [of _ p] exI [of _ ps]) simp
  qed
qed

text \<open>What is kept of a packet list, whatever is dropped.\<close>

lemma drr_drop_loop_ok:
  "drr_ok s xs fs \<Longrightarrow> \<exists>t ys gs ds. drr_drop_loop s = Some t \<and> drr_ok t ys gs \<and> drr_frame s t \<and> dr_bytecnt t \<le> dr_blimit t \<and>
    q_out t = q_out s @ map Dropped ds \<and> drr_held s fs = drr_held t gs + mset ds \<and> (\<forall>i. suffix (gs i) (fs i)) \<and>
    (ds = [] \<longrightarrow> t = s \<and> ys = xs \<and> gs = fs)"
proof (induction "nat (dr_pktcnt s)" arbitrary: s xs fs rule: less_induct)
  case less
  show ?case
  proof (cases "dr_bytecnt s \<le> dr_blimit s")
    case True
    then have "drr_drop_loop s = Some s" by (subst drr_drop_loop.simps) simp
    with True less.prems show ?thesis
      by (intro exI [of _ s] exI [of _ xs] exI [of _ fs] exI [of _ "[]"]) (simp add: drr_frame_refl)
  next
    case False
    note d = drr_okD [OF less.prems]
    have "xs \<noteq> []" using False drr_empty [OF less.prems] d(4) by (auto simp: drr_conf_def)
    from drr_drop_step_ok [OF less.prems this] obtain u r p ps where
      u: "drr_drop_step s = Some u" "r < length (dr_nodes s)" "fs r = p # ps"
        "drr_ok u (if ps = [] then remove1 r xs else xs) (fs(r := ps))" "drr_frame s u" "q_out u = q_out s @ [Dropped p]" by blast
    have lu: "length (dr_nodes u) = length (dr_nodes s)" using drr_frameD(3) [OF u(5)] .
    have "dr_pktcnt u = (\<Sum>i<length (dr_nodes s). int (length ((fs(r := ps)) i)))" using u(4) lu by (simp add: drr_ok_def drr_core_def)
    also have "\<dots> = dr_pktcnt s - 1" using sum_fun_upd [OF u(2), of "\<lambda>ps. int (length ps)" fs ps] d(1) u(3) by (simp add: drr_core_def)
    finally have "dr_pktcnt u = dr_pktcnt s - 1" .
    moreover have "0 \<le> dr_pktcnt u" using u(4) by (simp add: drr_ok_def drr_core_def sum_nonneg)
    ultimately have "nat (dr_pktcnt u) < nat (dr_pktcnt s)" by simp
    from less.hyps [OF this u(4)] obtain t ys gs ds where
      t: "drr_drop_loop u = Some t" "drr_ok t ys gs" "drr_frame u t" "dr_bytecnt t \<le> dr_blimit t" "q_out t = q_out u @ map Dropped ds"
        "drr_held u (fs(r := ps)) = drr_held t gs + mset ds" "\<forall>i. suffix (gs i) ((fs(r := ps)) i)" by blast
    have "drr_drop_loop s = Some t" using False u(1) t(1) by (subst drr_drop_loop.simps) simp
    moreover have "drr_held s fs = drr_held t gs + mset (p # ds)"
      using held_upd [OF u(2), of fs ps] t(6) u(3) lu by (simp add: drr_held_def)
    moreover have "suffix (gs i) (fs i)" for i
      using t(7) [rule_format, of i] u(3) by (cases "i = r") (auto intro: suffix_ConsI)
    moreover have "drr_frame s t" by (rule drr_frame_trans [OF u(5) t(3)])
    ultimately show ?thesis using t(2,4,5) u(6) False
      by (intro exI [of _ t] exI [of _ ys] exI [of _ gs] exI [of _ "p # ds"]) simp
  qed
qed

section \<open>All of an arrival\<close>

lemma drr_hash_nonneg:
  assumes "0 \<le> dr_saddr s p"
  shows "0 \<le> drr_hash s p"
proof -
  define i where "i = (if dr_mask s then dr_saddr s p AND 65520 else dr_saddr s p)"
  have i: "0 \<le> i" using assms by (simp add: i_def)
  have h: "drr_hash s p = cmod (i + i div 256 - i div 16 - 1) 16777215 + 1"
    unfolding drr_hash_def i_def [symmetric] Let_def by (simp add: drop_bit_eq_div not_int_def algebra_simps)
  show ?thesis
  proof (cases "i = 0")
    case True
    then show ?thesis by (simp add: h cmod_def cdiv_def)
  next
    case False
    then have "i div 16 < i" using i by (simp add: int_div_less_self)
    moreover have "0 \<le> i div 256" using i by simp
    ultimately have "0 \<le> i + i div 256 - i div 16 - 1" by linarith
    then show ?thesis by (simp add: h cmod_nonneg)
  qed
qed

lemma drr_bucket_some:
  assumes "drr_conf s"
  shows "\<exists>i. drr_bucket s p = Some i \<and> i < nat (dr_buckets s)"
proof -
  have h: "0 \<le> drr_hash s p" "0 < dr_buckets s" using assms drr_hash_nonneg [of s p] by (auto simp: drr_conf_def)
  then have "cmod (drr_hash s p) (dr_buckets s) = drr_hash s p mod dr_buckets s" by (rule cmod_nonneg)
  with h show ?thesis by (simp add: drr_bucket_def Let_def)
qed

lemma drr_alloc_ok:
  assumes s: "drr_ok s xs fs"
  shows "drr_ok (drr_alloc s) xs fs" "length (dr_nodes (drr_alloc s)) = nat (dr_buckets s)" "drr_held (drr_alloc s) fs = drr_held s fs"
    "drr_static (drr_alloc s) = drr_static s" "drr_mem (drr_alloc s) = drr_mem s" "q_out (drr_alloc s) = q_out s" "q_blocked (drr_alloc s) = q_blocked s"
    "q_unblock_on_resume (drr_alloc s) = q_unblock_on_resume s" "i < length (dr_nodes s) \<Longrightarrow> meter (drr_alloc s) i = meter s i"
    "length (dr_nodes s) \<le> i \<Longrightarrow> i < nat (dr_buckets s) \<Longrightarrow> meter (drr_alloc s) i = (0, False)"
proof -
  note d = drr_okD [OF s]
  have b: "0 < dr_buckets s" using d(4) by (simp add: drr_conf_def)
  have n: "dr_nodes s \<noteq> [] \<Longrightarrow> length (dr_nodes s) = nat (dr_buckets s)" using d(1) by (auto simp: drr_core_def)
  then show "length (dr_nodes (drr_alloc s)) = nat (dr_buckets s)" by (cases "dr_nodes s = []") (simp_all add: drr_alloc_def)
  show st: "drr_static (drr_alloc s) = drr_static s" "drr_mem (drr_alloc s) = drr_mem s" "q_out (drr_alloc s) = q_out s"
    "q_blocked (drr_alloc s) = q_blocked s" "q_unblock_on_resume (drr_alloc s) = q_unblock_on_resume s"
    by (simp_all add: drr_alloc_def drr_static_def)
  show "i < length (dr_nodes s) \<Longrightarrow> meter (drr_alloc s) i = meter s i" by (auto simp: drr_alloc_def)
  show "length (dr_nodes s) \<le> i \<Longrightarrow> i < nat (dr_buckets s) \<Longrightarrow> meter (drr_alloc s) i = (0, False)"
    using n by (cases "dr_nodes s = []") (simp_all add: drr_alloc_def meter_def drr_node_new_def)
  have x: "xs = [] \<and> fs = (\<lambda>i. [])" if "dr_nodes s = []"
    using that d(2,5) by (cases xs) (auto simp: fun_eq_iff)
  have "drr_ok (drr_alloc s) xs fs \<and> drr_held (drr_alloc s) fs = drr_held s fs"
  proof (cases "dr_nodes s = []")
    case True
    have bt: "bytes (s\<lparr>dr_nodes := ns\<rparr>) [] = 0" for ns by (simp add: bytes_def)
    show ?thesis using s x [OF True] True b
      by (auto simp: drr_ok_def drr_core_def drr_conf_def drr_alloc_def ring_ok_def node_ok_def drr_node_new_def pq_ok_init bt drr_held_def)
  qed (use s in \<open>simp add: drr_alloc_def\<close>)
  then show "drr_ok (drr_alloc s) xs fs" "drr_held (drr_alloc s) fs = drr_held s fs" by simp_all
qed

lemma drr_enque_ok:
  assumes s: "drr_ok s xs fs" and p: "p \<notin># drr_held s fs"
  shows "\<exists>i t ys gs ds. drr_bucket s p = Some i \<and> i < nat (dr_buckets s) \<and> drr_enque p s = Some t \<and> drr_ok t ys gs \<and>
    drr_frame (drr_alloc s) t \<and> q_out t = q_out s @ map Dropped ds \<and> add_mset p (drr_held s fs) = drr_held t gs + mset ds \<and>
    dr_bytecnt t \<le> dr_blimit t \<and> (\<forall>j. subseq (gs j) (if j = i then fs i @ [p] else fs j)) \<and>
    (ds = [] \<longrightarrow> ys = (if fs i = [] then xs @ [i] else xs) \<and> gs = fs(i := fs i @ [p]) \<and>
      (\<forall>j<nat (dr_buckets s). meter t j = (if j = i \<and> fs i = [] then (0, snd (meter (drr_alloc s) i)) else meter (drr_alloc s) j)))"
proof -
  note a = drr_alloc_ok [OF s]
  from drr_bucket_some [of s p] drr_okD(4) [OF s] obtain i where i: "drr_bucket s p = Some i" "i < nat (dr_buckets s)" by blast
  have il: "i < length (dr_nodes (drr_alloc s))" using i(2) a(2) by simp
  have b: "drr_bucket (drr_alloc s) p = Some i" using i(1) drr_static_bucket [OF a(4)] by simp
  have pf: "p \<notin> set (fs i)"
  proof
    assume "p \<in> set (fs i)"
    then have "p \<in># (\<Sum>j<length (dr_nodes (drr_alloc s)). mset (fs j))" using il by (auto simp: set_mset_sum)
    with p a(3) show False by (simp add: drr_held_def)
  qed
  from drr_put_ok [OF a(1) il b pf] obtain u where
    u: "drr_put i p (drr_alloc s) = Some u" "drr_ok u (if fs i = [] then xs @ [i] else xs) (fs(i := fs i @ [p]))" "drr_frame (drr_alloc s) u"
      "q_out u = q_out s" "\<forall>j<length (dr_nodes (drr_alloc s)). meter u j = (if j = i \<and> fs i = [] then (0, snd (meter (drr_alloc s) i)) else meter (drr_alloc s) j)"
    by (auto simp: a(6))
  from drr_drop_loop_ok [OF u(2)] obtain t ys gs ds where
    t: "drr_drop_loop u = Some t" "drr_ok t ys gs" "drr_frame u t" "q_out t = q_out u @ map Dropped ds"
      "drr_held u (fs(i := fs i @ [p])) = drr_held t gs + mset ds" "\<forall>j. suffix (gs j) ((fs(i := fs i @ [p])) j)"
      "ds = [] \<longrightarrow> t = u \<and> ys = (if fs i = [] then xs @ [i] else xs) \<and> gs = fs(i := fs i @ [p])"
      "dr_bytecnt t \<le> dr_blimit t" by blast
  have "drr_enque p s = Some t" using b il u(1) t(1) by (simp add: drr_enque_def Let_def)
  moreover have "add_mset p (drr_held s fs) = drr_held t gs + mset ds"
    using held_upd [OF il, of fs "fs i @ [p]"] t(5) a(3) drr_frameD(3) [OF u(3)] by (simp add: drr_held_def)
  moreover have "\<forall>j. subseq (gs j) (if j = i then fs i @ [p] else fs j)"
  proof
    fix j
    show "subseq (gs j) (if j = i then fs i @ [p] else fs j)" using suffix_imp_subseq [OF t(6) [rule_format, of j]] by (simp add: fun_upd_def)
  qed
  ultimately show ?thesis using i t(2,4,7,8) u(4,5) a(2) drr_frame_trans [OF u(3) t(3)]
    by (intro exI [of _ i] exI [of _ t] exI [of _ ys] exI [of _ gs] exI [of _ ds]) simp
qed

section \<open>Departure\<close>

definition new_deficit :: "drr \<Rightarrow> nat \<Rightarrow> int" where
  "new_deficit s c = (if snd (meter s c) then fst (meter s c) else fst (meter s c) + dr_quantum s)"

lemma upd_node_at: "f (dr_nodes s ! i) = g (dr_nodes s ! i) \<Longrightarrow> upd_node i f s = upd_node i g s"
  by (simp add: upd_node_def set_node_def)

lemma drr_turn_ok:
  assumes s: "drr_ok s (c # w) fs"
  shows "drr_ok (drr_turn c s) (c # w) fs" "drr_frame s (drr_turn c s)" "q_out (drr_turn c s) = q_out s"
    "drr_mem (drr_turn c s) = drr_mem s" "dr_nodes (drr_turn c s) = set_node c (\<lambda>b. b\<lparr>dn_deficit := new_deficit s c, dn_turn := True\<rparr>) (dr_nodes s)"
    "\<And>j. j < length (dr_nodes s) \<Longrightarrow> meter (drr_turn c s) j = (if j = c then (new_deficit s c, True) else meter s j)"
    "0 \<le> new_deficit s c" "c < length (dr_nodes s)"
proof -
  note d = drr_okD [OF s]
  show c: "c < length (dr_nodes s)" using d(5) by simp
  let ?f = "\<lambda>b. b\<lparr>dn_deficit := new_deficit s c, dn_turn := True\<rparr>"
  have e: "drr_turn c s = upd_node c ?f s" unfolding drr_turn_def by (rule upd_node_at) (simp add: new_deficit_def meter_def)
  have "0 \<le> dn_deficit (dr_nodes s ! c)" using d(1) c by (simp add: drr_core_def node_ok_def)
  then show n: "0 \<le> new_deficit s c" using d(4) by (simp add: new_deficit_def meter_def drr_conf_def)
  note u = drr_core_deficit [where f = ?f and d = "new_deficit s c" and g = "\<lambda>_. True", OF d(1) c n refl]
  show "drr_ok (drr_turn c s) (c # w) fs" using u(1) d(2,3) unfolding drr_ok_def e by (simp add: upd_node_def)
  show "drr_frame s (drr_turn c s)" using u(2) by (simp add: e)
  show "q_out (drr_turn c s) = q_out s" "drr_mem (drr_turn c s) = drr_mem s" "dr_nodes (drr_turn c s) = set_node c ?f (dr_nodes s)"
    by (simp_all add: e) (simp_all add: upd_node_def)
  show "\<And>j. j < length (dr_nodes s) \<Longrightarrow> meter (drr_turn c s) j = (if j = c then (new_deficit s c, True) else meter s j)"
    using u(3) by (simp add: e)
qed

lemma drr_serve_ok:
  assumes s: "drr_ok s (c # w) fs" and f: "fs c = p # ps" and m: "meter s c = (d, True)" "pm_size (drr_mem s) p \<le> d"
  shows "\<exists>t. drr_serve c p s = Some (Some p, t) \<and> drr_ok t (if ps = [] then w else c # w) (fs(c := ps)) \<and> drr_frame s t \<and> q_out t = q_out s \<and>
    (\<forall>j<length (dr_nodes s). meter t j =
      (if j = c then (if ps = [] then (0, False) else (d - pm_size (drr_mem s) p, True)) else meter s j))"
proof -
  note o = drr_okD [OF s]
  have c: "c < length (dr_nodes s)" using o(5) by simp
  let ?d = "d - pm_size (drr_mem s) p"
  define u where "u = upd_node c (\<lambda>b. b\<lparr>dn_deficit := dn_deficit b - pm_size (drr_mem s) p\<rparr>) s"
  have u: "drr_mem u = drr_mem s" "drr_static u = drr_static s" "dr_curr u = dr_curr s" "dr_bytecnt u = dr_bytecnt s" "dr_pktcnt u = dr_pktcnt s"
    "q_out u = q_out s" "dr_flwcnt u = dr_flwcnt s" "drr_frame s u"
    by (simp_all add: u_def) (simp_all add: upd_node_def drr_static_def drr_frame_def drr_mem_def)
  have un: "dr_nodes u = set_node c (dn_deficit_update (\<lambda>_. ?d)) (dr_nodes s)" using m(1)
    by (simp add: u_def upd_node_def set_node_def meter_def)
  from drr_take [OF o(1) c f u(1) un _ u(2-5)] m(2) obtain q where
    q: "pq_deque (node_pq c u) = (Some p, q)" "drr_core (drr_less c p (set_node_pq c q u)) (c # w) (fs(c := ps))"
      "dr_nodes (drr_less c p (set_node_pq c q u)) = set_node c (\<lambda>b. b\<lparr>rn_q := snd q, rn_pkts := int (length ps),
         dn_bcount := dn_bcount b - pm_size (drr_mem s) p, dn_deficit := ?d\<rparr>) (dr_nodes s)"
      "drr_mem (drr_less c p (set_node_pq c q u)) = drr_mem s" by auto
  define t where "t = drr_less c p (set_node_pq c q u)"
  note fr = drr_less_frame [OF q(4) u(8)]
  have t: "drr_core t (c # w) (fs(c := ps))" "drr_frame s t" "q_out t = q_out s" "dr_flwcnt t = int (length (c # w))"
    using q(2) fr u(6,7) o(3) by (simp_all add: t_def)
  have pk: "rn_pkts (dr_nodes t ! c) = int (length ps)" using c q(3) by (simp add: t_def set_node_nth)
  have mt: "meter t j = (if j = c then (?d, True) else meter s j)" if "j < length (dr_nodes s)" for j
    using that c q(3) m(1) by (simp add: t_def meter_def set_node_nth)
  have serve: "drr_serve c p s = (if rn_pkts (dr_nodes t ! c) = 0 then
      map_option (\<lambda>s. (Some p, s)) (drr_idle c (upd_node c (\<lambda>b. b\<lparr>dn_turn := False, dn_deficit := 0\<rparr>) (t\<lparr>dr_flwcnt := dr_flwcnt t - 1\<rparr>)))
    else Some (Some p, t))"
    by (simp add: drr_serve_def q(1) Let_def flip: u_def) (simp add: t_def)
  show ?thesis
  proof (cases "ps = []")
    case False
    then have "drr_ok t (c # w) (fs(c := ps))" using t o(2) by (auto simp: drr_ok_def)
    with False t serve pk mt show ?thesis by (intro exI [of _ t]) simp
  next
    case True
    define v where "v = upd_node c (\<lambda>b. b\<lparr>dn_turn := False, dn_deficit := 0\<rparr>) (t\<lparr>dr_flwcnt := dr_flwcnt t - 1\<rparr>)"
    let ?t = "t\<lparr>dr_flwcnt := dr_flwcnt t - 1\<rparr>"
    have lt: "length (dr_nodes ?t) = length (dr_nodes s)" using drr_frameD(3) [OF t(2)] by simp
    have ct: "drr_core ?t (c # w) (fs(c := ps))" "c < length (dr_nodes ?t)" using t(1) c lt by simp_all
    have e: "b\<lparr>dn_turn := False, dn_deficit := 0\<rparr> = b\<lparr>dn_deficit := 0, dn_turn := False\<rparr>" for b :: drr_node by simp
    note v = drr_core_deficit [where f = "\<lambda>b. b\<lparr>dn_turn := False, dn_deficit := 0\<rparr>" and d = 0 and g = "\<lambda>_. False", OF ct _ e, folded v_def]
    from drr_idle_ok [of v "[]" c w "fs(c := ps)"] v(1) obtain x where
      x: "drr_idle c v = Some x" "drr_core x w (fs(c := ps))" "drr_frame v x" "q_out x = q_out v" "dr_flwcnt x = dr_flwcnt v"
        "\<forall>i<length (dr_nodes v). meter x i = meter v i" by auto
    have lv: "length (dr_nodes v) = length (dr_nodes s)" using drr_frameD(3) [OF v(2)] lt by simp
    have "c \<notin> set w" using o(7) by simp
    then have "drr_ok x w (fs(c := ps))" using x(2,5) t(4) o(2) True by (auto simp: drr_ok_def v_def upd_node_def)
    moreover have "drr_frame s x" using drr_frame_trans [OF t(2)] drr_frame_trans [OF v(2) x(3)] by (simp add: drr_frame_def drr_mem_def drr_static_def)
    moreover have "meter x j = (if j = c then (0, False) else meter s j)" if "j < length (dr_nodes s)" for j
      using x(6) v(3) [of j] mt [OF that] that lv lt by simp
    moreover have "q_out x = q_out s" using x(4) t(3) by (simp add: v_def upd_node_def)
    ultimately show ?thesis using serve pk True x(1) by (intro exI [of _ x]) (simp add: v_def)
  qed
qed

end
