(* ===== verification/DrrRounds.thy ===== *)
theory DrrRounds
  imports DrrOps
begin

text \<open>
  The rounds of DRR: each visit of a flow gives it a quantum, and either its first packet leaves or the next flow
  is visited.  The rounds end, as every visit brings the deficit of a flow closer to the size of
  its first packet.
\<close>

definition head_size :: "drr \<Rightarrow> (nat \<Rightarrow> addr list) \<Rightarrow> nat \<Rightarrow> int" where
  "head_size s fs i = pm_size (drr_mem s) (hd (fs i))"

lemma rounds_unfold:
  assumes s: "drr_ok s (c # w) fs" and f: "fs c = p # ps"
  shows "drr_rounds s =
    (if pm_size (drr_mem s) p \<le> new_deficit s c then drr_serve c p (drr_turn c s)
     else drr_rounds ((upd_node c (dn_turn_update (\<lambda>_. False)) (drr_turn c s))\<lparr>dr_curr := Some (hd (w @ [c]))\<rparr>))"
proof -
  note t = drr_turn_ok [OF s]
  have cu: "dr_curr s = Some c" using drr_okD(6) [OF s] by simp
  have "node_ok (drr_mem s) (dr_nodes (drr_turn c s) ! c) (p # ps)"
    using drr_okD(1) [OF t(1)] drr_frameD(3) [OF t(2)] t(4,8) f by (auto simp: drr_core_def)
  then have "chain (pm_next (drr_mem s)) (pq_head (rn_q (dr_nodes (drr_turn c s) ! c))) (p # ps)" by (simp add: node_ok_def pq_ok_pair)
  then have l: "pq_lookup 0 (node_pq c (drr_turn c s)) = Some p"
    using lookup_from_chain [of _ _ "p # ps" 0] by (simp add: pq_lookup_def node_pq_def t(4) del: chain.simps)
  have d: "dn_deficit (dr_nodes (drr_turn c s) ! c) = new_deficit s c" using t(5,8) by (simp add: set_node_nth)
  have "ring_ok (dr_nodes (drr_turn c s)) (dr_curr (drr_turn c s)) (c # w)" using drr_okD(1) [OF t(1)] by (simp add: drr_core_def)
  then have "rn_next (dr_nodes (drr_turn c s) ! c) = Some (hd (w @ [c]))" by (rule ring_next(1))
  moreover have "rn_next (dr_nodes (upd_node c (dn_turn_update (\<lambda>_. False)) (drr_turn c s)) ! c) = rn_next (dr_nodes (drr_turn c s) ! c)"
    using t(8) drr_frameD(3) [OF t(2)] by (simp add: upd_node_def set_node_nth)
  ultimately show ?thesis by (subst drr_rounds.simps) (simp add: cu l t(4) d Let_def)
qed

lemma rounds_serve:
  assumes s: "drr_ok s (c # w) fs" and f: "fs c = p # ps" and d: "pm_size (drr_mem s) p \<le> new_deficit s c"
  shows "\<exists>t. drr_rounds s = Some (Some p, t) \<and> drr_ok t (if ps = [] then w else c # w) (fs(c := ps)) \<and> drr_frame s t \<and> q_out t = q_out s \<and>
    (\<forall>j<length (dr_nodes s). meter t j =
      (if j = c then (if ps = [] then (0, False) else (new_deficit s c - pm_size (drr_mem s) p, True)) else meter s j))"
proof -
  note t = drr_turn_ok [OF s]
  have m: "meter (drr_turn c s) c = (new_deficit s c, True)" using t(6,8) by simp
  from drr_serve_ok [OF t(1) f m] d t(4) obtain u where
    u: "drr_serve c p (drr_turn c s) = Some (Some p, u)" "drr_ok u (if ps = [] then w else c # w) (fs(c := ps))" "drr_frame (drr_turn c s) u"
      "q_out u = q_out s" "\<forall>j<length (dr_nodes (drr_turn c s)). meter u j = (if j = c then (if ps = [] then (0, False)
        else (new_deficit s c - pm_size (drr_mem s) p, True)) else meter (drr_turn c s) j)" by (auto simp: t(3))
  have "drr_rounds s = Some (Some p, u)" using rounds_unfold [OF s f] d u(1) by simp
  moreover have "\<forall>j<length (dr_nodes s). meter u j =
      (if j = c then (if ps = [] then (0, False) else (new_deficit s c - pm_size (drr_mem s) p, True)) else meter s j)"
    using u(5) t(6) drr_frameD(3) [OF t(2)] by simp
  ultimately show ?thesis using u(2,4) drr_frame_trans [OF t(2) u(3)] by blast
qed

lemma rounds_next:
  assumes s: "drr_ok s (c # w) fs" and f: "fs c = p # ps" and d: "\<not> pm_size (drr_mem s) p \<le> new_deficit s c"
  shows "\<exists>u. drr_rounds s = drr_rounds u \<and> drr_ok u (w @ [c]) fs \<and> drr_frame s u \<and> q_out u = q_out s \<and> drr_mem u = drr_mem s \<and>
    (\<forall>j<length (dr_nodes s). meter u j = (if j = c then (new_deficit s c, False) else meter s j))"
proof -
  note t = drr_turn_ok [OF s]
  let ?v = "upd_node c (dn_turn_update (\<lambda>_. False)) (drr_turn c s)"
  let ?u = "?v\<lparr>dr_curr := Some (hd (w @ [c]))\<rparr>"
  have l: "length (dr_nodes (drr_turn c s)) = length (dr_nodes s)" using drr_frameD(3) [OF t(2)] .
  have e: "?v = upd_node c (\<lambda>b. b\<lparr>dn_deficit := new_deficit s c, dn_turn := False\<rparr>) (drr_turn c s)"
    using t(5,8) by (intro upd_node_at) (simp add: set_node_nth)
  have c: "c < length (dr_nodes (drr_turn c s))" using t(8) l by simp
  note v = drr_core_deficit [where f = "\<lambda>b. b\<lparr>dn_deficit := new_deficit s c, dn_turn := False\<rparr>" and d = "new_deficit s c" and g = "\<lambda>_. False",
    OF drr_okD(1) [OF t(1)] c t(7) refl, folded e]
  have "ring_ok (dr_nodes ?v) (dr_curr ?v) (c # w)" using v(1) by (simp add: drr_core_def)
  from drr_core_ring [OF v(1) ring_next(2) [OF this] same_data_refl] have "drr_core ?u (w @ [c]) fs" by (simp add: upd_node_def)
  then have "drr_ok ?u (w @ [c]) fs" using drr_okD(2,3) [OF t(1)] by (auto simp: drr_ok_def upd_node_def)
  moreover have "drr_frame s ?u" using drr_frame_trans [OF t(2) v(2)] by (simp add: drr_frame_def drr_static_def)
  moreover have "\<forall>j<length (dr_nodes s). meter ?u j = (if j = c then (new_deficit s c, False) else meter s j)"
    using v(3) l t(6) by (simp add: meter_def)
  moreover have "q_out ?u = q_out s" "drr_mem ?u = drr_mem s" using t(3,4) by (simp_all add: upd_node_def drr_mem_def)
  ultimately show ?thesis using rounds_unfold [OF s f] d by (intro exI [of _ ?u]) simp
qed

section \<open>The rounds end\<close>

text \<open>How far the flows are from sending.\<close>

definition distance :: "drr \<Rightarrow> nat list \<Rightarrow> (nat \<Rightarrow> addr list) \<Rightarrow> nat" where
  "distance s xs fs = (\<Sum>i\<in>set xs. 2 * nat (head_size s fs i - fst (meter s i)) + of_bool (snd (meter s i)))"

lemma distance_less:
  assumes s: "drr_ok s (c # w) fs" and f: "fs c = p # ps" and d: "\<not> pm_size (drr_mem s) p \<le> new_deficit s c"
    and u: "drr_mem u = drr_mem s" "\<forall>j<length (dr_nodes s). meter u j = (if j = c then (new_deficit s c, False) else meter s j)"
  shows "distance u (w @ [c]) fs < distance s (c # w) fs"
proof -
  note o = drr_okD [OF s]
  have c: "c < length (dr_nodes s)" "c \<notin> set w" using o(5,7) by simp_all
  let ?d = "\<lambda>s i. 2 * nat (head_size s fs i - fst (meter s i)) + of_bool (snd (meter s i))"
  have "?d u i = ?d s i" if "i \<in> set w" for i
    using u(2) that c(2) o(5) [of i] by (auto simp: head_size_def u(1))
  then have "(\<Sum>i\<in>set w. ?d u i) = (\<Sum>i\<in>set w. ?d s i)" by (rule sum.cong [OF refl])
  moreover have "?d u c < ?d s c"
    using u(2) c(1) d f o(4) by (auto simp: head_size_def u(1) new_deficit_def drr_conf_def)
  ultimately show ?thesis using c(2) by (simp add: distance_def)
qed

lemma drr_rounds_induct [consumes 1, case_names serve visit]:
  assumes "drr_ok s (c # w) fs"
    and serve: "\<And>s c w p ps. drr_ok s (c # w) fs \<Longrightarrow> fs c = p # ps \<Longrightarrow> pm_size (drr_mem s) p \<le> new_deficit s c \<Longrightarrow> P s c w"
    and step: "\<And>s c w p ps u c' w'. drr_ok s (c # w) fs \<Longrightarrow> fs c = p # ps \<Longrightarrow> \<not> pm_size (drr_mem s) p \<le> new_deficit s c \<Longrightarrow>
      drr_rounds s = drr_rounds u \<Longrightarrow> drr_ok u (c' # w') fs \<Longrightarrow> w @ [c] = c' # w' \<Longrightarrow> drr_frame s u \<Longrightarrow> q_out u = q_out s \<Longrightarrow>
      drr_mem u = drr_mem s \<Longrightarrow> \<forall>j<length (dr_nodes s). meter u j = (if j = c then (new_deficit s c, False) else meter s j) \<Longrightarrow>
      P u c' w' \<Longrightarrow> P s c w"
  shows "P s c w"
  using assms(1)
proof (induction "distance s (c # w) fs" arbitrary: s c w rule: less_induct)
  case less
  obtain p ps where f: "fs c = p # ps" using drr_okD(2) [OF less.prems, of c] by (cases "fs c") auto
  show ?case
  proof (cases "pm_size (drr_mem s) p \<le> new_deficit s c")
    case True
    show ?thesis by (rule serve [OF less.prems f True])
  next
    case False
    from rounds_next [OF less.prems f False] obtain u where
      u: "drr_rounds s = drr_rounds u" "drr_ok u (w @ [c]) fs" "drr_frame s u" "q_out u = q_out s" "drr_mem u = drr_mem s"
        "\<forall>j<length (dr_nodes s). meter u j = (if j = c then (new_deficit s c, False) else meter s j)" by blast
    obtain c' w' where cw: "w @ [c] = c' # w'" by (cases "w @ [c]") auto
    have "distance u (c' # w') fs < distance s (c # w) fs" using distance_less [OF less.prems f False u(5,6)] by (simp add: cw)
    from less.hyps [OF this u(2) [unfolded cw]] show ?thesis
      by (rule step [OF less.prems f False u(1) u(2) [unfolded cw] cw u(3-6)])
  qed
qed

lemma drr_rounds_end:
  "drr_ok s (c # w) fs \<Longrightarrow> \<exists>t ys p r. drr_rounds s = Some (Some p, t) \<and> r < length (dr_nodes s) \<and> fs r \<noteq> [] \<and> p = hd (fs r) \<and>
    drr_ok t ys (fs(r := tl (fs r))) \<and> drr_frame s t \<and> q_out t = q_out s"
proof (induction rule: drr_rounds_induct)
  case (serve s c w p ps)
  have "c < length (dr_nodes s)" using drr_okD(5) [OF serve(1)] by simp
  moreover obtain t where "drr_rounds s = Some (Some p, t)" "drr_ok t (if ps = [] then w else c # w) (fs(c := ps))"
      "drr_frame s t" "q_out t = q_out s" using rounds_serve [OF serve] by blast
  ultimately have "drr_rounds s = Some (Some p, t) \<and> c < length (dr_nodes s) \<and> fs c \<noteq> [] \<and> p = hd (fs c) \<and>
      drr_ok t (if ps = [] then w else c # w) (fs(c := tl (fs c))) \<and> drr_frame s t \<and> q_out t = q_out s" using serve(2) by simp
  then show ?case by blast
next
  case (visit s c w p ps u c' w')
  then obtain t ys p r where t: "drr_rounds u = Some (Some p, t)" "r < length (dr_nodes u)" "fs r \<noteq> []" "p = hd (fs r)"
    "drr_ok t ys (fs(r := tl (fs r)))" "drr_frame u t" "q_out t = q_out u" by blast
  have "drr_frame s t" by (rule drr_frame_trans [OF visit(7) t(6)])
  moreover have "r < length (dr_nodes s)" using t(2) drr_frameD(3) [OF visit(7)] by simp
  moreover have "drr_rounds s = Some (Some p, t)" "q_out t = q_out s" using t(1,7) visit(4,8) by simp_all
  ultimately show ?case using t(3-5) by blast
qed

lemma drr_deque_ok:
  assumes s: "drr_ok s xs fs"
  shows "if xs = [] then drr_deque s = Some (None, s)
    else \<exists>t ys p r. drr_deque s = Some (Some p, t) \<and> r < length (dr_nodes s) \<and> fs r \<noteq> [] \<and> p = hd (fs r) \<and>
      drr_ok t ys (fs(r := tl (fs r))) \<and> drr_frame s t \<and> q_out t = q_out s"
proof (cases xs)
  case Nil
  then show ?thesis using drr_empty(1) [OF s] by (simp add: drr_deque_def)
next
  case (Cons c w)
  then show ?thesis using drr_empty(1) [OF s] drr_rounds_end [of s c w fs] s by (simp add: drr_deque_def)
qed

end
