(* ===== verification/FlowServer.thy ===== *)
theory FlowServer
  imports QueueBase
begin

text \<open>
  What is proved of every queue that serves flows in turn (DRR, SFQ): sequences of arrivals and departures,
  the packets of each flow, and the locale \<open>flow_server\<close>, which says what one operation has
  to do for every sequence to lose no packet, to keep the order in each flow and to be fair.
\<close>

section \<open>Sequences of operations\<close>

datatype flow_op = FlowIn addr | FlowOut

fun incoming :: "flow_op list \<Rightarrow> addr list" where
  "incoming [] = []"
| "incoming (FlowIn p # ops) = p # incoming ops"
| "incoming (FlowOut # ops) = incoming ops"

definition opt_list :: "'a option \<Rightarrow> 'a list" where
  "opt_list x = (case x of None \<Rightarrow> [] | Some p \<Rightarrow> [p])"

text \<open>The packets that leave, and the final state.\<close>

fun flow_run :: "(flow_op \<Rightarrow> 's \<Rightarrow> (addr option \<times> 's) option) \<Rightarrow> flow_op list \<Rightarrow> 's \<Rightarrow> (addr list \<times> 's) option" where
  "flow_run step [] s = Some ([], s)"
| "flow_run step (op # ops) s = (case step op s of
     None \<Rightarrow> None
   | Some (x, u) \<Rightarrow> map_option (\<lambda>(ps, t). (opt_list x @ ps, t)) (flow_run step ops u))"

text \<open>A flow has packets (\<open>busy\<close>) all the time.\<close>

fun backlogged :: "(flow_op \<Rightarrow> 's \<Rightarrow> (addr option \<times> 's) option) \<Rightarrow> ('s \<Rightarrow> bool) \<Rightarrow> flow_op list \<Rightarrow> 's \<Rightarrow> bool" where
  "backlogged step busy [] s = busy s"
| "backlogged step busy (op # ops) s = (busy s \<and>
     (case step op s of None \<Rightarrow> False | Some (x, t) \<Rightarrow> backlogged step busy ops t))"

text \<open>The packets of a flow, by the map from packets to flows, and their weight.\<close>

definition flow :: "(addr \<Rightarrow> nat option) \<Rightarrow> nat \<Rightarrow> addr list \<Rightarrow> addr list" where
  "flow which f ps = filter (\<lambda>p. which p = Some f) ps"

definition flow_weight :: "(addr \<Rightarrow> nat option) \<Rightarrow> (addr \<Rightarrow> int) \<Rightarrow> nat \<Rightarrow> addr list \<Rightarrow> int" where
  "flow_weight which w f ps = sum_list (map w (flow which f ps))"

lemma opt_list_simps [simp]: "opt_list None = []" "opt_list (Some p) = [p]"
  by (simp_all add: opt_list_def)

lemma flow_simps [simp]: "flow which f [] = []" "flow which f (ps @ qs) = flow which f ps @ flow which f qs"
  "flow_weight which w f [] = 0" "flow_weight which w f (ps @ qs) = flow_weight which w f ps + flow_weight which w f qs"
  by (simp_all add: flow_def flow_weight_def)

lemma incoming_append [simp]: "incoming (xs @ ys) = incoming xs @ incoming ys"
  by (induction xs rule: incoming.induct) simp_all

lemma incoming_outs [simp]: "incoming (replicate n FlowOut) = []"
  by (induction n) simp_all

lemma incoming_Cons: "incoming (op # ops) = incoming [op] @ incoming ops"
  by (cases op) simp_all

section \<open>The order of the visits\<close>

fun precedes :: "nat \<Rightarrow> nat \<Rightarrow> nat list \<Rightarrow> bool" where
  "precedes a b [] = False"
| "precedes a b (x # xs) = (if x = a then b \<in> set xs else precedes a b xs)"

lemma precedes_append: "precedes a b (xs @ ys) \<longleftrightarrow> (if a \<in> set xs then precedes a b xs \<or> b \<in> set ys else precedes a b ys)"
  by (induction xs) auto

lemma precedes_notin: "a \<notin> set xs \<or> b \<notin> set xs \<Longrightarrow> \<not> precedes a b xs"
  by (induction xs) auto

section \<open>The effect of operations\<close>

text \<open>The packets \<open>as\<close> arrive, \<open>ps\<close> leave, \<open>ds\<close> are dropped; \<open>fs\<close> and \<open>gs\<close> are the packets of each flow before and after.\<close>

definition flow_effect :: "('s \<Rightarrow> addr \<Rightarrow> nat option) \<Rightarrow> ('s \<Rightarrow> qevent list) \<Rightarrow> ('s \<Rightarrow> (nat \<Rightarrow> addr list) \<Rightarrow> addr multiset) \<Rightarrow>
    addr list \<Rightarrow> addr list \<Rightarrow> 's \<Rightarrow> (nat \<Rightarrow> addr list) \<Rightarrow> 's \<Rightarrow> (nat \<Rightarrow> addr list) \<Rightarrow> addr list \<Rightarrow> bool" where
  "flow_effect which out held as ps s fs t gs ds \<longleftrightarrow> which t = which s \<and> out t = out s @ map Dropped ds \<and>
     held s fs + mset as = held t gs + mset ds + mset ps \<and>
     (\<forall>f. subseq (flow (which s) f ps @ gs f) (fs f @ flow (which s) f as))"

lemma flow_effect_refl: "flow_effect which out held [] [] s fs s fs []"
  by (simp add: flow_effect_def)

lemma flow_effect_comp:
  assumes u: "flow_effect which out held as ps s fs u hs ds" and t: "flow_effect which out held bs qs u hs t gs es"
  shows "flow_effect which out held (as @ bs) (ps @ qs) s fs t gs (ds @ es)"
proof -
  have w: "which u = which s" using u by (simp add: flow_effect_def)
  have "subseq (flow (which s) f (ps @ qs) @ gs f) (fs f @ flow (which s) f (as @ bs))" for f
  proof -
    have "subseq (flow (which s) f qs @ gs f) (hs f @ flow (which s) f bs)" using t by (simp add: flow_effect_def w)
    then have "subseq (flow (which s) f ps @ (flow (which s) f qs @ gs f)) (flow (which s) f ps @ (hs f @ flow (which s) f bs))"
      by (rule list_emb_append_mono [OF subseq_order.order_refl])
    moreover have "subseq (flow (which s) f ps @ hs f) (fs f @ flow (which s) f as)" using u by (simp add: flow_effect_def)
    then have "subseq ((flow (which s) f ps @ hs f) @ flow (which s) f bs) ((fs f @ flow (which s) f as) @ flow (which s) f bs)"
      by (rule list_emb_append_mono [OF _ subseq_order.order_refl])
    ultimately show ?thesis using subseq_order.order_trans by fastforce
  qed
  moreover have "held s fs + mset (as @ bs) = held t gs + mset (ds @ es) + mset (ps @ qs)"
  proof -
    have "held s fs + mset as = held u hs + mset ds + mset ps" "held u hs + mset bs = held t gs + mset es + mset qs"
      using u t by (simp_all add: flow_effect_def)
    then show ?thesis by (simp add: add.assoc [symmetric])
  qed
  ultimately show ?thesis using u t by (simp add: flow_effect_def)
qed

text \<open>The lead of a flow over another falls by what it sends and rises by what the other sends.\<close>

definition lead_falls :: "('s \<Rightarrow> nat list \<Rightarrow> nat \<Rightarrow> nat \<Rightarrow> int) \<Rightarrow> (nat \<Rightarrow> int) \<Rightarrow> 's \<Rightarrow> nat list \<Rightarrow> 's \<Rightarrow> nat list \<Rightarrow> bool" where
  "lead_falls lead sent s xs t ys \<longleftrightarrow>
     (\<forall>a b. a \<noteq> b \<and> a \<in> set xs \<and> b \<in> set xs \<and> a \<in> set ys \<and> b \<in> set ys \<longrightarrow> lead t ys a b = lead s xs a b - (sent a - sent b))"

section \<open>The contract\<close>

text \<open>\<open>ok s xs fs\<close>: the flows \<open>xs\<close> are active, in the order of service, and flow \<open>f\<close> has the packets \<open>fs f\<close>.
  \<open>kept\<close> is what no operation changes or violates, \<open>harmless\<close> which drops do not matter for fairness.\<close>

locale flow_server =
  fixes step :: "flow_op \<Rightarrow> 's \<Rightarrow> (addr option \<times> 's) option"
    and ok :: "'s \<Rightarrow> nat list \<Rightarrow> (nat \<Rightarrow> addr list) \<Rightarrow> bool"
    and kept :: "'s \<Rightarrow> 's \<Rightarrow> bool"
    and fair :: "'s \<Rightarrow> nat list \<Rightarrow> bool"
    and which :: "'s \<Rightarrow> addr \<Rightarrow> nat option"
    and weight :: "'s \<Rightarrow> addr \<Rightarrow> int"
    and out :: "'s \<Rightarrow> qevent list"
    and held :: "'s \<Rightarrow> (nat \<Rightarrow> addr list) \<Rightarrow> addr multiset"
    and busy :: "nat \<Rightarrow> 's \<Rightarrow> bool"
    and lead :: "'s \<Rightarrow> nat list \<Rightarrow> nat \<Rightarrow> nat \<Rightarrow> int"
    and harmless :: "addr list \<Rightarrow> bool"
  assumes busy_active: "ok s xs fs \<Longrightarrow> busy f s \<longleftrightarrow> f \<in> set xs"
    and kept_refl: "kept s s"
    and kept_trans: "kept s u \<Longrightarrow> kept u t \<Longrightarrow> kept s t"
    and harmless: "harmless []" "harmless (ds @ es) \<longleftrightarrow> harmless ds \<and> harmless es"
    and kept_weight: "kept s t \<Longrightarrow> weight t = weight s"
    and step_ok: "ok s xs fs \<Longrightarrow> (\<And>p. p \<in> set (incoming [op]) \<Longrightarrow> p \<notin># held s fs) \<Longrightarrow>
      \<exists>x t ys gs ds. step op s = Some (x, t) \<and> ok t ys gs \<and> kept s t \<and> flow_effect which out held (incoming [op]) (opt_list x) s fs t gs ds \<and>
        (fair s xs \<and> harmless ds \<longrightarrow> fair t ys \<and> lead_falls lead (\<lambda>f. flow_weight (which s) (weight s) f (opt_list x)) s xs t ys)"
begin

lemma run_ok:
  "ok s xs fs \<Longrightarrow> distinct (incoming ops) \<Longrightarrow> (\<And>p. p \<in> set (incoming ops) \<Longrightarrow> p \<notin># held s fs) \<Longrightarrow>
   \<exists>ps t ys gs ds. flow_run step ops s = Some (ps, t) \<and> ok t ys gs \<and> kept s t \<and> flow_effect which out held (incoming ops) ps s fs t gs ds \<and>
    (fair s xs \<and> harmless ds \<longrightarrow> fair t ys \<and> (\<forall>a b. a \<noteq> b \<and> backlogged step (busy a) ops s \<and> backlogged step (busy b) ops s \<longrightarrow>
      a \<in> set xs \<and> b \<in> set xs \<and> a \<in> set ys \<and> b \<in> set ys \<and>
      lead t ys a b = lead s xs a b - (flow_weight (which s) (weight s) a ps - flow_weight (which s) (weight s) b ps)))"
proof (induction ops arbitrary: s xs fs)
  case Nil
  then show ?case
    by (intro exI [of _ "[]"] exI [of _ s] exI [of _ xs] exI [of _ fs]) (simp add: busy_active flow_effect_refl kept_refl)
next
  case (Cons op ops)
  note ar = incoming_Cons [of op ops]
  have new: "p \<notin># held s fs" if "p \<in> set (incoming [op])" for p using Cons.prems(3) that ar by auto
  from step_ok [OF Cons.prems(1) new] obtain x u zs hs es where
    u: "step op s = Some (x, u)" "ok u zs hs" "kept s u" "flow_effect which out held (incoming [op]) (opt_list x) s fs u hs es"
      "fair s xs \<and> harmless es \<longrightarrow> fair u zs \<and> lead_falls lead (\<lambda>f. flow_weight (which s) (weight s) f (opt_list x)) s xs u zs" by blast
  have "held s fs + mset (incoming [op]) = held u hs + mset es + mset (opt_list x)" using u(4) by (simp add: flow_effect_def)
  then have sub: "held u hs \<subseteq># held s fs + mset (incoming [op])" by (simp add: mset_subset_eq_exists_conv add.assoc)
  have dist: "distinct (incoming [op] @ incoming ops)" using Cons.prems(2) ar by simp
  have held: "p \<notin># held u hs" if "p \<in> set (incoming ops)" for p
  proof
    assume "p \<in># held u hs"
    then have "p \<in># held s fs + mset (incoming [op])" by (rule mset_subset_eqD [OF sub])
    moreover have "p \<notin># held s fs" using Cons.prems(3) that ar by simp
    ultimately show False using dist that by auto
  qed
  from Cons.IH [OF u(2) _ held] dist obtain ps t ys gs ds where
    t: "flow_run step ops u = Some (ps, t)" "ok t ys gs" "kept u t" "flow_effect which out held (incoming ops) ps u hs t gs ds"
      "fair u zs \<and> harmless ds \<longrightarrow> fair t ys \<and> (\<forall>a b. a \<noteq> b \<and> backlogged step (busy a) ops u \<and> backlogged step (busy b) ops u \<longrightarrow>
        a \<in> set zs \<and> b \<in> set zs \<and> a \<in> set ys \<and> b \<in> set ys \<and>
        lead t ys a b = lead u zs a b - (flow_weight (which u) (weight u) a ps - flow_weight (which u) (weight u) b ps))"
    unfolding distinct_append by blast
  have w: "which u = which s" "weight u = weight s" using u(3,4) kept_weight by (simp_all add: flow_effect_def)
  have eff: "flow_effect which out held (incoming (op # ops)) (opt_list x @ ps) s fs t gs (es @ ds)"
    unfolding ar by (rule flow_effect_comp [OF u(4) t(4)])
  have ld: "fair t ys \<and> (\<forall>a b. a \<noteq> b \<and> backlogged step (busy a) (op # ops) s \<and> backlogged step (busy b) (op # ops) s \<longrightarrow>
      a \<in> set xs \<and> b \<in> set xs \<and> a \<in> set ys \<and> b \<in> set ys \<and>
      lead t ys a b = lead s xs a b - (flow_weight (which s) (weight s) a (opt_list x @ ps) - flow_weight (which s) (weight s) b (opt_list x @ ps)))"
    if f: "fair s xs" "harmless (es @ ds)"
  proof -
    have l: "fair u zs" "lead_falls lead (\<lambda>f. flow_weight (which s) (weight s) f (opt_list x)) s xs u zs" using u(5) f harmless(2) by simp_all
    with t(5) f(2) harmless(2) have T: "fair t ys" "\<And>a b. a \<noteq> b \<Longrightarrow> backlogged step (busy a) ops u \<Longrightarrow> backlogged step (busy b) ops u \<Longrightarrow>
        a \<in> set zs \<and> b \<in> set zs \<and> a \<in> set ys \<and> b \<in> set ys \<and>
        lead t ys a b = lead u zs a b - (flow_weight (which s) (weight s) a ps - flow_weight (which s) (weight s) b ps)"
      by (simp_all add: w)
    have "a \<in> set xs \<and> b \<in> set xs \<and> a \<in> set ys \<and> b \<in> set ys \<and>
        lead t ys a b = lead s xs a b - (flow_weight (which s) (weight s) a (opt_list x @ ps) - flow_weight (which s) (weight s) b (opt_list x @ ps))"
      if ab: "a \<noteq> b" "backlogged step (busy a) (op # ops) s" "backlogged step (busy b) (op # ops) s" for a b
    proof -
      have x: "a \<in> set xs" "b \<in> set xs" using ab(2,3) busy_active [OF Cons.prems(1)] by simp_all
      have "backlogged step (busy a) ops u" "backlogged step (busy b) ops u" using ab(2,3) u(1) by simp_all
      note T = T(2) [OF ab(1) this]
      with l(2) x ab(1) have "lead u zs a b = lead s xs a b -
          (flow_weight (which s) (weight s) a (opt_list x) - flow_weight (which s) (weight s) b (opt_list x))" by (simp add: lead_falls_def)
      with T x show ?thesis by simp
    qed
    with T(1) show ?thesis by blast
  qed
  have "flow_run step (op # ops) s = Some (opt_list x @ ps, t)" using u(1) t(1) by simp
  with eff ld t(2) kept_trans [OF u(3) t(3)] show ?case by blast
qed

text \<open>From an empty queue.\<close>

lemma held_new:
  assumes "flow_effect which out held (incoming before) ps s fs t gs ds" "held s fs = {#}" "distinct (incoming (before @ ops))" "p \<in> set (incoming ops)"
  shows "p \<notin># held t gs"
proof
  assume "p \<in># held t gs"
  moreover have "mset (incoming before) = held t gs + mset ds + mset ps" using assms(1,2) by (simp add: flow_effect_def)
  ultimately have "p \<in># mset (incoming before)" by simp
  with assms(3,4) show False by auto
qed

lemma empty_runs:
  assumes "ok s xs fs" "held s fs = {#}" "distinct (incoming ops)"
  shows "\<exists>ps t ys gs ds. flow_run step ops s = Some (ps, t) \<and> ok t ys gs \<and> kept s t \<and> flow_effect which out held (incoming ops) ps s fs t gs ds"
proof -
  have "p \<notin># held s fs" for p using assms(2) by simp
  with run_ok [OF assms(1,3)] show ?thesis by blast
qed

lemma empty_ok:
  assumes "ok s xs fs" "held s fs = {#}" "distinct (incoming ops)" "flow_run step ops s = Some (ps, t)"
  shows "\<exists>ys gs ds. ok t ys gs \<and> kept s t \<and> flow_effect which out held (incoming ops) ps s fs t gs ds \<and> (fair s xs \<and> harmless ds \<longrightarrow> fair t ys)"
  using run_ok [OF assms(1,3)] assms(2,4) by fastforce

lemma empty_fair:
  assumes s: "ok s xs fs" "held s fs = {#}" "fair s xs" and ops: "distinct (incoming (before @ ops))"
    and run: "flow_run step before s = Some (qs, u)" "flow_run step ops u = Some (ps, t)" "\<And>ds. out t = out s @ map Dropped ds \<Longrightarrow> harmless ds"
    and f: "f \<noteq> g" "backlogged step (busy f) ops u" "backlogged step (busy g) ops u"
  shows "\<exists>zs hs ys gs. ok u zs hs \<and> fair u zs \<and> ok t ys gs \<and> fair t ys \<and> kept s u \<and> kept s t \<and> f \<in> set zs \<and> g \<in> set zs \<and> f \<in> set ys \<and> g \<in> set ys \<and>
    lead t ys f g = lead u zs f g - (flow_weight (which u) (weight u) f ps - flow_weight (which u) (weight u) g ps)"
proof -
  have "distinct (incoming before)" using ops by simp
  from empty_ok [OF s(1,2) this run(1)] obtain zs hs ds where
    u: "ok u zs hs" "kept s u" "flow_effect which out held (incoming before) qs s fs u hs ds" "fair s xs \<and> harmless ds \<longrightarrow> fair u zs" by blast
  have "p \<notin># held u hs" if "p \<in> set (incoming ops)" for p by (rule held_new [OF u(3) s(2) ops that])
  moreover have "distinct (incoming ops)" using ops by simp
  ultimately obtain ps' t' ys gs es where
    t': "flow_run step ops u = Some (ps', t')" "ok t' ys gs" "kept u t'" "flow_effect which out held (incoming ops) ps' u hs t' gs es"
      "fair u zs \<and> harmless es \<longrightarrow> fair t' ys \<and> (\<forall>a b. a \<noteq> b \<and> backlogged step (busy a) ops u \<and> backlogged step (busy b) ops u \<longrightarrow>
        a \<in> set zs \<and> b \<in> set zs \<and> a \<in> set ys \<and> b \<in> set ys \<and>
        lead t' ys a b = lead u zs a b - (flow_weight (which u) (weight u) a ps' - flow_weight (which u) (weight u) b ps'))"
    using run_ok [OF u(1), of ops] by blast
  have "ps' = ps" "t' = t" using t'(1) run(2) by simp_all
  note t = t'(2-5) [unfolded this]
  have "out t = out s @ map Dropped (ds @ es)" using u(3) t(3) by (simp add: flow_effect_def)
  with run(3) have e: "harmless ds" "harmless es" using harmless(2) by blast+
  then have fu: "fair u zs" using u(4) s(3) by simp
  from t(4) fu e(2) have T: "fair t ys" "\<And>a b. a \<noteq> b \<and> backlogged step (busy a) ops u \<and> backlogged step (busy b) ops u \<Longrightarrow>
        a \<in> set zs \<and> b \<in> set zs \<and> a \<in> set ys \<and> b \<in> set ys \<and>
        lead t ys a b = lead u zs a b - (flow_weight (which u) (weight u) a ps - flow_weight (which u) (weight u) b ps)" by blast+
  have "f \<in> set zs \<and> g \<in> set zs \<and> f \<in> set ys \<and> g \<in> set ys \<and>
      lead t ys f g = lead u zs f g - (flow_weight (which u) (weight u) f ps - flow_weight (which u) (weight u) g ps)"
    by (rule T(2)) (use f in blast)
  with u(1,2) fu t(1) T(1) kept_trans [OF u(2) t(2)] show ?thesis by blast
qed

end

end
