(* ===== verification/DrrFair.thy ===== *)
theory DrrFair
  imports DrrRounds FlowServer
begin

text \<open>
  DRR is fair: while two flows have packets, the bytes sent for them differ by less than a quantum and two
  packets.  The argument is a potential, \<open>lead\<close>, that visits and departures change by
  the bytes sent only: the difference of the deficits, with a quantum for the flow that has been visited more recently.
\<close>

section \<open>The order of the visits\<close>

text \<open>The flows in the order in which they get their next quantum.\<close>

definition visit_order :: "drr \<Rightarrow> nat list \<Rightarrow> nat list" where
  "visit_order s xs = (case xs of [] \<Rightarrow> [] | c # w \<Rightarrow> if snd (meter s c) then w @ [c] else c # w)"

definition lead :: "drr \<Rightarrow> nat list \<Rightarrow> nat \<Rightarrow> nat \<Rightarrow> int" where
  "lead s xs f g = fst (meter s f) - fst (meter s g) - dr_quantum s * of_bool (precedes g f (visit_order s xs))"

text \<open>Only the current flow has a turn, and the deficits are bounded.\<close>

definition fair_ok :: "int \<Rightarrow> drr \<Rightarrow> nat list \<Rightarrow> bool" where
  "fair_ok M s xs \<longleftrightarrow> 0 < M \<and> (\<forall>p. pm_size (drr_mem s) p \<le> M) \<and>
     (\<forall>i<length (dr_nodes s). (if snd (meter s i) then xs \<noteq> [] \<and> i = hd xs \<and> fst (meter s i) < dr_quantum s + M else fst (meter s i) < M))"

lemma lead_bounds:
  assumes s: "drr_ok s xs fs" "fair_ok M s xs" and f: "f \<in> set xs" "g \<in> set xs" "f \<noteq> g"
  shows "- (dr_quantum s + M) < lead s xs f g \<and> lead s xs f g < M"
proof -
  note o = drr_okD [OF s(1)]
  have l: "f < length (dr_nodes s)" "g < length (dr_nodes s)" using o(5) f by auto
  obtain c w where x: "xs = c # w" using f(1) by (cases xs) auto
  have q: "0 < dr_quantum s" using o(4) by (simp add: drr_conf_def)
  have d: "0 \<le> fst (meter s f)" "0 \<le> fst (meter s g)" using o(1) l by (simp_all add: drr_core_def node_ok_def meter_def)
  have b: "if snd (meter s i) then i = c \<and> fst (meter s i) < dr_quantum s + M else fst (meter s i) < M" if "i < length (dr_nodes s)" for i
    using s(2) that x by (auto simp: fair_ok_def split: if_splits)
  have dist: "c \<notin> set w" "distinct w" using o(7) x by simp_all
  show ?thesis
  proof (cases "snd (meter s c)")
    case True
    then have v: "visit_order s xs = w @ [c]" by (simp add: visit_order_def x)
    consider "f = c" "g \<in> set w" "g \<noteq> c" | "g = c" "f \<in> set w" "f \<noteq> c" | "f \<noteq> c" "g \<noteq> c" using f x dist by auto
    then show ?thesis
    proof cases
      case 1
      then have "precedes g f (w @ [c])" by (simp add: precedes_append)
      with b [OF l(1)] b [OF l(2)] 1 True d q show ?thesis by (auto simp: lead_def v split: if_splits)
    next
      case 2
      then have "\<not> precedes g f (w @ [c])" using dist by (simp add: precedes_append)
      with b [OF l(1)] b [OF l(2)] 2 True d q show ?thesis by (auto simp: lead_def v split: if_splits)
    next
      case 3
      with b [OF l(1)] b [OF l(2)] d q show ?thesis by (auto simp: lead_def split: if_splits)
    qed
  next
    case False
    then have "\<not> snd (meter s f)" "\<not> snd (meter s g)" using b [OF l(1)] b [OF l(2)] by (auto split: if_splits)
    with b [OF l(1)] b [OF l(2)] d q show ?thesis by (auto simp: lead_def)
  qed
qed

text \<open>A visit of the current flow.\<close>

lemma lead_visit:
  assumes s: "drr_ok s (c # w) fs" and f: "f \<in> set (c # w)" "g \<in> set (c # w)" "f \<noteq> g"
  shows "(if f = c then new_deficit s c else fst (meter s f)) - (if g = c then new_deficit s c else fst (meter s g))
    - dr_quantum s * of_bool (precedes g f (w @ [c])) = lead s (c # w) f g"
proof (cases "snd (meter s c)")
  case True
  then show ?thesis by (auto simp: lead_def visit_order_def new_deficit_def)
next
  case False
  have c: "c \<notin> set w" using drr_okD(7) [OF s] by simp
  consider "f = c" "g \<in> set w" "g \<noteq> c" | "g = c" "f \<in> set w" "f \<noteq> c" | "f \<noteq> c" "g \<noteq> c" "f \<in> set w" "g \<in> set w" using f c by auto
  then show ?thesis
    using False c by cases (auto simp: lead_def visit_order_def new_deficit_def precedes_append precedes_notin)
qed

section \<open>Steps\<close>

lemma fair_next:
  assumes s: "drr_ok s (c # w) fs" "fair_ok M s (c # w)" and d: "\<not> pm_size (drr_mem s) p \<le> new_deficit s c"
    and u: "drr_frame s u" "drr_mem u = drr_mem s" "\<forall>j<length (dr_nodes s). meter u j = (if j = c then (new_deficit s c, False) else meter s j)"
  shows "fair_ok M u (w @ [c])" "f \<in> set (c # w) \<Longrightarrow> g \<in> set (c # w) \<Longrightarrow> f \<noteq> g \<Longrightarrow> lead u (w @ [c]) f g = lead s (c # w) f g"
proof -
  note o = drr_okD [OF s(1)] and fr = drr_frameD [OF u(1)]
  have c: "c < length (dr_nodes s)" using o(5) by simp
  have "pm_size (drr_mem s) p \<le> M" using s(2) by (simp add: fair_ok_def)
  then have n: "new_deficit s c < M" using d by simp
  have t: "\<not> snd (meter u j)" if "j < length (dr_nodes s)" for j
    using u(3) s(2) that by (auto simp: fair_ok_def split: if_splits)
  show "fair_ok M u (w @ [c])" unfolding fair_ok_def fr(3,4)
  proof (intro conjI allI impI)
    fix i assume i: "i < length (dr_nodes s)"
    show "if snd (meter u i) then w @ [c] \<noteq> [] \<and> i = hd (w @ [c]) \<and> fst (meter u i) < dr_quantum s + M else fst (meter u i) < M"
      using t [OF i] u(3) i n s(2) by (auto simp: fair_ok_def split: if_splits)
  qed (use s(2) u(2) in \<open>simp_all add: fair_ok_def\<close>)
  assume f: "f \<in> set (c # w)" "g \<in> set (c # w)" "f \<noteq> g"
  have "hd (w @ [c]) < length (dr_nodes s)" using o(5) [of "hd (w @ [c])"] by (cases w) auto
  from t [OF this] have "visit_order u (w @ [c]) = w @ [c]" by (cases w) (auto simp: visit_order_def)
  moreover have "f < length (dr_nodes s)" "g < length (dr_nodes s)" using o(5) f by auto
  ultimately show "lead u (w @ [c]) f g = lead s (c # w) f g"
    using lead_visit [OF s(1) f] u(3) by (auto simp: lead_def fr(4))
qed

lemma fair_serve:
  assumes s: "drr_ok s (c # w) fs" "fair_ok M s (c # w)" and f: "fs c = p # ps" and d: "pm_size (drr_mem s) p \<le> new_deficit s c"
    and t: "drr_frame s t" "\<forall>j<length (dr_nodes s). meter t j =
      (if j = c then (if ps = [] then (0, False) else (new_deficit s c - pm_size (drr_mem s) p, True)) else meter s j)"
  defines "ys \<equiv> if ps = [] then w else c # w"
  shows "fair_ok M t ys" "a \<in> set ys \<Longrightarrow> b \<in> set ys \<Longrightarrow> a \<noteq> b \<Longrightarrow>
    lead t ys a b = lead s (c # w) a b - pm_size (drr_mem s) p * (of_bool (a = c) - of_bool (b = c))"
proof -
  note o = drr_okD [OF s(1)] and fr = drr_frameD [OF t(1)]
  have c: "c < length (dr_nodes s)" "c \<notin> set w" using o(5,7) by simp_all
  have pos: "0 < pm_size (drr_mem s) p" "0 < dr_quantum s" using o(4) by (simp_all add: drr_conf_def)
  have n: "new_deficit s c < dr_quantum s + M"
    using s(2) c(1) pos by (auto simp: fair_ok_def new_deficit_def split: if_splits)
  have tu: "snd (meter t j) \<longleftrightarrow> j = c \<and> ps \<noteq> []" if "j < length (dr_nodes s)" for j
    using t(2) s(2) that by (auto simp: fair_ok_def split: if_splits)
  show "fair_ok M t ys" unfolding fair_ok_def fr(3,4,7)
  proof (intro conjI allI impI)
    fix i assume i: "i < length (dr_nodes s)"
    show "if snd (meter t i) then ys \<noteq> [] \<and> i = hd ys \<and> fst (meter t i) < dr_quantum s + M else fst (meter t i) < M"
      using tu [OF i] t(2) i n s(2) pos by (auto simp: fair_ok_def ys_def split: if_splits)
  qed (use s(2) in \<open>simp_all add: fair_ok_def\<close>)
  assume ab: "a \<in> set ys" "b \<in> set ys" "a \<noteq> b"
  then have ab': "a \<in> set (c # w)" "b \<in> set (c # w)" "a < length (dr_nodes s)" "b < length (dr_nodes s)"
    using o(5) by (auto simp: ys_def split: if_splits)
  have v: "precedes b a (visit_order t ys) \<longleftrightarrow> precedes b a (w @ [c])"
  proof (cases "ps = []")
    case True
    then have w: "a \<in> set w" "b \<in> set w" using ab by (simp_all add: ys_def)
    then have "hd w \<in> set w" by (cases w) auto
    then have "\<not> snd (meter t (hd w))" using tu [of "hd w"] o(5) [of "hd w"] True by simp
    then have "visit_order t ys = w" using True w by (cases w) (auto simp: visit_order_def ys_def)
    then show ?thesis using w c(2) by (auto simp: precedes_append)
  next
    case False
    then show ?thesis using tu [OF c(1)] by (simp add: visit_order_def ys_def)
  qed
  show "lead t ys a b = lead s (c # w) a b - pm_size (drr_mem s) p * (of_bool (a = c) - of_bool (b = c))"
  proof -
    have m: "fst (meter t j) = (if j = c then new_deficit s c - pm_size (drr_mem s) p else fst (meter s j))" if "j \<in> set ys" for j
    proof -
      have "j = c \<Longrightarrow> ps \<noteq> []" "j < length (dr_nodes s)" using that c(2) o(5) by (auto simp: ys_def split: if_splits)
      with t(2) show ?thesis by auto
    qed
    have "lead t ys a b = fst (meter t a) - fst (meter t b) - dr_quantum s * of_bool (precedes b a (w @ [c]))"
      by (simp only: lead_def fr(4) v)
    with lead_visit [OF s(1) ab'(1,2) ab(3)] m [OF ab(1)] m [OF ab(2)] ab(3) show ?thesis by (auto split: if_splits)
  qed
qed

lemma fair_enque:
  assumes s: "drr_ok s xs fs" "fair_ok M s xs"
    and t: "drr_frame (drr_alloc s) t" "i < nat (dr_buckets s)" "\<forall>j<nat (dr_buckets s). meter t j =
      (if j = i \<and> fs i = [] then (0, snd (meter (drr_alloc s) i)) else meter (drr_alloc s) j)"
  defines "ys \<equiv> if fs i = [] then xs @ [i] else xs"
  shows "fair_ok M t ys" "a \<in> set xs \<Longrightarrow> b \<in> set xs \<Longrightarrow> a \<noteq> b \<Longrightarrow> lead t ys a b = lead s xs a b"
proof -
  note o = drr_okD [OF s(1)] and al = drr_alloc_ok [OF s(1)] and fr = drr_frameD [OF t(1)]
  have q: "dr_quantum (drr_alloc s) = dr_quantum s" by (simp add: drr_alloc_def)
  have M: "0 < M" using s(2) by (simp add: fair_ok_def)
  have f: "fair_ok M (drr_alloc s) xs" unfolding fair_ok_def q al(2,5)
  proof (intro conjI allI impI)
    fix j assume "j < nat (dr_buckets s)"
    then show "if snd (meter (drr_alloc s) j) then xs \<noteq> [] \<and> j = hd xs \<and> fst (meter (drr_alloc s) j) < dr_quantum s + M
        else fst (meter (drr_alloc s) j) < M"
      using al(9,10) [of j] s(2) M by (cases "j < length (dr_nodes s)") (auto simp: fair_ok_def)
  qed (use s(2) in \<open>simp_all add: fair_ok_def\<close>)
  have ni: "snd (meter (drr_alloc s) i) \<Longrightarrow> i \<in> set xs" using f t(2) al(2) by (auto simp: fair_ok_def split: if_splits)
  then have ni: "fs i = [] \<Longrightarrow> \<not> snd (meter (drr_alloc s) i)" using o(2) [of i] by blast
  show "fair_ok M t ys" unfolding fair_ok_def fr(3,4,7) q al(2)
  proof (intro conjI allI impI)
    fix j assume j: "j < nat (dr_buckets s)"
    show "if snd (meter t j) then ys \<noteq> [] \<and> j = hd ys \<and> fst (meter t j) < dr_quantum s + M else fst (meter t j) < M"
      using t(3) f j al(2) q ni M by (auto simp: fair_ok_def ys_def hd_append split: if_splits)
  qed (use f in \<open>simp_all add: fair_ok_def\<close>)
  assume ab: "a \<in> set xs" "b \<in> set xs" "a \<noteq> b"
  have m: "meter t j = meter s j" if "j \<in> set xs" for j
  proof -
    have j: "j < length (dr_nodes s)" "fs j \<noteq> []" using o(2,5) that by auto
    then have "j < nat (dr_buckets s)" using o(1) by (auto simp: drr_core_def)
    with t(3) al(9) [OF j(1)] j(2) show ?thesis by auto
  qed
  obtain c w where x: "xs = c # w" using ab(1) by (cases xs) auto
  have ix: "fs i = [] \<Longrightarrow> i \<notin> set xs" using o(2) by blast
  have "precedes b a (visit_order t ys) \<longleftrightarrow> precedes b a (visit_order s xs)"
    using m [of c] ab x ix by (auto simp: visit_order_def ys_def precedes_append)
  then show "lead t ys a b = lead s xs a b" using m ab by (simp add: lead_def fr(4) q)
qed

end
