(* ===== verification/DrrRun.thy ===== *)
theory DrrRun
  imports DrrFair
begin

text \<open>DRR keeps the contract of \<open>flow_server\<close>: its operations, from the constructor on.\<close>

section \<open>Operations\<close>

definition drr_step :: "flow_op \<Rightarrow> drr \<Rightarrow> (addr option \<times> drr) option" where
  "drr_step op s = (case op of FlowIn p \<Rightarrow> map_option (Pair None) (drr_enque p s) | FlowOut \<Rightarrow> drr_deque s)"

definition drr_busy :: "nat \<Rightarrow> drr \<Rightarrow> bool" where
  "drr_busy f s \<longleftrightarrow> f < length (dr_nodes s) \<and> 0 < rn_pkts (dr_nodes s ! f)"

definition drr_size :: "drr \<Rightarrow> addr \<Rightarrow> int" where
  "drr_size s = pm_size (drr_mem s)"

definition drr_kept :: "drr \<Rightarrow> drr \<Rightarrow> bool" where
  "drr_kept s t \<longleftrightarrow> drr_static t = drr_static s \<and> drr_size t = drr_size s \<and> (dr_bytecnt s \<le> dr_blimit s \<longrightarrow> dr_bytecnt t \<le> dr_blimit t)"

lemma busy_iff:
  assumes "drr_ok s xs fs"
  shows "drr_busy f s \<longleftrightarrow> f \<in> set xs"
proof -
  note o = drr_okD [OF assms]
  have "rn_pkts (dr_nodes s ! f) = int (length (fs f))" if "f < length (dr_nodes s)"
    using o(1) that by (simp add: drr_core_def node_ok_def)
  then show ?thesis using o(2,5) [of f] by (auto simp: drr_busy_def)
qed

lemma size_held: "drr_ok s xs fs \<Longrightarrow> int (size (drr_held s fs)) = dr_pktcnt s"
proof -
  assume "drr_ok s xs fs"
  moreover have "size (\<Sum>i<n. mset (fs i)) = (\<Sum>i<n. length (fs i))" for n by (induction n) simp_all
  ultimately show ?thesis by (simp add: drr_held_def drr_ok_def drr_core_def)
qed

lemma drr_kept_trans: "drr_kept s u \<Longrightarrow> drr_kept u t \<Longrightarrow> drr_kept s t"
  by (auto simp: drr_kept_def drr_static_def)

section \<open>Departures\<close>

text \<open>The lead falls by the bytes that are sent.\<close>

definition drr_falls :: "drr \<Rightarrow> nat list \<Rightarrow> addr list \<Rightarrow> drr \<Rightarrow> nat list \<Rightarrow> bool" where
  "drr_falls s xs ps t ys = lead_falls lead (\<lambda>f. flow_weight (drr_bucket s) (drr_size s) f ps) s xs t ys"

lemma rounds_fair:
  "drr_ok s (c # w) fs \<Longrightarrow> \<exists>t ys p r. drr_rounds s = Some (Some p, t) \<and> r < length (dr_nodes s) \<and> fs r \<noteq> [] \<and> p = hd (fs r) \<and>
    drr_ok t ys (fs(r := tl (fs r))) \<and> drr_frame s t \<and> q_out t = q_out s \<and>
    (fair_ok M s (c # w) \<longrightarrow> fair_ok M t ys \<and> drr_falls s (c # w) [p] t ys)"
proof (induction rule: drr_rounds_induct)
  case (serve s c w p ps)
  let ?ys = "if ps = [] then w else c # w"
  obtain t where t: "drr_rounds s = Some (Some p, t)" "drr_ok t ?ys (fs(c := ps))" "drr_frame s t" "q_out t = q_out s"
    "\<forall>j<length (dr_nodes s). meter t j =
      (if j = c then (if ps = [] then (0, False) else (new_deficit s c - pm_size (drr_mem s) p, True)) else meter s j)"
    using rounds_serve [OF serve] by blast
  have c: "c < length (dr_nodes s)" using drr_okD(5) [OF serve(1)] by simp
  have "drr_bucket s p = Some c" using drr_okD(1) [OF serve(1)] serve(2) by (simp add: drr_core_def)
  then have b: "flow_weight (drr_bucket s) (drr_size s) a [p] = pm_size (drr_mem s) p * of_bool (a = c)" for a
    by (simp add: flow_weight_def flow_def drr_size_def)
  have "fair_ok M s (c # w) \<longrightarrow> fair_ok M t ?ys \<and> drr_falls s (c # w) [p] t ?ys"
    using fair_serve [OF serve(1) _ serve(2,3) t(3,5)] unfolding drr_falls_def lead_falls_def b by (simp add: algebra_simps)
  with t c serve(2) have "drr_rounds s = Some (Some p, t) \<and> c < length (dr_nodes s) \<and> fs c \<noteq> [] \<and> p = hd (fs c) \<and>
      drr_ok t ?ys (fs(c := tl (fs c))) \<and> drr_frame s t \<and> q_out t = q_out s \<and>
      (fair_ok M s (c # w) \<longrightarrow> fair_ok M t ?ys \<and> drr_falls s (c # w) [p] t ?ys)" by simp
  then show ?case by blast
next
  case (visit s c w p ps u c' w')
  then obtain t ys q r where t: "drr_rounds u = Some (Some q, t)" "r < length (dr_nodes u)" "fs r \<noteq> []" "q = hd (fs r)"
    "drr_ok t ys (fs(r := tl (fs r)))" "drr_frame u t" "q_out t = q_out u"
    "fair_ok M u (c' # w') \<longrightarrow> fair_ok M t ys \<and> drr_falls u (c' # w') [q] t ys" by blast
  note fr = drr_frameD [OF visit(7)]
  have "drr_size u = drr_size s" by (simp add: drr_size_def fr(7))
  moreover have "set (c' # w') = set (c # w)" unfolding visit(6) [symmetric] by auto
  ultimately have "fair_ok M s (c # w) \<longrightarrow> fair_ok M t ys \<and> drr_falls s (c # w) [q] t ys"
    using t(8) fair_next [OF visit(1) _ visit(3,7,9,10)] unfolding visit(6) drr_falls_def lead_falls_def fr(2) by simp
  moreover have "drr_frame s t" by (rule drr_frame_trans [OF visit(7) t(6)])
  moreover have "r < length (dr_nodes s)" using t(2) fr(3) by simp
  moreover have "drr_rounds s = Some (Some q, t)" "q_out t = q_out s" using t(1,7) visit(4,8) by simp_all
  ultimately show ?case using t(3-5) by blast
qed

abbreviation drr_effect :: "addr list \<Rightarrow> addr list \<Rightarrow> drr \<Rightarrow> (nat \<Rightarrow> addr list) \<Rightarrow> drr \<Rightarrow> (nat \<Rightarrow> addr list) \<Rightarrow> addr list \<Rightarrow> bool" where
  "drr_effect \<equiv> flow_effect drr_bucket q_out drr_held"

lemma drr_deque_fair:
  assumes s: "drr_ok s xs fs"
  shows "\<exists>x t ys gs. drr_deque s = Some (x, t) \<and> (x = None \<longleftrightarrow> xs = []) \<and> drr_ok t ys gs \<and> drr_kept s t \<and> drr_effect [] (opt_list x) s fs t gs [] \<and>
    (fair_ok M s xs \<longrightarrow> fair_ok M t ys \<and> drr_falls s xs (opt_list x) t ys)"
proof (cases xs)
  case Nil
  then have "drr_deque s = Some (None, s)" using drr_empty [OF s] by (simp add: drr_deque_def)
  then show ?thesis using s Nil
    by (intro exI [of _ None] exI [of _ s] exI [of _ xs] exI [of _ fs]) (simp add: drr_falls_def lead_falls_def flow_effect_def drr_kept_def)
next
  case (Cons c w)
  from rounds_fair [OF s [unfolded Cons]] obtain t ys p r where
    t: "drr_rounds s = Some (Some p, t)" "r < length (dr_nodes s)" "fs r \<noteq> []" "p = hd (fs r)" "drr_ok t ys (fs(r := tl (fs r)))"
      "drr_frame s t" "q_out t = q_out s" "fair_ok M s xs \<longrightarrow> fair_ok M t ys \<and> drr_falls s xs [p] t ys" unfolding Cons by blast
  note fr = drr_frameD [OF t(6)]
  have f: "fs r = p # tl (fs r)" using t(3,4) by simp
  have "drr_bucket s q = Some i" if "q \<in> set (fs i)" for q i using drr_okD(1) [OF s] that by (simp add: drr_core_def)
  then have "drr_bucket s p = Some r" using f by (metis list.set_intros(1))
  then have fl: "flow (drr_bucket s) i [p] = (if i = r then [p] else [])" for i by (simp add: flow_def)
  have bc: "dr_bytecnt t \<le> dr_bytecnt s"
  proof -
    have "dr_bytecnt t = (\<Sum>i<length (dr_nodes s). bytes s ((fs(r := tl (fs r))) i))" using drr_okD(1) [OF t(5)] by (simp only: drr_core_def fr(1,3))
    also have "\<dots> = dr_bytecnt s - bytes s (fs r) + bytes s (tl (fs r))" using sum_fun_upd [OF t(2)] drr_okD(1) [OF s] by (simp add: drr_core_def)
    also have "\<dots> = dr_bytecnt s - pm_size (drr_mem s) p" by (subst f) (simp add: bytes_def)
    finally show ?thesis using drr_okD(4) [OF s] by (simp add: drr_conf_def less_imp_le)
  qed
  have "drr_effect [] [p] s fs t (fs(r := tl (fs r))) []" unfolding flow_effect_def
  proof (intro conjI allI)
    show "subseq (flow (drr_bucket s) i [p] @ (fs(r := tl (fs r))) i) (fs i @ flow (drr_bucket s) i [])" for i
      using f by (cases "i = r") (simp_all add: fl)
    have "drr_held t (fs(r := tl (fs r))) + mset (fs r) = drr_held s fs + mset (tl (fs r))" using held_upd [OF t(2), of fs "tl (fs r)"] by (simp add: drr_held_def fr(3))
    then show "drr_held s fs + mset [] = drr_held t (fs(r := tl (fs r))) + mset [] + mset [p]" by (subst (asm) f) simp
  qed (use t(7) fr in simp_all)
  moreover have "drr_kept s t" using t(6) bc fr by (simp add: drr_kept_def drr_frame_def drr_size_def)
  moreover have "drr_deque s = Some (Some p, t)" using t(1) drr_empty(1) [OF s] Cons by (simp add: drr_deque_def)
  ultimately show ?thesis using t(5,8) Cons
    by (intro exI [of _ "Some p"] exI [of _ t] exI [of _ ys] exI [of _ "fs(r := tl (fs r))"]) simp
qed

section \<open>Arrivals\<close>

lemma drr_enque_fair:
  assumes s: "drr_ok s xs fs" and p: "p \<notin># drr_held s fs"
  shows "\<exists>t ys gs ds. drr_enque p s = Some t \<and> drr_ok t ys gs \<and> drr_kept s t \<and> drr_effect [p] [] s fs t gs ds \<and>
    (fair_ok M s xs \<and> ds = [] \<longrightarrow> fair_ok M t ys \<and> drr_falls s xs [] t ys)"
proof -
  note al = drr_alloc_ok [OF s]
  from drr_enque_ok [OF s p] obtain i t ys gs ds where
    t: "drr_bucket s p = Some i" "i < nat (dr_buckets s)" "drr_enque p s = Some t" "drr_ok t ys gs" "drr_frame (drr_alloc s) t"
      "q_out t = q_out s @ map Dropped ds" "add_mset p (drr_held s fs) = drr_held t gs + mset ds" "dr_bytecnt t \<le> dr_blimit t"
      "\<forall>j. subseq (gs j) (if j = i then fs i @ [p] else fs j)"
      "ds = [] \<longrightarrow> ys = (if fs i = [] then xs @ [i] else xs) \<and>
        (\<forall>j<nat (dr_buckets s). meter t j = (if j = i \<and> fs i = [] then (0, snd (meter (drr_alloc s) i)) else meter (drr_alloc s) j))" by blast
  have st: "drr_static t = drr_static s" "drr_size t = drr_size s" using t(5) al(4,5) by (simp_all add: drr_frame_def drr_size_def)
  have "subseq (flow (drr_bucket s) j [] @ gs j) (fs j @ flow (drr_bucket s) j [p])" for j
    using t(1) t(9) [rule_format, of j] by (cases "j = i") (simp_all add: flow_def)
  then have "drr_effect [p] [] s fs t gs ds" using t(6,7) drr_static_bucket [OF st(1)] by (simp add: flow_effect_def)
  moreover have "fair_ok M t ys \<and> drr_falls s xs [] t ys" if "fair_ok M s xs" "ds = []"
    using fair_enque [OF s that(1) t(5) t(2)] t(10) that(2) by (simp add: drr_falls_def lead_falls_def)
  moreover have "drr_kept s t" using st t(8) by (simp add: drr_kept_def)
  ultimately show ?thesis using t(3,4) by blast
qed

section \<open>The contract\<close>

lemma drr_step_fair:
  assumes s: "drr_ok s xs fs" and p: "\<And>p. p \<in> set (incoming [op]) \<Longrightarrow> p \<notin># drr_held s fs"
  shows "\<exists>x t ys gs ds. drr_step op s = Some (x, t) \<and> drr_ok t ys gs \<and> drr_kept s t \<and> drr_effect (incoming [op]) (opt_list x) s fs t gs ds \<and>
    (fair_ok M s xs \<and> ds = [] \<longrightarrow> fair_ok M t ys \<and> lead_falls lead (\<lambda>f. flow_weight (drr_bucket s) (drr_size s) f (opt_list x)) s xs t ys)"
proof (cases op)
  case (FlowIn q)
  with p have "q \<notin># drr_held s fs" by simp
  from drr_enque_fair [OF s this] obtain t ys gs ds where
    "drr_enque q s = Some t" "drr_ok t ys gs" "drr_kept s t" "drr_effect [q] [] s fs t gs ds"
    "fair_ok M s xs \<and> ds = [] \<longrightarrow> fair_ok M t ys \<and> drr_falls s xs [] t ys" by blast
  with FlowIn show ?thesis unfolding drr_falls_def
    by (intro exI [of _ None] exI [of _ t] exI [of _ ys] exI [of _ gs] exI [of _ ds]) (simp add: drr_step_def)
next
  case FlowOut
  from drr_deque_fair [OF s] obtain x t ys gs where "drr_deque s = Some (x, t)" "drr_ok t ys gs" "drr_kept s t"
    "drr_effect [] (opt_list x) s fs t gs []" "fair_ok M s xs \<longrightarrow> fair_ok M t ys \<and> drr_falls s xs (opt_list x) t ys" by blast
  with FlowOut show ?thesis unfolding drr_falls_def
    by (intro exI [of _ x] exI [of _ t] exI [of _ ys] exI [of _ gs] exI [of _ "[]"]) (simp add: drr_step_def)
qed

interpretation drr_server: flow_server drr_step drr_ok drr_kept "fair_ok M" drr_bucket drr_size q_out drr_held drr_busy lead "\<lambda>ds. ds = []"
  for M :: int
proof unfold_locales
  fix s xs fs f
  assume "drr_ok s xs fs"
  then show "drr_busy f s \<longleftrightarrow> f \<in> set xs" by (rule busy_iff)
qed (use drr_step_fair drr_kept_trans in \<open>blast | simp add: drr_kept_def\<close>)+

section \<open>The constructor\<close>

definition drr_sound :: "int \<Rightarrow> int \<Rightarrow> int \<Rightarrow> queue \<Rightarrow> (addr \<Rightarrow> int) \<Rightarrow> bool" where
  "drr_sound buckets blimit quantum q saddr \<longleftrightarrow> 0 < buckets \<and> 0 < quantum \<and> 0 \<le> blimit \<and>
     (\<forall>p. 0 < pm_size (fst (q_pq q)) p) \<and> (\<forall>p. 0 \<le> saddr p)"

lemma drr_init_ok:
  assumes "drr_sound buckets blimit quantum q saddr"
  shows "drr_ok (drr_init buckets blimit quantum msk saddr q) [] (\<lambda>_. [])" "drr_held (drr_init buckets blimit quantum msk saddr q) fs = {#}"
    "0 < M \<Longrightarrow> (\<And>p. pm_size (fst (q_pq q)) p \<le> M) \<Longrightarrow> fair_ok M (drr_init buckets blimit quantum msk saddr q) []"
    "dr_bytecnt (drr_init buckets blimit quantum msk saddr q) \<le> dr_blimit (drr_init buckets blimit quantum msk saddr q)"
    "q_out (drr_init buckets blimit quantum msk saddr q) = q_out q" "dr_blimit (drr_init buckets blimit quantum msk saddr q) = blimit"
    "dr_quantum (drr_init buckets blimit quantum msk saddr q) = quantum"
  using assms by (simp_all add: drr_ok_def drr_core_def drr_conf_def drr_init_def queue.defs ring_ok_def drr_held_def fair_ok_def drr_sound_def drr_mem_def)

end
