(* ===== verification/DrrProps.thy ===== *)
theory DrrProps
  imports DrrRun
begin

text \<open>What DRR promises of a sequence of arrivals and departures.\<close>

declare drr_drop_loop.simps [code] drr_rounds.simps [code]

text \<open>Three buckets and a quantum of 150 bytes; packet 5 has 200 bytes, the others 100, and the source of packet \<open>p\<close> is \<open>p\<close>.\<close>

definition drr_queue :: queue where
  "drr_queue = (queue_example 0)
     \<lparr>q_pq := (\<lparr>pm_next = \<lambda>_. None, pm_size = \<lambda>p. if p = 5 then 200 else 100, pm_ect = \<lambda>_. False, pm_ce = \<lambda>_. False\<rparr>, pq_init)\<rparr>"

definition drr_example :: "int \<Rightarrow> drr" where
  "drr_example blimit = drr_init 3 blimit 150 False int drr_queue"

lemma drr_example_sound: "0 \<le> blimit \<Longrightarrow> drr_sound 3 blimit 150 drr_queue int"
  by (simp add: drr_sound_def drr_queue_def)

lemma drr_queue_out: "q_out drr_queue = []"
  by (simp add: drr_queue_def queue_example_def)

section \<open>Fairness\<close>

text \<open>C5. Deficit round robin is fair: from its constructor on, if no packet has been dropped, two flows that have packets
  all the time are sent the same number of bytes, up to a quantum and two packets of the largest size, however
  their packets are sized and whatever other flows do.\<close>

theorem drr_fair:
  assumes "drr_sound buckets blimit quantum q saddr" "\<And>p. pm_size (fst (q_pq q)) p \<le> M" "distinct (incoming (before @ ops))"
    and "flow_run drr_step before (drr_init buckets blimit quantum msk saddr q) = Some (as, s)" "flow_run drr_step ops s = Some (ps, t)" "q_out t = q_out q"
    and "f \<noteq> g" "backlogged drr_step (drr_busy f) ops s" "backlogged drr_step (drr_busy g) ops s"
  shows "\<bar>flow_weight (drr_bucket s) (drr_size s) f ps - flow_weight (drr_bucket s) (drr_size s) g ps\<bar> < quantum + 2 * M"
proof -
  have M: "0 < M" using assms(1,2) by (metis drr_sound_def less_le_trans)
  note i = drr_init_ok [OF assms(1), where msk = msk]
  have "\<And>ds. q_out t = q_out (drr_init buckets blimit quantum msk saddr q) @ map Dropped ds \<Longrightarrow> ds = []" using assms(6) i(5) by simp
  from drr_server.empty_fair [OF i(1,2) i(3) [OF M assms(2)] assms(3-5) this assms(7-9)] obtain zs hs ys gs where
    u: "drr_ok s zs hs" "fair_ok M s zs" "drr_ok t ys gs" "fair_ok M t ys" "drr_kept (drr_init buckets blimit quantum msk saddr q) s"
      "drr_kept (drr_init buckets blimit quantum msk saddr q) t" "f \<in> set zs" "g \<in> set zs" "f \<in> set ys" "g \<in> set ys" "lead t ys f g = lead s zs f g -
        (flow_weight (drr_bucket s) (drr_size s) f ps - flow_weight (drr_bucket s) (drr_size s) g ps)" by blast
  have "dr_quantum s = quantum" "dr_quantum t = quantum" using u(5,6) i(7) by (simp_all add: drr_kept_def drr_static_def)
  with lead_bounds [OF u(1,2,7,8) assms(7)] lead_bounds [OF u(3,4,9,10) assms(7)] u(11) show ?thesis by linarith
qed

theorem drr_fair_witness:
  "case flow_run drr_step (map FlowIn [1, 2, 3, 4, 5, 7, 8, 11]) (drr_example 1000) of None \<Rightarrow> False
   | Some (as, s) \<Rightarrow> (case flow_run drr_step [FlowOut, FlowIn 10, FlowOut, FlowOut, FlowOut, FlowOut] s of None \<Rightarrow> False
     | Some (ps, t) \<Rightarrow> ps = [1, 2, 3, 4, 7] \<and> \<bar>flow_weight (drr_bucket s) (drr_size s) 1 ps - flow_weight (drr_bucket s) (drr_size s) 2 ps\<bar> < 150 + 2 * 200)"
proof -
  define a where "a = map FlowIn [1, 2, 3, 4, 5, 7, 8, 11]"
  define b where "b = [FlowOut, FlowIn 10, FlowOut, FlowOut, FlowOut, FlowOut]"
  have e: "case flow_run drr_step a (drr_example 1000) of None \<Rightarrow> False | Some (as, s) \<Rightarrow> (case flow_run drr_step b s of None \<Rightarrow> False
     | Some (ps, t) \<Rightarrow> ps = [1, 2, 3, 4, 7] \<and> q_out t = [] \<and> backlogged drr_step (drr_busy 1) b s \<and> backlogged drr_step (drr_busy 2) b s)"
    unfolding a_def b_def by code_simp
  obtain as s where s: "flow_run drr_step a (drr_example 1000) = Some (as, s)" using e by (cases "flow_run drr_step a (drr_example 1000)") auto
  obtain ps t where t: "flow_run drr_step b s = Some (ps, t)" "ps = [1, 2, 3, 4, 7]" "q_out t = []" "backlogged drr_step (drr_busy 1) b s" "backlogged drr_step (drr_busy 2) b s"
    using e s by (cases "flow_run drr_step b s") auto
  have "distinct (incoming (a @ b))" by (simp add: a_def b_def)
  then have "\<bar>flow_weight (drr_bucket s) (drr_size s) 1 ps - flow_weight (drr_bucket s) (drr_size s) 2 ps\<bar> < 150 + 2 * 200"
    by (rule drr_fair [OF drr_example_sound _ _ s [unfolded drr_example_def] t(1) _ _ t(4,5), rotated 2]) (simp_all add: t(3) drr_queue_def queue_example_def)
  then show ?thesis unfolding a_def [symmetric] b_def [symmetric] s by (simp add: t(1,2))
qed

section \<open>Packets\<close>

text \<open>C10. DRR returns from every arrival and every departure - the loop that drops and the loop over the rounds end -
  and accounts for all packets: each one that has arrived has left, has been dropped, or is counted
  in \<open>pktcnt_\<close>, no packet twice, and the bytes in the queue never exceed \<open>blimit_\<close>.\<close>

theorem drr_accounts:
  assumes "drr_sound buckets blimit quantum q saddr" "distinct (incoming ops)"
  shows "\<exists>ps t ds. flow_run drr_step ops (drr_init buckets blimit quantum msk saddr q) = Some (ps, t) \<and>
    q_out t = q_out q @ map Dropped ds \<and> mset ps + mset ds \<subseteq># mset (incoming ops) \<and>
    dr_pktcnt t = int (length (incoming ops)) - int (length ps) - int (length ds) \<and> 0 \<le> dr_bytecnt t \<and> dr_bytecnt t \<le> blimit"
proof -
  note i = drr_init_ok [OF assms(1), where msk = msk]
  from drr_server.empty_runs [OF i(1,2) assms(2)] obtain ps t ys gs ds where
    t: "flow_run drr_step ops (drr_init buckets blimit quantum msk saddr q) = Some (ps, t)" "drr_ok t ys gs"
      "drr_kept (drr_init buckets blimit quantum msk saddr q) t"
      "drr_effect (incoming ops) ps (drr_init buckets blimit quantum msk saddr q) (\<lambda>_. []) t gs ds" by blast
  have m: "mset (incoming ops) = drr_held t gs + mset ds + mset ps" using t(4) i(2) by (simp add: flow_effect_def)
  then have "mset ps + mset ds \<subseteq># mset (incoming ops)" by (simp add: mset_subset_eq_exists_conv ac_simps)
  moreover have "dr_pktcnt t = int (length (incoming ops)) - int (length ps) - int (length ds)"
    using arg_cong [OF m, of size] size_held [OF t(2)] by simp
  moreover have "dr_bytecnt t \<le> blimit" using t(3) i(4,6) by (simp add: drr_kept_def drr_static_def)
  moreover have "q_out t = q_out q @ map Dropped ds" using t(4) by (simp add: flow_effect_def i(5))
  ultimately show ?thesis using t(1) drr_empty(2) [OF t(2)] by blast
qed

theorem drr_accounts_witness:
  "\<exists>ps t ds. flow_run drr_step (map FlowIn [1, 2, 3, 5] @ [FlowOut, FlowIn 4]) (drr_example 350) = Some (ps, t) \<and>
    q_out t = [] @ map Dropped ds \<and> mset ps + mset ds \<subseteq># mset [1, 2, 3, 5, 4] \<and>
    dr_pktcnt t = int (length [1, 2, 3, 5, 4 :: addr]) - int (length ps) - int (length ds) \<and> 0 \<le> dr_bytecnt t \<and> dr_bytecnt t \<le> 350"
  using drr_accounts [OF drr_example_sound, of 350 "map FlowIn [1, 2, 3, 5] @ [FlowOut, FlowIn 4]" False]
  unfolding drr_example_def by (simp add: drr_queue_out del: flow_run.simps)

text \<open>The packets of each flow leave DRR in the order in which they arrived, whatever is dropped.\<close>

theorem drr_flow_order:
  assumes "drr_sound buckets blimit quantum q saddr" "distinct (incoming ops)"
    and "flow_run drr_step ops (drr_init buckets blimit quantum msk saddr q) = Some (ps, t)"
  shows "subseq (flow (drr_bucket t) f ps) (flow (drr_bucket t) f (incoming ops))"
proof -
  note i = drr_init_ok [OF assms(1), where msk = msk]
  from drr_server.empty_ok [OF i(1,2) assms(2,3)] obtain gs ds where
    "drr_effect (incoming ops) ps (drr_init buckets blimit quantum msk saddr q) (\<lambda>_. []) t gs ds" by blast
  then have "subseq (flow (drr_bucket t) f ps @ gs f) (flow (drr_bucket t) f (incoming ops))" by (simp add: flow_effect_def)
  then show ?thesis using subseq_order.order_trans [OF subseq_rev_drop_many [OF subseq_order.order_refl]] by fastforce
qed

theorem drr_flow_order_witness:
  "case flow_run drr_step (map FlowIn [1, 2, 4, 5, 7] @ replicate 4 FlowOut) (drr_example 500) of None \<Rightarrow> False
   | Some (ps, t) \<Rightarrow> ps = [4, 2, 7, 5] \<and> subseq (flow (drr_bucket t) 1 ps) (flow (drr_bucket t) 1 [1, 2, 4, 5, 7])"
proof -
  define a where "a = map FlowIn [1, 2, 4, 5, 7] @ replicate 4 FlowOut"
  have e: "case flow_run drr_step a (drr_example 500) of None \<Rightarrow> False | Some (ps, t) \<Rightarrow> ps = [4, 2, 7, 5]" unfolding a_def by code_simp
  obtain ps t where t: "flow_run drr_step a (drr_example 500) = Some (ps, t)" using e by (cases "flow_run drr_step a (drr_example 500)") auto
  have d: "incoming a = [1, 2, 4, 5, 7]" by (simp add: a_def numeral_eq_Suc)
  have "subseq (flow (drr_bucket t) 1 ps) (flow (drr_bucket t) 1 (incoming a))"
    by (rule drr_flow_order [OF drr_example_sound _ t [unfolded drr_example_def]]) (simp_all add: d)
  then show ?thesis using e unfolding a_def [symmetric] t by (simp add: d)
qed

text \<open>C38. DRR is work conserving: whatever has arrived and left, a departure returns, and it returns a packet if and only
  if there is one in the queue.\<close>

theorem drr_work_conserving:
  assumes "drr_sound buckets blimit quantum q saddr" "distinct (incoming ops)"
    and "flow_run drr_step ops (drr_init buckets blimit quantum msk saddr q) = Some (ps, s)"
  shows "\<exists>x t. drr_deque s = Some (x, t) \<and> (x = None \<longleftrightarrow> dr_pktcnt s = 0) \<and> dr_pktcnt t = dr_pktcnt s - (if x = None then 0 else 1)"
proof -
  from drr_server.empty_ok [OF drr_init_ok(1,2) assms(2,3)] assms(1) obtain xs fs where s: "drr_ok s xs fs" by blast
  from drr_deque_fair [OF s] obtain x t ys gs where
    t: "drr_deque s = Some (x, t)" "x = None \<longleftrightarrow> xs = []" "drr_ok t ys gs" "drr_effect [] (opt_list x) s fs t gs []" by blast
  have "drr_held s fs = drr_held t gs + mset (opt_list x)" using t(4) by (simp add: flow_effect_def)
  from arg_cong [OF this, of size] have n: "dr_pktcnt t = dr_pktcnt s - (if x = None then 0 else 1)"
    using size_held [OF s] size_held [OF t(3)] by (cases x) auto
  have "dr_pktcnt s = 0 \<longleftrightarrow> xs = []"
  proof
    assume "xs = []"
    then have "fs = (\<lambda>_. [])" using drr_okD(2) [OF s] by auto
    then show "dr_pktcnt s = 0" using drr_okD(1) [OF s] by (simp add: drr_core_def)
  next
    assume "dr_pktcnt s = 0"
    then have "x = None" using n size_held [OF t(3)] by (auto split: if_splits)
    then show "xs = []" using t(2) by simp
  qed
  with t(1,2) n show ?thesis by blast
qed

theorem drr_work_conserving_witness:
  "case flow_run drr_step (map FlowIn [5, 2] @ [FlowOut]) (drr_example 500) of None \<Rightarrow> False
   | Some (ps, s) \<Rightarrow> ps = [5] \<and> dr_pktcnt s = 1 \<and> (case drr_deque s of None \<Rightarrow> False | Some (x, t) \<Rightarrow> x = Some 2 \<and> dr_pktcnt t = 0)"
proof -
  define a where "a = map FlowIn [5, 2] @ [FlowOut]"
  have e: "case flow_run drr_step a (drr_example 500) of None \<Rightarrow> False | Some (ps, s) \<Rightarrow> ps = [5] \<and> dr_pktcnt s = 1 \<and>
    (case drr_deque s of None \<Rightarrow> True | Some (x, t) \<Rightarrow> x = Some 2)" unfolding a_def by code_simp
  obtain ps s where s: "flow_run drr_step a (drr_example 500) = Some (ps, s)" using e by (cases "flow_run drr_step a (drr_example 500)") auto
  have d: "distinct (incoming a)" by (simp add: a_def)
  obtain x t where t: "drr_deque s = Some (x, t)" "dr_pktcnt t = dr_pktcnt s - (if x = None then 0 else 1)"
    using drr_work_conserving [OF drr_example_sound d s [unfolded drr_example_def]] by auto
  then show ?thesis using e unfolding a_def [symmetric] s by simp
qed

end
