(* ===== verification/Sfq.thy ===== *)
theory Sfq
  imports FlowRing FlowServer
begin

text \<open>
  Class SFQ of queue/sfq.cc: stochastic fair queueing.  Packets are hashed into buckets, which are served in turn, a packet
  each; a bucket that holds much of the buffer drops what arrives.  The array \<open>sf_nodes\<close> is empty until
  the first call.  \<open>None\<close> is an access outside the array, a division by zero, a failed allocation or a call that does not return.
\<close>

unbundle bit_operations_syntax

section \<open>State\<close>

text \<open>The source and destination address of a packet are \<open>sf_saddr\<close> and \<open>sf_daddr\<close>.\<close>

record sfq = queue +
  sf_nodes :: "ring_node list"
  sf_maxqueue :: int
  sf_buckets :: int
  sf_active :: "nat option"
  sf_occupied :: int
  sf_fairshare :: int
  sf_saddr :: "addr \<Rightarrow> int"
  sf_daddr :: "addr \<Rightarrow> int"

text \<open>The constructor leaves \<open>occupied\<close> and \<open>fairshare\<close> as it finds them.\<close>

definition sfq_new :: "int \<Rightarrow> int \<Rightarrow> int \<Rightarrow> int \<Rightarrow> (addr \<Rightarrow> int) \<Rightarrow> (addr \<Rightarrow> int) \<Rightarrow> queue \<Rightarrow> sfq" where
  "sfq_new maxqueue buckets occupied fairshare saddr daddr q = queue.extend q
     \<lparr>sf_nodes = [], sf_maxqueue = maxqueue, sf_buckets = buckets, sf_active = None, sf_occupied = occupied, sf_fairshare = fairshare,
      sf_saddr = saddr, sf_daddr = daddr\<rparr>"

definition sfq_node_new :: ring_node where
  "sfq_node_new = \<lparr>rn_q = pq_init, rn_pkts = 0, rn_prev = None, rn_next = None\<rparr>"

definition initsfq :: "sfq \<Rightarrow> sfq option" where
  "initsfq s = (if sf_buckets s \<le> 0 then None
     else Some (s\<lparr>sf_nodes := replicate (nat (sf_buckets s)) sfq_node_new, sf_active := None, sf_occupied := 0,
       sf_fairshare := cdiv (sf_maxqueue s) (sf_buckets s)\<rparr>))"

definition sfq_ready :: "sfq \<Rightarrow> sfq option" where
  "sfq_ready s = (if sf_nodes s = [] then initsfq s else Some s)"

definition sfq_hash :: "sfq \<Rightarrow> addr \<Rightarrow> int" where
  "sfq_hash s p = (let k = sf_saddr s p + sf_daddr s p in cmod (k + drop_bit 8 k + NOT (drop_bit 4 k)) 1048575)"

text \<open>The index of the bucket; a negative one is outside the array.\<close>

definition sfq_bucket :: "sfq \<Rightarrow> addr \<Rightarrow> nat option" where
  "sfq_bucket s p =
     (if sf_buckets s = 0 then None
      else (let which = cmod (sfq_hash s p) (sf_buckets s) in if 0 \<le> which then Some (nat which) else None))"

definition sfq_mem :: "sfq \<Rightarrow> pmem" where
  "sfq_mem s = fst (q_pq s)"

definition sfq_pq :: "nat \<Rightarrow> sfq \<Rightarrow> pqs" where
  "sfq_pq i s = (sfq_mem s, rn_q (sf_nodes s ! i))"

definition set_sfq_pq :: "nat \<Rightarrow> pqs \<Rightarrow> sfq \<Rightarrow> sfq" where
  "set_sfq_pq i mq s = s\<lparr>q_pq := (fst mq, snd (q_pq s)), sf_nodes := set_node i (rn_q_update (\<lambda>_. snd mq)) (sf_nodes s)\<rparr>"

section \<open>Operations\<close>

text \<open>\<open>idle\<close> unlinks the bucket only if it is the head.\<close>

definition sfq_idle :: "nat \<Rightarrow> nat option \<Rightarrow> ring_node list \<Rightarrow> (ring_node list \<times> nat option) option" where
  "sfq_idle i head bs = (if head = Some i then ring_idle i head bs else Some (bs, head))"

definition sfq_put :: "nat \<Rightarrow> addr \<Rightarrow> sfq \<Rightarrow> sfq option" where
  "sfq_put i p s =
     (let s = set_sfq_pq i (snd (pq_enque p (sfq_pq i s))) s;
          s = s\<lparr>sf_occupied := sf_occupied s + 1, sf_nodes := set_node i (\<lambda>b. b\<lparr>rn_pkts := rn_pkts b + 1\<rparr>) (sf_nodes s)\<rparr>
      in if rn_pkts (sf_nodes s ! i) = 1
         then map_option (\<lambda>(bs, a). s\<lparr>sf_nodes := bs, sf_active := a\<rparr>) (ring_activate i (sf_active s) (sf_nodes s))
         else Some s)"

definition sfq_full :: "nat \<Rightarrow> sfq \<Rightarrow> bool" where
  "sfq_full i s =
     (let used = rn_pkts (sf_nodes s ! i); left = sf_maxqueue s - sf_occupied s
      in used \<ge> drop_bit 1 left \<or> left < sf_buckets s \<and> used > sf_fairshare s \<or> left \<le> 0)"

definition sfq_enque :: "addr \<Rightarrow> sfq \<Rightarrow> sfq option" where
  "sfq_enque p s = Option.bind (sfq_ready s) (\<lambda>s. case sfq_bucket s p of
     None \<Rightarrow> None
   | Some i \<Rightarrow>
       if i < length (sf_nodes s) then (if sfq_full i s then Some (emit (Dropped p) s) else sfq_put i p s) else None)"

definition sfq_serve :: "nat \<Rightarrow> sfq \<Rightarrow> (addr option \<times> sfq) option" where
  "sfq_serve c s =
     (let s = s\<lparr>sf_nodes := set_node c (\<lambda>b. b\<lparr>rn_pkts := rn_pkts b - 1\<rparr>) (sf_nodes s), sf_occupied := sf_occupied s - 1\<rparr>
      in case pq_deque (sfq_pq c s) of (pkt, q) \<Rightarrow>
           (let s = set_sfq_pq c q s
            in if rn_pkts (sf_nodes s ! c) = 0
               then map_option (\<lambda>(bs, a). (pkt, s\<lparr>sf_nodes := bs, sf_active := a\<rparr>)) (sfq_idle c (sf_active s) (sf_nodes s))
               else Some (pkt, s\<lparr>sf_active := rn_next (sf_nodes s ! c)\<rparr>)))"

definition sfq_deque :: "sfq \<Rightarrow> (addr option \<times> sfq) option" where
  "sfq_deque s = Option.bind (sfq_ready s) (\<lambda>s. case sf_active s of None \<Rightarrow> Some (None, s) | Some c \<Rightarrow> sfq_serve c s)"

section \<open>Commands\<close>

definition sfq_limit :: "int \<Rightarrow> sfq \<Rightarrow> sfq option" where
  "sfq_limit n s = (if sf_buckets s = 0 then None else Some (s\<lparr>sf_maxqueue := n, sf_fairshare := cdiv n (sf_buckets s)\<rparr>))"

text \<open>The loop of \<open>clear\<close> never changes its counter: with an array it exits, or leaves the array, unless there are no buckets.\<close>

definition sfq_clear :: "sfq \<Rightarrow> sfq option" where
  "sfq_clear s = (if sf_nodes s = [] then Some s else if sf_buckets s = 0 then Some (s\<lparr>sf_nodes := []\<rparr>) else None)"

definition sfq_set_buckets :: "int \<Rightarrow> sfq \<Rightarrow> sfq option" where
  "sfq_set_buckets n s = map_option (sf_buckets_update (\<lambda>_. n)) (sfq_clear s)"

end
