(* ===== verification/SfqInv.thy ===== *)
theory SfqInv
  imports Sfq
begin

text \<open>
  The invariant of SFQ - the ring holds the buckets with packets, no bucket has more than a third of the
  buffer - and that arrivals and departures keep the contract of \<open>flow_server\<close>.
\<close>

section \<open>The invariant\<close>

definition sfq_node_ok :: "pmem \<Rightarrow> ring_node \<Rightarrow> addr list \<Rightarrow> bool" where
  "sfq_node_ok m b ps \<longleftrightarrow> pq_ok (m, rn_q b) ps \<and> rn_pkts b = int (length ps)"

definition sfq_static :: "sfq \<Rightarrow> int \<times> int \<times> (addr \<Rightarrow> int) \<times> (addr \<Rightarrow> int)" where
  "sfq_static s = (sf_maxqueue s, sf_buckets s, sf_saddr s, sf_daddr s)"

definition sfq_conf :: "sfq \<Rightarrow> bool" where
  "sfq_conf s \<longleftrightarrow> 0 < sf_buckets s \<and> (\<forall>p. 0 < sf_saddr s p + sf_daddr s p)"

definition sfq_share_ok :: "int \<Rightarrow> int \<Rightarrow> bool" where
  "sfq_share_ok maxqueue n \<longleftrightarrow> n = 0 \<or> 3 * n \<le> maxqueue + 1"

definition sfq_core :: "sfq \<Rightarrow> nat list \<Rightarrow> (nat \<Rightarrow> addr list) \<Rightarrow> bool" where
  "sfq_core s xs fs \<longleftrightarrow> sfq_conf s \<and> (sf_nodes s = [] \<or> length (sf_nodes s) = nat (sf_buckets s) \<and>
       sf_occupied s = (\<Sum>i<length (sf_nodes s). int (length (fs i)))) \<and>
     ring_ok (sf_nodes s) (sf_active s) xs \<and>
     (\<forall>i<length (sf_nodes s). sfq_node_ok (sfq_mem s) (sf_nodes s ! i) (fs i)) \<and>
     (\<forall>i. \<forall>p\<in>set (fs i). sfq_bucket s p = Some i)"

definition sfq_ok :: "sfq \<Rightarrow> nat list \<Rightarrow> (nat \<Rightarrow> addr list) \<Rightarrow> bool" where
  "sfq_ok s xs fs \<longleftrightarrow> sfq_core s xs fs \<and> (\<forall>i. i \<in> set xs \<longleftrightarrow> fs i \<noteq> [])"

definition sfq_held :: "sfq \<Rightarrow> (nat \<Rightarrow> addr list) \<Rightarrow> addr multiset" where
  "sfq_held s fs = (\<Sum>i<length (sf_nodes s). mset (fs i))"

text \<open>The bounds on what is queued, once the array is there.\<close>

definition sfq_bounded :: "sfq \<Rightarrow> bool" where
  "sfq_bounded s \<longleftrightarrow> (\<forall>b\<in>set (sf_nodes s). sfq_share_ok (sf_maxqueue s) (rn_pkts b)) \<and>
     (sf_nodes s = [] \<or> sf_occupied s = 0 \<or> sf_occupied s < sf_maxqueue s)"

definition sfq_kept :: "sfq \<Rightarrow> sfq \<Rightarrow> bool" where
  "sfq_kept s t \<longleftrightarrow> sfq_static t = sfq_static s \<and> (sf_nodes s \<noteq> [] \<longrightarrow> sf_nodes t \<noteq> []) \<and> (sfq_bounded s \<longrightarrow> sfq_bounded t)"

lemma sfq_okD:
  assumes "sfq_ok s xs fs"
  shows "sfq_core s xs fs" "\<And>i. i \<in> set xs \<longleftrightarrow> fs i \<noteq> []" "sfq_conf s" "ring_ok (sf_nodes s) (sf_active s) xs"
    "\<And>i. i \<in> set xs \<Longrightarrow> i < length (sf_nodes s)" "sf_active s = (case xs of [] \<Rightarrow> None | x # _ \<Rightarrow> Some x)" "distinct xs"
    "\<And>i. i < length (sf_nodes s) \<Longrightarrow> sfq_node_ok (sfq_mem s) (sf_nodes s ! i) (fs i)" "\<And>i p. p \<in> set (fs i) \<Longrightarrow> sfq_bucket s p = Some i"
  using assms by (auto simp: sfq_ok_def sfq_core_def ring_ok_def)

lemma sfq_static_bucket:
  assumes "sfq_static t = sfq_static s"
  shows "sfq_bucket t = sfq_bucket s" "sfq_conf t = sfq_conf s" "sf_buckets t = sf_buckets s" "sf_maxqueue t = sf_maxqueue s"
proof -
  have e: "sf_buckets t = sf_buckets s" "sf_saddr t = sf_saddr s" "sf_daddr t = sf_daddr s" "sf_maxqueue t = sf_maxqueue s"
    using assms by (simp_all add: sfq_static_def)
  show "sfq_bucket t = sfq_bucket s" by (simp add: fun_eq_iff sfq_bucket_def sfq_hash_def e)
  show "sfq_conf t = sfq_conf s" by (simp add: sfq_conf_def e)
  show "sf_buckets t = sf_buckets s" "sf_maxqueue t = sf_maxqueue s" by (rule e)+
qed

lemma sfq_kept_trans: "sfq_kept s u \<Longrightarrow> sfq_kept u t \<Longrightarrow> sfq_kept s t"
  by (simp add: sfq_kept_def)

lemma sfq_occupied:
  assumes "sfq_ok s xs fs" "sf_nodes s \<noteq> []"
  shows "sf_occupied s = int (size (sfq_held s fs))"
proof -
  have "size (\<Sum>i<n. mset (fs i)) = (\<Sum>i<n. length (fs i))" for n by (induction n) simp_all
  then show ?thesis using assms by (simp add: sfq_held_def sfq_ok_def sfq_core_def)
qed

section \<open>The array\<close>

lemma sfq_ready_ok:
  assumes s: "sfq_ok s xs fs"
  shows "\<exists>t. sfq_ready s = Some t \<and> sfq_ok t xs fs \<and> sf_nodes t \<noteq> [] \<and> sfq_kept s t \<and> q_out t = q_out s \<and> sfq_held t fs = sfq_held s fs"
proof (cases "sf_nodes s = []")
  case True
  note o = sfq_okD [OF s]
  have b: "0 < sf_buckets s" using o(3) by (simp add: sfq_conf_def)
  have x: "xs = []" using o(5) True by (cases xs) auto
  then have f: "fs = (\<lambda>_. [])" using o(2) by auto
  let ?t = "s\<lparr>sf_nodes := replicate (nat (sf_buckets s)) sfq_node_new, sf_active := None, sf_occupied := 0,
    sf_fairshare := cdiv (sf_maxqueue s) (sf_buckets s)\<rparr>"
  have st: "sfq_static ?t = sfq_static s" by (simp add: sfq_static_def)
  have "sfq_ready s = Some ?t" using True b by (simp add: sfq_ready_def initsfq_def)
  moreover have "sfq_ok ?t xs fs" using o(3) sfq_static_bucket [OF st] x f b
    by (simp add: sfq_ok_def sfq_core_def ring_ok_def sfq_node_ok_def sfq_node_new_def pq_ok_init)
  moreover have "sfq_bounded ?t" using b by (simp add: sfq_bounded_def sfq_share_ok_def sfq_node_new_def)
  then have "sfq_kept s ?t" using st b by (simp add: sfq_kept_def)
  moreover have "sfq_held ?t fs = sfq_held s fs" by (simp add: sfq_held_def f)
  ultimately show ?thesis using b by (intro exI [of _ ?t]) simp
qed (use s in \<open>simp add: sfq_ready_def sfq_kept_def\<close>)

lemma sfq_hash_nonneg:
  assumes "0 < sf_saddr s p + sf_daddr s p"
  shows "0 \<le> sfq_hash s p"
proof -
  define k where "k = sf_saddr s p + sf_daddr s p"
  have k: "0 < k" using assms by (simp add: k_def)
  have h: "sfq_hash s p = cmod (k + k div 256 - k div 16 - 1) 1048575"
    unfolding sfq_hash_def k_def [symmetric] Let_def by (simp add: drop_bit_eq_div not_int_def algebra_simps)
  have "k div 16 < k" using k by (simp add: int_div_less_self)
  moreover have "0 \<le> k div 256" using k by simp
  ultimately have "0 \<le> k + k div 256 - k div 16 - 1" by linarith
  then show ?thesis by (simp add: h cmod_nonneg)
qed

lemma sfq_bucket_some:
  assumes "sfq_conf s"
  shows "\<exists>i. sfq_bucket s p = Some i \<and> i < nat (sf_buckets s)"
proof -
  have h: "0 \<le> sfq_hash s p" "0 < sf_buckets s" using assms sfq_hash_nonneg [of s p] by (auto simp: sfq_conf_def)
  then have "cmod (sfq_hash s p) (sf_buckets s) = sfq_hash s p mod sf_buckets s" by (rule cmod_nonneg)
  with h show ?thesis by (simp add: sfq_bucket_def Let_def)
qed

section \<open>One bucket changes\<close>

lemma sfq_core_step:
  assumes s: "sfq_core s xs fs" and n: "sf_nodes s \<noteq> []" and i: "i < length (sf_nodes s)"
    and t: "length (sf_nodes t) = length (sf_nodes s)" "sfq_static t = sfq_static s" "ring_ok (sf_nodes t) (sf_active t) ys"
      "\<And>j. j < length (sf_nodes s) \<Longrightarrow> j \<noteq> i \<Longrightarrow> rn_q (sf_nodes t ! j) = rn_q (sf_nodes s ! j) \<and> rn_pkts (sf_nodes t ! j) = rn_pkts (sf_nodes s ! j)"
      "\<And>a. a \<notin> set (fs i) \<Longrightarrow> a \<notin> set ps \<Longrightarrow> pm_next (sfq_mem t) a = pm_next (sfq_mem s) a" "pm_size (sfq_mem t) = pm_size (sfq_mem s)"
      "sfq_node_ok (sfq_mem t) (sf_nodes t ! i) ps" "\<And>p. p \<in> set ps \<Longrightarrow> sfq_bucket s p = Some i"
      "sf_occupied t = sf_occupied s - int (length (fs i)) + int (length ps)"
  shows "sfq_core t ys (fs(i := ps))"
proof -
  note b = sfq_static_bucket [OF t(2)]
  have "sf_occupied t = (\<Sum>j<length (sf_nodes s). int (length ((fs(i := ps)) j)))"
    using sum_fun_upd [OF i, of "\<lambda>ps. int (length ps)" fs ps] s n by (simp add: sfq_core_def t(9))
  moreover have "sfq_node_ok (sfq_mem t) (sf_nodes t ! j) ((fs(i := ps)) j)" if j: "j < length (sf_nodes s)" for j
  proof (cases "j = i")
    case False
    have "pm_next (sfq_mem t) a = pm_next (sfq_mem s) a" if "a \<in> set (fs j)" for a
    proof -
      have "sfq_bucket s a = Some j" using s that by (simp add: sfq_core_def)
      then have "a \<notin> set (fs i)" "a \<notin> set ps" using False s t(8) by (auto simp: sfq_core_def)
      then show ?thesis by (rule t(5))
    qed
    moreover have "sfq_node_ok (sfq_mem s) (sf_nodes s ! j) (fs j)" using s j by (simp add: sfq_core_def)
    ultimately show ?thesis using pq_ok_frame [of "sfq_mem s" _ "fs j" "sfq_mem t"] t(6) t(4) [OF j False] False
      by (auto simp: sfq_node_ok_def)
  qed (simp add: t(7))
  ultimately show ?thesis using s t(1,3,8) n by (auto simp: sfq_core_def b)
qed

text \<open>The bounds after a change of one bucket.\<close>

lemma sfq_bounded_step:
  assumes "sfq_bounded s" "length (sf_nodes t) = length (sf_nodes s)" "sf_maxqueue t = sf_maxqueue s"
    "\<And>j. j < length (sf_nodes s) \<Longrightarrow> j \<noteq> i \<Longrightarrow> rn_pkts (sf_nodes t ! j) = rn_pkts (sf_nodes s ! j)"
    "i < length (sf_nodes s) \<Longrightarrow> sfq_share_ok (sf_maxqueue s) (rn_pkts (sf_nodes t ! i))" "sf_occupied t = 0 \<or> sf_occupied t < sf_maxqueue s"
  shows "sfq_bounded t"
proof -
  have "sfq_share_ok (sf_maxqueue s) (rn_pkts (sf_nodes t ! j))" if "j < length (sf_nodes s)" for j
    using assms(1,4,5) that by (cases "j = i") (auto simp: sfq_bounded_def all_set_conv_all_nth)
  with assms(2,3,6) show ?thesis by (simp add: sfq_bounded_def all_set_conv_all_nth)
qed

end
