(* ===== verification/SfqOps.thy ===== *)
theory SfqOps
  imports SfqInv
begin

text \<open>Arrivals and departures of SFQ, and the contract \<open>flow_server\<close>: flows are served in turn, a packet each.\<close>

section \<open>Arrival\<close>

text \<open>What an operation leaves alone.\<close>

definition sfq_frame :: "nat \<Rightarrow> sfq \<Rightarrow> sfq \<Rightarrow> bool" where
  "sfq_frame i s t \<longleftrightarrow> sfq_static t = sfq_static s \<and> q_out t = q_out s \<and> length (sf_nodes t) = length (sf_nodes s) \<and>
     (\<forall>j<length (sf_nodes s). j \<noteq> i \<longrightarrow> rn_pkts (sf_nodes t ! j) = rn_pkts (sf_nodes s ! j))"

lemma sfq_put_ok:
  assumes s: "sfq_ok s xs fs" "sf_nodes s \<noteq> []" and i: "i < length (sf_nodes s)" "sfq_bucket s p = Some i" "p \<notin> set (fs i)"
  shows "\<exists>t. sfq_put i p s = Some t \<and> sfq_ok t (if fs i = [] then xs @ [i] else xs) (fs(i := fs i @ [p])) \<and> sfq_frame i s t \<and>
    sf_occupied t = sf_occupied s + 1 \<and> rn_pkts (sf_nodes t ! i) = int (length (fs i)) + 1"
proof -
  note d = sfq_okD [OF s(1)]
  let ?b = "sf_nodes s ! i" and ?m = "sfq_mem s"
  have n: "sfq_node_ok ?m ?b (fs i)" by (rule d(8) [OF i(1)])
  obtain r m q where e: "pq_enque p (?m, rn_q ?b) = (r, (m, q))" by (cases "pq_enque p (?m, rn_q ?b)") auto
  have q: "pq_ok (m, q) (fs i @ [p])" using pq_enque_ok [of "(?m, rn_q ?b)" "fs i" p] n i(3) e by (simp add: sfq_node_ok_def)
  have m: "pm_size m = pm_size ?m" "\<And>a. a \<noteq> p \<Longrightarrow> a \<notin> set (fs i) \<Longrightarrow> pm_next m a = pm_next ?m a"
    using pq_enque_mem [OF _ e] n by (auto simp: sfq_node_ok_def)
  define u where "u = (set_sfq_pq i (m, q) s)\<lparr>sf_occupied := sf_occupied (set_sfq_pq i (m, q) s) + 1,
    sf_nodes := set_node i (\<lambda>b. b\<lparr>rn_pkts := rn_pkts b + 1\<rparr>) (sf_nodes (set_sfq_pq i (m, q) s))\<rparr>"
  define f where "f = (\<lambda>b :: ring_node. b\<lparr>rn_q := q, rn_pkts := rn_pkts b + 1\<rparr>)"
  have un: "sf_nodes u = set_node i f (sf_nodes s)" using i(1) by (simp add: u_def f_def set_sfq_pq_def set_node_def)
  have um: "sfq_mem u = m" by (simp add: u_def set_sfq_pq_def sfq_mem_def)
  have us: "sfq_static u = sfq_static s" "sf_active u = sf_active s" "q_out u = q_out s" "sf_occupied u = sf_occupied s + 1"
    by (simp_all add: u_def set_sfq_pq_def sfq_static_def)
  have pk: "rn_pkts (sf_nodes u ! i) = int (length (fs i)) + 1" using i(1) n by (simp add: un set_node_nth f_def sfq_node_ok_def)
  have put: "sfq_put i p s = (if rn_pkts (sf_nodes u ! i) = 1
      then map_option (\<lambda>(bs, a). u\<lparr>sf_nodes := bs, sf_active := a\<rparr>) (ring_activate i (sf_active u) (sf_nodes u)) else Some u)"
    unfolding sfq_put_def Let_def sfq_pq_def e snd_conv u_def [symmetric] by (rule refl)
  have ring: "ring_ok (sf_nodes u) (sf_active u) xs" unfolding un us(2) by (rule ring_ok_set [OF d(4)]) (simp_all add: f_def)
  have other: "rn_q (sf_nodes u ! j) = rn_q (sf_nodes s ! j) \<and> rn_pkts (sf_nodes u ! j) = rn_pkts (sf_nodes s ! j)"
    if "j \<noteq> i" for j using i(1) that by (simp add: un set_node_nth)
  have node: "sfq_node_ok m (sf_nodes u ! i) (fs i @ [p])" using q pk i(1) by (simp add: sfq_node_ok_def un set_node_nth f_def)
  have core: "sfq_core t ys (fs(i := fs i @ [p]))"
    if t: "same_data (sf_nodes u) (sf_nodes t)" "ring_ok (sf_nodes t) (sf_active t) ys" "sfq_static t = sfq_static u" "sfq_mem t = m" "sf_occupied t = sf_occupied u" for t ys
  proof (rule sfq_core_step [OF d(1) s(2) i(1)])
    have l: "length (sf_nodes u) = length (sf_nodes s)" by (simp add: un)
    show "length (sf_nodes t) = length (sf_nodes s)" using same_dataD(1) [OF t(1)] l by simp
    show "sfq_static t = sfq_static s" using t(3) us(1) by simp
    show "ring_ok (sf_nodes t) (sf_active t) ys" by (rule t(2))
    show "rn_q (sf_nodes t ! j) = rn_q (sf_nodes s ! j) \<and> rn_pkts (sf_nodes t ! j) = rn_pkts (sf_nodes s ! j)" if "j < length (sf_nodes s)" "j \<noteq> i" for j
      using same_dataD(2,3) [OF t(1), of j] other [OF that(2)] that(1) l by simp
    show "sfq_node_ok (sfq_mem t) (sf_nodes t ! i) (fs i @ [p])" using node same_dataD(2,3) [OF t(1), of i] i(1) l by (simp add: t(4) sfq_node_ok_def)
    show "\<And>a. a \<in> set (fs i @ [p]) \<Longrightarrow> sfq_bucket s a = Some i" using d(9) i(2) by auto
  qed (use t us m in auto)
  show ?thesis
  proof (cases "fs i = []")
    case False
    have "sfq_ok u xs (fs(i := fs i @ [p]))" using core [OF same_data_refl ring refl um refl] d(2) False by (simp add: sfq_ok_def)
    moreover have "sfq_frame i s u" using other by (simp add: sfq_frame_def us un)
    ultimately show ?thesis using False put pk us(4) by (intro exI [of _ u]) simp
  next
    case True
    have x: "i \<notin> set xs" using d(2) True by blast
    have "i < length (sf_nodes u)" using i(1) by (simp add: un)
    from ring_activate_ok [OF ring this x] obtain bs a where
      r: "ring_activate i (sf_active u) (sf_nodes u) = Some (bs, a)" "ring_ok bs a (xs @ [i])" "same_data (sf_nodes u) bs" by blast
    let ?t = "u\<lparr>sf_nodes := bs, sf_active := a\<rparr>"
    have l: "length bs = length (sf_nodes s)" using same_dataD(1) [OF r(3)] by (simp add: un)
    have "sfq_core ?t (xs @ [i]) (fs(i := fs i @ [p]))" using r um by (intro core) (simp_all add: sfq_static_def sfq_mem_def)
    then have "sfq_ok ?t (xs @ [i]) (fs(i := fs i @ [p]))" using d(2) by (auto simp: sfq_ok_def)
    moreover have "sfq_frame i s ?t" using other same_dataD(3) [OF r(3)] us(1,3) l by (simp add: sfq_frame_def sfq_static_def un)
    moreover have "rn_pkts (bs ! i) = int (length (fs i)) + 1" using same_dataD(3) [OF r(3), of i] pk i(1) by (simp add: un)
    ultimately show ?thesis using True put pk us(4) r(1) by (intro exI [of _ ?t]) simp
  qed
qed

text \<open>The lead of a flow: whether it comes first.\<close>

definition turn_lead :: "sfq \<Rightarrow> nat list \<Rightarrow> nat \<Rightarrow> nat \<Rightarrow> int" where
  "turn_lead s xs a b = of_bool (precedes a b xs)"

abbreviation sfq_effect :: "addr list \<Rightarrow> addr list \<Rightarrow> sfq \<Rightarrow> (nat \<Rightarrow> addr list) \<Rightarrow> sfq \<Rightarrow> (nat \<Rightarrow> addr list) \<Rightarrow> addr list \<Rightarrow> bool" where
  "sfq_effect \<equiv> flow_effect sfq_bucket q_out sfq_held"

definition sfq_falls :: "sfq \<Rightarrow> nat list \<Rightarrow> addr list \<Rightarrow> sfq \<Rightarrow> nat list \<Rightarrow> bool" where
  "sfq_falls s xs ps t ys = lead_falls turn_lead (\<lambda>f. flow_weight (sfq_bucket s) (\<lambda>_. 1) f ps) s xs t ys"

text \<open>A packet is taken only if its flow has less than a third of the buffer.\<close>

lemma sfq_room:
  assumes "\<not> sfq_full i s" "0 \<le> rn_pkts (sf_nodes s ! i)" "rn_pkts (sf_nodes s ! i) \<le> sf_occupied s"
  shows "sfq_share_ok (sf_maxqueue s) (rn_pkts (sf_nodes s ! i) + 1)" "sf_occupied s + 1 < sf_maxqueue s"
proof -
  have "rn_pkts (sf_nodes s ! i) < (sf_maxqueue s - sf_occupied s) div 2" using assms(1) by (simp add: sfq_full_def Let_def drop_bit_eq_div)
  moreover have "n < m div 2 \<Longrightarrow> 2 * (n + 1) \<le> m" for n m :: int by presburger
  ultimately have "2 * (rn_pkts (sf_nodes s ! i) + 1) \<le> sf_maxqueue s - sf_occupied s" by blast
  with assms(2,3) show "sfq_share_ok (sf_maxqueue s) (rn_pkts (sf_nodes s ! i) + 1)" "sf_occupied s + 1 < sf_maxqueue s"
    by (simp_all add: sfq_share_ok_def)
qed

lemma sfq_enque_fair:
  assumes s: "sfq_ok s xs fs" and p: "p \<notin># sfq_held s fs"
  shows "\<exists>t ys gs ds. sfq_enque p s = Some t \<and> sfq_ok t ys gs \<and> sfq_kept s t \<and> sfq_effect [p] [] s fs t gs ds \<and> sfq_falls s xs [] t ys"
proof -
  from sfq_ready_ok [OF s] obtain u where
    u: "sfq_ready s = Some u" "sfq_ok u xs fs" "sf_nodes u \<noteq> []" "sfq_kept s u" "q_out u = q_out s" "sfq_held u fs = sfq_held s fs" by blast
  note d = sfq_okD [OF u(2)]
  have "sfq_static u = sfq_static s" using u(4) by (simp add: sfq_kept_def)
  note b = sfq_static_bucket(1) [OF this]
  from sfq_bucket_some [OF d(3)] obtain i where i: "sfq_bucket u p = Some i" "i < nat (sf_buckets u)" by blast
  have l: "i < length (sf_nodes u)" using i(2) d(1) u(3) by (simp add: sfq_core_def)
  have enq: "sfq_enque p s = (if sfq_full i u then Some (emit (Dropped p) u) else sfq_put i p u)" using u(1) i(1) l by (simp add: sfq_enque_def)
  show ?thesis
  proof (cases "sfq_full i u")
    case True
    let ?t = "emit (Dropped p) u"
    have f: "sf_nodes ?t = sf_nodes u" "sf_active ?t = sf_active u" "sf_occupied ?t = sf_occupied u" "sfq_mem ?t = sfq_mem u" "sfq_static ?t = sfq_static u"
      "sf_maxqueue ?t = sf_maxqueue u" "q_out ?t = q_out u @ [Dropped p]" by (simp_all add: emit_def sfq_mem_def sfq_static_def)
    have "sfq_ok ?t xs fs" using u(2) unfolding sfq_ok_def sfq_core_def f(1-4) sfq_static_bucket [OF f(5)] .
    moreover have "sfq_kept s ?t" using u(4) f by (simp add: sfq_kept_def sfq_bounded_def)
    moreover have "sfq_effect [p] [] s fs ?t fs [p]" using u(5,6) f b sfq_static_bucket(1) [OF f(5)] 
      by (simp add: flow_effect_def sfq_held_def list_emb_prefix)
    moreover have "sfq_falls s xs [] ?t xs" by (simp add: sfq_falls_def lead_falls_def turn_lead_def)
    ultimately show ?thesis using enq True by auto
  next
    case False
    have "p \<notin> set (fs i)" using p l unfolding u(6) [symmetric] by (auto simp: sfq_held_def set_mset_sum)
    from sfq_put_ok [OF u(2,3) l i(1) this] obtain t where
      t: "sfq_put i p u = Some t" "sfq_ok t (if fs i = [] then xs @ [i] else xs) (fs(i := fs i @ [p]))" "sfq_frame i u t"
        "sf_occupied t = sf_occupied u + 1" "rn_pkts (sf_nodes t ! i) = int (length (fs i)) + 1" by blast
    have st: "sfq_static t = sfq_static u" "length (sf_nodes t) = length (sf_nodes u)" "q_out t = q_out u" using t(3) by (simp_all add: sfq_frame_def)
    have pk: "rn_pkts (sf_nodes u ! i) = int (length (fs i))" using d(8) [OF l] by (simp add: sfq_node_ok_def)
    have "int (length (fs i)) \<le> (\<Sum>j<length (sf_nodes u). int (length (fs j)))" using l by (intro member_le_sum) auto
    then have "rn_pkts (sf_nodes u ! i) \<le> sf_occupied u" using d(1) u(3) pk by (simp add: sfq_core_def)
    note room = sfq_room [OF False _ this]
    have mq: "sf_maxqueue t = sf_maxqueue u" by (rule sfq_static_bucket(4) [OF st(1)])
    have "sfq_bounded t" if "sfq_bounded u"
      by (rule sfq_bounded_step [OF that st(2) mq, of i]) (use t(3-5) room pk in \<open>simp_all add: sfq_frame_def\<close>)
    then have "sfq_kept u t" using st u(3) by (auto simp: sfq_kept_def)
    moreover have "sfq_effect [p] [] s fs t (fs(i := fs i @ [p])) []" unfolding flow_effect_def
    proof (intro conjI allI)
      show "sfq_bucket t = sfq_bucket s" using sfq_static_bucket(1) [OF st(1)] b by simp
      show "q_out t = q_out s @ map Dropped []" using st(3) u(5) by simp
      show "sfq_held s fs + mset [p] = sfq_held t (fs(i := fs i @ [p])) + mset [] + mset []"
        using held_upd [OF l, of fs "fs i @ [p]"] st(2) u(6) by (simp add: sfq_held_def)
      show "subseq (flow (sfq_bucket s) j [] @ (fs(i := fs i @ [p])) j) (fs j @ flow (sfq_bucket s) j [p])" for j
        using i(1) by (cases "j = i") (simp_all add: flow_def b)
    qed
    moreover have "sfq_falls s xs [] t (if fs i = [] then xs @ [i] else xs)" using d(2) [of i]
      by (auto simp: sfq_falls_def lead_falls_def turn_lead_def precedes_append precedes_notin)
    ultimately show ?thesis using t(1,2) enq False sfq_kept_trans [OF u(4)] by auto
  qed
qed

section \<open>Departure\<close>

lemma sfq_serve_ok:
  assumes s: "sfq_ok s (c # w) fs" "sf_nodes s \<noteq> []" and f: "fs c = p # ps"
  shows "\<exists>t. sfq_serve c s = Some (Some p, t) \<and> sfq_ok t (if ps = [] then w else w @ [c]) (fs(c := ps)) \<and> sfq_frame c s t \<and>
    sf_occupied t = sf_occupied s - 1 \<and> rn_pkts (sf_nodes t ! c) = int (length ps)"
proof -
  note d = sfq_okD [OF s(1)]
  have c: "c < length (sf_nodes s)" "c \<notin> set w" using d(5,7) by simp_all
  let ?b = "sf_nodes s ! c" and ?m = "sfq_mem s"
  have n: "sfq_node_ok ?m ?b (p # ps)" using d(8) [OF c(1)] f by simp
  define u where "u = s\<lparr>sf_nodes := set_node c (\<lambda>b. b\<lparr>rn_pkts := rn_pkts b - 1\<rparr>) (sf_nodes s), sf_occupied := sf_occupied s - 1\<rparr>"
  have "pq_ok (?m, rn_q ?b) (p # ps)" using n by (simp add: sfq_node_ok_def)
  from pq_deque_Cons [OF this] obtain m q where mq: "pq_deque (?m, rn_q ?b) = (Some p, (m, q))" "pq_ok (m, q) ps" by auto
  have m: "m = ?m" by (rule pq_deque_mem [OF mq(1)])
  define v where "v = set_sfq_pq c (m, q) u"
  define g where "g = (\<lambda>b :: ring_node. b\<lparr>rn_pkts := rn_pkts b - 1, rn_q := q\<rparr>)"
  have up: "sfq_pq c u = (?m, rn_q ?b)" using c(1) by (simp add: sfq_pq_def u_def sfq_mem_def set_node_nth)
  have vn: "sf_nodes v = set_node c g (sf_nodes s)" using c(1) by (simp add: v_def u_def g_def set_sfq_pq_def set_node_def)
  have vm: "sfq_mem v = ?m" by (simp add: v_def set_sfq_pq_def sfq_mem_def m) 
  have vs: "sfq_static v = sfq_static s" "sf_active v = sf_active s" "q_out v = q_out s" "sf_occupied v = sf_occupied s - 1"
    by (simp_all add: v_def u_def set_sfq_pq_def sfq_static_def)
  have pk: "rn_pkts (sf_nodes v ! c) = int (length ps)" using c(1) n by (simp add: vn set_node_nth g_def sfq_node_ok_def)
  have ac: "sf_active v = Some c" using d(6) vs(2) by simp
  have serve: "sfq_serve c s = (if rn_pkts (sf_nodes v ! c) = 0
      then map_option (\<lambda>(bs, a). (Some p, v\<lparr>sf_nodes := bs, sf_active := a\<rparr>)) (sfq_idle c (sf_active v) (sf_nodes v))
      else Some (Some p, v\<lparr>sf_active := rn_next (sf_nodes v ! c)\<rparr>))"
    unfolding sfq_serve_def Let_def u_def [symmetric] up mq(1) prod.case v_def [symmetric] by (rule refl)
  have ring: "ring_ok (sf_nodes v) (sf_active v) (c # w)" unfolding vn vs(2) by (rule ring_ok_set [OF d(4)]) (simp_all add: g_def)
  have other: "rn_q (sf_nodes v ! j) = rn_q (sf_nodes s ! j) \<and> rn_pkts (sf_nodes v ! j) = rn_pkts (sf_nodes s ! j)"
    if "j \<noteq> c" for j using c(1) that by (simp add: vn set_node_nth)
  have node: "sfq_node_ok ?m (sf_nodes v ! c) ps" using mq(2) pk c(1) by (simp add: sfq_node_ok_def vn set_node_nth g_def m)
  have core: "sfq_core t ys (fs(c := ps))"
    if t: "same_data (sf_nodes v) (sf_nodes t)" "ring_ok (sf_nodes t) (sf_active t) ys" "sfq_static t = sfq_static v" "sfq_mem t = ?m" "sf_occupied t = sf_occupied v" for t ys
  proof (rule sfq_core_step [OF d(1) s(2) c(1)])
    have l: "length (sf_nodes v) = length (sf_nodes s)" by (simp add: vn)
    show "length (sf_nodes t) = length (sf_nodes s)" using same_dataD(1) [OF t(1)] l by simp
    show "sfq_static t = sfq_static s" using t(3) vs(1) by simp
    show "ring_ok (sf_nodes t) (sf_active t) ys" by (rule t(2))
    show "rn_q (sf_nodes t ! j) = rn_q (sf_nodes s ! j) \<and> rn_pkts (sf_nodes t ! j) = rn_pkts (sf_nodes s ! j)" if "j < length (sf_nodes s)" "j \<noteq> c" for j
      using same_dataD(2,3) [OF t(1), of j] other [OF that(2)] that(1) l by simp
    show "sfq_node_ok (sfq_mem t) (sf_nodes t ! c) ps" using node same_dataD(2,3) [OF t(1), of c] c(1) l by (simp add: t(4) sfq_node_ok_def)
    show "\<And>a. a \<in> set ps \<Longrightarrow> sfq_bucket s a = Some c" using d(9) [of _ c] f by simp
  qed (use t vs f in auto)
  show ?thesis
  proof (cases "ps = []")
    case False
    let ?t = "v\<lparr>sf_active := rn_next (sf_nodes v ! c)\<rparr>"
    have r: "rn_next (sf_nodes v ! c) = Some (hd (w @ [c]))" "ring_ok (sf_nodes v) (Some (hd (w @ [c]))) (w @ [c])" by (rule ring_next [OF ring])+
    have "sfq_core ?t (w @ [c]) (fs(c := ps))" using r vm by (intro core) (simp_all add: same_data_refl sfq_static_def sfq_mem_def)
    then have "sfq_ok ?t (w @ [c]) (fs(c := ps))" using d(2) False by (auto simp: sfq_ok_def)
    moreover have "sfq_frame c s ?t" using other vs(1,3) by (simp add: sfq_frame_def sfq_static_def vn)
    ultimately show ?thesis using False serve pk vs(4) by (intro exI [of _ ?t]) simp
  next
    case True
    from ring_idle_ok [of "sf_nodes v" "sf_active v" "[]" c w] ring obtain bs a where
      r: "ring_idle c (sf_active v) (sf_nodes v) = Some (bs, a)" "same_data (sf_nodes v) bs" "ring_ok bs a w" by auto
    let ?t = "v\<lparr>sf_nodes := bs, sf_active := a\<rparr>"
    have l: "length bs = length (sf_nodes s)" using same_dataD(1) [OF r(2)] by (simp add: vn)
    have "sfq_core ?t w (fs(c := ps))" using r vm by (intro core) (simp_all add: sfq_static_def sfq_mem_def)
    moreover have "i \<in> set w \<longleftrightarrow> (fs(c := ps)) i \<noteq> []" for i using d(2) [of i] c(2) True by auto
    ultimately have "sfq_ok ?t w (fs(c := ps))" by (simp add: sfq_ok_def)
    moreover have "sfq_frame c s ?t" using other same_dataD(3) [OF r(2)] vs(1,3) l by (simp add: sfq_frame_def sfq_static_def vn)
    moreover have "rn_pkts (bs ! c) = int (length ps)" using same_dataD(3) [OF r(2), of c] pk c(1) by (simp add: vn)
    moreover have "sfq_serve c s = Some (Some p, ?t)" using serve pk True r(1) ac by (simp add: sfq_idle_def)
    ultimately show ?thesis using True vs(4) by (intro exI [of _ ?t]) simp
  qed
qed

lemma sfq_deque_fair:
  assumes s: "sfq_ok s xs fs"
  shows "\<exists>x t ys gs. sfq_deque s = Some (x, t) \<and> (x = None \<longleftrightarrow> xs = []) \<and> sfq_ok t ys gs \<and> sfq_kept s t \<and> sfq_effect [] (opt_list x) s fs t gs [] \<and>
    sfq_falls s xs (opt_list x) t ys"
proof -
  from sfq_ready_ok [OF s] obtain u where
    u: "sfq_ready s = Some u" "sfq_ok u xs fs" "sf_nodes u \<noteq> []" "sfq_kept s u" "q_out u = q_out s" "sfq_held u fs = sfq_held s fs" by blast
  note d = sfq_okD [OF u(2)]
  have "sfq_static u = sfq_static s" using u(4) by (simp add: sfq_kept_def)
  note b = sfq_static_bucket(1) [OF this]
  show ?thesis
  proof (cases xs)
    case Nil
    then have "sfq_deque s = Some (None, u)" using u(1) d(6) by (simp add: sfq_deque_def)
    moreover have "sfq_effect [] (opt_list None) s fs u fs []" using u(5,6) b by (simp add: flow_effect_def)
    moreover have "sfq_falls s xs [] u xs" by (simp add: sfq_falls_def lead_falls_def turn_lead_def)
    ultimately show ?thesis using u(2,4) Nil by fastforce
  next
    case (Cons c w)
    have c: "c < length (sf_nodes u)" "c \<notin> set w" using d(5,7) Cons by simp_all
    obtain p ps where f: "fs c = p # ps" using d(2) [of c] Cons by (cases "fs c") auto
    from sfq_serve_ok [OF u(2) [unfolded Cons] u(3) f] obtain t where
      t: "sfq_serve c u = Some (Some p, t)" "sfq_ok t (if ps = [] then w else w @ [c]) (fs(c := ps))" "sfq_frame c u t"
        "sf_occupied t = sf_occupied u - 1" "rn_pkts (sf_nodes t ! c) = int (length ps)" by blast
    have st: "sfq_static t = sfq_static u" "length (sf_nodes t) = length (sf_nodes u)" "q_out t = q_out u" using t(3) by (simp_all add: sfq_frame_def)
    have "sfq_deque s = Some (Some p, t)" using u(1) d(6) t(1) Cons by (simp add: sfq_deque_def)
    moreover have "sfq_bounded t" if B: "sfq_bounded u"
    proof (rule sfq_bounded_step [OF B st(2) sfq_static_bucket(4) [OF st(1)], of c])
      have "rn_pkts (sf_nodes u ! c) = int (length ps) + 1" using d(8) [OF c(1)] f by (simp add: sfq_node_ok_def)
      moreover have "sfq_share_ok (sf_maxqueue u) (rn_pkts (sf_nodes u ! c))" using B c(1) by (simp add: sfq_bounded_def)
      ultimately show "sfq_share_ok (sf_maxqueue u) (rn_pkts (sf_nodes t ! c))" using t(5) by (auto simp: sfq_share_ok_def)
      have "0 \<le> sf_occupied t" using sfq_occupied [OF t(2)] st(2) u(3) by (cases "sf_nodes t") auto
      then show "sf_occupied t = 0 \<or> sf_occupied t < sf_maxqueue u" using B t(4) u(3) by (auto simp: sfq_bounded_def)
    qed (use t(3) in \<open>simp add: sfq_frame_def\<close>)
    then have "sfq_kept u t" using st u(3) by (auto simp: sfq_kept_def)
    moreover have fl: "flow (sfq_bucket s) i [p] = (if i = c then [p] else [])" for i using d(9) [of p c] f by (simp add: flow_def b)
    have "sfq_effect [] [p] s fs t (fs(c := ps)) []" unfolding flow_effect_def
    proof (intro conjI allI)
      show "sfq_bucket t = sfq_bucket s" using sfq_static_bucket(1) [OF st(1)] b by simp
      show "q_out t = q_out s @ map Dropped []" using st(3) u(5) by simp
      show "sfq_held s fs + mset [] = sfq_held t (fs(c := ps)) + mset [] + mset [p]"
        using held_upd [OF c(1), of fs ps] st(2) u(6) f by (simp add: sfq_held_def)
      show "subseq (flow (sfq_bucket s) j [p] @ (fs(c := ps)) j) (fs j @ flow (sfq_bucket s) j [])" for j
        using f by (cases "j = c") (simp_all add: fl)
    qed
    moreover have "flow_weight (sfq_bucket s) (\<lambda>_. 1) a [p] = of_bool (a = c)" for a by (simp add: flow_weight_def fl)
    then have "sfq_falls s xs [p] t (if ps = [] then w else w @ [c])" using c(2) Cons
      by (auto simp: sfq_falls_def lead_falls_def turn_lead_def precedes_append precedes_notin)
    ultimately show ?thesis using t(2) Cons sfq_kept_trans [OF u(4)]
      by (intro exI [of _ "Some p"] exI [of _ t] exI [of _ "if ps = [] then w else w @ [c]"] exI [of _ "fs(c := ps)"]) simp
  qed
qed

section \<open>The contract\<close>

definition sfq_step :: "flow_op \<Rightarrow> sfq \<Rightarrow> (addr option \<times> sfq) option" where
  "sfq_step op s = (case op of FlowIn p \<Rightarrow> map_option (Pair None) (sfq_enque p s) | FlowOut \<Rightarrow> sfq_deque s)"

definition sfq_busy :: "nat \<Rightarrow> sfq \<Rightarrow> bool" where
  "sfq_busy f s \<longleftrightarrow> f < length (sf_nodes s) \<and> 0 < rn_pkts (sf_nodes s ! f)"

lemma sfq_busy_iff:
  assumes "sfq_ok s xs fs"
  shows "sfq_busy f s \<longleftrightarrow> f \<in> set xs"
  using sfq_okD(2,5,8) [OF assms, of f] by (auto simp: sfq_busy_def sfq_node_ok_def)

lemma sfq_step_fair:
  assumes s: "sfq_ok s xs fs" and p: "\<And>p. p \<in> set (incoming [op]) \<Longrightarrow> p \<notin># sfq_held s fs"
  shows "\<exists>x t ys gs ds. sfq_step op s = Some (x, t) \<and> sfq_ok t ys gs \<and> sfq_kept s t \<and> sfq_effect (incoming [op]) (opt_list x) s fs t gs ds \<and>
    lead_falls turn_lead (\<lambda>f. flow_weight (sfq_bucket s) (\<lambda>_. 1) f (opt_list x)) s xs t ys"
proof (cases op)
  case (FlowIn q)
  with p have "q \<notin># sfq_held s fs" by simp
  from sfq_enque_fair [OF s this] obtain t ys gs ds where
    "sfq_enque q s = Some t" "sfq_ok t ys gs" "sfq_kept s t" "sfq_effect [q] [] s fs t gs ds" "sfq_falls s xs [] t ys" by blast
  with FlowIn show ?thesis unfolding sfq_falls_def
    by (intro exI [of _ None] exI [of _ t] exI [of _ ys] exI [of _ gs] exI [of _ ds]) (simp add: sfq_step_def)
next
  case FlowOut
  from sfq_deque_fair [OF s] obtain x t ys gs where "sfq_deque s = Some (x, t)" "sfq_ok t ys gs" "sfq_kept s t"
    "sfq_effect [] (opt_list x) s fs t gs []" "sfq_falls s xs (opt_list x) t ys" by blast
  with FlowOut show ?thesis unfolding sfq_falls_def
    by (intro exI [of _ x] exI [of _ t] exI [of _ ys] exI [of _ gs] exI [of _ "[]"]) (simp add: sfq_step_def)
qed

interpretation sfq_server: flow_server sfq_step sfq_ok sfq_kept "\<lambda>_ _. True" sfq_bucket "\<lambda>_ _. 1" q_out sfq_held sfq_busy turn_lead "\<lambda>_. True"
proof unfold_locales
  fix s xs fs f
  assume "sfq_ok s xs fs"
  then show "sfq_busy f s \<longleftrightarrow> f \<in> set xs" by (rule sfq_busy_iff)
qed (use sfq_step_fair sfq_kept_trans in \<open>blast | simp add: sfq_kept_def\<close>)+

end
