(* ===== verification/SfqProps.thy ===== *)
theory SfqProps
  imports SfqOps
begin

text \<open>What SFQ promises, and the packets that it does not survive.\<close>

definition sfq_sound :: "int \<Rightarrow> (addr \<Rightarrow> int) \<Rightarrow> (addr \<Rightarrow> int) \<Rightarrow> bool" where
  "sfq_sound buckets saddr daddr \<longleftrightarrow> 0 < buckets \<and> (\<forall>p. 0 < saddr p + daddr p)"

lemma sfq_new_ok:
  assumes "sfq_sound buckets saddr daddr"
  shows "sfq_ok (sfq_new maxqueue buckets occ fair saddr daddr q) [] (\<lambda>_. [])" "sfq_held (sfq_new maxqueue buckets occ fair saddr daddr q) fs = {#}"
    "sfq_bounded (sfq_new maxqueue buckets occ fair saddr daddr q)" "q_out (sfq_new maxqueue buckets occ fair saddr daddr q) = q_out q"
    "sf_nodes (sfq_new maxqueue buckets occ fair saddr daddr q) = []" "sf_maxqueue (sfq_new maxqueue buckets occ fair saddr daddr q) = maxqueue"
  using assms by (simp_all add: sfq_ok_def sfq_core_def sfq_conf_def sfq_new_def queue.defs ring_ok_def sfq_held_def sfq_bounded_def sfq_sound_def)

text \<open>Packet \<open>p\<close> goes from node \<open>p\<close> to node 1.\<close>

definition sfq_example :: "int \<Rightarrow> sfq" where
  "sfq_example maxqueue = sfq_new maxqueue 4 77 77 (\<lambda>p. int p) (\<lambda>p. 1) (queue_example 0)"

lemma sfq_example_sound: "sfq_sound 4 (\<lambda>p. int p) (\<lambda>p. 1)"
  by (simp add: sfq_sound_def)

text \<open>The first operation begins with the array.\<close>

lemma sfq_run_ready:
  assumes "sfq_ready s = Some r" "sf_nodes r \<noteq> []" "ops \<noteq> []"
  shows "flow_run sfq_step ops s = flow_run sfq_step ops r"
proof -
  have r: "sfq_ready r = Some r" using assms(2) by (simp add: sfq_ready_def)
  then have "sfq_step op s = sfq_step op r" for op using assms(1) by (cases op) (simp_all add: sfq_step_def sfq_enque_def sfq_deque_def)
  with assms(3) show ?thesis by (cases ops) simp_all
qed

section \<open>Fairness\<close>

text \<open>C6. Stochastic fair queueing is fair in packets: two buckets that have packets all the time are sent the same
  number of packets up to one, whatever arrives for them or others and whatever is dropped.\<close>

theorem sfq_fair:
  assumes "sfq_sound buckets saddr daddr" "distinct (incoming (before @ ops))"
    and "flow_run sfq_step before (sfq_new maxqueue buckets occ fair saddr daddr q) = Some (qs, s)" "flow_run sfq_step ops s = Some (ps, t)"
    and "f \<noteq> g" "backlogged sfq_step (sfq_busy f) ops s" "backlogged sfq_step (sfq_busy g) ops s"
  shows "\<bar>int (length (flow (sfq_bucket s) f ps)) - int (length (flow (sfq_bucket s) g ps))\<bar> \<le> 1"
proof -
  have "flow_weight (sfq_bucket s) (\<lambda>_. 1) h ps = int (length (flow (sfq_bucket s) h ps))" for h
    by (simp add: flow_weight_def sum_list_triv)
  with sfq_server.empty_fair [OF sfq_new_ok(1,2) _ assms(2-4) _ assms(5-7)] assms(1) obtain zs ys where
    "turn_lead t ys f g = turn_lead s zs f g - (int (length (flow (sfq_bucket s) f ps)) - int (length (flow (sfq_bucket s) g ps)))" by auto
  then show ?thesis by (simp add: turn_lead_def of_bool_def split: if_splits)
qed

theorem sfq_fair_witness:
  "case flow_run sfq_step (map FlowIn [1, 2, 5, 6, 9]) (sfq_example 40) of None \<Rightarrow> False
   | Some (qs, s) \<Rightarrow> (case flow_run sfq_step [FlowOut, FlowIn 10, FlowOut, FlowOut] s of None \<Rightarrow> False
     | Some (ps, t) \<Rightarrow> ps = [1, 2, 5] \<and> \<bar>int (length (flow (sfq_bucket s) 1 ps)) - int (length (flow (sfq_bucket s) 2 ps))\<bar> \<le> 1)"
proof -
  define a where "a = map FlowIn [1, 2, 5, 6, 9]"
  define b where "b = [FlowOut, FlowIn 10, FlowOut, FlowOut]"
  have e: "case flow_run sfq_step a (sfq_example 40) of None \<Rightarrow> False | Some (qs, s) \<Rightarrow> (case flow_run sfq_step b s of None \<Rightarrow> False
     | Some (ps, t) \<Rightarrow> ps = [1, 2, 5] \<and> backlogged sfq_step (sfq_busy 1) b s \<and> backlogged sfq_step (sfq_busy 2) b s)"
    unfolding a_def b_def by code_simp
  obtain qs s where s: "flow_run sfq_step a (sfq_example 40) = Some (qs, s)" using e by (cases "flow_run sfq_step a (sfq_example 40)") auto
  obtain ps t where t: "flow_run sfq_step b s = Some (ps, t)" "ps = [1, 2, 5]" "backlogged sfq_step (sfq_busy 1) b s" "backlogged sfq_step (sfq_busy 2) b s"
    using e s by (cases "flow_run sfq_step b s") auto
  have "distinct (incoming (a @ b))" by (simp add: a_def b_def)
  from sfq_fair [OF sfq_example_sound this s [unfolded sfq_example_def] t(1) _ t(3,4)]
  show ?thesis unfolding a_def [symmetric] b_def [symmetric] s by (simp add: t(1,2))
qed

text \<open>C11. No flow gets more than a third of the buffer, the buffer never overflows, SFQ returns from every arrival and departure,
  and every packet that has arrived has left, has been dropped or is counted in \<open>occupied\<close>.\<close>

theorem sfq_shares:
  assumes "sfq_sound buckets saddr daddr" "distinct (incoming ops)" "ops \<noteq> []"
  shows "\<exists>ps t ds. flow_run sfq_step ops (sfq_new maxqueue buckets occ fair saddr daddr q) = Some (ps, t) \<and>
    (\<forall>b\<in>set (sf_nodes t). rn_pkts b = 0 \<or> 3 * rn_pkts b \<le> maxqueue + 1) \<and> (sf_occupied t = 0 \<or> sf_occupied t < maxqueue) \<and>
    q_out t = q_out q @ map Dropped ds \<and> mset ps + mset ds \<subseteq># mset (incoming ops) \<and>
    sf_occupied t = int (length (incoming ops)) - int (length ps) - int (length ds)"
proof -
  let ?s = "sfq_new maxqueue buckets occ fair saddr daddr q"
  note i = sfq_new_ok [OF assms(1), of maxqueue occ fair q]
  from sfq_ready_ok [OF i(1)] obtain r where
    r: "sfq_ready ?s = Some r" "sfq_ok r [] (\<lambda>_. [])" "sf_nodes r \<noteq> []" "sfq_kept ?s r" "q_out r = q_out ?s" "sfq_held r (\<lambda>_. []) = {#}"
    using i(2) by auto
  from sfq_server.empty_runs [OF r(2,6) assms(2)] obtain ps t ys gs ds where
    t: "flow_run sfq_step ops r = Some (ps, t)" "sfq_ok t ys gs" "sfq_kept r t" "sfq_effect (incoming ops) ps r (\<lambda>_. []) t gs ds" by blast
  have m: "mset (incoming ops) = sfq_held t gs + mset ds + mset ps" using t(4) r(6) by (simp add: flow_effect_def)
  then have "mset ps + mset ds \<subseteq># mset (incoming ops)" by (simp add: mset_subset_eq_exists_conv ac_simps)
  moreover have n: "sf_nodes t \<noteq> []" using t(3) r(3) by (simp add: sfq_kept_def)
  then have "sf_occupied t = int (length (incoming ops)) - int (length ps) - int (length ds)"
    using arg_cong [OF m, of size] sfq_occupied [OF t(2)] by simp
  moreover have "sfq_bounded t" "sf_maxqueue t = maxqueue"
    using sfq_kept_trans [OF r(4) t(3)] i(3,6) by (simp_all add: sfq_kept_def sfq_static_def)
  moreover have "q_out t = q_out q @ map Dropped ds" using t(4) by (simp add: flow_effect_def i(4) r(5))
  moreover have "flow_run sfq_step ops ?s = Some (ps, t)" using sfq_run_ready [OF r(1,3) assms(3)] t(1) by simp
  ultimately show ?thesis using n by (auto simp: sfq_bounded_def sfq_share_ok_def)
qed

theorem sfq_shares_witness:
  "\<exists>ps t ds. flow_run sfq_step (map FlowIn [1, 2, 5, 6, 9] @ [FlowOut, FlowIn 13]) (sfq_example 7) = Some (ps, t) \<and>
    (\<forall>b\<in>set (sf_nodes t). rn_pkts b = 0 \<or> 3 * rn_pkts b \<le> 7 + 1) \<and> (sf_occupied t = 0 \<or> sf_occupied t < 7) \<and>
    q_out t = [] @ map Dropped ds \<and> mset ps + mset ds \<subseteq># mset [1, 2, 5, 6, 9, 13] \<and>
    sf_occupied t = int (length [1, 2, 5, 6, 9, 13 :: addr]) - int (length ps) - int (length ds)"
proof -
  have q: "q_out (queue_example 0) = []" by (simp add: queue_example_def)
  show ?thesis using sfq_shares [OF sfq_example_sound, of "map FlowIn [1, 2, 5, 6, 9] @ [FlowOut, FlowIn 13]" 7 77 77 "queue_example 0"]
    unfolding sfq_example_def q by (simp del: flow_run.simps)
qed

section \<open>Broadcasts\<close>

text \<open>C39. SFQ hashes the sum of the addresses with a remainder that can be negative: with more than two buckets, a broadcast
  (to address -1) of node 0 or node 1 accesses the array of buckets in front of its start.\<close>

theorem sfq_broadcast:
  assumes "sf_daddr s p = - 1" "sf_saddr s p = 0 \<or> sf_saddr s p = 1" "2 < sf_buckets s"
  shows "sfq_enque p s = None"
proof -
  have h: "sfq_hash s p = - 1 \<or> sfq_hash s p = - 2" using assms(1,2)
    by (auto simp: sfq_hash_def drop_bit_eq_div not_int_def cmod_def cdiv_def)
  then have "cmod (sfq_hash s p) (sf_buckets s) < 0" using assms(3) by (auto simp: cmod_def cdiv_def)
  then have b: "sfq_bucket s p = None" by (simp add: sfq_bucket_def Let_def)
  have "sfq_bucket r p = None" if "sfq_ready s = Some r" for r
  proof -
    have e: "sf_buckets r = sf_buckets s" "sf_saddr r = sf_saddr s" "sf_daddr r = sf_daddr s"
      using that by (auto simp: sfq_ready_def initsfq_def split: if_splits)
    have "sfq_hash r p = sfq_hash s p" by (simp add: sfq_hash_def e)
    then have "sfq_bucket r p = sfq_bucket s p" by (simp only: sfq_bucket_def e(1))
    then show ?thesis using b by simp
  qed
  then show ?thesis by (cases "sfq_ready s") (simp_all add: sfq_enque_def)
qed

theorem sfq_broadcast_witness:
  "sfq_enque 1 (sfq_new 40 16 0 0 int (\<lambda>p. - 1) (queue_example 0)) = None"
  by (rule sfq_broadcast) (simp_all add: sfq_new_def queue.defs)

end
