(* ===== verification/Timer.thy ===== *)
theory Timer
  imports Prelude
begin

text \<open>
  Class TimerHandler of common/timer-handler.h, timer-handler.cc: the status of a timer and the time at which its event is due in the
  scheduler.  \<open>None\<close> is a call of \<open>abort()\<close>.  The client's \<open>expire\<close> runs between \<open>timer_fire\<close> and \<open>timer_done\<close>.
\<close>

datatype timer_status = TIMER_IDLE | TIMER_PENDING | TIMER_HANDLING

record timer =
  tm_status :: timer_status
  tm_due :: "real option"

definition timer_new :: timer where
  "timer_new = \<lparr>tm_status = TIMER_IDLE, tm_due = None\<rparr>"

definition timer_cancel :: "timer \<Rightarrow> timer option" where
  "timer_cancel m = (if tm_status m \<noteq> TIMER_PENDING then None else Some (m\<lparr>tm_due := None, tm_status := TIMER_IDLE\<rparr>))"

definition timer_force_cancel :: "timer \<Rightarrow> timer" where
  "timer_force_cancel m = (if tm_status m = TIMER_PENDING then m\<lparr>tm_due := None, tm_status := TIMER_IDLE\<rparr> else m)"

definition timer_sched :: "real \<Rightarrow> real \<Rightarrow> timer \<Rightarrow> timer option" where
  "timer_sched now delay m =
     (if tm_status m \<noteq> TIMER_IDLE then None else Some (m\<lparr>tm_due := Some (now + delay), tm_status := TIMER_PENDING\<rparr>))"

definition timer_resched :: "real \<Rightarrow> real \<Rightarrow> timer \<Rightarrow> timer" where
  "timer_resched now delay m =
     (let m = (if tm_status m = TIMER_PENDING then m\<lparr>tm_due := None\<rparr> else m)
      in m\<lparr>tm_due := Some (now + delay), tm_status := TIMER_PENDING\<rparr>)"

text \<open>\<open>handle\<close>, before and after \<open>expire\<close>.\<close>

definition timer_fire :: "timer \<Rightarrow> timer option" where
  "timer_fire m = (if tm_status m \<noteq> TIMER_PENDING then None else Some (m\<lparr>tm_due := None, tm_status := TIMER_HANDLING\<rparr>))"

definition timer_done :: "timer \<Rightarrow> timer" where
  "timer_done m = (if tm_status m = TIMER_HANDLING then m\<lparr>tm_status := TIMER_IDLE\<rparr> else m)"

section \<open>Its event\<close>

text \<open>The scheduler holds an event if and only if the timer is pending.\<close>

definition timer_ok :: "timer \<Rightarrow> bool" where
  "timer_ok m \<longleftrightarrow> (tm_due m \<noteq> None \<longleftrightarrow> tm_status m = TIMER_PENDING)"

lemma timer_ops_keep:
  "timer_ok timer_new" "timer_ok m \<Longrightarrow> timer_cancel m = Some m' \<Longrightarrow> timer_ok m'" "timer_ok m \<Longrightarrow> timer_ok (timer_force_cancel m)"
  "timer_ok m \<Longrightarrow> timer_sched now d m = Some m' \<Longrightarrow> timer_ok m'" "timer_ok (timer_resched now d m)"
  "timer_ok m \<Longrightarrow> timer_fire m = Some m' \<Longrightarrow> timer_ok m'" "timer_ok m \<Longrightarrow> timer_ok (timer_done m)"
  by (auto simp: timer_ok_def timer_new_def timer_cancel_def timer_force_cancel_def timer_sched_def timer_resched_def timer_fire_def
    timer_done_def Let_def split: if_splits)

lemma timer_resched_sel [simp]:
  "tm_status (timer_resched now d m) = TIMER_PENDING" "tm_due (timer_resched now d m) = Some (now + d)"
  "timer_done (timer_resched now d m) = timer_resched now d m"
  by (simp_all add: timer_resched_def timer_done_def Let_def)

end
