(* ===== verification/Tbf.thy ===== *)
theory Tbf
  imports Timer QueueBase
begin

text \<open>
  Class TBF of adc/tbf.h, tbf.cc: a token bucket filter in front of a PacketQueue.  Tokens are bits; a packet that finds too
  few waits, and a timer is set for the time at which the first packet has enough.  \<open>tb_out\<close> is
  what is sent and dropped, with the time.
\<close>

record tbf =
  tb_q :: pqs
  tb_tokens :: real
  tb_rate :: real
  tb_bucket :: int
  tb_qlen :: int
  tb_last :: real
  tb_timer :: timer
  tb_init :: bool
  tb_out :: "(real \<times> qevent) list"

text \<open>The constructor, with the parameters that Tcl binds; the time of the last update is left as it is found.\<close>

definition tbf_new :: "pmem \<Rightarrow> real \<Rightarrow> int \<Rightarrow> int \<Rightarrow> real \<Rightarrow> tbf" where
  "tbf_new m rate bucket qlen last0 =
     \<lparr>tb_q = (m, pq_init), tb_tokens = 0, tb_rate = rate, tb_bucket = bucket, tb_qlen = qlen, tb_last = last0,
      tb_timer = timer_new, tb_init = True, tb_out = []\<rparr>"

definition tbf_bits :: "tbf \<Rightarrow> addr \<Rightarrow> int" where
  "tbf_bits s p = push_bit 3 (pm_size (fst (tb_q s)) p)"

definition tbf_emit :: "real \<Rightarrow> qevent \<Rightarrow> tbf \<Rightarrow> tbf" where
  "tbf_emit now e s = s\<lparr>tb_out := tb_out s @ [(now, e)]\<rparr>"

definition getupdatedtokens :: "real \<Rightarrow> tbf \<Rightarrow> tbf" where
  "getupdatedtokens now s =
     (let tokens = tb_tokens s + (now - tb_last s) * tb_rate s
      in s\<lparr>tb_tokens := (if tokens > real_of_int (tb_bucket s) then real_of_int (tb_bucket s) else tokens), tb_last := now\<rparr>)"

definition tbf_start :: "real \<Rightarrow> tbf \<Rightarrow> tbf" where
  "tbf_start now s = (if tb_init s then s\<lparr>tb_tokens := real_of_int (tb_bucket s), tb_last := now, tb_init := False\<rparr> else s)"

definition tbf_send :: "real \<Rightarrow> addr \<Rightarrow> tbf \<Rightarrow> tbf" where
  "tbf_send now p s = (tbf_emit now (Sent p) s)\<lparr>tb_tokens := tb_tokens s - real_of_int (tbf_bits s p)\<rparr>"

text \<open>Waiting until packet \<open>p\<close> has enough tokens.\<close>

definition tbf_wait :: "real \<Rightarrow> addr \<Rightarrow> tbf \<Rightarrow> tbf" where
  "tbf_wait now p s = s\<lparr>tb_timer := timer_resched now ((real_of_int (tbf_bits s p) - tb_tokens s) / tb_rate s) (tb_timer s)\<rparr>"

definition tbf_put :: "addr \<Rightarrow> tbf \<Rightarrow> tbf" where
  "tbf_put p s = s\<lparr>tb_q := snd (pq_enque p (tb_q s))\<rparr>"

definition tbf_recv :: "real \<Rightarrow> addr \<Rightarrow> tbf \<Rightarrow> tbf" where
  "tbf_recv now p s =
     (let s = tbf_start now s
      in if pq_length (tb_q s) \<noteq> 0 then
           (if pq_length (tb_q s) < tb_qlen s then tbf_put p s else tbf_emit now (Dropped p) s)
         else
           (let s = getupdatedtokens now s
            in if tb_tokens s \<ge> real_of_int (tbf_bits s p) then tbf_send now p s
               else if tb_qlen s \<noteq> 0 then tbf_wait now p (tbf_put p s) else tbf_emit now (Dropped p) s))"

definition tbf_timeout :: "real \<Rightarrow> tbf \<Rightarrow> tbf option" where
  "tbf_timeout now s =
     (if pq_length (tb_q s) = 0 then None
      else case pq_deque (tb_q s) of
        (None, _) \<Rightarrow> None
      | (Some p, q) \<Rightarrow>
          (let s = tbf_send now p (getupdatedtokens now (s\<lparr>tb_q := q\<rparr>))
           in if pq_length (tb_q s) \<noteq> 0
              then map_option (\<lambda>h. tbf_wait now h s) (pq_head (snd (tb_q s))) else Some s))"

text \<open>\<open>TimerHandler::handle\<close> with \<open>TBF_Timer::expire\<close>.\<close>

definition tbf_handle :: "real \<Rightarrow> tbf \<Rightarrow> tbf option" where
  "tbf_handle now s = (case timer_fire (tb_timer s) of
     None \<Rightarrow> None
   | Some m \<Rightarrow> map_option (\<lambda>s. s\<lparr>tb_timer := timer_done (tb_timer s)\<rparr>) (tbf_timeout now (s\<lparr>tb_timer := m\<rparr>)))"

section \<open>Runs\<close>

text \<open>Packets arrive at any time up to the time for which the timer is set, and then the timer expires.  In the configuration
  \<open>None\<close> the program has aborted, and no step leaves it.\<close>

inductive tbf_step :: "real \<times> tbf option \<Rightarrow> real \<times> tbf option \<Rightarrow> bool" where
  arrive: "now \<le> t \<Longrightarrow> (\<And>d. tm_due (tb_timer s) = Some d \<Longrightarrow> t \<le> d) \<Longrightarrow> p \<notin> set (pq_elems (tb_q s)) \<Longrightarrow>
    tbf_step (now, Some s) (t, Some (tbf_recv t p s))"
| expire: "tm_due (tb_timer s) = Some d \<Longrightarrow> tbf_step (now, Some s) (d, tbf_handle d s)"

inductive tbf_reach :: "real \<times> tbf option \<Rightarrow> real \<times> tbf option \<Rightarrow> bool" for c0 where
  start: "tbf_reach c0 c0"
| step: "tbf_reach c0 c \<Longrightarrow> tbf_step c d \<Longrightarrow> tbf_reach c0 d"

inductive_cases tbf_stepE: "tbf_step (now, Some s) (now', r)"

end
