(* ===== verification/TbfInv.thy ===== *)
theory TbfInv
  imports Tbf
begin

text \<open>
  The invariant of the token bucket filter: what the timer is set for, and what has been sent against the tokens
  that have been generated.
\<close>

section \<open>Metering\<close>

text \<open>The bits of some transmissions.\<close>

definition bits_sum :: "(real \<times> int) list \<Rightarrow> real" where
  "bits_sum xs = real_of_int (sum_list (map snd xs))"

text \<open>At time \<open>now\<close>, with \<open>tokens\<close> in the bucket: since any transmission, the bits and the tokens are within
  the bucket and what has been generated; and between any two transmissions the bits are within \<open>limit\<close> and that.\<close>

definition metered :: "real \<Rightarrow> real \<Rightarrow> real \<Rightarrow> real \<Rightarrow> real \<Rightarrow> (real \<times> int) list \<Rightarrow> bool" where
  "metered rate bucket limit tokens now sent \<longleftrightarrow>
     (\<forall>xs e ys. sent = xs @ e # ys \<longrightarrow> bits_sum (e # ys) + tokens \<le> bucket + rate * (now - fst e)) \<and>
     (\<forall>xs ys zs. sent = xs @ ys @ zs \<and> ys \<noteq> [] \<longrightarrow> bits_sum ys \<le> limit + rate * (fst (last ys) - fst (hd ys)))"

lemma bits_sum_simps [simp]: "bits_sum [] = 0" "bits_sum (e # xs) = real_of_int (snd e) + bits_sum xs" "bits_sum (xs @ ys) = bits_sum xs + bits_sum ys"
  by (simp_all add: bits_sum_def)

lemma metered_Nil: "metered rate bucket limit tokens now []"
  by (simp add: metered_def)

lemma metered_wait:
  assumes "metered rate bucket limit tokens now sent" "tokens' \<le> tokens + rate * (t - now)"
  shows "metered rate bucket limit tokens' t sent"
proof -
  have "bits_sum (e # ys) + tokens' \<le> bucket + rate * (t - fst e)" if "sent = xs @ e # ys" for xs e ys
  proof -
    have "bits_sum (e # ys) + tokens \<le> bucket + rate * (now - fst e)" using assms(1) that by (simp add: metered_def)
    with assms(2) have "bits_sum (e # ys) + tokens' \<le> bucket + (rate * (now - fst e) + rate * (t - now))" by linarith
    also have "rate * (now - fst e) + rate * (t - now) = rate * (t - fst e)" by (simp add: algebra_simps)
    finally show ?thesis .
  qed
  with assms(1) show ?thesis unfolding metered_def by blast
qed

lemma metered_send:
  assumes m: "metered rate bucket limit tokens now sent" and t: "tokens \<le> bucket" "bucket \<le> limit + tokens - real_of_int b"
  shows "metered rate bucket limit (tokens - real_of_int b) now (sent @ [(now, b)])"
proof -
  have one: "bits_sum (e # ys) + (tokens - real_of_int b) \<le> bucket + rate * (now - fst e)" if e: "sent @ [(now, b)] = xs @ e # ys" for xs e ys
  proof (cases ys rule: rev_cases)
    case Nil
    then have "e = (now, b)" using e by simp
    then show ?thesis using Nil t(1) by simp
  next
    case (snoc ys' z)
    then have "sent @ [(now, b)] = (xs @ e # ys') @ [z]" using e by simp
    then have "sent = xs @ e # ys'" "z = (now, b)" by (simp_all only: append1_eq_conv)
    moreover from this(1) m have "bits_sum (e # ys') + tokens \<le> bucket + rate * (now - fst e)" by (simp add: metered_def)
    ultimately show ?thesis using snoc by simp
  qed
  have two: "bits_sum ys \<le> limit + rate * (fst (last ys) - fst (hd ys))" if e: "sent @ [(now, b)] = xs @ ys @ zs" and n: "ys \<noteq> []" for xs ys zs
  proof (cases zs rule: rev_cases)
    case (snoc zs' z)
    then have "sent @ [(now, b)] = (xs @ ys @ zs') @ [z]" using e by simp
    then have "sent = xs @ ys @ zs'" by (simp only: append1_eq_conv)
    then show ?thesis using m n unfolding metered_def by blast
  next
    case Nil
    obtain y ys' where y: "ys = y # ys'" using n by (cases ys) auto
    have "last ys = (now, b)" using arg_cong [OF e, of last] Nil n by simp
    moreover have "bits_sum ys + (tokens - real_of_int b) \<le> bucket + rate * (now - fst y)" using one [of xs y ys'] e Nil y by simp
    ultimately show ?thesis using t(2) y by simp
  qed
  show ?thesis using one two unfolding metered_def by blast
qed

section \<open>The invariant\<close>

definition sent_bits :: "(addr \<Rightarrow> int) \<Rightarrow> (real \<times> qevent) list \<Rightarrow> (real \<times> int) list" where
  "sent_bits b es = concat (map (\<lambda>(t, e). case e of Sent p \<Rightarrow> [(t, b p)] | _ \<Rightarrow> []) es)"

definition tbf_sends :: "tbf \<Rightarrow> (real \<times> int) list" where
  "tbf_sends s = sent_bits (tbf_bits s) (tb_out s)"

lemma sent_bits_simps [simp]: "sent_bits b [] = []" "sent_bits b (es @ fs) = sent_bits b es @ sent_bits b fs"
  "sent_bits b [(t, Sent p)] = [(t, b p)]" "sent_bits b [(t, Dropped p)] = []"
  by (simp_all add: sent_bits_def)

definition tbf_conf :: "int \<Rightarrow> tbf \<Rightarrow> bool" where
  "tbf_conf M s \<longleftrightarrow> 0 < tb_rate s \<and> 0 \<le> tb_bucket s \<and> (\<forall>p. 0 \<le> tbf_bits s p \<and> tbf_bits s p \<le> M)"

definition tbf_limit :: "int \<Rightarrow> tbf \<Rightarrow> real" where
  "tbf_limit M s = max (real_of_int (tb_bucket s)) (real_of_int M)"

definition tbf_level :: "int \<Rightarrow> real \<Rightarrow> tbf \<Rightarrow> bool" where
  "tbf_level M now s \<longleftrightarrow> \<not> tb_init s \<and> tb_last s \<le> now \<and> tb_tokens s \<le> real_of_int (tb_bucket s) \<and>
     real_of_int (tb_bucket s) \<le> tbf_limit M s + tb_tokens s \<and>
     metered (tb_rate s) (real_of_int (tb_bucket s)) (tbf_limit M s) (tb_tokens s) (tb_last s) (tbf_sends s)"

definition tbf_set :: "real \<Rightarrow> tbf \<Rightarrow> addr list \<Rightarrow> bool" where
  "tbf_set now s ps = (case ps of
     [] \<Rightarrow> tm_status (tb_timer s) = TIMER_IDLE \<and> tm_due (tb_timer s) = None
   | p # _ \<Rightarrow> \<not> tb_init s \<and> tm_status (tb_timer s) = TIMER_PENDING \<and> now \<le> tb_last s + (real_of_int (tbf_bits s p) - tb_tokens s) / tb_rate s \<and>
       tb_tokens s \<le> real_of_int (tbf_bits s p) \<and>
       tm_due (tb_timer s) = Some (tb_last s + (real_of_int (tbf_bits s p) - tb_tokens s) / tb_rate s))"

definition tbf_ok :: "int \<Rightarrow> real \<Rightarrow> tbf \<Rightarrow> addr list \<Rightarrow> bool" where
  "tbf_ok M now s ps \<longleftrightarrow> tbf_conf M s \<and> pq_ok (tb_q s) ps \<and> (tb_init s \<and> tbf_sends s = [] \<or> tbf_level M now s) \<and> tbf_set now s ps"

text \<open>What stays as it is.\<close>

definition tbf_same :: "tbf \<Rightarrow> tbf \<Rightarrow> bool" where
  "tbf_same s t \<longleftrightarrow> tb_rate t = tb_rate s \<and> tb_bucket t = tb_bucket s \<and> tb_qlen t = tb_qlen s \<and> tbf_bits t = tbf_bits s"

lemma tbf_sameD:
  assumes "tbf_same s t"
  shows "tbf_conf M t = tbf_conf M s" "tbf_limit M t = tbf_limit M s" "tb_out t = tb_out s \<Longrightarrow> tbf_sends t = tbf_sends s"
  using assms by (simp_all add: tbf_same_def tbf_conf_def tbf_limit_def tbf_sends_def)

lemma tbf_bits_cong: "pm_size (fst (tb_q t)) = pm_size (fst (tb_q s)) \<Longrightarrow> tbf_bits t = tbf_bits s"
  by (simp add: tbf_bits_def fun_eq_iff)

lemma tbf_emit_simps [simp]:
  "tb_q (tbf_emit now e s) = tb_q s" "tb_tokens (tbf_emit now e s) = tb_tokens s" "tb_rate (tbf_emit now e s) = tb_rate s"
  "tb_bucket (tbf_emit now e s) = tb_bucket s" "tb_qlen (tbf_emit now e s) = tb_qlen s" "tb_last (tbf_emit now e s) = tb_last s"
  "tb_timer (tbf_emit now e s) = tb_timer s" "tb_init (tbf_emit now e s) = tb_init s" "tbf_bits (tbf_emit now e s) = tbf_bits s"
  "tb_out (tbf_emit now e s) = tb_out s @ [(now, e)]"
  by (simp_all add: tbf_emit_def tbf_bits_def fun_eq_iff)

lemma tbf_updates [simp]:
  "tbf_bits (s\<lparr>tb_tokens := x\<rparr>) = tbf_bits s" "tbf_bits (s\<lparr>tb_last := x\<rparr>) = tbf_bits s" "tbf_bits (s\<lparr>tb_timer := m\<rparr>) = tbf_bits s"
  "tbf_bits (s\<lparr>tb_init := i\<rparr>) = tbf_bits s"
  by (simp_all add: tbf_bits_def fun_eq_iff)

section \<open>Parts of the operations\<close>

lemma tbf_updated_ok:
  assumes "tbf_conf M s" "tbf_level M now s" "now \<le> t"
  shows "tbf_level M t (getupdatedtokens t s)" "tbf_same s (getupdatedtokens t s)" "tb_last (getupdatedtokens t s) = t"
    "tb_out (getupdatedtokens t s) = tb_out s" "tb_q (getupdatedtokens t s) = tb_q s" "tb_timer (getupdatedtokens t s) = tb_timer s"
    "tb_tokens (getupdatedtokens t s) = min (real_of_int (tb_bucket s)) (tb_tokens s + (t - tb_last s) * tb_rate s)"
    "tb_tokens s \<le> tb_tokens (getupdatedtokens t s)"
proof -
  let ?t = "getupdatedtokens t s"
  show same: "tbf_same s ?t" by (simp add: tbf_same_def getupdatedtokens_def Let_def)
  show sel: "tb_last ?t = t" "tb_out ?t = tb_out s" "tb_q ?t = tb_q s" "tb_timer ?t = tb_timer s"
    and tok: "tb_tokens ?t = min (real_of_int (tb_bucket s)) (tb_tokens s + (t - tb_last s) * tb_rate s)"
    by (simp_all add: getupdatedtokens_def Let_def min_def)
  have sel2: "tb_init ?t = tb_init s" "tb_bucket ?t = tb_bucket s" "tb_rate ?t = tb_rate s" by (simp_all add: getupdatedtokens_def Let_def)
  have l: "tb_last s \<le> t" "tb_tokens s \<le> real_of_int (tb_bucket s)" "0 < tb_rate s" "0 \<le> tbf_limit M s"
    using assms by (simp_all add: tbf_level_def tbf_conf_def tbf_limit_def max_def)
  then have "0 \<le> (t - tb_last s) * tb_rate s" by simp
  with l(2) show up: "tb_tokens s \<le> tb_tokens ?t" by (simp add: tok)
  have "metered (tb_rate s) (real_of_int (tb_bucket s)) (tbf_limit M s) (tb_tokens ?t) t (tbf_sends s)"
    by (rule metered_wait [of _ _ _ "tb_tokens s" "tb_last s"]) (use assms(2) in \<open>simp_all add: tbf_level_def tok mult.commute\<close>)
  then show "tbf_level M t ?t" using assms(2) up
    unfolding tbf_level_def sel sel2 tbf_sameD(2) [OF same] tbf_sameD(3) [OF same sel(2)] using l(4) by (simp add: tok min_def)
qed

lemma tbf_send_ok:
  assumes "tbf_level M now s" "tb_last s = now" "real_of_int (tb_bucket s) \<le> tbf_limit M s + (tb_tokens s - real_of_int (tbf_bits s p))" "0 \<le> tbf_bits s p"
  shows "tbf_level M now (tbf_send now p s)" "tbf_same s (tbf_send now p s)" "tb_q (tbf_send now p s) = tb_q s" "tb_timer (tbf_send now p s) = tb_timer s"
    "tb_out (tbf_send now p s) = tb_out s @ [(now, Sent p)]" "tb_last (tbf_send now p s) = now"
    "tb_tokens (tbf_send now p s) = tb_tokens s - real_of_int (tbf_bits s p)"
proof -
  let ?t = "tbf_send now p s"
  show same: "tbf_same s ?t" by (simp add: tbf_same_def tbf_send_def)
  show sel: "tb_q ?t = tb_q s" "tb_timer ?t = tb_timer s" "tb_out ?t = tb_out s @ [(now, Sent p)]" "tb_last ?t = now"
    "tb_tokens ?t = tb_tokens s - real_of_int (tbf_bits s p)" using assms(2) by (simp_all add: tbf_send_def)
  have sel2: "tb_init ?t = tb_init s" "tb_bucket ?t = tb_bucket s" "tb_rate ?t = tb_rate s" by (simp_all add: tbf_send_def)
  have "tbf_sends ?t = tbf_sends s @ [(now, tbf_bits s p)]" unfolding tbf_sends_def sel using same by (simp add: tbf_same_def)
  moreover have "metered (tb_rate s) (real_of_int (tb_bucket s)) (tbf_limit M s) (tb_tokens s - real_of_int (tbf_bits s p)) now
      (tbf_sends s @ [(now, tbf_bits s p)])"
    by (rule metered_send) (use assms in \<open>simp_all add: tbf_level_def\<close>)
  ultimately show "tbf_level M now ?t" using assms unfolding tbf_level_def sel sel2 tbf_sameD(2) [OF same] by simp
qed

section \<open>Arrivals\<close>

lemma tbf_level_cong:
  "tbf_same s t \<Longrightarrow> tb_out t = tb_out s \<Longrightarrow> tb_tokens t = tb_tokens s \<Longrightarrow> tb_last t = tb_last s \<Longrightarrow> tb_init t = tb_init s \<Longrightarrow>
    tbf_level M now t = tbf_level M now s"
  by (simp add: tbf_level_def tbf_sameD) (simp add: tbf_same_def)

lemma tbf_drop_ok:
  assumes "tbf_ok M now s ps" "\<not> tb_init s"
  shows "tbf_ok M now (tbf_emit t (Dropped p) s) ps"
proof -
  let ?t = "tbf_emit t (Dropped p) s"
  have same: "tbf_same s ?t" by (simp add: tbf_same_def)
  have "tbf_sends ?t = tbf_sends s" by (simp add: tbf_sends_def)
  then have "tbf_level M now ?t = tbf_level M now s" by (simp add: tbf_level_def tbf_sameD(2) [OF same])
  moreover have "tbf_set now ?t ps = tbf_set now s ps" by (cases ps) (simp_all add: tbf_set_def)
  ultimately show ?thesis using assms by (simp add: tbf_ok_def tbf_sameD(1) [OF same])
qed

lemma tbf_put_ok:
  assumes "pq_ok (tb_q s) ps" "p \<notin> set ps"
  shows "pq_ok (tb_q (tbf_put p s)) (ps @ [p])" "tbf_same s (tbf_put p s)"
proof -
  show "pq_ok (tb_q (tbf_put p s)) (ps @ [p])" using pq_enque_ok [OF assms] by (simp add: tbf_put_def)
  have "tbf_bits (tbf_put p s) = tbf_bits s" by (rule tbf_bits_cong) (simp add: tbf_put_def frame_simps)
  then show "tbf_same s (tbf_put p s)" by (simp add: tbf_same_def tbf_put_def)
qed

lemma tbf_put_simps [simp]:
  "tb_out (tbf_put p s) = tb_out s" "tb_tokens (tbf_put p s) = tb_tokens s" "tb_last (tbf_put p s) = tb_last s" "tb_init (tbf_put p s) = tb_init s"
  "tb_timer (tbf_put p s) = tb_timer s" "tb_rate (tbf_put p s) = tb_rate s"
  by (simp_all add: tbf_put_def)

lemma tbf_wait_ok:
  assumes "tbf_conf M s" "pq_ok (tb_q s) (p # ps)" "tbf_level M now s" "tb_last s = now" "tb_tokens s \<le> real_of_int (tbf_bits s p)"
  shows "tbf_ok M now (tbf_wait now p s) (p # ps)" "tbf_same s (tbf_wait now p s)"
proof -
  let ?t = "tbf_wait now p s"
  show same: "tbf_same s ?t" by (simp add: tbf_same_def tbf_wait_def)
  have sel: "tb_out ?t = tb_out s" "tb_tokens ?t = tb_tokens s" "tb_last ?t = now" "tb_init ?t = tb_init s" "tb_q ?t = tb_q s" "tb_rate ?t = tb_rate s"
    using assms(4) by (simp_all add: tbf_wait_def)
  have b: "tbf_bits ?t = tbf_bits s" using same by (simp add: tbf_same_def)
  have r: "0 < tb_rate s" using assms(1) by (simp add: tbf_conf_def)
  have "tbf_level M now ?t" using assms(3) tbf_level_cong [OF same sel(1,2) _ sel(4)] sel(3) assms(4) by simp
  moreover have "tbf_set now ?t (p # ps)" using r assms(3,5) by (simp add: tbf_set_def sel b tbf_level_def) (simp add: tbf_wait_def)
  ultimately show "tbf_ok M now ?t (p # ps)" using assms(1,2) by (simp add: tbf_ok_def sel(5) tbf_sameD(1) [OF same])
qed

lemma tbf_start_ok:
  assumes s: "tbf_ok M now s ps" and t: "now \<le> t" "\<And>d. tm_due (tb_timer s) = Some d \<Longrightarrow> t \<le> d"
  shows "tbf_ok M t (tbf_start t s) ps" "tbf_level M t (tbf_start t s)" "tb_q (tbf_start t s) = tb_q s" "tbf_same s (tbf_start t s)"
    "tb_timer (tbf_start t s) = tb_timer s" "tb_out (tbf_start t s) = tb_out s"
proof -
  let ?s = "tbf_start t s"
  show same: "tbf_same s ?s" and q: "tb_q ?s = tb_q s" "tb_timer ?s = tb_timer s" "tb_out ?s = tb_out s" by (simp_all add: tbf_same_def tbf_start_def)
  note d = tbf_sameD [OF same]
  show l: "tbf_level M t ?s"
  proof (cases "tb_init s")
    case True
    then have "tbf_sends s = []" using s by (auto simp: tbf_ok_def tbf_level_def)
    moreover have "0 \<le> tb_bucket s" using s by (simp add: tbf_ok_def tbf_conf_def)
    ultimately show ?thesis using True d(3) q by (simp add: tbf_level_def d(2)) (simp add: tbf_start_def metered_Nil tbf_limit_def)
  next
    case False
    then show ?thesis using s t(1) by (simp add: tbf_start_def tbf_ok_def tbf_level_def)
  qed
  have "tbf_set t ?s ps"
  proof (cases ps)
    case (Cons p qs)
    then show ?thesis using s t(2) by (simp add: tbf_ok_def tbf_set_def tbf_start_def)
  qed (use s in \<open>simp add: tbf_ok_def tbf_set_def q\<close>)
  then show "tbf_ok M t ?s ps" using s l by (simp add: tbf_ok_def d q)
qed

lemma pq_length_ok: "pq_ok s ps \<Longrightarrow> pq_length s = int (length ps)"
  by (cases s) (simp add: pq_ok_pair pq_length_def)

lemma tbf_recv_ok:
  assumes s: "tbf_ok M now s ps" and t: "now \<le> t" "\<And>d. tm_due (tb_timer s) = Some d \<Longrightarrow> t \<le> d" and p: "p \<notin> set ps"
  shows "\<exists>qs. tbf_ok M t (tbf_recv t p s) qs"
proof -
  define u where "u = tbf_start t s"
  note u = tbf_start_ok [OF s t, folded u_def]
  have c: "tbf_conf M u" "pq_ok (tb_q u) ps" "tbf_set t u ps" "\<not> tb_init u" using u(1,2) by (simp_all add: tbf_ok_def tbf_level_def)
  have len: "pq_length (tb_q u) = int (length ps)" by (rule pq_length_ok [OF c(2)])
  show ?thesis
  proof (cases ps)
    case (Cons h hs)
    have r: "tbf_recv t p s = (if pq_length (tb_q u) < tb_qlen u then tbf_put p u else tbf_emit t (Dropped p) u)"
      using len Cons by (simp add: tbf_recv_def flip: u_def)
    note put = tbf_put_ok [OF c(2) p]
    have b: "tbf_bits (tbf_put p u) = tbf_bits u" using put(2) by (simp add: tbf_same_def)
    have "tbf_set t (tbf_put p u) (ps @ [p])" using c(3) Cons by (simp add: tbf_set_def b)
    then have "tbf_ok M t (tbf_put p u) (ps @ [p])" using u(2) c(1) put tbf_level_cong [OF put(2)] by (simp add: tbf_ok_def tbf_sameD(1) [OF put(2)])
    with r tbf_drop_ok [OF u(1) c(4), of t p] show ?thesis by auto
  next
    case Nil
    define v where "v = getupdatedtokens t u"
    note v = tbf_updated_ok [OF c(1) u(2) order_refl, folded v_def]
    have r: "tbf_recv t p s = (if tb_tokens v \<ge> real_of_int (tbf_bits v p) then tbf_send t p v
        else if tb_qlen v \<noteq> 0 then tbf_wait t p (tbf_put p v) else tbf_emit t (Dropped p) v)"
      using len Nil by (simp add: tbf_recv_def Let_def flip: u_def v_def)
    have cv: "tbf_conf M v" "pq_ok (tb_q v) []" "\<not> tb_init v" using c(1,2) v(1,5) Nil tbf_sameD(1) [OF v(2)] by (simp_all add: tbf_level_def)
    then have b: "0 \<le> tbf_bits v p" by (simp add: tbf_conf_def)
    have set: "tbf_set t v []" using c(3) Nil by (simp add: tbf_set_def v(6))
    consider "tb_tokens v \<ge> real_of_int (tbf_bits v p)" | "tb_tokens v < real_of_int (tbf_bits v p)" "tb_qlen v \<noteq> 0" | "tb_tokens v < real_of_int (tbf_bits v p)" "tb_qlen v = 0" by linarith
    then show ?thesis
    proof cases
      case 1
      have "real_of_int (tb_bucket v) \<le> tbf_limit M v + (tb_tokens v - real_of_int (tbf_bits v p))" using 1 by (simp add: tbf_limit_def)
      note w = tbf_send_ok [OF v(1,3) this b]
      have "tbf_ok M t (tbf_send t p v) []" using w(1,3,4) cv(1,2) set by (simp add: tbf_ok_def tbf_sameD(1) [OF w(2)] tbf_set_def)
      with r 1 show ?thesis by auto
    next
      case 2
      note put = tbf_put_ok [OF cv(2), of p]
      have "tbf_bits (tbf_put p v) = tbf_bits v" using put(2) by (simp add: tbf_same_def)
      then have "tbf_ok M t (tbf_wait t p (tbf_put p v)) [p]"
        using 2 v(1,3) cv put tbf_level_cong [of v "tbf_put p v"] by (intro tbf_wait_ok) (simp_all add: tbf_sameD(1))
      with r 2 show ?thesis by auto
    next
      case 3
      have "tbf_ok M t v []" using v(1) cv set by (simp add: tbf_ok_def)
      from tbf_drop_ok [OF this cv(3)] r 3 show ?thesis by auto
    qed
  qed
qed

lemma tbf_recv_same: "tbf_same s (tbf_recv t p s)"
proof -
  have "tbf_bits (tbf_put p s) = tbf_bits s" for s by (rule tbf_bits_cong) (simp add: tbf_put_def frame_simps)
  then show ?thesis
    by (simp add: tbf_same_def tbf_recv_def tbf_start_def tbf_send_def tbf_wait_def getupdatedtokens_def Let_def) (simp add: tbf_put_def)
qed

section \<open>The timer\<close>

lemma tbf_handle_ok:
  assumes s: "tbf_ok M now s (p # ps)"
  shows "\<exists>d t. tm_due (tb_timer s) = Some d \<and> now \<le> d \<and> tbf_handle d s = Some t \<and> tbf_ok M d t ps \<and> tbf_same s t \<and> tb_out t = tb_out s @ [(d, Sent p)]"
proof -
  define d where "d = tb_last s + (real_of_int (tbf_bits s p) - tb_tokens s) / tb_rate s"
  have set: "\<not> tb_init s" "tm_status (tb_timer s) = TIMER_PENDING" "now \<le> d" "tm_due (tb_timer s) = Some d"
    using s by (simp_all add: tbf_ok_def tbf_set_def d_def)
  have c: "tbf_conf M s" "pq_ok (tb_q s) (p # ps)" "tbf_level M now s" using s set(1) by (simp_all add: tbf_ok_def)
  define m where "m = (tb_timer s)\<lparr>tm_due := None, tm_status := TIMER_HANDLING\<rparr>"
  have fire: "timer_fire (tb_timer s) = Some m" using set(2) by (simp add: timer_fire_def m_def)
  from pq_deque_Cons [OF c(2)] obtain q where q: "pq_deque (tb_q s) = (Some p, q)" "pq_ok q ps" by blast
  define u where "u = s\<lparr>tb_timer := m, tb_q := q\<rparr>"
  have "fst q = fst (tb_q s)" using pq_deque_frame [of "tb_q s"] q(1) by simp
  then have b: "tbf_bits u = tbf_bits s" by (intro tbf_bits_cong) (simp add: u_def)
  then have same: "tbf_same s u" by (simp add: tbf_same_def u_def)
  have lu: "tbf_level M now u" using c(3) tbf_level_cong [OF same] by (simp add: u_def)
  have cu: "tbf_conf M u" using c(1) tbf_sameD(1) [OF same] by simp
  define v where "v = getupdatedtokens d u"
  note v = tbf_updated_ok [OF cu lu set(3), folded v_def]
  have bv: "tbf_bits v = tbf_bits s" using v(2) b by (simp add: tbf_same_def)
  have "0 < tb_rate s" using c(1) by (simp add: tbf_conf_def)
  then have "tb_tokens s + (d - tb_last s) * tb_rate s = real_of_int (tbf_bits s p)" by (simp add: d_def)
  then have tok: "tb_tokens v = min (real_of_int (tb_bucket s)) (real_of_int (tbf_bits s p))" using v(7) by (simp add: u_def)
  have p: "0 \<le> tbf_bits s p" "tbf_bits s p \<le> M" using c(1) by (simp_all add: tbf_conf_def)
  have same': "tb_bucket v = tb_bucket s" using v(2) by (simp add: tbf_same_def u_def)
  have "real_of_int (tb_bucket v) \<le> tbf_limit M v + (tb_tokens v - real_of_int (tbf_bits v p))"
    using p(2) by (simp add: tok bv tbf_limit_def same')
  note room = this
  define w' where "w' = tbf_send d p v"
  note w = tbf_send_ok [OF v(1,3) room, folded w'_def, unfolded bv, OF p(1)]
  have sw: "tbf_same s w'" using same v(2) w(2) by (simp add: tbf_same_def)
  have cw: "tbf_conf M w'" "pq_ok (tb_q w') ps" "tb_timer w' = m" "tb_out w' = tb_out s @ [(d, Sent p)]" "tb_tokens w' \<le> 0"
    using c(1) tbf_sameD(1) [OF sw] w(3-5,7) v(4-6) q(2) tok by (simp_all add: u_def)
  have timeout: "tbf_timeout d (s\<lparr>tb_timer := m\<rparr>) = (if pq_length (tb_q w') \<noteq> 0
      then map_option (\<lambda>h. tbf_wait d h w') (pq_head (snd (tb_q w'))) else Some w')"
    using pq_length_ok [OF c(2)] q(1) by (simp add: tbf_timeout_def Let_def w'_def v_def u_def)
  show ?thesis
  proof (cases ps)
    case Nil
    let ?t = "w'\<lparr>tb_timer := timer_done m\<rparr>"
    have "tbf_handle d s = Some ?t" using fire timeout pq_length_ok [OF cw(2)] Nil cw(3) by (simp add: tbf_handle_def)
    moreover have st: "tbf_same w' ?t" by (simp add: tbf_same_def)
    then have "tbf_level M d ?t" using w(1) tbf_level_cong [OF st] by simp
    then have "tbf_ok M d ?t []" using cw(1,2) Nil tbf_sameD(1) [OF st] by (simp add: tbf_ok_def tbf_set_def m_def timer_done_def)
    moreover have "tbf_same s ?t" using sw st by (simp add: tbf_same_def)
    ultimately show ?thesis using set(3,4) cw(4) Nil by auto
  next
    case (Cons h hs)
    have hd: "pq_head (snd (tb_q w')) = Some h" using cw(2) Cons by (cases "tb_q w'") (simp add: pq_ok_pair)
    have "tbf_bits w' = tbf_bits s" using sw by (simp add: tbf_same_def)
    then have "tb_tokens w' \<le> real_of_int (tbf_bits w' h)" using cw(1,5) by (simp add: tbf_conf_def) (meson of_int_0_le_iff order_trans)
    note wt = tbf_wait_ok [OF cw(1) cw(2) [unfolded Cons] w(1,6) this]
    have "timer_done (tb_timer (tbf_wait d h w')) = tb_timer (tbf_wait d h w')" by (simp add: tbf_wait_def)
    then have "tbf_handle d s = Some (tbf_wait d h w')" using fire timeout pq_length_ok [OF cw(2)] Cons hd by (simp add: tbf_handle_def)
    moreover have "tbf_same s (tbf_wait d h w')" using sw wt(2) by (simp add: tbf_same_def)
    moreover have "tb_out (tbf_wait d h w') = tb_out s @ [(d, Sent p)]" using cw(4) by (simp add: tbf_wait_def)
    ultimately show ?thesis using set(3,4) wt(1) Cons by auto
  qed
qed

section \<open>Runs\<close>

lemma tbf_new_ok:
  assumes "tbf_conf M (tbf_new m rate bucket qlen last0)"
  shows "tbf_ok M now (tbf_new m rate bucket qlen last0) []"
  using assms by (simp add: tbf_ok_def tbf_set_def) (simp add: tbf_new_def timer_new_def pq_ok_init tbf_sends_def)

lemma tbf_elems: "tbf_ok M now s ps \<Longrightarrow> pq_elems (tb_q s) = ps"
  by (simp add: tbf_ok_def pq_ok_elems)

lemma tbf_step_ok:
  assumes "tbf_step (now, Some s) (now', r)" "tbf_ok M now s ps"
  shows "\<exists>t qs. r = Some t \<and> tbf_ok M now' t qs \<and> tbf_same s t"
  using assms(1)
proof (rule tbf_stepE)
  fix p
  assume "now \<le> now'" "\<And>d. tm_due (tb_timer s) = Some d \<Longrightarrow> now' \<le> d" "p \<notin> set (pq_elems (tb_q s))"
    "r = Some (tbf_recv now' p s)"
  with assms(2) show ?thesis using tbf_recv_ok [of M now s ps now' p] tbf_elems [of M now s ps] tbf_recv_same by auto
next
  assume due: "tm_due (tb_timer s) = Some now'" "r = tbf_handle now' s"
  then have "ps \<noteq> []" using assms(2) by (auto simp: tbf_ok_def tbf_set_def)
  then obtain p qs where "ps = p # qs" by (cases ps) auto
  with assms(2) due tbf_handle_ok [of M now s p qs] show ?thesis by auto
qed

lemma tbf_reach_ok:
  assumes "tbf_reach (now0, Some (tbf_new m rate bucket qlen last0)) c" "tbf_conf M (tbf_new m rate bucket qlen last0)"
  shows "\<exists>s ps. snd c = Some s \<and> tbf_ok M (fst c) s ps \<and> tbf_same (tbf_new m rate bucket qlen last0) s"
  using assms
proof (induction rule: tbf_reach.induct)
  case start
  have "tbf_same s s" for s by (simp add: tbf_same_def)
  with tbf_new_ok [OF start] show ?case by auto
next
  case (step c d)
  then obtain s ps where "snd c = Some s" "tbf_ok M (fst c) s ps" and s: "tbf_same (tbf_new m rate bucket qlen last0) s" by blast
  with step.hyps(2) tbf_step_ok [of "fst c" s "fst d" "snd d" M ps] obtain t qs where
    "snd d = Some t" "tbf_ok M (fst d) t qs" "tbf_same s t" by (cases c; cases d) auto
  with s show ?case by (auto simp: tbf_same_def)
qed

end
