(* ===== verification/TbfProps.thy ===== *)
theory TbfProps
  imports TbfInv
begin

text \<open>The token bucket filter conforms to its rate, and every packet that waits is sent.\<close>

lemma tbf_conf_new:
  assumes "0 < rate" "0 \<le> bucket" "\<And>p. 0 \<le> pm_size m p \<and> 8 * pm_size m p \<le> M"
  shows "tbf_conf M (tbf_new m rate bucket qlen last0)"
  using assms by (simp add: tbf_conf_def tbf_new_def tbf_bits_def push_bit_eq_mult mult.commute)

text \<open>The next \<open>n\<close> expirations of the timer, without arrivals.\<close>

fun tbf_drain :: "nat \<Rightarrow> tbf \<Rightarrow> tbf option" where
  "tbf_drain 0 s = Some s"
| "tbf_drain (Suc n) s = (case tm_due (tb_timer s) of
     None \<Rightarrow> None
   | Some d \<Rightarrow> (case tbf_handle d s of None \<Rightarrow> None | Some t \<Rightarrow> tbf_drain n t))"

lemma tbf_drain_ok:
  "tbf_ok M now s ps \<Longrightarrow> \<exists>t ts. tbf_drain (length ps) s = Some t \<and> pq_elems (tb_q t) = [] \<and> length ts = length ps \<and> sorted (now # ts) \<and>
    tb_out t = tb_out s @ zip ts (map Sent ps)"
proof (induction ps arbitrary: now s)
  case Nil
  then show ?case using tbf_elems [OF Nil] by simp
next
  case (Cons p ps)
  from tbf_handle_ok [OF Cons.prems] obtain d u where
    u: "tm_due (tb_timer s) = Some d" "now \<le> d" "tbf_handle d s = Some u" "tbf_ok M d u ps" "tb_out u = tb_out s @ [(d, Sent p)]" by blast
  from Cons.IH [OF u(4)] obtain t ts where
    t: "tbf_drain (length ps) u = Some t" "pq_elems (tb_q t) = []" "length ts = length ps" "sorted (d # ts)" "tb_out t = tb_out u @ zip ts (map Sent ps)" by blast
  then show ?case using u by (intro exI [of _ t] exI [of _ "d # ts"]) auto
qed

section \<open>An example\<close>

text \<open>1000 bits a second and a bucket of 8000 bits, which is the size of the packets: the second one, at time 1, waits until time 8.\<close>

definition tbf_example :: tbf where
  "tbf_example = tbf_new pmem_example 1000 8000 5 0"

definition tbf_example1 :: tbf where
  "tbf_example1 = tbf_recv 1 2 (tbf_recv 0 1 tbf_example)"

lemmas tbf_ops = tbf_recv_def tbf_start_def getupdatedtokens_def tbf_send_def tbf_emit_def tbf_wait_def tbf_put_def tbf_bits_def Let_def
  timer_resched_def timer_new_def pq_length_def pq_enque_def pq_init_def set_next_def

lemma tbf_example1_eq:
  "tb_out tbf_example1 = [(0, Sent 1)]" "tm_due (tb_timer tbf_example1) = Some 8" "pq_elems (tb_q tbf_example1) = [2]"
  by (simp_all add: tbf_example1_def tbf_example_def tbf_new_def tbf_ops pmem_example_def pq_elems_def)

lemma tbf_example_reach: "tbf_reach (0, Some tbf_example) (1, Some tbf_example1)"
proof -
  have "tbf_step (0, Some tbf_example) (0, Some (tbf_recv 0 1 tbf_example))"
    by (rule tbf_step.arrive) (simp_all add: tbf_example_def tbf_new_def timer_new_def pq_init_def pq_elems_def)
  moreover have "tbf_step (0, Some (tbf_recv 0 1 tbf_example)) (1, Some tbf_example1)" unfolding tbf_example1_def
    by (rule tbf_step.arrive) (simp_all add: tbf_example_def tbf_new_def tbf_ops pmem_example_def pq_elems_def)
  ultimately show ?thesis by (blast intro: tbf_reach.intros)
qed

section \<open>Conformance\<close>

text \<open>C7. The token bucket filter conforms: whatever arrives and when, from one packet sent to a later one no more bits are sent than the
  depth of the bucket - or the size of the largest packet, if that is larger - and what has been generated in between.\<close>

theorem tbf_conforms:
  assumes "0 < rate" "0 \<le> bucket" "\<And>p. 0 \<le> pm_size m p \<and> 8 * pm_size m p \<le> M"
    and "tbf_reach (now0, Some (tbf_new m rate bucket qlen last0)) (now, Some s)" "tbf_sends s = xs @ ys @ zs" "ys \<noteq> []"
  shows "bits_sum ys \<le> max (real_of_int bucket) (real_of_int M) + rate * (fst (last ys) - fst (hd ys))"
proof -
  from tbf_reach_ok [OF assms(4) tbf_conf_new [OF assms(1-3)]] obtain ps where
    s: "tbf_ok M now s ps" "tbf_same (tbf_new m rate bucket qlen last0) s" by auto
  have "tb_rate s = rate" "tb_bucket s = bucket" using s(2) by (simp_all add: tbf_same_def tbf_new_def)
  moreover have "tbf_level M now s" using s(1) assms(5,6) by (auto simp: tbf_ok_def)
  ultimately have "metered rate (real_of_int bucket) (max (real_of_int bucket) (real_of_int M)) (tb_tokens s) (tb_last s) (tbf_sends s)"
    by (simp add: tbf_level_def tbf_limit_def)
  with assms(5,6) show ?thesis unfolding metered_def by blast
qed

theorem tbf_conforms_witness:
  "\<exists>s. tbf_handle 8 tbf_example1 = Some s \<and> tbf_sends s = [(0, 8000), (8, 8000)] \<and>
    bits_sum (tbf_sends s) \<le> max (real_of_int 8000) (real_of_int 8000) + 1000 * (8 - 0)"
proof -
  have m: "0 \<le> pm_size pmem_example p \<and> 8 * pm_size pmem_example p \<le> 8000" for p by (simp add: pmem_example_def)
  obtain s where s: "tbf_handle 8 tbf_example1 = Some s" "tbf_sends s = [(0, 8000), (8, 8000)]"
    by (simp add: tbf_example1_def tbf_example_def tbf_new_def tbf_handle_def tbf_timeout_def timer_fire_def pq_deque_def tbf_ops pmem_example_def
      tbf_sends_def sent_bits_def)
  have "tbf_step (1, Some tbf_example1) (8, Some s)" using tbf_step.expire [OF tbf_example1_eq(2), of 1] by (simp add: s(1))
  then have r: "tbf_reach (0, Some tbf_example) (8, Some s)" using tbf_example_reach by (blast intro: tbf_reach.intros)
  have "tbf_sends s = [] @ tbf_sends s @ []" by simp
  from tbf_conforms [OF _ _ m r [unfolded tbf_example_def] this] s show ?thesis by simp
qed

section \<open>Waiting packets\<close>

text \<open>C40. Whatever arrives and whenever the timer expires, the filter never aborts.  Its timer is set exactly while packets wait,
  and never for a time in the past; after as many expirations as packets wait these have been sent, in the order in which they arrived.\<close>

theorem tbf_drains:
  assumes "0 < rate" "0 \<le> bucket" "\<And>p. 0 \<le> pm_size m p \<and> 8 * pm_size m p \<le> M"
    and "tbf_reach (now0, Some (tbf_new m rate bucket qlen last0)) (now, r)"
  shows "\<exists>s. r = Some s \<and> (tm_due (tb_timer s) = None \<longleftrightarrow> pq_elems (tb_q s) = []) \<and>
    (\<exists>t ts. tbf_drain (length (pq_elems (tb_q s))) s = Some t \<and> pq_elems (tb_q t) = [] \<and> length ts = length (pq_elems (tb_q s)) \<and>
      sorted (now # ts) \<and> tb_out t = tb_out s @ zip ts (map Sent (pq_elems (tb_q s))))"
proof -
  from tbf_reach_ok [OF assms(4) tbf_conf_new [OF assms(1-3)]] obtain s ps where s: "r = Some s" "tbf_ok M now s ps" by auto
  have "tm_due (tb_timer s) = None \<longleftrightarrow> ps = []" using s(2) by (cases ps) (simp_all add: tbf_ok_def tbf_set_def)
  with s(1) tbf_drain_ok [OF s(2)] show ?thesis by (simp add: tbf_elems [OF s(2)])
qed

theorem tbf_drains_witness:
  "\<exists>t ts. tbf_drain 1 tbf_example1 = Some t \<and> pq_elems (tb_q t) = [] \<and> length ts = 1 \<and> sorted (1 # ts) \<and> tb_out t = [(0, Sent 1)] @ zip ts [Sent 2]"
proof -
  have m: "0 \<le> pm_size pmem_example p \<and> 8 * pm_size pmem_example p \<le> 8000" for p by (simp add: pmem_example_def)
  from tbf_drains [OF _ _ m tbf_example_reach [unfolded tbf_example_def]] show ?thesis by (simp add: tbf_example1_eq del: tbf_drain.simps)
qed

end
