(* ===== verification/Spec2Isabelle.thy ===== *)
theory Spec2Isabelle
  imports DropTail RedLaws RedProb RngStreams SchedulerRuns HeapWrap AodvProps TcpReset TcpQuirks TcpConnection RouteProps DrrProps SfqProps TbfProps
begin

text \<open>
  A verification of parts of the network simulator ns-2 as this repository holds it
  (ns-2.35, with a modified RED queue), paths relative to src/ns-2.35.  A simulation is a set of
  objects that hand each other packets and schedule events: the scheduler dispatches events in the
  order of time, agents (AODV, TCP) react to packets and timers by sending packets and starting
  timers, queues hold the packets between them, and the random number generator is asked by
  whoever needs chance.  The theories model these parts, one group per part.

  \<^bold>\<open>Conventions.\<close>  An object is a record with the fields of its class, a method a function from
  the old state to the new one; the clock (\<open>Scheduler::instance().clock()\<close>) is an argument.  C ints are
  integers and doubles are reals, except where the width or the rounding is the point: the heap's
  counter, the sequence numbers and ids of AODV, the short integer of the round-trip time, the
  doubles of the generator, which hold integers below $2^{53}$.  Errors are values: \<open>None\<close>, or \<open>Inl\<close> of an error,
  is a crash, a failed assertion, an \<open>abort()\<close>, an access outside an array or a loop without
  end.  Virtual methods are arguments (queues, schedulers) or dispatch on a datatype of the classes (TCP).

  \<^bold>\<open>Packets and queues\<close> (queue/queue.h, queue.cc, drop-tail.h, drop-tail.cc, red.h, red.cc).
  \<open>PacketQueue\<close> has the linked list with its memory and the contract \<open>packet_queue\<close> of a FIFO list;
  \<open>QueueBase\<close> the class Queue, with statistics, recv and resume over any discipline, and the contract
  \<open>discipline\<close>, under which a run of a queue loses no packet unnoticed and keeps their order.
  \<open>DropTail\<close> and \<open>RedQueue\<close> are the disciplines, \<open>RedLaws\<close> and \<open>DropTail\<close> interpret the
  contract, \<open>RedProb\<close> has the numbers of RED and of the modified RED (NARED): averaging, the adaptation of
  \<open>max_p\<close>, the drop probability and its spacing.

  \<^bold>\<open>Scheduler\<close> (common/scheduler.h, scheduler.cc, heap.h, splay-scheduler.cc).  \<open>Scheduler\<close> has
  the base class over any queue and the sorted list; the contract \<open>event_queue\<close> says that a queue
  behaves as a list of events sorted by time and then by uid.  \<open>EventSort\<close> is that abstraction,
  \<open>SchedRefine\<close> proves that a scheduler on any queue with the contract runs as the one on the list.
  \<open>HeapSched\<close> and \<open>HeapLaws\<close>, \<open>SplaySched\<close>, and \<open>CalendarSched\<close>, \<open>CalendarTable\<close>,
  \<open>CalendarLaws\<close>, \<open>CalendarHead\<close> and \<open>CalendarQueue\<close> are the other three queues, \<open>SchedLive\<close> weighs
  the waiting events against what can still be scheduled up to a time, so that a run reaches it, \<open>SchedulerRuns\<close> has the
  properties of whole simulations and \<open>HeapWrap\<close> the counter of the heap.  The bound of \<open>sched_run\<close> is
  the number of events dispatched: a run of the code with \<open>n\<close> events is the run with bound \<open>n\<close>.  The
  search in the calendar takes as many steps as there are buckets, and then, as in the code, the minimum.

  \<^bold>\<open>Random numbers\<close> (tools/rng.h, rng.cc).  \<open>Rng\<close> has the generator and its matrices,
  \<open>RngPowers\<close> shows that the matrices of the jumps are the powers they stand for, \<open>RngStreams\<close> that
  jumps agree with single draws, and the ranges of the draws.

  \<^bold>\<open>AODV\<close> (aodv/*, with the packet headers of common/).  \<open>AodvTables\<close> and \<open>AodvQueue\<close> have the routes, the
  caches and the buffer, \<open>Aodv\<close> and \<open>AodvAgent\<close> the agent, \<open>AodvRoutes\<close> the order of routes that
  no handler violates, \<open>AodvInv\<close>, \<open>AodvSafe\<close> and \<open>AodvAgentSafe\<close> the invariant and that no handler
  fails, and the runs of an agent; \<open>AodvProps\<close> the properties, and what local repair breaks.  The
  loops that drain the buffer end as each round shortens it (\<open>drain_loop\<close>).

  \<^bold>\<open>TCP receivers\<close> (tcp/tcp-sink.h, tcp-sink.cc).  \<open>TcpAcker\<close> is the receive window, \<open>TcpSack\<close> the
  selective acknowledgments, \<open>TcpSink\<close> the sinks; \<open>TcpSinkProps\<close> and \<open>TcpReceive\<close> show that
  acknowledgments are cumulative, blocks honest, and at most one packet waits for a delayed acknowledgment,
  \<open>TcpReset\<close> what a reset forgets to clear.  The loops over the window are partial functions and proved to end.

  \<^bold>\<open>TCP senders\<close> (tcp/tcp.h, tcp.cc, tcp-reno.cc, tcp-newreno.cc, common/timer-handler.cc, qs/hdr_qs.cc).  The classes
  TcpAgent (Tahoe), RenoTcpAgent and NewRenoTcpAgent are one record \<open>tcp\<close>, with the class in the
  parameters (\<open>tcp_conf\<close>, the bound variables).  \<open>TcpState\<close> has both and the timers, \<open>TcpRtt\<close> the round-trip time and
  the timeout (rtt_init to rtt_backoff), \<open>TcpWindow\<close> the congestion window (window, opencwnd,
  slowdown), \<open>TcpOutput\<close> the sending of packets (output, send_much, newtimer, sendmsg, QOption, Quick-Start),
  \<open>TcpAgent\<close> reset, recv, newack, dupack_action, partialnewack and timeout of each class.  \<open>TcpFrames\<close> says which fields an operation
  leaves alone; \<open>TcpSending\<close> shows that the loop of send_much ends and what a packet sent changes; \<open>TcpInv\<close>
  has the invariant \<open>good\<close>, and \<open>TcpHandlers\<close>, \<open>TcpAcks\<close>, \<open>TcpRecv\<close>, \<open>TcpRuns\<close> and \<open>TcpSender\<close> show that every handler returns
  and keeps it, so that it holds in the runs \<open>sender\<close> of any events in any order.
  \<open>TcpProps\<close>, \<open>TcpTimeout\<close> and \<open>TcpCongestion\<close> have the properties of senders: timers, flow control, Karn's rule,
  retransmission, growth and cuts of the window, the average of the round-trip time; \<open>TcpQuirks\<close>
  has behaviour at the edges.  \<open>TcpConnection\<close> connects a sender with a receiver, any with the
  contract \<open>receiver\<close>, over a network that loses, repeats and reorders: what is acknowledged has been received.
  The properties suppose \<open>tcp_conf_ok\<close>: an existing window option, a window of at least one
  packet, and neither max_connects_, bugFix_ts_ nor QOption_, as by default; the model has these.
  Division by zero is zero in HOL, where C has an infinite double: it matters in newreno_first_acks (two acknowledgments
  at one time) and in delay_send for a window of 0 (after an approved Quick-Start request only).  Left out: the
  burst timer, which is never set, tracing, the Tcl commands, and the helper methods that are empty.

  \<^bold>\<open>Routes\<close> (routing/route.h, route.cc, the flat part of class RouteLogic).  \<open>RouteLogic\<close> has the array of link
  costs that grows with the nodes, the computation of all next hops and their lookup; \<open>RouteShortest\<close>
  is the invariant of the computation, by the set of nodes already reached, and \<open>RouteProps\<close> shows that the next hops
  lie on cheapest paths and that a packet handed on along them arrives.

  \<^bold>\<open>Fair queueing\<close> (queue/drr.cc, queue/sfq.cc).  \<open>FlowServer\<close> has sequences of arrivals and departures and the contract
  \<open>flow_server\<close> of one operation, under which all sequences account for their packets, keep the order in each flow and change the lead of
  a flow over another by what the two send; \<open>FlowRing\<close> has the ring of active flows, linked by pointers that are indices here.
  DRR: \<open>Drr\<close> is the queue, \<open>DrrInv\<close> its invariant (the ring holds the flows with packets, the counters count), \<open>DrrOps\<close>
  arrivals and departures; \<open>DrrRounds\<close> shows that the rounds end, by how far the deficits are from the
  first packets, and gives an induction over the visits; \<open>DrrFair\<close> has the potential (deficits and the order of the visits) that the contract asks
  for, \<open>DrrRun\<close> interprets the contract, \<open>DrrProps\<close> has the fairness in bytes, the accounting of packets, their order and work conservation.
  SFQ: \<open>Sfq\<close>, \<open>SfqInv\<close>, \<open>SfqOps\<close> and \<open>SfqProps\<close> likewise, with fairness in packets, the shares of the buffer, and the broadcasts that break the hash.

  \<^bold>\<open>Shaping\<close> (common/timer-handler.h, timer-handler.cc, adc/tbf.h, tbf.cc).  \<open>Timer\<close> has the status of a timer, \<open>Tbf\<close> the
  token bucket filter over a PacketQueue and a timer, with its runs as a step relation of arrivals and expirations in real time, an abort being a configuration of its own; \<open>TbfInv\<close> has
  the invariant (when the timer is due, and the bits sent against the tokens generated), \<open>TbfProps\<close> conformance to the rate, that nothing aborts and that what waits is sent.

  \<^bold>\<open>Not modelled.\<close>  The Tcl side: bound variables, the commands the classes dispatch on, tracing and
  logging; what is called back in Tcl is an effect in the model's output.  The generator's obsolete
  variant behind OLD_RNG, its heuristic seeds (time of day) and distributions built on logarithms.
  RealTimeScheduler, which waits on the operating system.  Rounding of doubles used as reals.  Hierarchical
  routes, and the parsing of the Tcl commands of RouteLogic.  The disciplines other than DropTail, RED, DRR and SFQ.  The
  other directories of ns-2 (MAC and physical layers, the other routing agents, SCTP, WPAN, the other variants of
  TCP, applications), generated code (gen/) and the Tcl library, and the Java socket project, the
  scripts and the traces next to ns-2.35.
\<close>

section \<open>The packet list\<close>

text \<open>
  C37. PacketQueue is a FIFO queue: after any packets \<open>ps\<close> are enqueued behind the packets
  \<open>xs\<close> it holds, dequeueing until the list is empty returns \<open>xs @ ps\<close>, in this order.
\<close>

theorem packet_queue_fifo:
  assumes "pq_ok s xs" "distinct (xs @ ps)"
  shows "fst (take_out pq_deque (length xs + length ps) (fold (\<lambda>p s. snd (pq_enque p s)) ps s)) = xs @ ps"
  using assms by (rule pq.fifo_order)

theorem packet_queue_fifo_witness:
  "fst (take_out pq_deque 3 (fold (\<lambda>p s. snd (pq_enque p s)) [7, 3, 5] (pmem_example, pq_init))) = [7, 3, 5]"
  using packet_queue_fifo [OF pq_ok_init [of pmem_example], of "[7, 3, 5]"] by (simp add: numeral_3_eq_3)

text \<open>
  \<open>PacketQueue::remove\<close> unlinks exactly the given packet and keeps the order, the length
  and the byte count of the rest; for a packet that is not in the list it ends in \<open>abort()\<close>.
\<close>

theorem packet_queue_remove:
  assumes "pq_ok s xs"
  shows "(p \<in> set xs \<longrightarrow> (\<exists>s'. pq_remove p s = Some (Inr s') \<and> pq_ok s' (remove1 p xs))) \<and>
    (p \<notin> set xs \<longrightarrow> pq_remove p s = Some (Inl Abort))"
  using pq_remove_ok [OF assms] pq_remove_absent [OF assms] by blast

theorem packet_queue_remove_witness:
  "(\<exists>s'. pq_remove 4 (snd (pq_enque 4 (pmem_example, pq_init))) = Some (Inr s') \<and> pq_ok s' []) \<and>
   pq_remove 9 (snd (pq_enque 4 (pmem_example, pq_init))) = Some (Inl Abort)"
proof -
  have ok: "pq_ok (snd (pq_enque 4 (pmem_example, pq_init))) [4]"
    using pq_enque_ok [OF pq_ok_init, of 4 pmem_example] by simp
  show ?thesis
    using packet_queue_remove [OF ok, of 4] packet_queue_remove [OF ok, of 9] by simp
qed

section \<open>Statistics of the queues\<close>

text \<open>
  After updates at non-decreasing times, \<open>true_ave\<close> times the time passed is the area
  under the queue size: \<open>updateStats\<close> computes the time average.
\<close>

theorem queue_time_average:
  assumes "0 \<le> q_total_time s" "sorted (q_total_time s # map fst us)"
  defines "s' \<equiv> fold (\<lambda>(t, n). queue_updateStats t n) us s"
  shows "q_true_ave s' * q_total_time s' = q_true_ave s * q_total_time s + area (q_total_time s) us"
  unfolding s'_def using assms(1,2) by (rule updateStats_fold)

theorem queue_time_average_witness:
  "q_true_ave (fold (\<lambda>(t, n). queue_updateStats t n) [(1, 2), (3, 5)] (queue_example 3)) *
   q_total_time (fold (\<lambda>(t, n). queue_updateStats t n) [(1, 2), (3, 5)] (queue_example 3)) = 12"
  using queue_time_average [of "queue_example 3" "[(1, 2), (3, 5)]"] by (simp add: queue_example_def)

text \<open>The peak utilisation of a link is between 0 and 1.\<close>

theorem utilization_bounds:
  assumes "util_ok s" "0 \<le> q_util_weight s" "q_period_begin s \<le> q_last_change s" "q_last_change s \<le> now"
  shows "0 \<le> fst (queue_peak_utilization now s) \<and> fst (queue_peak_utilization now s) \<le> 1"
  using assms by (rule peak_utilization_bounds)

theorem utilization_bounds_witness:
  "0 \<le> fst (queue_peak_utilization 2 (queue_example 3)) \<and> fst (queue_peak_utilization 2 (queue_example 3)) \<le> 1"
  using utilization_bounds [of "queue_example 3" 2] by (simp add: util_ok_def queue_example_def)

section \<open>DropTail\<close>

text \<open>
  C13. In every run of a DropTail queue no operation fails, every packet that arrived has been
  sent or dropped once or is still held, packets are sent in order of arrival, and the queue
  is empty whenever the link is free.
\<close>

theorem droptail_run:
  assumes "dt_holds s []" "q_out s = []" "distinct (arrivals ops)"
  shows "\<exists>s' xs. queue_run dt_enque (\<lambda>now. dt_deque (Some now)) ops s = Some s' \<and> dt_holds s' xs \<and>
    mset xs + mset (out_pkts (q_out s')) = mset (arrivals ops) \<and>
    subseq (sent_pkts (q_out s') @ xs) (arrivals ops) \<and> (\<not> q_blocked s' \<longrightarrow> xs = [])"
  using dt.run_keeps_inv [of "[]" s ops] run_inv_start [OF dt.discipline_axioms assms(1,2)] assms(3)
  by (auto simp: dt.run_inv_def accounted_def)

theorem droptail_run_witness:
  "\<exists>s' xs. queue_run dt_enque (\<lambda>now. dt_deque (Some now)) [Arrive 0 1, Arrive 0 2, Resume 1] dt_example = Some s' \<and>
    dt_holds s' xs \<and> mset xs + mset (out_pkts (q_out s')) = {#1, 2#} \<and>
    subseq (sent_pkts (q_out s') @ xs) [1, 2] \<and> (\<not> q_blocked s' \<longrightarrow> xs = [])"
  using droptail_run [of dt_example "[Arrive 0 1, Arrive 0 2, Resume 1]"]
  by (simp add: dt_holds_def dt_example_sel pq_ok_init)

text \<open>
  A DropTail queue that counts packets never holds more than \<open>limit - 1\<close> of them: the
  test of \<open>enque\<close> counts the arriving packet and drops it when the limit is reached.
\<close>

theorem droptail_capacity:
  assumes "dt_holds s []" "q_out s = []" "\<not> dt_qib s" "1 \<le> q_lim s" "distinct (arrivals ops)"
    "queue_run dt_enque (\<lambda>now. dt_deque (Some now)) ops s = Some s'"
  shows "\<exists>xs. dt_holds s' xs \<and> int (length xs) \<le> q_lim s - 1"
proof -
  have c: "dt_counts s []" using assms by (simp add: dt_counts_def)
  then have "dtc.run_inv [] s" by (rule run_inv_start [OF dtc.discipline_axioms _ assms(2)])
  moreover have "dtc.bound_inv (q_lim s - 1) s" using c assms(4) by (auto simp: dtc.bound_inv_def)
  ultimately have "dtc.bound_inv (q_lim s - 1) s'" using dtc.run_keeps_bound assms(5,6) by auto
  then show ?thesis by (auto simp: dtc.bound_inv_def dt_counts_def)
qed

theorem droptail_capacity_witness:
  "\<exists>s' xs. queue_run dt_enque (\<lambda>now. dt_deque (Some now)) [Arrive 0 1, Arrive 0 2] dt_example = Some s' \<and>
    dt_holds s' xs \<and> int (length xs) \<le> 2"
proof -
  have h: "dt_holds dt_example []" by (simp add: dt_holds_def dt_example_sel pq_ok_init)
  from dt.run_keeps_inv [of "[]" _ "[Arrive 0 1, Arrive 0 2]", OF run_inv_start [OF dt.discipline_axioms h]]
  obtain s' where "queue_run dt_enque (\<lambda>now. dt_deque (Some now)) [Arrive 0 1, Arrive 0 2] dt_example = Some s'"
    by (auto simp: dt_example_sel)
  with droptail_capacity [OF h _ _ _ _ this] show ?thesis by (simp add: dt_example_sel)
qed

text \<open>
  \<open>shrink_queue\<close> ends without a crash, drops packets from one end only, and leaves a
  queue that is within its limit.
\<close>

theorem droptail_shrink:
  assumes "dt_holds s xs" "0 \<le> q_lim s" "0 \<le> q_lim s * dt_mean_pktsize s"
  shows "\<exists>s' n. dt_shrink_queue s = Some s' \<and> \<not> dt_over s' \<and>
    dt_holds s' (if dt_drop_front s then drop n xs else take n xs) \<and> q_lim s' = q_lim s"
  using dt_shrink_queue_ends [OF assms] by blast

theorem droptail_shrink_witness:
  "\<exists>s' n. dt_shrink_queue dt_example = Some s' \<and> \<not> dt_over s' \<and>
    dt_holds s' (if dt_drop_front dt_example then drop n [] else take n []) \<and> q_lim s' = 3"
  using droptail_shrink [of dt_example "[]"] by (simp add: dt_holds_def dt_example_sel pq_ok_init)

section \<open>RED and NARED\<close>

text \<open>
  C15. In every run of a RED queue no operation fails, every packet that arrived has been sent
  or dropped once or is still held, packets are sent in order of arrival, and the queue is
  empty whenever the link is free, whatever the random draws.
\<close>

theorem red_run:
  assumes "red_holds s []" "q_out s = []" "distinct (arrivals ops)"
  shows "\<exists>s' xs. queue_run red_enque (\<lambda>now. red_deque (Some now)) ops s = Some s' \<and> red_holds s' xs \<and>
    mset xs + mset (out_pkts (q_out s')) = mset (arrivals ops) \<and>
    subseq (sent_pkts (q_out s') @ xs) (arrivals ops) \<and> (\<not> q_blocked s' \<longrightarrow> xs = [])"
  using red.run_keeps_inv [of "[]" s ops] run_inv_start [OF red.discipline_axioms assms(1,2)] assms(3)
  by (auto simp: red.run_inv_def accounted_def)

theorem red_run_witness:
  "\<exists>s' xs. queue_run red_enque (\<lambda>now. red_deque (Some now)) [Arrive 0 1, Arrive 0 2] (red_example 0 7 3) = Some s' \<and>
    red_holds s' xs \<and> mset xs + mset (out_pkts (q_out s')) = {#1, 2#} \<and>
    subseq (sent_pkts (q_out s') @ xs) [1, 2] \<and> (\<not> q_blocked s' \<longrightarrow> xs = [])"
  using red_run [OF red_example_holds [of 0 7 3], of "[Arrive 0 1, Arrive 0 2]"] by (simp add: red_example_sel)

text \<open>A RED queue that counts packets never holds more than \<open>limit\<close> of them.\<close>

theorem red_capacity:
  assumes "red_holds s []" "q_out s = []" "\<not> red_qib s" "0 \<le> q_lim s" "distinct (arrivals ops)"
    "queue_run red_enque (\<lambda>now. red_deque (Some now)) ops s = Some s'"
  shows "\<exists>xs. red_holds s' xs \<and> int (length xs) \<le> q_lim s"
proof -
  have c: "red_counts s []" using assms by (simp add: red_counts_def)
  then have "redc.run_inv [] s" by (rule run_inv_start [OF redc.discipline_axioms _ assms(2)])
  moreover have "redc.bound_inv (q_lim s) s" using c assms(4) by (auto simp: redc.bound_inv_def)
  ultimately have "redc.bound_inv (q_lim s) s'" using redc.run_keeps_bound assms(5,6) by auto
  then show ?thesis by (auto simp: redc.bound_inv_def red_counts_def)
qed

theorem red_capacity_witness:
  "\<exists>s' xs. queue_run red_enque (\<lambda>now. red_deque (Some now)) [Arrive 0 1, Arrive 0 2] (red_example 1 7 3) = Some s' \<and>
    red_holds s' xs \<and> int (length xs) \<le> 50"
proof -
  note h = red_example_holds [of 1 7 3]
  from red.run_keeps_inv [of "[]" _ "[Arrive 0 1, Arrive 0 2]", OF run_inv_start [OF red.discipline_axioms h]]
  obtain s' where "queue_run red_enque (\<lambda>now. red_deque (Some now)) [Arrive 0 1, Arrive 0 2] (red_example 1 7 3) = Some s'"
    by (auto simp: red_example_sel)
  with red_capacity [OF h _ _ _ _ this] show ?thesis by (simp add: red_example_sel)
qed

text \<open>
  The default estimator: on the first arrival after an idle period the average has
  decayed as if \<open>floor (ptc * idle)\<close> packets had found the queue empty, and the current
  queue size enters with weight \<open>q_w\<close>.
\<close>

theorem red_average_decays:
  assumes "e_is_modifiedRed (red_edp s) = 0" "e_cautious (red_edp s) \<noteq> 3" "red_idle s"
    "0 \<le> e_ptc (red_edp s)" "red_idletime s \<le> now"
  shows "v_ave (red_edv (red_average now s)) =
    v_ave (red_edv s) * (1 - e_q_w (red_edp s)) ^ nat (\<lfloor>e_ptc (red_edp s) * (now - red_idletime s)\<rfloor> + 1)
    + e_q_w (red_edp s) * of_int (red_qsize s)"
  using assms by (rule red_average_idle)

theorem red_average_decays_witness:
  "v_ave (red_edv (red_average (1 / 20) (red_example 0 7 3))) = 7 * (1 - 1 / 500) ^ 6"
  using red_average_decays [of "red_example 0 7 3" "1 / 20"]
  by (simp add: red_example_sel edp_example_def red_qsize_def pq_length_def pq_init_def)

text \<open>
  The estimator of NARED ignores the idle period: whatever the clock, one arrival mixes
  the old average and the queue size with weight \<open>q_w\<close>.
\<close>

theorem nared_average_ignores_idle:
  assumes "e_is_modifiedRed (red_edp s) \<noteq> 0"
  shows "v_ave (red_edv (red_average now s)) =
    (1 - e_q_w (red_edp s)) * v_ave (red_edv s) + e_q_w (red_edp s) * of_int (red_qsize s)"
  using assms by (rule nared_average)

theorem nared_average_ignores_idle_witness:
  "v_ave (red_edv (red_average 1000 (red_example 1 7 3))) = (1 - 1 / 500) * 7"
  using nared_average_ignores_idle [of "red_example 1 7 3" 1000]
  by (simp add: red_example_sel edp_example_def red_qsize_def pq_length_def pq_init_def)

text \<open>
  With the coefficients of \<open>reset\<close>, the initial drop probability of RED is a piecewise
  linear function of the average: from 0 at the lower threshold to \<open>max_p\<close> at the upper one,
  then to 1 at twice the upper threshold (gentle) or 1 at once.
\<close>

theorem red_probability_line:
  assumes "v = red_reset_edv e v0" "e_th_min e < e_th_max e" "0 < e_th_max e"
  shows "red_calculate_p_new ave (e_th_max e) (e_gentle e) (v_a v) (v_b v) (v_c v) (v_d v) (v_cur_max_p v) =
    (if ave < e_th_max e
     then min 1 (1 / e_max_p_inv e * (ave - e_th_min e) / (e_th_max e - e_th_min e))
     else if e_gentle e
     then min 1 (1 / e_max_p_inv e + (1 - 1 / e_max_p_inv e) * (ave - e_th_max e) / e_th_max e)
     else 1)"
  using red_line_eq [OF assms, of ave] by (simp add: red_line_def)

theorem red_probability_line_witness:
  "(let v = red_reset_edv (edp_example 0) (edv_example 0 0)
    in red_calculate_p_new 10 15 True (v_a v) (v_b v) (v_c v) (v_d v) (v_cur_max_p v)) = 1 / 20"
  using red_probability_line [OF refl, of "edp_example 0" 10 "edv_example 0 0"]
  by (simp add: edp_example_def Let_def)

text \<open>
  That probability is between 0 and 1 and does not decrease when the average grows.
\<close>

theorem red_probability_monotone:
  assumes "v = red_reset_edv e v0" "e_th_min e < e_th_max e" "0 < e_th_max e" "1 \<le> e_max_p_inv e"
    "e_th_min e \<le> x" "x \<le> y"
  shows "0 \<le> red_line e v x \<and> red_line e v x \<le> red_line e v y \<and> red_line e v y \<le> 1"
  using red_line_range [OF assms(1-4)] red_line_mono [OF assms] assms(5,6) by auto

theorem red_probability_monotone_witness:
  "\<exists>v. 0 \<le> red_line (edp_example 0) v 6 \<and> red_line (edp_example 0) v 6 \<le> red_line (edp_example 0) v 20 \<and>
    red_line (edp_example 0) v 20 \<le> 1"
  using red_probability_monotone [OF refl, of "edp_example 0" 6 20 "edv_example 0 0"]
  by (intro exI) (simp add: edp_example_def)

text \<open>
  C18. \<open>modify_p\<close> spaces the drops uniformly, in all four of its modes: counting packets, or bytes
  in packets of the mean size, and with or without waiting.  With a constant initial probability
  \<open>p\<close> the chance that the next drop is the packet with \<open>m + k\<close> counted since the last one is the
  same for all \<open>k\<close>: \<open>p / (b - m * p)\<close>, in proportion to its size when bytes are counted.  Without
  waiting \<open>b\<close> and \<open>m\<close> are 1.  With it \<open>b\<close> is 2 and \<open>m\<close> the least count with \<open>1 \<le> m * p\<close>, and no
  packet before that is dropped.  The last hypotheses keep the count where the probability has
  not reached 1.
\<close>

theorem drops_uniform:
  fixes b r :: real and bytes wait :: bool
  assumes "0 < p" "0 < mps" "\<And>i. counts mps i (cb i)" "b = (if wait then 2 else 1)"
    "if wait then 0 < m \<and> (real m - 1) * p < 1 \<and> 1 \<le> real m * p else m = 1"
    "r = (if bytes then of_int sz / of_int mps else 1)" "bytes \<longrightarrow> real (m + k + 1) * p < b" "r * p \<le> b - real (m + k) * p"
  shows "(\<Prod>i\<in>{1..<m + k}. 1 - the (red_modify_p p (int i) (cb i) bytes mps wait mps)) *
      the (red_modify_p p (int (m + k)) (cb (m + k)) bytes mps wait sz) = r * p / (b - real m * p) \<and>
    (wait \<longrightarrow> (\<forall>i<m. red_modify_p p (int i) (cb i) bytes mps wait sz = Some 0))"
proof (intro conjI impI allI)
  fix i assume w: "wait" "i < m"
  have "real i * p \<le> (real m - 1) * p" using w(2) assms(1) by (intro mult_right_mono) auto
  with assms(5) w(1) have "real i * p < 1" by simp
  from modify_p_waits [OF assms(2,3) this] w(1)
  show "red_modify_p p (int i) (cb i) bytes mps wait sz = Some 0" by simp
qed (rule modify_p_uniform [OF assms])

theorem drops_uniform_witness:
  "(\<Prod>i\<in>{1..<10 + 3}. 1 - the (red_modify_p (1 / 10) (int i) (500 * int i) True 500 True 500)) *
      the (red_modify_p (1 / 10) (int (10 + 3)) (500 * int (10 + 3)) True 500 True 1000) = 1 / 5"
proof -
  have "(\<Prod>i\<in>{1..<10 + 3}. 1 - the (red_modify_p (1 / 10) (int i) (500 * int i) True 500 True 500)) *
      the (red_modify_p (1 / 10) (int (10 + 3)) (500 * int (10 + 3)) True 500 True 1000) = 2 * (1 / 10) / (2 - real 10 * (1 / 10))"
    by (rule drops_uniform [THEN conjunct1]) (simp_all add: counts_def)
  also have "\<dots> = 1 / 5" by simp
  finally show ?thesis .
qed

text \<open>
  Adaptive RED moves \<open>max_p\<close> towards its target: it does not grow while the average is
  below the target range, does not shrink above it, and stays between 0 and any bound that
  is at least \<open>5 / 4\<close> of \<open>top\<close>.
\<close>

theorem adaptive_red_direction:
  fixes ave now :: real
  assumes "0 \<le> e_beta e" "e_beta e \<le> 1" "0 \<le> e_alpha e" "0 \<le> v_cur_max_p v" "e_th_min e \<le> e_th_max e"
    "5 / 4 * e_top e \<le> B" "v_cur_max_p v \<le> B"
  defines "v' \<equiv> red_updateMaxP ave now e v"
    and "target \<equiv> e_th_min e + 2 / 5 * (e_th_max e - e_th_min e)"
  shows "(ave < target \<longrightarrow> v_cur_max_p v' \<le> v_cur_max_p v) \<and>
    (target \<le> ave \<longrightarrow> v_cur_max_p v \<le> v_cur_max_p v') \<and> 0 \<le> v_cur_max_p v' \<and> v_cur_max_p v' \<le> B"
  unfolding v'_def target_def
  using updateMaxP_direction [OF assms(1-5), of ave now] updateMaxP_range [OF assms(1-3,6,4,7)] by blast

theorem adaptive_red_direction_witness:
  "v_cur_max_p (red_updateMaxP 6 1 (edp_example 0) (edv_example 6 0)) \<le> 1 / 10 \<and>
   1 / 10 \<le> v_cur_max_p (red_updateMaxP 12 1 (edp_example 0) (edv_example 12 0))"
  using adaptive_red_direction [of "edp_example 0" "edv_example 6 0" 1 6 1]
    adaptive_red_direction [of "edp_example 0" "edv_example 12 0" 1 12 1]
  by (simp add: edp_example_def edv_example_def)



section \<open>Random numbers\<close>

text \<open>
  \<open>MultModM\<close> is multiplication modulo \<open>m\<close>, and for the operands of the generator none
  of its intermediate values reaches \<open>2 ^ 53\<close>, so the arithmetic on doubles is exact.
\<close>

theorem MultModM_exact:
  assumes "\<bar>a\<bar> \<le> 2 ^ 32" "0 \<le> s" "s < 2 ^ 32" "0 \<le> c" "c < 2 ^ 32" "0 < m" "m < 2 ^ 32"
  shows "MultModM a s c m = (a * s + c) mod m \<and> \<bar>cdiv a rng_two17 * s\<bar> < rng_two53 \<and>
    \<bar>MultModM_split a s c m\<bar> < rng_two53"
  using MultModM_eq [OF assms(6)] split_mult_exact [OF assms] by blast

theorem MultModM_exact_witness:
  "MultModM 4127413238 4294967086 5 rng_m1 = (4127413238 * 4294967086 + 5) mod rng_m1"
  using MultModM_exact [of 4127413238 4294967086 5 rng_m1] by (simp add: rng_m1_def)

text \<open>
  From a legal state the generator returns a number in \<open>[0, 1)\<close> and leaves a legal
  state, in every combination of its antithetic and increased-precision modes.
\<close>

theorem rand_u01_legal:
  assumes "seed_ok (Cg g)"
  shows "0 \<le> fst (rand_u01 g) \<and> fst (rand_u01 g) < 1 \<and> seed_ok (Cg (snd (rand_u01 g)))"
  using rand_u01_range [OF assms] by blast

theorem rand_u01_legal_witness:
  "0 \<le> fst (rand_u01 rng_example) \<and> fst (rand_u01 rng_example) < 1"
  using rand_u01_legal [OF example_ok(1)] by blast

text \<open>\<open>rand_int\<close> stays in the closed interval it is given, and \<open>uniform k\<close> below \<open>k\<close>.\<close>

theorem rand_int_legal:
  assumes "seed_ok (Cg g)" "low \<le> high" "0 < k" "k < 2 ^ 32"
  shows "low \<le> fst (rand_int low high g) \<and> fst (rand_int low high g) \<le> high \<and>
    (\<exists>n g'. uniform_int k g = Some (n, g') \<and> 0 \<le> n \<and> n < k)"
  using rand_int_range [OF assms(1,2)] uniform_int_range [OF assms(1,3,4)] by blast

theorem rand_int_legal_witness:
  "- 3 \<le> fst (rand_int (- 3) 4 rng_example) \<and> fst (rand_int (- 3) 4 rng_example) \<le> 4"
  using rand_int_legal [OF example_ok(1), of "- 3" 4 1] by simp

text \<open>The next substream starts \<open>2 ^ 76\<close> draws after the current one.\<close>

theorem substream_distance:
  assumes "seed_ok (Bg g)"
  shows "Cg (reset_next_substream g) = Cg ((draw ^^ 2 ^ 76) (reset_start_substream g))"
  using assms by (rule next_substream_jump)

theorem substream_distance_witness:
  "Cg (reset_next_substream rng_example) = Cg ((draw ^^ 2 ^ 76) (reset_start_substream rng_example))"
  using substream_distance [OF example_ok(2)] .

text \<open>
  The seed prepared for the next stream lies \<open>2 ^ 127\<close> draws after the start of the one
  that is created.
\<close>

theorem stream_distance:
  assumes "seed_ok seed"
  shows "fst (rng_init seed g) = Cg ((draw ^^ 2 ^ 127) (snd (rng_init seed g)))"
  using assms by (rule next_stream_jump)

theorem stream_distance_witness:
  "fst (rng_init default_seed rng_example) = Cg ((draw ^^ 2 ^ 127) (snd (rng_init default_seed rng_example)))"
  using stream_distance [OF default_seed_ok] .

text \<open>
  C17. \<open>advance_state e c\<close> moves by \<open>\<plusminus>2 ^ |e| + c\<close> draws: forwards it equals drawing, and a
  backward jump undoes that many draws.
\<close>

theorem advance_state_jumps:
  assumes "seed_ok (Cg g)"
  shows "(0 \<le> jump e c \<longrightarrow> Cg (advance_state e c g) = Cg ((draw ^^ nat (jump e c)) g)) \<and>
    (jump e c < 0 \<longrightarrow> Cg (advance_state e c ((draw ^^ nat (- jump e c)) g)) = Cg g)"
  using advance_forward [OF assms] advance_back [OF assms, of e c "nat (- jump e c)"] by simp

theorem advance_state_jumps_witness:
  "Cg (advance_state 40 7 rng_example) = Cg ((draw ^^ (2 ^ 40 + 7)) rng_example) \<and>
   Cg (advance_state (- 5) 2 ((draw ^^ 30) rng_example)) = Cg rng_example"
  using advance_state_jumps [OF example_ok(1), of 40 7] advance_state_jumps [OF example_ok(1), of "- 5" 2]
  by (simp add: jump_def)

end
